(* ===== verification/Prelude.thy ===== *)
theory Prelude
  imports Main "HOL-Library.Word" "HOL-Library.AList" "HOL-Library.Sublist"
begin

text \<open>
  Shared vocabulary of the development.

  \<^item> names for Go's fixed-width integers, and the little-endian byte encodings of
    \<^verbatim>\<open>encoding/binary\<close> that the agent uses for every BPF key and value;
  \<^item> the functions of Go's \<^verbatim>\<open>strings\<close> package the code calls, on byte strings (a Go
    string is a byte sequence, here a \<open>char list\<close>); letter case and white space are those of
    ASCII;
  \<^item> Go maps as association lists: the list order stands for the (unspecified) iteration
    order, so a theorem about every list covers every order Go may choose;
  \<^item> the \<open>[64]int\<close> reference-count arrays as lists, and the 64-bit bitmap built from them.
\<close>

unbundle bit_operations_syntax

section \<open>Machine integers and little-endian encodings\<close>

type_synonym u8 = "8 word"
type_synonym u16 = "16 word"
type_synonym u32 = "32 word"
type_synonym u64 = "64 word"
type_synonym bytes = "8 word list"

named_theorems codec_simps \<open>encoders, decoders and the lengths of encodings\<close>

definition le16 :: "u16 \<Rightarrow> bytes" where
  "le16 w = [ucast w, ucast (drop_bit 8 w)]"

definition le32 :: "u32 \<Rightarrow> bytes" where
  "le32 w = [ucast w, ucast (drop_bit 8 w), ucast (drop_bit 16 w), ucast (drop_bit 24 w)]"

definition le64 :: "u64 \<Rightarrow> bytes" where
  "le64 w = [ucast w, ucast (drop_bit 8 w), ucast (drop_bit 16 w), ucast (drop_bit 24 w),
             ucast (drop_bit 32 w), ucast (drop_bit 40 w), ucast (drop_bit 48 w),
             ucast (drop_bit 56 w)]"

text \<open>Reading back: the first byte is the least significant one.\<close>

fun le_read :: "bytes \<Rightarrow> 'a::len word" where
  "le_read [] = 0"
| "le_read (b # bs) = ucast b OR push_bit 8 (le_read bs)"

text \<open>The general form of the three encoders, over which the round trip is proved once.\<close>

primrec le_enc :: "nat \<Rightarrow> 'a::len word \<Rightarrow> bytes" where
  "le_enc 0 w = []"
| "le_enc (Suc n) w = ucast w # le_enc n (drop_bit 8 w)"

lemma le_read_le_enc: "le_read (le_enc n w) = take_bit (8 * n) w"
proof (induction n arbitrary: w)
  case 0
  then show ?case by simp
next
  case (Suc n)
  have "ucast (ucast w :: 8 word) OR push_bit 8 (take_bit (8 * n) (drop_bit 8 w))
        = take_bit (8 * Suc n) w"
    by (rule bit_word_eqI) (auto simp: bit_simps)
  with Suc show ?case by simp
qed

lemma le16_enc: "le16 w = le_enc (Suc (Suc 0)) w"
  by (simp add: le16_def)

lemma le32_enc: "le32 w = le_enc (Suc (Suc (Suc (Suc 0)))) w"
  by (simp add: le32_def)

lemma le64_enc: "le64 w = le_enc (Suc (Suc (Suc (Suc (Suc (Suc (Suc (Suc 0)))))))) w"
  by (simp add: le64_def)

lemma length_le [codec_simps, simp]:
  "length (le16 a) = 2" "length (le32 b) = 4" "length (le64 c) = 8"
  by (simp_all add: le16_def le32_def le64_def)

lemma le_read_le [codec_simps, simp]:
  "le_read (le16 a) = a" "le_read (le32 b) = b" "le_read (le64 c) = c"
  by (simp_all add: le16_enc le32_enc le64_enc le_read_le_enc take_bit_word_eq_self
      del: le_enc.simps)

lemma le_inject [simp]:
  "le16 a = le16 a' \<longleftrightarrow> a = a'" "le32 b = le32 b' \<longleftrightarrow> b = b'" "le64 c = le64 c' \<longleftrightarrow> c = c'"
  by (metis le_read_le)+

section \<open>Go's strings package\<close>

definition upper_char :: "char \<Rightarrow> char" where
  "upper_char c = (let n = of_char c :: nat in
     if 97 \<le> n \<and> n \<le> 122 then char_of (n - 32) else c)"

definition lower_char :: "char \<Rightarrow> char" where
  "lower_char c = (let n = of_char c :: nat in
     if 65 \<le> n \<and> n \<le> 90 then char_of (n + 32) else c)"

definition strings_ToUpper :: "string \<Rightarrow> string" where
  "strings_ToUpper s = map upper_char s"

definition strings_ToLower :: "string \<Rightarrow> string" where
  "strings_ToLower s = map lower_char s"

definition is_space :: "char \<Rightarrow> bool" where
  "is_space c = (let n = of_char c :: nat in n = 32 \<or> 9 \<le> n \<and> n \<le> 13)"

definition strings_TrimSpace :: "string \<Rightarrow> string" where
  "strings_TrimSpace s = rev (dropWhile is_space (rev (dropWhile is_space s)))"

text \<open>\<^verbatim>\<open>strings.Split(s, sep)\<close> for a one-byte separator: never the empty list.\<close>

fun strings_Split :: "char \<Rightarrow> string \<Rightarrow> string list" where
  "strings_Split sep [] = [[]]"
| "strings_Split sep (c # cs) =
     (if c = sep then [] # strings_Split sep cs
      else case strings_Split sep cs of
             [] \<Rightarrow> [[c]]
           | w # ws \<Rightarrow> (c # w) # ws)"

fun strings_Join :: "string \<Rightarrow> string list \<Rightarrow> string" where
  "strings_Join sep [] = []"
| "strings_Join sep [x] = x"
| "strings_Join sep (x # y # zs) = x @ sep @ strings_Join sep (y # zs)"

definition strings_HasPrefix :: "string \<Rightarrow> string \<Rightarrow> bool" where
  "strings_HasPrefix s pre = (take (length pre) s = pre)"

fun strings_Contains :: "string \<Rightarrow> string \<Rightarrow> bool" where
  "strings_Contains [] sub = (sub = [])"
| "strings_Contains (c # cs) sub =
     (take (length sub) (c # cs) = sub \<or> strings_Contains cs sub)"

lemma strings_Contains_iff: "strings_Contains s sub \<longleftrightarrow> (\<exists>u v. s = u @ sub @ v)"
proof (induction s)
  case Nil
  then show ?case by auto
next
  case (Cons c cs)
  have "(\<exists>u v. c # cs = u @ sub @ v)
        \<longleftrightarrow> (\<exists>v. c # cs = sub @ v) \<or> (\<exists>u v. cs = u @ sub @ v)"
    by (metis append_Cons append_Nil append_eq_Cons_conv)
  moreover have "(\<exists>v. c # cs = sub @ v) \<longleftrightarrow> take (length sub) (c # cs) = sub"
    by (metis append_eq_conv_conj append_take_drop_id)
  ultimately show ?case using Cons.IH by auto
qed

lemma strings_Split_nonempty [simp]: "strings_Split sep s \<noteq> []"
  by (cases s) (auto split: list.splits)

lemma strings_Split_no_sep: "sep \<notin> set w \<Longrightarrow> strings_Split sep w = [w]"
  by (induction w) auto

lemma strings_Split_append:
  "sep \<notin> set w \<Longrightarrow> strings_Split sep (w @ sep # s) = w # strings_Split sep s"
  by (induction w) auto

text \<open>Splitting what was joined gives the parts back, when no part holds the separator.\<close>

lemma strings_Split_Join:
  "ws \<noteq> [] \<Longrightarrow> \<forall>w \<in> set ws. sep \<notin> set w \<Longrightarrow>
   strings_Split sep (strings_Join [sep] ws) = ws"
  by (induction "[sep]" ws rule: strings_Join.induct)
     (auto simp: strings_Split_no_sep strings_Split_append)

lemma TrimSpace_id:
  assumes "\<forall>c \<in> set s. \<not> is_space c"
  shows "strings_TrimSpace s = s"
proof -
  have id: "dropWhile is_space t = t" if "\<forall>c \<in> set t. \<not> is_space c" for t
    using that by (cases t) auto
  show ?thesis
    using id [of s] id [of "rev s"] assms by (simp add: strings_TrimSpace_def)
qed

section \<open>Go maps as association lists\<close>

type_synonym ('k, 'v) gomap = "('k \<times> 'v) list"

abbreviation keys_of :: "('k, 'v) gomap \<Rightarrow> 'k list" where
  "keys_of m \<equiv> map fst m"

text \<open>A Go map holds a key at most once.\<close>

abbreviation is_gomap :: "('k, 'v) gomap \<Rightarrow> bool" where
  "is_gomap m \<equiv> distinct (map fst m)"

lemmas gomap_simps = AList.update_conv' AList.delete_conv' distinct_update distinct_delete

lemma is_gomap_update [simp, intro]: "is_gomap m \<Longrightarrow> is_gomap (AList.update k v m)"
  by (rule distinct_update)

lemma is_gomap_delete [simp, intro]: "is_gomap m \<Longrightarrow> is_gomap (AList.delete k m)"
  by (rule distinct_delete)

lemma map_of_update [simp]: "map_of (AList.update k v m) = (map_of m)(k \<mapsto> v)"
  by (rule AList.update_conv')

lemma map_of_delete [simp]: "map_of (AList.delete k m) = (map_of m)(k := None)"
  by (rule AList.delete_conv')

lemma update_fresh: "map_of m k = None \<Longrightarrow> AList.update k v m = m @ [(k, v)]"
  by (induction m) (auto split: if_splits)

text \<open>Lookups stay lookups: the library would turn them into memberships.\<close>

declare map_of_eq_Some_iff [simp del] Some_eq_map_of_iff [simp del]

lemma set_gomap: "is_gomap m \<Longrightarrow> (k, v) \<in> set m \<longleftrightarrow> map_of m k = Some v"
  by (simp add: map_of_eq_Some_iff)

text \<open>How many entries of a map satisfy \<open>P\<close>, and how updates and deletions change that.\<close>

definition count_if :: "('k \<Rightarrow> 'v \<Rightarrow> bool) \<Rightarrow> ('k, 'v) gomap \<Rightarrow> nat" where
  "count_if P m = length (filter (\<lambda>(k, v). P k v) m)"

lemma count_if_Nil [simp]: "count_if P [] = 0"
  by (simp add: count_if_def)

lemma count_if_Cons [simp]:
  "count_if P ((k, v) # m) = (if P k v then 1 else 0) + count_if P m"
  by (simp add: count_if_def)

lemma count_if_le [simp]: "count_if P m \<le> length m"
  by (simp add: count_if_def)

lemma count_if_eq_0_iff: "count_if P m = 0 \<longleftrightarrow> (\<forall>(k, v) \<in> set m. \<not> P k v)"
  by (auto simp: count_if_def filter_empty_conv)

lemma count_if_pos: "map_of m k = Some w \<Longrightarrow> P k w \<Longrightarrow> 0 < count_if P m"
  using count_if_eq_0_iff [of P m] by (fastforce dest: map_of_SomeD)

lemma count_if_update:
  "is_gomap m \<Longrightarrow> count_if P (AList.update k v m) =
     (case map_of m k of
        None \<Rightarrow> count_if P m
      | Some w \<Rightarrow> count_if P m - (if P k w then 1 else 0)) + (if P k v then 1 else 0)"
proof (induction m)
  case Nil
  then show ?case by simp
next
  case (Cons a m)
  obtain k' v' where a: "a = (k', v')" by force
  show ?case
  proof (cases "k' = k")
    case True
    with Cons.prems a show ?thesis by (simp split: option.splits)
  next
    case False
    with Cons a show ?thesis
      by (cases "map_of m k") (auto dest: count_if_pos [of m k _ P])
  qed
qed

lemma count_if_delete:
  "is_gomap m \<Longrightarrow> count_if P (AList.delete k m) =
     count_if P m - (case map_of m k of None \<Rightarrow> 0 | Some w \<Rightarrow> if P k w then 1 else 0)"
proof (induction m)
  case Nil
  then show ?case by simp
next
  case (Cons a m)
  obtain k' v' where a: "a = (k', v')" by force
  show ?case
  proof (cases "k' = k")
    case True
    with Cons.prems a have "map_of m k = None" "AList.delete k m = m"
      by (auto simp: map_of_eq_None_iff)
    with True a show ?thesis by simp
  next
    case False
    with Cons a show ?thesis
      by (cases "map_of m k") (auto dest: count_if_pos [of m k _ P])
  qed
qed

lemma length_update:
  "length (AList.update k v m) = (case map_of m k of None \<Rightarrow> Suc (length m) | Some _ \<Rightarrow> length m)"
  by (induction m) (auto split: option.splits)

lemma count_if_True: "count_if (\<lambda>_ _. True) m = length m"
  by (simp add: count_if_def)

lemma length_delete:
  "is_gomap m \<Longrightarrow>
   length (AList.delete k m) = length m - (case map_of m k of None \<Rightarrow> 0 | Some _ \<Rightarrow> 1)"
  using count_if_delete [of m "\<lambda>_ _. True" k] by (simp add: count_if_True cong: option.case_cong)

section \<open>Reference-count arrays and bitmaps\<close>

text \<open>The value of a Go \<open>[64]int\<close> array declared without initialiser.\<close>

definition zero64 :: "int list" where
  "zero64 = replicate 64 0"

text \<open>
  The bitmap loop of the publish functions: bit \<open>i\<close> is set when the count at \<open>i\<close> is
  positive.
\<close>

fun bitmap_from :: "nat \<Rightarrow> int list \<Rightarrow> u64" where
  "bitmap_from i [] = 0"
| "bitmap_from i (c # cs) = (if 0 < c then push_bit i 1 else 0) OR bitmap_from (Suc i) cs"

definition combo_bitmap :: "int list \<Rightarrow> u64" where
  "combo_bitmap refs = bitmap_from 0 refs"

lemma bit_bitmap_from:
  "bit (bitmap_from i cs) n \<longleftrightarrow> n < 64 \<and> i \<le> n \<and> n - i < length cs \<and> 0 < cs ! (n - i)"
proof (induction cs arbitrary: i)
  case Nil
  then show ?case by simp
next
  case (Cons c cs)
  have "bit (if 0 < c then push_bit i (1::u64) else 0) n \<longleftrightarrow> n < 64 \<and> 0 < c \<and> n = i"
    by (auto simp: bit_simps)
  moreover have "0 < (c # cs) ! (n - i) \<longleftrightarrow> 0 < cs ! (n - Suc i)" if "Suc i \<le> n"
    using that by (simp add: Suc_diff_le [symmetric] nth_Cons' ) 
  ultimately show ?case
    using Cons.IH [of "Suc i"] by (cases "n = i") (auto simp: bit_or_iff)
qed

lemma bit_combo_bitmap:
  "length refs = 64 \<Longrightarrow> bit (combo_bitmap refs) n \<longleftrightarrow> n < 64 \<and> 0 < refs ! n"
  by (auto simp: combo_bitmap_def bit_bitmap_from)

end
