(* ===== verification/BpfMaps.thy ===== *)
theory BpfMaps
  imports Prelude
begin

text \<open>
  The kernel maps the agent writes to. The maps and the library that accesses them
  (\<^verbatim>\<open>github.com/cilium/ebpf\<close>) are not part of the repository: a map is a value of an unknown type
  with the operations the agent calls, passed as a record; a boolean result says whether the call
  returned a nil error. The documented behaviour the properties rely on is stated as predicates:
  a successful call has its effect, a failed one has none.
\<close>

section \<open>Operations\<close>

text \<open>
  Hash maps: \<^verbatim>\<open>Update(k, v, UpdateNoExist)\<close>, \<^verbatim>\<open>Delete(k)\<close>, \<^verbatim>\<open>Lookup(k)\<close> and the keys an iteration
  yields.
\<close>

record 'm hash_ops =
  UpdateNoExist :: "'m \<Rightarrow> bytes \<Rightarrow> bytes \<Rightarrow> bool \<times> 'm"
  Delete :: "'m \<Rightarrow> bytes \<Rightarrow> bool \<times> 'm"
  Lookup :: "'m \<Rightarrow> bytes \<Rightarrow> bytes option"
  Iterate :: "'m \<Rightarrow> bytes list"

text \<open>Array maps: \<^verbatim>\<open>Update(k, v, UpdateExist)\<close> and \<^verbatim>\<open>Lookup(k)\<close>.\<close>

record 'c array_ops =
  UpdateExist :: "'c \<Rightarrow> bytes \<Rightarrow> bytes \<Rightarrow> bool \<times> 'c"
  LookupArray :: "'c \<Rightarrow> bytes \<Rightarrow> bytes option"

section \<open>Documented behaviour\<close>

text \<open>
  \<open>get\<close> is the content of a hash map. Insertion succeeds only for an absent key and deletion only
  for a present one; either may fail for other reasons (a full map, a kernel error).
\<close>

definition hash_laws :: "'m hash_ops \<Rightarrow> ('m \<Rightarrow> bytes \<Rightarrow> bytes option) \<Rightarrow> bool" where
  "hash_laws ops get \<longleftrightarrow>
     (\<forall>m k v m'. UpdateNoExist ops m k v = (True, m') \<longrightarrow> get m k = None \<and> get m' = (get m)(k \<mapsto> v)) \<and>
     (\<forall>m k v m'. UpdateNoExist ops m k v = (False, m') \<longrightarrow> get m' = get m) \<and>
     (\<forall>m k m'. Delete ops m k = (True, m') \<longrightarrow> get m k \<noteq> None \<and> get m' = (get m)(k := None)) \<and>
     (\<forall>m k m'. Delete ops m k = (False, m') \<longrightarrow> get m' = get m) \<and>
     (\<forall>m. set (Iterate ops m) = dom (get m)) \<and>
     (\<forall>m k. Lookup ops m k = get m k)"

text \<open>A map whose calls fail only for the documented reasons.\<close>

definition hash_reliable :: "'m hash_ops \<Rightarrow> ('m \<Rightarrow> bytes \<Rightarrow> bytes option) \<Rightarrow> bool" where
  "hash_reliable ops get \<longleftrightarrow> hash_laws ops get \<and>
     (\<forall>m k v. get m k = None \<longrightarrow> fst (UpdateNoExist ops m k v)) \<and>
     (\<forall>m k. get m k \<noteq> None \<longrightarrow> fst (Delete ops m k))"

text \<open>
  An array map: all of its entries exist, so a lookup of an index succeeds; an update may fail, and
  then changes nothing.
\<close>

definition array_laws :: "'c array_ops \<Rightarrow> ('c \<Rightarrow> bytes \<Rightarrow> bytes) \<Rightarrow> bool" where
  "array_laws ops get \<longleftrightarrow>
     (\<forall>c k v c'. UpdateExist ops c k v = (True, c') \<longrightarrow> get c' = (get c)(k := v)) \<and>
     (\<forall>c k v c'. UpdateExist ops c k v = (False, c') \<longrightarrow> get c' = get c) \<and>
     (\<forall>c k. LookupArray ops c k = Some (get c k))"

lemma hash_lawsD:
  assumes "hash_laws ops get"
  shows "UpdateNoExist ops m k v = (True, m') \<Longrightarrow> get m k = None \<and> get m' = (get m)(k \<mapsto> v)"
    "UpdateNoExist ops m k v = (False, m') \<Longrightarrow> get m' = get m"
    "Delete ops m k = (True, m') \<Longrightarrow> get m k \<noteq> None \<and> get m' = (get m)(k := None)"
    "Delete ops m k = (False, m') \<Longrightarrow> get m' = get m"
    "set (Iterate ops m) = dom (get m)" "Lookup ops m k = get m k"
  using assms by (auto simp: hash_laws_def)

lemma hash_reliableD:
  assumes "hash_reliable ops get"
  shows "hash_laws ops get"
    "get m k = None \<Longrightarrow> \<exists>m'. UpdateNoExist ops m k v = (True, m') \<and> get m' = (get m)(k \<mapsto> v)"
    "get m k \<noteq> None \<Longrightarrow> \<exists>m'. Delete ops m k = (True, m') \<and> get m' = (get m)(k := None)"
proof -
  show l: "hash_laws ops get" using assms by (simp add: hash_reliable_def)
  have i: "get m k = None \<Longrightarrow> fst (UpdateNoExist ops m k v)" and d: "get m k \<noteq> None \<Longrightarrow> fst (Delete ops m k)"
    using assms unfolding hash_reliable_def by blast+
  show "get m k = None \<Longrightarrow> \<exists>m'. UpdateNoExist ops m k v = (True, m') \<and> get m' = (get m)(k \<mapsto> v)"
    using i hash_lawsD(1) [OF l, of m k v] by (cases "UpdateNoExist ops m k v") simp
  show "get m k \<noteq> None \<Longrightarrow> \<exists>m'. Delete ops m k = (True, m') \<and> get m' = (get m)(k := None)"
    using d hash_lawsD(3) [OF l, of m k] by (cases "Delete ops m k") simp
qed

lemma array_lawsD:
  assumes "array_laws ops get"
  shows "UpdateExist ops c k v = (True, c') \<Longrightarrow> get c' = (get c)(k := v)"
    "UpdateExist ops c k v = (False, c') \<Longrightarrow> get c' = get c"
    "LookupArray ops c k = Some (get c k)"
  using assms by (auto simp: array_laws_def)

section \<open>Clearing a map\<close>

text \<open>
  \<^verbatim>\<open>clearMap\<close>: every key the iteration yields is deleted; the result counts the failed deletions
  (\<open>None\<close> is the nil error).
\<close>

fun clear_loop :: "'m hash_ops \<Rightarrow> bytes list \<Rightarrow> 'm \<Rightarrow> nat \<Rightarrow> nat \<times> 'm" where
  "clear_loop ops [] m failed = (failed, m)"
| "clear_loop ops (k # ks) m failed =
     (let (ok, m') = Delete ops m k
      in clear_loop ops ks m' (if ok then failed else Suc failed))"

definition clearMap :: "'m hash_ops \<Rightarrow> 'm \<Rightarrow> nat option \<times> 'm" where
  "clearMap ops m =
     (let keys = Iterate ops m;
          (failed, m') = clear_loop ops keys m 0
      in (if failed > 0 then Some failed else None, m'))"

lemma clear_loop_content:
  assumes "hash_laws ops get" "clear_loop ops ks m n = (f, m')"
  shows "n \<le> f \<and> (\<forall>k. get m' k = None \<or> get m' k = get m k) \<and>
    (f = n \<longrightarrow> (\<forall>k \<in> set ks. get m' k = None))"
  using assms(2)
proof (induction ks arbitrary: m n)
  case (Cons k ks)
  obtain ok m1 where d: "Delete ops m k = (ok, m1)" by force
  have c: "clear_loop ops ks m1 (if ok then n else Suc n) = (f, m')" using Cons.prems d by simp
  note ih = Cons.IH [OF c]
  have m1: "get m1 = (if ok then (get m)(k := None) else get m)"
    using hash_lawsD(3,4) [OF assms(1), of m k] d by (cases ok) auto
  have "get m' j = None \<or> get m' j = get m j" for j
    using ih m1 by (metis fun_upd_apply)
  moreover have "get m' k = None" if "f = n"
  proof -
    have ok using ih that by (cases ok) auto
    then show ?thesis using ih m1 by (metis (full_types) fun_upd_same)
  qed
  ultimately show ?case using ih by (auto split: if_splits)
qed simp

lemma clearMap_content:
  assumes "hash_laws ops get" "clearMap ops m = (r, m')"
  shows "(\<forall>k. get m' k = None \<or> get m' k = get m k) \<and> (r = None \<longrightarrow> get m' = Map.empty)"
proof -
  obtain f where c: "clear_loop ops (Iterate ops m) m 0 = (f, m')" and r: "r = (if f > 0 then Some f else None)"
    using assms(2) by (auto simp: clearMap_def split: prod.splits)
  note l = clear_loop_content [OF assms(1) c]
  have "get m' = Map.empty" if "r = None"
  proof
    fix k
    have "f = 0" using that r by (auto split: if_splits)
    show "get m' k = None"
    proof (cases "k \<in> set (Iterate ops m)")
      case True
      with l \<open>f = 0\<close> show ?thesis by blast
    next
      case False
      then have "get m k = None" using hash_lawsD(5) [OF assms(1), of m] by blast
      then show ?thesis using l by metis
    qed
  qed
  with l show ?thesis by blast
qed

text \<open>On a reliable map the clearing always succeeds when no key is yielded twice.\<close>

lemma clear_loop_reliable:
  assumes "hash_reliable ops get" "distinct ks" "set ks \<subseteq> dom (get m)"
  shows "fst (clear_loop ops ks m n) = n"
  using assms(2,3)
proof (induction ks arbitrary: m)
  case (Cons k ks)
  then obtain m1 where m1: "Delete ops m k = (True, m1)" "get m1 = (get m)(k := None)"
    using hash_reliableD(3) [OF assms(1), of m k] by auto
  have "distinct ks" "set ks \<subseteq> dom (get m1)" using Cons.prems m1(2) by auto
  from Cons.IH [OF this] m1(1) show ?case by simp
qed simp

section \<open>Maps with a fault script\<close>

text \<open>
  A concrete map for the witnesses: an association list, and a list that says for each coming
  mutation whether the kernel fails it (an exhausted script fails nothing).
\<close>

type_synonym fmap = "(bytes, bytes) gomap \<times> bool list"

definition faulty :: "bool list \<Rightarrow> bool" where
  "faulty fs = (case fs of [] \<Rightarrow> False | f # _ \<Rightarrow> f)"

definition list_hash :: "fmap hash_ops" where
  "list_hash =
     \<lparr>UpdateNoExist = (\<lambda>(m, fs) k v.
        if faulty fs \<or> map_of m k \<noteq> None then (False, (m, tl fs)) else (True, (m @ [(k, v)], tl fs))),
      Delete = (\<lambda>(m, fs) k.
        if faulty fs \<or> map_of m k = None then (False, (m, tl fs)) else (True, (filter (\<lambda>(j, _). j \<noteq> k) m, tl fs))),
      Lookup = (\<lambda>(m, fs) k. map_of m k),
      Iterate = (\<lambda>(m, fs). map fst m)\<rparr>"

definition list_array :: "fmap array_ops" where
  "list_array =
     \<lparr>UpdateExist = (\<lambda>(m, fs) k v.
        if faulty fs then (False, (m, tl fs)) else (True, ((k, v) # m, tl fs))),
      LookupArray = (\<lambda>(m, fs) k. Some (case map_of m k of Some v \<Rightarrow> v | None \<Rightarrow> replicate 8 0))\<rparr>"

definition fmap_get :: "fmap \<Rightarrow> bytes \<Rightarrow> bytes option" where
  "fmap_get m = map_of (fst m)"

definition farray_get :: "fmap \<Rightarrow> bytes \<Rightarrow> bytes" where
  "farray_get m k = (case map_of (fst m) k of Some v \<Rightarrow> v | None \<Rightarrow> replicate 8 0)"

lemma map_of_filter_neq: "map_of (filter (\<lambda>(j, _). j \<noteq> k) m) = (map_of m)(k := None)"
  by (induction m) auto

lemma list_hash_laws: "hash_laws list_hash fmap_get"
  unfolding hash_laws_def fmap_get_def list_hash_def
  by (auto simp: map_of_filter_neq map_add_def fun_eq_iff dom_map_of_conv_image_fst
      split: if_splits option.splits)

lemma list_array_laws: "array_laws list_array farray_get"
  by (auto simp: array_laws_def list_array_def farray_get_def fun_eq_iff split: if_splits)

end
