(* ===== verification/GoNet.thy ===== *)
theory GoNet
  imports Prelude
begin

text \<open>
  The part of Go's standard packages \<^verbatim>\<open>net\<close> and \<^verbatim>\<open>net/netip\<close> that both programs use:
  \<^verbatim>\<open>ParseIP\<close>, \<^verbatim>\<open>ParseCIDR\<close>, \<^verbatim>\<open>IP.To4\<close>, \<^verbatim>\<open>IP.IsUnspecified\<close>, \<^verbatim>\<open>IP.String\<close>, \<^verbatim>\<open>CIDRMask\<close>,
  \<^verbatim>\<open>IPMask.Size\<close>, \<^verbatim>\<open>IP.Mask\<close>, \<^verbatim>\<open>IPNet.String\<close> and \<^verbatim>\<open>IPNet.Contains\<close>.

  A \<^verbatim>\<open>net.IP\<close> is a byte slice of length 4 or 16; \<open>None\<close> is the nil result of a failed
  parse. The parsers follow the standard library's loops: the loop over an IPv6 address is a
  recursion over the number of 16-bit groups still missing.
\<close>

section \<open>Parsing addresses\<close>

definition digit_val :: "char \<Rightarrow> nat option" where
  "digit_val c = (let n = of_char c :: nat in if 48 \<le> n \<and> n \<le> 57 then Some (n - 48) else None)"

definition hex_val :: "char \<Rightarrow> nat option" where
  "hex_val c = (let n = of_char c :: nat in
     if 48 \<le> n \<and> n \<le> 57 then Some (n - 48)
     else if 97 \<le> n \<and> n \<le> 102 then Some (n - 87)
     else if 65 \<le> n \<and> n \<le> 70 then Some (n - 55)
     else None)"

text \<open>
  \<^verbatim>\<open>parseIPv4Fields\<close>: \<open>at_start\<close> says that no digit precedes the current character in its
  field (start of the text, or just after a dot); \<open>digs\<close> counts the digits of the field.
\<close>

fun v4_fields :: "string \<Rightarrow> bool \<Rightarrow> nat \<Rightarrow> nat \<Rightarrow> bytes \<Rightarrow> bytes option" where
  "v4_fields [] at_start val digs fs =
     (if length fs < 3 then None else Some (fs @ [of_nat val]))"
| "v4_fields (c # cs) at_start val digs fs =
     (case digit_val c of
        Some d \<Rightarrow>
          if digs = 1 \<and> val = 0 then None
          else if 255 < val * 10 + d then None
          else v4_fields cs False (val * 10 + d) (Suc digs) fs
      | None \<Rightarrow>
          if c = CHR ''.'' then
            (if at_start \<or> cs = [] then None
             else if length fs = 3 then None
             else v4_fields cs True 0 0 (fs @ [of_nat val]))
          else None)"

definition parse_v4 :: "string \<Rightarrow> bytes option" where
  "parse_v4 s = v4_fields s True 0 0 []"

text \<open>The hexadecimal digits of one group: their number, their value and what follows.\<close>

fun hex_group :: "string \<Rightarrow> nat \<Rightarrow> nat \<Rightarrow> (nat \<times> nat \<times> string) option" where
  "hex_group [] off acc = Some (off, acc, [])"
| "hex_group (c # cs) off acc =
     (case hex_val c of
        None \<Rightarrow> Some (off, acc, c # cs)
      | Some d \<Rightarrow>
          if 3 < off then None
          else if 65535 < acc * 16 + d then None
          else hex_group cs (Suc off) (acc * 16 + d))"

text \<open>
  The group loop of \<^verbatim>\<open>parseIPv6\<close>. The first argument counts the groups still missing, the
  result is the unread text, the bytes read and the position of \<^verbatim>\<open>::\<close>.
\<close>

fun v6_groups :: "nat \<Rightarrow> string \<Rightarrow> bytes \<Rightarrow> nat option \<Rightarrow> (string \<times> bytes \<times> nat option) option" where
  "v6_groups 0 s ip ell = Some (s, ip, ell)"
| "v6_groups (Suc n) s ip ell =
     (case hex_group s 0 0 of
        None \<Rightarrow> None
      | Some (off, acc, rest) \<Rightarrow>
          if off = 0 then None
          else if rest \<noteq> [] \<and> hd rest = CHR ''.'' then
            (if ell = None \<and> length ip \<noteq> 12 then None
             else if 16 < length ip + 4 then None
             else case parse_v4 s of
                    None \<Rightarrow> None
                  | Some fs \<Rightarrow> Some ([], ip @ fs, ell))
          else
            (let ip' = ip @ [of_nat (acc div 256), of_nat (acc mod 256)]
             in case rest of
                  [] \<Rightarrow> Some ([], ip', ell)
                | c # r \<Rightarrow>
                    if c \<noteq> CHR '':'' then None
                    else if r = [] then None
                    else if hd r = CHR '':'' then
                      (if ell \<noteq> None then None
                       else if tl r = [] then Some ([], ip', Some (length ip'))
                       else v6_groups n (tl r) ip' (Some (length ip')))
                    else v6_groups n r ip' ell))"

definition v6_finish :: "string \<times> bytes \<times> nat option \<Rightarrow> bytes option" where
  "v6_finish r = (case r of (s, ip, ell) \<Rightarrow>
     if s \<noteq> [] then None
     else if length ip < 16 then
       (case ell of
          None \<Rightarrow> None
        | Some e \<Rightarrow> Some (take e ip @ replicate (16 - length ip) 0 @ drop e ip))
     else if ell \<noteq> None then None
     else Some ip)"

text \<open>
  \<^verbatim>\<open>parseIPv6\<close>: the address bytes and the zone. A zone is only ever tested for being empty.
\<close>

definition parse_v6 :: "string \<Rightarrow> (bytes \<times> string) option" where
  "parse_v6 text =
     (let s = takeWhile (\<lambda>c. c \<noteq> CHR ''%'') text;
          after = dropWhile (\<lambda>c. c \<noteq> CHR ''%'') text
      in if after \<noteq> [] \<and> tl after = [] then None
         else let zone = tl after in
           if take 2 s = ''::'' then
             (if drop 2 s = [] then Some (replicate 16 0, zone)
              else map_option (\<lambda>ip. (ip, zone))
                     (Option.bind (v6_groups 8 (drop 2 s) [] (Some 0)) v6_finish))
           else map_option (\<lambda>ip. (ip, zone))
                  (Option.bind (v6_groups 8 s [] None) v6_finish))"

datatype netip_addr = Addr4 bytes | Addr6 bytes string

text \<open>\<^verbatim>\<open>netip.ParseAddr\<close>: the first of the characters \<^verbatim>\<open>. : %\<close> decides the syntax.\<close>

definition netip_ParseAddr :: "string \<Rightarrow> netip_addr option" where
  "netip_ParseAddr s =
     (case dropWhile (\<lambda>c. c \<noteq> CHR ''.'' \<and> c \<noteq> CHR '':'' \<and> c \<noteq> CHR ''%'') s of
        [] \<Rightarrow> None
      | c # _ \<Rightarrow>
          if c = CHR ''.'' then map_option Addr4 (parse_v4 s)
          else if c = CHR '':'' then map_option (\<lambda>(ip, z). Addr6 ip z) (parse_v6 s)
          else None)"

definition v4_in_v6_prefix :: bytes where
  "v4_in_v6_prefix = replicate 10 0 @ [0xff, 0xff]"

fun as16 :: "netip_addr \<Rightarrow> bytes" where
  "as16 (Addr4 b) = v4_in_v6_prefix @ b"
| "as16 (Addr6 b z) = b"

fun zone_of :: "netip_addr \<Rightarrow> string" where
  "zone_of (Addr4 b) = []"
| "zone_of (Addr6 b z) = z"

fun bit_len :: "netip_addr \<Rightarrow> nat" where
  "bit_len (Addr4 b) = 32"
| "bit_len (Addr6 b z) = 128"

definition net_ParseIP :: "string \<Rightarrow> bytes option" where
  "net_ParseIP s =
     (case netip_ParseAddr s of
        None \<Rightarrow> None
      | Some a \<Rightarrow> if zone_of a \<noteq> [] then None else Some (as16 a))"

definition ip_To4 :: "bytes \<Rightarrow> bytes option" where
  "ip_To4 ip =
     (if length ip = 4 then Some ip
      else if length ip = 16 \<and> take 12 ip = v4_in_v6_prefix then Some (drop 12 ip)
      else None)"

definition ip_To16 :: "bytes \<Rightarrow> bytes option" where
  "ip_To16 ip =
     (if length ip = 4 then Some (v4_in_v6_prefix @ ip)
      else if length ip = 16 then Some ip
      else None)"

text \<open>\<^verbatim>\<open>ip.Equal(IPv4zero) || ip.Equal(IPv6unspecified)\<close> for a 4- or 16-byte address.\<close>

definition ip_IsUnspecified :: "bytes \<Rightarrow> bool" where
  "ip_IsUnspecified ip = (ip_To4 ip = Some [0, 0, 0, 0] \<or> ip = replicate 16 0)"

section \<open>Networks\<close>

record ipnet =
  net_IP :: bytes
  net_Mask :: bytes

text \<open>\<^verbatim>\<open>CIDRMask(ones, 8 * len)\<close>, byte by byte.\<close>

fun cidr_mask :: "nat \<Rightarrow> nat \<Rightarrow> bytes" where
  "cidr_mask 0 n = []"
| "cidr_mask (Suc l) n =
     (if 8 \<le> n then 0xff # cidr_mask l (n - 8)
      else NOT (drop_bit n 0xff) # cidr_mask l 0)"

fun leading_ones :: "nat \<Rightarrow> u8 \<Rightarrow> nat \<times> u8" where
  "leading_ones 0 v = (0, v)"
| "leading_ones (Suc k) v =
     (if v AND 0x80 \<noteq> 0 then (let (n, r) = leading_ones k (push_bit 1 v) in (Suc n, r))
      else (0, v))"

text \<open>\<^verbatim>\<open>simpleMaskLength\<close>: \<open>-1\<close> for a mask that is not ones followed by zeros.\<close>

fun simple_mask_length :: "bytes \<Rightarrow> int" where
  "simple_mask_length [] = 0"
| "simple_mask_length (v # vs) =
     (if v = 0xff then (let r = simple_mask_length vs in if r = -1 then -1 else 8 + r)
      else (let (n, r) = leading_ones 8 v in
            if r \<noteq> 0 \<or> (\<exists>b \<in> set vs. b \<noteq> 0) then -1 else int n))"

text \<open>The first result of \<^verbatim>\<open>IPMask.Size\<close>.\<close>

definition mask_Size :: "bytes \<Rightarrow> int" where
  "mask_Size m = (let n = simple_mask_length m in if n = -1 then 0 else n)"

text \<open>\<^verbatim>\<open>IP.Mask\<close>; the nil result of mismatched lengths is \<open>[]\<close>.\<close>

definition ip_Mask :: "bytes \<Rightarrow> bytes \<Rightarrow> bytes" where
  "ip_Mask ip0 m0 =
     (let m = (if length m0 = 16 \<and> length ip0 = 4 \<and> (\<forall>b \<in> set (take 12 m0). b = 0xff)
               then drop 12 m0 else m0);
          ip = (if length m = 4 \<and> length ip0 = 16 \<and> take 12 ip0 = v4_in_v6_prefix
                then drop 12 ip0 else ip0)
      in if length ip \<noteq> length m then [] else map2 (AND) ip m)"

text \<open>The digits of a prefix length (\<^verbatim>\<open>dtoi\<close>), with the bound the library puts on it.\<close>

fun dtoi_digits :: "string \<Rightarrow> nat \<Rightarrow> (nat \<times> string) option" where
  "dtoi_digits [] n = Some (n, [])"
| "dtoi_digits (c # cs) n =
     (case digit_val c of
        None \<Rightarrow> Some (n, c # cs)
      | Some d \<Rightarrow> if 0xFFFFFF \<le> n * 10 + d then None else dtoi_digits cs (n * 10 + d))"

definition dtoi_all :: "string \<Rightarrow> nat option" where
  "dtoi_all s =
     (if s = [] then None
      else case dtoi_digits s 0 of Some (n, []) \<Rightarrow> Some n | _ \<Rightarrow> None)"

definition net_ParseCIDR :: "string \<Rightarrow> (bytes \<times> ipnet) option" where
  "net_ParseCIDR s =
     (let addr = takeWhile (\<lambda>c. c \<noteq> CHR ''/'') s;
          after = dropWhile (\<lambda>c. c \<noteq> CHR ''/'') s
      in if after = [] then None
         else case netip_ParseAddr addr of
                None \<Rightarrow> None
              | Some a \<Rightarrow>
                  if zone_of a \<noteq> [] then None
                  else case dtoi_all (tl after) of
                         None \<Rightarrow> None
                       | Some n \<Rightarrow>
                           if bit_len a < n then None
                           else let m = cidr_mask (bit_len a div 8) n in
                             Some (as16 a, \<lparr>net_IP = ip_Mask (as16 a) m, net_Mask = m\<rparr>))"

definition network_number_and_mask :: "ipnet \<Rightarrow> (bytes \<times> bytes) option" where
  "network_number_and_mask n =
     (let ip = (case ip_To4 (net_IP n) of Some i \<Rightarrow> i | None \<Rightarrow> net_IP n);
          m = net_Mask n
      in if ip_To4 (net_IP n) = None \<and> length ip \<noteq> 16 then None
         else if length m = 4 then (if length ip \<noteq> 4 then None else Some (ip, m))
         else if length m = 16 then Some (ip, if length ip = 4 then drop 12 m else m)
         else None)"

definition ipnet_Contains :: "ipnet \<Rightarrow> bytes \<Rightarrow> bool" where
  "ipnet_Contains n ip0 =
     (case network_number_and_mask n of
        None \<Rightarrow> ip0 = []
      | Some (nn, m) \<Rightarrow>
          let ip = (case ip_To4 ip0 of Some x \<Rightarrow> x | None \<Rightarrow> ip0)
          in length ip = length nn \<and>
             (\<forall>i < length ip. nn ! i AND m ! i = ip ! i AND m ! i))"

section \<open>Printing\<close>

fun itoa :: "nat \<Rightarrow> string" where
  "itoa n = (if n < 10 then [char_of (48 + n)] else itoa (n div 10) @ [char_of (48 + n mod 10)])"

declare itoa.simps [simp del]

definition hex_digit :: "nat \<Rightarrow> char" where
  "hex_digit n = (if n < 10 then char_of (48 + n) else char_of (87 + n))"

text \<open>\<^verbatim>\<open>appendHex\<close>: a 16-bit value in lower-case hexadecimal without leading zeros.\<close>

definition append_hex :: "nat \<Rightarrow> string" where
  "append_hex x =
     (if 0x1000 \<le> x then [hex_digit (x div 4096 mod 16)] else []) @
     (if 0x100 \<le> x then [hex_digit (x div 256 mod 16)] else []) @
     (if 0x10 \<le> x then [hex_digit (x div 16 mod 16)] else []) @
     [hex_digit (x mod 16)]"

definition v4_string :: "bytes \<Rightarrow> string" where
  "v4_string b = strings_Join ''.'' (map (\<lambda>x. itoa (unat x)) b)"

fun u16_groups :: "bytes \<Rightarrow> nat list" where
  "u16_groups (a # b # r) = (unat a * 256 + unat b) # u16_groups r"
| "u16_groups _ = []"

text \<open>
  The longest run of at least two zero groups (the first one among equals), as start and end:
  \<open>(255, 255)\<close> when there is none. The end is compared as in the source, by the difference.
\<close>

fun zero_run :: "nat list \<Rightarrow> nat \<Rightarrow> nat \<times> nat \<Rightarrow> nat \<times> nat" where
  "zero_run [] i best = best"
| "zero_run (g # gs) i best =
     (let l = length (takeWhile (\<lambda>x. x = 0) (g # gs))
      in zero_run gs (Suc i)
           (if 2 \<le> l \<and> snd best - fst best < l then (i, i + l) else best))"

text \<open>Emission of the groups from index \<open>i\<close>: \<open>skip\<close> groups are still inside the run.\<close>

fun v6_emit :: "nat list \<Rightarrow> nat \<Rightarrow> nat \<times> nat \<Rightarrow> nat \<Rightarrow> string" where
  "v6_emit [] i run skip = []"
| "v6_emit (g # gs) i run skip =
     (if 0 < skip then v6_emit gs (Suc i) run (skip - 1)
      else if i = fst run then ''::'' @ v6_emit gs (Suc i) run (snd run - fst run - 1)
      else (if 0 < i \<and> i \<noteq> snd run then '':'' else []) @ append_hex g @ v6_emit gs (Suc i) run 0)"

definition v6_string :: "bytes \<Rightarrow> string" where
  "v6_string b = (let gs = u16_groups b in v6_emit gs 0 (zero_run gs 0 (255, 255)) 0)"

text \<open>\<^verbatim>\<open>IP.String\<close> of an address of 0, 4 or 16 bytes (the code prints no other length).\<close>

definition ip_String :: "bytes \<Rightarrow> string" where
  "ip_String ip =
     (if ip = [] then ''<nil>''
      else case ip_To4 ip of
             Some b \<Rightarrow> v4_string b
           | None \<Rightarrow> v6_string ip)"

definition ipnet_String :: "ipnet \<Rightarrow> string" where
  "ipnet_String n =
     (case network_number_and_mask n of
        None \<Rightarrow> ''<nil>''
      | Some (nn, m) \<Rightarrow>
          (let l = simple_mask_length m in
           if l = -1 then ip_String nn @ ''/'' @ concat (map (\<lambda>b. [hex_digit (unat b div 16), hex_digit (unat b mod 16)]) m)
           else ip_String nn @ ''/'' @ itoa (nat l)))"

end
