(* ===== verification/GoNetFacts.thy ===== *)
theory GoNetFacts
  imports GoNet
begin

text \<open>
  Facts about the model of \<^verbatim>\<open>net\<close>/\<^verbatim>\<open>netip\<close> in GoNet: the printed form of every address parses
  back to that address, for the dotted IPv4 syntax, for the IPv6 syntax with its compressed run
  of zero groups, and for IPv4-mapped addresses; parsed addresses are 16 bytes long.
\<close>

section \<open>Digits and groups\<close>

lemma unat_u8_less: "unat (x :: u8) < 256"
  using unsigned_less [of x] by simp

lemma hex_val_hex_digit [simp]: "n < 16 \<Longrightarrow> hex_val (hex_digit n) = Some n"
  by (auto simp: hex_val_def hex_digit_def Let_def)

definition stops :: "string \<Rightarrow> bool" where
  "stops rest \<longleftrightarrow> (case rest of [] \<Rightarrow> True | c # _ \<Rightarrow> hex_val c = None)"

lemma hex_group_digits:
  "\<lbrakk>acc < 16 ^ off; off + length ds \<le> 4; \<forall>d \<in> set ds. d < 16; stops rest\<rbrakk> \<Longrightarrow>
   hex_group (map hex_digit ds @ rest) off acc =
     Some (off + length ds, foldl (\<lambda>a d. a * 16 + d) acc ds, rest)"
proof (induction ds arbitrary: off acc)
  case Nil
  then show ?case by (cases rest) (auto simp: stops_def)
next
  case (Cons d ds)
  have lt: "acc * 16 + d < 16 ^ Suc off" using Cons.prems by simp
  have "(16::nat) ^ Suc off \<le> 16 ^ 4" using Cons.prems(2) using power_increasing [of "Suc off" 4 "16::nat"] by simp
  with lt have "acc * 16 + d \<le> 65535" by simp
  with Cons.IH [OF lt] Cons.prems show ?case by simp
qed

definition hex_digits :: "nat \<Rightarrow> nat list" where
  "hex_digits x =
     (if 0x1000 \<le> x then [x div 4096 mod 16] else []) @
     (if 0x100 \<le> x then [x div 256 mod 16] else []) @
     (if 0x10 \<le> x then [x div 16 mod 16] else []) @ [x mod 16]"

lemma append_hex_digits: "append_hex x = map hex_digit (hex_digits x)"
  by (simp add: append_hex_def hex_digits_def)

lemma hex_digits_length: "length (hex_digits x) \<le> 4"
  unfolding hex_digits_def by simp
lemma hex_digits_nonempty: "hex_digits x \<noteq> []"
  unfolding hex_digits_def by simp
lemma hex_digits_lt: "\<forall>d \<in> set (hex_digits x). d < 16"
proof
  fix d assume "d \<in> set (hex_digits x)"
  then show "d < 16"
    unfolding hex_digits_def by (cases "0x1000 \<le> x"; cases "0x100 \<le> x"; cases "0x10 \<le> x"; auto; arith)
qed
lemmas hex_digits_props = hex_digits_length hex_digits_nonempty hex_digits_lt

lemma hex_digits_value:
  assumes "x < 65536"
  shows "foldl (\<lambda>a d. a * 16 + d) 0 (hex_digits x) = x"
proof -
  have m: "x mod 4096 = x mod 256 + 256 * (x div 256 mod 16)"
    using mod_mult2_eq [of x 256 16] by simp
  have m2: "x mod 256 = x mod 16 + 16 * (x div 16 mod 16)"
    using mod_mult2_eq [of x 16 16] by simp
  have d: "x = 4096 * (x div 4096) + x mod 4096" by simp
  show ?thesis
    using assms m m2 d by (auto simp: hex_digits_def)
qed

lemma hex_group_append_hex:
  assumes "x < 65536" "stops rest"
  shows "hex_group (append_hex x @ rest) 0 0 = Some (length (hex_digits x), x, rest)"
  using hex_group_digits [of 0 0 "hex_digits x" rest] hex_digits_props [of x] hex_digits_value [OF assms(1)] assms(2)
  by (simp add: append_hex_digits)

section \<open>join and parse\<close>

text \<open>The bytes of a list of 16-bit groups.\<close>

definition group_bytes :: "nat list \<Rightarrow> bytes" where
  "group_bytes gs = concat (map (\<lambda>g. [of_nat (g div 256), of_nat (g mod 256)]) gs)"

lemma group_bytes_simps [simp]:
  "group_bytes [] = []"
  "group_bytes (g # gs) = of_nat (g div 256) # of_nat (g mod 256) # group_bytes gs"
  "group_bytes (gs @ hs) = group_bytes gs @ group_bytes hs"
  by (simp_all add: group_bytes_def)

lemma length_group_bytes [simp]: "length (group_bytes gs) = 2 * length gs"
  by (induction gs) auto

definition join_groups :: "nat list \<Rightarrow> string" where
  "join_groups gs = strings_Join '':'' (map append_hex gs)"

lemma join_groups_simps:
  "join_groups [] = []"
  "join_groups [g] = append_hex g"
  "gs \<noteq> [] \<Longrightarrow> join_groups (g # gs) = append_hex g @ '':'' @ join_groups gs"
  by (cases gs; simp add: join_groups_def)+

lemma stops_simps [simp]: "stops []" "stops (CHR '':'' # s)"
  by (simp_all add: stops_def hex_val_def)

lemma append_hex_Cons: "\<exists>c cs. append_hex x = c # cs \<and> c \<noteq> CHR '':''"
proof -
  obtain d ds where "hex_digits x = d # ds" "d < 16"
    using hex_digits_props [of x] by (cases "hex_digits x") auto
  moreover have "hex_digit d \<noteq> CHR '':''"
    using hex_val_hex_digit [OF \<open>d < 16\<close>] by (auto simp: hex_val_def)
  ultimately show ?thesis by (simp add: append_hex_digits)
qed

lemma hd_join_groups: "gs \<noteq> [] \<Longrightarrow> join_groups gs \<noteq> [] \<and> hd (join_groups gs @ s) \<noteq> CHR '':''"
  using append_hex_Cons [of "hd gs"] by (cases gs; cases "tl gs") (auto simp: join_groups_simps)

text \<open>A group list is read back, whatever \<^verbatim>\<open>::\<close> came before it.\<close>

lemma v6_groups_join:
  "\<lbrakk>gs \<noteq> []; length gs \<le> n; \<forall>g \<in> set gs. g < 65536\<rbrakk> \<Longrightarrow>
   v6_groups n (join_groups gs) ip ell = Some ([], ip @ group_bytes gs, ell)"
proof (induction gs arbitrary: n ip)
  case Nil
  then show ?case by simp
next
  case (Cons g gs)
  then obtain m where n: "n = Suc m" by (cases n) auto
  show ?case
  proof (cases "gs = []")
    case True
    with Cons.prems n show ?thesis
      using hex_group_append_hex [of g "[]"] hex_digits_nonempty [of g] by (simp add: join_groups_simps Let_def)
  next
    case False
    with Cons n show ?thesis
      using hex_group_append_hex [of g "CHR '':'' # join_groups gs"] hex_digits_nonempty [of g]
        hd_join_groups [of gs "[]"]
      by (simp add: join_groups_simps Let_def)
  qed
qed

text \<open>A \<^verbatim>\<open>::\<close> inside is recorded at the position reached.\<close>

lemma v6_groups_ellipsis:
  "\<lbrakk>gs \<noteq> []; length gs + length hs < n; \<forall>g \<in> set (gs @ hs). g < 65536\<rbrakk> \<Longrightarrow>
   v6_groups n (join_groups gs @ ''::'' @ join_groups hs) ip None =
     Some ([], ip @ group_bytes gs @ group_bytes hs, Some (length ip + 2 * length gs))"
proof (induction gs arbitrary: n ip)
  case Nil
  then show ?case by simp
next
  case (Cons g gs)
  then obtain m where n: "n = Suc m" by (cases n) auto
  show ?case
  proof (cases "gs = []")
    case True
    show ?thesis
    proof (cases "hs = []")
      case t: True
      with Cons.prems n True show ?thesis
        using hex_group_append_hex [of g "''::''"] hex_digits_nonempty [of g]
        by (simp add: join_groups_simps Let_def)
    next
      case False
      with Cons.prems n True show ?thesis
        using hex_group_append_hex [of g "''::'' @ join_groups hs"] hex_digits_nonempty [of g]
          v6_groups_join [of hs m "ip @ group_bytes [g]" "Some (length ip + 2)"] hd_join_groups [of hs "[]"]
        by (simp add: join_groups_simps Let_def)
    qed
  next
    case False
    with Cons n show ?thesis
      using hex_group_append_hex [of g "CHR '':'' # join_groups gs @ ''::'' @ join_groups hs"]
        hex_digits_nonempty [of g] hd_join_groups [of gs "[]"]
      by (simp add: join_groups_simps Let_def)
  qed
qed


section \<open>What the printer emits\<close>

lemma v6_emit_skip:
  "k \<le> length gs \<Longrightarrow> v6_emit gs i run k = v6_emit (drop k gs) (i + k) run 0"
proof (induction gs arbitrary: i k)
  case Nil
  then show ?case by simp
next
  case (Cons g gs)
  then show ?case by (cases k) auto
qed

lemma v6_emit_plain:
  "\<lbrakk>0 < i; \<forall>k < length gs. i + k \<noteq> fst run \<and> i + k \<noteq> snd run\<rbrakk> \<Longrightarrow>
   v6_emit gs i run 0 = concat (map (\<lambda>g. '':'' @ append_hex g) gs)"
proof (induction gs arbitrary: i)
  case Nil
  then show ?case by simp
next
  case (Cons g gs)
  have "\<forall>k < length gs. Suc i + k \<noteq> fst run \<and> Suc i + k \<noteq> snd run"
    using Cons.prems(2) by (auto dest: spec [of _ "Suc k" for k])
  with Cons.IH [of "Suc i"] Cons.prems show ?case by (force dest: spec [of _ 0])
qed

lemma join_groups_Cons:
  "join_groups (g # gs) = append_hex g @ concat (map (\<lambda>g. '':'' @ append_hex g) gs)"
  by (induction gs arbitrary: g) (auto simp: join_groups_def)

lemma v6_emit_first:
  "\<lbrakk>i = 0 \<or> i = snd run; \<forall>k < length gs. i + k \<noteq> fst run \<and> (0 < k \<longrightarrow> i + k \<noteq> snd run)\<rbrakk> \<Longrightarrow>
   v6_emit gs i run 0 = join_groups gs"
proof (cases gs)
  case (Cons g gs')
  assume a: "i = 0 \<or> i = snd run"
    "\<forall>k < length gs. i + k \<noteq> fst run \<and> (0 < k \<longrightarrow> i + k \<noteq> snd run)"
  have "\<forall>k < length gs'. Suc i + k \<noteq> fst run \<and> Suc i + k \<noteq> snd run"
    using a(2) Cons by (auto dest: spec [of _ "Suc k" for k])
  with v6_emit_plain [of "Suc i" gs' run] a Cons show ?thesis
    by (force simp: join_groups_Cons dest: spec [of _ 0])
qed (simp add: join_groups_simps)

lemma v6_emit_prefix:
  "\<lbrakk>i + length xs = fst run; fst run < snd run; ys \<noteq> []\<rbrakk> \<Longrightarrow>
   v6_emit (xs @ ys) i run 0 =
     (if i = 0 then join_groups xs else concat (map (\<lambda>g. '':'' @ append_hex g) xs))
     @ v6_emit ys (fst run) run 0"
proof (induction xs arbitrary: i)
  case Nil
  then show ?case by (simp add: join_groups_simps)
next
  case (Cons x xs)
  with Cons.IH [of "Suc i"] show ?case
    by (auto simp: join_groups_Cons)
qed

lemma v6_emit_run:
  assumes "s < e" "e \<le> length gs"
  shows "v6_emit gs 0 (s, e) 0 = join_groups (take s gs) @ ''::'' @ join_groups (drop e gs)"
proof -
  have ne: "drop s gs \<noteq> []" using assms by simp
  then obtain g r where d: "drop s gs = g # r" by (cases "drop s gs") auto
  have lr: "e - s - 1 \<le> length r" using d assms by (metis One_nat_def Suc_diff_Suc diff_le_mono
        length_Cons length_drop diff_Suc_Suc minus_nat.diff_0 diff_Suc_1)
  have dr: "drop (e - s - 1) r = drop e gs"
  proof -
    have "drop e gs = drop (e - s) (drop s gs)" using assms by simp
    also have "\<dots> = drop (e - s - 1) r" using d assms by (cases "e - s") auto
    finally show ?thesis by simp
  qed
  have "v6_emit gs 0 (s, e) 0 = v6_emit (take s gs @ drop s gs) 0 (s, e) 0" by simp
  also have "\<dots> = join_groups (take s gs) @ v6_emit (drop s gs) s (s, e) 0"
    by (subst v6_emit_prefix) (use assms ne in auto)
  also have "v6_emit (drop s gs) s (s, e) 0 = ''::'' @ v6_emit r (Suc s) (s, e) (e - s - 1)"
    by (simp add: d)
  also have "v6_emit r (Suc s) (s, e) (e - s - 1) = v6_emit (drop e gs) e (s, e) 0"
    using v6_emit_skip [OF lr] assms dr by simp
  also have "\<dots> = join_groups (drop e gs)"
    by (rule v6_emit_first) (use assms in auto)
  finally show ?thesis by simp
qed

text \<open>The run the printer replaces holds zeros only.\<close>

lemma zero_run_result:
  "zero_run gs i best = best \<or>
   (case zero_run gs i best of (s, e) \<Rightarrow>
      i \<le> s \<and> s + 2 \<le> e \<and> e \<le> i + length gs \<and> (\<forall>k. s \<le> k \<and> k < e \<longrightarrow> gs ! (k - i) = 0))"
proof (induction gs arbitrary: i best)
  case Nil
  then show ?case by simp
next
  case (Cons g gs)
  let ?l = "length (takeWhile (\<lambda>x. x = 0) (g # gs))"
  let ?b = "if 2 \<le> ?l \<and> snd best - fst best < ?l then (i, i + ?l) else best"
  have eq: "zero_run (g # gs) i best = zero_run gs (Suc i) ?b" by (simp add: Let_def)
  have tw: "(g # gs) ! j = 0" if "j < ?l" for j
  proof -
    have "takeWhile (\<lambda>x. x = 0) (g # gs) ! j \<in> set (takeWhile (\<lambda>x. x = 0) (g # gs))"
      using that by (rule nth_mem)
    then have "takeWhile (\<lambda>x. x = 0) (g # gs) ! j = 0" by (rule set_takeWhileD [THEN conjunct2])
    then show ?thesis using takeWhile_nth [OF that] by simp
  qed
  have len: "?l \<le> Suc (length gs)" using length_takeWhile_le [of "\<lambda>x. x = 0" "g # gs"] by simp
  obtain s e where se: "zero_run gs (Suc i) ?b = (s, e)" by force
  from Cons.IH [of "Suc i" ?b] show ?case
  proof
    assume "zero_run gs (Suc i) ?b = ?b"
    then show ?thesis using tw len eq by (auto split: if_splits)
  next
    assume r: "case zero_run gs (Suc i) ?b of (s, e) \<Rightarrow>
      Suc i \<le> s \<and> s + 2 \<le> e \<and> e \<le> Suc i + length gs \<and> (\<forall>k. s \<le> k \<and> k < e \<longrightarrow> gs ! (k - Suc i) = 0)"
    have "(g # gs) ! (k - i) = 0" if "s \<le> k" "k < e" for k
      using r se that by (simp add: nth_Cons')
    with r se eq show ?thesis by auto
  qed
qed

section \<open>Printing and parsing an IPv6 address\<close>

lemma group_bytes_u16_groups: "even (length b) \<Longrightarrow> group_bytes (u16_groups b) = b"
proof (induction b rule: u16_groups.induct)
  case (1 x y r)
  have "unat y < 256" by (rule unat_u8_less)
  with 1 show ?case by (simp add: unat_of_nat)
qed auto

lemma u16_groups_lt: "\<forall>g \<in> set (u16_groups b). g < 65536"
proof (induction b rule: u16_groups.induct)
  case (1 x y r)
  have "unat x < 256" "unat y < 256" by (rule unat_u8_less)+
  with 1 show ?case by auto
qed auto

lemma length_u16_groups: "length (u16_groups b) = length b div 2"
  by (induction b rule: u16_groups.induct) auto

lemma group_bytes_zeros: "\<forall>g \<in> set gs. g = 0 \<Longrightarrow> group_bytes gs = replicate (2 * length gs) 0"
  by (induction gs) auto

lemma join_groups_no_ellipsis: "take 2 (join_groups gs) \<noteq> ''::''"
  using append_hex_Cons [of "hd gs"] by (cases gs) (auto simp: join_groups_simps(1) join_groups_Cons)

lemma take2_append: "gs \<noteq> [] \<Longrightarrow> take 2 (join_groups gs @ s) \<noteq> ''::''"
  using hd_join_groups [of gs s] by (cases "join_groups gs @ s") auto

lemma append_hex_chars: "\<forall>c \<in> set (append_hex x). hex_val c \<noteq> None"
  using hex_digits_lt [of x] by (auto simp: append_hex_digits)

lemma join_groups_chars: "\<forall>c \<in> set (join_groups gs). hex_val c \<noteq> None \<or> c = CHR '':''"
  using append_hex_chars by (cases gs) (auto simp: join_groups_simps(1) join_groups_Cons)

text \<open>The shape of a printed address: no \<^verbatim>\<open>::\<close>, or one that stands for zero groups.\<close>

lemma v6_string_shape:
  assumes "length b = 16"
  obtains "v6_string b = join_groups (u16_groups b)"
  | s e where "s < e" "e \<le> 8" "\<forall>k. s \<le> k \<and> k < e \<longrightarrow> u16_groups b ! k = 0"
      "v6_string b = join_groups (take s (u16_groups b)) @ ''::'' @ join_groups (drop e (u16_groups b))"
proof -
  let ?gs = "u16_groups b"
  have l: "length ?gs = 8" using assms by (simp add: length_u16_groups)
  obtain s e where se: "zero_run ?gs 0 (255, 255) = (s, e)" by force
  from zero_run_result [of ?gs 0 "(255, 255)"] consider
    "(s, e) = (255, 255)" | "s + 2 \<le> e" "e \<le> 8" "\<forall>k. s \<le> k \<and> k < e \<longrightarrow> ?gs ! k = 0"
    using se l by auto
  then show ?thesis
  proof cases
    case 1
    have "v6_string b = v6_emit ?gs 0 (255, 255) 0" using se 1 by (simp add: v6_string_def)
    also have "\<dots> = join_groups ?gs" by (rule v6_emit_first) (use l in auto)
    finally show ?thesis by (rule that(1))
  next
    case 2
    have "v6_string b = v6_emit ?gs 0 (s, e) 0" using se by (simp add: v6_string_def)
    with v6_emit_run [of s e ?gs] 2 l show ?thesis by (intro that(2) [of s e]) auto
  qed
qed

lemma v6_string_chars:
  assumes "length b = 16"
  shows "\<forall>c \<in> set (v6_string b). hex_val c \<noteq> None \<or> c = CHR '':''"
  by (rule v6_string_shape [OF assms]) (use join_groups_chars in auto)

lemma split_zero_run:
  assumes "s < e" "e \<le> length gs" "\<forall>k. s \<le> k \<and> k < e \<longrightarrow> gs ! k = (0::nat)"
  shows "group_bytes gs =
    group_bytes (take s gs) @ replicate (2 * (e - s)) 0 @ group_bytes (drop e gs)"
proof -
  have "gs = take s gs @ take (e - s) (drop s gs) @ drop e gs"
    using assms by (metis append_take_drop_id le_add_diff_inverse less_imp_le drop_drop add.commute)
  moreover have "\<forall>g \<in> set (take (e - s) (drop s gs)). g = 0"
    using assms by (auto simp: in_set_conv_nth)
  ultimately show ?thesis
    using assms group_bytes_zeros [of "take (e - s) (drop s gs)"]
    by (metis (no_types, lifting) group_bytes_simps(3) length_drop length_take min.absorb2 diff_le_mono min_def)
qed

lemma parse_v6_no_zone:
  assumes "\<forall>c \<in> set t. c \<noteq> CHR ''%''"
  shows "parse_v6 t =
    (if take 2 t = ''::'' then
       (if drop 2 t = [] then Some (replicate 16 0, [])
        else map_option (\<lambda>ip. (ip, [])) (Option.bind (v6_groups 8 (drop 2 t) [] (Some 0)) v6_finish))
     else map_option (\<lambda>ip. (ip, [])) (Option.bind (v6_groups 8 t [] None) v6_finish))"
proof -
  have tw: "takeWhile (\<lambda>c. c \<noteq> CHR ''%'') t = t" "dropWhile (\<lambda>c. c \<noteq> CHR ''%'') t = []"
    using assms by auto
  show ?thesis by (simp only: parse_v6_def Let_def tw) simp
qed

lemma parse_v6_string:
  assumes "length b = 16"
  shows "parse_v6 (v6_string b) = Some (b, [])"
proof -
  let ?gs = "u16_groups b" and ?t = "v6_string b"
  have l: "length ?gs = 8" using assms by (simp add: length_u16_groups)
  have lt: "\<forall>g \<in> set ?gs. g < 65536" by (rule u16_groups_lt)
  have gb: "group_bytes ?gs = b" using assms by (simp add: group_bytes_u16_groups)
  have np: "\<forall>c \<in> set ?t. c \<noteq> CHR ''%''" using v6_string_chars [OF assms] by (auto simp: hex_val_def)
  note pv = parse_v6_no_zone [OF np]
  show ?thesis
  proof (rule v6_string_shape [OF assms])
    assume t: "?t = join_groups ?gs"
    have "v6_groups 8 ?t [] None = Some ([], b, None)"
      using v6_groups_join [of ?gs 8 "[]" None] l lt gb t by (metis append_Nil le_refl length_0_conv zero_neq_numeral)
    then show ?thesis
      using pv join_groups_no_ellipsis [of ?gs] t assms by (simp add: v6_finish_def)
  next
    fix s e
    assume se: "s < e" "e \<le> 8" "\<forall>k. s \<le> k \<and> k < e \<longrightarrow> ?gs ! k = 0"
      and t: "?t = join_groups (take s ?gs) @ ''::'' @ join_groups (drop e ?gs)"
    let ?pre = "take s ?gs" and ?post = "drop e ?gs"
    have b: "b = group_bytes ?pre @ replicate (2 * (e - s)) 0 @ group_bytes ?post"
      using split_zero_run [of s e ?gs] se l gb by simp
    have lp: "length ?pre = s" "length ?post = 8 - e" using se l by auto
    have ltp: "\<forall>g \<in> set (?pre @ ?post). g < 65536" using lt by (auto dest: in_set_takeD in_set_dropD)
    have r: "16 - (2 * s + 2 * (8 - e)) = 2 * (e - s)" using se by auto
    show ?thesis
    proof (cases "s = 0")
      case True
      show ?thesis
      proof (cases "?post = []")
        case True
        then have "e = 8" using se l by simp
        with \<open>s = 0\<close> b True t pv show ?thesis by (simp add: join_groups_simps)
      next
        case False
        have "v6_groups 8 (join_groups ?post) [] (Some 0) = Some ([], group_bytes ?post, Some 0)"
          using v6_groups_join [of ?post 8 "[]" "Some 0"] ltp False l by simp
        then show ?thesis
          using pv t \<open>s = 0\<close> b r lp se hd_join_groups [OF False, of "[]"]
          by (simp add: v6_finish_def join_groups_simps)
      qed
    next
      case False
      then have ne: "?pre \<noteq> []" using l by auto
      have "v6_groups 8 ?t [] None = Some ([], group_bytes ?pre @ group_bytes ?post, Some (2 * s))"
        using v6_groups_ellipsis [of ?pre ?post 8 "[]"] ne ltp lp se t by simp
      then show ?thesis
        using pv t take2_append [OF ne, of "''::'' @ join_groups ?post"] b r lp se
        by (simp add: v6_finish_def)
    qed
  qed
qed

lemma v6_string_has_colon:
  assumes "length b = 16"
  shows "CHR '':'' \<in> set (v6_string b)"
proof (rule v6_string_shape [OF assms])
  assume t: "v6_string b = join_groups (u16_groups b)"
  obtain g gs where g: "u16_groups b = g # gs" "gs \<noteq> []"
  proof (cases "u16_groups b")
    case Nil
    with assms length_u16_groups [of b] show ?thesis by simp
  next
    case (Cons g gs)
    with assms length_u16_groups [of b] have "gs \<noteq> []" by auto
    with Cons show ?thesis by (rule that)
  qed
  then show ?thesis by (cases gs) (simp_all add: t join_groups_Cons)
qed simp

lemma netip_ParseAddr_v6_string:
  assumes "length b = 16"
  shows "netip_ParseAddr (v6_string b) = Some (Addr6 b [])"
proof -
  let ?P = "\<lambda>c. c \<noteq> CHR ''.'' \<and> c \<noteq> CHR '':'' \<and> c \<noteq> CHR ''%''" and ?t = "v6_string b"
  have ne: "dropWhile ?P ?t \<noteq> []" using v6_string_has_colon [OF assms] by auto
  then have h: "\<not> ?P (hd (dropWhile ?P ?t))" by (rule hd_dropWhile)
  have "hd (dropWhile ?P ?t) \<in> set ?t" using ne by (metis hd_in_set set_dropWhileD)
  with h v6_string_chars [OF assms] have "hd (dropWhile ?P ?t) = CHR '':''"
    by (force simp: hex_val_def)
  with ne obtain r where "dropWhile ?P ?t = CHR '':'' # r" by (cases "dropWhile ?P ?t") auto
  then show ?thesis using parse_v6_string [OF assms] by (simp add: netip_ParseAddr_def)
qed

section \<open>Printing and parsing an IPv4 address\<close>

lemma digit_val_char [simp]: "d < 10 \<Longrightarrow> digit_val (char_of (48 + d)) = Some d"
  by (simp add: digit_val_def)

lemma itoa_lt10: "n < 10 \<Longrightarrow> itoa n = [char_of (48 + n)]"
  by (subst itoa.simps) simp

lemma itoa_lt100: "10 \<le> n \<Longrightarrow> n < 100 \<Longrightarrow> itoa n = [char_of (48 + n div 10), char_of (48 + n mod 10)]"
  by (subst itoa.simps) (simp add: itoa_lt10)

lemma itoa_lt1000:
  "100 \<le> n \<Longrightarrow> n < 1000 \<Longrightarrow>
   itoa n = [char_of (48 + n div 100), char_of (48 + n div 10 mod 10), char_of (48 + n mod 10)]"
  by (subst itoa.simps) (simp add: itoa_lt100 div_mult2_eq [symmetric])

lemma v4_fields_itoa:
  assumes "n < 256"
  shows "\<exists>k. \<forall>rest. v4_fields (itoa n @ rest) at_start 0 0 fs = v4_fields rest False n k fs"
proof -
  have a: "n div 10 * 10 + n mod 10 = n" by simp
  have "n div 100 = n div 10 div 10" by (simp add: div_mult2_eq [symmetric])
  then have b: "n div 100 * 10 + n div 10 mod 10 = n div 10" by simp
  have nb: "(255 < n div 10) = False"
    using assms div_le_dividend [of n 10] by simp
  consider "n < 10" | "10 \<le> n" "n < 100" | "100 \<le> n" by linarith
  then show ?thesis
  proof cases
    case 1
    then show ?thesis using assms by (intro exI [of _ "Suc 0"]) (simp add: itoa_lt10)
  next
    case 2
    then have q: "n div 10 < 10" "n div 10 \<noteq> 0" by auto
    with 2 assms a show ?thesis
      by (intro exI [of _ "Suc (Suc 0)"]) (simp add: itoa_lt100 nb)
  next
    case 3
    then have "n div 100 < 10" "n div 100 \<noteq> 0" using assms by auto
    with 3 assms a b show ?thesis
      by (intro exI [of _ "Suc (Suc (Suc 0))"]) (simp add: itoa_lt1000 nb)
  qed
qed

lemma itoa_chars:
  assumes "n < 1000"
  shows "\<forall>c \<in> set (itoa n). \<exists>d < (10::nat). c = char_of (48 + d)"
proof -
  have m: "n mod 10 < 10" "n div 10 mod 10 < 10" by simp_all
  consider "n < 10" | "10 \<le> n" "n < 100" | "100 \<le> n" by linarith
  then show ?thesis
  proof cases
    case 1
    then show ?thesis unfolding itoa_lt10 [OF 1] by auto
  next
    case 2
    then have "n div 10 < 10" by auto
    then show ?thesis unfolding itoa_lt100 [OF 2] using m by (simp only: list.set) blast
  next
    case 3
    then have "n div 100 < 10" using assms by auto
    then show ?thesis unfolding itoa_lt1000 [OF 3 assms] using m by (simp only: list.set) blast
  qed
qed

lemma itoa_no_dot:
  assumes "n < 1000" "c \<in> set (itoa n)"
  shows "c \<noteq> CHR ''.'' \<and> c \<noteq> CHR '':'' \<and> c \<noteq> CHR ''%'' \<and> c \<noteq> CHR ''/''"
proof -
  obtain d where "d < 10" "c = char_of (48 + d :: nat)" using itoa_chars assms by blast
  then have "digit_val c = Some d" by simp
  then show ?thesis by (auto simp: digit_val_def)
qed

lemma parse_v4_string:
  assumes "length b = 4"
  shows "parse_v4 (v4_string b) = Some b"
proof -
  obtain w x y z where b: "b = [w, x, y, z]"
    using assms by (auto simp: numeral_eq_Suc length_Suc_conv)
  obtain k where k: "\<forall>rest. v4_fields (itoa (unat w) @ rest) True 0 0 [] = v4_fields rest False (unat w) k []"
    using v4_fields_itoa [OF unat_u8_less] by blast
  obtain l where l: "\<forall>rest. v4_fields (itoa (unat x) @ rest) True 0 0 [w] = v4_fields rest False (unat x) l [w]"
    using v4_fields_itoa [OF unat_u8_less] by blast
  obtain m where m: "\<forall>rest. v4_fields (itoa (unat y) @ rest) True 0 0 [w, x] = v4_fields rest False (unat y) m [w, x]"
    using v4_fields_itoa [OF unat_u8_less] by blast
  obtain n where n: "\<forall>rest. v4_fields (itoa (unat z) @ rest) True 0 0 [w, x, y] = v4_fields rest False (unat z) n [w, x, y]"
    using v4_fields_itoa [OF unat_u8_less] by blast
  have dv: "digit_val CHR ''.'' = None" by (simp add: digit_val_def)
  have ne: "itoa i @ s \<noteq> []" for i s by (subst itoa.simps) simp
  have n0: "v4_fields (itoa (unat z)) True 0 0 [w, x, y] = Some b"
    using n [rule_format, of "[]"] b by simp
  show ?thesis
    by (simp add: parse_v4_def v4_string_def b k l m n0 dv ne ne [of _ "[]", simplified])
qed

lemma netip_ParseAddr_v4_string:
  assumes "length b = 4"
  shows "netip_ParseAddr (v4_string b) = Some (Addr4 b)"
proof -
  obtain w x y z where b: "b = [w, x, y, z]"
    using assms by (auto simp: numeral_eq_Suc length_Suc_conv)
  let ?P = "\<lambda>c. c \<noteq> CHR ''.'' \<and> c \<noteq> CHR '':'' \<and> c \<noteq> CHR ''%''"
  have "unat w < 1000" using unat_u8_less [of w] by simp
  then have "\<forall>c \<in> set (itoa (unat w)). ?P c" using itoa_no_dot by blast
  then have "\<exists>r. dropWhile ?P (v4_string b) = CHR ''.'' # r"
    by (auto simp: v4_string_def b)
  then show ?thesis using parse_v4_string [OF assms] by (auto simp: netip_ParseAddr_def)
qed

lemma v4_prefix_length [simp]: "length v4_in_v6_prefix = 12"
  by (simp add: v4_in_v6_prefix_def)

lemma strings_Join_chars:
  "c \<in> set (strings_Join sep ws) \<Longrightarrow> c \<in> set sep \<or> (\<exists>w \<in> set ws. c \<in> set w)"
  by (induction sep ws rule: strings_Join.induct) auto

lemma mapped_split:
  assumes "length b = 16" "take 12 b = v4_in_v6_prefix"
  shows "b = v4_in_v6_prefix @ drop 12 b"
  using assms by (metis append_take_drop_id)

theorem ParseIP_String:
  assumes "length b = 16"
  shows "net_ParseIP (ip_String b) = Some b"
proof (cases "take 12 b = v4_in_v6_prefix")
  case True
  have "ip_String b = v4_string (drop 12 b)"
    using assms True by (auto simp: ip_String_def ip_To4_def)
  with netip_ParseAddr_v4_string [of "drop 12 b"] mapped_split [OF assms True] assms show ?thesis
    by (simp add: net_ParseIP_def)
next
  case False
  have "ip_String b = v6_string b"
    using assms False by (auto simp: ip_String_def ip_To4_def)
  with netip_ParseAddr_v6_string [OF assms] show ?thesis by (simp add: net_ParseIP_def)
qed

section \<open>Lengths\<close>

lemma v4_fields_length:
  "length fs \<le> 3 \<Longrightarrow> v4_fields s st v d fs = Some r \<Longrightarrow> length r = 4"
  by (induction s st v d fs rule: v4_fields.induct) (auto split: option.splits if_splits)

lemma parse_v4_length: "parse_v4 s = Some r \<Longrightarrow> length r = 4"
  using v4_fields_length [of "[]"] by (simp add: parse_v4_def)

lemma v6_groups_bytes:
  "v6_groups n s ip ell = Some (t, ip', ell') \<Longrightarrow> length ip + 2 * n \<le> 16 \<Longrightarrow>
   (\<forall>e. ell = Some e \<longrightarrow> e \<le> length ip) \<Longrightarrow>
   length ip' \<le> 16 \<and> (\<forall>e. ell' = Some e \<longrightarrow> e \<le> length ip')"
proof (induction n s ip ell rule: v6_groups.induct)
  case (2 n s ip ell)
  then show ?case
    by (fastforce split: option.splits prod.splits if_splits list.splits
          simp: Let_def dest: parse_v4_length)
qed auto

lemma v6_finish_length:
  "v6_finish (t, ip, ell) = Some r \<Longrightarrow> length ip \<le> 16 \<Longrightarrow> (\<forall>e. ell = Some e \<longrightarrow> e \<le> length ip) \<Longrightarrow> length r = 16"
  by (auto simp: v6_finish_def split: if_splits option.splits)

lemma v6_groups_finish_length:
  assumes "Option.bind (v6_groups 8 s [] ell) v6_finish = Some r" "ell = None \<or> ell = Some 0"
  shows "length r = 16"
proof -
  obtain t ip ell' where g: "v6_groups 8 s [] ell = Some (t, ip, ell')"
    and f: "v6_finish (t, ip, ell') = Some r"
    using assms(1) by (auto simp: bind_eq_Some_conv)
  have "length ip \<le> 16 \<and> (\<forall>e. ell' = Some e \<longrightarrow> e \<le> length ip)"
    by (rule v6_groups_bytes [OF g]) (use assms(2) in auto)
  with f show ?thesis by (blast intro: v6_finish_length)
qed

lemma parse_v6_length: "parse_v6 s = Some (b, z) \<Longrightarrow> length b = 16"
  by (auto simp: parse_v6_def Let_def split: if_splits dest: v6_groups_finish_length)

lemma ParseAddr_length:
  assumes "netip_ParseAddr s = Some a"
  shows "length (as16 a) = 16 \<and> (\<forall>b. a = Addr4 b \<longrightarrow> length b = 4)"
  using assms by (auto simp: netip_ParseAddr_def v4_in_v6_prefix_def split: list.splits if_splits
      dest: parse_v4_length parse_v6_length)

lemma ParseIP_length: "net_ParseIP s = Some b \<Longrightarrow> length b = 16"
  using ParseAddr_length by (auto simp: net_ParseIP_def split: option.splits if_splits)

end
