(* ===== verification/GoNetCidr.thy ===== *)
theory GoNetCidr
  imports GoNetFacts
begin

text \<open>
  Facts about the CIDR part of the \<^verbatim>\<open>net\<close> model: the shape of a parsed network, the round trip
  of its printed form, and containment of networks.
\<close>

section \<open>Masks\<close>

lemma length_cidr_mask [simp]: "length (cidr_mask l k) = l"
  by (induction l k rule: cidr_mask.induct) auto

lemma cidr_mask_0: "cidr_mask l 0 = replicate l 0"
  by (induction l) (auto simp: )

lemma drop_cidr_mask: "8 * d \<le> k \<Longrightarrow> drop d (cidr_mask (d + l) k) = cidr_mask l (k - 8 * d)"
  by (induction d arbitrary: k) auto

lemma take_cidr_mask: "8 * d \<le> k \<Longrightarrow> take d (cidr_mask (d + l) k) = replicate d 0xff"
  by (induction d arbitrary: k) auto

text \<open>The partial byte of a mask: \<open>n\<close> ones.\<close>

lemma mask_bytes:
  "list_all (\<lambda>n. NOT (drop_bit n (0xff :: u8)) \<noteq> 0xff \<and>
     leading_ones 8 (NOT (drop_bit n (0xff :: u8))) = (n, 0)) [0, 1, 2, 3, 4, 5, 6, 7]"
  by code_simp

lemma mask_byte:
  assumes "n < 8"
  shows "NOT (drop_bit n (0xff :: u8)) \<noteq> 0xff"
    "leading_ones 8 (NOT (drop_bit n (0xff :: u8))) = (n, 0)"
proof -
  have "n \<in> set [0, 1, 2, 3, 4, 5, 6, 7]" using assms by auto
  then show "NOT (drop_bit n (0xff :: u8)) \<noteq> 0xff"
    "leading_ones 8 (NOT (drop_bit n (0xff :: u8))) = (n, 0)"
    using mask_bytes unfolding list_all_iff by blast+
qed

lemma simple_mask_length_cidr_mask:
  "k \<le> 8 * l \<Longrightarrow> simple_mask_length (cidr_mask l k) = int k"
proof (induction l k rule: cidr_mask.induct)
  case (2 l n)
  show ?case
  proof (cases "8 \<le> n")
    case True
    with 2 show ?thesis by (simp add: Let_def)
  next
    case False
    with mask_byte [of n] show ?thesis by (simp add: cidr_mask_0)
  qed
qed simp

lemma cidr_mask_nth_ff: "i < l \<Longrightarrow> cidr_mask l k ! i = 0xff \<longleftrightarrow> 8 * Suc i \<le> k"
proof (induction l k arbitrary: i rule: cidr_mask.induct)
  case (2 l n)
  show ?case
  proof (cases "8 \<le> n")
    case True
    with 2 show ?thesis by (cases i) auto
  next
    case False
    with 2 mask_byte [of n] show ?thesis by (cases i) (auto simp: cidr_mask_0)
  qed
qed simp

text \<open>A shorter mask keeps fewer bits.\<close>

lemma drop_bit_ff_mono:
  "list_all (\<lambda>j. list_all (\<lambda>k. k < j \<or>
     NOT (drop_bit j (0xff :: u8)) AND NOT (drop_bit k 0xff) = NOT (drop_bit j 0xff))
       [0, 1, 2, 3, 4, 5, 6, 7]) [0, 1, 2, 3, 4, 5, 6, 7]"
  by code_simp

lemma cidr_mask_mono:
  "j \<le> k \<Longrightarrow> map2 (AND) (cidr_mask l j) (cidr_mask l k) = cidr_mask l j"
proof (induction l k arbitrary: j rule: cidr_mask.induct)
  case (2 l n)
  have ff: "w AND 0xff = w" "0xff AND w = w" for w :: u8
  proof -
    have "(0xff :: u8) = - 1" by simp
    then show "w AND 0xff = w" "0xff AND w = w" by (simp_all only: and.right_neutral and.left_neutral)
  qed
  have z: "map2 (AND) (replicate l 0) (m :: bytes) = replicate l 0" if "length m = l" for m
    using that by (simp add: list_eq_iff_nth_eq)
  show ?case
  proof (cases "8 \<le> n")
    case True
    with 2 z show ?thesis by (simp add: ff cidr_mask_0)
  next
    case False
    then have "j \<in> set [0, 1, 2, 3, 4, 5, 6, 7]" "n \<in> set [0, 1, 2, 3, 4, 5, 6, 7]" "\<not> n < j"
      using 2 by auto
    then have "NOT (drop_bit j (0xff :: u8)) AND NOT (drop_bit n 0xff) = NOT (drop_bit j 0xff)"
      using drop_bit_ff_mono unfolding list_all_iff by blast
    with False 2 z show ?thesis by (simp add: cidr_mask_0)
  qed
qed simp

section \<open>The network number of a parsed CIDR\<close>

definition masked :: "bytes \<Rightarrow> nat \<Rightarrow> bytes" where
  "masked b k = map2 (AND) b (cidr_mask (length b) k)"

lemma length_masked [simp]: "length (masked b k) = length b"
  by (simp add: masked_def)

lemma nth_masked: "i < length b \<Longrightarrow> masked b k ! i = b ! i AND cidr_mask (length b) k ! i"
  by (simp add: masked_def)

lemma masked_masked: "j \<le> k \<Longrightarrow> masked (masked b k) j = masked b j"
proof (rule nth_equalityI)
  fix i assume "j \<le> k" "i < length (masked (masked b k) j)"
  then have i: "i < length b" by simp
  have "cidr_mask (length b) j ! i AND cidr_mask (length b) k ! i = cidr_mask (length b) j ! i"
    using cidr_mask_mono [OF \<open>j \<le> k\<close>, of "length b"] i
    by (metis (no_types, lifting) length_cidr_mask length_zip min.idem nth_map nth_zip case_prod_conv)
  then show "masked (masked b k) j ! i = masked b j ! i"
    using i by (simp add: nth_masked and.assoc) (metis and.commute)
qed simp

text \<open>What the network of a parsed CIDR looks like: its number \<open>nn\<close> and prefix length \<open>k\<close>.\<close>

definition is_view :: "ipnet \<Rightarrow> bytes \<Rightarrow> nat \<Rightarrow> bool" where
  "is_view n nn k \<longleftrightarrow> network_number_and_mask n = Some (nn, cidr_mask (length nn) k) \<and>
     (length nn = 4 \<or> length nn = 16 \<and> ip_To4 nn = None) \<and> k \<le> 8 * length nn \<and>
     masked nn k = nn \<and> (ip_To4 (net_IP n) = None \<longleftrightarrow> length nn = 16)"

lemma ParseCIDR_Some:
  assumes "net_ParseCIDR s = Some (ip, n)"
  shows "\<exists>a k. netip_ParseAddr (takeWhile (\<lambda>c. c \<noteq> CHR ''/'') s) = Some a \<and> zone_of a = [] \<and>
    k \<le> bit_len a \<and> ip = as16 a \<and> net_IP n = ip_Mask (as16 a) (cidr_mask (bit_len a div 8) k) \<and>
    net_Mask n = cidr_mask (bit_len a div 8) k"
proof -
  obtain a k where "netip_ParseAddr (takeWhile (\<lambda>c. c \<noteq> CHR ''/'') s) = Some a" "zone_of a = []"
    "dtoi_all (tl (dropWhile (\<lambda>c. c \<noteq> CHR ''/'') s)) = Some k"
    using assms by (auto simp: net_ParseCIDR_def Let_def split: option.splits if_splits)
  then show ?thesis
    using assms by (intro exI [of _ a] exI [of _ k]) (auto simp: net_ParseCIDR_def Let_def split: if_splits)
qed

lemma and_ff: "v AND w = (0xff :: u8) \<Longrightarrow> w = 0xff"
proof -
  have "(0xff :: u8) = - 1" by simp
  then show "v AND w = 0xff \<Longrightarrow> w = 0xff" by (simp only: and_eq_minus_1_iff)
qed

lemma view_v4:
  assumes "net_IP n = ip_Mask (v4_in_v6_prefix @ b) (cidr_mask 4 k)" "net_Mask n = cidr_mask 4 k"
    "length b = 4" "k \<le> 32"
  shows "is_view n (masked b k) k"
proof -
  have "net_IP n = masked b k"
    using assms(1,3) by (simp add: ip_Mask_def masked_def)
  with assms(2-) masked_masked [of k k b] show ?thesis
    by (simp add: is_view_def network_number_and_mask_def ip_To4_def)
qed

lemma view_v6:
  assumes "net_IP n = masked b k" "net_Mask n = cidr_mask 16 k" "length b = 16" "k \<le> 128"
    "take 12 (masked b k) \<noteq> v4_in_v6_prefix"
  shows "is_view n (masked b k) k"
  using assms masked_masked [of k k b]
  by (simp add: is_view_def network_number_and_mask_def ip_To4_def)

lemma drop_masked:
  assumes "length b = 16" "96 \<le> k"
  shows "drop 12 (masked b k) = masked (drop 12 b) (k - 96)"
proof -
  have "drop 12 (cidr_mask 16 k) = cidr_mask 4 (k - 96)"
    using drop_cidr_mask [of 12 k 4] assms by simp
  then show ?thesis using assms by (simp add: masked_def drop_map drop_zip)
qed

text \<open>An IPv4-mapped network: its view is the IPv4 one.\<close>

lemma view_mapped:
  assumes "net_IP n = masked b k" "net_Mask n = cidr_mask 16 k" "length b = 16" "k \<le> 128"
    "take 12 (masked b k) = v4_in_v6_prefix"
  shows "is_view n (masked (drop 12 b) (k - 96)) (k - 96)"
proof -
  have "masked b k ! 11 = v4_in_v6_prefix ! 11"
    using arg_cong [OF assms(5), of "\<lambda>x. x ! 11"] assms(3) by simp
  then have "b ! 11 AND cidr_mask 16 k ! 11 = 0xff"
    using assms(3) by (simp add: nth_masked v4_in_v6_prefix_def nth_append)
  then have "cidr_mask 16 k ! 11 = 0xff" by (rule and_ff)
  then have k96: "96 \<le> k" using cidr_mask_nth_ff [of 11 16 k] by simp
  have "drop 12 (cidr_mask 16 k) = cidr_mask 4 (k - 96)"
    using drop_cidr_mask [of 12 k 4] k96 by simp
  then show ?thesis
    using assms k96 drop_masked [OF assms(3) k96] masked_masked [of "k - 96" "k - 96" "drop 12 b"]
    by (simp add: is_view_def network_number_and_mask_def ip_To4_def)
qed

lemma ParseCIDR_view:
  assumes "net_ParseCIDR s = Some (ip, n)"
  shows "\<exists>nn k. is_view n nn k"
proof -
  obtain a k where a: "netip_ParseAddr (takeWhile (\<lambda>c. c \<noteq> CHR ''/'') s) = Some a"
    and k: "k \<le> bit_len a" and ip: "net_IP n = ip_Mask (as16 a) (cidr_mask (bit_len a div 8) k)"
    and m: "net_Mask n = cidr_mask (bit_len a div 8) k"
    using ParseCIDR_Some [OF assms] by blast
  show ?thesis
  proof (cases a)
    case (Addr4 b)
    then show ?thesis using view_v4 [of n b k] ParseAddr_length [OF a] ip m k by auto
  next
    case (Addr6 b z')
    have l: "length b = 16" using ParseAddr_length [OF a] Addr6 by simp
    have w: "net_IP n = masked b k" using ip l Addr6 by (simp add: ip_Mask_def masked_def)
    show ?thesis
      using view_v6 [OF w _ l] view_mapped [OF w _ l] m k Addr6 by fastforce
  qed
qed

lemma ParseCIDR_length: "net_ParseCIDR s = Some (ip, n) \<Longrightarrow> length ip = 16"
  using ParseCIDR_Some ParseAddr_length by blast

section \<open>Printing a network\<close>

text \<open>The printed form is determined by the view, and parses back to it.\<close>

definition view_string :: "bytes \<Rightarrow> nat \<Rightarrow> string" where
  "view_string nn k = ip_String nn @ ''/'' @ itoa k"

definition view_net :: "bytes \<Rightarrow> nat \<Rightarrow> ipnet" where
  "view_net nn k = \<lparr>net_IP = nn, net_Mask = cidr_mask (length nn) k\<rparr>"

lemma ipnet_String_view: "is_view n nn k \<Longrightarrow> ipnet_String n = view_string nn k"
  by (auto simp: is_view_def ipnet_String_def view_string_def simple_mask_length_cidr_mask)

lemma dtoi_itoa:
  assumes "n < 1000"
  shows "dtoi_all (itoa n) = Some n"
proof -
  have ne: "itoa n \<noteq> []" by (subst itoa.simps) simp
  have b: "n div 100 * 10 + n div 10 mod 10 = n div 10"
  proof -
    have "n div 100 = n div 10 div 10" by (simp add: div_mult2_eq [symmetric])
    then show ?thesis by simp
  qed
  consider "n < 10" | "10 \<le> n" "n < 100" | "100 \<le> n" by linarith
  then have "dtoi_digits (itoa n) 0 = Some (n, [])"
  proof cases
    case 1
    then show ?thesis by (simp add: itoa_lt10)
  next
    case 2
    then have "n div 10 < 10" "n div 10 < 16777215" by auto
    with 2 show ?thesis by (simp add: itoa_lt100)
  next
    case 3
    then have "n div 100 < 10" "n div 100 < 16777215" "n div 10 < 16777215" using assms by auto
    with 3 b assms show ?thesis by (simp add: itoa_lt1000)
  qed
  with ne show ?thesis by (simp add: dtoi_all_def)
qed

lemma ip_String_no_slash:
  assumes "length nn = 4 \<or> length nn = 16"
  shows "CHR ''/'' \<notin> set (ip_String nn)"
proof -
  have v4: "CHR ''/'' \<notin> set (v4_string b)" for b
  proof
    assume "CHR ''/'' \<in> set (v4_string b)"
    then obtain x :: u8 where "CHR ''/'' \<in> set (itoa (unat x))"
      using strings_Join_chars [of "CHR ''/''" "''.''"] by (fastforce simp: v4_string_def)
    moreover have "unat x < 1000" using unat_u8_less [of x] by simp
    ultimately show False using itoa_no_dot by blast
  qed
  have "CHR ''/'' \<notin> set (v6_string nn)" if "length nn = 16"
    using v6_string_chars [OF that] by (auto simp: hex_val_def)
  then show ?thesis using assms v4 by (auto simp: ip_String_def ip_To4_def split: if_splits)
qed

lemma ParseAddr_ip_String:
  assumes "length nn = 4 \<or> length nn = 16 \<and> ip_To4 nn = None"
  shows "netip_ParseAddr (ip_String nn) = Some (if length nn = 4 then Addr4 nn else Addr6 nn [])"
  using assms netip_ParseAddr_v4_string [of nn] netip_ParseAddr_v6_string [of nn]
  by (auto simp: ip_String_def ip_To4_def)

lemma ParseCIDR_view_string:
  assumes "length nn = 4 \<or> length nn = 16 \<and> ip_To4 nn = None" "k \<le> 8 * length nn" "masked nn k = nn"
  shows "\<exists>ip. net_ParseCIDR (view_string nn k) = Some (ip, view_net nn k)"
proof -
  have sl: "CHR ''/'' \<notin> set (ip_String nn)" using ip_String_no_slash assms(1) by blast
  have tw: "takeWhile (\<lambda>c. c \<noteq> CHR ''/'') (view_string nn k) = ip_String nn"
    "dropWhile (\<lambda>c. c \<noteq> CHR ''/'') (view_string nn k) = CHR ''/'' # itoa k"
    using sl by (auto simp: view_string_def takeWhile_append dropWhile_append)
  have d: "dtoi_all (itoa k) = Some k" using dtoi_itoa assms(1,2) by auto
  from assms(1) show ?thesis
  proof
    assume "length nn = 4"
    with assms show ?thesis
      by (simp add: net_ParseCIDR_def tw d ParseAddr_ip_String ip_Mask_def view_net_def masked_def)
  next
    assume "length nn = 16 \<and> ip_To4 nn = None"
    with assms show ?thesis
      by (simp add: net_ParseCIDR_def tw d ParseAddr_ip_String ip_Mask_def view_net_def masked_def)
  qed
qed

lemma is_view_view_net:
  assumes "length nn = 4 \<or> length nn = 16 \<and> ip_To4 nn = None" "k \<le> 8 * length nn" "masked nn k = nn"
  shows "is_view (view_net nn k) nn k"
  using assms by (auto simp: is_view_def view_net_def network_number_and_mask_def ip_To4_def)

text \<open>The printed form identifies the network.\<close>

lemma view_string_inj:
  assumes "is_view n nn k" "is_view n' nn' k'" "view_string nn k = view_string nn' k'"
  shows "nn = nn' \<and> k = k'"
proof -
  have a: "\<exists>ip. net_ParseCIDR (view_string nn k) = Some (ip, view_net nn k)"
    "\<exists>ip. net_ParseCIDR (view_string nn' k') = Some (ip, view_net nn' k')"
    using assms(1,2) by (auto simp: is_view_def intro!: ParseCIDR_view_string)
  then have e: "view_net nn k = view_net nn' k'" using assms(3) by auto
  then have nn: "nn = nn'" "cidr_mask (length nn) k = cidr_mask (length nn') k'"
    by (auto simp: view_net_def)
  have "k \<le> 8 * length nn" "k' \<le> 8 * length nn'" using assms(1,2) by (auto simp: is_view_def)
  then have "int k = simple_mask_length (cidr_mask (length nn) k)"
    "int k' = simple_mask_length (cidr_mask (length nn') k')"
    by (simp_all only: simple_mask_length_cidr_mask)
  then have "int k = int k'" by (simp only: nn(2))
  with nn(1) show ?thesis by simp
qed

section \<open>Containment\<close>

definition canon_ip :: "bytes \<Rightarrow> bytes" where
  "canon_ip x = (case ip_To4 x of Some y \<Rightarrow> y | None \<Rightarrow> x)"

lemma view_canon: "is_view n nn k \<Longrightarrow> canon_ip (net_IP n) = nn"
  by (auto simp: is_view_def canon_ip_def network_number_and_mask_def Let_def split: if_splits option.splits)

lemma Contains_view:
  assumes "is_view n nn k"
  shows "ipnet_Contains n x \<longleftrightarrow> length (canon_ip x) = length nn \<and> masked (canon_ip x) k = nn"
proof -
  have v: "network_number_and_mask n = Some (nn, cidr_mask (length nn) k)" and m: "masked nn k = nn"
    using assms by (auto simp: is_view_def)
  let ?y = "canon_ip x" and ?m = "cidr_mask (length nn) k"
  have c: "ipnet_Contains n x \<longleftrightarrow> length ?y = length nn \<and> (\<forall>i < length ?y. nn ! i AND ?m ! i = ?y ! i AND ?m ! i)"
    unfolding ipnet_Contains_def v Let_def canon_ip_def option.case prod.case ..
  show ?thesis
  proof (cases "length ?y = length nn")
    case True
    have "(\<forall>i < length ?y. nn ! i AND ?m ! i = ?y ! i AND ?m ! i)
      \<longleftrightarrow> (\<forall>i < length nn. masked nn k ! i = masked ?y k ! i)"
    proof -
      have "masked ?y k ! i = ?y ! i AND ?m ! i" "masked nn k ! i = nn ! i AND ?m ! i"
        if "i < length nn" for i
        using that True nth_masked [of i ?y k] nth_masked [of i nn k] by simp_all
      then show ?thesis using True by simp
    qed
    also have "\<dots> \<longleftrightarrow> masked nn k = masked ?y k"
      using True by (simp only: list_eq_iff_nth_eq length_masked simp_thms)
    also have "\<dots> \<longleftrightarrow> masked ?y k = nn" unfolding m by blast
    finally show ?thesis using c True by blast
  next
    case False
    with c show ?thesis by blast
  qed
qed

lemma view_masked: "is_view n nn k \<Longrightarrow> masked nn k = nn"
  by (simp add: is_view_def)

lemma Contains_self: "is_view n nn k \<Longrightarrow> ipnet_Contains n (net_IP n)"
  using Contains_view [of n nn k] view_canon [of n nn k] view_masked [of n nn k] by simp

text \<open>Two networks share an address exactly when one contains the other's network number.\<close>

lemma overlap_iff_containment:
  assumes "is_view n nn k" "is_view n' nn' k'"
  shows "(\<exists>x. ipnet_Contains n x \<and> ipnet_Contains n' x) \<longleftrightarrow>
    ipnet_Contains n (net_IP n') \<or> ipnet_Contains n' (net_IP n)"
proof
  note c = Contains_view [OF assms(1)] Contains_view [OF assms(2)] view_canon [OF assms(1)]
    view_canon [OF assms(2)]
  assume "\<exists>x. ipnet_Contains n x \<and> ipnet_Contains n' x"
  then obtain x where x: "length (canon_ip x) = length nn" "masked (canon_ip x) k = nn"
    "length (canon_ip x) = length nn'" "masked (canon_ip x) k' = nn'"
    unfolding c by blast
  have "masked nn' k = nn \<or> masked nn k' = nn'"
  proof (cases "k \<le> k'")
    case True
    then show ?thesis using masked_masked [of k k' "canon_ip x"] x(2,4) by simp
  next
    case False
    then show ?thesis using masked_masked [of k' k "canon_ip x"] x(2,4) by simp
  qed
  with x(1,3) show "ipnet_Contains n (net_IP n') \<or> ipnet_Contains n' (net_IP n)"
    unfolding c by metis
next
  show "ipnet_Contains n (net_IP n') \<or> ipnet_Contains n' (net_IP n) \<Longrightarrow>
    \<exists>x. ipnet_Contains n x \<and> ipnet_Contains n' x"
    using Contains_self [OF assms(1)] Contains_self [OF assms(2)] by blast
qed

end
