(* ===== verification/BpfTypes.thy ===== *)
theory BpfTypes
  imports Prelude
begin

text \<open>
  The data of the node agent (\<^verbatim>\<open>node/agent/api/bpf_types.go\<close> and \<^verbatim>\<open>types.go\<close>): the constants
  shared with the BPF program, the keys and values of the rule maps, the stored rules and the
  API and sync forms of a rule. A Go array \<^verbatim>\<open>[n]byte\<close> is a byte list; the well-formedness
  predicates fix its length. Every struct is a record with the fields in the source's order,
  the name prefixed by the struct's initials.
\<close>

section \<open>Constants\<close>

abbreviation (input) ProtoAll :: u8 where "ProtoAll \<equiv> 0"
abbreviation (input) ProtoICMP :: u8 where "ProtoICMP \<equiv> 1"
abbreviation (input) ProtoIGMP :: u8 where "ProtoIGMP \<equiv> 2"
abbreviation (input) ProtoTCP :: u8 where "ProtoTCP \<equiv> 6"
abbreviation (input) ProtoUDP :: u8 where "ProtoUDP \<equiv> 17"
abbreviation (input) ProtoGRE :: u8 where "ProtoGRE \<equiv> 47"
abbreviation (input) ProtoESP :: u8 where "ProtoESP \<equiv> 50"
abbreviation (input) ProtoICMPv6 :: u8 where "ProtoICMPv6 \<equiv> 58"

abbreviation (input) ActionPass :: u8 where "ActionPass \<equiv> 0"
abbreviation (input) ActionDrop :: u8 where "ActionDrop \<equiv> 1"
abbreviation (input) ActionRateLimit :: u8 where "ActionRateLimit \<equiv> 2"

abbreviation (input) AnomalyBadFragment :: u8 where "AnomalyBadFragment \<equiv> 1"
abbreviation (input) AnomalyInvalid :: u8 where "AnomalyInvalid \<equiv> 2"

text \<open>Indices of the config map.\<close>

abbreviation (input) ConfigBlacklistCount :: nat where "ConfigBlacklistCount \<equiv> 0"
abbreviation (input) ConfigWhitelistCount :: nat where "ConfigWhitelistCount \<equiv> 1"
abbreviation (input) ConfigRuleBitmap :: nat where "ConfigRuleBitmap \<equiv> 2"
abbreviation (input) ConfigWLBitmap :: nat where "ConfigWLBitmap \<equiv> 3"
abbreviation (input) ConfigFastForwardEnabled :: nat where "ConfigFastForwardEnabled \<equiv> 4"
abbreviation (input) ConfigFilterIfindex :: nat where "ConfigFilterIfindex \<equiv> 5"
abbreviation (input) ConfigCIDRRuleCount :: nat where "ConfigCIDRRuleCount \<equiv> 6"
abbreviation (input) ConfigCIDRBitmap :: nat where "ConfigCIDRBitmap \<equiv> 7"
abbreviation (input) ConfigWLMapSelector :: nat where "ConfigWLMapSelector \<equiv> 8"
abbreviation (input) ConfigRuleMapSelector :: nat where "ConfigRuleMapSelector \<equiv> 9"
abbreviation (input) ConfigAnomalyRuleCount :: nat where "ConfigAnomalyRuleCount \<equiv> 10"
abbreviation (input) ConfigRLCPUDivisor :: nat where "ConfigRLCPUDivisor \<equiv> 11"
abbreviation (input) ConfigMapEntries :: nat where "ConfigMapEntries \<equiv> 12"

section \<open>Keys and values of the BPF maps\<close>

type_synonym IPAddr = bytes

definition zero_IPAddr :: IPAddr where
  "zero_IPAddr = replicate 16 0"

record RuleKey =
  rk_SrcIP :: IPAddr
  rk_DstIP :: IPAddr
  rk_SrcPort :: u16
  rk_DstPort :: u16
  rk_Protocol :: u8
  rk_Pad :: bytes

text \<open>The zero value \<^verbatim>\<open>RuleKey{}\<close>.\<close>

definition zero_RuleKey :: RuleKey where
  "zero_RuleKey = \<lparr>rk_SrcIP = zero_IPAddr, rk_DstIP = zero_IPAddr, rk_SrcPort = 0,
     rk_DstPort = 0, rk_Protocol = 0, rk_Pad = [0, 0, 0]\<rparr>"

definition wf_RuleKey :: "RuleKey \<Rightarrow> bool" where
  "wf_RuleKey k = (length (rk_SrcIP k) = 16 \<and> length (rk_DstIP k) = 16 \<and> rk_Pad k = [0, 0, 0])"

record RuleValue =
  rv_Action :: u8
  rv_TcpFlagsMask :: u8
  rv_TcpFlagsValue :: u8
  rv_MatchAnomaly :: u8
  rv_RateLimit :: u32
  rv_MatchCount :: u64
  rv_DropCount :: u64
  rv_PktLenMin :: u16
  rv_PktLenMax :: u16
  rv_Pad2 :: bytes

record CIDRRuleKey =
  ck_SrcID :: u32
  ck_DstID :: u32
  ck_SrcPort :: u16
  ck_DstPort :: u16
  ck_Protocol :: u8
  ck_Pad :: bytes

definition wf_CIDRRuleKey :: "CIDRRuleKey \<Rightarrow> bool" where
  "wf_CIDRRuleKey k = (ck_Pad k = [0, 0, 0])"

section \<open>Stored rules\<close>

record StoredRule =
  sr_Key :: RuleKey
  sr_Action :: string
  sr_RateLimit :: u32
  sr_PktLenMin :: u16
  sr_PktLenMax :: u16
  sr_TcpFlags :: string
  sr_MatchAnomaly :: u8

record StoredCIDRRule =
  sc_Key :: CIDRRuleKey
  sc_SrcCIDR :: string
  sc_DstCIDR :: string
  sc_Action :: string
  sc_RateLimit :: u32
  sc_PktLenMin :: u16
  sc_PktLenMax :: u16
  sc_TcpFlags :: string
  sc_MatchAnomaly :: u8

section \<open>API and sync forms of a rule\<close>

text \<open>
  The API's \<^verbatim>\<open>Rule\<close>; its \<^verbatim>\<open>Stats\<close> pointer, set only when rules are listed, is not part of
  the record.
\<close>

record Rule =
  r_ID :: string
  r_SrcIP :: string
  r_DstIP :: string
  r_SrcCIDR :: string
  r_DstCIDR :: string
  r_SrcPort :: u16
  r_DstPort :: u16
  r_Protocol :: string
  r_Action :: string
  r_RateLimit :: u32
  r_PktLenMin :: u16
  r_PktLenMax :: u16
  r_TcpFlags :: string
  r_MatchAnomaly :: u8
  r_Comment :: string

record WhitelistEntry =
  w_ID :: string
  w_SrcIP :: string
  w_DstIP :: string
  w_SrcPort :: u16
  w_DstPort :: u16
  w_Protocol :: string
  w_Comment :: string

record SyncRule =
  sy_ID :: string
  sy_SrcIP :: string
  sy_DstIP :: string
  sy_SrcCIDR :: string
  sy_DstCIDR :: string
  sy_SrcPort :: u16
  sy_DstPort :: u16
  sy_Protocol :: string
  sy_Action :: string
  sy_RateLimit :: u32
  sy_PktLenMin :: u16
  sy_PktLenMax :: u16
  sy_TcpFlags :: string
  sy_MatchAnomaly :: u8

record SyncWhitelistEntry =
  sw_ID :: string
  sw_SrcIP :: string
  sw_DstIP :: string
  sw_SrcPort :: u16
  sw_DstPort :: u16
  sw_Protocol :: string

text \<open>The outcome of \<^verbatim>\<open>DoAtomicSync\<close>.\<close>

record AtomicSyncResult =
  as_Added :: int
  as_Failed :: int
  as_ExactRules :: int
  as_CIDRRules :: int

lemma length_zero_IPAddr [simp]: "length zero_IPAddr = 16"
  by (simp add: zero_IPAddr_def)

lemma wf_zero_RuleKey [simp]: "wf_RuleKey zero_RuleKey"
  by (simp add: wf_RuleKey_def zero_RuleKey_def)

end
