(* ===== verification/CidrManager.thy ===== *)
theory CidrManager
  imports GoNetCidr BpfTypes
begin

text \<open>
  The CIDR manager of the node agent (\<^verbatim>\<open>node/agent/cidr/manager.go\<close>): it gives every registered
  prefix an integer ID, counts the rules that use it and keeps one LPM trie per direction and
  address family. The tries are kernel maps; they are values of a type \<open>'t\<close> with the two
  operations of the source's \<^verbatim>\<open>TrieWriter\<close> interface as a record, and the first result says
  whether the operation succeeded. The locks only serialise the operations.
\<close>

section \<open>State\<close>

record lpmV4Key =
  v4_PrefixLen :: u32
  v4_Data :: bytes

record lpmV6Key =
  v6_PrefixLen :: u32
  v6_Data :: bytes

datatype trie_key = KeyV4 lpmV4Key | KeyV6 lpmV6Key

record 't TrieWriter =
  trie_Put :: "'t \<Rightarrow> trie_key \<Rightarrow> u32 \<Rightarrow> bool \<times> 't"
  trie_Delete :: "'t \<Rightarrow> trie_key \<Rightarrow> bool \<times> 't"

record 't Manager =
  srcV4CIDRs :: "(string, u32) gomap"
  dstV4CIDRs :: "(string, u32) gomap"
  srcV6CIDRs :: "(string, u32) gomap"
  dstV6CIDRs :: "(string, u32) gomap"
  srcV4Refs :: "(string, int) gomap"
  dstV4Refs :: "(string, int) gomap"
  srcV6Refs :: "(string, int) gomap"
  dstV6Refs :: "(string, int) gomap"
  nextID :: u32
  srcV4Trie :: 't
  dstV4Trie :: 't
  srcV6Trie :: 't
  dstV6Trie :: 't

datatype cidr_error =
    InvalidCIDR string
  | NotIPv4CIDR string
  | NotIPv6CIDR string
  | TriePutFailed
  | TrieDeleteFailed
  | SrcTrieWrite string cidr_error
  | DstTrieWrite string cidr_error
  | SrcCIDRNotFound string
  | DstCIDRNotFound string
  | SrcTrieDelete string cidr_error
  | DstTrieDelete string cidr_error

section \<open>Keys and tries\<close>

definition makeLPMv4Key :: "string \<Rightarrow> cidr_error + lpmV4Key" where
  "makeLPMv4Key cidr =
     (case net_ParseCIDR cidr of
        None \<Rightarrow> Inl (InvalidCIDR cidr)
      | Some (_, ipnet) \<Rightarrow>
          (case ip_To4 (net_IP ipnet) of
             None \<Rightarrow> Inl (NotIPv4CIDR cidr)
           | Some ip4 \<Rightarrow>
               Inr \<lparr>v4_PrefixLen = of_int (mask_Size (net_Mask ipnet)), v4_Data = ip4\<rparr>))"

definition makeLPMv6Key :: "string \<Rightarrow> cidr_error + lpmV6Key" where
  "makeLPMv6Key cidr =
     (case net_ParseCIDR cidr of
        None \<Rightarrow> Inl (InvalidCIDR cidr)
      | Some (_, ipnet) \<Rightarrow>
          (case ip_To16 (net_IP ipnet) of
             None \<Rightarrow> Inl (NotIPv6CIDR cidr)
           | Some ip16 \<Rightarrow>
               Inr \<lparr>v6_PrefixLen = of_int (mask_Size (net_Mask ipnet)), v6_Data = ip16\<rparr>))"

definition isIPv6CIDR :: "string \<Rightarrow> bool" where
  "isIPv6CIDR cidr =
     (case net_ParseCIDR cidr of
        None \<Rightarrow> False
      | Some (_, network) \<Rightarrow> ip_To4 (net_IP network) = None)"

text \<open>The error is \<open>None\<close> on success, as the source's nil.\<close>

definition writeTrie ::
  "'t TrieWriter \<Rightarrow> 't \<Rightarrow> string \<Rightarrow> u32 \<Rightarrow> bool \<Rightarrow> cidr_error option \<times> 't" where
  "writeTrie tw trie cidr cid isV6 =
     (if isV6 then
        (case makeLPMv6Key cidr of
           Inl e \<Rightarrow> (Some e, trie)
         | Inr k \<Rightarrow> (let (ok, trie') = trie_Put tw trie (KeyV6 k) cid
                    in (if ok then None else Some TriePutFailed, trie')))
      else
        (case makeLPMv4Key cidr of
           Inl e \<Rightarrow> (Some e, trie)
         | Inr k \<Rightarrow> (let (ok, trie') = trie_Put tw trie (KeyV4 k) cid
                    in (if ok then None else Some TriePutFailed, trie'))))"

definition deleteTrie ::
  "'t TrieWriter \<Rightarrow> 't \<Rightarrow> string \<Rightarrow> bool \<Rightarrow> cidr_error option \<times> 't" where
  "deleteTrie tw trie cidr isV6 =
     (if isV6 then
        (case makeLPMv6Key cidr of
           Inl e \<Rightarrow> (Some e, trie)
         | Inr k \<Rightarrow> (let (ok, trie') = trie_Delete tw trie (KeyV6 k)
                    in (if ok then None else Some TrieDeleteFailed, trie')))
      else
        (case makeLPMv4Key cidr of
           Inl e \<Rightarrow> (Some e, trie)
         | Inr k \<Rightarrow> (let (ok, trie') = trie_Delete tw trie (KeyV4 k)
                    in (if ok then None else Some TrieDeleteFailed, trie'))))"

section \<open>Operations\<close>

definition NewManager :: "'t \<Rightarrow> 't \<Rightarrow> 't \<Rightarrow> 't \<Rightarrow> 't Manager" where
  "NewManager srcV4 dstV4 srcV6 dstV6 =
     \<lparr>srcV4CIDRs = [], dstV4CIDRs = [], srcV6CIDRs = [], dstV6CIDRs = [],
      srcV4Refs = [], dstV4Refs = [], srcV6Refs = [], dstV6Refs = [], nextID = 1,
      srcV4Trie = srcV4, dstV4Trie = dstV4, srcV6Trie = srcV6, dstV6Trie = dstV6\<rparr>"

text \<open>
  \<^verbatim>\<open>getSrcMaps\<close> hands out references to two Go maps and a trie; writing through them is
  \<open>putSrcMaps\<close>.
\<close>

type_synonym 't maps = "(string, u32) gomap \<times> (string, int) gomap \<times> 't"

definition getSrcMaps :: "'t Manager \<Rightarrow> bool \<Rightarrow> 't maps" where
  "getSrcMaps m isV6 =
     (if isV6 then (srcV6CIDRs m, srcV6Refs m, srcV6Trie m)
      else (srcV4CIDRs m, srcV4Refs m, srcV4Trie m))"

definition putSrcMaps :: "'t Manager \<Rightarrow> bool \<Rightarrow> 't maps \<Rightarrow> 't Manager" where
  "putSrcMaps m isV6 = (\<lambda>(cidrs, refs, trie).
     (if isV6 then m\<lparr>srcV6CIDRs := cidrs, srcV6Refs := refs, srcV6Trie := trie\<rparr>
      else m\<lparr>srcV4CIDRs := cidrs, srcV4Refs := refs, srcV4Trie := trie\<rparr>))"

definition getDstMaps :: "'t Manager \<Rightarrow> bool \<Rightarrow> 't maps" where
  "getDstMaps m isV6 =
     (if isV6 then (dstV6CIDRs m, dstV6Refs m, dstV6Trie m)
      else (dstV4CIDRs m, dstV4Refs m, dstV4Trie m))"

definition putDstMaps :: "'t Manager \<Rightarrow> bool \<Rightarrow> 't maps \<Rightarrow> 't Manager" where
  "putDstMaps m isV6 = (\<lambda>(cidrs, refs, trie).
     (if isV6 then m\<lparr>dstV6CIDRs := cidrs, dstV6Refs := refs, dstV6Trie := trie\<rparr>
      else m\<lparr>dstV4CIDRs := cidrs, dstV4Refs := refs, dstV4Trie := trie\<rparr>))"

text \<open>A missing key of a Go map reads as the zero value.\<close>

definition ref_at :: "(string, int) gomap \<Rightarrow> string \<Rightarrow> int" where
  "ref_at refs cidr = (case map_of refs cidr of Some r \<Rightarrow> r | None \<Rightarrow> 0)"

definition AllocSrcID :: "'t TrieWriter \<Rightarrow> 't Manager \<Rightarrow> string \<Rightarrow> (cidr_error + u32) \<times> 't Manager" where
  "AllocSrcID tw m cidr =
     (let isV6 = isIPv6CIDR cidr;
          (cidrs, refs, trie) = getSrcMaps m isV6
      in case map_of cidrs cidr of
           Some cid \<Rightarrow>
             (Inr cid, putSrcMaps m isV6 (cidrs, AList.update cidr (ref_at refs cidr + 1) refs, trie))
         | None \<Rightarrow>
             (let cid = nextID m;
                  m1 = m\<lparr>nextID := cid + 1\<rparr>
              in case writeTrie tw trie cidr cid isV6 of
                   (Some e, trie') \<Rightarrow> (Inl (SrcTrieWrite cidr e), putSrcMaps m1 isV6 (cidrs, refs, trie'))
                 | (None, trie') \<Rightarrow>
                     (Inr cid, putSrcMaps m1 isV6
                        (AList.update cidr cid cidrs, AList.update cidr 1 refs, trie'))))"

definition AllocDstID :: "'t TrieWriter \<Rightarrow> 't Manager \<Rightarrow> string \<Rightarrow> (cidr_error + u32) \<times> 't Manager" where
  "AllocDstID tw m cidr =
     (let isV6 = isIPv6CIDR cidr;
          (cidrs, refs, trie) = getDstMaps m isV6
      in case map_of cidrs cidr of
           Some cid \<Rightarrow>
             (Inr cid, putDstMaps m isV6 (cidrs, AList.update cidr (ref_at refs cidr + 1) refs, trie))
         | None \<Rightarrow>
             (let cid = nextID m;
                  m1 = m\<lparr>nextID := cid + 1\<rparr>
              in case writeTrie tw trie cidr cid isV6 of
                   (Some e, trie') \<Rightarrow> (Inl (DstTrieWrite cidr e), putDstMaps m1 isV6 (cidrs, refs, trie'))
                 | (None, trie') \<Rightarrow>
                     (Inr cid, putDstMaps m1 isV6
                        (AList.update cidr cid cidrs, AList.update cidr 1 refs, trie'))))"

definition ReleaseSrcID :: "'t TrieWriter \<Rightarrow> 't Manager \<Rightarrow> string \<Rightarrow> cidr_error option \<times> 't Manager" where
  "ReleaseSrcID tw m cidr =
     (let isV6 = isIPv6CIDR cidr;
          (cidrs, refs, trie) = getSrcMaps m isV6
      in case map_of refs cidr of
           None \<Rightarrow> (Some (SrcCIDRNotFound cidr), m)
         | Some ref \<Rightarrow>
             if ref \<le> 1 then
               (case deleteTrie tw trie cidr isV6 of
                  (Some e, trie') \<Rightarrow> (Some (SrcTrieDelete cidr e), putSrcMaps m isV6 (cidrs, refs, trie'))
                | (None, trie') \<Rightarrow>
                    (None, putSrcMaps m isV6 (AList.delete cidr cidrs, AList.delete cidr refs, trie')))
             else (None, putSrcMaps m isV6 (cidrs, AList.update cidr (ref - 1) refs, trie)))"

definition ReleaseDstID :: "'t TrieWriter \<Rightarrow> 't Manager \<Rightarrow> string \<Rightarrow> cidr_error option \<times> 't Manager" where
  "ReleaseDstID tw m cidr =
     (let isV6 = isIPv6CIDR cidr;
          (cidrs, refs, trie) = getDstMaps m isV6
      in case map_of refs cidr of
           None \<Rightarrow> (Some (DstCIDRNotFound cidr), m)
         | Some ref \<Rightarrow>
             if ref \<le> 1 then
               (case deleteTrie tw trie cidr isV6 of
                  (Some e, trie') \<Rightarrow> (Some (DstTrieDelete cidr e), putDstMaps m isV6 (cidrs, refs, trie'))
                | (None, trie') \<Rightarrow>
                    (None, putDstMaps m isV6 (AList.delete cidr cidrs, AList.delete cidr refs, trie')))
             else (None, putDstMaps m isV6 (cidrs, AList.update cidr (ref - 1) refs, trie)))"

definition ListSrcCIDRs :: "'t Manager \<Rightarrow> string list" where
  "ListSrcCIDRs m = keys_of (srcV4CIDRs m) @ keys_of (srcV6CIDRs m)"

definition ListDstCIDRs :: "'t Manager \<Rightarrow> string list" where
  "ListDstCIDRs m = keys_of (dstV4CIDRs m) @ keys_of (dstV6CIDRs m)"

definition GetSrcID :: "'t Manager \<Rightarrow> string \<Rightarrow> u32 option" where
  "GetSrcID m cidr =
     (if isIPv6CIDR cidr then map_of (srcV6CIDRs m) cidr else map_of (srcV4CIDRs m) cidr)"

definition GetDstID :: "'t Manager \<Rightarrow> string \<Rightarrow> u32 option" where
  "GetDstID m cidr =
     (if isIPv6CIDR cidr then map_of (dstV6CIDRs m) cidr else map_of (dstV4CIDRs m) cidr)"

text \<open>The errors of the deletions are ignored.\<close>

fun delete_all :: "'t TrieWriter \<Rightarrow> bool \<Rightarrow> string list \<Rightarrow> 't \<Rightarrow> 't" where
  "delete_all tw isV6 [] trie = trie"
| "delete_all tw isV6 (c # cs) trie = delete_all tw isV6 cs (snd (deleteTrie tw trie c isV6))"

definition ClearAll :: "'t TrieWriter \<Rightarrow> 't Manager \<Rightarrow> 't Manager" where
  "ClearAll tw m =
     m\<lparr>srcV4Trie := delete_all tw False (keys_of (srcV4CIDRs m)) (srcV4Trie m),
       dstV4Trie := delete_all tw False (keys_of (dstV4CIDRs m)) (dstV4Trie m),
       srcV6Trie := delete_all tw True (keys_of (srcV6CIDRs m)) (srcV6Trie m),
       dstV6Trie := delete_all tw True (keys_of (dstV6CIDRs m)) (dstV6Trie m),
       srcV4CIDRs := [], dstV4CIDRs := [], srcV6CIDRs := [], dstV6CIDRs := [],
       srcV4Refs := [], dstV4Refs := [], srcV6Refs := [], dstV6Refs := []\<rparr>"

section \<open>Static helpers\<close>

definition NormalizeCIDR :: "string \<Rightarrow> cidr_error + string" where
  "NormalizeCIDR cidr =
     (case net_ParseCIDR cidr of
        None \<Rightarrow> Inl (InvalidCIDR cidr)
      | Some (_, network) \<Rightarrow> Inr (ipnet_String network))"

text \<open>\<^verbatim>\<open>CheckOverlap\<close>: the conflicting prefix, or the empty string when there is none.\<close>

fun overlap_loop :: "ipnet \<Rightarrow> string list \<Rightarrow> string" where
  "overlap_loop newNet [] = []"
| "overlap_loop newNet (existing # es) =
     (case net_ParseCIDR existing of
        None \<Rightarrow> overlap_loop newNet es
      | Some (_, existNet) \<Rightarrow>
          if ipnet_String newNet = ipnet_String existNet then overlap_loop newNet es
          else if ipnet_Contains existNet (net_IP newNet) \<or> ipnet_Contains newNet (net_IP existNet)
            then existing
          else overlap_loop newNet es)"

definition CheckOverlap :: "string \<Rightarrow> string list \<Rightarrow> cidr_error + string" where
  "CheckOverlap newCIDR existingCIDRs =
     (case net_ParseCIDR newCIDR of
        None \<Rightarrow> Inl (InvalidCIDR newCIDR)
      | Some (_, newNet) \<Rightarrow> Inr (overlap_loop newNet existingCIDRs))"

section \<open>The contract of an ID allocator\<close>

text \<open>
  What the rule code relies on, for one direction: an ID per prefix, a reference count, and that
  a failed operation changes neither. \<open>fresh\<close> is the ID the next new prefix gets.
\<close>

locale id_allocator =
  fixes alloc :: "'m \<Rightarrow> string \<Rightarrow> ('e + u32) \<times> 'm"
    and release :: "'m \<Rightarrow> string \<Rightarrow> 'e option \<times> 'm"
    and get_id :: "'m \<Rightarrow> string \<Rightarrow> u32 option"
    and refs :: "'m \<Rightarrow> string \<Rightarrow> int"
    and fresh :: "'m \<Rightarrow> u32"
    and inv :: "'m \<Rightarrow> bool"
  assumes alloc_ok: "alloc m c = (Inr i, m') \<Longrightarrow>
      get_id m' = (get_id m)(c \<mapsto> i) \<and> i = (case get_id m c of Some j \<Rightarrow> j | None \<Rightarrow> fresh m)"
    and alloc_refs: "inv m \<Longrightarrow> alloc m c = (Inr i, m') \<Longrightarrow> refs m' = (refs m)(c := refs m c + 1)"
    and alloc_fail: "alloc m c = (Inl e, m') \<Longrightarrow> get_id m' = get_id m \<and> refs m' = refs m"
    and release_ok: "inv m \<Longrightarrow> release m c = (None, m') \<Longrightarrow> 0 < refs m c \<and>
      refs m' = (refs m)(c := refs m c - 1) \<and>
      get_id m' = (if refs m c \<le> 1 then (get_id m)(c := None) else get_id m)"
    and release_fail: "release m c = (Some e, m') \<Longrightarrow> get_id m' = get_id m \<and> refs m' = refs m"
    and inv_alloc: "inv m \<Longrightarrow> fresh m \<noteq> - 1 \<Longrightarrow> inv (snd (alloc m c))"
    and inv_release: "inv m \<Longrightarrow> inv (snd (release m c))"
    and inv_refs: "inv m \<Longrightarrow> 0 \<le> refs m c \<and> (get_id m c = None \<longleftrightarrow> refs m c = 0)"
    and inv_ids: "inv m \<Longrightarrow> get_id m c = Some i \<Longrightarrow> 0 < i \<and> i < fresh m"
    and inv_inj: "inv m \<Longrightarrow> get_id m c = Some i \<Longrightarrow> get_id m d = Some i \<Longrightarrow> c = d"
begin

text \<open>Taking an ID and giving it back leaves the table as it was.\<close>

lemma alloc_release:
  assumes "inv m" "fresh m \<noteq> - 1" "alloc m c = (Inr i, m1)" "release m1 c = (None, m2)"
  shows "get_id m2 = get_id m \<and> refs m2 = refs m"
proof -
  have i1: "inv m1" using inv_alloc [OF assms(1,2), of c] assms(3) by simp
  have r1: "refs m1 = (refs m)(c := refs m c + 1)" using alloc_refs assms by blast
  have g1: "get_id m1 = (get_id m)(c \<mapsto> i)"
    and i: "i = (case get_id m c of Some j \<Rightarrow> j | None \<Rightarrow> fresh m)" using alloc_ok [OF assms(3)] by auto
  have r2: "refs m2 = (refs m1)(c := refs m1 c - 1)"
    and g2: "get_id m2 = (if refs m1 c \<le> 1 then (get_id m1)(c := None) else get_id m1)"
    using release_ok [OF i1 assms(4)] by auto
  have "get_id m2 = get_id m"
  proof (cases "get_id m c")
    case None
    then have "refs m c = 0" using inv_refs [OF assms(1), of c] by blast
    then show ?thesis using None g1 g2 r1 by auto
  next
    case (Some j)
    then have "0 < refs m c" using inv_refs [OF assms(1), of c] by force
    then show ?thesis using Some g1 g2 r1 i by auto
  qed
  then show ?thesis using r1 r2 by auto
qed

text \<open>An ID handed out for a new prefix belongs to no other prefix.\<close>

lemma alloc_new_unused:
  assumes "inv m" "get_id m c = None" "alloc m c = (Inr i, m')" "get_id m d = Some j"
  shows "i \<noteq> j"
  using alloc_ok [OF assms(3)] assms(2) inv_ids [OF assms(1,4)] by auto

end

section \<open>The manager's invariant\<close>

text \<open>
  One of the four tables: prefixes of the right family, each with an ID between 1 and the
  next one, and a positive count exactly for the registered prefixes. No ID occurs twice, in one
  table or in two.
\<close>

definition table_ok :: "bool \<Rightarrow> u32 \<Rightarrow> (string, u32) gomap \<Rightarrow> (string, int) gomap \<Rightarrow> bool" where
  "table_ok isV6 nxt cidrs refs \<longleftrightarrow> is_gomap cidrs \<and> is_gomap refs \<and>
     dom (map_of cidrs) = dom (map_of refs) \<and>
     (\<forall>c r. map_of refs c = Some r \<longrightarrow> 0 < r) \<and>
     (\<forall>c i. map_of cidrs c = Some i \<longrightarrow> 0 < i \<and> i < nxt \<and> isIPv6CIDR c = isV6)"

text \<open>The ID registered for a prefix in the table of a direction and family.\<close>

definition id_at :: "'t Manager \<Rightarrow> bool \<Rightarrow> bool \<Rightarrow> string \<Rightarrow> u32 option" where
  "id_at m isDst isV6 = map_of (fst (if isDst then getDstMaps m isV6 else getSrcMaps m isV6))"

definition ids_inj :: "'t Manager \<Rightarrow> bool" where
  "ids_inj m \<longleftrightarrow> (\<forall>d v c d' v' c' i. id_at m d v c = Some i \<and> id_at m d' v' c' = Some i \<longrightarrow>
     d = d' \<and> v = v' \<and> c = c')"

definition mgr_inv :: "'t Manager \<Rightarrow> bool" where
  "mgr_inv m \<longleftrightarrow> nextID m \<noteq> 0 \<and> ids_inj m \<and>
     table_ok False (nextID m) (srcV4CIDRs m) (srcV4Refs m) \<and>
     table_ok False (nextID m) (dstV4CIDRs m) (dstV4Refs m) \<and>
     table_ok True (nextID m) (srcV6CIDRs m) (srcV6Refs m) \<and>
     table_ok True (nextID m) (dstV6CIDRs m) (dstV6Refs m)"

definition src_refs :: "'t Manager \<Rightarrow> string \<Rightarrow> int" where
  "src_refs m cidr = ref_at (if isIPv6CIDR cidr then srcV6Refs m else srcV4Refs m) cidr"

definition dst_refs :: "'t Manager \<Rightarrow> string \<Rightarrow> int" where
  "dst_refs m cidr = ref_at (if isIPv6CIDR cidr then dstV6Refs m else dstV4Refs m) cidr"

lemma ref_at_update [simp]:
  "ref_at (AList.update c r refs) d = (if c = d then r else ref_at refs d)"
  by (simp add: ref_at_def)

lemma ref_at_delete [simp]:
  "ref_at (AList.delete c refs) d = (if c = d then 0 else ref_at refs d)"
  by (simp add: ref_at_def)

lemma table_ok_mono: "table_ok v n cs rs \<Longrightarrow> n \<le> n' \<Longrightarrow> table_ok v n' cs rs"
  by (fastforce simp: table_ok_def)

lemma table_ok_ref:
  "table_ok v n cs rs \<Longrightarrow> map_of cs c = Some i \<Longrightarrow> \<exists>r. map_of rs c = Some r \<and> 0 < r"
  "table_ok v n cs rs \<Longrightarrow> map_of rs c = Some r \<Longrightarrow> \<exists>i. map_of cs c = Some i"
  unfolding table_ok_def by (metis domI domD)+

lemma table_ok_more:
  "table_ok v n cs rs \<Longrightarrow> map_of cs c = Some i \<Longrightarrow> 0 < r \<Longrightarrow> table_ok v n cs (AList.update c r rs)"
  by (auto simp: table_ok_def)

lemma table_ok_new:
  assumes "table_ok v n cs rs" "isIPv6CIDR c = v" "n \<noteq> 0" "n < n'"
  shows "table_ok v n' (AList.update c n cs) (AList.update c 1 rs)"
proof -
  have "0 < n" using assms(3) by (simp add: word_neq_0_conv)
  moreover have "i < n'" if "map_of cs d = Some i" for d i
    using assms(1,4) that by (fastforce simp: table_ok_def intro: less_trans)
  ultimately show ?thesis
    using assms(1,2,4) by (auto simp: table_ok_def)
qed

lemma table_ok_delete:
  "table_ok v n cs rs \<Longrightarrow> table_ok v n (AList.delete c cs) (AList.delete c rs)"
  by (auto simp: table_ok_def)

lemma ids_injD:
  "ids_inj m \<Longrightarrow> id_at m d v c = Some i \<Longrightarrow> id_at m d' v' c' = Some i \<Longrightarrow> d = d' \<and> v = v' \<and> c = c'"
  unfolding ids_inj_def by blast

lemma ids_inj_sub:
  assumes "ids_inj m" "\<And>d v c i. id_at m' d v c = Some i \<Longrightarrow> id_at m d v c = Some i"
  shows "ids_inj m'"
  unfolding ids_inj_def using assms ids_injD by metis

lemma ids_inj_new:
  assumes "ids_inj m" "\<And>d v c. id_at m d v c \<noteq> Some n"
    and "\<And>d v c i. id_at m' d v c = Some i \<Longrightarrow>
      id_at m d v c = Some i \<or> d = da \<and> v = va \<and> c = ca \<and> i = n"
  shows "ids_inj m'"
  unfolding ids_inj_def using assms ids_injD by metis

lemma next_less: "n \<noteq> - 1 \<Longrightarrow> n < n + (1 :: u32)"
proof -
  assume n: "n \<noteq> - 1"
  have "unat n \<noteq> 4294967295"
  proof
    assume "unat n = 4294967295"
    then have "n = 0xFFFFFFFF" by (simp add: word_unat_eq_iff)
    moreover have "(0xFFFFFFFF :: u32) = - 1" by simp
    ultimately show False using n by (simp only: not_True_eq_False)
  qed
  moreover have "unat n < 4294967296" using unsigned_less [of n] by simp
  ultimately have "unat (n + 1) = unat n + 1" by (simp add: unat_word_ariths)
  then show ?thesis by (simp add: word_less_nat_alt)
qed

section \<open>The manager is an allocator in both directions\<close>

lemma maps_put_src [simp]:
  "getSrcMaps (putSrcMaps m v x) w = (if w = v then x else getSrcMaps m w)"
  "getDstMaps (putSrcMaps m v x) w = getDstMaps m w"
  "nextID (putSrcMaps m v x) = nextID m"
  by (auto simp: getSrcMaps_def putSrcMaps_def getDstMaps_def split: prod.splits)

lemma maps_put_dst [simp]:
  "getDstMaps (putDstMaps m v x) w = (if w = v then x else getDstMaps m w)"
  "getSrcMaps (putDstMaps m v x) w = getSrcMaps m w"
  "nextID (putDstMaps m v x) = nextID m"
  by (auto simp: getSrcMaps_def putDstMaps_def getDstMaps_def split: prod.splits)

lemma maps_next [simp]:
  "getSrcMaps (m\<lparr>nextID := n\<rparr>) w = getSrcMaps m w" "getDstMaps (m\<lparr>nextID := n\<rparr>) w = getDstMaps m w"
  by (simp_all add: getSrcMaps_def getDstMaps_def)

text \<open>The observations and the invariant, through the table accessors.\<close>

lemma GetSrcID_maps: "GetSrcID m c = map_of (fst (getSrcMaps m (isIPv6CIDR c))) c"
  by (simp add: GetSrcID_def getSrcMaps_def)

lemma GetDstID_maps: "GetDstID m c = map_of (fst (getDstMaps m (isIPv6CIDR c))) c"
  by (simp add: GetDstID_def getDstMaps_def)

lemma src_refs_maps: "src_refs m c = ref_at (fst (snd (getSrcMaps m (isIPv6CIDR c)))) c"
  by (simp add: src_refs_def getSrcMaps_def)

lemma dst_refs_maps: "dst_refs m c = ref_at (fst (snd (getDstMaps m (isIPv6CIDR c)))) c"
  by (simp add: dst_refs_def getDstMaps_def)

lemma mgr_inv_maps:
  "mgr_inv m \<longleftrightarrow> nextID m \<noteq> 0 \<and> ids_inj m \<and>
     (\<forall>v. table_ok v (nextID m) (fst (getSrcMaps m v)) (fst (snd (getSrcMaps m v)))) \<and>
     (\<forall>v. table_ok v (nextID m) (fst (getDstMaps m v)) (fst (snd (getDstMaps m v))))"
  unfolding mgr_inv_def getSrcMaps_def getDstMaps_def by (auto simp: all_bool_eq)

lemmas src_maps = GetSrcID_maps src_refs_maps
lemmas dst_maps = GetDstID_maps dst_refs_maps

lemma table_ok_none:
  "table_ok v n cs rs \<Longrightarrow> map_of cs c = None \<longleftrightarrow> map_of rs c = None"
  unfolding table_ok_def by (metis domIff)

interpretation src_ids: id_allocator "AllocSrcID tw" "ReleaseSrcID tw" GetSrcID src_refs nextID mgr_inv
  for tw
proof unfold_locales
  fix m :: "'a Manager" and c d :: string and i and m' :: "'a Manager" and e
  let ?v = "isIPv6CIDR c"
  obtain cs rs t where g: "getSrcMaps m ?v = (cs, rs, t)" by (rule prod_cases3)
  show "AllocSrcID tw m c = (Inr i, m') \<Longrightarrow>
      GetSrcID m' = (GetSrcID m)(c \<mapsto> i) \<and> i = (case GetSrcID m c of Some j \<Rightarrow> j | None \<Rightarrow> nextID m)"
    by (auto simp: AllocSrcID_def Let_def g src_maps fun_eq_iff split: option.splits prod.splits)
  show "AllocSrcID tw m c = (Inl e, m') \<Longrightarrow> GetSrcID m' = GetSrcID m \<and> src_refs m' = src_refs m"
    by (auto simp: AllocSrcID_def Let_def g src_maps fun_eq_iff split: option.splits prod.splits)
  show "ReleaseSrcID tw m c = (Some e, m') \<Longrightarrow> GetSrcID m' = GetSrcID m \<and> src_refs m' = src_refs m"
    by (auto simp: ReleaseSrcID_def Let_def g src_maps fun_eq_iff split: option.splits prod.splits if_splits)
  assume inv: "mgr_inv m"
  then have t: "table_ok ?v (nextID m) cs rs" and n0: "nextID m \<noteq> 0" and ii: "ids_inj m" and
    ts: "\<And>v. table_ok v (nextID m) (fst (getSrcMaps m v)) (fst (snd (getSrcMaps m v)))" and
    td: "\<And>v. table_ok v (nextID m) (fst (getDstMaps m v)) (fst (snd (getDstMaps m v)))"
    using g by (auto simp: mgr_inv_maps) (metis fst_conv snd_conv)
  note none = table_ok_none [OF t, of c]
  have new: "id_at m d v c \<noteq> Some (nextID m)" for d v c
    using ts [of v] td [of v] by (auto simp: id_at_def table_ok_def split: if_splits)
  have pos: "0 < r" if "map_of rs c = Some r" for r using t that by (auto simp: table_ok_def)
  show "AllocSrcID tw m c = (Inr i, m') \<Longrightarrow> src_refs m' = (src_refs m)(c := src_refs m c + 1)"
    using none by (auto simp: AllocSrcID_def Let_def g src_maps fun_eq_iff ref_at_def
        split: option.splits prod.splits if_splits)
  show "ReleaseSrcID tw m c = (None, m') \<Longrightarrow> 0 < src_refs m c \<and>
      src_refs m' = (src_refs m)(c := src_refs m c - 1) \<and>
      GetSrcID m' = (if src_refs m c \<le> 1 then (GetSrcID m)(c := None) else GetSrcID m)"
    using none pos by (fastforce simp: ReleaseSrcID_def Let_def g src_maps fun_eq_iff ref_at_def
        split: option.splits prod.splits if_splits)
  show "nextID m \<noteq> - 1 \<Longrightarrow> mgr_inv (snd (AllocSrcID tw m c))"
  proof -
    assume lt: "nextID m \<noteq> - 1"
    then have le: "nextID m \<le> nextID m + 1" "nextID m < nextID m + 1" "nextID m + 1 \<noteq> 0"
      using next_less [of "nextID m"] by auto
    show "mgr_inv (snd (AllocSrcID tw m c))"
    proof (cases "map_of cs c")
      case (Some j)
      have "0 < ref_at rs c + 1" using pos by (auto simp: ref_at_def split: option.splits)
      moreover have "ids_inj (putSrcMaps m ?v (cs, AList.update c (ref_at rs c + 1) rs, t))"
        by (rule ids_inj_sub [OF ii]) (auto simp: id_at_def g split: if_splits)
      ultimately show ?thesis
        using Some ts td n0 table_ok_more [OF t Some, of "ref_at rs c + 1"]
        by (simp add: AllocSrcID_def Let_def g mgr_inv_maps)
    next
      case None
      obtain e' t' where w: "writeTrie tw t c (nextID m) ?v = (e', t')" by force
      let ?m1 = "m\<lparr>nextID := nextID m + 1\<rparr>"
      have "ids_inj (putSrcMaps ?m1 ?v (cs, rs, t'))"
        by (rule ids_inj_sub [OF ii]) (auto simp: id_at_def g split: if_splits)
      moreover have "ids_inj (putSrcMaps ?m1 ?v (AList.update c (nextID m) cs, AList.update c 1 rs, t'))"
        by (rule ids_inj_new [where da = False and va = ?v and ca = c, OF ii new]) (auto simp: id_at_def g split: if_splits)
      ultimately show ?thesis
        using None w le(3) table_ok_mono [OF ts le(1)] table_ok_mono [OF td le(1)]
          table_ok_mono [OF t le(1)] table_ok_new [OF t refl n0 le(2)]
        by (cases e') (simp_all add: AllocSrcID_def Let_def g mgr_inv_maps)
    qed
  qed
  show "mgr_inv (snd (ReleaseSrcID tw m c))"
  proof (cases "map_of rs c")
    case None
    then show ?thesis using inv by (simp add: ReleaseSrcID_def Let_def g)
  next
    case (Some r)
    obtain e' t' where w: "deleteTrie tw t c ?v = (e', t')" by force
    obtain j where j: "map_of cs c = Some j" using table_ok_ref(2) [OF t Some] by blast
    have "ids_inj (putSrcMaps m ?v (cs, rs', t''))"
      "ids_inj (putSrcMaps m ?v (AList.delete c cs, rs', t''))" for rs' t''
      by (rule ids_inj_sub [OF ii]; auto simp: id_at_def g split: if_splits)+
    then show ?thesis
      using Some w ts td n0 t table_ok_delete [OF t, of c] table_ok_more [OF t j, of "r - 1"]
      by (cases e') (auto simp: ReleaseSrcID_def Let_def g mgr_inv_maps)
  qed
  show "0 \<le> src_refs m c \<and> (GetSrcID m c = None \<longleftrightarrow> src_refs m c = 0)"
    using none pos by (auto simp: src_maps g ref_at_def split: option.splits dest: less_imp_le)
  show "GetSrcID m c = Some i \<Longrightarrow> 0 < i \<and> i < nextID m"
    using t by (auto simp: src_maps g table_ok_def)
  show "GetSrcID m c = Some i \<Longrightarrow> GetSrcID m d = Some i \<Longrightarrow> c = d"
    using ids_injD [OF ii, of False ?v c i False "isIPv6CIDR d" d] by (simp add: src_maps id_at_def)
qed

interpretation dst_ids: id_allocator "AllocDstID tw" "ReleaseDstID tw" GetDstID dst_refs nextID mgr_inv
  for tw
proof unfold_locales
  fix m :: "'a Manager" and c d :: string and i and m' :: "'a Manager" and e
  let ?v = "isIPv6CIDR c"
  obtain cs rs t where g: "getDstMaps m ?v = (cs, rs, t)" by (rule prod_cases3)
  show "AllocDstID tw m c = (Inr i, m') \<Longrightarrow>
      GetDstID m' = (GetDstID m)(c \<mapsto> i) \<and> i = (case GetDstID m c of Some j \<Rightarrow> j | None \<Rightarrow> nextID m)"
    by (auto simp: AllocDstID_def Let_def g dst_maps fun_eq_iff split: option.splits prod.splits)
  show "AllocDstID tw m c = (Inl e, m') \<Longrightarrow> GetDstID m' = GetDstID m \<and> dst_refs m' = dst_refs m"
    by (auto simp: AllocDstID_def Let_def g dst_maps fun_eq_iff split: option.splits prod.splits)
  show "ReleaseDstID tw m c = (Some e, m') \<Longrightarrow> GetDstID m' = GetDstID m \<and> dst_refs m' = dst_refs m"
    by (auto simp: ReleaseDstID_def Let_def g dst_maps fun_eq_iff split: option.splits prod.splits if_splits)
  assume inv: "mgr_inv m"
  then have t: "table_ok ?v (nextID m) cs rs" and n0: "nextID m \<noteq> 0" and ii: "ids_inj m" and
    ts: "\<And>v. table_ok v (nextID m) (fst (getDstMaps m v)) (fst (snd (getDstMaps m v)))" and
    td: "\<And>v. table_ok v (nextID m) (fst (getSrcMaps m v)) (fst (snd (getSrcMaps m v)))"
    using g by (auto simp: mgr_inv_maps) (metis fst_conv snd_conv)
  note none = table_ok_none [OF t, of c]
  have new: "id_at m d v c \<noteq> Some (nextID m)" for d v c
    using ts [of v] td [of v] by (auto simp: id_at_def table_ok_def split: if_splits)
  have pos: "0 < r" if "map_of rs c = Some r" for r using t that by (auto simp: table_ok_def)
  show "AllocDstID tw m c = (Inr i, m') \<Longrightarrow> dst_refs m' = (dst_refs m)(c := dst_refs m c + 1)"
    using none by (auto simp: AllocDstID_def Let_def g dst_maps fun_eq_iff ref_at_def
        split: option.splits prod.splits if_splits)
  show "ReleaseDstID tw m c = (None, m') \<Longrightarrow> 0 < dst_refs m c \<and>
      dst_refs m' = (dst_refs m)(c := dst_refs m c - 1) \<and>
      GetDstID m' = (if dst_refs m c \<le> 1 then (GetDstID m)(c := None) else GetDstID m)"
    using none pos by (fastforce simp: ReleaseDstID_def Let_def g dst_maps fun_eq_iff ref_at_def
        split: option.splits prod.splits if_splits)
  show "nextID m \<noteq> - 1 \<Longrightarrow> mgr_inv (snd (AllocDstID tw m c))"
  proof -
    assume lt: "nextID m \<noteq> - 1"
    then have le: "nextID m \<le> nextID m + 1" "nextID m < nextID m + 1" "nextID m + 1 \<noteq> 0"
      using next_less [of "nextID m"] by auto
    show "mgr_inv (snd (AllocDstID tw m c))"
    proof (cases "map_of cs c")
      case (Some j)
      have "0 < ref_at rs c + 1" using pos by (auto simp: ref_at_def split: option.splits)
      moreover have "ids_inj (putDstMaps m ?v (cs, AList.update c (ref_at rs c + 1) rs, t))"
        by (rule ids_inj_sub [OF ii]) (auto simp: id_at_def g split: if_splits)
      ultimately show ?thesis
        using Some ts td n0 table_ok_more [OF t Some, of "ref_at rs c + 1"]
        by (simp add: AllocDstID_def Let_def g mgr_inv_maps)
    next
      case None
      obtain e' t' where w: "writeTrie tw t c (nextID m) ?v = (e', t')" by force
      let ?m1 = "m\<lparr>nextID := nextID m + 1\<rparr>"
      have "ids_inj (putDstMaps ?m1 ?v (cs, rs, t'))"
        by (rule ids_inj_sub [OF ii]) (auto simp: id_at_def g split: if_splits)
      moreover have "ids_inj (putDstMaps ?m1 ?v (AList.update c (nextID m) cs, AList.update c 1 rs, t'))"
        by (rule ids_inj_new [where da = True and va = ?v and ca = c, OF ii new]) (auto simp: id_at_def g split: if_splits)
      ultimately show ?thesis
        using None w le(3) table_ok_mono [OF ts le(1)] table_ok_mono [OF td le(1)]
          table_ok_mono [OF t le(1)] table_ok_new [OF t refl n0 le(2)]
        by (cases e') (simp_all add: AllocDstID_def Let_def g mgr_inv_maps)
    qed
  qed
  show "mgr_inv (snd (ReleaseDstID tw m c))"
  proof (cases "map_of rs c")
    case None
    then show ?thesis using inv by (simp add: ReleaseDstID_def Let_def g)
  next
    case (Some r)
    obtain e' t' where w: "deleteTrie tw t c ?v = (e', t')" by force
    obtain j where j: "map_of cs c = Some j" using table_ok_ref(2) [OF t Some] by blast
    have "ids_inj (putDstMaps m ?v (cs, rs', t''))"
      "ids_inj (putDstMaps m ?v (AList.delete c cs, rs', t''))" for rs' t''
      by (rule ids_inj_sub [OF ii]; auto simp: id_at_def g split: if_splits)+
    then show ?thesis
      using Some w ts td n0 t table_ok_delete [OF t, of c] table_ok_more [OF t j, of "r - 1"]
      by (cases e') (auto simp: ReleaseDstID_def Let_def g mgr_inv_maps)
  qed
  show "0 \<le> dst_refs m c \<and> (GetDstID m c = None \<longleftrightarrow> dst_refs m c = 0)"
    using none pos by (auto simp: dst_maps g ref_at_def split: option.splits dest: less_imp_le)
  show "GetDstID m c = Some i \<Longrightarrow> 0 < i \<and> i < nextID m"
    using t by (auto simp: dst_maps g table_ok_def)
  show "GetDstID m c = Some i \<Longrightarrow> GetDstID m d = Some i \<Longrightarrow> c = d"
    using ids_injD [OF ii, of True ?v c i True "isIPv6CIDR d" d] by (simp add: dst_maps id_at_def)
qed


section \<open>Sequences of operations\<close>

datatype mgr_op = AllocSrc string | AllocDst string | ReleaseSrc string | ReleaseDst string | ClearCIDRs

fun mgr_step :: "'t TrieWriter \<Rightarrow> mgr_op \<Rightarrow> 't Manager \<Rightarrow> 't Manager" where
  "mgr_step tw (AllocSrc c) m = snd (AllocSrcID tw m c)"
| "mgr_step tw (AllocDst c) m = snd (AllocDstID tw m c)"
| "mgr_step tw (ReleaseSrc c) m = snd (ReleaseSrcID tw m c)"
| "mgr_step tw (ReleaseDst c) m = snd (ReleaseDstID tw m c)"
| "mgr_step tw ClearCIDRs m = ClearAll tw m"

definition mgr_run :: "'t TrieWriter \<Rightarrow> mgr_op list \<Rightarrow> 't Manager \<Rightarrow> 't Manager" where
  "mgr_run tw ops m = foldl (\<lambda>m op. mgr_step tw op m) m ops"

lemma mgr_run_simps [simp]:
  "mgr_run tw [] m = m" "mgr_run tw (op # ops) m = mgr_run tw ops (mgr_step tw op m)"
  by (simp_all add: mgr_run_def)

lemma ClearAll_maps:
  "fst (getSrcMaps (ClearAll tw m) v) = []" "fst (snd (getSrcMaps (ClearAll tw m) v)) = []"
  "fst (getDstMaps (ClearAll tw m) v) = []" "fst (snd (getDstMaps (ClearAll tw m) v)) = []"
  "nextID (ClearAll tw m) = nextID m"
  by (simp_all add: ClearAll_def getSrcMaps_def getDstMaps_def)

lemma table_ok_Nil [simp]: "table_ok v n [] []"
  by (simp add: table_ok_def)

lemma mgr_inv_ClearAll: "mgr_inv m \<Longrightarrow> mgr_inv (ClearAll tw m)"
  by (simp add: mgr_inv_maps ClearAll_maps ids_inj_def id_at_def)

lemma mgr_inv_New: "mgr_inv (NewManager a b c d)"
  by (simp add: mgr_inv_maps NewManager_def getSrcMaps_def getDstMaps_def ids_inj_def id_at_def)

lemma mgr_inv_step:
  "mgr_inv m \<Longrightarrow> nextID m \<noteq> - 1 \<Longrightarrow> mgr_inv (mgr_step tw op m)"
  by (cases op) (simp_all add: mgr_inv_ClearAll src_ids.inv_alloc src_ids.inv_release
      dst_ids.inv_alloc dst_ids.inv_release)

text \<open>One step: what happens to the next ID and to the IDs in use.\<close>

lemma mgr_step_next: "nextID (mgr_step tw op m) = nextID m \<or> nextID (mgr_step tw op m) = nextID m + 1"
  by (cases op)
     (auto simp: AllocSrcID_def AllocDstID_def ReleaseSrcID_def ReleaseDstID_def Let_def ClearAll_maps
       split: prod.splits option.splits)

lemma mgr_step_ids:
  "id_at (mgr_step tw op m) d v c = Some j \<Longrightarrow> id_at m d v c = Some j \<or> j = nextID m"
  by (cases op)
     (auto simp: AllocSrcID_def AllocDstID_def ReleaseSrcID_def ReleaseDstID_def Let_def ClearAll_maps
       id_at_def split: prod.splits option.splits if_splits)

lemma unat_next: "n \<noteq> - 1 \<Longrightarrow> unat (n + 1 :: u32) = Suc (unat n)"
  using next_less [of n] by (auto simp: word_less_nat_alt unat_word_ariths mod_Suc)

lemma unat_max_u32: "n = (- 1 :: u32) \<Longrightarrow> unat n = 4294967295"
proof -
  have "(- 1 :: u32) = 0xFFFFFFFF" by simp
  then show "n = - 1 \<Longrightarrow> unat n = 4294967295" by simp
qed

lemma mgr_run_inv:
  "mgr_inv m \<Longrightarrow> unat (nextID m) + length ops < 4294967296 \<Longrightarrow>
   mgr_inv (mgr_run tw ops m) \<and> unat (nextID m) \<le> unat (nextID (mgr_run tw ops m)) \<and>
   unat (nextID (mgr_run tw ops m)) \<le> unat (nextID m) + length ops \<and>
   (\<forall>d v c j. id_at (mgr_run tw ops m) d v c = Some j \<longrightarrow> id_at m d v c = Some j \<or> nextID m \<le> j)"
proof (induction ops arbitrary: m)
  case (Cons op ops)
  let ?m = "mgr_step tw op m"
  have n: "nextID m \<noteq> - 1" using Cons.prems(2) unat_max_u32 by fastforce
  have le: "unat (nextID m) \<le> unat (nextID ?m)" "unat (nextID ?m) \<le> Suc (unat (nextID m))"
    using mgr_step_next [of tw op m] unat_next [OF n] by auto
  have "mgr_inv ?m" using mgr_inv_step Cons.prems(1) n by blast
  moreover have "unat (nextID ?m) + length ops < 4294967296" using le Cons.prems(2) by simp
  ultimately have ih: "mgr_inv (mgr_run tw ops ?m)"
    "unat (nextID ?m) \<le> unat (nextID (mgr_run tw ops ?m))"
    "unat (nextID (mgr_run tw ops ?m)) \<le> unat (nextID ?m) + length ops"
    "\<And>d v c j. id_at (mgr_run tw ops ?m) d v c = Some j \<Longrightarrow> id_at ?m d v c = Some j \<or> nextID ?m \<le> j"
    using Cons.IH [of ?m] by auto
  have "id_at m d v c = Some j \<or> nextID m \<le> j"
    if "id_at (mgr_run tw ops ?m) d v c = Some j" for d v c j
    using ih(4) [OF that] mgr_step_ids [of tw op m d v c j] le(1)
    by (auto simp: word_le_nat_alt intro: order_trans)
  with ih le show ?case by auto
qed simp

section \<open>Normal forms\<close>

lemma NormalizeCIDR_view:
  assumes "NormalizeCIDR c = Inr s"
  shows "\<exists>nn k. s = view_string nn k \<and> (length nn = 4 \<or> length nn = 16 \<and> ip_To4 nn = None) \<and>
    k \<le> 8 * length nn \<and> masked nn k = nn"
proof -
  obtain ip n where n: "net_ParseCIDR c = Some (ip, n)" "s = ipnet_String n"
    using assms by (auto simp: NormalizeCIDR_def split: option.splits)
  obtain nn k where v: "is_view n nn k" using ParseCIDR_view [OF n(1)] by blast
  show ?thesis
    using v ipnet_String_view [OF v] n(2) by (intro exI [of _ nn] exI [of _ k]) (auto simp: is_view_def)
qed

definition normal_cidr :: "string \<Rightarrow> bool" where
  "normal_cidr c \<longleftrightarrow> NormalizeCIDR c = Inr c"

lemma normal_cidr_parse:
  assumes "normal_cidr c"
  shows "\<exists>nn k ip. c = view_string nn k \<and> net_ParseCIDR c = Some (ip, view_net nn k) \<and>
    (length nn = 4 \<or> length nn = 16 \<and> ip_To4 nn = None) \<and> k \<le> 8 * length nn"
  using NormalizeCIDR_view [of c c] assms ParseCIDR_view_string unfolding normal_cidr_def by metis

lemma NormalizeCIDR_normal: "NormalizeCIDR c = Inr s \<Longrightarrow> normal_cidr s"
proof -
  assume "NormalizeCIDR c = Inr s"
  then obtain nn k where s: "s = view_string nn k"
    and w: "length nn = 4 \<or> length nn = 16 \<and> ip_To4 nn = None" "k \<le> 8 * length nn" "masked nn k = nn"
    using NormalizeCIDR_view by blast
  obtain ip where "net_ParseCIDR s = Some (ip, view_net nn k)" using ParseCIDR_view_string [OF w] s by blast
  then show "normal_cidr s"
    using ipnet_String_view [OF is_view_view_net [OF w]] s by (simp add: normal_cidr_def NormalizeCIDR_def)
qed

text \<open>The trie key of a prefix in its own family's trie.\<close>

definition trie_key_of :: "string \<Rightarrow> trie_key option" where
  "trie_key_of c =
     (if isIPv6CIDR c then (case makeLPMv6Key c of Inr k \<Rightarrow> Some (KeyV6 k) | Inl _ \<Rightarrow> None)
      else (case makeLPMv4Key c of Inr k \<Rightarrow> Some (KeyV4 k) | Inl _ \<Rightarrow> None))"

lemma trie_key_of_normal:
  assumes "net_ParseCIDR c = Some (ip, view_net nn k)" "length nn = 4 \<or> length nn = 16 \<and> ip_To4 nn = None"
    "k \<le> 8 * length nn"
  shows "trie_key_of c =
    Some (if length nn = 16 then KeyV6 \<lparr>v6_PrefixLen = of_nat k, v6_Data = nn\<rparr>
          else KeyV4 \<lparr>v4_PrefixLen = of_nat k, v4_Data = nn\<rparr>)"
proof -
  have "mask_Size (cidr_mask (length nn) k) = int k"
    using assms(3) by (simp add: mask_Size_def simple_mask_length_cidr_mask)
  with assms show ?thesis
    by (auto simp: trie_key_of_def isIPv6CIDR_def makeLPMv6Key_def makeLPMv4Key_def view_net_def
        ip_To4_def ip_To16_def)
qed

lemma trie_key_of_Some: "normal_cidr c \<Longrightarrow> \<exists>key. trie_key_of c = Some key"
  using normal_cidr_parse [of c] trie_key_of_normal by metis

lemma trie_key_of_inj:
  assumes "normal_cidr c" "normal_cidr d" "trie_key_of c = trie_key_of d"
  shows "c = d"
proof -
  obtain nn k ip where c: "c = view_string nn k" "net_ParseCIDR c = Some (ip, view_net nn k)"
    "length nn = 4 \<or> length nn = 16 \<and> ip_To4 nn = None" "k \<le> 8 * length nn"
    using normal_cidr_parse [OF assms(1)] by blast
  obtain nn' k' ip' where d: "d = view_string nn' k'" "net_ParseCIDR d = Some (ip', view_net nn' k')"
    "length nn' = 4 \<or> length nn' = 16 \<and> ip_To4 nn' = None" "k' \<le> 8 * length nn'"
    using normal_cidr_parse [OF assms(2)] by blast
  have "nn = nn' \<and> (of_nat k :: u32) = of_nat k'"
    using assms(3) trie_key_of_normal [OF c(2-4)] trie_key_of_normal [OF d(2-4)]
    by (auto split: if_splits)
  moreover have "k < 2 ^ 32" "k' < 2 ^ 32" using c(3,4) d(3,4) by auto
  ultimately have "nn = nn'" "k = k'" by (auto simp: word_unat_eq_iff unsigned_of_nat take_bit_nat_eq_self)
  with c(1) d(1) show ?thesis by simp
qed

section \<open>The tries follow the tables\<close>

text \<open>
  What an LPM trie map of the kernel promises: a successful \<^verbatim>\<open>Put\<close> overwrites one entry, a
  successful \<^verbatim>\<open>Delete\<close> removes one, and a failed operation changes nothing. \<open>get\<close> is the entry
  stored under a key.
\<close>

definition trie_laws :: "'t TrieWriter \<Rightarrow> ('t \<Rightarrow> trie_key \<Rightarrow> u32 option) \<Rightarrow> bool" where
  "trie_laws tw get \<longleftrightarrow>
     (\<forall>t k i t'. trie_Put tw t k i = (True, t') \<longrightarrow> get t' = (get t)(k \<mapsto> i)) \<and>
     (\<forall>t k i t'. trie_Put tw t k i = (False, t') \<longrightarrow> get t' = get t) \<and>
     (\<forall>t k t'. trie_Delete tw t k = (True, t') \<longrightarrow> get t' = (get t)(k := None)) \<and>
     (\<forall>t k t'. trie_Delete tw t k = (False, t') \<longrightarrow> get t' = get t)"

text \<open>Table and trie agree: the trie holds the registered prefixes with their IDs, nothing else.\<close>

definition mirrors :: "('t \<Rightarrow> trie_key \<Rightarrow> u32 option) \<Rightarrow> (string, u32) gomap \<Rightarrow> 't \<Rightarrow> bool" where
  "mirrors get cidrs trie \<longleftrightarrow>
     (\<forall>c i. map_of cidrs c = Some i \<longrightarrow> normal_cidr c) \<and>
     (\<forall>key i. get trie key = Some i \<longleftrightarrow> (\<exists>c. trie_key_of c = Some key \<and> map_of cidrs c = Some i))"

definition tries_mirror :: "('t \<Rightarrow> trie_key \<Rightarrow> u32 option) \<Rightarrow> 't Manager \<Rightarrow> bool" where
  "tries_mirror get m \<longleftrightarrow>
     mirrors get (srcV4CIDRs m) (srcV4Trie m) \<and> mirrors get (dstV4CIDRs m) (dstV4Trie m) \<and>
     mirrors get (srcV6CIDRs m) (srcV6Trie m) \<and> mirrors get (dstV6CIDRs m) (dstV6Trie m)"

lemma tries_mirror_maps:
  "tries_mirror get m \<longleftrightarrow>
     (\<forall>v. mirrors get (fst (getSrcMaps m v)) (snd (snd (getSrcMaps m v)))) \<and>
     (\<forall>v. mirrors get (fst (getDstMaps m v)) (snd (snd (getDstMaps m v))))"
  by (auto simp: tries_mirror_def getSrcMaps_def getDstMaps_def all_bool_eq)

lemma writeTrie_laws:
  assumes "trie_laws tw get" "writeTrie tw t c i (isIPv6CIDR c) = (e, t')"
  shows "e = None \<Longrightarrow> \<exists>key. trie_key_of c = Some key \<and> get t' = (get t)(key \<mapsto> i)"
    "e \<noteq> None \<Longrightarrow> get t' = get t"
  using assms
  by (auto simp: writeTrie_def trie_laws_def trie_key_of_def split: sum.splits prod.splits if_splits)

lemma deleteTrie_laws:
  assumes "trie_laws tw get" "deleteTrie tw t c (isIPv6CIDR c) = (e, t')"
  shows "e = None \<Longrightarrow> \<exists>key. trie_key_of c = Some key \<and> get t' = (get t)(key := None)"
    "e \<noteq> None \<Longrightarrow> get t' = get t"
  using assms
  by (auto simp: deleteTrie_def trie_laws_def trie_key_of_def split: sum.splits prod.splits if_splits)

lemma mirrors_same: "mirrors get cs t \<Longrightarrow> get t' = get t \<Longrightarrow> mirrors get cs t'"
  by (simp add: mirrors_def)

lemma mirrors_put:
  assumes "mirrors get cs t" "normal_cidr c" "trie_key_of c = Some key" "get t' = (get t)(key \<mapsto> i)"
  shows "mirrors get (AList.update c i cs) t'"
proof -
  have inj: "d = c" if "trie_key_of d = Some key" "map_of cs d = Some j" for d j
    using that assms(1-3) trie_key_of_inj [of d c] by (auto simp: mirrors_def)
  have "get t' k = Some j \<longleftrightarrow> (\<exists>d. trie_key_of d = Some k \<and> map_of (AList.update c i cs) d = Some j)" for k j
  proof (cases "k = key")
    case True
    then show ?thesis using assms(3,4) inj by (auto split: if_splits)
  next
    case False
    then have "d \<noteq> c" if "trie_key_of d = Some k" for d using that assms(3) by auto
    then show ?thesis using assms(1,4) False by (auto simp: mirrors_def)
  qed
  moreover have "normal_cidr d" if "map_of (AList.update c i cs) d = Some j" for d j
    using that assms(1,2) by (auto simp: mirrors_def split: if_splits)
  ultimately show ?thesis by (simp only: mirrors_def) blast
qed

lemma mirrors_delete:
  assumes "mirrors get cs t" "normal_cidr c" "trie_key_of c = Some key" "get t' = (get t)(key := None)"
  shows "mirrors get (AList.delete c cs) t'"
proof -
  have inj: "d = c" if "trie_key_of d = Some key" "map_of cs d = Some j" for d j
    using that assms(1-3) trie_key_of_inj [of d c] by (auto simp: mirrors_def)
  have "get t' k = Some j \<longleftrightarrow> (\<exists>d. trie_key_of d = Some k \<and> map_of (AList.delete c cs) d = Some j)" for k j
  proof (cases "k = key")
    case True
    then show ?thesis using assms(4) inj by auto
  next
    case False
    then have "d \<noteq> c" if "trie_key_of d = Some k" for d using that assms(3) by auto
    then show ?thesis using assms(1,4) False by (auto simp: mirrors_def)
  qed
  moreover have "normal_cidr d" if "map_of (AList.delete c cs) d = Some j" for d j
    using that assms(1) by (auto simp: mirrors_def split: if_splits)
  ultimately show ?thesis by (simp only: mirrors_def) blast
qed

lemma mirror_AllocSrc:
  assumes "trie_laws tw get" "tries_mirror get m" "normal_cidr c"
  shows "tries_mirror get (snd (AllocSrcID tw m c))"
proof -
  let ?v = "isIPv6CIDR c"
  obtain cs rs t where g: "getSrcMaps m ?v = (cs, rs, t)" by (rule prod_cases3)
  obtain e t' where w: "writeTrie tw t c (nextID m) ?v = (e, t')" by force
  have m: "mirrors get cs t" using assms(2) g by (auto simp: tries_mirror_maps) (metis fst_conv snd_conv)
  have "e \<noteq> None \<Longrightarrow> mirrors get cs t'"
    using writeTrie_laws(2) [OF assms(1) w] mirrors_same [OF m] by blast
  moreover have "e = None \<Longrightarrow> mirrors get (AList.update c (nextID m) cs) t'"
    using writeTrie_laws(1) [OF assms(1) w] mirrors_put [OF m assms(3)] by blast
  ultimately show ?thesis
    using assms(2) m w by (cases e) (auto simp: AllocSrcID_def Let_def g tries_mirror_maps split: option.splits)
qed

lemma mirror_ReleaseSrc:
  assumes "trie_laws tw get" "tries_mirror get m" "normal_cidr c"
  shows "tries_mirror get (snd (ReleaseSrcID tw m c))"
proof -
  let ?v = "isIPv6CIDR c"
  obtain cs rs t where g: "getSrcMaps m ?v = (cs, rs, t)" by (rule prod_cases3)
  obtain e t' where w: "deleteTrie tw t c ?v = (e, t')" by force
  have m: "mirrors get cs t" using assms(2) g by (auto simp: tries_mirror_maps) (metis fst_conv snd_conv)
  have "e \<noteq> None \<Longrightarrow> mirrors get cs t'"
    using deleteTrie_laws(2) [OF assms(1) w] mirrors_same [OF m] by blast
  moreover have "e = None \<Longrightarrow> mirrors get (AList.delete c cs) t'"
    using deleteTrie_laws(1) [OF assms(1) w] mirrors_delete [OF m assms(3)] by blast
  ultimately show ?thesis
    using assms(2) m w by (cases e) (auto simp: ReleaseSrcID_def Let_def g tries_mirror_maps split: option.splits)
qed

lemma mirror_AllocDst:
  assumes "trie_laws tw get" "tries_mirror get m" "normal_cidr c"
  shows "tries_mirror get (snd (AllocDstID tw m c))"
proof -
  let ?v = "isIPv6CIDR c"
  obtain cs rs t where g: "getDstMaps m ?v = (cs, rs, t)" by (rule prod_cases3)
  obtain e t' where w: "writeTrie tw t c (nextID m) ?v = (e, t')" by force
  have m: "mirrors get cs t" using assms(2) g by (auto simp: tries_mirror_maps) (metis fst_conv snd_conv)
  have "e \<noteq> None \<Longrightarrow> mirrors get cs t'"
    using writeTrie_laws(2) [OF assms(1) w] mirrors_same [OF m] by blast
  moreover have "e = None \<Longrightarrow> mirrors get (AList.update c (nextID m) cs) t'"
    using writeTrie_laws(1) [OF assms(1) w] mirrors_put [OF m assms(3)] by blast
  ultimately show ?thesis
    using assms(2) m w by (cases e) (auto simp: AllocDstID_def Let_def g tries_mirror_maps split: option.splits)
qed

lemma mirror_ReleaseDst:
  assumes "trie_laws tw get" "tries_mirror get m" "normal_cidr c"
  shows "tries_mirror get (snd (ReleaseDstID tw m c))"
proof -
  let ?v = "isIPv6CIDR c"
  obtain cs rs t where g: "getDstMaps m ?v = (cs, rs, t)" by (rule prod_cases3)
  obtain e t' where w: "deleteTrie tw t c ?v = (e, t')" by force
  have m: "mirrors get cs t" using assms(2) g by (auto simp: tries_mirror_maps) (metis fst_conv snd_conv)
  have "e \<noteq> None \<Longrightarrow> mirrors get cs t'"
    using deleteTrie_laws(2) [OF assms(1) w] mirrors_same [OF m] by blast
  moreover have "e = None \<Longrightarrow> mirrors get (AList.delete c cs) t'"
    using deleteTrie_laws(1) [OF assms(1) w] mirrors_delete [OF m assms(3)] by blast
  ultimately show ?thesis
    using assms(2) m w by (cases e) (auto simp: ReleaseDstID_def Let_def g tries_mirror_maps split: option.splits)
qed

section \<open>Properties\<close>

text \<open>
  C33. IDs are unique and never reused: after any sequence of at most \<open>2 ^ 32 - 2\<close> operations no ID
  is held by two prefixes of any direction or family, none is 0 (the wildcard), and an ID a prefix
  holds after further operations either was its ID before or belonged to no prefix then.
\<close>

theorem ids_unique_never_reused:
  assumes "length ops + length ops' < 4294967295"
  shows "mgr_inv (mgr_run tw ops (NewManager a b c d)) \<and>
    ids_inj (mgr_run tw ops' (mgr_run tw ops (NewManager a b c d))) \<and>
    (\<forall>dst v p j. id_at (mgr_run tw ops' (mgr_run tw ops (NewManager a b c d))) dst v p = Some j \<longrightarrow>
       0 < j \<and> (id_at (mgr_run tw ops (NewManager a b c d)) dst v p = Some j \<or>
         (\<forall>dst' v' p'. id_at (mgr_run tw ops (NewManager a b c d)) dst' v' p' \<noteq> Some j)))"
proof -
  let ?m0 = "NewManager a b c d" let ?m1 = "mgr_run tw ops ?m0" let ?m2 = "mgr_run tw ops' ?m1"
  have "unat (nextID ?m0) + length ops < 4294967296" using assms by (simp add: NewManager_def)
  from mgr_run_inv [OF mgr_inv_New this, of tw]
  have m1: "mgr_inv ?m1" "unat (nextID ?m1) \<le> 1 + length ops" by (auto simp: NewManager_def)
  have "unat (nextID ?m1) + length ops' < 4294967296" using m1(2) assms by simp
  from mgr_run_inv [OF m1(1) this, of tw]
  have m2: "mgr_inv ?m2"
    "\<And>dst v p j. id_at ?m2 dst v p = Some j \<Longrightarrow> id_at ?m1 dst v p = Some j \<or> nextID ?m1 \<le> j"
    by blast+
  have range: "0 < j \<and> j < nextID m" if "mgr_inv m" "id_at m dst v p = Some j" for m :: "'a Manager" and dst v p j
    using that by (auto simp: mgr_inv_maps id_at_def table_ok_def split: if_splits)
  have "id_at ?m1 dst v p = Some j \<or> (\<forall>dst' v' p'. id_at ?m1 dst' v' p' \<noteq> Some j)"
    if "id_at ?m2 dst v p = Some j" for dst v p j
    using m2(2) [OF that] range [OF m1(1)] by (meson not_less)
  moreover have "ids_inj ?m2" using m2(1) by (simp add: mgr_inv_def)
  ultimately show ?thesis using m1(1) range [OF m2(1)] by blast
qed

text \<open>
  Taking an ID for a prefix and releasing it again leaves the table of IDs and the reference
  counts as they were, for source and for destination prefixes.
\<close>

theorem alloc_release_inverse:
  assumes "mgr_inv m" "nextID m \<noteq> - 1"
    and "AllocSrcID tw m c = (Inr i, m1)" "ReleaseSrcID tw m1 c = (None, m2)"
    and "AllocDstID tw m e = (Inr j, n1)" "ReleaseDstID tw n1 e = (None, n2)"
  shows "GetSrcID m2 = GetSrcID m \<and> src_refs m2 = src_refs m \<and>
    GetDstID n2 = GetDstID m \<and> dst_refs n2 = dst_refs m"
  using src_ids.alloc_release [OF assms(1-4)] dst_ids.alloc_release [OF assms(1,2,5,6)] by blast

text \<open>
  A failed allocation or release changes no ID and no reference count (a failed release can be
  retried), and a successful release gives back exactly one reference, dropping the ID with the last.
\<close>

theorem release_exact:
  assumes "mgr_inv m" "ReleaseSrcID tw m c = (r, m')"
  shows "(case r of
      Some e \<Rightarrow> GetSrcID m' = GetSrcID m \<and> src_refs m' = src_refs m
    | None \<Rightarrow> 0 < src_refs m c \<and> src_refs m' = (src_refs m)(c := src_refs m c - 1) \<and>
        GetSrcID m' = (if src_refs m c \<le> 1 then (GetSrcID m)(c := None) else GetSrcID m))"
proof (cases r)
  case None
  with src_ids.release_ok [OF assms(1)] assms(2) show ?thesis by simp
next
  case (Some e)
  with src_ids.release_fail assms(2) show ?thesis by simp
qed


text \<open>
  C35. \<^verbatim>\<open>NormalizeCIDR\<close> is a normal form: normalising again changes nothing, and the normalised
  prefix contains the same addresses.
\<close>

theorem NormalizeCIDR_normal_form:
  assumes "NormalizeCIDR c = Inr s" and "net_ParseCIDR c = Some (ip, n)"
  shows "NormalizeCIDR s = Inr s \<and>
    (\<exists>ip' n'. net_ParseCIDR s = Some (ip', n') \<and> (\<forall>x. ipnet_Contains n' x = ipnet_Contains n x))"
proof -
  obtain nn k where v: "is_view n nn k" using ParseCIDR_view [OF assms(2)] by blast
  then have w: "length nn = 4 \<or> length nn = 16 \<and> ip_To4 nn = None" "k \<le> 8 * length nn" "masked nn k = nn"
    by (auto simp: is_view_def)
  have "s = view_string nn k" using assms ipnet_String_view [OF v] by (simp add: NormalizeCIDR_def)
  then have "\<exists>ip'. net_ParseCIDR s = Some (ip', view_net nn k)" using ParseCIDR_view_string [OF w] by simp
  moreover have "ipnet_Contains (view_net nn k) x = ipnet_Contains n x" for x
    using Contains_view [OF v] Contains_view [OF is_view_view_net [OF w]] by simp
  moreover have "NormalizeCIDR s = Inr s"
    using NormalizeCIDR_normal [OF assms(1)] by (simp add: normal_cidr_def)
  ultimately show ?thesis by blast
qed

lemma overlap_loop_cases:
  assumes "is_view n nn k"
  shows "(overlap_loop n es \<in> set es \<and> (\<exists>ip' n'. net_ParseCIDR (overlap_loop n es) = Some (ip', n') \<and>
        ipnet_String n' \<noteq> ipnet_String n \<and> (\<exists>x. ipnet_Contains n x \<and> ipnet_Contains n' x)))
    \<or> (overlap_loop n es = [] \<and> (\<forall>e \<in> set es. \<forall>ip' n'. net_ParseCIDR e = Some (ip', n') \<longrightarrow>
        ipnet_String n' = ipnet_String n \<or> \<not> (\<exists>x. ipnet_Contains n x \<and> ipnet_Contains n' x)))"
proof (induction es)
  case (Cons e es)
  show ?case
  proof (cases "net_ParseCIDR e")
    case None
    with Cons show ?thesis by auto
  next
    case (Some p)
    obtain ip' n' where p: "p = (ip', n')" by force
    obtain nn' k' where v': "is_view n' nn' k'" using ParseCIDR_view Some p by blast
    note o = overlap_iff_containment [OF assms v']
    show ?thesis
      using Cons Some p o by (cases "ipnet_String n = ipnet_String n'") auto
  qed
qed simp

text \<open>
  C36. \<^verbatim>\<open>CheckOverlap\<close> finds overlaps exactly: an empty answer means that no listed prefix other than
  the same one shares an address with the new prefix, and a non-empty answer is a listed, different
  prefix that does share an address with it.
\<close>

theorem CheckOverlap_exact:
  assumes "net_ParseCIDR c = Some (ip, n)" and "CheckOverlap c es = Inr r"
  shows "(r \<in> set es \<and> (\<exists>ip' n'. net_ParseCIDR r = Some (ip', n') \<and>
        ipnet_String n' \<noteq> ipnet_String n \<and> (\<exists>x. ipnet_Contains n x \<and> ipnet_Contains n' x)))
    \<or> (r = [] \<and> (\<forall>e \<in> set es. \<forall>ip' n'. net_ParseCIDR e = Some (ip', n') \<longrightarrow>
        ipnet_String n' = ipnet_String n \<or> \<not> (\<exists>x. ipnet_Contains n x \<and> ipnet_Contains n' x)))"
proof -
  obtain nn k where "is_view n nn k" using ParseCIDR_view [OF assms(1)] by blast
  from overlap_loop_cases [OF this, of es] assms show ?thesis by (simp add: CheckOverlap_def)
qed

section \<open>Witnesses\<close>

text \<open>A trie that never fails, as an association list.\<close>

definition list_trie :: "(trie_key \<times> u32) list TrieWriter" where
  "list_trie = \<lparr>trie_Put = (\<lambda>t k i. (True, AList.update k i t)),
     trie_Delete = (\<lambda>t k. (map_of t k \<noteq> None, AList.delete k t))\<rparr>"

lemma list_trie_laws: "trie_laws list_trie map_of"
  by (auto simp: trie_laws_def list_trie_def)

definition sample_mgr :: "(trie_key \<times> u32) list Manager" where
  "sample_mgr = NewManager [] [] [] []"

definition sample_net :: ipnet where
  "sample_net = \<lparr>net_IP = [10, 0, 0, 0], net_Mask = cidr_mask 4 8\<rparr>"

lemma sample_masked: "masked [10, 0, 0, 0] 8 = [10, 0, 0, 0]"
  by (simp add: masked_def)

lemma sample_view: "is_view sample_net [10, 0, 0, 0] 8" "view_net [10, 0, 0, 0] 8 = sample_net"
  using is_view_view_net [of "[10, 0, 0, 0]" 8] sample_masked
  by (simp_all add: view_net_def sample_net_def numeral_eq_Suc)

lemma sample_string: "view_string [10, 0, 0, 0] 8 = ''10.0.0.0/8''"
  by (simp add: view_string_def ip_String_def ip_To4_def v4_string_def itoa.simps char_of_eq_iff)

lemma ParseCIDR_sample: "\<exists>ip. net_ParseCIDR ''10.0.0.0/8'' = Some (ip, sample_net)"
  using ParseCIDR_view_string [of "[10, 0, 0, 0]" 8] sample_masked
  by (simp add: sample_string sample_view)

lemma sample_normal: "NormalizeCIDR ''10.0.0.0/8'' = Inr ''10.0.0.0/8''"
  using ParseCIDR_sample ipnet_String_view [OF sample_view(1)]
  by (auto simp: NormalizeCIDR_def sample_string)

lemma sample_key: "makeLPMv4Key ''10.0.0.0/8'' = Inr \<lparr>v4_PrefixLen = 8, v4_Data = [10, 0, 0, 0]\<rparr>"
  "isIPv6CIDR ''10.0.0.0/8'' = False"
proof -
  have "mask_Size (cidr_mask 4 8) = 8"
    using simple_mask_length_cidr_mask [of 8 4] by (simp add: mask_Size_def)
  with ParseCIDR_sample show "makeLPMv4Key ''10.0.0.0/8'' = Inr \<lparr>v4_PrefixLen = 8, v4_Data = [10, 0, 0, 0]\<rparr>"
    "isIPv6CIDR ''10.0.0.0/8'' = False"
    by (auto simp: makeLPMv4Key_def isIPv6CIDR_def sample_net_def ip_To4_def)
qed

definition sample_mgr1 :: "(trie_key \<times> u32) list Manager" where
  "sample_mgr1 = sample_mgr\<lparr>nextID := 2, srcV4CIDRs := [(''10.0.0.0/8'', 1)], srcV4Refs := [(''10.0.0.0/8'', 1)],
     srcV4Trie := [(KeyV4 \<lparr>v4_PrefixLen = 8, v4_Data = [10, 0, 0, 0]\<rparr>, 1)]\<rparr>"

definition sample_mgr2 :: "(trie_key \<times> u32) list Manager" where
  "sample_mgr2 = sample_mgr\<lparr>nextID := 2, dstV4CIDRs := [(''10.0.0.0/8'', 1)], dstV4Refs := [(''10.0.0.0/8'', 1)],
     dstV4Trie := [(KeyV4 \<lparr>v4_PrefixLen = 8, v4_Data = [10, 0, 0, 0]\<rparr>, 1)]\<rparr>"

lemma sample_runs:
  "AllocSrcID list_trie sample_mgr ''10.0.0.0/8'' = (Inr 1, sample_mgr1)"
  "ReleaseSrcID list_trie sample_mgr1 ''10.0.0.0/8'' = (None, sample_mgr\<lparr>nextID := 2\<rparr>)"
  "AllocDstID list_trie sample_mgr ''10.0.0.0/8'' = (Inr 1, sample_mgr2)"
  "ReleaseDstID list_trie sample_mgr2 ''10.0.0.0/8'' = (None, sample_mgr\<lparr>nextID := 2\<rparr>)"
  by (simp_all add: AllocSrcID_def ReleaseSrcID_def AllocDstID_def ReleaseDstID_def sample_mgr_def
      sample_mgr1_def sample_mgr2_def NewManager_def getSrcMaps_def putSrcMaps_def getDstMaps_def
      putDstMaps_def writeTrie_def deleteTrie_def sample_key list_trie_def)

theorem ids_unique_never_reused_witness:
  "mgr_inv (mgr_run list_trie [AllocSrc ''10.0.0.0/8''] (NewManager [] [] [] [])) \<and>
    ids_inj (mgr_run list_trie [ReleaseSrc ''10.0.0.0/8'', AllocDst ''10.0.0.0/8'']
      (mgr_run list_trie [AllocSrc ''10.0.0.0/8''] (NewManager [] [] [] [])))"
  using ids_unique_never_reused [of "[AllocSrc ''10.0.0.0/8'']" "[ReleaseSrc ''10.0.0.0/8'', AllocDst ''10.0.0.0/8'']"
      list_trie "[]" "[]" "[]" "[]"] by simp

lemma sample_mgr_inv: "mgr_inv sample_mgr" "nextID sample_mgr \<noteq> - 1"
  unfolding sample_mgr_def by (rule mgr_inv_New) (simp add: NewManager_def)

theorem alloc_release_inverse_witness:
  "GetSrcID (sample_mgr\<lparr>nextID := 2\<rparr>) = GetSrcID sample_mgr \<and>
   src_refs (sample_mgr\<lparr>nextID := 2\<rparr>) = src_refs sample_mgr \<and>
   GetDstID (sample_mgr\<lparr>nextID := 2\<rparr>) = GetDstID sample_mgr \<and>
   dst_refs (sample_mgr\<lparr>nextID := 2\<rparr>) = dst_refs sample_mgr"
  by (rule alloc_release_inverse [OF sample_mgr_inv sample_runs])

lemma sample_mgr1_inv: "mgr_inv sample_mgr1"
  using src_ids.inv_alloc [OF sample_mgr_inv, of list_trie "''10.0.0.0/8''"] by (simp add: sample_runs)

theorem release_exact_witness:
  "0 < src_refs sample_mgr1 ''10.0.0.0/8'' \<and>
   src_refs (sample_mgr\<lparr>nextID := 2\<rparr>) =
     (src_refs sample_mgr1)(''10.0.0.0/8'' := src_refs sample_mgr1 ''10.0.0.0/8'' - 1)"
  using release_exact [OF sample_mgr1_inv sample_runs(2)] by simp


theorem NormalizeCIDR_normal_form_witness:
  "NormalizeCIDR ''10.0.0.0/8'' = Inr ''10.0.0.0/8'' \<and>
    (\<exists>ip' n'. net_ParseCIDR ''10.0.0.0/8'' = Some (ip', n') \<and>
       (\<forall>x. ipnet_Contains n' x = ipnet_Contains sample_net x))"
  using NormalizeCIDR_normal_form [OF sample_normal] ParseCIDR_sample by blast

definition sample_net16 :: ipnet where
  "sample_net16 = \<lparr>net_IP = [10, 1, 0, 0], net_Mask = cidr_mask 4 16\<rparr>"

lemma ParseCIDR_sample16:
  "\<exists>ip. net_ParseCIDR ''10.1.0.0/16'' = Some (ip, sample_net16)" "ipnet_String sample_net16 = ''10.1.0.0/16''"
proof -
  have m: "masked [10, 1, 0, 0] 16 = [10, 1, 0, 0]" by (simp add: masked_def)
  have s: "view_string [10, 1, 0, 0] 16 = ''10.1.0.0/16''"
    by (simp add: view_string_def ip_String_def ip_To4_def v4_string_def itoa.simps char_of_eq_iff)
  have n: "view_net [10, 1, 0, 0] 16 = sample_net16" by (simp add: view_net_def sample_net16_def numeral_eq_Suc)
  show "\<exists>ip. net_ParseCIDR ''10.1.0.0/16'' = Some (ip, sample_net16)"
    using ParseCIDR_view_string [of "[10, 1, 0, 0]" 16] m by (simp add: s n)
  show "ipnet_String sample_net16 = ''10.1.0.0/16''"
    using ipnet_String_view [OF is_view_view_net [of "[10, 1, 0, 0]" 16]] m by (simp add: s n)
qed

theorem CheckOverlap_exact_witness:
  "CheckOverlap ''10.0.0.0/8'' [''10.1.0.0/16''] = Inr ''10.1.0.0/16'' \<and>
   (\<exists>x. ipnet_Contains sample_net x \<and> ipnet_Contains sample_net16 x)"
proof -
  obtain ip where p: "net_ParseCIDR ''10.0.0.0/8'' = Some (ip, sample_net)" using ParseCIDR_sample by blast
  obtain iq where q: "net_ParseCIDR ''10.1.0.0/16'' = Some (iq, sample_net16)" using ParseCIDR_sample16(1) by blast
  have d: "ipnet_String sample_net \<noteq> ipnet_String sample_net16"
    using ipnet_String_view [OF sample_view(1)] by (simp add: sample_string ParseCIDR_sample16(2))
  have "canon_ip [10, 1, 0, 0] = [10, 1, 0, 0]" by (simp add: canon_ip_def ip_To4_def)
  then have c: "ipnet_Contains sample_net (net_IP sample_net16)"
    using Contains_view [OF sample_view(1)] by (simp add: sample_net16_def masked_def)
  have r: "CheckOverlap ''10.0.0.0/8'' [''10.1.0.0/16''] = Inr ''10.1.0.0/16''"
    by (simp only: CheckOverlap_def overlap_loop.simps p q option.case prod.case d c if_False if_True simp_thms)
  from CheckOverlap_exact [OF p r] r q show ?thesis by auto
qed

end
