(* ===== verification/Serialize.thy ===== *)
theory Serialize
  imports BpfTypes GoNetFacts
begin

text \<open>
  Byte forms of the BPF keys and values (\<^verbatim>\<open>node/agent/api/serialize.go\<close>) and the conversion
  between \<^verbatim>\<open>net.IP\<close> and the 16-byte \<^verbatim>\<open>IPAddr\<close>. The agent identifies a rule with the bytes of
  its key, so the encoders must be injective: the locale \<open>codec\<close> states what a decoder must
  satisfy for that, and the three encoders are interpretations of it.
\<close>

section \<open>Encoders\<close>

definition cidrRuleKeyToBytes :: "CIDRRuleKey \<Rightarrow> bytes" where
  "cidrRuleKeyToBytes k =
     le32 (ck_SrcID k) @ le32 (ck_DstID k) @ le16 (ck_SrcPort k) @ le16 (ck_DstPort k) @
     [ck_Protocol k] @ [0, 0, 0]"

definition ruleKeyToBytes :: "RuleKey \<Rightarrow> bytes" where
  "ruleKeyToBytes k =
     rk_SrcIP k @ rk_DstIP k @ le16 (rk_SrcPort k) @ le16 (rk_DstPort k) @
     [rk_Protocol k] @ [0, 0, 0]"

definition ruleValueToBytes :: "RuleValue \<Rightarrow> bytes" where
  "ruleValueToBytes v =
     [rv_Action v, rv_TcpFlagsMask v, rv_TcpFlagsValue v, rv_MatchAnomaly v] @
     le32 (rv_RateLimit v) @ le64 (rv_MatchCount v) @ le64 (rv_DropCount v) @
     le16 (rv_PktLenMin v) @ le16 (rv_PktLenMax v) @ [0, 0, 0, 0]"

definition ipToIPAddr :: "bytes \<Rightarrow> IPAddr" where
  "ipToIPAddr ip =
     (case ip_To4 ip of
        Some ip4 \<Rightarrow> replicate 10 0 @ [0xff, 0xff] @ ip4
      | None \<Rightarrow> (case ip_To16 ip of Some ip16 \<Rightarrow> ip16 | None \<Rightarrow> zero_IPAddr))"

definition ipAddrToString :: "IPAddr \<Rightarrow> string" where
  "ipAddrToString addr =
     (let allZero = list_all (\<lambda>b. b = 0) addr in
      if allZero then []
      else let isV4Mapped = list_all (\<lambda>b. b = 0) (take 10 addr) in
        if isV4Mapped \<and> addr ! 10 = 0xff \<and> addr ! 11 = 0xff then ip_String (drop 12 addr)
        else ip_String addr)"

section \<open>Decoders\<close>

text \<open>The layout read back, as the BPF program's structs do.\<close>

definition slice :: "nat \<Rightarrow> nat \<Rightarrow> bytes \<Rightarrow> bytes" where
  "slice i n bs = take n (drop i bs)"

definition rule_key_of_bytes :: "bytes \<Rightarrow> RuleKey" where
  "rule_key_of_bytes b =
     \<lparr>rk_SrcIP = slice 0 16 b, rk_DstIP = slice 16 16 b, rk_SrcPort = le_read (slice 32 2 b),
      rk_DstPort = le_read (slice 34 2 b), rk_Protocol = le_read (slice 36 1 b),
      rk_Pad = slice 37 3 b\<rparr>"

definition cidr_key_of_bytes :: "bytes \<Rightarrow> CIDRRuleKey" where
  "cidr_key_of_bytes b =
     \<lparr>ck_SrcID = le_read (slice 0 4 b), ck_DstID = le_read (slice 4 4 b),
      ck_SrcPort = le_read (slice 8 2 b), ck_DstPort = le_read (slice 10 2 b),
      ck_Protocol = le_read (slice 12 1 b), ck_Pad = slice 13 3 b\<rparr>"

definition rule_value_of_bytes :: "bytes \<Rightarrow> RuleValue" where
  "rule_value_of_bytes b =
     \<lparr>rv_Action = le_read (slice 0 1 b), rv_TcpFlagsMask = le_read (slice 1 1 b),
      rv_TcpFlagsValue = le_read (slice 2 1 b), rv_MatchAnomaly = le_read (slice 3 1 b),
      rv_RateLimit = le_read (slice 4 4 b), rv_MatchCount = le_read (slice 8 8 b),
      rv_DropCount = le_read (slice 16 8 b), rv_PktLenMin = le_read (slice 24 2 b),
      rv_PktLenMax = le_read (slice 26 2 b), rv_Pad2 = slice 28 4 b\<rparr>"

definition wf_RuleValue :: "RuleValue \<Rightarrow> bool" where
  "wf_RuleValue v = (rv_Pad2 v = [0, 0, 0, 0])"

section \<open>The codec interface\<close>

locale codec =
  fixes enc :: "'a \<Rightarrow> bytes" and dec :: "bytes \<Rightarrow> 'a" and wf :: "'a \<Rightarrow> bool" and width :: nat
  assumes dec_enc: "wf x \<Longrightarrow> dec (enc x) = x"
    and length_enc: "wf x \<Longrightarrow> length (enc x) = width"
begin

lemma enc_eq_iff: "wf x \<Longrightarrow> wf y \<Longrightarrow> enc x = enc y \<longleftrightarrow> x = y"
  by (metis dec_enc)

lemma inj_on_enc: "inj_on enc {x. wf x}"
  by (auto intro!: inj_onI simp: enc_eq_iff)

lemma enc_append_eq_iff:
  "wf x \<Longrightarrow> wf y \<Longrightarrow> enc x @ r = enc y @ s \<longleftrightarrow> x = y \<and> r = s"
  using length_enc enc_eq_iff by auto

end

lemma slice_append [simp]:
  "slice 0 n (xs @ ys) = (if n \<le> length xs then take n xs else xs @ slice 0 (n - length xs) ys)"
  "length xs \<le> i \<Longrightarrow> slice i n (xs @ ys) = slice (i - length xs) n ys"
  by (auto simp: slice_def)

lemma slice_Cons [simp]:
  "slice 0 (numeral k) (x # xs) = x # slice 0 (numeral k - 1) xs"
  "slice (numeral k) n (x # xs) = slice (numeral k - 1) n xs"
  "slice (Suc i) n (x # xs) = slice i n xs"
  "slice 0 (Suc n) (x # xs) = x # slice 0 n xs"
  "slice i 0 xs = []"
  by (simp_all add: slice_def take_Cons' drop_Cons')

interpretation rule_key: codec ruleKeyToBytes rule_key_of_bytes wf_RuleKey 40
  by unfold_locales
     (simp_all add: ruleKeyToBytes_def rule_key_of_bytes_def wf_RuleKey_def)

interpretation cidr_key: codec cidrRuleKeyToBytes cidr_key_of_bytes wf_CIDRRuleKey 16
  by unfold_locales
     (simp_all add: cidrRuleKeyToBytes_def cidr_key_of_bytes_def wf_CIDRRuleKey_def)

interpretation rule_value: codec ruleValueToBytes rule_value_of_bytes wf_RuleValue 32
  by unfold_locales
     (simp_all add: ruleValueToBytes_def rule_value_of_bytes_def wf_RuleValue_def)

section \<open>Addresses\<close>

lemma isZero_iff: "length a = 16 \<Longrightarrow> list_all (\<lambda>b. b = 0) a \<longleftrightarrow> a = zero_IPAddr"
  by (auto simp: zero_IPAddr_def list_all_iff replicate_eqI [symmetric] intro: replicate_eqI)

lemma v4_mapped_iff:
  assumes "length a = 16"
  shows "list_all (\<lambda>b. b = 0) (take 10 a) \<and> a ! 10 = 0xff \<and> a ! 11 = 0xff \<longleftrightarrow>
    take 12 a = v4_in_v6_prefix"
proof -
  have t: "take 12 a = take 10 a @ [a ! 10, a ! 11]"
    using assms by (simp add: take_Suc_conv_app_nth numeral_eq_Suc)
  have "list_all (\<lambda>b. b = 0) (take 10 a) \<longleftrightarrow> take 10 a = replicate 10 0"
    using assms by (auto simp: list_all_iff intro: replicate_eqI)
  then show ?thesis using assms by (simp add: t v4_in_v6_prefix_def)
qed

lemma ipAddrToString_nonzero:
  assumes "length a = 16" "a \<noteq> zero_IPAddr"
  shows "ipAddrToString a = ip_String a"
proof (cases "take 12 a = v4_in_v6_prefix")
  case True
  then have "ip_String a = v4_string (drop 12 a)" "ip_String (drop 12 a) = v4_string (drop 12 a)"
    using assms by (auto simp: ip_String_def ip_To4_def v4_in_v6_prefix_def)
  then show ?thesis
    using assms True v4_mapped_iff [of a] by (simp add: ipAddrToString_def isZero_iff)
next
  case False
  then show ?thesis
    using assms v4_mapped_iff [of a] by (auto simp: ipAddrToString_def isZero_iff)
qed

lemma ipAddrToString_zero [simp]: "ipAddrToString zero_IPAddr = []"
  by (simp add: ipAddrToString_def zero_IPAddr_def list_all_iff)

lemma ipToIPAddr_16: "length ip = 16 \<Longrightarrow> ipToIPAddr ip = ip"
  by (auto simp: ipToIPAddr_def ip_To4_def ip_To16_def v4_in_v6_prefix_def dest: mapped_split)

lemma ip_String_nonempty: "length a = 16 \<Longrightarrow> ip_String a \<noteq> []"
  using ParseIP_String [of a] by (auto simp: net_ParseIP_def netip_ParseAddr_def)

text \<open>
  Address round trip: the text printed for a stored address is empty exactly for the
  wildcard, and otherwise \<^verbatim>\<open>net.ParseIP\<close> and \<^verbatim>\<open>ipToIPAddr\<close> give the 16 stored bytes back, for
  IPv4, IPv4-mapped and IPv6 addresses alike.
\<close>

theorem ipAddr_roundtrip:
  assumes "length a = 16"
  shows "(ipAddrToString a = [] \<longleftrightarrow> a = zero_IPAddr) \<and>
    (a = zero_IPAddr \<or> map_option ipToIPAddr (net_ParseIP (ipAddrToString a)) = Some a)"
proof (cases "a = zero_IPAddr")
  case False
  then show ?thesis
    using assms ipAddrToString_nonzero ParseIP_String ipToIPAddr_16 ip_String_nonempty by simp
qed simp

theorem ipAddr_roundtrip_witness:
  "(ipAddrToString (replicate 15 0 @ [1]) = [] \<longleftrightarrow> replicate 15 0 @ [1] = zero_IPAddr) \<and>
   (replicate 15 0 @ [1] = zero_IPAddr \<or>
    map_option ipToIPAddr (net_ParseIP (ipAddrToString (replicate 15 0 @ [1]))) = Some (replicate 15 0 @ [1]))"
  by (rule ipAddr_roundtrip) simp

text \<open>
  C30. The byte form of a key identifies it: among keys with the padding the agent writes, equal
  bytes mean equal keys, the forms have the sizes of the BPF structs (40, 16 and 32 bytes), and a
  rule value is read back field by field.
\<close>

theorem key_bytes_identify:
  assumes "wf_RuleKey k" "wf_RuleKey k'" "wf_CIDRRuleKey c" "wf_CIDRRuleKey c'" "wf_RuleValue v"
  shows "(ruleKeyToBytes k = ruleKeyToBytes k' \<longleftrightarrow> k = k') \<and>
    (cidrRuleKeyToBytes c = cidrRuleKeyToBytes c' \<longleftrightarrow> c = c') \<and>
    length (ruleKeyToBytes k) = 40 \<and> length (cidrRuleKeyToBytes c) = 16 \<and>
    length (ruleValueToBytes v) = 32 \<and> rule_value_of_bytes (ruleValueToBytes v) = v"
  using assms rule_key.enc_eq_iff cidr_key.enc_eq_iff rule_key.length_enc cidr_key.length_enc
    rule_value.length_enc rule_value.dec_enc by simp

definition sample_value :: RuleValue where
  "sample_value = \<lparr>rv_Action = 2, rv_TcpFlagsMask = 0x12, rv_TcpFlagsValue = 2, rv_MatchAnomaly = 0,
     rv_RateLimit = 1000, rv_MatchCount = 0, rv_DropCount = 0, rv_PktLenMin = 64, rv_PktLenMax = 1500,
     rv_Pad2 = [0, 0, 0, 0]\<rparr>"

definition sample_cidr_key :: CIDRRuleKey where
  "sample_cidr_key = \<lparr>ck_SrcID = 7, ck_DstID = 0, ck_SrcPort = 0, ck_DstPort = 0x5000,
     ck_Protocol = 6, ck_Pad = [0, 0, 0]\<rparr>"

theorem key_bytes_identify_witness:
  "(ruleKeyToBytes zero_RuleKey = ruleKeyToBytes (zero_RuleKey\<lparr>rk_SrcPort := 1\<rparr>)
      \<longleftrightarrow> zero_RuleKey = zero_RuleKey\<lparr>rk_SrcPort := 1\<rparr>) \<and>
   (cidrRuleKeyToBytes sample_cidr_key = cidrRuleKeyToBytes (sample_cidr_key\<lparr>ck_DstID := 1\<rparr>)
      \<longleftrightarrow> sample_cidr_key = sample_cidr_key\<lparr>ck_DstID := 1\<rparr>) \<and>
   length (ruleKeyToBytes zero_RuleKey) = 40 \<and> length (cidrRuleKeyToBytes sample_cidr_key) = 16 \<and>
   length (ruleValueToBytes sample_value) = 32 \<and>
   rule_value_of_bytes (ruleValueToBytes sample_value) = sample_value"
  by (rule key_bytes_identify)
     (simp_all add: wf_RuleKey_def zero_RuleKey_def wf_CIDRRuleKey_def sample_cidr_key_def
        wf_RuleValue_def sample_value_def)

end
