(* ===== verification/Validate.thy ===== *)
theory Validate
  imports BpfTypes
begin

text \<open>
  Field validation and parsing of the node agent (\<^verbatim>\<open>node/agent/api/validate.go\<close>): byte order of
  ports, protocol and action names, the TCP flags notation and the checks every rule passes
  before it is stored. An error of the source is \<open>Inl\<close> of a constructor that names its
  message.
\<close>

section \<open>Ports, protocols, actions\<close>

definition htons :: "u16 \<Rightarrow> u16" where
  "htons n = (drop_bit 8 n AND 0xff) OR push_bit 8 (n AND 0xff)"

definition ntohs :: "u16 \<Rightarrow> u16" where
  "ntohs n = htons n"

datatype validation_error =
    UnknownProtocol string
  | InvalidAction string
  | UnknownTcpFlag string
  | ContradictoryTcpFlags string
  | PureLengthRule
  | InvalidLengthRange u16 u16
  | PortlessProtocol string u16 u16

definition parseProtocolStrict :: "string \<Rightarrow> validation_error + u8" where
  "parseProtocolStrict s =
     (if s = '''' \<or> s = ''all'' then Inr ProtoAll
      else if s = ''tcp'' then Inr ProtoTCP
      else if s = ''udp'' then Inr ProtoUDP
      else if s = ''icmp'' then Inr ProtoICMP
      else if s = ''icmpv6'' then Inr ProtoICMPv6
      else if s = ''igmp'' then Inr ProtoIGMP
      else if s = ''gre'' then Inr ProtoGRE
      else if s = ''esp'' then Inr ProtoESP
      else Inl (UnknownProtocol s))"

text \<open>The error of the strict parser is dropped; its value is then 0.\<close>

definition parseProtocol :: "string \<Rightarrow> u8" where
  "parseProtocol s = (case parseProtocolStrict s of Inr p \<Rightarrow> p | Inl _ \<Rightarrow> 0)"

definition protocolToString :: "u8 \<Rightarrow> string" where
  "protocolToString p =
     (if p = ProtoTCP then ''tcp''
      else if p = ProtoUDP then ''udp''
      else if p = ProtoICMP then ''icmp''
      else if p = ProtoICMPv6 then ''icmpv6''
      else if p = ProtoIGMP then ''igmp''
      else if p = ProtoGRE then ''gre''
      else if p = ProtoESP then ''esp''
      else ''all'')"

definition parseAction :: "string \<Rightarrow> validation_error + u8" where
  "parseAction s =
     (if s = ''drop'' \<or> s = '''' then Inr ActionDrop
      else if s = ''rate_limit'' then Inr ActionRateLimit
      else Inl (InvalidAction s))"

section \<open>TCP flags\<close>

definition tcpFlagBits :: "(string, u8) gomap" where
  "tcpFlagBits = [(''FIN'', 0x01), (''SYN'', 0x02), (''RST'', 0x04), (''PSH'', 0x08),
                  (''ACK'', 0x10), (''URG'', 0x20), (''ECE'', 0x40), (''CWR'', 0x80)]"

text \<open>
  The loop of \<^verbatim>\<open>parseTcpFlags\<close> over the comma-separated parts; \<open>seen\<close> lists the keys of the
  source's \<^verbatim>\<open>seen\<close> map.
\<close>

fun tcp_flags_loop :: "string list \<Rightarrow> string list \<Rightarrow> u8 \<Rightarrow> u8 \<Rightarrow> validation_error + u8 \<times> u8" where
  "tcp_flags_loop [] seen msk val = Inr (msk, val)"
| "tcp_flags_loop (p # ps) seen msk val =
     (let part = strings_TrimSpace p in
      if part = '''' then tcp_flags_loop ps seen msk val
      else
        let upper = strings_ToUpper part;
            negate = strings_HasPrefix upper ''!'';
            name = (if negate then drop 1 upper else upper)
        in case map_of tcpFlagBits name of
             None \<Rightarrow> Inl (UnknownTcpFlag part)
           | Some b \<Rightarrow>
               if negate \<and> name \<in> set seen then Inl (ContradictoryTcpFlags name)
               else if \<not> negate \<and> ''!'' @ name \<in> set seen then Inl (ContradictoryTcpFlags name)
               else
                 let key = (if negate then ''!'' @ name else name) in
                 if key \<in> set seen then tcp_flags_loop ps seen msk val
                 else tcp_flags_loop ps (key # seen) (msk OR b)
                        (if \<not> negate then val OR b else val))"

definition parseTcpFlags :: "string \<Rightarrow> validation_error + u8 \<times> u8" where
  "parseTcpFlags s0 =
     (let s = strings_TrimSpace s0 in
      if s = '''' then Inr (0, 0)
      else tcp_flags_loop (strings_Split (CHR '','') s) [] 0 0)"

definition flag_names :: "string list" where
  "flag_names = [''CWR'', ''ECE'', ''URG'', ''ACK'', ''PSH'', ''RST'', ''SYN'', ''FIN'']"

text \<open>A missing key of a Go map reads as the zero value.\<close>

definition flag_bit :: "string \<Rightarrow> u8" where
  "flag_bit name = (case map_of tcpFlagBits name of Some b \<Rightarrow> b | None \<Rightarrow> 0)"

fun flag_parts :: "string list \<Rightarrow> u8 \<Rightarrow> u8 \<Rightarrow> string list" where
  "flag_parts [] msk val = []"
| "flag_parts (name # ns) msk val =
     (let b = flag_bit name in
      if msk AND b = 0 then flag_parts ns msk val
      else if val AND b \<noteq> 0 then name # flag_parts ns msk val
      else (''!'' @ name) # flag_parts ns msk val)"

definition tcpFlagsToString :: "u8 \<Rightarrow> u8 \<Rightarrow> string" where
  "tcpFlagsToString msk val =
     (if msk = 0 then '''' else strings_Join '','' (flag_parts flag_names msk val))"

section \<open>Rule checks\<close>

definition portlessProtocolsNode :: "string list" where
  "portlessProtocolsNode = [''icmp'', ''icmpv6'', ''igmp'', ''gre'', ''esp'']"

text \<open>Validators return the error, if any.\<close>

definition validatePortProtocolCompatNode :: "string \<Rightarrow> u16 \<Rightarrow> u16 \<Rightarrow> validation_error option" where
  "validatePortProtocolCompatNode protocol srcPort dstPort =
     (if strings_ToLower protocol \<notin> set portlessProtocolsNode then None
      else if srcPort = 0 \<and> dstPort = 0 then None
      else Some (PortlessProtocol protocol srcPort dstPort))"

definition validateRule ::
  "string \<Rightarrow> string \<Rightarrow> string \<Rightarrow> u16 \<Rightarrow> u16 \<Rightarrow> u16 \<Rightarrow> u16 \<Rightarrow> validation_error option" where
  "validateRule srcIP dstIP protocol srcPort dstPort pktLenMin pktLenMax =
     (let hasLengthFilter = (pktLenMin > 0 \<or> pktLenMax > 0);
          has5Tuple = (srcIP \<noteq> '''' \<or> dstIP \<noteq> '''' \<or> srcPort \<noteq> 0 \<or> dstPort \<noteq> 0 \<or>
                       (protocol \<noteq> '''' \<and> protocol \<noteq> ''all''))
      in if hasLengthFilter \<and> \<not> has5Tuple then Some PureLengthRule
         else if pktLenMin > 0 \<and> pktLenMax > 0 \<and> pktLenMin > pktLenMax
              then Some (InvalidLengthRange pktLenMin pktLenMax)
         else validatePortProtocolCompatNode protocol srcPort dstPort)"

section \<open>Properties\<close>

lemma bit_htons: "bit (htons p) n \<longleftrightarrow> n < 8 \<and> bit p (n + 8) \<or> 8 \<le> n \<and> n < 16 \<and> bit p (n - 8)"
proof -
  have ff: "(0xff :: u16) = mask 8" by (simp add: mask_eq_exp_minus_1)
  have hi: "bit (drop_bit 8 p AND 0xff) n \<longleftrightarrow> n < 8 \<and> bit p (n + 8)"
    unfolding ff by (auto simp: bit_and_iff bit_mask_iff bit_drop_bit_eq add.commute)
  have lo: "bit (p AND 0xff) m \<longleftrightarrow> m < 8 \<and> bit p m" for m
    unfolding ff by (auto simp: bit_and_iff bit_mask_iff)
  have "bit (push_bit 8 (p AND 0xff)) n \<longleftrightarrow> 8 \<le> n \<and> n < 16 \<and> bit p (n - 8)"
    by (subst bit_push_bit_iff) (auto simp: lo)
  with hi show ?thesis unfolding htons_def bit_or_iff by blast
qed

text \<open>Converting a port to network byte order and back gives the port, and conversely.\<close>

lemma htons_htons: "htons (htons p) = p"
proof (rule bit_word_eqI)
  fix n assume "n < LENGTH(16)"
  then show "bit (htons (htons p)) n = bit p n"
    by (cases "n < 8") (auto simp: bit_htons)
qed

lemma ntohs_htons [simp]: "ntohs (htons p) = p" "htons (ntohs p) = p"
  by (simp_all add: ntohs_def htons_htons)

lemma htons_eq_0_iff [simp]: "htons p = 0 \<longleftrightarrow> p = 0"
proof -
  have "htons 0 = 0" by (simp add: htons_def)
  then show ?thesis by (metis htons_htons)
qed

lemma parseProtocol_toString [simp]: "parseProtocol (protocolToString (parseProtocol s)) = parseProtocol s"
  by (auto simp: parseProtocolStrict_def parseProtocol_def protocolToString_def)

text \<open>
  Protocol names: the strict parser accepts exactly the eight printed names and the empty
  text, the lenient parser agrees with it there and yields "all" (0) on everything else, and
  printing a parsed protocol and parsing it again gives the same protocol.
\<close>

theorem protocol_names:
  "((\<exists>p. parseProtocolStrict s = Inr p) \<longleftrightarrow>
      s = [] \<or> s \<in> range protocolToString) \<and>
   parseProtocol s = (if s \<in> range protocolToString then projr (parseProtocolStrict s) else ProtoAll) \<and>
   parseProtocolStrict (protocolToString (parseProtocol s)) = Inr (parseProtocol s)"
proof (cases "s \<in> {[], ''all'', ''tcp'', ''udp'', ''icmp'', ''icmpv6'', ''igmp'', ''gre'', ''esp''}")
  case True
  have "protocolToString ProtoAll = ''all''" "protocolToString ProtoTCP = ''tcp''"
    "protocolToString ProtoUDP = ''udp''" "protocolToString ProtoICMP = ''icmp''"
    "protocolToString ProtoICMPv6 = ''icmpv6''" "protocolToString ProtoIGMP = ''igmp''"
    "protocolToString ProtoGRE = ''gre''" "protocolToString ProtoESP = ''esp''"
    by (simp_all add: protocolToString_def)
  note names = this
  have "q \<in> range protocolToString" if "protocolToString n = q" for n q
    using that by blast
  note p = names names [THEN this]
  have "[] \<notin> range protocolToString" by (auto simp: protocolToString_def)
  with True show ?thesis
    by (elim insertE emptyE) (simp_all add: parseProtocolStrict_def parseProtocol_def p)
next
  case False
  then have "s \<notin> range protocolToString" by (auto simp: protocolToString_def)
  with False show ?thesis
    by (simp add: parseProtocolStrict_def parseProtocol_def protocolToString_def)
qed

text \<open>
  \<^verbatim>\<open>validateRule\<close> accepts exactly the rules that name some packet field when they filter by
  length, whose length range is not empty, and that ask no port of a protocol without ports.
\<close>

theorem validateRule_accepts:
  "validateRule src dst proto sp dp lmin lmax = None \<longleftrightarrow>
     \<not> (\<not> (lmin = 0 \<and> lmax = 0) \<and> src = [] \<and> dst = [] \<and> sp = 0 \<and> dp = 0
        \<and> proto \<in> {[], ''all''}) \<and>
     \<not> (lmin \<noteq> 0 \<and> lmax \<noteq> 0 \<and> lmax < lmin) \<and>
     \<not> (\<not> (sp = 0 \<and> dp = 0) \<and>
        strings_ToLower proto \<in> {''icmp'', ''icmpv6'', ''igmp'', ''gre'', ''esp''})"
proof -
  have pos: "(0 < w) = (w \<noteq> 0)" for w :: u16 by (rule word_neq_0_conv [symmetric])
  show ?thesis
    unfolding validateRule_def validatePortProtocolCompatNode_def portlessProtocolsNode_def Let_def pos
    by (auto split: if_splits)
qed

text \<open>The names are clean: no spaces, no separators, upper case, all known.\<close>

lemma flag_name_props:
  assumes "name \<in> set flag_names"
  shows "strings_TrimSpace name = name" "strings_TrimSpace (CHR ''!'' # name) = CHR ''!'' # name"
    "strings_ToUpper name = name" "strings_ToUpper (CHR ''!'' # name) = CHR ''!'' # name"
    "\<not> strings_HasPrefix name ''!''" "strings_HasPrefix (CHR ''!'' # name) ''!''"
    "map_of tcpFlagBits name = Some (flag_bit name)" "CHR '','' \<notin> set name" "name \<noteq> []"
    "\<forall>c \<in> set name. \<not> is_space c"
  using assms
  by (auto simp: flag_names_def strings_TrimSpace_def is_space_def strings_ToUpper_def upper_char_def
      strings_HasPrefix_def tcpFlagBits_def flag_bit_def)

lemma flag_parts_shape:
  "set (flag_parts ns m v) \<subseteq> set ns \<union> (Cons (CHR ''!'')) ` set ns"
  by (induction ns) (auto simp: Let_def)

lemma flag_parts_clean:
  assumes "set ns \<subseteq> set flag_names" "p \<in> set (flag_parts ns m v)"
  shows "CHR '','' \<notin> set p \<and> p \<noteq> [] \<and> (\<forall>c \<in> set p. \<not> is_space c)"
proof -
  obtain n where n: "n \<in> set flag_names" "p = n \<or> p = CHR ''!'' # n"
    using flag_parts_shape [of ns m v] assms by blast
  have "\<not> is_space CHR ''!''" by (simp add: is_space_def)
  with flag_name_props(8,9,10) [OF n(1)] n(2) show ?thesis by auto
qed

text \<open>The flags of \<open>ns\<close> that are selected by \<open>P\<close>, joined.\<close>

fun sel :: "(string \<Rightarrow> bool) \<Rightarrow> string list \<Rightarrow> u8" where
  "sel P [] = 0"
| "sel P (n # ns) = (if P n then flag_bit n else 0) OR sel P ns"

lemma tcp_flags_loop_parts:
  "\<lbrakk>distinct ns; set ns \<subseteq> set flag_names; \<forall>n \<in> set ns. n \<notin> set seen \<and> CHR ''!'' # n \<notin> set seen\<rbrakk> \<Longrightarrow>
   tcp_flags_loop (flag_parts ns m v) seen a b =
     Inr (a OR sel (\<lambda>n. m AND flag_bit n \<noteq> 0) ns,
          b OR sel (\<lambda>n. m AND flag_bit n \<noteq> 0 \<and> v AND flag_bit n \<noteq> 0) ns)"
proof (induction ns arbitrary: seen a b)
  case Nil
  then show ?case by simp
next
  case (Cons n ns)
  have np: "n \<in> set flag_names" using Cons.prems by simp
  note props = flag_name_props [OF np]
  have other: "x \<noteq> CHR ''!'' # y" if "x \<in> set flag_names" for x y
    using flag_name_props(5) [OF that] by (auto simp: strings_HasPrefix_def)
  have ih: "tcp_flags_loop (flag_parts ns m v) seen' a' b' =
     Inr (a' OR sel (\<lambda>n. m AND flag_bit n \<noteq> 0) ns,
          b' OR sel (\<lambda>n. m AND flag_bit n \<noteq> 0 \<and> v AND flag_bit n \<noteq> 0) ns)"
    if "seen' = seen \<or> seen' = n # seen \<or> seen' = (CHR ''!'' # n) # seen" for seen' a' b'
  proof (rule Cons.IH)
    show "\<forall>x \<in> set ns. x \<notin> set seen' \<and> CHR ''!'' # x \<notin> set seen'"
    proof
      fix x assume x: "x \<in> set ns"
      then have "x \<noteq> n" "x \<in> set flag_names" using Cons.prems by auto
      moreover from this have "x \<noteq> CHR ''!'' # n" "n \<noteq> CHR ''!'' # x" using other np by auto
      moreover have "x \<notin> set seen \<and> CHR ''!'' # x \<notin> set seen" using Cons.prems(3) x by simp
      ultimately show "x \<notin> set seen' \<and> CHR ''!'' # x \<notin> set seen'"
        using that by (elim disjE) simp_all
    qed
  qed (use Cons.prems in auto)
  show ?case
    using Cons.prems(3) by (simp add: Let_def props ih or.assoc)
qed

lemma bit_sel: "bit (sel P ns) n \<longleftrightarrow> (\<exists>x \<in> set ns. P x \<and> bit (flag_bit x) n)"
  by (induction ns) (auto simp: bit_or_iff)

text \<open>The flags are the eight bits, in the reverse order of the printed one.\<close>

lemma flag_bit_nth: "i < 8 \<Longrightarrow> flag_bit (rev flag_names ! i) = 2 ^ i"
proof -
  assume "i < 8"
  then have "i = 0 \<or> i = 1 \<or> i = 2 \<or> i = 3 \<or> i = 4 \<or> i = 5 \<or> i = 6 \<or> i = 7" by auto
  then show ?thesis by (elim disjE) (simp_all add: flag_names_def flag_bit_def tcpFlagBits_def)
qed

lemma flag_names_index: "x \<in> set flag_names \<longleftrightarrow> (\<exists>i < 8. x = rev flag_names ! i)"
proof -
  have "x \<in> set (rev flag_names) \<longleftrightarrow> (\<exists>i < length (rev flag_names). rev flag_names ! i = x)"
    by (rule in_set_conv_nth)
  moreover have "length (rev flag_names) = 8" by (simp add: flag_names_def)
  ultimately show ?thesis by (metis set_rev)
qed

lemma bit_flag_bit: "i < 8 \<Longrightarrow> bit (flag_bit (rev flag_names ! i)) n \<longleftrightarrow> n = i"
  by (auto simp: flag_bit_nth bit_exp_iff)

lemma and_flag_bit: "i < 8 \<Longrightarrow> w AND flag_bit (rev flag_names ! i) \<noteq> 0 \<longleftrightarrow> bit w i"
  by (simp only: flag_bit_nth and_exp_eq_0_iff_not_bit not_not)

lemma sel_flag_names:
  assumes "\<And>i. i < 8 \<Longrightarrow> bit w i \<longleftrightarrow> P (rev flag_names ! i)"
  shows "sel P flag_names = w"
proof (rule bit_word_eqI)
  fix n assume n: "n < LENGTH(8)"
  have "bit (sel P flag_names) n \<longleftrightarrow> (\<exists>i < 8. P (rev flag_names ! i) \<and> bit (flag_bit (rev flag_names ! i)) n)"
    unfolding bit_sel Bex_def flag_names_index by blast
  also have "\<dots> \<longleftrightarrow> bit w n" using assms bit_flag_bit n by auto
  finally show "bit (sel P flag_names) n = bit w n" .
qed

lemma sel_mask: "sel (\<lambda>n. m AND flag_bit n \<noteq> 0) flag_names = m"
  by (rule sel_flag_names) (simp add: and_flag_bit)

lemma sel_value: "sel (\<lambda>n. m AND flag_bit n \<noteq> 0 \<and> v AND flag_bit n \<noteq> 0) flag_names = m AND v"
  by (rule sel_flag_names) (simp add: and_flag_bit bit_and_iff)

lemma flag_parts_nonempty: "m \<noteq> 0 \<Longrightarrow> flag_parts flag_names m v \<noteq> []"
proof
  have empty: "sel (\<lambda>n. m AND flag_bit n \<noteq> 0) ns = 0" if "flag_parts ns m v = []" for ns
    using that by (induction ns) (auto simp: Let_def split: if_splits)
  assume "m \<noteq> 0" "flag_parts flag_names m v = []"
  with empty sel_mask show False by metis
qed

lemma join_parts_chars:
  "c \<in> set (strings_Join sep ws) \<Longrightarrow> c \<in> set sep \<or> (\<exists>w \<in> set ws. c \<in> set w)"
  by (induction sep ws rule: strings_Join.induct) auto

lemma parseTcpFlags_printed: "parseTcpFlags (tcpFlagsToString m v) = Inr (m, m AND v)"
proof (cases "m = 0")
  case True
  then show ?thesis
    by (simp add: tcpFlagsToString_def parseTcpFlags_def strings_TrimSpace_def)
next
  case False
  let ?ps = "flag_parts flag_names m v"
  have clean: "\<forall>p \<in> set ?ps. CHR '','' \<notin> set p \<and> p \<noteq> [] \<and> (\<forall>c \<in> set p. \<not> is_space c)"
    using flag_parts_clean by blast
  have ne: "?ps \<noteq> []" using False by (rule flag_parts_nonempty)
  let ?s = "strings_Join '','' ?ps"
  have "\<not> is_space c" if "c \<in> set ?s" for c
    using join_parts_chars [OF that] clean by (auto simp: is_space_def)
  then have trim: "strings_TrimSpace ?s = ?s" by (intro TrimSpace_id) blast
  have split: "strings_Split (CHR '','') ?s = ?ps"
    using strings_Split_Join ne clean by blast
  have "?s \<noteq> []"
  proof
    assume "?s = []"
    then have "?ps = [[]]" using split by simp
    then show False using clean by simp
  qed
  moreover have "tcp_flags_loop ?ps [] 0 0 = Inr (m, m AND v)"
    using tcp_flags_loop_parts [of flag_names "[]" m v 0 0]
    by (simp add: sel_mask sel_value) (simp add: flag_names_def)
  ultimately show ?thesis
    using False trim split by (simp add: parseTcpFlags_def tcpFlagsToString_def)
qed

text \<open>A value bit is only ever set together with its mask bit.\<close>

lemma tcp_flags_loop_subset:
  "tcp_flags_loop ps seen m v = Inr (m', v') \<Longrightarrow> v AND m = v \<Longrightarrow> v' AND m' = v'"
proof (induction ps arbitrary: seen m v)
  case (Cons p ps)
  have sub: "(v OR b) AND (m OR b) = v OR b" "v AND (m OR b) = v" for b
  proof -
    have i: "bit v n \<Longrightarrow> bit m n" for n
      using Cons.prems(2) bit_and_iff [of v m n] by simp
    show "(v OR b) AND (m OR b) = v OR b" "v AND (m OR b) = v"
      by (rule bit_word_eqI; use i in \<open>auto simp: bit_and_iff bit_or_iff\<close>)+
  qed
  obtain seen2 b where "tcp_flags_loop ps seen2 m v = Inr (m', v')
      \<or> tcp_flags_loop ps seen2 (m OR b) v = Inr (m', v')
      \<or> tcp_flags_loop ps seen2 (m OR b) (v OR b) = Inr (m', v')"
    using Cons.prems(1) by (fastforce simp: Let_def split: if_splits option.splits)
  then show ?case using Cons.IH Cons.prems(2) sub by metis
qed simp

lemma parseTcpFlags_reparse:
  assumes "parseTcpFlags s = Inr (m, v)"
  shows "v AND m = v \<and> parseTcpFlags (tcpFlagsToString m v) = Inr (m, v)"
proof -
  have "v AND m = v"
    using assms tcp_flags_loop_subset by (auto simp: parseTcpFlags_def Let_def split: if_splits)
  then show ?thesis using parseTcpFlags_printed by (simp add: and.commute)
qed

text \<open>
  C29. What \<^verbatim>\<open>tcpFlagsToString\<close> prints is read back by \<^verbatim>\<open>parseTcpFlags\<close>: the mask is recovered
  and the value is recovered on the flags of the mask.
\<close>

theorem parseTcpFlags_toString: "parseTcpFlags (tcpFlagsToString m v) = Inr (m, m AND v)"
  by (rule parseTcpFlags_printed)

text \<open>
  An accepted flags text asks for no value bit outside its mask, and printing what was
  parsed and parsing again gives the same mask and value: the stored text can be replaced by the
  canonical one.
\<close>

theorem parseTcpFlags_canonical:
  assumes "parseTcpFlags s = Inr (m, v)"
  shows "v AND m = v \<and> parseTcpFlags (tcpFlagsToString m v) = Inr (m, v)"
  by (rule parseTcpFlags_reparse [OF assms])

theorem parseTcpFlags_canonical_witness:
  "parseTcpFlags ''SYN,!ACK, SYN'' = Inr (0x12, 0x02) \<and>
   (0x02 AND 0x12 = (0x02 :: u8) \<and> parseTcpFlags (tcpFlagsToString 0x12 0x02) = Inr (0x12, 0x02))"
proof -
  have p: "parseTcpFlags ''SYN,!ACK, SYN'' = Inr (0x12, 0x02)"
    by (simp add: parseTcpFlags_def strings_TrimSpace_def is_space_def strings_ToUpper_def
        upper_char_def strings_HasPrefix_def tcpFlagBits_def Let_def)
  with parseTcpFlags_canonical [OF p] show ?thesis by simp
qed

end
