(* ===== verification/Combo.thy ===== *)
theory Combo
  imports BpfTypes
begin

text \<open>
  Combo classification (\<^verbatim>\<open>node/agent/api/combo.go\<close>): the number of the combination of set
  fields of a rule key. The XDP program probes only the combos whose bit is set in the published
  bitmap, so a rule with the wrong combo, or with \<open>ComboUnknown\<close>, is never matched.
\<close>

section \<open>Constants\<close>

abbreviation (input) ComboUnknown :: int where "ComboUnknown \<equiv> - 1"
abbreviation (input) ComboBitmapSize :: int where "ComboBitmapSize \<equiv> 64"
abbreviation (input) ComboExact5Tuple :: int where "ComboExact5Tuple \<equiv> 0"
abbreviation (input) ComboWildcardSrcIP :: int where "ComboWildcardSrcIP \<equiv> 1"
abbreviation (input) ComboWildcardSrcIPPort :: int where "ComboWildcardSrcIPPort \<equiv> 2"
abbreviation (input) ComboDstIPProto :: int where "ComboDstIPProto \<equiv> 3"
abbreviation (input) ComboDstIPOnly :: int where "ComboDstIPOnly \<equiv> 4"
abbreviation (input) ComboProtoOnly :: int where "ComboProtoOnly \<equiv> 5"
abbreviation (input) ComboSrcPortOnly :: int where "ComboSrcPortOnly \<equiv> 6"
abbreviation (input) ComboDstPortOnly :: int where "ComboDstPortOnly \<equiv> 7"
abbreviation (input) ComboSrcIPOnly :: int where "ComboSrcIPOnly \<equiv> 8"
abbreviation (input) ComboSrcIPProto :: int where "ComboSrcIPProto \<equiv> 9"
abbreviation (input) ComboSrcDstIP :: int where "ComboSrcDstIP \<equiv> 10"
abbreviation (input) ComboSrcIPDstPort :: int where "ComboSrcIPDstPort \<equiv> 11"
abbreviation (input) ComboDstIPDstPort :: int where "ComboDstIPDstPort \<equiv> 12"
abbreviation (input) ComboSrcDstIPProto :: int where "ComboSrcDstIPProto \<equiv> 13"
abbreviation (input) ComboSrcIPDstPortProto :: int where "ComboSrcIPDstPortProto \<equiv> 14"
abbreviation (input) ComboSrcPortProto :: int where "ComboSrcPortProto \<equiv> 15"
abbreviation (input) ComboDstPortProto :: int where "ComboDstPortProto \<equiv> 16"
abbreviation (input) ComboSrcIPSrcPort :: int where "ComboSrcIPSrcPort \<equiv> 17"
abbreviation (input) ComboSrcIPSrcPortProto :: int where "ComboSrcIPSrcPortProto \<equiv> 18"
abbreviation (input) ComboDstIPDstPortProto :: int where "ComboDstIPDstPortProto \<equiv> 20"
abbreviation (input) ComboSrcDstIPDstPort :: int where "ComboSrcDstIPDstPort \<equiv> 21"
abbreviation (input) ComboSrcDstIPDstPortProto :: int where "ComboSrcDstIPDstPortProto \<equiv> 22"
abbreviation (input) ComboSrcIPPorts :: int where "ComboSrcIPPorts \<equiv> 23"
abbreviation (input) ComboSrcIPPortsProto :: int where "ComboSrcIPPortsProto \<equiv> 24"
abbreviation (input) ComboDstIPSrcPort :: int where "ComboDstIPSrcPort \<equiv> 25"
abbreviation (input) ComboDstIPSrcPortProto :: int where "ComboDstIPSrcPortProto \<equiv> 26"
abbreviation (input) ComboPortsOnly :: int where "ComboPortsOnly \<equiv> 27"
abbreviation (input) ComboPortsProto :: int where "ComboPortsProto \<equiv> 28"
abbreviation (input) ComboSrcDstIPSrcPort :: int where "ComboSrcDstIPSrcPort \<equiv> 29"
abbreviation (input) ComboSrcDstIPSrcPortProto :: int where "ComboSrcDstIPSrcPortProto \<equiv> 30"
abbreviation (input) ComboDstIPPorts :: int where "ComboDstIPPorts \<equiv> 31"
abbreviation (input) ComboDstIPPortsProto :: int where "ComboDstIPPortsProto \<equiv> 32"
abbreviation (input) ComboAllExceptProto :: int where "ComboAllExceptProto \<equiv> 33"

section \<open>Classification\<close>

definition isZeroIP :: "IPAddr \<Rightarrow> bool" where
  "isZeroIP ip = list_all (\<lambda>b. b = 0) ip"

text \<open>\<^verbatim>\<open>validateComboType\<close>: \<open>True\<close> for the nil error.\<close>

definition validateComboType :: "int \<Rightarrow> bool" where
  "validateComboType comboType =
     (if comboType = ComboUnknown then False
      else if comboType < 0 \<or> comboType \<ge> ComboBitmapSize then False
      else True)"

definition getComboType :: "RuleKey \<Rightarrow> int" where
  "getComboType key =
     (let hasSrcIP = (\<not> isZeroIP (rk_SrcIP key));
          hasDstIP = (\<not> isZeroIP (rk_DstIP key));
          hasSrcPort = (rk_SrcPort key \<noteq> 0);
          hasDstPort = (rk_DstPort key \<noteq> 0);
          hasProto = (rk_Protocol key \<noteq> 0)
      in
     if hasSrcIP \<and> hasDstIP \<and> hasSrcPort \<and> hasDstPort \<and> hasProto then ComboExact5Tuple
     else if \<not> hasSrcIP \<and> hasDstIP \<and> hasSrcPort \<and> hasDstPort \<and> hasProto then ComboWildcardSrcIP
     else if \<not> hasSrcIP \<and> hasDstIP \<and> \<not> hasSrcPort \<and> hasDstPort \<and> hasProto then ComboWildcardSrcIPPort
     else if \<not> hasSrcIP \<and> hasDstIP \<and> \<not> hasSrcPort \<and> \<not> hasDstPort \<and> hasProto then ComboDstIPProto
     else if \<not> hasSrcIP \<and> hasDstIP \<and> \<not> hasSrcPort \<and> \<not> hasDstPort \<and> \<not> hasProto then ComboDstIPOnly
     else if \<not> hasSrcIP \<and> \<not> hasDstIP \<and> \<not> hasSrcPort \<and> \<not> hasDstPort \<and> hasProto then ComboProtoOnly
     else if \<not> hasSrcIP \<and> \<not> hasDstIP \<and> hasSrcPort \<and> \<not> hasDstPort \<and> \<not> hasProto then ComboSrcPortOnly
     else if \<not> hasSrcIP \<and> \<not> hasDstIP \<and> \<not> hasSrcPort \<and> hasDstPort \<and> \<not> hasProto then ComboDstPortOnly
     else if hasSrcIP \<and> \<not> hasDstIP \<and> \<not> hasSrcPort \<and> \<not> hasDstPort \<and> \<not> hasProto then ComboSrcIPOnly
     else if hasSrcIP \<and> \<not> hasDstIP \<and> \<not> hasSrcPort \<and> \<not> hasDstPort \<and> hasProto then ComboSrcIPProto
     else if hasSrcIP \<and> hasDstIP \<and> \<not> hasSrcPort \<and> \<not> hasDstPort \<and> \<not> hasProto then ComboSrcDstIP
     else if hasSrcIP \<and> \<not> hasDstIP \<and> \<not> hasSrcPort \<and> hasDstPort \<and> \<not> hasProto then ComboSrcIPDstPort
     else if \<not> hasSrcIP \<and> hasDstIP \<and> \<not> hasSrcPort \<and> hasDstPort \<and> \<not> hasProto then ComboDstIPDstPort
     else if hasSrcIP \<and> hasDstIP \<and> \<not> hasSrcPort \<and> \<not> hasDstPort \<and> hasProto then ComboSrcDstIPProto
     else if hasSrcIP \<and> \<not> hasDstIP \<and> \<not> hasSrcPort \<and> hasDstPort \<and> hasProto then ComboSrcIPDstPortProto
     else if \<not> hasSrcIP \<and> \<not> hasDstIP \<and> hasSrcPort \<and> \<not> hasDstPort \<and> hasProto then ComboSrcPortProto
     else if \<not> hasSrcIP \<and> \<not> hasDstIP \<and> \<not> hasSrcPort \<and> hasDstPort \<and> hasProto then ComboDstPortProto
     else if hasSrcIP \<and> \<not> hasDstIP \<and> hasSrcPort \<and> \<not> hasDstPort \<and> \<not> hasProto then ComboSrcIPSrcPort
     else if hasSrcIP \<and> \<not> hasDstIP \<and> hasSrcPort \<and> \<not> hasDstPort \<and> hasProto then ComboSrcIPSrcPortProto
     else if \<not> hasSrcIP \<and> hasDstIP \<and> \<not> hasSrcPort \<and> hasDstPort \<and> hasProto then ComboDstIPDstPortProto
     else if hasSrcIP \<and> hasDstIP \<and> \<not> hasSrcPort \<and> hasDstPort \<and> \<not> hasProto then ComboSrcDstIPDstPort
     else if hasSrcIP \<and> hasDstIP \<and> \<not> hasSrcPort \<and> hasDstPort \<and> hasProto then ComboSrcDstIPDstPortProto
     else if hasSrcIP \<and> \<not> hasDstIP \<and> hasSrcPort \<and> hasDstPort \<and> \<not> hasProto then ComboSrcIPPorts
     else if hasSrcIP \<and> \<not> hasDstIP \<and> hasSrcPort \<and> hasDstPort \<and> hasProto then ComboSrcIPPortsProto
     else if \<not> hasSrcIP \<and> hasDstIP \<and> hasSrcPort \<and> \<not> hasDstPort \<and> \<not> hasProto then ComboDstIPSrcPort
     else if \<not> hasSrcIP \<and> hasDstIP \<and> hasSrcPort \<and> \<not> hasDstPort \<and> hasProto then ComboDstIPSrcPortProto
     else if \<not> hasSrcIP \<and> \<not> hasDstIP \<and> hasSrcPort \<and> hasDstPort \<and> \<not> hasProto then ComboPortsOnly
     else if \<not> hasSrcIP \<and> \<not> hasDstIP \<and> hasSrcPort \<and> hasDstPort \<and> hasProto then ComboPortsProto
     else if hasSrcIP \<and> hasDstIP \<and> hasSrcPort \<and> \<not> hasDstPort \<and> \<not> hasProto then ComboSrcDstIPSrcPort
     else if hasSrcIP \<and> hasDstIP \<and> hasSrcPort \<and> \<not> hasDstPort \<and> hasProto then ComboSrcDstIPSrcPortProto
     else if \<not> hasSrcIP \<and> hasDstIP \<and> hasSrcPort \<and> hasDstPort \<and> \<not> hasProto then ComboDstIPPorts
     else if \<not> hasSrcIP \<and> hasDstIP \<and> hasSrcPort \<and> hasDstPort \<and> hasProto then ComboDstIPPortsProto
     else if hasSrcIP \<and> hasDstIP \<and> hasSrcPort \<and> hasDstPort \<and> \<not> hasProto then ComboAllExceptProto
     else ComboUnknown)"

definition getCIDRComboType :: "CIDRRuleKey \<Rightarrow> int" where
  "getCIDRComboType key =
     (let hasSrcID = (ck_SrcID key \<noteq> 0);
          hasDstID = (ck_DstID key \<noteq> 0);
          hasSrcPort = (ck_SrcPort key \<noteq> 0);
          hasDstPort = (ck_DstPort key \<noteq> 0);
          hasProto = (ck_Protocol key \<noteq> 0)
      in
     if hasSrcID \<and> hasDstID \<and> hasSrcPort \<and> hasDstPort \<and> hasProto then ComboExact5Tuple
     else if \<not> hasSrcID \<and> hasDstID \<and> hasSrcPort \<and> hasDstPort \<and> hasProto then ComboWildcardSrcIP
     else if \<not> hasSrcID \<and> hasDstID \<and> \<not> hasSrcPort \<and> hasDstPort \<and> hasProto then ComboWildcardSrcIPPort
     else if \<not> hasSrcID \<and> hasDstID \<and> \<not> hasSrcPort \<and> \<not> hasDstPort \<and> hasProto then ComboDstIPProto
     else if \<not> hasSrcID \<and> hasDstID \<and> \<not> hasSrcPort \<and> \<not> hasDstPort \<and> \<not> hasProto then ComboDstIPOnly
     else if \<not> hasSrcID \<and> \<not> hasDstID \<and> \<not> hasSrcPort \<and> \<not> hasDstPort \<and> hasProto then ComboProtoOnly
     else if \<not> hasSrcID \<and> \<not> hasDstID \<and> hasSrcPort \<and> \<not> hasDstPort \<and> \<not> hasProto then ComboSrcPortOnly
     else if \<not> hasSrcID \<and> \<not> hasDstID \<and> \<not> hasSrcPort \<and> hasDstPort \<and> \<not> hasProto then ComboDstPortOnly
     else if hasSrcID \<and> \<not> hasDstID \<and> \<not> hasSrcPort \<and> \<not> hasDstPort \<and> \<not> hasProto then ComboSrcIPOnly
     else if hasSrcID \<and> \<not> hasDstID \<and> \<not> hasSrcPort \<and> \<not> hasDstPort \<and> hasProto then ComboSrcIPProto
     else if hasSrcID \<and> hasDstID \<and> \<not> hasSrcPort \<and> \<not> hasDstPort \<and> \<not> hasProto then ComboSrcDstIP
     else if hasSrcID \<and> \<not> hasDstID \<and> \<not> hasSrcPort \<and> hasDstPort \<and> \<not> hasProto then ComboSrcIPDstPort
     else if \<not> hasSrcID \<and> hasDstID \<and> \<not> hasSrcPort \<and> hasDstPort \<and> \<not> hasProto then ComboDstIPDstPort
     else if hasSrcID \<and> hasDstID \<and> \<not> hasSrcPort \<and> \<not> hasDstPort \<and> hasProto then ComboSrcDstIPProto
     else if hasSrcID \<and> \<not> hasDstID \<and> \<not> hasSrcPort \<and> hasDstPort \<and> hasProto then ComboSrcIPDstPortProto
     else if \<not> hasSrcID \<and> \<not> hasDstID \<and> hasSrcPort \<and> \<not> hasDstPort \<and> hasProto then ComboSrcPortProto
     else if \<not> hasSrcID \<and> \<not> hasDstID \<and> \<not> hasSrcPort \<and> hasDstPort \<and> hasProto then ComboDstPortProto
     else if hasSrcID \<and> \<not> hasDstID \<and> hasSrcPort \<and> \<not> hasDstPort \<and> \<not> hasProto then ComboSrcIPSrcPort
     else if hasSrcID \<and> \<not> hasDstID \<and> hasSrcPort \<and> \<not> hasDstPort \<and> hasProto then ComboSrcIPSrcPortProto
     else if \<not> hasSrcID \<and> hasDstID \<and> \<not> hasSrcPort \<and> hasDstPort \<and> hasProto then ComboDstIPDstPortProto
     else if hasSrcID \<and> hasDstID \<and> \<not> hasSrcPort \<and> hasDstPort \<and> \<not> hasProto then ComboSrcDstIPDstPort
     else if hasSrcID \<and> hasDstID \<and> \<not> hasSrcPort \<and> hasDstPort \<and> hasProto then ComboSrcDstIPDstPortProto
     else if hasSrcID \<and> \<not> hasDstID \<and> hasSrcPort \<and> hasDstPort \<and> \<not> hasProto then ComboSrcIPPorts
     else if hasSrcID \<and> \<not> hasDstID \<and> hasSrcPort \<and> hasDstPort \<and> hasProto then ComboSrcIPPortsProto
     else if \<not> hasSrcID \<and> hasDstID \<and> hasSrcPort \<and> \<not> hasDstPort \<and> \<not> hasProto then ComboDstIPSrcPort
     else if \<not> hasSrcID \<and> hasDstID \<and> hasSrcPort \<and> \<not> hasDstPort \<and> hasProto then ComboDstIPSrcPortProto
     else if \<not> hasSrcID \<and> \<not> hasDstID \<and> hasSrcPort \<and> hasDstPort \<and> \<not> hasProto then ComboPortsOnly
     else if \<not> hasSrcID \<and> \<not> hasDstID \<and> hasSrcPort \<and> hasDstPort \<and> hasProto then ComboPortsProto
     else if hasSrcID \<and> hasDstID \<and> hasSrcPort \<and> \<not> hasDstPort \<and> \<not> hasProto then ComboSrcDstIPSrcPort
     else if hasSrcID \<and> hasDstID \<and> hasSrcPort \<and> \<not> hasDstPort \<and> hasProto then ComboSrcDstIPSrcPortProto
     else if \<not> hasSrcID \<and> hasDstID \<and> hasSrcPort \<and> hasDstPort \<and> \<not> hasProto then ComboDstIPPorts
     else if \<not> hasSrcID \<and> hasDstID \<and> hasSrcPort \<and> hasDstPort \<and> hasProto then ComboDstIPPortsProto
     else if hasSrcID \<and> hasDstID \<and> hasSrcPort \<and> hasDstPort \<and> \<not> hasProto then ComboAllExceptProto
     else ComboUnknown)"

section \<open>Properties of the classification\<close>

text \<open>Which fields of a key are set.\<close>

definition key_fields :: "RuleKey \<Rightarrow> bool \<times> bool \<times> bool \<times> bool \<times> bool" where
  "key_fields k = (\<not> isZeroIP (rk_SrcIP k), \<not> isZeroIP (rk_DstIP k), rk_SrcPort k \<noteq> 0,
     rk_DstPort k \<noteq> 0, rk_Protocol k \<noteq> 0)"

definition cidr_key_fields :: "CIDRRuleKey \<Rightarrow> bool \<times> bool \<times> bool \<times> bool \<times> bool" where
  "cidr_key_fields k = (ck_SrcID k \<noteq> 0, ck_DstID k \<noteq> 0, ck_SrcPort k \<noteq> 0,
     ck_DstPort k \<noteq> 0, ck_Protocol k \<noteq> 0)"

abbreviation (input) no_fields :: "bool \<times> bool \<times> bool \<times> bool \<times> bool" where
  "no_fields \<equiv> (False, False, False, False, False)"

text \<open>The inverse of the classification: the fields a combo number stands for.\<close>

definition combo_fields :: "int \<Rightarrow> bool \<times> bool \<times> bool \<times> bool \<times> bool" where
  "combo_fields c = (c \<in> {0, 8, 9, 10, 11, 13, 14, 17, 18, 21, 22, 23, 24, 29, 30, 33},
     c \<in> {0, 1, 2, 3, 4, 10, 12, 13, 20, 21, 22, 25, 26, 29, 30, 31, 32, 33},
     c \<in> {0, 1, 6, 15, 17, 18, 23, 24, 25, 26, 27, 28, 29, 30, 31, 32, 33},
     c \<in> {0, 1, 2, 7, 11, 12, 14, 16, 20, 21, 22, 23, 24, 27, 28, 31, 32, 33},
     c \<in> {0, 1, 2, 3, 5, 9, 13, 14, 15, 16, 18, 20, 22, 24, 26, 28, 30, 32})"

lemma combo_fields_getComboType: "combo_fields (getComboType k) = key_fields k"
  by (cases "isZeroIP (rk_SrcIP k)"; cases "isZeroIP (rk_DstIP k)"; cases "rk_SrcPort k = 0";
      cases "rk_DstPort k = 0"; cases "rk_Protocol k = 0";
      simp add: getComboType_def key_fields_def combo_fields_def Let_def)

lemma combo_fields_getCIDRComboType: "combo_fields (getCIDRComboType k) = cidr_key_fields k"
  by (cases "ck_SrcID k = 0"; cases "ck_DstID k = 0"; cases "ck_SrcPort k = 0";
      cases "ck_DstPort k = 0"; cases "ck_Protocol k = 0";
      simp add: getCIDRComboType_def cidr_key_fields_def combo_fields_def Let_def)

lemma getComboType_range:
  "getComboType k \<in> {- 1..33} - {19, 20, 32}"
  by (cases "isZeroIP (rk_SrcIP k)"; cases "isZeroIP (rk_DstIP k)"; cases "rk_SrcPort k = 0";
      cases "rk_DstPort k = 0"; cases "rk_Protocol k = 0";
      simp add: getComboType_def Let_def)

lemma getCIDRComboType_range:
  "getCIDRComboType k \<in> {- 1..33} - {19, 20, 32}"
  by (cases "ck_SrcID k = 0"; cases "ck_DstID k = 0"; cases "ck_SrcPort k = 0";
      cases "ck_DstPort k = 0"; cases "ck_Protocol k = 0";
      simp add: getCIDRComboType_def Let_def)

lemma getComboType_unknown: "getComboType k = - 1 \<longleftrightarrow> key_fields k = no_fields"
  by (cases "isZeroIP (rk_SrcIP k)"; cases "isZeroIP (rk_DstIP k)"; cases "rk_SrcPort k = 0";
      cases "rk_DstPort k = 0"; cases "rk_Protocol k = 0";
      simp add: getComboType_def key_fields_def Let_def)

lemma getCIDRComboType_unknown: "getCIDRComboType k = - 1 \<longleftrightarrow> cidr_key_fields k = no_fields"
  by (cases "ck_SrcID k = 0"; cases "ck_DstID k = 0"; cases "ck_SrcPort k = 0";
      cases "ck_DstPort k = 0"; cases "ck_Protocol k = 0";
      simp add: getCIDRComboType_def cidr_key_fields_def Let_def)

lemma validateComboType_iff: "validateComboType c \<longleftrightarrow> 0 \<le> c \<and> c < 64"
  by (auto simp: validateComboType_def)

lemma validate_getComboType: "validateComboType (getComboType k) \<longleftrightarrow> key_fields k \<noteq> no_fields"
  using getComboType_range [of k] getComboType_unknown [of k] by (auto simp: validateComboType_iff)

lemma validate_getCIDRComboType:
  "validateComboType (getCIDRComboType k) \<longleftrightarrow> cidr_key_fields k \<noteq> no_fields"
  using getCIDRComboType_range [of k] getCIDRComboType_unknown [of k]
  by (auto simp: validateComboType_iff)

text \<open>
  C27. The classification is exact: two keys get the same combo precisely when the same fields
  are set in both, so one bit of the published bitmap stands for one kind of lookup.
\<close>

theorem getComboType_exact:
  "getComboType k = getComboType k' \<longleftrightarrow> key_fields k = key_fields k'"
proof
  show "getComboType k = getComboType k' \<Longrightarrow> key_fields k = key_fields k'"
    by (metis combo_fields_getComboType)
  show "key_fields k = key_fields k' \<Longrightarrow> getComboType k = getComboType k'"
    by (simp add: key_fields_def getComboType_def Let_def)
qed

text \<open>
  The exact-address and the prefix classifier number the combinations alike: a prefix
  rule gets the combo of an exact rule when the same fields are set.
\<close>

theorem combo_agrees:
  "getCIDRComboType c = getComboType k \<longleftrightarrow> cidr_key_fields c = key_fields k"
proof
  show "getCIDRComboType c = getComboType k \<Longrightarrow> cidr_key_fields c = key_fields k"
    by (metis combo_fields_getComboType combo_fields_getCIDRComboType)
  show "cidr_key_fields c = key_fields k \<Longrightarrow> getCIDRComboType c = getComboType k"
    by (simp add: cidr_key_fields_def key_fields_def getCIDRComboType_def getComboType_def Let_def)
qed

text \<open>
  C28. A key passes \<^verbatim>\<open>validateComboType\<close> exactly when some field is set, and then its combo
  is a position of the 64-bit bitmap; the numbers 19, 20 and 32 are never produced.
\<close>

theorem combo_accepted_iff:
  "(validateComboType (getComboType k) \<longleftrightarrow> key_fields k \<noteq> no_fields) \<and>
   (validateComboType (getCIDRComboType c) \<longleftrightarrow> cidr_key_fields c \<noteq> no_fields) \<and>
   getComboType k \<in> {- 1..33} - {19, 20, 32} \<and> getCIDRComboType c \<in> {- 1..33} - {19, 20, 32}"
  using validate_getComboType validate_getCIDRComboType getComboType_range getCIDRComboType_range
  by blast

end
