(* ===== verification/Convert.thy ===== *)
theory Convert
  imports Serialize Validate Combo
begin

text \<open>
  Conversions between the API form of a rule and the agent's stored form
  (\<^verbatim>\<open>node/agent/api/convert.go\<close>), the agent's guard on anomaly rules, and the BPF value rebuilt
  from a stored rule on rollback.
\<close>

section \<open>From the API to a key\<close>

datatype convert_error =
    InvalidSrcIP string
  | InvalidDstIP string
  | WhitelistProtocol validation_error

text \<open>Both \<^verbatim>\<open>if\<close> blocks of the source have this form; \<open>None\<close> is the parse failure.\<close>

definition ip_field :: "string \<Rightarrow> IPAddr option" where
  "ip_field s =
     (if s \<noteq> [] \<and> s \<noteq> ''0.0.0.0'' \<and> s \<noteq> ''::''
      then map_option ipToIPAddr (net_ParseIP s)
      else Some zero_IPAddr)"

definition ruleToKey :: "Rule \<Rightarrow> convert_error + RuleKey" where
  "ruleToKey r =
     (case ip_field (r_SrcIP r) of
        None \<Rightarrow> Inl (InvalidSrcIP (r_SrcIP r))
      | Some src \<Rightarrow>
          (case ip_field (r_DstIP r) of
             None \<Rightarrow> Inl (InvalidDstIP (r_DstIP r))
           | Some dst \<Rightarrow>
               Inr (zero_RuleKey\<lparr>rk_SrcIP := src, rk_DstIP := dst,
                      rk_SrcPort := htons (r_SrcPort r), rk_DstPort := htons (r_DstPort r),
                      rk_Protocol := parseProtocol (r_Protocol r)\<rparr>)))"

definition whitelistToKey :: "WhitelistEntry \<Rightarrow> convert_error + RuleKey" where
  "whitelistToKey w =
     (case ip_field (w_SrcIP w) of
        None \<Rightarrow> Inl (InvalidSrcIP (w_SrcIP w))
      | Some src \<Rightarrow>
          (case ip_field (w_DstIP w) of
             None \<Rightarrow> Inl (InvalidDstIP (w_DstIP w))
           | Some dst \<Rightarrow>
               (case parseProtocolStrict (w_Protocol w) of
                  Inl e \<Rightarrow> Inl (WhitelistProtocol e)
                | Inr proto \<Rightarrow>
                    Inr (zero_RuleKey\<lparr>rk_SrcIP := src, rk_DstIP := dst,
                           rk_SrcPort := htons (w_SrcPort w), rk_DstPort := htons (w_DstPort w),
                           rk_Protocol := proto\<rparr>))))"

section \<open>Back to the API\<close>

definition storedRuleToRule :: "string \<Rightarrow> StoredRule \<Rightarrow> Rule" where
  "storedRuleToRule rid s =
     (let action = (if sr_Action s = [] then ''drop'' else sr_Action s) in
      \<lparr>r_ID = rid, r_SrcIP = ipAddrToString (rk_SrcIP (sr_Key s)),
       r_DstIP = ipAddrToString (rk_DstIP (sr_Key s)), r_SrcCIDR = [], r_DstCIDR = [],
       r_SrcPort = ntohs (rk_SrcPort (sr_Key s)), r_DstPort = ntohs (rk_DstPort (sr_Key s)),
       r_Protocol = protocolToString (rk_Protocol (sr_Key s)), r_Action = action,
       r_RateLimit = sr_RateLimit s, r_PktLenMin = sr_PktLenMin s, r_PktLenMax = sr_PktLenMax s,
       r_TcpFlags = sr_TcpFlags s, r_MatchAnomaly = sr_MatchAnomaly s, r_Comment = []\<rparr>)"

definition storedCIDRRuleToRule :: "string \<Rightarrow> StoredCIDRRule \<Rightarrow> Rule" where
  "storedCIDRRuleToRule rid s =
     (let action = (if sc_Action s = [] then ''drop'' else sc_Action s) in
      \<lparr>r_ID = rid, r_SrcIP = [], r_DstIP = [], r_SrcCIDR = sc_SrcCIDR s, r_DstCIDR = sc_DstCIDR s,
       r_SrcPort = ntohs (ck_SrcPort (sc_Key s)), r_DstPort = ntohs (ck_DstPort (sc_Key s)),
       r_Protocol = protocolToString (ck_Protocol (sc_Key s)), r_Action = action,
       r_RateLimit = sc_RateLimit s, r_PktLenMin = sc_PktLenMin s, r_PktLenMax = sc_PktLenMax s,
       r_TcpFlags = sc_TcpFlags s, r_MatchAnomaly = sc_MatchAnomaly s, r_Comment = []\<rparr>)"

definition keyToWhitelist :: "string \<Rightarrow> RuleKey \<Rightarrow> WhitelistEntry" where
  "keyToWhitelist wid k =
     \<lparr>w_ID = wid, w_SrcIP = ipAddrToString (rk_SrcIP k), w_DstIP = ipAddrToString (rk_DstIP k),
      w_SrcPort = ntohs (rk_SrcPort k), w_DstPort = ntohs (rk_DstPort k),
      w_Protocol = protocolToString (rk_Protocol k), w_Comment = []\<rparr>"

section \<open>Anomaly rules\<close>

datatype anomaly_error =
    InvalidAnomalyBits u8
  | AnomalyDropOnly
  | AnomalyUnbounded
  | BadFragmentIPv6

text \<open>An address that constrains the rule: set, parsable and not the unspecified one.\<close>

definition bounded_ip :: "string \<Rightarrow> bool" where
  "bounded_ip s =
     (s \<noteq> [] \<and> s \<noteq> ''0.0.0.0'' \<and> s \<noteq> ''::'' \<and>
      (case net_ParseIP s of None \<Rightarrow> False | Some ip \<Rightarrow> \<not> ip_IsUnspecified ip))"

definition bounded_cidr :: "string \<Rightarrow> bool" where
  "bounded_cidr s =
     (s \<noteq> [] \<and>
      (case net_ParseCIDR s of None \<Rightarrow> False | Some (_, n) \<Rightarrow> mask_Size (net_Mask n) > 0))"

definition v6_ip :: "string \<Rightarrow> bool" where
  "v6_ip s =
     (s \<noteq> [] \<and>
      (case net_ParseIP s of
         None \<Rightarrow> False
       | Some ip \<Rightarrow> ip_To4 ip = None \<and> \<not> ip_IsUnspecified ip))"

definition v6_cidr :: "string \<Rightarrow> bool" where
  "v6_cidr s =
     (s \<noteq> [] \<and> (case net_ParseCIDR s of None \<Rightarrow> False | Some (ip, _) \<Rightarrow> ip_To4 ip = None))"

definition validateNodeAnomalyFields ::
  "u8 \<Rightarrow> string \<Rightarrow> string \<Rightarrow> string \<Rightarrow> string \<Rightarrow> string \<Rightarrow> anomaly_error option" where
  "validateNodeAnomalyFields matchAnomaly action srcIP dstIP srcCIDR dstCIDR =
     (if matchAnomaly = 0 then None
      else if matchAnomaly AND NOT (AnomalyBadFragment OR AnomalyInvalid) \<noteq> 0
        then Some (InvalidAnomalyBits matchAnomaly)
      else if action = ''rate_limit'' then Some AnomalyDropOnly
      else
        let hasBounded = (list_ex bounded_ip [srcIP, dstIP] \<or> list_ex bounded_cidr [srcCIDR, dstCIDR])
        in if \<not> hasBounded then Some AnomalyUnbounded
           else if matchAnomaly AND AnomalyBadFragment \<noteq> 0 \<and>
                   (list_ex v6_ip [srcIP, dstIP] \<or> list_ex v6_cidr [srcCIDR, dstCIDR])
             then Some BadFragmentIPv6
           else None)"

section \<open>Rollback values\<close>

definition ruleValueFromStored :: "StoredRule \<Rightarrow> RuleValue" where
  "ruleValueFromStored s =
     (let action = (case parseAction (sr_Action s) of Inr a \<Rightarrow> a | Inl _ \<Rightarrow> ActionDrop);
          (fm, fv) = (case parseTcpFlags (sr_TcpFlags s) of Inr p \<Rightarrow> p | Inl _ \<Rightarrow> (0, 0))
      in \<lparr>rv_Action = action, rv_TcpFlagsMask = fm, rv_TcpFlagsValue = fv,
          rv_MatchAnomaly = sr_MatchAnomaly s, rv_RateLimit = sr_RateLimit s, rv_MatchCount = 0,
          rv_DropCount = 0, rv_PktLenMin = sr_PktLenMin s, rv_PktLenMax = sr_PktLenMax s,
          rv_Pad2 = [0, 0, 0, 0]\<rparr>)"

definition ruleValueFromStoredCIDR :: "StoredCIDRRule \<Rightarrow> RuleValue" where
  "ruleValueFromStoredCIDR s =
     (let action = (case parseAction (sc_Action s) of Inr a \<Rightarrow> a | Inl _ \<Rightarrow> ActionDrop);
          (fm, fv) = (case parseTcpFlags (sc_TcpFlags s) of Inr p \<Rightarrow> p | Inl _ \<Rightarrow> (0, 0))
      in \<lparr>rv_Action = action, rv_TcpFlagsMask = fm, rv_TcpFlagsValue = fv,
          rv_MatchAnomaly = sc_MatchAnomaly s, rv_RateLimit = sc_RateLimit s, rv_MatchCount = 0,
          rv_DropCount = 0, rv_PktLenMin = sc_PktLenMin s, rv_PktLenMax = sc_PktLenMax s,
          rv_Pad2 = [0, 0, 0, 0]\<rparr>)"

section \<open>Round trip of keys\<close>

text \<open>The IPv4-mapped form of \<^verbatim>\<open>0.0.0.0\<close>: an address, not a wildcard.\<close>

definition mapped_zero :: IPAddr where
  "mapped_zero = v4_in_v6_prefix @ [0, 0, 0, 0]"

lemma ParseIP_0000: "net_ParseIP ''0.0.0.0'' = Some mapped_zero"
  by (simp add: net_ParseIP_def netip_ParseAddr_def parse_v4_def digit_val_def mapped_zero_def
      numeral_eq_Suc)

lemma ParseIP_unspecified: "net_ParseIP ''::'' = Some zero_IPAddr"
  by (simp add: net_ParseIP_def netip_ParseAddr_def parse_v6_def zero_IPAddr_def)

lemma ip_field_length: "ip_field s = Some a \<Longrightarrow> length a = 16"
  by (auto simp: ip_field_def ipToIPAddr_16 dest: ParseIP_length split: if_splits)

lemma ip_String_mapped_zero: "ip_String mapped_zero = ''0.0.0.0''"
  by (simp add: ip_String_def ip_To4_def mapped_zero_def v4_in_v6_prefix_def v4_string_def
      itoa.simps char_of_eq_iff)

text \<open>A stored address is printed and read back as itself, with one exception.\<close>

lemma ip_field_roundtrip:
  assumes "length a = 16"
  shows "ip_field (ipAddrToString a) = Some (if a = mapped_zero then zero_IPAddr else a)"
proof (cases "a = zero_IPAddr \<or> a = mapped_zero")
  case True
  have "mapped_zero ! 10 = 0xff" "zero_IPAddr ! 10 = 0"
    by (simp_all add: mapped_zero_def v4_in_v6_prefix_def zero_IPAddr_def nth_append)
  then have "mapped_zero \<noteq> zero_IPAddr" by auto
  with True assms show ?thesis
    by (auto simp: ip_field_def ipAddrToString_nonzero ip_String_mapped_zero)
next
  case False
  note rt = ParseIP_String [OF assms]
  have "ip_String a \<noteq> ''0.0.0.0''" "ip_String a \<noteq> ''::''"
    using rt ParseIP_0000 ParseIP_unspecified False by (metis option.inject)+
  with False assms rt show ?thesis
    by (simp add: ip_field_def ipAddrToString_nonzero ip_String_nonempty ipToIPAddr_16)
qed

lemma ruleToKey_Inr:
  "ruleToKey r = Inr k \<longleftrightarrow> (\<exists>src dst. ip_field (r_SrcIP r) = Some src \<and> ip_field (r_DstIP r) = Some dst \<and>
     k = zero_RuleKey\<lparr>rk_SrcIP := src, rk_DstIP := dst, rk_SrcPort := htons (r_SrcPort r),
           rk_DstPort := htons (r_DstPort r), rk_Protocol := parseProtocol (r_Protocol r)\<rparr>)"
  by (auto simp: ruleToKey_def split: option.splits)

lemma ruleToKey_wf: "ruleToKey r = Inr k \<Longrightarrow> wf_RuleKey k"
  by (auto simp: ruleToKey_Inr wf_RuleKey_def zero_RuleKey_def ip_field_length)

lemma whitelistToKey_wf: "whitelistToKey w = Inr k \<Longrightarrow> wf_RuleKey k"
  by (auto simp: whitelistToKey_def wf_RuleKey_def zero_RuleKey_def ip_field_length
      split: option.splits sum.splits)

text \<open>
  C31. A stored rule that the agent prints can be submitted again: reading its printed form gives
  the stored key back. The only exception is the address \<^verbatim>\<open>::ffff:0.0.0.0\<close>, which is printed as
  \<^verbatim>\<open>0.0.0.0\<close> and read back as the wildcard, so that the rule is broadened.
\<close>

theorem storedRule_roundtrip:
  assumes "ruleToKey r = Inr k" and "sr_Key s = k"
  shows "ruleToKey (storedRuleToRule i s) =
    Inr (k\<lparr>rk_SrcIP := if rk_SrcIP k = mapped_zero then zero_IPAddr else rk_SrcIP k,
           rk_DstIP := if rk_DstIP k = mapped_zero then zero_IPAddr else rk_DstIP k\<rparr>)"
proof -
  obtain src dst where f: "ip_field (r_SrcIP r) = Some src" "ip_field (r_DstIP r) = Some dst"
    and k: "k = zero_RuleKey\<lparr>rk_SrcIP := src, rk_DstIP := dst, rk_SrcPort := htons (r_SrcPort r),
           rk_DstPort := htons (r_DstPort r), rk_Protocol := parseProtocol (r_Protocol r)\<rparr>"
    using assms(1) by (auto simp: ruleToKey_Inr)
  then have "length src = 16" "length dst = 16" by (auto dest: ip_field_length)
  then show ?thesis
    using assms(2)
    by (simp add: ruleToKey_def storedRuleToRule_def Let_def k ip_field_roundtrip)
qed


section \<open>Witnesses\<close>

definition sample_rule :: Rule where
  "sample_rule = \<lparr>r_ID = ''r1'', r_SrcIP = ''10.2.3.4'', r_DstIP = [], r_SrcCIDR = [], r_DstCIDR = [],
     r_SrcPort = 0, r_DstPort = 80, r_Protocol = ''tcp'', r_Action = ''drop'', r_RateLimit = 0,
     r_PktLenMin = 0, r_PktLenMax = 0, r_TcpFlags = [], r_MatchAnomaly = 0, r_Comment = []\<rparr>"

definition sample_key :: RuleKey where
  "sample_key = zero_RuleKey\<lparr>rk_SrcIP := v4_in_v6_prefix @ [10, 2, 3, 4], rk_DstPort := htons 80,
     rk_Protocol := 6\<rparr>"

definition sample_stored :: StoredRule where
  "sample_stored = \<lparr>sr_Key = sample_key, sr_Action = ''drop'', sr_RateLimit = 0, sr_PktLenMin = 0,
     sr_PktLenMax = 0, sr_TcpFlags = [], sr_MatchAnomaly = 0\<rparr>"

lemma ParseIP_sample: "net_ParseIP ''10.2.3.4'' = Some (v4_in_v6_prefix @ [10, 2, 3, 4])"
  by (simp add: net_ParseIP_def netip_ParseAddr_def parse_v4_def digit_val_def numeral_eq_Suc)

lemma ruleToKey_sample: "ruleToKey sample_rule = Inr sample_key"
proof -
  have "htons 0 = 0" by simp
  moreover have "ip_field ''10.2.3.4'' = Some (v4_in_v6_prefix @ [10, 2, 3, 4])"
    by (simp add: ip_field_def ParseIP_sample ipToIPAddr_16)
  ultimately show ?thesis
    by (simp add: ruleToKey_def sample_rule_def sample_key_def ip_field_def [of "[]"]
        parseProtocol_def parseProtocolStrict_def) (simp add: zero_RuleKey_def)
qed

theorem storedRule_roundtrip_witness:
  "ruleToKey (storedRuleToRule ''r1'' sample_stored) =
    Inr (sample_key\<lparr>rk_SrcIP := if rk_SrcIP sample_key = mapped_zero then zero_IPAddr else rk_SrcIP sample_key,
           rk_DstIP := if rk_DstIP sample_key = mapped_zero then zero_IPAddr else rk_DstIP sample_key\<rparr>)"
  by (rule storedRule_roundtrip [OF ruleToKey_sample]) (simp add: sample_stored_def)


end
