(* ===== verification/Handlers.thy ===== *)
theory Handlers
  imports BpfMaps CidrManager Convert
begin

text \<open>
  The agent's state (\<^verbatim>\<open>Handlers\<close> in \<^verbatim>\<open>node/agent/api/bpf_types.go\<close>), the accessors of the active
  and the shadow maps (\<^verbatim>\<open>config.go\<close>), the initial state (\<^verbatim>\<open>handlers.go\<close>) and the agent-state snapshot
  (\<^verbatim>\<open>agent_state.go\<close>). The mutexes are not modelled: each operation runs with the locks of its
  whole critical section, so operations are atomic steps. The per-CPU statistics maps and the
  system sampler are not part of the state.
\<close>

section \<open>State\<close>

text \<open>The kernel operations of the three kinds of maps.\<close>

record ('m, 'c, 't) kernel =
  hash :: "'m hash_ops"
  arr :: "'c array_ops"
  trie :: "'t TrieWriter"

record ('m, 'c, 't) Handlers =
  blacklist :: 'm
  blacklistB :: 'm
  whitelist :: 'm
  whitelistB :: 'm
  rlStates :: "'m option"
  configA :: 'c
  configB :: 'c
  activeConfig :: 'c
  activeSlot :: int
  activeRuleSlot :: int
  activeWLSlot :: int
  wlComboRefCount :: "int list"
  rules :: "(string, StoredRule) gomap"
  ruleKeyIndex :: "(RuleKey, string) gomap"
  wlEntries :: "(string, RuleKey) gomap"
  wlKeyIndex :: "(RuleKey, string) gomap"
  lastRuleDropCount :: "(string, u64) gomap"
  lastRuleStatsTime :: "(string, int) gomap"
  comboRefCount :: "int list"
  cidrBlacklist :: 'm
  cidrBlacklistB :: 'm
  cidrRlStates :: "'m option"
  cidrMgr :: "'t Manager"
  cidrRules :: "(string, StoredCIDRRule) gomap"
  cidrRuleKeyIndex :: "(CIDRRuleKey, string) gomap"
  cidrComboRefCount :: "int list"

section \<open>Active and shadow maps\<close>

text \<open>
  The source's accessors return the map itself; the \<open>set_\<close> functions write the map the accessor
  of the same name returns.
\<close>

definition activeMap :: "('m, 'c, 't) Handlers \<Rightarrow> 'c" where
  "activeMap h = (if activeSlot h = 0 then configA h else configB h)"

definition shadowMap :: "('m, 'c, 't) Handlers \<Rightarrow> 'c" where
  "shadowMap h = (if activeSlot h = 0 then configB h else configA h)"

definition set_shadowMap :: "'c \<Rightarrow> ('m, 'c, 't) Handlers \<Rightarrow> ('m, 'c, 't) Handlers" where
  "set_shadowMap c h = (if activeSlot h = 0 then h\<lparr>configB := c\<rparr> else h\<lparr>configA := c\<rparr>)"

definition activeWhitelist :: "('m, 'c, 't) Handlers \<Rightarrow> 'm" where
  "activeWhitelist h = (if activeWLSlot h = 0 then whitelist h else whitelistB h)"

definition shadowWhitelist :: "('m, 'c, 't) Handlers \<Rightarrow> 'm" where
  "shadowWhitelist h = (if activeWLSlot h = 0 then whitelistB h else whitelist h)"

definition set_activeWhitelist :: "'m \<Rightarrow> ('m, 'c, 't) Handlers \<Rightarrow> ('m, 'c, 't) Handlers" where
  "set_activeWhitelist m h = (if activeWLSlot h = 0 then h\<lparr>whitelist := m\<rparr> else h\<lparr>whitelistB := m\<rparr>)"

definition set_shadowWhitelist :: "'m \<Rightarrow> ('m, 'c, 't) Handlers \<Rightarrow> ('m, 'c, 't) Handlers" where
  "set_shadowWhitelist m h = (if activeWLSlot h = 0 then h\<lparr>whitelistB := m\<rparr> else h\<lparr>whitelist := m\<rparr>)"

definition activeBlacklist :: "('m, 'c, 't) Handlers \<Rightarrow> 'm" where
  "activeBlacklist h = (if activeRuleSlot h = 0 then blacklist h else blacklistB h)"

definition shadowBlacklist :: "('m, 'c, 't) Handlers \<Rightarrow> 'm" where
  "shadowBlacklist h = (if activeRuleSlot h = 0 then blacklistB h else blacklist h)"

definition set_activeBlacklist :: "'m \<Rightarrow> ('m, 'c, 't) Handlers \<Rightarrow> ('m, 'c, 't) Handlers" where
  "set_activeBlacklist m h = (if activeRuleSlot h = 0 then h\<lparr>blacklist := m\<rparr> else h\<lparr>blacklistB := m\<rparr>)"

definition set_shadowBlacklist :: "'m \<Rightarrow> ('m, 'c, 't) Handlers \<Rightarrow> ('m, 'c, 't) Handlers" where
  "set_shadowBlacklist m h = (if activeRuleSlot h = 0 then h\<lparr>blacklistB := m\<rparr> else h\<lparr>blacklist := m\<rparr>)"

definition activeCidrBlacklist :: "('m, 'c, 't) Handlers \<Rightarrow> 'm" where
  "activeCidrBlacklist h = (if activeRuleSlot h = 0 then cidrBlacklist h else cidrBlacklistB h)"

definition shadowCidrBlacklist :: "('m, 'c, 't) Handlers \<Rightarrow> 'm" where
  "shadowCidrBlacklist h = (if activeRuleSlot h = 0 then cidrBlacklistB h else cidrBlacklist h)"

definition set_activeCidrBlacklist :: "'m \<Rightarrow> ('m, 'c, 't) Handlers \<Rightarrow> ('m, 'c, 't) Handlers" where
  "set_activeCidrBlacklist m h =
     (if activeRuleSlot h = 0 then h\<lparr>cidrBlacklist := m\<rparr> else h\<lparr>cidrBlacklistB := m\<rparr>)"

definition set_shadowCidrBlacklist :: "'m \<Rightarrow> ('m, 'c, 't) Handlers \<Rightarrow> ('m, 'c, 't) Handlers" where
  "set_shadowCidrBlacklist m h =
     (if activeRuleSlot h = 0 then h\<lparr>cidrBlacklistB := m\<rparr> else h\<lparr>cidrBlacklist := m\<rparr>)"

section \<open>Initial state\<close>

text \<open>
  A step that may fail and the step after it: the second runs only when the first returned the nil
  error, as an early return in the source.
\<close>

definition and_then :: "'e option \<times> 's \<Rightarrow> ('s \<Rightarrow> 'e option \<times> 's) \<Rightarrow> 'e option \<times> 's" where
  "and_then r f = (case r of (Some e, s) \<Rightarrow> (Some e, s) | (None, s) \<Rightarrow> f s)"

lemma and_then_simps [simp]: "and_then (Some e, s) f = (Some e, s)" "and_then (None, s) f = f s"
  by (simp_all add: and_then_def)

lemma and_then_None:
  "and_then r f = (None, s') \<longleftrightarrow> (\<exists>s. r = (None, s) \<and> f s = (None, s'))"
  by (cases r; cases "fst r") auto

datatype publish_error = CopyFailed nat | UpdateFailed nat | SwitchFailed

text \<open>Writing one 64-bit entry of a config array.\<close>

definition cfg_put :: "'c array_ops \<Rightarrow> nat \<Rightarrow> u64 \<Rightarrow> 'c \<Rightarrow> publish_error option \<times> 'c" where
  "cfg_put A idx v c =
     (let (ok, c') = UpdateExist A c (le32 (of_nat idx)) (le64 v)
      in (if ok then None else Some (UpdateFailed idx), c'))"

fun init_indices :: "'c array_ops \<Rightarrow> nat list \<Rightarrow> 'c \<Rightarrow> publish_error option \<times> 'c" where
  "init_indices A [] m = (None, m)"
| "init_indices A (idx # is) m = and_then (cfg_put A idx 0 m) (init_indices A is)"

definition initDynamicConfig :: "'c array_ops \<Rightarrow> 'c \<Rightarrow> publish_error option \<times> 'c" where
  "initDynamicConfig A m = init_indices A
     [ConfigBlacklistCount, ConfigWhitelistCount, ConfigRuleBitmap, ConfigWLBitmap,
      ConfigFastForwardEnabled, ConfigFilterIfindex, ConfigCIDRRuleCount, ConfigCIDRBitmap,
      ConfigWLMapSelector, ConfigRuleMapSelector, ConfigAnomalyRuleCount, ConfigRLCPUDivisor] m"

text \<open>
  \<^verbatim>\<open>NewHandlers\<close>; \<^verbatim>\<open>log.Fatalf\<close> ends the process, which is the result \<open>None\<close>. The maps of the
  \<open>init\<close> argument are those passed in; its other fields are overwritten.
\<close>

definition NewHandlers ::
  "('m, 'c, 't) kernel \<Rightarrow> ('m, 'c, 't) Handlers \<Rightarrow> ('m, 'c, 't) Handlers option" where
  "NewHandlers K init =
     (case initDynamicConfig (arr K) (configA init) of
        (Some _, _) \<Rightarrow> None
      | (None, ca) \<Rightarrow>
          (case initDynamicConfig (arr K) (configB init) of
             (Some _, _) \<Rightarrow> None
           | (None, cb) \<Rightarrow>
               (case UpdateExist (arr K) (activeConfig init) (le32 0) (le64 0) of
                  (False, _) \<Rightarrow> None
                | (True, ac) \<Rightarrow>
                    Some (init\<lparr>configA := ca, configB := cb, activeConfig := ac,
                      activeSlot := 0, activeRuleSlot := 0, activeWLSlot := 0,
                      wlComboRefCount := zero64, rules := [], ruleKeyIndex := [], wlEntries := [],
                      wlKeyIndex := [], lastRuleDropCount := [], lastRuleStatsTime := [],
                      comboRefCount := zero64, cidrRules := [], cidrRuleKeyIndex := [],
                      cidrComboRefCount := zero64\<rparr>))))"

section \<open>Snapshot\<close>

record AgentState =
  st_ExactRules :: int
  st_CIDRRules :: int
  st_WhitelistEntries :: int
  st_ActiveSlot :: int
  st_RuleMapSelector :: int

definition getAgentState :: "('m, 'c, 't) Handlers \<Rightarrow> AgentState" where
  "getAgentState h =
     \<lparr>st_ExactRules = int (length (rules h)), st_CIDRRules = int (length (cidrRules h)),
      st_WhitelistEntries = int (length (wlEntries h)), st_ActiveSlot = activeSlot h,
      st_RuleMapSelector = activeRuleSlot h\<rparr>"

section \<open>Accessor lemmas\<close>

named_theorems access_simps \<open>reading back the active and shadow maps\<close>

lemma access_write [simp, access_simps]:
  "activeBlacklist (set_activeBlacklist m h) = m"
  "activeCidrBlacklist (set_activeCidrBlacklist m h) = m"
  "activeWhitelist (set_activeWhitelist m h) = m"
  "shadowBlacklist (set_shadowBlacklist m h) = m"
  "shadowCidrBlacklist (set_shadowCidrBlacklist m h) = m"
  "shadowWhitelist (set_shadowWhitelist m h) = m"
  "activeBlacklist (set_activeCidrBlacklist m h) = activeBlacklist h"
  "activeBlacklist (set_activeWhitelist m h) = activeBlacklist h"
  "activeCidrBlacklist (set_activeBlacklist m h) = activeCidrBlacklist h"
  "activeCidrBlacklist (set_activeWhitelist m h) = activeCidrBlacklist h"
  "activeWhitelist (set_activeBlacklist m h) = activeWhitelist h"
  "activeWhitelist (set_activeCidrBlacklist m h) = activeWhitelist h"
  by (simp_all add: activeBlacklist_def set_activeBlacklist_def activeCidrBlacklist_def
      set_activeCidrBlacklist_def activeWhitelist_def set_activeWhitelist_def shadowBlacklist_def
      set_shadowBlacklist_def shadowCidrBlacklist_def set_shadowCidrBlacklist_def
      shadowWhitelist_def set_shadowWhitelist_def)

end
