(* ===== verification/ConfigPublish.thy ===== *)
theory ConfigPublish
  imports Handlers
begin

text \<open>
  Publishing the configuration (\<^verbatim>\<open>node/agent/api/config.go\<close>). The BPF program reads one of two
  config arrays, selected by \<^verbatim>\<open>active_config\<close>. A publish copies the active array to the shadow
  one, rewrites the entries that depend on the rules, and switches the selector; a failure before
  the switch leaves what the program reads untouched.
\<close>

section \<open>Operations\<close>

text \<open>\<^verbatim>\<open>countAnomalyRulesIn\<close> and, on the agent's own maps, \<^verbatim>\<open>countAnomalyRulesLocked\<close>.\<close>

definition countAnomalyRulesIn ::
  "(string, StoredRule) gomap \<Rightarrow> (string, StoredCIDRRule) gomap \<Rightarrow> u64" where
  "countAnomalyRulesIn rs crs =
     foldl (\<lambda>n (_, r). if sc_MatchAnomaly r \<noteq> 0 then n + 1 else n)
       (foldl (\<lambda>n (_, r). if sr_MatchAnomaly r \<noteq> 0 then n + 1 else n) 0 rs) crs"

definition countAnomalyRulesLocked :: "('m, 'c, 't) Handlers \<Rightarrow> u64" where
  "countAnomalyRulesLocked h =
     foldl (\<lambda>count (_, r). if sc_MatchAnomaly r \<noteq> 0 then count + 1 else count)
       (foldl (\<lambda>count (_, r). if sr_MatchAnomaly r \<noteq> 0 then count + 1 else count) 0 (rules h))
       (cidrRules h)"

text \<open>Step 1 of a publish: copy the entries, an entry that cannot be read is skipped.\<close>

fun copy_entries :: "'c array_ops \<Rightarrow> 'c \<Rightarrow> nat list \<Rightarrow> 'c \<Rightarrow> publish_error option \<times> 'c" where
  "copy_entries A active [] shadow = (None, shadow)"
| "copy_entries A active (i # is) shadow =
     (case LookupArray A active (le32 (of_nat i)) of
        Some v \<Rightarrow>
          (let (ok, shadow') = UpdateExist A shadow (le32 (of_nat i)) v
           in if ok then copy_entries A active is shadow' else (Some (CopyFailed i), shadow'))
      | None \<Rightarrow> copy_entries A active is shadow)"

text \<open>
  A count entry plus a delta, in 64-bit arithmetic, clamped at 0; nothing is written for a zero
  delta.
\<close>

definition bump_count :: "'c array_ops \<Rightarrow> nat \<Rightarrow> int \<Rightarrow> 'c \<Rightarrow> publish_error option \<times> 'c" where
  "bump_count A idx delta shadow =
     (if delta = 0 then (None, shadow)
      else
        let currentCount = (case LookupArray A shadow (le32 (of_nat idx)) of
                              Some v \<Rightarrow> le_read v | None \<Rightarrow> (0 :: u64));
            newCount = currentCount + of_int delta;
            newCount = (if sint newCount < 0 then 0 else newCount)
        in cfg_put A idx newCount shadow)"

text \<open>Step 3: the selector is written, then the agent remembers the new slot.\<close>

definition switch_slot ::
  "('m, 'c, 't) kernel \<Rightarrow> ('m, 'c, 't) Handlers \<Rightarrow> publish_error option \<times> ('m, 'c, 't) Handlers" where
  "switch_slot K h =
     (let newSlot = 1 - activeSlot h;
          (ok, ac) = UpdateExist (arr K) (activeConfig h) (le32 0) (le64 (of_int newSlot))
      in if ok then (None, h\<lparr>activeConfig := ac, activeSlot := newSlot\<rparr>)
         else (Some SwitchFailed, h\<lparr>activeConfig := ac\<rparr>))"

definition publishConfigUpdate ::
  "('m, 'c, 't) kernel \<Rightarrow> int \<Rightarrow> int \<Rightarrow> int \<Rightarrow> ('m, 'c, 't) Handlers \<Rightarrow>
   publish_error option \<times> ('m, 'c, 't) Handlers" where
  "publishConfigUpdate K countDelta wlCountDelta cidrCountDelta h =
     (let A = arr K;
          bitmap = combo_bitmap (comboRefCount h);
          wlBitmap = combo_bitmap (wlComboRefCount h);
          cidrBitmap = combo_bitmap (cidrComboRefCount h);
          (e, shadow) =
            and_then (copy_entries A (activeMap h) [0..<ConfigMapEntries] (shadowMap h)) (\<lambda>c.
            and_then (cfg_put A ConfigRuleBitmap bitmap c) (\<lambda>c.
            and_then (cfg_put A ConfigWLBitmap wlBitmap c) (\<lambda>c.
            and_then (cfg_put A ConfigWLMapSelector (of_int (activeWLSlot h)) c) (\<lambda>c.
            and_then (bump_count A ConfigBlacklistCount countDelta c) (\<lambda>c.
            and_then (bump_count A ConfigWhitelistCount wlCountDelta c) (\<lambda>c.
            and_then (cfg_put A ConfigCIDRBitmap cidrBitmap c) (\<lambda>c.
            and_then (bump_count A ConfigCIDRRuleCount cidrCountDelta c) (\<lambda>c.
              cfg_put A ConfigAnomalyRuleCount (countAnomalyRulesLocked h) c))))))));
          h' = set_shadowMap shadow h
      in case e of
           Some err \<Rightarrow> (Some err, h')
         | None \<Rightarrow> switch_slot K h')"

definition publishConfigUpdateForWLSync ::
  "('m, 'c, 't) kernel \<Rightarrow> u64 \<Rightarrow> int list \<Rightarrow> ('m, 'c, 't) Handlers \<Rightarrow>
   publish_error option \<times> ('m, 'c, 't) Handlers" where
  "publishConfigUpdateForWLSync K wlAbsoluteCount newWLComboRefCount h =
     (let A = arr K;
          wlBitmap = combo_bitmap newWLComboRefCount;
          (e, shadow) =
            and_then (copy_entries A (activeMap h) [0..<ConfigMapEntries] (shadowMap h)) (\<lambda>c.
            and_then (cfg_put A ConfigWhitelistCount wlAbsoluteCount c) (\<lambda>c.
            and_then (cfg_put A ConfigWLBitmap wlBitmap c) (\<lambda>c.
              cfg_put A ConfigWLMapSelector (of_int (activeWLSlot h)) c)));
          h' = set_shadowMap shadow h
      in case e of
           Some err \<Rightarrow> (Some err, h')
         | None \<Rightarrow> switch_slot K h')"

section \<open>What a publish does\<close>

text \<open>The value of a config entry, and the entries the BPF program reads.\<close>

definition cfg_get :: "('c \<Rightarrow> bytes \<Rightarrow> bytes) \<Rightarrow> 'c \<Rightarrow> nat \<Rightarrow> u64" where
  "cfg_get get c i = le_read (get c (le32 (of_nat i)))"

definition published :: "('c \<Rightarrow> bytes \<Rightarrow> bytes) \<Rightarrow> ('m, 'c, 't) Handlers \<Rightarrow> nat \<Rightarrow> u64" where
  "published get h i = cfg_get get (activeMap h) i"

text \<open>The program follows the selector; the agent's slot agrees with it.\<close>

definition slot_ok :: "('c \<Rightarrow> bytes \<Rightarrow> bytes) \<Rightarrow> ('m, 'c, 't) Handlers \<Rightarrow> bool" where
  "slot_ok get h \<longleftrightarrow> (activeSlot h = 0 \<or> activeSlot h = 1) \<and>
     cfg_get get (activeConfig h) 0 = of_int (activeSlot h)"

lemma le32_index_eq: "i < 12 \<Longrightarrow> j < 12 \<Longrightarrow> le32 (of_nat i) = le32 (of_nat j) \<longleftrightarrow> i = j"
  by (simp add: word_unat_eq_iff unsigned_of_nat take_bit_nat_eq_self)

lemma cfg_put_ok:
  assumes "array_laws A get" "cfg_put A i v c = (None, c')" "i < 12"
  shows "\<forall>j < 12. cfg_get get c' j = (if j = i then v else cfg_get get c j)"
proof -
  have "get c' = (get c)(le32 (of_nat i) := le64 v)"
    using assms(2) array_lawsD(1) [OF assms(1)] by (auto simp: cfg_put_def split: prod.splits if_splits)
  then show ?thesis using assms(3) by (auto simp: cfg_get_def le32_index_eq simp del: le_inject)
qed

lemma bump_count_ok:
  assumes "array_laws A get" "bump_count A i d c = (None, c')" "i < 12"
  shows "\<forall>j < 12. cfg_get get c' j =
    (if j = i \<and> d \<noteq> 0 then (let n = cfg_get get c i + of_int d in if sint n < 0 then 0 else n)
     else cfg_get get c j)"
proof (cases "d = 0")
  case True
  with assms(2) show ?thesis by (simp add: bump_count_def)
next
  case False
  with assms have "cfg_put A i (let n = cfg_get get c i + of_int d in if sint n < 0 then 0 else n) c = (None, c')"
    by (simp add: bump_count_def Let_def array_lawsD(3) cfg_get_def)
  from cfg_put_ok [OF assms(1) this assms(3)] False show ?thesis by simp
qed

lemma copy_entries_ok:
  assumes "array_laws A get" "copy_entries A a is c = (None, c')" "\<forall>i \<in> set is. i < 12"
  shows "\<forall>j < 12. cfg_get get c' j = (if j \<in> set is then cfg_get get a j else cfg_get get c j)"
  using assms(2,3)
proof (induction "is" arbitrary: c)
  case (Cons i "is")
  obtain c1 where u: "UpdateExist A c (le32 (of_nat i)) (get a (le32 (of_nat i))) = (True, c1)"
    and r: "copy_entries A a is c1 = (None, c')"
    using Cons.prems(1) array_lawsD(3) [OF assms(1)] by (auto split: prod.splits if_splits)
  have "get c1 = (get c)(le32 (of_nat i) := get a (le32 (of_nat i)))" using array_lawsD(1) [OF assms(1) u] .
  then have "\<forall>j < 12. cfg_get get c1 j = (if j = i then cfg_get get a i else cfg_get get c j)"
    using Cons.prems(2) by (auto simp: cfg_get_def le32_index_eq simp del: le_inject)
  with Cons.IH [OF r] Cons.prems(2) show ?case by auto
qed simp

definition bumped :: "u64 \<Rightarrow> int \<Rightarrow> u64" where
  "bumped old delta =
     (if delta = 0 then old else let n = old + of_int delta in if sint n < 0 then 0 else n)"

text \<open>The entries a publish is meant to produce, from the state and the old entries.\<close>

definition intended_entry ::
  "('m, 'c, 't) Handlers \<Rightarrow> int \<Rightarrow> int \<Rightarrow> int \<Rightarrow> (nat \<Rightarrow> u64) \<Rightarrow> nat \<Rightarrow> u64" where
  "intended_entry h d wd cd old j =
     (if j = ConfigBlacklistCount then bumped (old j) d
      else if j = ConfigWhitelistCount then bumped (old j) wd
      else if j = ConfigRuleBitmap then combo_bitmap (comboRefCount h)
      else if j = ConfigWLBitmap then combo_bitmap (wlComboRefCount h)
      else if j = ConfigCIDRRuleCount then bumped (old j) cd
      else if j = ConfigCIDRBitmap then combo_bitmap (cidrComboRefCount h)
      else if j = ConfigWLMapSelector then of_int (activeWLSlot h)
      else if j = ConfigAnomalyRuleCount then countAnomalyRulesLocked h
      else old j)"

definition intended_wl_entry ::
  "('m, 'c, 't) Handlers \<Rightarrow> u64 \<Rightarrow> int list \<Rightarrow> (nat \<Rightarrow> u64) \<Rightarrow> nat \<Rightarrow> u64" where
  "intended_wl_entry h cnt refs old j =
     (if j = ConfigWhitelistCount then cnt
      else if j = ConfigWLBitmap then combo_bitmap refs
      else if j = ConfigWLMapSelector then of_int (activeWLSlot h)
      else old j)"

text \<open>Two states that differ at most in the config arrays and the slot.\<close>

definition same_but_config :: "('m, 'c, 't) Handlers \<Rightarrow> ('m, 'c, 't) Handlers \<Rightarrow> bool" where
  "same_but_config h h' \<longleftrightarrow>
     h' = h\<lparr>configA := configA h', configB := configB h', activeConfig := activeConfig h',
            activeSlot := activeSlot h'\<rparr>"

lemma same_but_config_shadow: "same_but_config h (set_shadowMap c h)"
  by (simp add: same_but_config_def set_shadowMap_def)

lemma same_but_config_fields:
  assumes "same_but_config h h'"
  shows "blacklist h' = blacklist h" "blacklistB h' = blacklistB h" "whitelist h' = whitelist h"
    "whitelistB h' = whitelistB h" "rlStates h' = rlStates h" "activeRuleSlot h' = activeRuleSlot h"
    "activeWLSlot h' = activeWLSlot h" "wlComboRefCount h' = wlComboRefCount h" "rules h' = rules h"
    "ruleKeyIndex h' = ruleKeyIndex h" "wlEntries h' = wlEntries h" "wlKeyIndex h' = wlKeyIndex h"
    "lastRuleDropCount h' = lastRuleDropCount h" "lastRuleStatsTime h' = lastRuleStatsTime h"
    "comboRefCount h' = comboRefCount h" "cidrBlacklist h' = cidrBlacklist h"
    "cidrBlacklistB h' = cidrBlacklistB h" "cidrRlStates h' = cidrRlStates h" "cidrMgr h' = cidrMgr h"
    "cidrRules h' = cidrRules h" "cidrRuleKeyIndex h' = cidrRuleKeyIndex h"
    "cidrComboRefCount h' = cidrComboRefCount h"
  by (subst assms [unfolded same_but_config_def]; simp)+

lemma switch_slot_cases:
  assumes "array_laws (arr K) get" "slot_ok get h" "switch_slot K (set_shadowMap c h) = (e, h')"
  shows "same_but_config h h' \<and> slot_ok get h' \<and>
    (\<forall>j. published get h' j = (if e = None then cfg_get get c j else published get h j))"
proof -
  obtain ok ac where u: "UpdateExist (arr K) (activeConfig (set_shadowMap c h)) (le32 0)
      (le64 (of_int (1 - activeSlot h))) = (ok, ac)" by force
  have sl: "activeSlot (set_shadowMap c h) = activeSlot h" "activeConfig (set_shadowMap c h) = activeConfig h"
    by (simp_all add: set_shadowMap_def)
  have h': "h' = (set_shadowMap c h)\<lparr>activeConfig := ac, activeSlot := if ok then 1 - activeSlot h else activeSlot h\<rparr>"
    and e: "e = (if ok then None else Some SwitchFailed)"
    using assms(3) u sl by (auto simp: switch_slot_def Let_def)
  have ac: "get ac = (if ok then (get (activeConfig h))(le32 0 := le64 (of_int (1 - activeSlot h)))
      else get (activeConfig h))"
    using array_lawsD(1,2) [OF assms(1)] u sl by (cases ok) auto
  have "slot_ok get h'"
    using assms(2) ac by (auto simp: slot_ok_def h' cfg_get_def)
  moreover have "same_but_config h h'" by (simp add: h' same_but_config_def set_shadowMap_def)
  moreover have "published get h' j = (if e = None then cfg_get get c j else published get h j)" for j
    using assms(2) by (auto simp: h' e published_def activeMap_def set_shadowMap_def slot_ok_def)
  ultimately show ?thesis by blast
qed

lemma shadow_failed:
  "slot_ok get h \<Longrightarrow> slot_ok get (set_shadowMap c h) \<and> published get (set_shadowMap c h) j = published get h j"
  by (auto simp: slot_ok_def published_def activeMap_def set_shadowMap_def)

text \<open>The result of a publish: all or nothing.\<close>

lemma publish_result:
  assumes A: "array_laws (arr K) get" and "slot_ok get h"
    and p: "publishConfigUpdate K d wd cd h = (e, h')"
  shows "same_but_config h h' \<and> slot_ok get h' \<and>
    (\<forall>j < 12. published get h' j =
      (if e = None then intended_entry h d wd cd (published get h) j else published get h j))"
proof -
  let ?A = "arr K"
  define f where "f = and_then (copy_entries ?A (activeMap h) [0..<12] (shadowMap h)) (\<lambda>c.
    and_then (cfg_put ?A 2 (combo_bitmap (comboRefCount h)) c) (\<lambda>c.
    and_then (cfg_put ?A 3 (combo_bitmap (wlComboRefCount h)) c) (\<lambda>c.
    and_then (cfg_put ?A 8 (of_int (activeWLSlot h)) c) (\<lambda>c.
    and_then (bump_count ?A 0 d c) (\<lambda>c. and_then (bump_count ?A 1 wd c) (\<lambda>c.
    and_then (cfg_put ?A 7 (combo_bitmap (cidrComboRefCount h)) c) (\<lambda>c.
    and_then (bump_count ?A 6 cd c) (\<lambda>c. cfg_put ?A 10 (countAnomalyRulesLocked h) c))))))))"
  obtain e1 c where f: "f = (e1, c)" by force
  have pe: "(e, h') = (case e1 of Some err \<Rightarrow> (Some err, set_shadowMap c h)
      | None \<Rightarrow> switch_slot K (set_shadowMap c h))"
    using p f by (simp add: publishConfigUpdate_def Let_def f_def)
  show ?thesis
  proof (cases e1)
    case (Some err)
    with pe shadow_failed [OF assms(2), of c] same_but_config_shadow [of h c] show ?thesis by simp
  next
    case None
    then obtain c1 c2 c3 c4 c5 c6 c7 c8 where
      s: "copy_entries ?A (activeMap h) [0..<12] (shadowMap h) = (None, c1)"
      "cfg_put ?A 2 (combo_bitmap (comboRefCount h)) c1 = (None, c2)"
      "cfg_put ?A 3 (combo_bitmap (wlComboRefCount h)) c2 = (None, c3)"
      "cfg_put ?A 8 (of_int (activeWLSlot h)) c3 = (None, c4)"
      "bump_count ?A 0 d c4 = (None, c5)" "bump_count ?A 1 wd c5 = (None, c6)"
      "cfg_put ?A 7 (combo_bitmap (cidrComboRefCount h)) c6 = (None, c7)"
      "bump_count ?A 6 cd c7 = (None, c8)" "cfg_put ?A 10 (countAnomalyRulesLocked h) c8 = (None, c)"
      using f unfolding f_def by (auto simp: and_then_None)
    have 1: "\<forall>j < 12. cfg_get get c1 j = published get h j"
      using copy_entries_ok [OF A s(1)] by (simp add: published_def)
    note 2 = cfg_put_ok [OF A s(2)] and 3 = cfg_put_ok [OF A s(3)] and 4 = cfg_put_ok [OF A s(4)]
      and 5 = bump_count_ok [OF A s(5)] and 6 = bump_count_ok [OF A s(6)]
      and 7 = cfg_put_ok [OF A s(7)] and 8 = bump_count_ok [OF A s(8)] and 9 = cfg_put_ok [OF A s(9)]
    have "cfg_get get c j = intended_entry h d wd cd (published get h) j" if "j < 12" for j
      using that 1 2 3 4 5 6 7 8 9 by (simp add: intended_entry_def bumped_def Let_def)
    moreover have "switch_slot K (set_shadowMap c h) = (e, h')" using pe None by simp
    ultimately show ?thesis using switch_slot_cases [OF A assms(2), of c e h'] by (cases e) auto
  qed
qed

lemma publish_wl_result:
  assumes A: "array_laws (arr K) get" and "slot_ok get h"
    and p: "publishConfigUpdateForWLSync K cnt refs h = (e, h')"
  shows "same_but_config h h' \<and> slot_ok get h' \<and>
    (\<forall>j < 12. published get h' j =
      (if e = None then intended_wl_entry h cnt refs (published get h) j else published get h j))"
proof -
  let ?A = "arr K"
  define f where "f = and_then (copy_entries ?A (activeMap h) [0..<12] (shadowMap h)) (\<lambda>c.
    and_then (cfg_put ?A 1 cnt c) (\<lambda>c. and_then (cfg_put ?A 3 (combo_bitmap refs) c) (\<lambda>c.
      cfg_put ?A 8 (of_int (activeWLSlot h)) c)))"
  obtain e1 c where f: "f = (e1, c)" by force
  have pe: "(e, h') = (case e1 of Some err \<Rightarrow> (Some err, set_shadowMap c h)
      | None \<Rightarrow> switch_slot K (set_shadowMap c h))"
    using p f by (simp add: publishConfigUpdateForWLSync_def Let_def f_def)
  show ?thesis
  proof (cases e1)
    case (Some err)
    with pe shadow_failed [OF assms(2), of c] same_but_config_shadow [of h c] show ?thesis by simp
  next
    case None
    then obtain c1 c2 c3 where
      s: "copy_entries ?A (activeMap h) [0..<12] (shadowMap h) = (None, c1)"
      "cfg_put ?A 1 cnt c1 = (None, c2)" "cfg_put ?A 3 (combo_bitmap refs) c2 = (None, c3)"
      "cfg_put ?A 8 (of_int (activeWLSlot h)) c3 = (None, c)"
      using f unfolding f_def by (auto simp: and_then_None)
    have 1: "\<forall>j < 12. cfg_get get c1 j = published get h j"
      using copy_entries_ok [OF A s(1)] by (simp add: published_def)
    note 2 = cfg_put_ok [OF A s(2)] and 3 = cfg_put_ok [OF A s(3)] and 4 = cfg_put_ok [OF A s(4)]
    have "cfg_get get c j = intended_wl_entry h cnt refs (published get h) j" if "j < 12" for j
      using that 1 2 3 4 by (simp add: intended_wl_entry_def)
    moreover have "switch_slot K (set_shadowMap c h) = (e, h')" using pe None by simp
    ultimately show ?thesis using switch_slot_cases [OF A assms(2), of c e h'] by (cases e) auto
  qed
qed

lemma publish_frame:
  assumes "publishConfigUpdate K d wd cd h = (e, h')"
  shows "same_but_config h h'"
proof -
  have sw: "same_but_config h h'" if "switch_slot K (set_shadowMap c h) = (e, h')" for c
    using that by (auto simp: switch_slot_def Let_def same_but_config_def set_shadowMap_def
        split: prod.splits if_splits)
  obtain e1 c where "(case e1 of Some err \<Rightarrow> (Some err, set_shadowMap c h)
      | None \<Rightarrow> switch_slot K (set_shadowMap c h)) = (e, h')"
    using assms unfolding publishConfigUpdate_def Let_def by (metis (no_types, lifting) case_prod_beta)
  then show ?thesis using sw same_but_config_shadow by (cases e1) auto
qed

lemma publish_wl_frame:
  assumes "publishConfigUpdateForWLSync K cnt refs h = (e, h')"
  shows "same_but_config h h'"
proof -
  have sw: "same_but_config h h'" if "switch_slot K (set_shadowMap c h) = (e, h')" for c
    using that by (auto simp: switch_slot_def Let_def same_but_config_def set_shadowMap_def
        split: prod.splits if_splits)
  obtain e1 c where "(case e1 of Some err \<Rightarrow> (Some err, set_shadowMap c h)
      | None \<Rightarrow> switch_slot K (set_shadowMap c h)) = (e, h')"
    using assms unfolding publishConfigUpdateForWLSync_def Let_def by (metis (no_types, lifting) case_prod_beta)
  then show ?thesis using sw same_but_config_shadow by (cases e1) auto
qed

lemma foldl_count: "foldl (\<lambda>n (_, r). if P r then n + 1 else n) (a :: u64) xs = a + of_nat (count_if (\<lambda>_. P) xs)"
  by (induction xs arbitrary: a) (auto simp: add.assoc)

lemma countAnomalyRulesLocked_eq:
  "countAnomalyRulesLocked h =
     of_nat (count_if (\<lambda>_ r. sr_MatchAnomaly r \<noteq> 0) (rules h) + count_if (\<lambda>_ r. sc_MatchAnomaly r \<noteq> 0) (cidrRules h))"
  by (simp add: countAnomalyRulesLocked_def foldl_count)

section \<open>Properties\<close>

text \<open>
  C37. Publishing is all or nothing: on success the entries the program reads are exactly the
  intended ones (the three bitmaps rebuilt from the reference counts, the counts moved by their
  deltas and clamped at 0, the anomaly count recomputed, the whitelist selector, all other entries
  unchanged); on failure at any step no entry the program reads has changed. Either way the selector
  agrees with the agent's slot and nothing but the config arrays is touched.
\<close>

theorem publish_all_or_nothing:
  assumes "array_laws (arr K) get" and "slot_ok get h"
    and "publishConfigUpdate K d wd cd h = (e, h')"
  shows "same_but_config h h' \<and> slot_ok get h' \<and>
    (\<forall>j < 12. published get h' j =
      (if e = None then intended_entry h d wd cd (published get h) j else published get h j))"
  by (rule publish_result [OF assms])

text \<open>
  The publish of a whitelist sync is all or nothing too, and on success it changes the
  whitelist's three entries only.
\<close>

theorem publish_wl_all_or_nothing:
  assumes "array_laws (arr K) get" and "slot_ok get h"
    and "publishConfigUpdateForWLSync K cnt refs h = (e, h')"
  shows "same_but_config h h' \<and> slot_ok get h' \<and>
    (\<forall>j < 12. published get h' j =
      (if e = None then intended_wl_entry h cnt refs (published get h) j else published get h j))"
  by (rule publish_wl_result [OF assms])

section \<open>Witnesses\<close>

definition sample_kernel :: "(fmap, fmap, (trie_key \<times> u32) list) kernel" where
  "sample_kernel = \<lparr>hash = list_hash, arr = list_array, trie = list_trie\<rparr>"

text \<open>An empty agent; \<open>fa\<close> and \<open>fb\<close> are the fault scripts of the config arrays.\<close>

definition empty_handlers :: "bool list \<Rightarrow> bool list \<Rightarrow> (fmap, fmap, (trie_key \<times> u32) list) Handlers" where
  "empty_handlers fa fb =
     \<lparr>blacklist = ([], []), blacklistB = ([], []), whitelist = ([], []), whitelistB = ([], []),
      rlStates = Some ([], []), configA = ([], fa), configB = ([], fb), activeConfig = ([], []),
      activeSlot = 0, activeRuleSlot = 0, activeWLSlot = 0, wlComboRefCount = zero64, rules = [],
      ruleKeyIndex = [], wlEntries = [], wlKeyIndex = [], lastRuleDropCount = [],
      lastRuleStatsTime = [], comboRefCount = zero64, cidrBlacklist = ([], []),
      cidrBlacklistB = ([], []), cidrRlStates = None, cidrMgr = NewManager [] [] [] [],
      cidrRules = [], cidrRuleKeyIndex = [], cidrComboRefCount = zero64\<rparr>"

lemma sample_array_laws: "array_laws (arr sample_kernel) farray_get"
  by (simp add: sample_kernel_def list_array_laws)

lemma sample_slot_ok: "slot_ok farray_get (empty_handlers fa fb)"
  by (simp add: slot_ok_def empty_handlers_def cfg_get_def farray_get_def numeral_eq_Suc)

theorem publish_all_or_nothing_witness:
  "published farray_get (snd (publishConfigUpdate sample_kernel 1 0 0 (empty_handlers [] [False, True]))) 2 =
     published farray_get (empty_handlers [] [False, True]) 2"
proof -
  let ?h = "empty_handlers [] [False, True]"
  obtain e h' where p: "publishConfigUpdate sample_kernel 1 0 0 ?h = (e, h')" by force
  have "fst (publishConfigUpdate sample_kernel 1 0 0 ?h) \<noteq> None"
    by (simp add: publishConfigUpdate_def sample_kernel_def empty_handlers_def activeMap_def shadowMap_def
        list_array_def faulty_def upt_rec Let_def)
  then show ?thesis
    using publish_all_or_nothing [OF sample_array_laws sample_slot_ok p] p by auto
qed

theorem publish_wl_all_or_nothing_witness:
  "slot_ok farray_get (snd (publishConfigUpdateForWLSync sample_kernel 3 zero64 (empty_handlers [] [])))"
proof -
  obtain e h' where p: "publishConfigUpdateForWLSync sample_kernel 3 zero64 (empty_handlers [] []) = (e, h')" by force
  then show ?thesis
    using publish_wl_all_or_nothing [OF sample_array_laws sample_slot_ok p] by simp
qed

end
