(* ===== verification/RuleTable.thy ===== *)
theory RuleTable
  imports BpfMaps "HOL-Library.Multiset"
begin

text \<open>
  The agent keeps three tables of the same shape (exact rules, CIDR rules, whitelist): a map from
  IDs to stored rules, a reverse index from keys to IDs, and a reference count per combo from which
  the published bitmap is built. This theory has the consistency of such a table as a predicate
  over the three Go values, the effect of the two memory updates the handlers make on it, the
  contract \<open>rule_table\<close> the handlers rely on, and its extension \<open>mirrored_table\<close> for the BPF map
  that holds the table.
\<close>

section \<open>Reference counts\<close>

text \<open>
  \<^verbatim>\<open>if combo >= 0 && combo < 64 { refs[combo]++ }\<close> and the decrement.
\<close>

definition refs_inc :: "int \<Rightarrow> int list \<Rightarrow> int list" where
  "refs_inc c refs = (if 0 \<le> c \<and> c < 64 then refs[nat c := refs ! nat c + 1] else refs)"

definition refs_dec :: "int \<Rightarrow> int list \<Rightarrow> int list" where
  "refs_dec c refs = (if 0 \<le> c \<and> c < 64 then refs[nat c := refs ! nat c - 1] else refs)"

lemma length_refs [simp]:
  "length (refs_inc c refs) = length refs" "length (refs_dec c refs) = length refs"
  by (simp_all add: refs_inc_def refs_dec_def)

lemma refs_inc_nth:
  "i < 64 \<Longrightarrow> length refs = 64 \<Longrightarrow> refs_inc c refs ! i = refs ! i + (if c = int i then 1 else 0)"
  by (auto simp: refs_inc_def nth_list_update)

lemma refs_dec_nth:
  "i < 64 \<Longrightarrow> length refs = 64 \<Longrightarrow> refs_dec c refs ! i = refs ! i - (if c = int i then 1 else 0)"
  by (auto simp: refs_dec_def nth_list_update)

lemma refs_dec_inc: "length refs = 64 \<Longrightarrow> refs_dec c (refs_inc c refs) = refs"
  by (rule nth_equalityI) (auto simp: refs_inc_nth refs_dec_nth)

section \<open>Consistency of a table\<close>

definition tbl_inv ::
  "('s \<Rightarrow> 'k) \<Rightarrow> ('k \<Rightarrow> int) \<Rightarrow> ('k \<Rightarrow> bool) \<Rightarrow> (string, 's) gomap \<Rightarrow> ('k, string) gomap \<Rightarrow> int list \<Rightarrow> bool" where
  "tbl_inv key combo wfk rs ix refs \<longleftrightarrow> is_gomap rs \<and> is_gomap ix \<and> length refs = 64 \<and>
     (\<forall>k rid. map_of ix k = Some rid \<longleftrightarrow> (\<exists>s. map_of rs rid = Some s \<and> key s = k)) \<and>
     (\<forall>i < 64. refs ! i = int (count_if (\<lambda>_ s. combo (key s) = int i) rs)) \<and>
     (\<forall>rid s. map_of rs rid = Some s \<longrightarrow> wfk (key s) \<and> 0 \<le> combo (key s) \<and> combo (key s) < 64)"

lemma tbl_invD:
  assumes "tbl_inv key combo wfk rs ix refs"
  shows "is_gomap rs" "is_gomap ix" "length refs = 64"
    "map_of ix k = Some rid \<longleftrightarrow> (\<exists>s. map_of rs rid = Some s \<and> key s = k)"
    "i < 64 \<Longrightarrow> refs ! i = int (count_if (\<lambda>_ s. combo (key s) = int i) rs)"
    "map_of rs rid = Some s \<Longrightarrow> wfk (key s)" "map_of rs rid = Some s \<Longrightarrow> 0 \<le> combo (key s)"
    "map_of rs rid = Some s \<Longrightarrow> combo (key s) < 64"
  using assms unfolding tbl_inv_def by blast+

lemma tbl_inv_empty: "tbl_inv key combo wfk [] [] zero64"
  by (simp add: tbl_inv_def zero64_def count_if_def)

lemma tbl_inv_index: "tbl_inv key combo wfk rs ix refs \<Longrightarrow> map_of rs rid = Some s \<Longrightarrow> map_of ix (key s) = Some rid"
  using tbl_invD(4) [of key combo wfk rs ix refs "key s" rid] by blast

text \<open>No two IDs share a key.\<close>

lemma tbl_inv_key_inj:
  "tbl_inv key combo wfk rs ix refs \<Longrightarrow> map_of rs a = Some s \<Longrightarrow> map_of rs b = Some t \<Longrightarrow> key s = key t \<Longrightarrow> a = b"
  by (metis tbl_inv_index option.inject)

text \<open>The bitmap built from the counts has the bits of the combos in use, and only those.\<close>

lemma tbl_bitmap:
  assumes "tbl_inv key combo wfk rs ix refs"
  shows "bit (combo_bitmap refs) c \<longleftrightarrow> c < 64 \<and> (\<exists>rid s. map_of rs rid = Some s \<and> combo (key s) = int c)"
proof -
  have "0 < refs ! c \<longleftrightarrow> (\<exists>rid s. map_of rs rid = Some s \<and> combo (key s) = int c)" if "c < 64"
  proof -
    have "0 < refs ! c \<longleftrightarrow> count_if (\<lambda>_ s. combo (key s) = int c) rs \<noteq> 0"
      using tbl_invD(5) [OF assms that] by simp
    also have "\<dots> \<longleftrightarrow> (\<exists>rid s. map_of rs rid = Some s \<and> combo (key s) = int c)"
      using set_gomap [OF tbl_invD(1) [OF assms]] by (auto simp: count_if_eq_0_iff)
    finally show ?thesis .
  qed
  then show ?thesis using bit_combo_bitmap [OF tbl_invD(3) [OF assms]] by blast
qed

section \<open>Updates\<close>

text \<open>Removing an entry.\<close>

lemma tbl_drop:
  assumes t: "tbl_inv key combo wfk rs ix refs" and s: "map_of rs rid = Some s"
  shows "tbl_inv key combo wfk (AList.delete rid rs) (AList.delete (key s) ix) (refs_dec (combo (key s)) refs)"
proof -
  note D = tbl_invD [OF t]
  have ix: "map_of (AList.delete (key s) ix) k = Some r \<longleftrightarrow>
      (\<exists>s'. map_of (AList.delete rid rs) r = Some s' \<and> key s' = k)" for k r
  proof (cases "k = key s")
    case True
    then have "key s' \<noteq> k" if "map_of rs r = Some s'" "r \<noteq> rid" for s'
      using tbl_inv_key_inj [OF t s that(1)] that(2) by metis
    with True show ?thesis by (auto split: if_splits)
  next
    case False
    then have "map_of ix k \<noteq> Some rid" using D(4) [of k rid] s by simp
    with False show ?thesis by (simp add: D(4) [of k r]) (metis D(4) option.inject s)
  qed
  have refs: "refs_dec (combo (key s)) refs ! i =
      int (count_if (\<lambda>_ s. combo (key s) = int i) (AList.delete rid rs))" if "i < 64" for i
  proof -
    have "combo (key s) = int i \<Longrightarrow> 0 < count_if (\<lambda>_ s. combo (key s) = int i) rs"
      using s by (rule count_if_pos)
    then show ?thesis
      using D(5) [OF that] refs_dec_nth [OF that D(3)] count_if_delete [OF D(1), of _ rid] s by auto
  qed
  show ?thesis
    unfolding tbl_inv_def using D ix refs by (auto split: if_splits)
qed

text \<open>Adding an entry under an ID that has none, with a key nobody owns.\<close>

lemma tbl_add:
  assumes t: "tbl_inv key combo wfk rs ix refs" and none: "map_of rs rid = None" "map_of ix (key s) = None"
    and ok: "wfk (key s)" "0 \<le> combo (key s)" "combo (key s) < 64"
  shows "tbl_inv key combo wfk (AList.update rid s rs) (AList.update (key s) rid ix) (refs_inc (combo (key s)) refs)"
proof -
  note D = tbl_invD [OF t]
  have ix: "map_of (AList.update (key s) rid ix) k = Some r \<longleftrightarrow>
      (\<exists>s'. map_of (AList.update rid s rs) r = Some s' \<and> key s' = k)" for k r
    using D(4) [of k r] none D(4) [of "key s" r] by auto
  have refs: "refs_inc (combo (key s)) refs ! i =
      int (count_if (\<lambda>_ s. combo (key s) = int i) (AList.update rid s rs))" if "i < 64" for i
    using D(5) [OF that] refs_inc_nth [OF that D(3)] count_if_update [OF D(1), of _ rid s] none(1) by simp
  show ?thesis
    unfolding tbl_inv_def using D ix refs ok by (auto split: if_splits)
qed

text \<open>
  The update of the add handlers: what the ID held before is taken out of the counts and the index,
  then the new entry is put in.
\<close>

definition put_refs :: "('s \<Rightarrow> 'k) \<Rightarrow> ('k \<Rightarrow> int) \<Rightarrow> 's option \<Rightarrow> 's \<Rightarrow> int list \<Rightarrow> int list" where
  "put_refs key combo old s refs =
     refs_inc (combo (key s)) (case old of Some old \<Rightarrow> refs_dec (combo (key old)) refs | None \<Rightarrow> refs)"

definition put_index :: "('s \<Rightarrow> 'k) \<Rightarrow> 's option \<Rightarrow> string \<Rightarrow> 's \<Rightarrow> ('k, string) gomap \<Rightarrow> ('k, string) gomap" where
  "put_index key old rid s ix =
     AList.update (key s) rid (case old of Some old \<Rightarrow> AList.delete (key old) ix | None \<Rightarrow> ix)"

lemma update_delete_same: "map_of (AList.update k v (AList.delete k m)) = map_of (AList.update k v m)"
  by simp

lemma count_if_same_map:
  assumes "is_gomap a" "is_gomap b" "map_of a = map_of b"
  shows "count_if P a = count_if P b"
proof -
  have "set a = set b"
    using set_gomap [OF assms(1)] set_gomap [OF assms(2)] assms(3) by auto
  moreover have "distinct a" "distinct b" using assms(1,2) by (auto simp: distinct_map)
  ultimately have "mset a = mset b" by (simp add: set_eq_iff_mset_eq_distinct)
  then show ?thesis unfolding count_if_def by (metis mset_filter size_mset)
qed

lemma tbl_inv_cong:
  assumes "tbl_inv key combo wfk rs ix refs" "is_gomap rs'" "map_of rs' = map_of rs"
  shows "tbl_inv key combo wfk rs' ix refs"
proof -
  have "count_if P rs' = count_if P rs" for P
    using count_if_same_map [OF assms(2) tbl_invD(1) [OF assms(1)] assms(3)] .
  with assms show ?thesis by (simp add: tbl_inv_def)
qed

lemma tbl_put:
  assumes t: "tbl_inv key combo wfk rs ix refs"
    and own: "map_of ix (key s) = None \<or> map_of ix (key s) = Some rid"
    and ok: "wfk (key s)" "0 \<le> combo (key s)" "combo (key s) < 64"
  shows "tbl_inv key combo wfk (AList.update rid s rs) (put_index key (map_of rs rid) rid s ix)
    (put_refs key combo (map_of rs rid) s refs)"
proof (cases "map_of rs rid")
  case None
  then have "map_of ix (key s) = None"
    using own tbl_invD(4) [OF t, of "key s" rid] by auto
  with tbl_add [OF t None _ ok] None show ?thesis by (simp add: put_index_def put_refs_def)
next
  case (Some old)
  note t1 = tbl_drop [OF t Some]
  have none: "map_of (AList.delete (key old) ix) (key s) = None"
    using own tbl_invD(4) [OF t, of "key s" rid] Some by auto
  have "tbl_inv key combo wfk (AList.update rid s (AList.delete rid rs)) (put_index key (Some old) rid s ix)
      (put_refs key combo (Some old) s refs)"
    using tbl_add [OF t1 _ none ok, of rid] by (simp add: put_index_def put_refs_def)
  from tbl_inv_cong [OF this, of "AList.update rid s rs"] tbl_invD(1) [OF t] Some
  show ?thesis by simp
qed

section \<open>The BPF map of a table\<close>

text \<open>
  \<open>image_of enc val R m\<close>: the content \<open>m\<close> of a BPF map is exactly the encoded table \<open>R\<close>.
\<close>

definition image_of ::
  "('s \<Rightarrow> bytes) \<Rightarrow> ('s \<Rightarrow> bytes) \<Rightarrow> (string \<Rightarrow> 's option) \<Rightarrow> (bytes \<Rightarrow> bytes option) \<Rightarrow> bool" where
  "image_of enc val R m \<longleftrightarrow>
     (\<forall>kb vb. m kb = Some vb \<longleftrightarrow> (\<exists>rid s. R rid = Some s \<and> kb = enc s \<and> vb = val s))"

definition enc_inj :: "('s \<Rightarrow> bytes) \<Rightarrow> (string \<Rightarrow> 's option) \<Rightarrow> bool" where
  "enc_inj enc R \<longleftrightarrow> (\<forall>a b s t. R a = Some s \<longrightarrow> R b = Some t \<longrightarrow> enc s = enc t \<longrightarrow> a = b)"

lemma image_ofD: "image_of enc val R m \<Longrightarrow> R rid = Some s \<Longrightarrow> m (enc s) = Some (val s)"
  by (auto simp: image_of_def)

lemma image_of_absent: "image_of enc val R m \<Longrightarrow> m kb = None \<longleftrightarrow> (\<forall>rid s. R rid = Some s \<longrightarrow> enc s \<noteq> kb)"
  unfolding image_of_def by (metis not_None_eq)

lemma image_of_empty: "image_of enc val Map.empty Map.empty"
  by (simp add: image_of_def)

lemma image_of_add:
  assumes "image_of enc val R m" "R rid = None" "m (enc s) = None"
  shows "image_of enc val (R(rid \<mapsto> s)) (m(enc s \<mapsto> val s))"
proof -
  have ab: "\<forall>r t. R r = Some t \<longrightarrow> enc t \<noteq> enc s" using assms image_of_absent by metis
  have "(m(enc s \<mapsto> val s)) kb = Some vb \<longleftrightarrow>
    (\<exists>r t. (R(rid \<mapsto> s)) r = Some t \<and> kb = enc t \<and> vb = val t)" for kb vb
  proof (cases "kb = enc s")
    case True
    then show ?thesis using ab by (auto split: if_splits) (metis ab)
  next
    case False
    then have "(m(enc s \<mapsto> val s)) kb = Some vb \<longleftrightarrow> (\<exists>r t. R r = Some t \<and> kb = enc t \<and> vb = val t)"
      using assms(1) by (simp add: image_of_def)
    also have "\<dots> \<longleftrightarrow> (\<exists>r t. (R(rid \<mapsto> s)) r = Some t \<and> kb = enc t \<and> vb = val t)"
      using False assms(2) by (metis fun_upd_apply option.distinct(1) option.inject)
    finally show ?thesis .
  qed
  then show ?thesis by (simp add: image_of_def)
qed

lemma image_of_drop:
  assumes "image_of enc val R m" "enc_inj enc R" "R rid = Some s"
  shows "image_of enc val (R(rid := None)) (m(enc s := None))"
proof -
  have u: "r = rid" if "R r = Some t" "enc t = enc s" for r t
    using assms(2,3) that unfolding enc_inj_def by blast
  have "(m(enc s := None)) kb = Some vb \<longleftrightarrow>
    (\<exists>r t. (R(rid := None)) r = Some t \<and> kb = enc t \<and> vb = val t)" for kb vb
  proof (cases "kb = enc s")
    case True
    then show ?thesis using u by (auto split: if_splits)
  next
    case False
    then have "(m(enc s := None)) kb = Some vb \<longleftrightarrow> (\<exists>r t. R r = Some t \<and> kb = enc t \<and> vb = val t)"
      using assms(1) by (simp add: image_of_def)
    also have "\<dots> \<longleftrightarrow> (\<exists>r t. (R(rid := None)) r = Some t \<and> kb = enc t \<and> vb = val t)"
      using False assms(3) by (metis fun_upd_apply option.distinct(1) option.inject)
    finally show ?thesis .
  qed
  then show ?thesis by (simp add: image_of_def)
qed

section \<open>The contract\<close>

text \<open>
  What the handlers rely on for each of the three tables of the agent's state \<open>'h\<close>: entries are put
  and dropped one at a time under the invariant, the bitmap marks exactly the combos in use, and a
  key belongs to one ID.
\<close>

locale rule_table =
  fixes entries :: "'h \<Rightarrow> string \<Rightarrow> 's option"
    and owner :: "'h \<Rightarrow> 'k \<Rightarrow> string option"
    and bitmap :: "'h \<Rightarrow> u64"
    and put :: "string \<Rightarrow> 's \<Rightarrow> 'h \<Rightarrow> 'h"
    and drop_entry :: "string \<Rightarrow> 's \<Rightarrow> 'h \<Rightarrow> 'h"
    and key :: "'s \<Rightarrow> 'k"
    and combo :: "'k \<Rightarrow> int"
    and valid :: "'k \<Rightarrow> bool"
    and inv :: "'h \<Rightarrow> bool"
  assumes owner_iff: "inv h \<Longrightarrow> owner h k = Some rid \<longleftrightarrow> (\<exists>s. entries h rid = Some s \<and> key s = k)"
    and bitmap_iff: "inv h \<Longrightarrow>
      bit (bitmap h) c \<longleftrightarrow> c < 64 \<and> (\<exists>rid s. entries h rid = Some s \<and> combo (key s) = int c)"
    and entry_ok: "inv h \<Longrightarrow> entries h rid = Some s \<Longrightarrow> valid (key s) \<and> 0 \<le> combo (key s) \<and> combo (key s) < 64"
    and put_entries: "entries (put rid s h) = (entries h)(rid \<mapsto> s)"
    and put_inv: "inv h \<Longrightarrow> owner h (key s) = None \<or> owner h (key s) = Some rid \<Longrightarrow> valid (key s) \<Longrightarrow>
      0 \<le> combo (key s) \<Longrightarrow> combo (key s) < 64 \<Longrightarrow> inv (put rid s h)"
    and drop_entries: "entries (drop_entry rid s h) = (entries h)(rid := None)"
    and drop_inv: "inv h \<Longrightarrow> entries h rid = Some s \<Longrightarrow> inv (drop_entry rid s h)"
begin

lemma key_inj: "inv h \<Longrightarrow> entries h a = Some s \<Longrightarrow> entries h b = Some t \<Longrightarrow> key s = key t \<Longrightarrow> a = b"
  by (metis owner_iff option.inject)

text \<open>Every entry's combo is in the bitmap.\<close>

lemma covered: "inv h \<Longrightarrow> entries h rid = Some s \<Longrightarrow> bit (bitmap h) (nat (combo (key s)))"
  using entry_ok [of h rid s] by (auto simp: bitmap_iff)

text \<open>An addition never clears a bit of another rule, and sets the new one.\<close>

lemma put_bits:
  assumes "inv h" "inv (put rid s h)" "entries h rid = None"
  shows "bit (bitmap (put rid s h)) c \<longleftrightarrow> bit (bitmap h) c \<or> c < 64 \<and> combo (key s) = int c"
  using assms by (auto simp: bitmap_iff put_entries split: if_splits) (metis option.distinct(1))

text \<open>Undoing an addition: the entries are those of before, and so are the owners and the bitmap.\<close>

lemma put_drop_entries: "entries h rid = None \<Longrightarrow> entries (drop_entry rid s (put rid s h)) = entries h"
  by (auto simp: put_entries drop_entries)

lemma put_drop_put_entries:
  "entries h rid = Some old \<Longrightarrow> entries (put rid old (drop_entry rid s (put rid s h))) = entries h"
  by (auto simp: put_entries drop_entries)

lemma same_entries:
  assumes "inv h" "inv h'" "entries h' = entries h"
  shows "owner h' = owner h \<and> bitmap h' = bitmap h"
proof
  show "owner h' = owner h"
  proof
    fix k
    have "owner h' k = Some a \<longleftrightarrow> owner h k = Some a" for a
      using owner_iff [OF assms(1), of k a] owner_iff [OF assms(2), of k a] assms(3) by simp
    then show "owner h' k = owner h k" by (metis option.exhaust)
  qed
  show "bitmap h' = bitmap h"
    by (rule bit_word_eqI) (simp add: bitmap_iff [OF assms(1)] bitmap_iff [OF assms(2)] assms(3))
qed

text \<open>The invariant after undoing an addition.\<close>

lemma put_drop_inv:
  assumes "inv h" "inv (put rid s h)"
  shows "inv (drop_entry rid s (put rid s h))"
  by (rule drop_inv [OF assms(2)]) (simp add: put_entries)

lemma put_drop_put_inv:
  assumes "inv h" "inv (put rid s h)" "entries h rid = Some old"
  shows "inv (put rid old (drop_entry rid s (put rid s h)))"
proof -
  let ?h = "drop_entry rid s (put rid s h)"
  have i: "inv ?h" using put_drop_inv [OF assms(1,2)] .
  have e: "entries ?h = (entries h)(rid := None)" by (simp add: put_entries drop_entries)
  have "owner ?h (key old) = None"
  proof (cases "owner ?h (key old)")
    case (Some a)
    then obtain t where "entries ?h a = Some t" "key t = key old" using owner_iff [OF i] by blast
    then have "entries h a = Some t" "a \<noteq> rid" by (auto simp: e split: if_splits)
    with key_inj [OF assms(1) _ assms(3)] \<open>key t = key old\<close> show ?thesis by blast
  qed
  then show ?thesis using put_inv [OF i] entry_ok [OF assms(1,3)] by blast
qed

end

section \<open>Replacing an entry in the BPF map\<close>

text \<open>
  The first half of the critical section of every add handler. \<open>key_conflict\<close> is the owner of the
  key when it is another ID; \<open>stale_key\<close> is the encoded key the ID had before, when it differs.
\<close>

definition key_conflict :: "('k, string) gomap \<Rightarrow> 'k \<Rightarrow> string \<Rightarrow> string option" where
  "key_conflict ix key rid =
     (case map_of ix key of
        Some existingID \<Rightarrow> if existingID \<noteq> rid then Some existingID else None
      | None \<Rightarrow> None)"

lemma no_conflict:
  "key_conflict ix k rid = None \<Longrightarrow> map_of ix k = None \<or> map_of ix k = Some rid"
  by (auto simp: key_conflict_def split: option.splits if_splits)

lemma conflict_Some: "key_conflict ix k rid = Some e \<Longrightarrow> map_of ix k = Some e \<and> e \<noteq> rid"
  by (auto simp: key_conflict_def split: option.splits if_splits)

definition stale_key :: "('s \<Rightarrow> 'k) \<Rightarrow> ('k \<Rightarrow> bytes) \<Rightarrow> 's option \<Rightarrow> 'k \<Rightarrow> bytes option" where
  "stale_key keyOf enc oldStored key =
     (case oldStored of
        Some old \<Rightarrow> if keyOf old \<noteq> key then Some (enc (keyOf old)) else None
      | None \<Rightarrow> None)"

text \<open>
  Steps 1 and 2: insert the new entry, then delete the replaced one when its key differs; a failed
  deletion takes the new entry out again, best effort.
\<close>

datatype bpf_error = InsertFailed | OldDeleteFailed

definition replace_bpf ::
  "'m hash_ops \<Rightarrow> 'm \<Rightarrow> bytes \<Rightarrow> bytes \<Rightarrow> bytes option \<Rightarrow> bpf_error option \<times> 'm" where
  "replace_bpf ops bl keyBytes valueBytes oldKeyBytes =
     (case UpdateNoExist ops bl keyBytes valueBytes of
        (False, bl1) \<Rightarrow> (Some InsertFailed, bl1)
      | (True, bl1) \<Rightarrow>
          (case oldKeyBytes of
             None \<Rightarrow> (None, bl1)
           | Some okb \<Rightarrow>
               (case Delete ops bl1 okb of
                  (True, bl2) \<Rightarrow> (None, bl2)
                | (False, bl2) \<Rightarrow> (Some OldDeleteFailed, snd (Delete ops bl2 keyBytes)))))"

locale mirrored_table = rule_table entries owner bitmap put drop_entry key combo valid inv
  for entries :: "'h \<Rightarrow> string \<Rightarrow> 's option"
    and owner :: "'h \<Rightarrow> 'k \<Rightarrow> string option"
    and bitmap :: "'h \<Rightarrow> u64"
    and put :: "string \<Rightarrow> 's \<Rightarrow> 'h \<Rightarrow> 'h"
    and drop_entry :: "string \<Rightarrow> 's \<Rightarrow> 'h \<Rightarrow> 'h"
    and key :: "'s \<Rightarrow> 'k"
    and combo :: "'k \<Rightarrow> int"
    and valid :: "'k \<Rightarrow> bool"
    and inv :: "'h \<Rightarrow> bool" +
  fixes enc :: "'k \<Rightarrow> bytes" and val :: "'s \<Rightarrow> bytes"
  assumes enc_eq: "valid k \<Longrightarrow> valid l \<Longrightarrow> enc k = enc l \<longleftrightarrow> k = l"
begin

lemma entries_enc_inj: "inv h \<Longrightarrow> enc_inj (\<lambda>s. enc (key s)) (entries h)"
  unfolding enc_inj_def using entry_ok key_inj enc_eq by metis

text \<open>A key that no other ID owns, and that the ID itself does not have, is not in the map.\<close>

lemma absent:
  assumes "inv h" "valid (key s)" "image_of (\<lambda>s. enc (key s)) val (entries h) m"
    and "owner h (key s) = None \<or> owner h (key s) = Some rid"
    and "\<And>old. entries h rid = Some old \<Longrightarrow> key old \<noteq> key s"
  shows "m (enc (key s)) = None"
proof -
  have "enc (key t) \<noteq> enc (key s)" if t: "entries h a = Some t" for a t
  proof
    assume "enc (key t) = enc (key s)"
    then have k: "key t = key s" using enc_eq entry_ok [OF assms(1) t] assms(2) by blast
    then have "owner h (key s) = Some a" using owner_iff [OF assms(1)] t by blast
    then have "a = rid" using assms(4) by simp
    with t k assms(5) show False by blast
  qed
  then show ?thesis using image_of_absent [OF assms(3)] by blast
qed

text \<open>
  On a map that fails only for the documented reasons the replacement fails exactly when the ID
  already has the key (the insertion refuses an existing key), and then changes nothing; otherwise
  the map becomes the image of the new table.
\<close>

lemma replace_reliable:
  assumes R: "hash_reliable ops get" and i: "inv h" "valid (key s)"
    and m: "image_of (\<lambda>s. enc (key s)) val (entries h) (get bl)"
    and nc: "owner h (key s) = None \<or> owner h (key s) = Some rid"
    and r: "replace_bpf ops bl (enc (key s)) (val s) (stale_key key enc (entries h rid) (key s)) = (e, bl')"
  shows "if \<exists>old. entries h rid = Some old \<and> key old = key s
    then e = Some InsertFailed \<and> get bl' = get bl
    else e = None \<and> get bl (enc (key s)) = None \<and>
      image_of (\<lambda>s. enc (key s)) val ((entries h)(rid \<mapsto> s)) (get bl') \<and>
      get bl' = (case entries h rid of None \<Rightarrow> get bl | Some old \<Rightarrow> (get bl)(enc (key old) := None))(enc (key s) \<mapsto> val s)"
proof (cases "entries h rid")
  case None
  then have a: "get bl (enc (key s)) = None" using absent [OF i m nc] by simp
  then obtain b1 where "UpdateNoExist ops bl (enc (key s)) (val s) = (True, b1)" "get b1 = (get bl)(enc (key s) \<mapsto> val s)"
    using hash_reliableD(2) [OF R] by blast
  with r None a image_of_add [OF m None, of s] show ?thesis by (simp add: replace_bpf_def stale_key_def)
next
  case (Some old)
  show ?thesis
  proof (cases "key old = key s")
    case True
    then have "get bl (enc (key s)) \<noteq> None" using image_ofD [OF m Some] by simp
    then obtain b1 where "UpdateNoExist ops bl (enc (key s)) (val s) = (False, b1)" "get b1 = get bl"
      using hash_lawsD(1,2) [OF hash_reliableD(1) [OF R], of bl "enc (key s)" "val s"]
      by (cases "UpdateNoExist ops bl (enc (key s)) (val s)"; cases "fst (UpdateNoExist ops bl (enc (key s)) (val s))") auto
    with r Some True show ?thesis by (simp add: replace_bpf_def)
  next
    case False
    then have a: "get bl (enc (key s)) = None" using absent [OF i m nc] Some by simp
    then obtain b1 where b1: "UpdateNoExist ops bl (enc (key s)) (val s) = (True, b1)" "get b1 = (get bl)(enc (key s) \<mapsto> val s)"
      using hash_reliableD(2) [OF R] by blast
    have ne: "enc (key old) \<noteq> enc (key s)" using enc_eq entry_ok [OF i(1) Some] i(2) False by blast
    then have "get b1 (enc (key old)) \<noteq> None" using b1(2) image_ofD [OF m Some] by simp
    then obtain b2 where b2: "Delete ops b1 (enc (key old)) = (True, b2)" "get b2 = (get b1)(enc (key old) := None)"
      using hash_reliableD(3) [OF R] by blast
    have g: "get b2 = (get bl)(enc (key old) := None, enc (key s) \<mapsto> val s)"
      using b1(2) b2(2) ne by (simp add: fun_upd_twist)
    have "image_of (\<lambda>s. enc (key s)) val ((entries h)(rid := None)) ((get bl)(enc (key old) := None))"
      using image_of_drop [OF m entries_enc_inj [OF i(1)] Some] .
    from image_of_add [OF this, of rid s] a
    have "image_of (\<lambda>s. enc (key s)) val ((entries h)(rid \<mapsto> s)) (get b2)" by (simp add: g)
    with r Some False a b1(1) b2(1) g show ?thesis by (simp add: replace_bpf_def stale_key_def)
  qed
qed

text \<open>Taking the new entry out and putting the replaced one back restores the map.\<close>

lemma replace_undo:
  assumes R: "hash_reliable ops get" and m: "image_of (\<lambda>s. enc (key s)) val (entries h) m"
    and a: "m (enc (key s)) = None"
    and g: "get bl = (case entries h rid of None \<Rightarrow> m | Some old \<Rightarrow> m(enc (key old) := None))(enc (key s) \<mapsto> val s)"
  shows "\<exists>b. Delete ops bl (enc (key s)) = (True, b) \<and>
    (case entries h rid of
       None \<Rightarrow> get b = m
     | Some old \<Rightarrow> \<exists>b'. UpdateNoExist ops b (enc (key old)) (val old) = (True, b') \<and> get b' = m)"
proof -
  have "get bl (enc (key s)) \<noteq> None" using g by simp
  then obtain b where b: "Delete ops bl (enc (key s)) = (True, b)" "get b = (get bl)(enc (key s) := None)"
    using hash_reliableD(3) [OF R] by blast
  show ?thesis
  proof (cases "entries h rid")
    case None
    with b g a show ?thesis by (simp add: fun_upd_idem)
  next
    case (Some old)
    have mo: "m (enc (key old)) = Some (val old)" using image_ofD [OF m Some] .
    have gb: "get b = m(enc (key old) := None)" using b(2) g a Some by (auto simp: fun_eq_iff)
    then obtain b' where "UpdateNoExist ops b (enc (key old)) (val old) = (True, b')"
      "get b' = (get b)(enc (key old) \<mapsto> val old)"
      using hash_reliableD(2) [OF R, of b "enc (key old)"] by auto
    with b(1) Some gb mo show ?thesis by (simp add: fun_upd_idem)
  qed
qed

text \<open>Deleting an entry.\<close>

lemma delete_reliable:
  assumes R: "hash_reliable ops get" and i: "inv h" and m: "image_of (\<lambda>s. enc (key s)) val (entries h) (get bl)"
    and s: "entries h rid = Some s"
  shows "\<exists>b. Delete ops bl (enc (key s)) = (True, b) \<and>
    image_of (\<lambda>s. enc (key s)) val ((entries h)(rid := None)) (get b)"
proof -
  have "get bl (enc (key s)) \<noteq> None" using image_ofD [OF m s] by simp
  then obtain b where b: "Delete ops bl (enc (key s)) = (True, b)" "get b = (get bl)(enc (key s) := None)"
    using hash_reliableD(3) [OF R] by blast
  with image_of_drop [OF m entries_enc_inj [OF i] s] show ?thesis by auto
qed

end

end
