(* ===== verification/AgentViews.thy ===== *)
theory AgentViews
  imports ConfigPublish RuleTable
begin

text \<open>
  The parts of the agent's state that the operations act on one at a time: the three tables, the
  active maps, the configuration. An operation's frame condition says which views it keeps; a
  property of a part is a function of its view. The section on coverage states what the published
  bitmaps promise the BPF program.
\<close>

section \<open>Views\<close>

definition exact_view where
  "exact_view h = (rules h, ruleKeyIndex h, comboRefCount h)"

definition cidr_view where
  "cidr_view h = (cidrRules h, cidrRuleKeyIndex h, cidrComboRefCount h)"

definition wl_view where
  "wl_view h = (wlEntries h, wlKeyIndex h, wlComboRefCount h)"

definition config_view where
  "config_view h = (configA h, configB h, activeConfig h, activeSlot h)"

definition slots_view where
  "slots_view h = (activeRuleSlot h, activeWLSlot h)"

named_theorems view_defs \<open>definitions of the views\<close>

lemmas [view_defs] = exact_view_def cidr_view_def wl_view_def config_view_def slots_view_def

named_theorems map_defs \<open>definitions of the accessors of the active maps\<close>

lemmas [map_defs] = activeBlacklist_def set_activeBlacklist_def activeCidrBlacklist_def
  set_activeCidrBlacklist_def activeWhitelist_def set_activeWhitelist_def

lemma set_map_views [simp]:
  "exact_view (set_activeBlacklist m h) = exact_view h"
  "cidr_view (set_activeBlacklist m h) = cidr_view h"
  "wl_view (set_activeBlacklist m h) = wl_view h"
  "config_view (set_activeBlacklist m h) = config_view h"
  "slots_view (set_activeBlacklist m h) = slots_view h"
  "cidrMgr (set_activeBlacklist m h) = cidrMgr h"
  "exact_view (set_activeCidrBlacklist m h) = exact_view h"
  "cidr_view (set_activeCidrBlacklist m h) = cidr_view h"
  "wl_view (set_activeCidrBlacklist m h) = wl_view h"
  "config_view (set_activeCidrBlacklist m h) = config_view h"
  "slots_view (set_activeCidrBlacklist m h) = slots_view h"
  "cidrMgr (set_activeCidrBlacklist m h) = cidrMgr h"
  "exact_view (set_activeWhitelist m h) = exact_view h"
  "cidr_view (set_activeWhitelist m h) = cidr_view h"
  "wl_view (set_activeWhitelist m h) = wl_view h"
  "config_view (set_activeWhitelist m h) = config_view h"
  "slots_view (set_activeWhitelist m h) = slots_view h"
  "cidrMgr (set_activeWhitelist m h) = cidrMgr h"
  by (simp_all add: view_defs map_defs)

lemma set_map_fields [simp]:
  "rules (set_activeBlacklist m h) = rules h" "cidrRules (set_activeBlacklist m h) = cidrRules h"
  "wlEntries (set_activeBlacklist m h) = wlEntries h"
  "rules (set_activeCidrBlacklist m h) = rules h" "cidrRules (set_activeCidrBlacklist m h) = cidrRules h"
  "wlEntries (set_activeCidrBlacklist m h) = wlEntries h"
  "rules (set_activeWhitelist m h) = rules h" "cidrRules (set_activeWhitelist m h) = cidrRules h"
  "wlEntries (set_activeWhitelist m h) = wlEntries h"
  by (simp_all add: map_defs)

text \<open>A publish keeps every view but the configuration.\<close>

lemma publish_views:
  assumes "publishConfigUpdate K d wd cd h = (e, h')"
  shows "exact_view h' = exact_view h" "cidr_view h' = cidr_view h" "wl_view h' = wl_view h"
    "slots_view h' = slots_view h" "cidrMgr h' = cidrMgr h" "activeBlacklist h' = activeBlacklist h"
    "activeCidrBlacklist h' = activeCidrBlacklist h" "activeWhitelist h' = activeWhitelist h"
    "rules h' = rules h" "cidrRules h' = cidrRules h" "wlEntries h' = wlEntries h"
  by (simp_all add: view_defs map_defs same_but_config_fields [OF publish_frame [OF assms]])

lemma view_fields:
  "exact_view h' = exact_view h \<Longrightarrow> rules h' = rules h" "cidr_view h' = cidr_view h \<Longrightarrow> cidrRules h' = cidrRules h"
  "wl_view h' = wl_view h \<Longrightarrow> wlEntries h' = wlEntries h"
  by (simp_all add: view_defs)

section \<open>Coverage\<close>

text \<open>
  The bitmaps the BPF program reads have every bit of the bitmaps of the three tables: no live rule
  is skipped.
\<close>

definition covers :: "('c \<Rightarrow> bytes \<Rightarrow> bytes) \<Rightarrow> ('m, 'c, 't) Handlers \<Rightarrow> bool" where
  "covers get h \<longleftrightarrow>
     (\<forall>c. (bit (combo_bitmap (comboRefCount h)) c \<longrightarrow> bit (published get h ConfigRuleBitmap) c) \<and>
          (bit (combo_bitmap (wlComboRefCount h)) c \<longrightarrow> bit (published get h ConfigWLBitmap) c) \<and>
          (bit (combo_bitmap (cidrComboRefCount h)) c \<longrightarrow> bit (published get h ConfigCIDRBitmap) c))"

lemma config_published:
  "config_view g = config_view h \<Longrightarrow> published get g = published get h \<and> slot_ok get g = slot_ok get h"
  by (simp add: config_view_def published_def activeMap_def slot_ok_def fun_eq_iff)

text \<open>Coverage survives when the published bitmaps are the old ones and the tables lost entries at most.\<close>

definition bitmaps_le :: "('m, 'c, 't) Handlers \<Rightarrow> ('m, 'c, 't) Handlers \<Rightarrow> bool" where
  "bitmaps_le h' h \<longleftrightarrow>
     (\<forall>c. (bit (combo_bitmap (comboRefCount h')) c \<longrightarrow> bit (combo_bitmap (comboRefCount h)) c) \<and>
          (bit (combo_bitmap (wlComboRefCount h')) c \<longrightarrow> bit (combo_bitmap (wlComboRefCount h)) c) \<and>
          (bit (combo_bitmap (cidrComboRefCount h')) c \<longrightarrow> bit (combo_bitmap (cidrComboRefCount h)) c))"

lemma bitmaps_le_trans: "bitmaps_le a b \<Longrightarrow> bitmaps_le b c \<Longrightarrow> bitmaps_le a c"
  by (simp add: bitmaps_le_def)

lemma covers_mono:
  "covers get h \<Longrightarrow> bitmaps_le h' h \<Longrightarrow> \<forall>j \<in> {2, 3, 7}. published get h' j = published get h j \<Longrightarrow> covers get h'"
  by (simp add: covers_def bitmaps_le_def)

text \<open>A successful publish covers; a failed one leaves the published bitmaps.\<close>

lemma publish_covers:
  assumes "array_laws (arr K) get" "slot_ok get h" "publishConfigUpdate K d wd cd h = (e, h')"
  shows "slot_ok get h' \<and> (if e = None then covers get h' else \<forall>j \<in> {2, 3, 7}. published get h' j = published get h j)"
proof -
  have p: "slot_ok get h'" "\<forall>j < 12. published get h' j =
      (if e = None then intended_entry h d wd cd (published get h) j else published get h j)"
    using publish_result [OF assms] by blast+
  note f = same_but_config_fields [OF publish_frame [OF assms(3)]]
  show ?thesis
    using p by (cases e) (simp_all add: covers_def intended_entry_def f)
qed

text \<open>
  The usual shape: a state with the old configuration, a publish, and then only steps that keep the
  configuration. If the publish succeeded and nothing followed, or the tables did not grow over the
  covered state, the result is covered.
\<close>

lemma covers_after_publish:
  assumes "array_laws (arr K) get" "slot_ok get h" "covers get h" "config_view g = config_view h"
    and "publishConfigUpdate K d wd cd g = (e, g')" "config_view h' = config_view g'"
    and "if e = None then bitmaps_le h' g' else bitmaps_le h' h"
  shows "slot_ok get h' \<and> covers get h'"
proof -
  note c1 = config_published [OF assms(4), of get] and c2 = config_published [OF assms(6), of get]
  have "slot_ok get g" using assms(2) c1 by simp
  note p = publish_covers [OF assms(1) this assms(5)]
  show ?thesis
  proof (cases e)
    case None
    with p c2 assms(7) show ?thesis using covers_mono [of get g' h'] by simp
  next
    case (Some x)
    with p c1 c2 assms(3,7) show ?thesis using covers_mono [of get h h'] by simp
  qed
qed

lemma covers_frame:
  "slot_ok get h \<and> covers get h \<Longrightarrow> config_view h' = config_view h \<Longrightarrow> bitmaps_le h' h \<Longrightarrow> slot_ok get h' \<and> covers get h'"
  using config_published [of h' h get] covers_mono [of get h h'] by simp

lemma bitmaps_le_views:
  "exact_view h' = exact_view h \<Longrightarrow> cidr_view h' = cidr_view h \<Longrightarrow> wl_view h' = wl_view h \<Longrightarrow> bitmaps_le h' h"
  by (simp add: bitmaps_le_def view_defs)

end
