(* ===== verification/ExactRules.thy ===== *)
theory ExactRules
  imports AgentViews
begin

text \<open>
  The critical section that adds one exact-address rule (\<^verbatim>\<open>AddRule\<close> in \<^verbatim>\<open>rules_mutation.go\<close> and, with
  the same steps, \<^verbatim>\<open>AddRuleFromSync\<close> in \<^verbatim>\<open>sync.go\<close>): duplicate-key check, insertion into the active
  BPF map, removal of the replaced entry, update of the agent's maps, publish, and the rollback of
  all of it when the publish fails. The table of exact rules is an interpretation of the contract
  \<open>mirrored_table\<close>.
\<close>

section \<open>Updates of the agent's maps\<close>

text \<open>Step 3 of \<^verbatim>\<open>AddRule\<close>.\<close>

definition add_rule_memory ::
  "string \<Rightarrow> StoredRule \<Rightarrow> ('m, 'c, 't) Handlers \<Rightarrow> ('m, 'c, 't) Handlers" where
  "add_rule_memory rid s h =
     (let oldStored = map_of (rules h) rid;
          h1 = (case oldStored of
                  Some old \<Rightarrow>
                    h\<lparr>comboRefCount := refs_dec (getComboType (sr_Key old)) (comboRefCount h),
                      ruleKeyIndex := AList.delete (sr_Key old) (ruleKeyIndex h)\<rparr>
                | None \<Rightarrow> h)
      in h1\<lparr>comboRefCount := refs_inc (getComboType (sr_Key s)) (comboRefCount h1),
            rules := AList.update rid s (rules h1),
            ruleKeyIndex := AList.update (sr_Key s) rid (ruleKeyIndex h1)\<rparr>)"

text \<open>The removal of a rule from the agent's maps, in \<^verbatim>\<open>DeleteRule\<close> and in the rollbacks.\<close>

definition drop_rule_memory ::
  "string \<Rightarrow> StoredRule \<Rightarrow> ('m, 'c, 't) Handlers \<Rightarrow> ('m, 'c, 't) Handlers" where
  "drop_rule_memory rid s h =
     h\<lparr>comboRefCount := refs_dec (getComboType (sr_Key s)) (comboRefCount h),
       ruleKeyIndex := AList.delete (sr_Key s) (ruleKeyIndex h),
       rules := AList.delete rid (rules h)\<rparr>"

text \<open>The restoration of a replaced rule.\<close>

definition restore_rule_memory ::
  "string \<Rightarrow> StoredRule \<Rightarrow> ('m, 'c, 't) Handlers \<Rightarrow> ('m, 'c, 't) Handlers" where
  "restore_rule_memory rid old h =
     h\<lparr>comboRefCount := refs_inc (getComboType (sr_Key old)) (comboRefCount h),
       rules := AList.update rid old (rules h),
       ruleKeyIndex := AList.update (sr_Key old) rid (ruleKeyIndex h)\<rparr>"

section \<open>The critical section\<close>

datatype commit_result =
    Committed string
  | KeyConflict string
  | BpfFailed bpf_error
  | PublishFailed publish_error

text \<open>
  The rollback after a failed publish; the BPF calls are best effort, their errors are logged only.
\<close>

definition rule_rollback ::
  "('m, 'c, 't) kernel \<Rightarrow> string \<Rightarrow> StoredRule \<Rightarrow> StoredRule option \<Rightarrow>
   ('m, 'c, 't) Handlers \<Rightarrow> ('m, 'c, 't) Handlers" where
  "rule_rollback K rid s oldStored h =
     (let key = sr_Key s;
          h1 = set_activeBlacklist (snd (Delete (hash K) (activeBlacklist h) (ruleKeyToBytes key))) h;
          h2 = drop_rule_memory rid s h1
      in case oldStored of
           None \<Rightarrow> h2
         | Some old \<Rightarrow>
             (let h3 = restore_rule_memory rid old h2
              in if sr_Key old \<noteq> key
                 then set_activeBlacklist
                        (snd (UpdateNoExist (hash K) (activeBlacklist h3) (ruleKeyToBytes (sr_Key old))
                           (ruleValueToBytes (ruleValueFromStored old)))) h3
                 else h3))"

text \<open>
  The duplicate-key check and steps 1 to 3, up to the publish; a batch runs them for every item.
\<close>

definition rule_stage ::
  "('m, 'c, 't) kernel \<Rightarrow> string \<Rightarrow> StoredRule \<Rightarrow> RuleValue \<Rightarrow> ('m, 'c, 't) Handlers \<Rightarrow>
   commit_result option \<times> ('m, 'c, 't) Handlers" where
  "rule_stage K rid s value h =
     (let key = sr_Key s in
      case key_conflict (ruleKeyIndex h) key rid of
        Some existingID \<Rightarrow> (Some (KeyConflict existingID), h)
      | None \<Rightarrow>
          (let oldStored = map_of (rules h) rid
           in case replace_bpf (hash K) (activeBlacklist h) (ruleKeyToBytes key)
                     (ruleValueToBytes value) (stale_key sr_Key ruleKeyToBytes oldStored key) of
                (Some e, bl) \<Rightarrow> (Some (BpfFailed e), set_activeBlacklist bl h)
              | (None, bl) \<Rightarrow> (None, add_rule_memory rid s (set_activeBlacklist bl h))))"

definition rule_commit ::
  "('m, 'c, 't) kernel \<Rightarrow> string \<Rightarrow> StoredRule \<Rightarrow> RuleValue \<Rightarrow> ('m, 'c, 't) Handlers \<Rightarrow>
   commit_result \<times> ('m, 'c, 't) Handlers" where
  "rule_commit K rid s value h =
     (let oldStored = map_of (rules h) rid;
          countDelta = (if oldStored = None then 1 else 0)
      in case rule_stage K rid s value h of
           (Some r, h1) \<Rightarrow> (r, h1)
         | (None, h1) \<Rightarrow>
             (case publishConfigUpdate K countDelta 0 0 h1 of
                (None, h2) \<Rightarrow> (Committed rid, h2)
              | (Some e, h2) \<Rightarrow> (PublishFailed e, rule_rollback K rid s oldStored h2)))"

section \<open>The exact rules are a mirrored table\<close>

definition exact_inv :: "('m, 'c, 't) Handlers \<Rightarrow> bool" where
  "exact_inv h \<longleftrightarrow> tbl_inv sr_Key getComboType wf_RuleKey (rules h) (ruleKeyIndex h) (comboRefCount h)"

definition rule_val :: "StoredRule \<Rightarrow> bytes" where
  "rule_val s = ruleValueToBytes (ruleValueFromStored s)"

lemma add_rule_memory_fields:
  "rules (add_rule_memory rid s h) = AList.update rid s (rules h)"
  "ruleKeyIndex (add_rule_memory rid s h) = put_index sr_Key (map_of (rules h) rid) rid s (ruleKeyIndex h)"
  "comboRefCount (add_rule_memory rid s h) = put_refs sr_Key getComboType (map_of (rules h) rid) s (comboRefCount h)"
  by (auto simp: add_rule_memory_def Let_def put_index_def put_refs_def split: option.splits)

interpretation exact: mirrored_table "\<lambda>h. map_of (rules h)" "\<lambda>h. map_of (ruleKeyIndex h)"
  "\<lambda>h. combo_bitmap (comboRefCount h)" add_rule_memory drop_rule_memory sr_Key getComboType wf_RuleKey exact_inv
  ruleKeyToBytes rule_val
proof unfold_locales
  fix h :: "('a, 'b, 'c) Handlers" and k rid s c
  show "map_of (rules (add_rule_memory rid s h)) = (map_of (rules h))(rid \<mapsto> s)"
    by (simp add: add_rule_memory_fields)
  show "map_of (rules (drop_rule_memory rid s h)) = (map_of (rules h))(rid := None)"
    by (simp add: drop_rule_memory_def)
  assume inv: "exact_inv h"
  note t = inv [unfolded exact_inv_def]
  show "map_of (ruleKeyIndex h) k = Some rid \<longleftrightarrow> (\<exists>s. map_of (rules h) rid = Some s \<and> sr_Key s = k)"
    by (rule tbl_invD(4) [OF t])
  show "bit (combo_bitmap (comboRefCount h)) c \<longleftrightarrow>
      c < 64 \<and> (\<exists>rid s. map_of (rules h) rid = Some s \<and> getComboType (sr_Key s) = int c)"
    by (rule tbl_bitmap [OF t])
  show "map_of (rules h) rid = Some s \<Longrightarrow>
      wf_RuleKey (sr_Key s) \<and> 0 \<le> getComboType (sr_Key s) \<and> getComboType (sr_Key s) < 64"
    using tbl_invD(6-8) [OF t] by blast
  show "map_of (ruleKeyIndex h) (sr_Key s) = None \<or> map_of (ruleKeyIndex h) (sr_Key s) = Some rid \<Longrightarrow>
      wf_RuleKey (sr_Key s) \<Longrightarrow> 0 \<le> getComboType (sr_Key s) \<Longrightarrow> getComboType (sr_Key s) < 64 \<Longrightarrow>
      exact_inv (add_rule_memory rid s h)"
    using tbl_put [OF t] by (simp add: exact_inv_def add_rule_memory_fields)
  show "map_of (rules h) rid = Some s \<Longrightarrow> exact_inv (drop_rule_memory rid s h)"
    using tbl_drop [OF t] by (simp add: exact_inv_def drop_rule_memory_def)
next
  fix k l show "wf_RuleKey k \<Longrightarrow> wf_RuleKey l \<Longrightarrow> ruleKeyToBytes k = ruleKeyToBytes l \<longleftrightarrow> k = l"
    by (rule rule_key.enc_eq_iff)
qed

text \<open>Restoring a replaced rule is putting it back.\<close>

lemma restore_is_put:
  "map_of (rules h) rid = None \<Longrightarrow> restore_rule_memory rid old h = add_rule_memory rid old h"
  by (simp add: restore_rule_memory_def add_rule_memory_def)

lemma exact_inv_view: "exact_view g = exact_view h \<Longrightarrow> exact_inv g = exact_inv h"
  by (simp add: exact_view_def exact_inv_def)

lemma exact_ops_views [simp]:
  "cidr_view (add_rule_memory rid s h) = cidr_view h" "wl_view (add_rule_memory rid s h) = wl_view h"
  "config_view (add_rule_memory rid s h) = config_view h" "slots_view (add_rule_memory rid s h) = slots_view h"
  "cidrMgr (add_rule_memory rid s h) = cidrMgr h"
  "activeBlacklist (add_rule_memory rid s h) = activeBlacklist h"
  "activeCidrBlacklist (add_rule_memory rid s h) = activeCidrBlacklist h"
  "activeWhitelist (add_rule_memory rid s h) = activeWhitelist h"
  "cidr_view (drop_rule_memory rid s h) = cidr_view h" "wl_view (drop_rule_memory rid s h) = wl_view h"
  "config_view (drop_rule_memory rid s h) = config_view h" "slots_view (drop_rule_memory rid s h) = slots_view h"
  "cidrMgr (drop_rule_memory rid s h) = cidrMgr h"
  "activeBlacklist (drop_rule_memory rid s h) = activeBlacklist h"
  "activeCidrBlacklist (drop_rule_memory rid s h) = activeCidrBlacklist h"
  "activeWhitelist (drop_rule_memory rid s h) = activeWhitelist h"
  "cidr_view (restore_rule_memory rid s h) = cidr_view h" "wl_view (restore_rule_memory rid s h) = wl_view h"
  "config_view (restore_rule_memory rid s h) = config_view h" "slots_view (restore_rule_memory rid s h) = slots_view h"
  "cidrMgr (restore_rule_memory rid s h) = cidrMgr h"
  "activeBlacklist (restore_rule_memory rid s h) = activeBlacklist h"
  "activeCidrBlacklist (restore_rule_memory rid s h) = activeCidrBlacklist h"
  "activeWhitelist (restore_rule_memory rid s h) = activeWhitelist h"
  by (auto simp: view_defs map_defs add_rule_memory_def drop_rule_memory_def restore_rule_memory_def Let_def
      split: option.splits)

lemma exact_view_ops:
  "exact_view g = exact_view h \<Longrightarrow> exact_view (add_rule_memory rid s g) = exact_view (add_rule_memory rid s h)"
  "exact_view g = exact_view h \<Longrightarrow> exact_view (drop_rule_memory rid s g) = exact_view (drop_rule_memory rid s h)"
  by (simp_all add: exact_view_def add_rule_memory_fields) (simp_all add: drop_rule_memory_def)

text \<open>The rollback, on the table: the new rule is dropped, the replaced one put back.\<close>

definition undo_add ::
  "string \<Rightarrow> StoredRule \<Rightarrow> StoredRule option \<Rightarrow> ('m, 'c, 't) Handlers \<Rightarrow> ('m, 'c, 't) Handlers" where
  "undo_add rid s old h =
     (case old of
        None \<Rightarrow> drop_rule_memory rid s h
      | Some o' \<Rightarrow> add_rule_memory rid o' (drop_rule_memory rid s h))"

lemma undo_add_view: "exact_view g = exact_view h \<Longrightarrow> exact_view (undo_add rid s old g) = exact_view (undo_add rid s old h)"
  by (auto simp: undo_add_def intro!: exact_view_ops split: option.splits)

lemma rollback_views:
  "exact_view (rule_rollback K rid s old h) = exact_view (undo_add rid s old h)"
  "cidr_view (rule_rollback K rid s old h) = cidr_view h" "wl_view (rule_rollback K rid s old h) = wl_view h"
  "config_view (rule_rollback K rid s old h) = config_view h" "slots_view (rule_rollback K rid s old h) = slots_view h"
  "cidrMgr (rule_rollback K rid s old h) = cidrMgr h"
  "activeCidrBlacklist (rule_rollback K rid s old h) = activeCidrBlacklist h"
  "activeWhitelist (rule_rollback K rid s old h) = activeWhitelist h"
proof -
  let ?h1 = "set_activeBlacklist (snd (Delete (hash K) (activeBlacklist h) (ruleKeyToBytes (sr_Key s)))) h"
  have "map_of (rules (drop_rule_memory rid s ?h1)) rid = None" by (simp add: drop_rule_memory_def)
  note r = restore_is_put [OF this]
  show "exact_view (rule_rollback K rid s old h) = exact_view (undo_add rid s old h)"
    by (auto simp: rule_rollback_def undo_add_def Let_def r intro!: exact_view_ops split: option.splits)
qed (auto simp: rule_rollback_def Let_def split: option.splits)

text \<open>What a rollback leaves: the table of before.\<close>

lemma undo_add_restores:
  assumes "exact_inv h" "exact_inv (add_rule_memory rid s h)" "exact_view g = exact_view (add_rule_memory rid s h)"
  shows "exact_inv (undo_add rid s (map_of (rules h) rid) g) \<and>
    map_of (rules (undo_add rid s (map_of (rules h) rid) g)) = map_of (rules h)"
proof -
  note v = undo_add_view [OF assms(3), of rid s "map_of (rules h) rid"]
  have "exact_inv (undo_add rid s (map_of (rules h) rid) (add_rule_memory rid s h)) \<and>
    map_of (rules (undo_add rid s (map_of (rules h) rid) (add_rule_memory rid s h))) = map_of (rules h)"
    using exact.put_drop_inv [OF assms(1,2)] exact.put_drop_put_inv [OF assms(1,2)]
      exact.put_drop_entries [of h rid s] exact.put_drop_put_entries [of h rid _ s]
    by (auto simp: undo_add_def split: option.splits)
  then show ?thesis by (simp add: exact_inv_view [OF v] view_fields(1) [OF v])
qed

section \<open>Effect of the critical section\<close>

abbreviation (input) rule_replaced where
  "rule_replaced K rid s value h r \<equiv>
     replace_bpf (hash K) (activeBlacklist h) (ruleKeyToBytes (sr_Key s)) (ruleValueToBytes value)
       (stale_key sr_Key ruleKeyToBytes (map_of (rules h) rid) (sr_Key s)) = r"

lemma rule_stage_cases:
  assumes "rule_stage K rid s value h = (r, h')"
  obtains (conflict) e where "r = Some (KeyConflict e)" "h' = h" "map_of (ruleKeyIndex h) (sr_Key s) = Some e" "e \<noteq> rid"
  | (bpf) e bl where "key_conflict (ruleKeyIndex h) (sr_Key s) rid = None" "rule_replaced K rid s value h (Some e, bl)"
      "r = Some (BpfFailed e)" "h' = set_activeBlacklist bl h"
  | (ok) bl where "key_conflict (ruleKeyIndex h) (sr_Key s) rid = None" "rule_replaced K rid s value h (None, bl)"
      "r = None" "h' = add_rule_memory rid s (set_activeBlacklist bl h)"
proof (cases "key_conflict (ruleKeyIndex h) (sr_Key s) rid")
  case (Some e)
  then show ?thesis
    using assms conflict [of e] conflict_Some [OF Some] Some by (auto simp: rule_stage_def)
next
  case None
  obtain e bl where b: "rule_replaced K rid s value h (e, bl)" by force
  show ?thesis
    using assms None b bpf [OF None] ok [OF None] by (cases e) (simp_all add: rule_stage_def)
qed

lemma add_rule_inv:
  assumes "exact_inv h" "wf_RuleKey (sr_Key s)" "validateComboType (getComboType (sr_Key s))"
    and "key_conflict (ruleKeyIndex h) (sr_Key s) rid = None"
  shows "exact_inv (add_rule_memory rid s h)"
  using exact.put_inv [OF assms(1) no_conflict [OF assms(4)] assms(2)] assms(3) by (simp add: validateComboType_iff)

text \<open>Before the publish: the table has the new rule, or the step failed and nothing changed.\<close>

lemma rule_stage_table:
  assumes inv: "exact_inv h" and k: "wf_RuleKey (sr_Key s)" "validateComboType (getComboType (sr_Key s))"
    and c: "rule_stage K rid s value h = (r, h')"
  shows "exact_inv h' \<and> exact_view h' = exact_view (if r = None then add_rule_memory rid s h else h) \<and>
    (r = None \<longrightarrow> exact_inv (add_rule_memory rid s h))"
  using c
proof (cases rule: rule_stage_cases)
  case (ok bl)
  have v: "exact_view h' = exact_view (add_rule_memory rid s h)"
    using ok(4) exact_view_ops(1) [OF set_map_views(1)] by simp
  with exact_inv_view [OF v] add_rule_inv [OF inv k ok(1)] ok(3) show ?thesis by simp
next
  case (bpf e bl)
  with inv exact_inv_view [of h' h] show ?thesis by simp
qed (use inv in simp_all)

lemma rule_stage_frame:
  assumes "rule_stage K rid s value h = (r, h')"
  shows "cidr_view h' = cidr_view h \<and> wl_view h' = wl_view h \<and> slots_view h' = slots_view h \<and>
    config_view h' = config_view h \<and> cidrMgr h' = cidrMgr h \<and>
    activeCidrBlacklist h' = activeCidrBlacklist h \<and> activeWhitelist h' = activeWhitelist h"
  using assms by (cases rule: rule_stage_cases) simp_all

text \<open>
  The BPF map mirrors the table. On a map that fails only for the documented reasons a step fails
  only for a key that another ID or the ID itself already has.
\<close>

definition exact_mirror :: "('m \<Rightarrow> bytes \<Rightarrow> bytes option) \<Rightarrow> ('m, 'c, 't) Handlers \<Rightarrow> bool" where
  "exact_mirror get h \<longleftrightarrow>
     image_of (\<lambda>s. ruleKeyToBytes (sr_Key s)) rule_val (map_of (rules h)) (get (activeBlacklist h))"

lemma rule_stage_mirror:
  assumes R: "hash_reliable (hash K) get" and inv: "exact_inv h"
    and k: "wf_RuleKey (sr_Key s)" and v: "value = ruleValueFromStored s" and m: "exact_mirror get h"
    and c: "rule_stage K rid s value h = (r, h')"
  shows "exact_mirror get h' \<and>
    (r = None \<longleftrightarrow> map_of (ruleKeyIndex h) (sr_Key s) = None) \<and>
    (r = None \<longrightarrow> get (activeBlacklist h) (ruleKeyToBytes (sr_Key s)) = None \<and>
      get (activeBlacklist h') = (case map_of (rules h) rid of None \<Rightarrow> get (activeBlacklist h)
        | Some old \<Rightarrow> (get (activeBlacklist h))(ruleKeyToBytes (sr_Key old) := None))(ruleKeyToBytes (sr_Key s) \<mapsto> rule_val s)) \<and>
    (r \<noteq> None \<longrightarrow> get (activeBlacklist h') = get (activeBlacklist h))"
proof -
  note im = m [unfolded exact_mirror_def]
  have val: "ruleValueToBytes value = rule_val s" by (simp add: v rule_val_def)
  note x = exact.replace_reliable [OF R inv k im, of rid]
  have own: "(\<exists>old. map_of (rules h) rid = Some old \<and> sr_Key old = sr_Key s) \<longleftrightarrow> map_of (ruleKeyIndex h) (sr_Key s) = Some rid"
    using exact.owner_iff [OF inv] by blast
  show ?thesis
    using c
  proof (cases rule: rule_stage_cases)
    case (conflict e)
    with m show ?thesis by simp
  next
    case (bpf e bl)
    have "get bl = get (activeBlacklist h)" "map_of (ruleKeyIndex h) (sr_Key s) = Some rid"
      using x [OF no_conflict [OF bpf(1)] bpf(2) [unfolded val]] own by (auto split: if_splits)
    with im bpf show ?thesis by (simp add: exact_mirror_def)
  next
    case (ok bl)
    note y = x [OF no_conflict [OF ok(1)] ok(2) [unfolded val]]
    have "map_of (ruleKeyIndex h) (sr_Key s) = None"
      using y own no_conflict [OF ok(1)] by (auto split: if_splits)
    with y ok show ?thesis by (auto simp: exact_mirror_def add_rule_memory_fields split: if_splits)
  qed
qed

text \<open>The three ways through the critical section.\<close>

lemma rule_commit_cases:
  assumes "rule_commit K rid s value h = (r, h')"
  obtains (failed) "rule_stage K rid s value h = (Some r, h')" "\<forall>x. r \<noteq> Committed x"
  | (ok) h1 where "rule_stage K rid s value h = (None, h1)"
      "publishConfigUpdate K (if map_of (rules h) rid = None then 1 else 0) 0 0 h1 = (None, h')" "r = Committed rid"
  | (rollback) h1 e h2 where "rule_stage K rid s value h = (None, h1)"
      "publishConfigUpdate K (if map_of (rules h) rid = None then 1 else 0) 0 0 h1 = (Some e, h2)"
      "r = PublishFailed e" "h' = rule_rollback K rid s (map_of (rules h) rid) h2"
proof -
  obtain x h1 where st: "rule_stage K rid s value h = (x, h1)" by force
  obtain p h2 where p: "publishConfigUpdate K (if map_of (rules h) rid = None then 1 else 0) 0 0 h1 = (p, h2)" by force
  have "\<forall>z. y \<noteq> Committed z" if "x = Some y" for y
    using st that by (cases rule: rule_stage_cases) auto
  with assms st p failed ok rollback show ?thesis
    by (cases x; cases p) (simp_all add: rule_commit_def)
qed

text \<open>
  Whatever the kernel does, the table stays consistent; it has the new rule exactly when the
  operation reports success, and is as before otherwise.
\<close>

lemma rule_commit_table:
  assumes inv: "exact_inv h" and k: "wf_RuleKey (sr_Key s)" "validateComboType (getComboType (sr_Key s))"
    and c: "rule_commit K rid s value h = (r, h')"
  shows "exact_inv h' \<and>
    map_of (rules h') = (if r = Committed rid then (map_of (rules h))(rid \<mapsto> s) else map_of (rules h)) \<and>
    (r = Committed rid \<or> (\<forall>x. r \<noteq> Committed x))"
  using c
proof (cases rule: rule_commit_cases)
  case failed
  note t = rule_stage_table [OF inv k failed(1)]
  then have "rules h' = rules h" using view_fields(1) [of h' h] by simp
  with t failed(2) show ?thesis by simp
next
  case (ok h1)
  note t = rule_stage_table [OF inv k ok(1)] and v = publish_views(1) [OF ok(2)]
  then have "rules h' = rules (add_rule_memory rid s h)" using view_fields(1) [of h' "add_rule_memory rid s h"] by simp
  moreover have "exact_inv h'" using t exact_inv_view [OF v] by simp
  ultimately show ?thesis using ok(3) by (simp add: add_rule_memory_fields)
next
  case (rollback h1 e h2)
  note t = rule_stage_table [OF inv k rollback(1)] and v = publish_views(1) [OF rollback(2)]
  have u: "exact_inv (undo_add rid s (map_of (rules h) rid) h2) \<and>
      map_of (rules (undo_add rid s (map_of (rules h) rid) h2)) = map_of (rules h)"
    using undo_add_restores [OF inv, of rid s h2] t v by simp
  have w: "exact_view h' = exact_view (undo_add rid s (map_of (rules h) rid) h2)"
    using rollback(4) by (simp add: rollback_views)
  show ?thesis using u exact_inv_view [OF w] view_fields(1) [OF w] rollback(3) by simp
qed

text \<open>Nothing else is touched.\<close>

lemma rule_commit_frame:
  assumes "rule_commit K rid s value h = (r, h')"
  shows "cidr_view h' = cidr_view h \<and> wl_view h' = wl_view h \<and> slots_view h' = slots_view h \<and>
    cidrMgr h' = cidrMgr h \<and> activeCidrBlacklist h' = activeCidrBlacklist h \<and>
    activeWhitelist h' = activeWhitelist h"
  using assms
proof (cases rule: rule_commit_cases)
  case failed
  then show ?thesis using rule_stage_frame by blast
next
  case (ok h1)
  then show ?thesis using publish_views [OF ok(2)] rule_stage_frame [OF ok(1)] by simp
next
  case (rollback h1 e h2)
  then show ?thesis using publish_views [OF rollback(2)] rule_stage_frame [OF rollback(1)] by (simp add: rollback_views)
qed

lemma exact_bitmaps_le:
  assumes "exact_inv h" "exact_inv h'" "map_of (rules h') = map_of (rules h)"
    and "cidr_view h' = cidr_view h" "wl_view h' = wl_view h"
  shows "bitmaps_le h' h"
  using exact.same_entries [OF assms(1-3)] assms(4,5) by (simp add: bitmaps_le_def view_defs)

lemma rule_commit_covers:
  assumes inv: "exact_inv h" and k: "wf_RuleKey (sr_Key s)" "validateComboType (getComboType (sr_Key s))"
    and A: "array_laws (arr K) get" "slot_ok get h" "covers get h" and c: "rule_commit K rid s value h = (r, h')"
  shows "slot_ok get h' \<and> covers get h'"
proof -
  note t = rule_commit_table [OF inv k c] and f = rule_commit_frame [OF c]
  have le: "bitmaps_le h' h" if "r \<noteq> Committed rid"
    using exact_bitmaps_le [OF inv, of h'] t f that by simp
  show ?thesis
    using c
  proof (cases rule: rule_commit_cases)
    case failed
    with covers_frame [of get h h'] A le rule_stage_frame [OF failed(1)] show ?thesis by simp
  next
    case (ok h1)
    show ?thesis
      using covers_after_publish [OF A _ ok(2)] rule_stage_frame [OF ok(1)] by (simp add: bitmaps_le_def)
  next
    case (rollback h1 e h2)
    show ?thesis
      using covers_after_publish [OF A _ rollback(2)] rule_stage_frame [OF rollback(1)] le rollback(3,4)
      by (simp add: rollback_views)
  qed
qed

text \<open>The mirror survives every outcome, the rollback included.\<close>

lemma rollback_mirror:
  fixes h h2 :: "('m, 'c, 't) Handlers"
  assumes R: "hash_reliable (hash K) get" and im: "image_of (\<lambda>s. ruleKeyToBytes (sr_Key s)) rule_val (map_of (rules h)) m"
    and a: "m (ruleKeyToBytes (sr_Key s)) = None"
    and g: "get (activeBlacklist h2) = (case map_of (rules h) rid of None \<Rightarrow> m
        | Some old \<Rightarrow> m(ruleKeyToBytes (sr_Key old) := None))(ruleKeyToBytes (sr_Key s) \<mapsto> rule_val s)"
  shows "get (activeBlacklist (rule_rollback K rid s (map_of (rules h) rid) h2)) = m"
proof -
  have "sr_Key old \<noteq> sr_Key s" if "map_of (rules h) rid = Some old" for old
    using image_ofD [OF im that] a by auto
  then show ?thesis
    using exact.replace_undo [OF R im a g]
    by (auto simp: rule_rollback_def Let_def rule_val_def split: option.splits)
qed

lemma rule_commit_mirror:
  assumes R: "hash_reliable (hash K) get" and inv: "exact_inv h"
    and k: "wf_RuleKey (sr_Key s)" "validateComboType (getComboType (sr_Key s))"
    and v: "value = ruleValueFromStored s" and m: "exact_mirror get h"
    and c: "rule_commit K rid s value h = (r, h')"
  shows "exact_mirror get h'"
  using c
proof (cases rule: rule_commit_cases)
  case failed
  with rule_stage_mirror [OF R inv k(1) v m] show ?thesis by blast
next
  case (ok h1)
  have "exact_mirror get h1" using rule_stage_mirror [OF R inv k(1) v m ok(1)] by blast
  then show ?thesis using publish_views [OF ok(2)] by (simp add: exact_mirror_def)
next
  case (rollback h1 e h2)
  note x = rule_stage_mirror [OF R inv k(1) v m rollback(1)]
  have "get (activeBlacklist h') = get (activeBlacklist h)"
    using rollback_mirror [OF R m [unfolded exact_mirror_def], of s h2 rid] x publish_views(6) [OF rollback(2)] rollback(4)
    by simp
  with m rule_commit_table [OF inv k c] rollback(3) show ?thesis by (simp add: exact_mirror_def)
qed

end
