(* ===== verification/ExactAdd.thy ===== *)
theory ExactAdd
  imports ExactRules
begin

text \<open>
  What the agent checks before it adds an exact-address rule, on its three entry points: the HTTP
  handler (\<^verbatim>\<open>AddRule\<close>), the controller's sync (\<^verbatim>\<open>AddRuleFromSync\<close>) and the batch
  (\<^verbatim>\<open>AddRulesBatch\<close>). Each check is an early return of the source, in the source's order. The
  random ID the agent gives a rule without one is the argument \<open>fresh\<close>.
\<close>

section \<open>Replies\<close>

text \<open>The refusals of an addition; those of the CIDR paths are listed here too.\<close>

datatype rule_error =
    MixedIPAndCIDR
  | BadTcpFlags validation_error
  | FlagsNeedTCP
  | BadRule validation_error
  | BadKey convert_error
  | BadCombo int
  | BadAction validation_error
  | RateLimitRequired
  | BadAnomaly anomaly_error
  | BadSrcCIDR cidr_error
  | BadDstCIDR cidr_error
  | SrcOverlap string string
  | DstOverlap string string
  | SrcAllocFailed cidr_error
  | DstAllocFailed cidr_error

datatype add_reply = Rejected rule_error | Done commit_result

text \<open>\<^verbatim>\<open>if id == "" { id = uuid.New().String() }\<close>\<close>

definition rule_id :: "string \<Rightarrow> string \<Rightarrow> string" where
  "rule_id fresh given = (if given = [] then fresh else given)"

section \<open>Stored rules and values of a request\<close>

definition stored_of :: "RuleKey \<Rightarrow> Rule \<Rightarrow> StoredRule" where
  "stored_of key req =
     \<lparr>sr_Key = key, sr_Action = r_Action req, sr_RateLimit = r_RateLimit req,
      sr_PktLenMin = r_PktLenMin req, sr_PktLenMax = r_PktLenMax req, sr_TcpFlags = r_TcpFlags req,
      sr_MatchAnomaly = r_MatchAnomaly req\<rparr>"

definition value_of :: "u8 \<Rightarrow> u8 \<Rightarrow> u8 \<Rightarrow> Rule \<Rightarrow> RuleValue" where
  "value_of action flagsMask flagsValue req =
     \<lparr>rv_Action = action, rv_TcpFlagsMask = flagsMask, rv_TcpFlagsValue = flagsValue,
      rv_MatchAnomaly = r_MatchAnomaly req, rv_RateLimit = r_RateLimit req, rv_MatchCount = 0,
      rv_DropCount = 0, rv_PktLenMin = r_PktLenMin req, rv_PktLenMax = r_PktLenMax req,
      rv_Pad2 = [0, 0, 0, 0]\<rparr>"

section \<open>The HTTP handler\<close>

text \<open>The checks of the exact path of \<^verbatim>\<open>AddRule\<close>, after the flags have been parsed.\<close>

definition AddRule_checks :: "Rule \<Rightarrow> u8 \<Rightarrow> u8 \<Rightarrow> rule_error + RuleKey \<times> RuleValue" where
  "AddRule_checks req flagsMask flagsValue =
     (case validateRule (r_SrcIP req) (r_DstIP req) (r_Protocol req) (r_SrcPort req) (r_DstPort req)
             (r_PktLenMin req) (r_PktLenMax req) of
        Some e \<Rightarrow> Inl (BadRule e)
      | None \<Rightarrow>
     (case ruleToKey req of
        Inl e \<Rightarrow> Inl (BadKey e)
      | Inr key \<Rightarrow>
     (if \<not> validateComboType (getComboType key) then Inl (BadCombo (getComboType key)) else
     (case parseAction (r_Action req) of
        Inl e \<Rightarrow> Inl (BadAction e)
      | Inr action \<Rightarrow>
     (if action = ActionRateLimit \<and> r_RateLimit req \<le> 0 then Inl RateLimitRequired else
     (case validateNodeAnomalyFields (r_MatchAnomaly req) (r_Action req) (r_SrcIP req) (r_DstIP req)
             (r_SrcCIDR req) (r_DstCIDR req) of
        Some e \<Rightarrow> Inl (BadAnomaly e)
      | None \<Rightarrow> Inr (key, value_of action flagsMask flagsValue req)))))))"

definition AddRule_exact ::
  "('m, 'c, 't) kernel \<Rightarrow> string \<Rightarrow> Rule \<Rightarrow> u8 \<Rightarrow> u8 \<Rightarrow> ('m, 'c, 't) Handlers \<Rightarrow>
   add_reply \<times> ('m, 'c, 't) Handlers" where
  "AddRule_exact K fresh req flagsMask flagsValue h =
     (case AddRule_checks req flagsMask flagsValue of
        Inl e \<Rightarrow> (Rejected e, h)
      | Inr (key, value) \<Rightarrow>
          (let (r, h') = rule_commit K (rule_id fresh (r_ID req)) (stored_of key req) value h
           in (Done r, h')))"

section \<open>The controller's sync\<close>

definition syncRuleToRule :: "SyncRule \<Rightarrow> Rule" where
  "syncRuleToRule rule =
     \<lparr>r_ID = sy_ID rule, r_SrcIP = sy_SrcIP rule, r_DstIP = sy_DstIP rule, r_SrcCIDR = [], r_DstCIDR = [],
      r_SrcPort = sy_SrcPort rule, r_DstPort = sy_DstPort rule, r_Protocol = sy_Protocol rule,
      r_Action = sy_Action rule, r_RateLimit = sy_RateLimit rule, r_PktLenMin = sy_PktLenMin rule,
      r_PktLenMax = sy_PktLenMax rule, r_TcpFlags = sy_TcpFlags rule,
      r_MatchAnomaly = sy_MatchAnomaly rule, r_Comment = []\<rparr>"

definition AddRuleFromSync_checks :: "Rule \<Rightarrow> rule_error + RuleKey \<times> RuleValue" where
  "AddRuleFromSync_checks req =
     (case validateRule (r_SrcIP req) (r_DstIP req) (r_Protocol req) (r_SrcPort req) (r_DstPort req)
             (r_PktLenMin req) (r_PktLenMax req) of
        Some e \<Rightarrow> Inl (BadRule e)
      | None \<Rightarrow>
     (case ruleToKey req of
        Inl e \<Rightarrow> Inl (BadKey e)
      | Inr key \<Rightarrow>
     (if \<not> validateComboType (getComboType key) then Inl (BadCombo (getComboType key)) else
     (case parseAction (r_Action req) of
        Inl e \<Rightarrow> Inl (BadAction e)
      | Inr action \<Rightarrow>
     (if action = ActionRateLimit \<and> r_RateLimit req \<le> 0 then Inl RateLimitRequired else
     (case validateNodeAnomalyFields (r_MatchAnomaly req) (r_Action req) (r_SrcIP req) (r_DstIP req)
             (r_SrcCIDR req) (r_DstCIDR req) of
        Some e \<Rightarrow> Inl (BadAnomaly e)
      | None \<Rightarrow>
     (case parseTcpFlags (r_TcpFlags req) of
        Inl e \<Rightarrow> Inl (BadTcpFlags e)
      | Inr (fm, fv) \<Rightarrow>
     (if fm \<noteq> 0 \<and> parseProtocol (r_Protocol req) \<noteq> ProtoTCP then Inl FlagsNeedTCP
      else Inr (key, value_of action fm fv req)))))))))"

definition AddRuleFromSync_exact ::
  "('m, 'c, 't) kernel \<Rightarrow> string \<Rightarrow> SyncRule \<Rightarrow> ('m, 'c, 't) Handlers \<Rightarrow>
   add_reply \<times> ('m, 'c, 't) Handlers" where
  "AddRuleFromSync_exact K fresh rule h =
     (let req = syncRuleToRule rule in
      case AddRuleFromSync_checks req of
        Inl e \<Rightarrow> (Rejected e, h)
      | Inr (key, value) \<Rightarrow>
          (let (r, h') = rule_commit K (rule_id fresh (sy_ID rule)) (stored_of key req) value h
           in (Done r, h')))"

section \<open>The batch\<close>

text \<open>
  The checks of one exact rule of a batch; the canonical text of its flags replaces the given one.
\<close>

definition batch_checks :: "Rule \<Rightarrow> rule_error + StoredRule \<times> RuleValue" where
  "batch_checks r =
     (case validateRule (r_SrcIP r) (r_DstIP r) (r_Protocol r) (r_SrcPort r) (r_DstPort r)
             (r_PktLenMin r) (r_PktLenMax r) of
        Some e \<Rightarrow> Inl (BadRule e)
      | None \<Rightarrow>
     (case validateNodeAnomalyFields (r_MatchAnomaly r) (r_Action r) (r_SrcIP r) (r_DstIP r)
             (r_SrcCIDR r) (r_DstCIDR r) of
        Some e \<Rightarrow> Inl (BadAnomaly e)
      | None \<Rightarrow>
     (case parseTcpFlags (r_TcpFlags r) of
        Inl e \<Rightarrow> Inl (BadTcpFlags e)
      | Inr (bfm, bfv) \<Rightarrow>
     (if bfm \<noteq> 0 \<and> r_Protocol r \<noteq> ''tcp'' then Inl FlagsNeedTCP else
     (case ruleToKey r of
        Inl e \<Rightarrow> Inl (BadKey e)
      | Inr key \<Rightarrow>
     (if \<not> validateComboType (getComboType key) then Inl (BadCombo (getComboType key)) else
     (case parseAction (r_Action r) of
        Inl e \<Rightarrow> Inl (BadAction e)
      | Inr action \<Rightarrow>
     (if action = ActionRateLimit \<and> r_RateLimit r \<le> 0 then Inl RateLimitRequired
      else Inr (stored_of key (r\<lparr>r_TcpFlags := tcpFlagsToString bfm bfv\<rparr>), value_of action bfm bfv r)))))))))"

record preparedRule =
  pr_id :: string
  pr_stored :: StoredRule
  pr_value :: RuleValue

text \<open>
  \<^verbatim>\<open>seenIDs\<close>: a later rule with the same ID takes the earlier one's place in the list.
\<close>

fun place_prepared :: "preparedRule \<Rightarrow> preparedRule list \<Rightarrow> preparedRule list" where
  "place_prepared p [] = [p]"
| "place_prepared p (q # qs) = (if pr_id q = pr_id p then p # qs else q # place_prepared p qs)"

text \<open>\<open>n\<close> counts the IDs generated so far; the result has the prepared rules and the failures.\<close>

fun prepare_batch ::
  "(nat \<Rightarrow> string) \<Rightarrow> nat \<Rightarrow> Rule list \<Rightarrow> preparedRule list \<Rightarrow> int \<Rightarrow> preparedRule list \<times> int" where
  "prepare_batch fresh n [] prepared failed = (prepared, failed)"
| "prepare_batch fresh n (r # rs) prepared failed =
     (case batch_checks r of
        Inl e \<Rightarrow> prepare_batch fresh n rs prepared (failed + 1)
      | Inr (s, value) \<Rightarrow>
          prepare_batch fresh (if r_ID r = [] then n + 1 else n) rs
            (place_prepared \<lparr>pr_id = rule_id (fresh n) (r_ID r), pr_stored = s, pr_value = value\<rparr> prepared) failed)"

section \<open>What passes the checks\<close>

text \<open>
  A rule that passes has a key the BPF program looks up, and the value written is the one rebuilt
  from the stored rule when a rollback restores it.
\<close>

definition committable :: "StoredRule \<Rightarrow> RuleValue \<Rightarrow> bool" where
  "committable s value \<longleftrightarrow> wf_RuleKey (sr_Key s) \<and> validateComboType (getComboType (sr_Key s)) \<and>
     value = ruleValueFromStored s"

lemma value_restored:
  assumes "parseAction (r_Action req) = Inr a" "parseTcpFlags (r_TcpFlags req) = Inr (m, v)"
  shows "value_of a m v req = ruleValueFromStored (stored_of key req)"
  using assms by (simp add: value_of_def ruleValueFromStored_def stored_of_def)

lemma AddRule_checks_ok:
  assumes "AddRule_checks req fm fv = Inr (key, value)" and "parseTcpFlags (r_TcpFlags req) = Inr (fm, fv)"
  shows "committable (stored_of key req) value"
  using assms value_restored [OF _ assms(2), of _ key]
  by (auto simp: AddRule_checks_def committable_def stored_of_def ruleToKey_wf
      split: option.splits sum.splits if_splits)

lemma AddRuleFromSync_checks_ok:
  assumes "AddRuleFromSync_checks req = Inr (key, value)"
  shows "committable (stored_of key req) value"
  using assms value_restored [of req _ _ _ key]
  by (auto simp: AddRuleFromSync_checks_def committable_def stored_of_def ruleToKey_wf
      split: option.splits sum.splits if_splits)

lemma batch_checks_ok:
  assumes "batch_checks r = Inr (s, value)"
  shows "committable s value"
proof -
  obtain key action fm fv where k: "ruleToKey r = Inr key" "validateComboType (getComboType key)"
    "parseAction (r_Action r) = Inr action" "parseTcpFlags (r_TcpFlags r) = Inr (fm, fv)"
    "s = stored_of key (r\<lparr>r_TcpFlags := tcpFlagsToString fm fv\<rparr>)" "value = value_of action fm fv r"
    using assms by (auto simp: batch_checks_def split: option.splits sum.splits if_splits)
  have "parseTcpFlags (tcpFlagsToString fm fv) = Inr (fm, fv)" using parseTcpFlags_reparse [OF k(4)] by simp
  then have "value_of action fm fv (r\<lparr>r_TcpFlags := tcpFlagsToString fm fv\<rparr>) = ruleValueFromStored s"
    using k(3,5) by (simp add: value_restored)
  then have "value = ruleValueFromStored s" using k(6) by (simp add: value_of_def)
  with k ruleToKey_wf [OF k(1)] show ?thesis by (simp add: committable_def stored_of_def)
qed

text \<open>The prepared rules of a batch are committable and have distinct IDs.\<close>

lemma place_prepared_set:
  "set (place_prepared p qs) \<subseteq> insert p (set qs)" "pr_id ` set (place_prepared p qs) = insert (pr_id p) (pr_id ` set qs)"
  by (induction qs) (auto split: if_splits)

lemma place_prepared_distinct: "distinct (map pr_id qs) \<Longrightarrow> distinct (map pr_id (place_prepared p qs))"
proof (induction qs)
  case (Cons q qs)
  have "pr_id q \<noteq> pr_id p \<Longrightarrow> pr_id q \<notin> pr_id ` set (place_prepared p qs)"
    using Cons.prems by (simp add: place_prepared_set)
  with Cons show ?case by auto
qed simp

definition batch_ready :: "preparedRule list \<Rightarrow> bool" where
  "batch_ready ps \<longleftrightarrow> distinct (map pr_id ps) \<and> (\<forall>p \<in> set ps. committable (pr_stored p) (pr_value p))"

lemma prepare_batch_ready:
  "prepare_batch fresh n rs prepared failed = (ps, f) \<Longrightarrow> batch_ready prepared \<Longrightarrow> batch_ready ps"
proof (induction rs arbitrary: n prepared failed)
  case (Cons r rs)
  show ?case
  proof (cases "batch_checks r")
    case (Inl e)
    with Cons show ?thesis by simp
  next
    case (Inr sv)
    obtain s vl where sv: "sv = (s, vl)" by force
    let ?p = "\<lparr>pr_id = rule_id (fresh n) (r_ID r), pr_stored = s, pr_value = vl\<rparr>"
    have "batch_ready (place_prepared ?p prepared)"
      using Cons.prems(2) place_prepared_set(1) [of ?p prepared] batch_checks_ok [of r s vl] Inr sv
        place_prepared_distinct [of prepared ?p]
      unfolding batch_ready_def by fastforce
    with Cons.IH Cons.prems(1) Inr sv show ?thesis by simp
  qed
qed simp

end
