(* ===== verification/CidrRules.thy ===== *)
theory CidrRules
  imports ExactAdd
begin

text \<open>
  Adding a CIDR rule (\<^verbatim>\<open>node/agent/api/cidr_rules.go\<close>): \<^verbatim>\<open>addCIDRRule\<close> on the HTTP path and
  \<^verbatim>\<open>addCIDRRuleFromSync\<close> on the sync path. Both normalise the prefixes, refuse overlaps, take an ID
  per prefix from the CIDR manager, commit the rule under the IDs, and give the IDs back on every
  failure; the IDs of a replaced rule are released only after the publish. The table of CIDR rules
  is an interpretation of \<open>mirrored_table\<close>, and the references held on the manager are tracked with
  the contract \<open>id_allocator\<close>.
\<close>

section \<open>Prefixes and their IDs\<close>

text \<open>The empty prefix is left out.\<close>

definition normalize_if :: "string \<Rightarrow> cidr_error + string" where
  "normalize_if c = (if c \<noteq> [] then NormalizeCIDR c else Inr [])"

text \<open>\<^verbatim>\<open>if conflict, _ := cidr.CheckOverlap(c, existing); conflict != ""\<close>\<close>

definition overlap_conflict :: "string \<Rightarrow> string list \<Rightarrow> string" where
  "overlap_conflict c existing =
     (if c \<noteq> [] then (case CheckOverlap c existing of Inl _ \<Rightarrow> [] | Inr conflict \<Rightarrow> conflict) else [])"

definition ReleaseSrc_if :: "'t TrieWriter \<Rightarrow> string \<Rightarrow> 't Manager \<Rightarrow> 't Manager" where
  "ReleaseSrc_if tw c m = (if c \<noteq> [] then snd (ReleaseSrcID tw m c) else m)"

definition ReleaseDst_if :: "'t TrieWriter \<Rightarrow> string \<Rightarrow> 't Manager \<Rightarrow> 't Manager" where
  "ReleaseDst_if tw c m = (if c \<noteq> [] then snd (ReleaseDstID tw m c) else m)"

text \<open>The release of both prefixes, on every failure path and for a replaced or deleted rule.\<close>

definition release_ids :: "'t TrieWriter \<Rightarrow> string \<Rightarrow> string \<Rightarrow> 't Manager \<Rightarrow> 't Manager" where
  "release_ids tw srcCIDR dstCIDR m = ReleaseDst_if tw dstCIDR (ReleaseSrc_if tw srcCIDR m)"

definition alloc_ids ::
  "'t TrieWriter \<Rightarrow> string \<Rightarrow> string \<Rightarrow> 't Manager \<Rightarrow> (rule_error + u32 \<times> u32) \<times> 't Manager" where
  "alloc_ids tw srcCIDR dstCIDR m =
     (case (if srcCIDR \<noteq> [] then AllocSrcID tw m srcCIDR else (Inr 0, m)) of
        (Inl e, m1) \<Rightarrow> (Inl (SrcAllocFailed e), m1)
      | (Inr srcID, m1) \<Rightarrow>
          (case (if dstCIDR \<noteq> [] then AllocDstID tw m1 dstCIDR else (Inr 0, m1)) of
             (Inl e, m2) \<Rightarrow> (Inl (DstAllocFailed e), ReleaseSrc_if tw srcCIDR m2)
           | (Inr dstID, m2) \<Rightarrow> (Inr (srcID, dstID), m2)))"

section \<open>Updates of the agent's maps\<close>

definition add_cidr_memory ::
  "string \<Rightarrow> StoredCIDRRule \<Rightarrow> ('m, 'c, 't) Handlers \<Rightarrow> ('m, 'c, 't) Handlers" where
  "add_cidr_memory rid s h =
     (let oldStored = map_of (cidrRules h) rid;
          h1 = (case oldStored of
                  Some old \<Rightarrow>
                    h\<lparr>cidrComboRefCount := refs_dec (getCIDRComboType (sc_Key old)) (cidrComboRefCount h),
                      cidrRuleKeyIndex := AList.delete (sc_Key old) (cidrRuleKeyIndex h)\<rparr>
                | None \<Rightarrow> h)
      in h1\<lparr>cidrComboRefCount := refs_inc (getCIDRComboType (sc_Key s)) (cidrComboRefCount h1),
            cidrRules := AList.update rid s (cidrRules h1),
            cidrRuleKeyIndex := AList.update (sc_Key s) rid (cidrRuleKeyIndex h1)\<rparr>)"

definition drop_cidr_memory ::
  "string \<Rightarrow> StoredCIDRRule \<Rightarrow> ('m, 'c, 't) Handlers \<Rightarrow> ('m, 'c, 't) Handlers" where
  "drop_cidr_memory rid s h =
     h\<lparr>cidrComboRefCount := refs_dec (getCIDRComboType (sc_Key s)) (cidrComboRefCount h),
       cidrRules := AList.delete rid (cidrRules h),
       cidrRuleKeyIndex := AList.delete (sc_Key s) (cidrRuleKeyIndex h)\<rparr>"

definition restore_cidr_memory ::
  "string \<Rightarrow> StoredCIDRRule \<Rightarrow> ('m, 'c, 't) Handlers \<Rightarrow> ('m, 'c, 't) Handlers" where
  "restore_cidr_memory rid old h =
     h\<lparr>cidrComboRefCount := refs_inc (getCIDRComboType (sc_Key old)) (cidrComboRefCount h),
       cidrRules := AList.update rid old (cidrRules h),
       cidrRuleKeyIndex := AList.update (sc_Key old) rid (cidrRuleKeyIndex h)\<rparr>"

definition with_mgr :: "('t Manager \<Rightarrow> 't Manager) \<Rightarrow> ('m, 'c, 't) Handlers \<Rightarrow> ('m, 'c, 't) Handlers" where
  "with_mgr f h = h\<lparr>cidrMgr := f (cidrMgr h)\<rparr>"

section \<open>The critical section\<close>

text \<open>The duplicate-key check and steps 1 to 3.\<close>

definition cidr_stage ::
  "('m, 'c, 't) kernel \<Rightarrow> string \<Rightarrow> StoredCIDRRule \<Rightarrow> RuleValue \<Rightarrow> ('m, 'c, 't) Handlers \<Rightarrow>
   commit_result option \<times> ('m, 'c, 't) Handlers" where
  "cidr_stage K rid s value h =
     (let ck = sc_Key s in
      case key_conflict (cidrRuleKeyIndex h) ck rid of
        Some existingID \<Rightarrow> (Some (KeyConflict existingID), h)
      | None \<Rightarrow>
          (let oldStored = map_of (cidrRules h) rid
           in case replace_bpf (hash K) (activeCidrBlacklist h) (cidrRuleKeyToBytes ck)
                     (ruleValueToBytes value) (stale_key sc_Key cidrRuleKeyToBytes oldStored ck) of
                (Some e, cbl) \<Rightarrow> (Some (BpfFailed e), set_activeCidrBlacklist cbl h)
              | (None, cbl) \<Rightarrow> (None, add_cidr_memory rid s (set_activeCidrBlacklist cbl h))))"

text \<open>
  The rollback after a failed publish: the new rule goes, its IDs are released, and the replaced rule
  comes back with the IDs it still holds.
\<close>

definition cidr_rollback ::
  "('m, 'c, 't) kernel \<Rightarrow> string \<Rightarrow> StoredCIDRRule \<Rightarrow> StoredCIDRRule option \<Rightarrow>
   ('m, 'c, 't) Handlers \<Rightarrow> ('m, 'c, 't) Handlers" where
  "cidr_rollback K rid s oldStored h =
     (let h1 = set_activeCidrBlacklist
                 (snd (Delete (hash K) (activeCidrBlacklist h) (cidrRuleKeyToBytes (sc_Key s)))) h;
          h2 = drop_cidr_memory rid s h1;
          h3 = with_mgr (release_ids (trie K) (sc_SrcCIDR s) (sc_DstCIDR s)) h2
      in case oldStored of
           None \<Rightarrow> h3
         | Some old \<Rightarrow>
             restore_cidr_memory rid old
               (set_activeCidrBlacklist
                  (snd (UpdateNoExist (hash K) (activeCidrBlacklist h3) (cidrRuleKeyToBytes (sc_Key old))
                     (ruleValueToBytes (ruleValueFromStoredCIDR old)))) h3))"

definition cidr_commit ::
  "('m, 'c, 't) kernel \<Rightarrow> string \<Rightarrow> StoredCIDRRule \<Rightarrow> RuleValue \<Rightarrow> ('m, 'c, 't) Handlers \<Rightarrow>
   commit_result \<times> ('m, 'c, 't) Handlers" where
  "cidr_commit K rid s value h =
     (let oldStored = map_of (cidrRules h) rid;
          countDelta = (if oldStored = None then 1 else 0)
      in case cidr_stage K rid s value h of
           (Some r, h1) \<Rightarrow> (r, with_mgr (release_ids (trie K) (sc_SrcCIDR s) (sc_DstCIDR s)) h1)
         | (None, h1) \<Rightarrow>
             (case publishConfigUpdate K 0 0 countDelta h1 of
                (Some e, h2) \<Rightarrow> (PublishFailed e, cidr_rollback K rid s oldStored h2)
              | (None, h2) \<Rightarrow>
                  (Committed rid,
                   (case oldStored of
                      None \<Rightarrow> h2
                    | Some old \<Rightarrow> with_mgr (release_ids (trie K) (sc_SrcCIDR old) (sc_DstCIDR old)) h2))))"

section \<open>The two entry points\<close>

definition build_cidr_key :: "u32 \<Rightarrow> u32 \<Rightarrow> u16 \<Rightarrow> u16 \<Rightarrow> string \<Rightarrow> CIDRRuleKey" where
  "build_cidr_key srcID dstID srcPort dstPort protocol =
     \<lparr>ck_SrcID = srcID, ck_DstID = dstID, ck_SrcPort = htons srcPort, ck_DstPort = htons dstPort,
      ck_Protocol = parseProtocol protocol, ck_Pad = [0, 0, 0]\<rparr>"

definition stored_cidr_of :: "CIDRRuleKey \<Rightarrow> string \<Rightarrow> string \<Rightarrow> Rule \<Rightarrow> StoredCIDRRule" where
  "stored_cidr_of ck srcCIDR dstCIDR req =
     \<lparr>sc_Key = ck, sc_SrcCIDR = srcCIDR, sc_DstCIDR = dstCIDR, sc_Action = r_Action req,
      sc_RateLimit = r_RateLimit req, sc_PktLenMin = r_PktLenMin req, sc_PktLenMax = r_PktLenMax req,
      sc_TcpFlags = r_TcpFlags req, sc_MatchAnomaly = r_MatchAnomaly req\<rparr>"

text \<open>Action, rate limit, anomaly and port checks, the same on both paths.\<close>

definition cidr_field_checks :: "Rule \<Rightarrow> rule_error + u8" where
  "cidr_field_checks req =
     (case parseAction (r_Action req) of
        Inl e \<Rightarrow> Inl (BadAction e)
      | Inr action \<Rightarrow>
     (if action = ActionRateLimit \<and> r_RateLimit req \<le> 0 then Inl RateLimitRequired else
     (case validateNodeAnomalyFields (r_MatchAnomaly req) (r_Action req) (r_SrcIP req) (r_DstIP req)
             (r_SrcCIDR req) (r_DstCIDR req) of
        Some e \<Rightarrow> Inl (BadAnomaly e)
      | None \<Rightarrow>
     (case validatePortProtocolCompatNode (r_Protocol req) (r_SrcPort req) (r_DstPort req) of
        Some e \<Rightarrow> Inl (BadRule e)
      | None \<Rightarrow> Inr action))))"

text \<open>Normalisation and overlap detection: the normalised prefixes.\<close>

definition cidr_prefix_checks :: "Rule \<Rightarrow> 't Manager \<Rightarrow> rule_error + string \<times> string" where
  "cidr_prefix_checks req m =
     (case normalize_if (r_SrcCIDR req) of
        Inl e \<Rightarrow> Inl (BadSrcCIDR e)
      | Inr srcCIDR \<Rightarrow>
     (case normalize_if (r_DstCIDR req) of
        Inl e \<Rightarrow> Inl (BadDstCIDR e)
      | Inr dstCIDR \<Rightarrow>
     (let conflict = overlap_conflict srcCIDR (ListSrcCIDRs m) in
      if conflict \<noteq> [] then Inl (SrcOverlap srcCIDR conflict) else
      let conflict = overlap_conflict dstCIDR (ListDstCIDRs m) in
      if conflict \<noteq> [] then Inl (DstOverlap dstCIDR conflict)
      else Inr (srcCIDR, dstCIDR))))"

text \<open>From the allocation on: the part both entry points share.\<close>

definition cidr_alloc_commit ::
  "('m, 'c, 't) kernel \<Rightarrow> string \<Rightarrow> Rule \<Rightarrow> string \<Rightarrow> string \<Rightarrow> RuleValue \<Rightarrow> ('m, 'c, 't) Handlers \<Rightarrow>
   add_reply \<times> ('m, 'c, 't) Handlers" where
  "cidr_alloc_commit K rid req srcCIDR dstCIDR value h =
     (case alloc_ids (trie K) srcCIDR dstCIDR (cidrMgr h) of
        (Inl e, m) \<Rightarrow> (Rejected e, h\<lparr>cidrMgr := m\<rparr>)
      | (Inr (srcID, dstID), m) \<Rightarrow>
          (let h1 = h\<lparr>cidrMgr := m\<rparr>;
               ck = build_cidr_key srcID dstID (r_SrcPort req) (r_DstPort req) (r_Protocol req)
           in if \<not> validateComboType (getCIDRComboType ck)
              then (Rejected (BadCombo (getCIDRComboType ck)),
                    with_mgr (release_ids (trie K) srcCIDR dstCIDR) h1)
              else
                let (r, h2) = cidr_commit K rid (stored_cidr_of ck srcCIDR dstCIDR req) value h1
                in (Done r, h2)))"

definition addCIDRRule ::
  "('m, 'c, 't) kernel \<Rightarrow> string \<Rightarrow> Rule \<Rightarrow> u8 \<Rightarrow> u8 \<Rightarrow> ('m, 'c, 't) Handlers \<Rightarrow>
   add_reply \<times> ('m, 'c, 't) Handlers" where
  "addCIDRRule K fresh req flagsMask flagsValue h =
     (case cidr_field_checks req of
        Inl e \<Rightarrow> (Rejected e, h)
      | Inr action \<Rightarrow>
     (case cidr_prefix_checks req (cidrMgr h) of
        Inl e \<Rightarrow> (Rejected e, h)
      | Inr (srcCIDR, dstCIDR) \<Rightarrow>
          cidr_alloc_commit K (rule_id fresh (r_ID req)) req srcCIDR dstCIDR
            (value_of action flagsMask flagsValue req) h))"

text \<open>The sync form of a rule, with its prefixes, as the request the checks read.\<close>

definition syncRuleFields :: "SyncRule \<Rightarrow> Rule" where
  "syncRuleFields rule =
     (syncRuleToRule rule)\<lparr>r_SrcCIDR := sy_SrcCIDR rule, r_DstCIDR := sy_DstCIDR rule\<rparr>"

definition addCIDRRuleFromSync ::
  "('m, 'c, 't) kernel \<Rightarrow> string \<Rightarrow> SyncRule \<Rightarrow> ('m, 'c, 't) Handlers \<Rightarrow>
   add_reply \<times> ('m, 'c, 't) Handlers" where
  "addCIDRRuleFromSync K fresh rule h =
     (let req = syncRuleFields rule in
      case cidr_field_checks req of
        Inl e \<Rightarrow> (Rejected e, h)
      | Inr action \<Rightarrow>
     (case cidr_prefix_checks req (cidrMgr h) of
        Inl e \<Rightarrow> (Rejected e, h)
      | Inr (srcCIDR, dstCIDR) \<Rightarrow>
     (case parseTcpFlags (r_TcpFlags req) of
        Inl e \<Rightarrow> (Rejected (BadTcpFlags e), h)
      | Inr (sfm, sfv) \<Rightarrow>
     (if sfm \<noteq> 0 \<and> parseProtocol (r_Protocol req) \<noteq> ProtoTCP then (Rejected FlagsNeedTCP, h)
      else cidr_alloc_commit K (rule_id fresh (sy_ID rule)) req srcCIDR dstCIDR
             (value_of action sfm sfv req) h))))"

section \<open>The CIDR rules are a mirrored table\<close>

definition cidr_inv :: "('m, 'c, 't) Handlers \<Rightarrow> bool" where
  "cidr_inv h \<longleftrightarrow>
     tbl_inv sc_Key getCIDRComboType wf_CIDRRuleKey (cidrRules h) (cidrRuleKeyIndex h) (cidrComboRefCount h)"

definition cidr_val :: "StoredCIDRRule \<Rightarrow> bytes" where
  "cidr_val s = ruleValueToBytes (ruleValueFromStoredCIDR s)"

lemma add_cidr_memory_fields:
  "cidrRules (add_cidr_memory rid s h) = AList.update rid s (cidrRules h)"
  "cidrRuleKeyIndex (add_cidr_memory rid s h) = put_index sc_Key (map_of (cidrRules h) rid) rid s (cidrRuleKeyIndex h)"
  "cidrComboRefCount (add_cidr_memory rid s h) = put_refs sc_Key getCIDRComboType (map_of (cidrRules h) rid) s (cidrComboRefCount h)"
  by (auto simp: add_cidr_memory_def Let_def put_index_def put_refs_def split: option.splits)

interpretation cidrs: mirrored_table "\<lambda>h. map_of (cidrRules h)" "\<lambda>h. map_of (cidrRuleKeyIndex h)"
  "\<lambda>h. combo_bitmap (cidrComboRefCount h)" add_cidr_memory drop_cidr_memory sc_Key getCIDRComboType
  wf_CIDRRuleKey cidr_inv cidrRuleKeyToBytes cidr_val
proof unfold_locales
  fix h :: "('a, 'b, 'c) Handlers" and k rid s c
  show "map_of (cidrRules (add_cidr_memory rid s h)) = (map_of (cidrRules h))(rid \<mapsto> s)"
    by (simp add: add_cidr_memory_fields)
  show "map_of (cidrRules (drop_cidr_memory rid s h)) = (map_of (cidrRules h))(rid := None)"
    by (simp add: drop_cidr_memory_def)
  assume inv: "cidr_inv h"
  note t = inv [unfolded cidr_inv_def]
  show "map_of (cidrRuleKeyIndex h) k = Some rid \<longleftrightarrow> (\<exists>s. map_of (cidrRules h) rid = Some s \<and> sc_Key s = k)"
    by (rule tbl_invD(4) [OF t])
  show "bit (combo_bitmap (cidrComboRefCount h)) c \<longleftrightarrow>
      c < 64 \<and> (\<exists>rid s. map_of (cidrRules h) rid = Some s \<and> getCIDRComboType (sc_Key s) = int c)"
    by (rule tbl_bitmap [OF t])
  show "map_of (cidrRules h) rid = Some s \<Longrightarrow>
      wf_CIDRRuleKey (sc_Key s) \<and> 0 \<le> getCIDRComboType (sc_Key s) \<and> getCIDRComboType (sc_Key s) < 64"
    using tbl_invD(6-8) [OF t] by blast
  show "map_of (cidrRuleKeyIndex h) (sc_Key s) = None \<or> map_of (cidrRuleKeyIndex h) (sc_Key s) = Some rid \<Longrightarrow>
      wf_CIDRRuleKey (sc_Key s) \<Longrightarrow> 0 \<le> getCIDRComboType (sc_Key s) \<Longrightarrow> getCIDRComboType (sc_Key s) < 64 \<Longrightarrow>
      cidr_inv (add_cidr_memory rid s h)"
    using tbl_put [OF t] by (simp add: cidr_inv_def add_cidr_memory_fields)
  show "map_of (cidrRules h) rid = Some s \<Longrightarrow> cidr_inv (drop_cidr_memory rid s h)"
    using tbl_drop [OF t] by (simp add: cidr_inv_def drop_cidr_memory_def)
next
  fix k l show "wf_CIDRRuleKey k \<Longrightarrow> wf_CIDRRuleKey l \<Longrightarrow> cidrRuleKeyToBytes k = cidrRuleKeyToBytes l \<longleftrightarrow> k = l"
    by (rule cidr_key.enc_eq_iff)
qed

end
