(* ===== verification/CidrCommit.thy ===== *)
theory CidrCommit
  imports CidrRules
begin

text \<open>
  What the critical section of a CIDR addition does to the table of CIDR rules, the rest of the
  agent's state, the published configuration and the BPF map.
\<close>

section \<open>Views\<close>

lemma restore_cidr_is_put:
  "map_of (cidrRules h) rid = None \<Longrightarrow> restore_cidr_memory rid old h = add_cidr_memory rid old h"
  by (simp add: restore_cidr_memory_def add_cidr_memory_def)

lemma cidr_inv_view: "cidr_view g = cidr_view h \<Longrightarrow> cidr_inv g = cidr_inv h"
  by (simp add: cidr_view_def cidr_inv_def)

lemma cidr_ops_views [simp]:
  "exact_view (add_cidr_memory rid s h) = exact_view h" "wl_view (add_cidr_memory rid s h) = wl_view h"
  "config_view (add_cidr_memory rid s h) = config_view h" "slots_view (add_cidr_memory rid s h) = slots_view h"
  "cidrMgr (add_cidr_memory rid s h) = cidrMgr h"
  "activeBlacklist (add_cidr_memory rid s h) = activeBlacklist h"
  "activeCidrBlacklist (add_cidr_memory rid s h) = activeCidrBlacklist h"
  "activeWhitelist (add_cidr_memory rid s h) = activeWhitelist h"
  "exact_view (drop_cidr_memory rid s h) = exact_view h" "wl_view (drop_cidr_memory rid s h) = wl_view h"
  "config_view (drop_cidr_memory rid s h) = config_view h" "slots_view (drop_cidr_memory rid s h) = slots_view h"
  "cidrMgr (drop_cidr_memory rid s h) = cidrMgr h"
  "activeBlacklist (drop_cidr_memory rid s h) = activeBlacklist h"
  "activeCidrBlacklist (drop_cidr_memory rid s h) = activeCidrBlacklist h"
  "activeWhitelist (drop_cidr_memory rid s h) = activeWhitelist h"
  "exact_view (restore_cidr_memory rid s h) = exact_view h" "wl_view (restore_cidr_memory rid s h) = wl_view h"
  "config_view (restore_cidr_memory rid s h) = config_view h" "slots_view (restore_cidr_memory rid s h) = slots_view h"
  "cidrMgr (restore_cidr_memory rid s h) = cidrMgr h"
  "activeBlacklist (restore_cidr_memory rid s h) = activeBlacklist h"
  "activeCidrBlacklist (restore_cidr_memory rid s h) = activeCidrBlacklist h"
  "activeWhitelist (restore_cidr_memory rid s h) = activeWhitelist h"
  by (auto simp: view_defs map_defs add_cidr_memory_def drop_cidr_memory_def restore_cidr_memory_def Let_def
      split: option.splits)

lemma with_mgr_views [simp]:
  "exact_view (with_mgr f h) = exact_view h" "cidr_view (with_mgr f h) = cidr_view h"
  "wl_view (with_mgr f h) = wl_view h" "config_view (with_mgr f h) = config_view h"
  "slots_view (with_mgr f h) = slots_view h" "cidrMgr (with_mgr f h) = f (cidrMgr h)"
  "activeBlacklist (with_mgr f h) = activeBlacklist h"
  "activeCidrBlacklist (with_mgr f h) = activeCidrBlacklist h"
  "activeWhitelist (with_mgr f h) = activeWhitelist h" "cidrRules (with_mgr f h) = cidrRules h"
  by (simp_all add: with_mgr_def view_defs map_defs)

lemma cidrMgr_update_views [simp]:
  "exact_view (h\<lparr>cidrMgr := m\<rparr>) = exact_view h" "cidr_view (h\<lparr>cidrMgr := m\<rparr>) = cidr_view h"
  "wl_view (h\<lparr>cidrMgr := m\<rparr>) = wl_view h" "config_view (h\<lparr>cidrMgr := m\<rparr>) = config_view h"
  "slots_view (h\<lparr>cidrMgr := m\<rparr>) = slots_view h" "activeBlacklist (h\<lparr>cidrMgr := m\<rparr>) = activeBlacklist h"
  "activeCidrBlacklist (h\<lparr>cidrMgr := m\<rparr>) = activeCidrBlacklist h"
  "activeWhitelist (h\<lparr>cidrMgr := m\<rparr>) = activeWhitelist h"
  by (simp_all add: view_defs map_defs)

lemma cidr_view_ops:
  "cidr_view g = cidr_view h \<Longrightarrow> cidr_view (add_cidr_memory rid s g) = cidr_view (add_cidr_memory rid s h)"
  "cidr_view g = cidr_view h \<Longrightarrow> cidr_view (drop_cidr_memory rid s g) = cidr_view (drop_cidr_memory rid s h)"
  by (simp_all add: cidr_view_def add_cidr_memory_fields) (simp_all add: drop_cidr_memory_def)

definition undo_cidr ::
  "string \<Rightarrow> StoredCIDRRule \<Rightarrow> StoredCIDRRule option \<Rightarrow> ('m, 'c, 't) Handlers \<Rightarrow> ('m, 'c, 't) Handlers" where
  "undo_cidr rid s old h =
     (case old of
        None \<Rightarrow> drop_cidr_memory rid s h
      | Some o' \<Rightarrow> add_cidr_memory rid o' (drop_cidr_memory rid s h))"

lemma undo_cidr_view: "cidr_view g = cidr_view h \<Longrightarrow> cidr_view (undo_cidr rid s old g) = cidr_view (undo_cidr rid s old h)"
  by (auto simp: undo_cidr_def intro!: cidr_view_ops split: option.splits)

lemma cidr_rollback_views:
  "cidr_view (cidr_rollback K rid s old h) = cidr_view (undo_cidr rid s old h)"
  "exact_view (cidr_rollback K rid s old h) = exact_view h" "wl_view (cidr_rollback K rid s old h) = wl_view h"
  "config_view (cidr_rollback K rid s old h) = config_view h" "slots_view (cidr_rollback K rid s old h) = slots_view h"
  "cidrMgr (cidr_rollback K rid s old h) = release_ids (trie K) (sc_SrcCIDR s) (sc_DstCIDR s) (cidrMgr h)"
  "activeBlacklist (cidr_rollback K rid s old h) = activeBlacklist h"
  "activeWhitelist (cidr_rollback K rid s old h) = activeWhitelist h"
proof -
  have r: "cidr_view (restore_cidr_memory rid o' g) = cidr_view (add_cidr_memory rid o' (drop_cidr_memory rid s h))"
    if v: "cidr_view g = cidr_view (drop_cidr_memory rid s h)" for o' g
  proof -
    have "map_of (cidrRules g) rid = None" using view_fields(2) [OF v] by (simp add: drop_cidr_memory_def)
    then show ?thesis using cidr_view_ops(1) [OF v] by (simp add: restore_cidr_is_put)
  qed
  have d: "cidr_view (drop_cidr_memory rid s (set_activeCidrBlacklist m h)) = cidr_view (drop_cidr_memory rid s h)" for m
    by (rule cidr_view_ops) simp
  show "cidr_view (cidr_rollback K rid s old h) = cidr_view (undo_cidr rid s old h)"
    by (cases old) (simp_all add: cidr_rollback_def undo_cidr_def Let_def d r)
qed (auto simp: cidr_rollback_def Let_def split: option.splits)

lemma undo_cidr_restores:
  assumes "cidr_inv h" "cidr_inv (add_cidr_memory rid s h)" "cidr_view g = cidr_view (add_cidr_memory rid s h)"
  shows "cidr_inv (undo_cidr rid s (map_of (cidrRules h) rid) g) \<and>
    map_of (cidrRules (undo_cidr rid s (map_of (cidrRules h) rid) g)) = map_of (cidrRules h)"
proof -
  note v = undo_cidr_view [OF assms(3), of rid s "map_of (cidrRules h) rid"]
  have "cidr_inv (undo_cidr rid s (map_of (cidrRules h) rid) (add_cidr_memory rid s h)) \<and>
    map_of (cidrRules (undo_cidr rid s (map_of (cidrRules h) rid) (add_cidr_memory rid s h))) = map_of (cidrRules h)"
    using cidrs.put_drop_inv [OF assms(1,2)] cidrs.put_drop_put_inv [OF assms(1,2)]
      cidrs.put_drop_entries [of h rid s] cidrs.put_drop_put_entries [of h rid _ s]
    by (auto simp: undo_cidr_def split: option.splits)
  then show ?thesis by (simp add: cidr_inv_view [OF v] view_fields(2) [OF v])
qed

section \<open>Before the publish\<close>

abbreviation (input) cidr_replaced where
  "cidr_replaced K rid s value h r \<equiv>
     replace_bpf (hash K) (activeCidrBlacklist h) (cidrRuleKeyToBytes (sc_Key s)) (ruleValueToBytes value)
       (stale_key sc_Key cidrRuleKeyToBytes (map_of (cidrRules h) rid) (sc_Key s)) = r"

lemma cidr_stage_cases:
  assumes "cidr_stage K rid s value h = (r, h')"
  obtains (conflict) e where "r = Some (KeyConflict e)" "h' = h" "map_of (cidrRuleKeyIndex h) (sc_Key s) = Some e" "e \<noteq> rid"
  | (bpf) e bl where "key_conflict (cidrRuleKeyIndex h) (sc_Key s) rid = None" "cidr_replaced K rid s value h (Some e, bl)"
      "r = Some (BpfFailed e)" "h' = set_activeCidrBlacklist bl h"
  | (ok) bl where "key_conflict (cidrRuleKeyIndex h) (sc_Key s) rid = None" "cidr_replaced K rid s value h (None, bl)"
      "r = None" "h' = add_cidr_memory rid s (set_activeCidrBlacklist bl h)"
proof (cases "key_conflict (cidrRuleKeyIndex h) (sc_Key s) rid")
  case (Some e)
  then show ?thesis
    using assms conflict [of e] conflict_Some [OF Some] Some by (auto simp: cidr_stage_def)
next
  case None
  obtain e bl where b: "cidr_replaced K rid s value h (e, bl)" by force
  show ?thesis
    using assms None b bpf [OF None] ok [OF None] by (cases e) (simp_all add: cidr_stage_def)
qed

lemma add_cidr_inv:
  assumes "cidr_inv h" "wf_CIDRRuleKey (sc_Key s)" "validateComboType (getCIDRComboType (sc_Key s))"
    and "key_conflict (cidrRuleKeyIndex h) (sc_Key s) rid = None"
  shows "cidr_inv (add_cidr_memory rid s h)"
  using cidrs.put_inv [OF assms(1) no_conflict [OF assms(4)] assms(2)] assms(3) by (simp add: validateComboType_iff)

lemma cidr_stage_table:
  assumes inv: "cidr_inv h" and k: "wf_CIDRRuleKey (sc_Key s)" "validateComboType (getCIDRComboType (sc_Key s))"
    and c: "cidr_stage K rid s value h = (r, h')"
  shows "cidr_inv h' \<and> cidr_view h' = cidr_view (if r = None then add_cidr_memory rid s h else h) \<and>
    (r = None \<longrightarrow> cidr_inv (add_cidr_memory rid s h))"
  using c
proof (cases rule: cidr_stage_cases)
  case (ok bl)
  have v: "cidr_view h' = cidr_view (add_cidr_memory rid s h)"
    using ok(4) cidr_view_ops(1) [OF set_map_views(8)] by simp
  with cidr_inv_view [OF v] add_cidr_inv [OF inv k ok(1)] ok(3) show ?thesis by simp
next
  case (bpf e bl)
  with inv cidr_inv_view [of h' h] show ?thesis by simp
qed (use inv in simp_all)

lemma cidr_stage_frame:
  assumes "cidr_stage K rid s value h = (r, h')"
  shows "exact_view h' = exact_view h \<and> wl_view h' = wl_view h \<and> slots_view h' = slots_view h \<and>
    config_view h' = config_view h \<and> cidrMgr h' = cidrMgr h \<and>
    activeBlacklist h' = activeBlacklist h \<and> activeWhitelist h' = activeWhitelist h"
  using assms by (cases rule: cidr_stage_cases) simp_all

definition cidr_mirror :: "('m \<Rightarrow> bytes \<Rightarrow> bytes option) \<Rightarrow> ('m, 'c, 't) Handlers \<Rightarrow> bool" where
  "cidr_mirror get h \<longleftrightarrow>
     image_of (\<lambda>s. cidrRuleKeyToBytes (sc_Key s)) cidr_val (map_of (cidrRules h)) (get (activeCidrBlacklist h))"

lemma cidr_stage_mirror:
  assumes R: "hash_reliable (hash K) get" and inv: "cidr_inv h"
    and k: "wf_CIDRRuleKey (sc_Key s)" and v: "value = ruleValueFromStoredCIDR s" and m: "cidr_mirror get h"
    and c: "cidr_stage K rid s value h = (r, h')"
  shows "cidr_mirror get h' \<and>
    (r = None \<longleftrightarrow> map_of (cidrRuleKeyIndex h) (sc_Key s) = None) \<and>
    (r = None \<longrightarrow> get (activeCidrBlacklist h) (cidrRuleKeyToBytes (sc_Key s)) = None \<and>
      get (activeCidrBlacklist h') = (case map_of (cidrRules h) rid of None \<Rightarrow> get (activeCidrBlacklist h)
        | Some old \<Rightarrow> (get (activeCidrBlacklist h))(cidrRuleKeyToBytes (sc_Key old) := None))(cidrRuleKeyToBytes (sc_Key s) \<mapsto> cidr_val s)) \<and>
    (r \<noteq> None \<longrightarrow> get (activeCidrBlacklist h') = get (activeCidrBlacklist h))"
proof -
  note im = m [unfolded cidr_mirror_def]
  have val: "ruleValueToBytes value = cidr_val s" by (simp add: v cidr_val_def)
  note x = cidrs.replace_reliable [OF R inv k im, of rid]
  have own: "(\<exists>old. map_of (cidrRules h) rid = Some old \<and> sc_Key old = sc_Key s) \<longleftrightarrow> map_of (cidrRuleKeyIndex h) (sc_Key s) = Some rid"
    using cidrs.owner_iff [OF inv] by blast
  show ?thesis
    using c
  proof (cases rule: cidr_stage_cases)
    case (conflict e)
    with m show ?thesis by simp
  next
    case (bpf e bl)
    have "get bl = get (activeCidrBlacklist h)" "map_of (cidrRuleKeyIndex h) (sc_Key s) = Some rid"
      using x [OF no_conflict [OF bpf(1)] bpf(2) [unfolded val]] own by (auto split: if_splits)
    with im bpf show ?thesis by (simp add: cidr_mirror_def)
  next
    case (ok bl)
    note y = x [OF no_conflict [OF ok(1)] ok(2) [unfolded val]]
    have "map_of (cidrRuleKeyIndex h) (sc_Key s) = None"
      using y own no_conflict [OF ok(1)] by (auto split: if_splits)
    with y ok show ?thesis by (auto simp: cidr_mirror_def add_cidr_memory_fields split: if_splits)
  qed
qed

section \<open>The whole critical section\<close>

lemma cidr_commit_cases:
  assumes "cidr_commit K rid s value h = (r, h')"
  obtains (failed) h1 where "cidr_stage K rid s value h = (Some r, h1)" "\<forall>x. r \<noteq> Committed x"
      "h' = with_mgr (release_ids (trie K) (sc_SrcCIDR s) (sc_DstCIDR s)) h1"
  | (ok) h1 h2 where "cidr_stage K rid s value h = (None, h1)"
      "publishConfigUpdate K 0 0 (if map_of (cidrRules h) rid = None then 1 else 0) h1 = (None, h2)" "r = Committed rid"
      "h' = (case map_of (cidrRules h) rid of None \<Rightarrow> h2
         | Some old \<Rightarrow> with_mgr (release_ids (trie K) (sc_SrcCIDR old) (sc_DstCIDR old)) h2)"
  | (rollback) h1 e h2 where "cidr_stage K rid s value h = (None, h1)"
      "publishConfigUpdate K 0 0 (if map_of (cidrRules h) rid = None then 1 else 0) h1 = (Some e, h2)"
      "r = PublishFailed e" "h' = cidr_rollback K rid s (map_of (cidrRules h) rid) h2"
proof -
  obtain x h1 where st: "cidr_stage K rid s value h = (x, h1)" by force
  obtain p h2 where p: "publishConfigUpdate K 0 0 (if map_of (cidrRules h) rid = None then 1 else 0) h1 = (p, h2)" by force
  have "\<forall>z. y \<noteq> Committed z" if "x = Some y" for y
    using st that by (cases rule: cidr_stage_cases) auto
  with assms st p failed ok rollback show ?thesis
    by (cases x; cases p) (simp_all add: cidr_commit_def)
qed

lemma cidr_commit_table:
  assumes inv: "cidr_inv h" and k: "wf_CIDRRuleKey (sc_Key s)" "validateComboType (getCIDRComboType (sc_Key s))"
    and c: "cidr_commit K rid s value h = (r, h')"
  shows "cidr_inv h' \<and>
    map_of (cidrRules h') = (if r = Committed rid then (map_of (cidrRules h))(rid \<mapsto> s) else map_of (cidrRules h)) \<and>
    (r = Committed rid \<or> (\<forall>x. r \<noteq> Committed x))"
  using c
proof (cases rule: cidr_commit_cases)
  case (failed h1)
  note t = cidr_stage_table [OF inv k failed(1)]
  have v: "cidr_view h' = cidr_view h1" using failed(3) by simp
  have "cidrRules h1 = cidrRules h" using t view_fields(2) [of h1 h] by simp
  with t failed(2) cidr_inv_view [OF v] view_fields(2) [OF v] show ?thesis by simp
next
  case (ok h1 h2)
  note t = cidr_stage_table [OF inv k ok(1)]
  have v: "cidr_view h' = cidr_view h1" using publish_views(2) [OF ok(2)] ok(4) by (auto split: option.splits)
  have "cidrRules h1 = cidrRules (add_cidr_memory rid s h)" using t view_fields(2) [of h1 "add_cidr_memory rid s h"] by simp
  then have "cidrRules h' = AList.update rid s (cidrRules h)" using view_fields(2) [OF v] by (simp add: add_cidr_memory_fields)
  moreover have "cidr_inv h'" using t cidr_inv_view [OF v] by simp
  ultimately show ?thesis using ok(3) by simp
next
  case (rollback h1 e h2)
  note t = cidr_stage_table [OF inv k rollback(1)] and v = publish_views(2) [OF rollback(2)]
  have u: "cidr_inv (undo_cidr rid s (map_of (cidrRules h) rid) h2) \<and>
      map_of (cidrRules (undo_cidr rid s (map_of (cidrRules h) rid) h2)) = map_of (cidrRules h)"
    using undo_cidr_restores [OF inv, of rid s h2] t v by simp
  have w: "cidr_view h' = cidr_view (undo_cidr rid s (map_of (cidrRules h) rid) h2)"
    using rollback(4) by (simp add: cidr_rollback_views)
  show ?thesis using u cidr_inv_view [OF w] view_fields(2) [OF w] rollback(3) by simp
qed

lemma cidr_commit_frame:
  assumes "cidr_commit K rid s value h = (r, h')"
  shows "exact_view h' = exact_view h \<and> wl_view h' = wl_view h \<and> slots_view h' = slots_view h \<and>
    activeBlacklist h' = activeBlacklist h \<and> activeWhitelist h' = activeWhitelist h"
  using assms
proof (cases rule: cidr_commit_cases)
  case (failed h1)
  then show ?thesis using cidr_stage_frame [OF failed(1)] by simp
next
  case (ok h1 h2)
  then show ?thesis using publish_views [OF ok(2)] cidr_stage_frame [OF ok(1)] by (auto split: option.splits)
next
  case (rollback h1 e h2)
  then show ?thesis using publish_views [OF rollback(2)] cidr_stage_frame [OF rollback(1)] by (simp add: cidr_rollback_views)
qed

lemma cidr_bitmaps_le:
  assumes "cidr_inv h" "cidr_inv h'" "map_of (cidrRules h') = map_of (cidrRules h)"
    and "exact_view h' = exact_view h" "wl_view h' = wl_view h"
  shows "bitmaps_le h' h"
  using cidrs.same_entries [OF assms(1-3)] assms(4,5) by (simp add: bitmaps_le_def view_defs)

lemma cidr_commit_covers:
  assumes inv: "cidr_inv h" and k: "wf_CIDRRuleKey (sc_Key s)" "validateComboType (getCIDRComboType (sc_Key s))"
    and A: "array_laws (arr K) get" "slot_ok get h" "covers get h" and c: "cidr_commit K rid s value h = (r, h')"
  shows "slot_ok get h' \<and> covers get h'"
proof -
  note t = cidr_commit_table [OF inv k c] and f = cidr_commit_frame [OF c]
  have le: "bitmaps_le h' h" if "r \<noteq> Committed rid"
    using cidr_bitmaps_le [OF inv, of h'] t f that by simp
  show ?thesis
    using c
  proof (cases rule: cidr_commit_cases)
    case (failed h1)
    with covers_frame [of get h h'] A le cidr_stage_frame [OF failed(1)] show ?thesis by simp
  next
    case (ok h1 h2)
    have "bitmaps_le h' h2" by (rule bitmaps_le_views) (auto simp: ok(4) split: option.splits)
    moreover have "config_view h' = config_view h2" by (auto simp: ok(4) split: option.splits)
    ultimately show ?thesis
      using covers_after_publish [OF A _ ok(2)] cidr_stage_frame [OF ok(1)] by simp
  next
    case (rollback h1 e h2)
    show ?thesis
      using covers_after_publish [OF A _ rollback(2)] cidr_stage_frame [OF rollback(1)] le rollback(3,4)
      by (simp add: cidr_rollback_views)
  qed
qed

lemma cidr_rollback_mirror:
  fixes h h2 :: "('m, 'c, 't) Handlers"
  assumes R: "hash_reliable (hash K) get"
    and im: "image_of (\<lambda>s. cidrRuleKeyToBytes (sc_Key s)) cidr_val (map_of (cidrRules h)) m"
    and a: "m (cidrRuleKeyToBytes (sc_Key s)) = None"
    and g: "get (activeCidrBlacklist h2) = (case map_of (cidrRules h) rid of None \<Rightarrow> m
        | Some old \<Rightarrow> m(cidrRuleKeyToBytes (sc_Key old) := None))(cidrRuleKeyToBytes (sc_Key s) \<mapsto> cidr_val s)"
  shows "get (activeCidrBlacklist (cidr_rollback K rid s (map_of (cidrRules h) rid) h2)) = m"
  using cidrs.replace_undo [OF R im a g]
  by (auto simp: cidr_rollback_def Let_def cidr_val_def split: option.splits)

lemma cidr_commit_mirror:
  assumes R: "hash_reliable (hash K) get" and inv: "cidr_inv h"
    and k: "wf_CIDRRuleKey (sc_Key s)" "validateComboType (getCIDRComboType (sc_Key s))"
    and v: "value = ruleValueFromStoredCIDR s" and m: "cidr_mirror get h"
    and c: "cidr_commit K rid s value h = (r, h')"
  shows "cidr_mirror get h'"
  using c
proof (cases rule: cidr_commit_cases)
  case (failed h1)
  have "cidr_mirror get h1" using cidr_stage_mirror [OF R inv k(1) v m failed(1)] by blast
  then show ?thesis by (simp add: cidr_mirror_def failed(3))
next
  case (ok h1 h2)
  have "cidr_mirror get h1" using cidr_stage_mirror [OF R inv k(1) v m ok(1)] by blast
  then show ?thesis using publish_views [OF ok(2)] ok(4) by (auto simp: cidr_mirror_def split: option.splits)
next
  case (rollback h1 e h2)
  note x = cidr_stage_mirror [OF R inv k(1) v m rollback(1)]
  have "get (activeCidrBlacklist h') = get (activeCidrBlacklist h)"
    using cidr_rollback_mirror [OF R m [unfolded cidr_mirror_def], of s h2 rid] x publish_views(7) [OF rollback(2)] rollback(4)
    by simp
  with m cidr_commit_table [OF inv k c] rollback(3) show ?thesis by (simp add: cidr_mirror_def)
qed

end
