(* ===== verification/CidrIds.thy ===== *)
theory CidrIds
  imports CidrCommit
begin

text \<open>
  Who holds which reference of the CIDR manager. Every CIDR rule in the table, and every handler
  between its allocation and its commit or rollback, holds one reference per prefix; \<open>holds\<close> balances
  these against the manager's counts, in one direction. The slack \<open>lk\<close> counts references that no
  one holds: a release whose trie deletion failed leaves one behind, nothing else does.
\<close>

section \<open>One direction\<close>

definition holds ::
  "(string \<Rightarrow> u32 option) \<Rightarrow> (string \<Rightarrow> int) \<Rightarrow> ('s \<Rightarrow> string) \<Rightarrow> ('s \<Rightarrow> u32) \<Rightarrow>
   (string, 's) gomap \<Rightarrow> string list \<Rightarrow> (string \<Rightarrow> int) \<Rightarrow> bool" where
  "holds ids refs pre idf R hs lk \<longleftrightarrow> is_gomap R \<and>
     (\<forall>rid s. map_of R rid = Some s \<longrightarrow>
        (if pre s = [] then idf s = 0 else normal_cidr (pre s) \<and> ids (pre s) = Some (idf s))) \<and>
     (\<forall>c \<in> set hs. c = [] \<or> normal_cidr c) \<and>
     (\<forall>c. c \<noteq> [] \<longrightarrow> 0 \<le> lk c \<and>
        refs c = int (count_if (\<lambda>_ s. pre s = c) R) + int (count_list hs c) + lk c)"

lemma holdsD:
  assumes "holds ids refs pre idf R hs lk"
  shows "is_gomap R"
    "map_of R rid = Some s \<Longrightarrow> pre s = [] \<Longrightarrow> idf s = 0"
    "map_of R rid = Some s \<Longrightarrow> pre s \<noteq> [] \<Longrightarrow> normal_cidr (pre s) \<and> ids (pre s) = Some (idf s)"
    "c \<in> set hs \<Longrightarrow> c = [] \<or> normal_cidr c"
    "c \<noteq> [] \<Longrightarrow> 0 \<le> lk c"
    "c \<noteq> [] \<Longrightarrow> refs c = int (count_if (\<lambda>_ s. pre s = c) R) + int (count_list hs c) + lk c"
  using assms unfolding holds_def by (auto split: if_splits)

lemma holdsI:
  assumes "is_gomap R"
    and "\<And>rid s. map_of R rid = Some s \<Longrightarrow>
      if pre s = [] then idf s = 0 else normal_cidr (pre s) \<and> ids (pre s) = Some (idf s)"
    and "\<And>c. c \<in> set hs \<Longrightarrow> c = [] \<or> normal_cidr c"
    and "\<And>c. c \<noteq> [] \<Longrightarrow> 0 \<le> lk c \<and>
      refs c = int (count_if (\<lambda>_ s. pre s = c) R) + int (count_list hs c) + lk c"
  shows "holds ids refs pre idf R hs lk"
  using assms unfolding holds_def by blast

lemma holds_empty [simp]: "holds ids refs pre idf R ([] # hs) lk = holds ids refs pre idf R hs lk"
  by (auto simp: holds_def)

lemma holds_swap: "holds ids refs pre idf R (a # b # hs) lk = holds ids refs pre idf R (b # a # hs) lk"
  by (auto simp: holds_def)

text \<open>The handler's reference becomes the rule's when the rule enters the table, and back.\<close>

lemma holds_put:
  assumes h: "holds ids refs pre idf R (pre s # hs) lk" and none: "map_of R rid = None"
    and i: "if pre s = [] then idf s = 0 else ids (pre s) = Some (idf s)"
  shows "holds ids refs pre idf (AList.update rid s R) hs lk"
proof -
  note D = holdsD [OF h]
  have "normal_cidr (pre s)" if "pre s \<noteq> []" using D(4) [of "pre s"] that by auto
  moreover have "count_if (\<lambda>_ s. pre s = c) (AList.update rid s R) = count_if (\<lambda>_ s. pre s = c) R + (if pre s = c then 1 else 0)" for c
    using count_if_update [OF D(1), of _ rid s] none by simp
  ultimately show ?thesis
    using h i none unfolding holds_def by auto
qed

lemma holds_drop:
  assumes h: "holds ids refs pre idf R hs lk" and s: "map_of R rid = Some s"
  shows "holds ids refs pre idf (AList.delete rid R) (pre s # hs) lk"
proof -
  note D = holdsD [OF h]
  have "pre s = [] \<or> normal_cidr (pre s)" using D(3) [OF s] by blast
  moreover have "int (count_if (\<lambda>_ s. pre s = c) (AList.delete rid R)) = int (count_if (\<lambda>_ s. pre s = c) R) - (if pre s = c then 1 else 0)" for c
    using count_if_delete [OF D(1), of _ rid] s count_if_pos [OF s, of "\<lambda>_ s. pre s = c"] by auto
  ultimately show ?thesis
    using h unfolding holds_def by (auto split: if_splits)
qed

lemma holds_same_map:
  assumes "holds ids refs pre idf R hs lk" "is_gomap R'" "map_of R' = map_of R"
  shows "holds ids refs pre idf R' hs lk"
proof -
  have "count_if P R' = count_if P R" for P
    using count_if_same_map [OF assms(2) holdsD(1) [OF assms(1)] assms(3)] .
  with assms show ?thesis unfolding holds_def by simp
qed

lemma holds_replace:
  assumes h: "holds ids refs pre idf R (pre s # hs) lk" and old: "map_of R rid = Some old"
    and i: "if pre s = [] then idf s = 0 else ids (pre s) = Some (idf s)"
  shows "holds ids refs pre idf (AList.update rid s R) (pre old # hs) lk"
proof -
  have "holds ids refs pre idf (AList.delete rid R) (pre s # pre old # hs) lk"
    using holds_drop [OF h old] by (simp add: holds_swap [of _ _ _ _ _ "pre s"])
  from holds_put [OF this _ i, of rid]
  have "holds ids refs pre idf (AList.update rid s (AList.delete rid R)) (pre old # hs) lk" by simp
  from holds_same_map [OF this, of "AList.update rid s R"] holdsD(1) [OF h] show ?thesis by simp
qed

context id_allocator
begin

lemma holds_alloc:
  assumes "inv m" "holds (get_id m) (refs m) pre idf R hs lk" "alloc m c = (Inr i, m')" "c \<noteq> []" "normal_cidr c"
  shows "holds (get_id m') (refs m') pre idf R (c # hs) lk \<and> get_id m' c = Some i"
proof -
  note a = alloc_ok [OF assms(3)] and r = alloc_refs [OF assms(1,3)]
  have "get_id m' d = Some j" if "get_id m d = Some j" for d j
    using a that by (cases "d = c") auto
  with a r assms(2,4,5) show ?thesis unfolding holds_def by (auto split: if_splits)
qed

lemma holds_alloc_fail:
  "holds (get_id m) (refs m) pre idf R hs lk \<Longrightarrow> alloc m c = (Inl e, m') \<Longrightarrow> holds (get_id m') (refs m') pre idf R hs lk"
  using alloc_fail by simp

lemma holds_release:
  assumes "inv m" "holds (get_id m) (refs m) pre idf R (c # hs) lk" "release m c = (e, m')" "c \<noteq> []"
  shows "\<exists>lk'. holds (get_id m') (refs m') pre idf R hs lk' \<and> (e = None \<longrightarrow> lk' = lk) \<and> 0 < refs m c"
proof -
  note D = holdsD [OF assms(2)]
  have pos: "0 < refs m c" using D(5,6) [OF assms(4)] by simp
  show ?thesis
  proof (cases e)
    case (Some x)
    then have "get_id m' = get_id m" "refs m' = refs m" using release_fail assms(3) by auto
    note same = this
    have "holds (get_id m') (refs m') pre idf R hs (lk(c := lk c + 1))"
    proof (rule holdsI)
      fix rid s assume "map_of R rid = Some s"
      from D(2,3) [OF this] same show "if pre s = [] then idf s = 0 else normal_cidr (pre s) \<and> get_id m' (pre s) = Some (idf s)"
        by simp
    next
      fix d :: string assume "d \<noteq> []"
      from D(5,6) [OF this] same show "0 \<le> (lk(c := lk c + 1)) d \<and>
        refs m' d = int (count_if (\<lambda>_ s. pre s = d) R) + int (count_list hs d) + (lk(c := lk c + 1)) d"
        by (cases "d = c") simp_all
    qed (use D in auto)
    with Some pos show ?thesis by blast
  next
    case None
    note r = release_ok [OF assms(1) assms(3) [unfolded None]]
    note g = r [THEN conjunct2, THEN conjunct2] and rm = r [THEN conjunct2, THEN conjunct1]
    have keep: "get_id m' (pre s) = get_id m (pre s)" if "map_of R rid = Some s" for rid s
    proof (cases "pre s = c")
      case True
      then have "0 < count_if (\<lambda>_ s. pre s = c) R" by (rule count_if_pos [OF that(1)])
      then have "\<not> refs m c \<le> 1" using D(5,6) [OF assms(4)] by simp
      then show ?thesis by (simp add: g)
    next
      case False
      then show ?thesis by (simp add: g)
    qed
    have "holds (get_id m') (refs m') pre idf R hs lk"
    proof (rule holdsI)
      fix rid s assume s: "map_of R rid = Some s"
      show "if pre s = [] then idf s = 0 else normal_cidr (pre s) \<and> get_id m' (pre s) = Some (idf s)"
        using D(2,3) [OF s] by (simp add: keep [OF s])
    next
      fix d :: string assume "d \<noteq> []"
      from D(5,6) [OF this] show "0 \<le> lk d \<and>
        refs m' d = int (count_if (\<lambda>_ s. pre s = d) R) + int (count_list hs d) + lk d"
        by (cases "d = c") (simp_all add: rm)
    qed (use D in auto)
    with None pos show ?thesis by blast
  qed
qed

end

section \<open>Both directions\<close>

text \<open>An operation of one direction leaves the other alone.\<close>

lemma AllocSrc_dst: "AllocSrcID tw m c = (r, m') \<Longrightarrow> GetDstID m' = GetDstID m \<and> dst_refs m' = dst_refs m"
  by (auto simp: AllocSrcID_def Let_def fun_eq_iff dst_maps split: prod.splits option.splits)

lemma AllocDst_src: "AllocDstID tw m c = (r, m') \<Longrightarrow> GetSrcID m' = GetSrcID m \<and> src_refs m' = src_refs m"
  by (auto simp: AllocDstID_def Let_def fun_eq_iff src_maps split: prod.splits option.splits)

lemma ReleaseSrc_dst: "ReleaseSrcID tw m c = (r, m') \<Longrightarrow> GetDstID m' = GetDstID m \<and> dst_refs m' = dst_refs m"
  by (auto simp: ReleaseSrcID_def Let_def fun_eq_iff dst_maps split: prod.splits option.splits if_splits)

lemma ReleaseDst_src: "ReleaseDstID tw m c = (r, m') \<Longrightarrow> GetSrcID m' = GetSrcID m \<and> src_refs m' = src_refs m"
  by (auto simp: ReleaseDstID_def Let_def fun_eq_iff src_maps split: prod.splits option.splits if_splits)

text \<open>Tries whose deletions fail for absent entries only, and that follow the tables.\<close>

definition trie_reliable :: "'t TrieWriter \<Rightarrow> ('t \<Rightarrow> trie_key \<Rightarrow> u32 option) \<Rightarrow> bool" where
  "trie_reliable tw get \<longleftrightarrow> trie_laws tw get \<and> (\<forall>t k. get t k \<noteq> None \<longrightarrow> fst (trie_Delete tw t k))"

definition steady :: "'t TrieWriter \<Rightarrow> 't Manager \<Rightarrow> bool" where
  "steady tw m \<longleftrightarrow> (\<exists>get. trie_reliable tw get \<and> tries_mirror get m)"

lemma deleteTrie_reliable:
  assumes "trie_reliable tw get" "mirrors get cs t" "map_of cs c = Some i"
  shows "fst (deleteTrie tw t c (isIPv6CIDR c)) = None"
proof -
  have "normal_cidr c" using assms(2,3) by (auto simp: mirrors_def)
  then obtain key where key: "trie_key_of c = Some key" using trie_key_of_Some by blast
  then have "get t key = Some i" using assms(2,3) by (auto simp: mirrors_def)
  then have "fst (trie_Delete tw t key)" using assms(1) by (auto simp: trie_reliable_def)
  with key show ?thesis
    by (auto simp: deleteTrie_def trie_key_of_def split: prod.splits sum.splits if_splits)
qed

lemma steady_src:
  assumes "steady tw m" "mgr_inv m" "normal_cidr c" "0 < src_refs m c" "ReleaseSrcID tw m c = (e, m')"
  shows "e = None \<and> steady tw m'"
proof -
  let ?v = "isIPv6CIDR c"
  obtain get where g: "trie_reliable tw get" "tries_mirror get m" using assms(1) by (auto simp: steady_def)
  obtain cs rs t where m: "getSrcMaps m ?v = (cs, rs, t)" by (rule prod_cases3)
  have t: "table_ok ?v (nextID m) cs rs" and mir: "mirrors get cs t"
    using assms(2) g(2) m unfolding mgr_inv_maps tries_mirror_maps by (metis fst_conv snd_conv)+
  have r: "map_of rs c \<noteq> None" using assms(4) m by (auto simp: src_refs_maps ref_at_def split: option.splits)
  have "dom (map_of cs) = dom (map_of rs)" using t unfolding table_ok_def by blast
  with r obtain i where "map_of cs c = Some i" by blast
  from deleteTrie_reliable [OF g(1) mir this]
  have "e = None" using assms(5) m r by (auto simp: ReleaseSrcID_def Let_def split: prod.splits option.splits if_splits)
  moreover have "tries_mirror get m'"
    using mirror_ReleaseSrc [OF _ g(2) assms(3), of tw] g(1) assms(5) by (simp add: trie_reliable_def)
  ultimately show ?thesis using g(1) by (auto simp: steady_def)
qed

lemma steady_dst:
  assumes "steady tw m" "mgr_inv m" "normal_cidr c" "0 < dst_refs m c" "ReleaseDstID tw m c = (e, m')"
  shows "e = None \<and> steady tw m'"
proof -
  let ?v = "isIPv6CIDR c"
  obtain get where g: "trie_reliable tw get" "tries_mirror get m" using assms(1) by (auto simp: steady_def)
  obtain cs rs t where m: "getDstMaps m ?v = (cs, rs, t)" by (rule prod_cases3)
  have t: "table_ok ?v (nextID m) cs rs" and mir: "mirrors get cs t"
    using assms(2) g(2) m unfolding mgr_inv_maps tries_mirror_maps by (metis fst_conv snd_conv)+
  have r: "map_of rs c \<noteq> None" using assms(4) m by (auto simp: dst_refs_maps ref_at_def split: option.splits)
  have "dom (map_of cs) = dom (map_of rs)" using t unfolding table_ok_def by blast
  with r obtain i where "map_of cs c = Some i" by blast
  from deleteTrie_reliable [OF g(1) mir this]
  have "e = None" using assms(5) m r by (auto simp: ReleaseDstID_def Let_def split: prod.splits option.splits if_splits)
  moreover have "tries_mirror get m'"
    using mirror_ReleaseDst [OF _ g(2) assms(3), of tw] g(1) assms(5) by (simp add: trie_reliable_def)
  ultimately show ?thesis using g(1) by (auto simp: steady_def)
qed

lemma steady_alloc:
  assumes "steady tw m" "normal_cidr c"
  shows "AllocSrcID tw m c = (r, m') \<Longrightarrow> steady tw m'" "AllocDstID tw m c = (r, m') \<Longrightarrow> steady tw m'"
proof -
  obtain get where g: "trie_reliable tw get" "tries_mirror get m" using assms(1) by (auto simp: steady_def)
  then have l: "trie_laws tw get" by (simp add: trie_reliable_def)
  show "AllocSrcID tw m c = (r, m') \<Longrightarrow> steady tw m'" "AllocDstID tw m c = (r, m') \<Longrightarrow> steady tw m'"
    using mirror_AllocSrc [OF l g(2) assms(2)] mirror_AllocDst [OF l g(2) assms(2)] g(1)
    by (auto simp: steady_def)
qed

definition mgr_holds ::
  "'t Manager \<Rightarrow> (string, StoredCIDRRule) gomap \<Rightarrow> string list \<Rightarrow> string list \<Rightarrow> (string \<Rightarrow> int) \<Rightarrow> (string \<Rightarrow> int) \<Rightarrow> bool" where
  "mgr_holds m R hs ds ls ld \<longleftrightarrow> mgr_inv m \<and>
     holds (GetSrcID m) (src_refs m) sc_SrcCIDR (\<lambda>s. ck_SrcID (sc_Key s)) R hs ls \<and>
     holds (GetDstID m) (dst_refs m) sc_DstCIDR (\<lambda>s. ck_DstID (sc_Key s)) R ds ld"

lemma ReleaseSrc_if_holds:
  assumes "mgr_holds m R (c # hs) ds ls ld"
  shows "\<exists>ls'. mgr_holds (ReleaseSrc_if tw c m) R hs ds ls' ld \<and>
    (steady tw m \<longrightarrow> steady tw (ReleaseSrc_if tw c m) \<and> ls' = ls)"
proof (cases "c = []")
  case True
  with assms show ?thesis by (auto simp: ReleaseSrc_if_def mgr_holds_def)
next
  case False
  obtain e m' where r: "ReleaseSrcID tw m c = (e, m')" by force
  have h: "mgr_inv m" "holds (GetSrcID m) (src_refs m) sc_SrcCIDR (\<lambda>s. ck_SrcID (sc_Key s)) R (c # hs) ls"
    and d: "holds (GetDstID m) (dst_refs m) sc_DstCIDR (\<lambda>s. ck_DstID (sc_Key s)) R ds ld"
    using assms by (auto simp: mgr_holds_def)
  obtain ls' where l: "holds (GetSrcID m') (src_refs m') sc_SrcCIDR (\<lambda>s. ck_SrcID (sc_Key s)) R hs ls'"
    "e = None \<longrightarrow> ls' = ls" "0 < src_refs m c"
    using src_ids.holds_release [OF h r False] by blast
  have "normal_cidr c" using holdsD(4) [OF h(2), of c] False by simp
  then have "steady tw m \<longrightarrow> steady tw m' \<and> ls' = ls" using steady_src [OF _ h(1) _ l(3) r] l(2) by blast
  moreover have "mgr_inv m'" using src_ids.inv_release [OF h(1), of tw c] r by simp
  ultimately show ?thesis
    using l(1) d ReleaseSrc_dst [OF r] r False by (auto simp: ReleaseSrc_if_def mgr_holds_def)
qed

lemma ReleaseDst_if_holds:
  assumes "mgr_holds m R hs (c # ds) ls ld"
  shows "\<exists>ld'. mgr_holds (ReleaseDst_if tw c m) R hs ds ls ld' \<and>
    (steady tw m \<longrightarrow> steady tw (ReleaseDst_if tw c m) \<and> ld' = ld)"
proof (cases "c = []")
  case True
  with assms show ?thesis by (auto simp: ReleaseDst_if_def mgr_holds_def)
next
  case False
  obtain e m' where r: "ReleaseDstID tw m c = (e, m')" by force
  have h: "mgr_inv m" "holds (GetDstID m) (dst_refs m) sc_DstCIDR (\<lambda>s. ck_DstID (sc_Key s)) R (c # ds) ld"
    and d: "holds (GetSrcID m) (src_refs m) sc_SrcCIDR (\<lambda>s. ck_SrcID (sc_Key s)) R hs ls"
    using assms by (auto simp: mgr_holds_def)
  obtain ld' where l: "holds (GetDstID m') (dst_refs m') sc_DstCIDR (\<lambda>s. ck_DstID (sc_Key s)) R ds ld'"
    "e = None \<longrightarrow> ld' = ld" "0 < dst_refs m c"
    using dst_ids.holds_release [OF h r False] by blast
  have "normal_cidr c" using holdsD(4) [OF h(2), of c] False by simp
  then have "steady tw m \<longrightarrow> steady tw m' \<and> ld' = ld" using steady_dst [OF _ h(1) _ l(3) r] l(2) by blast
  moreover have "mgr_inv m'" using dst_ids.inv_release [OF h(1), of tw c] r by simp
  ultimately show ?thesis
    using l(1) d ReleaseDst_src [OF r] r False by (auto simp: ReleaseDst_if_def mgr_holds_def)
qed

lemma release_ids_holds:
  assumes "mgr_holds m R (a # hs) (b # ds) ls ld"
  shows "\<exists>ls' ld'. mgr_holds (release_ids tw a b m) R hs ds ls' ld' \<and>
    (steady tw m \<longrightarrow> steady tw (release_ids tw a b m) \<and> ls' = ls \<and> ld' = ld)"
proof -
  obtain ls' where 1: "mgr_holds (ReleaseSrc_if tw a m) R hs (b # ds) ls' ld"
    "steady tw m \<longrightarrow> steady tw (ReleaseSrc_if tw a m) \<and> ls' = ls"
    using ReleaseSrc_if_holds [OF assms] by blast
  obtain ld' where "mgr_holds (ReleaseDst_if tw b (ReleaseSrc_if tw a m)) R hs ds ls' ld'"
    "steady tw (ReleaseSrc_if tw a m) \<longrightarrow> steady tw (ReleaseDst_if tw b (ReleaseSrc_if tw a m)) \<and> ld' = ld"
    using ReleaseDst_if_holds [OF 1(1)] by blast
  with 1(2) show ?thesis unfolding release_ids_def by blast
qed

section \<open>Allocation\<close>

text \<open>The counter moves by at most one per allocation; it must not wrap.\<close>

definition room :: "nat \<Rightarrow> 't Manager \<Rightarrow> bool" where
  "room n m \<longleftrightarrow> unat (nextID m) + n < 4294967296"

lemma room_next: "room (Suc n) m \<Longrightarrow> nextID m \<noteq> - 1"
  using unat_max_u32 [of "nextID m"] by (auto simp: room_def)

lemma room_mono: "room n m \<Longrightarrow> k \<le> n \<Longrightarrow> room k m"
  by (simp add: room_def)

lemma room_Alloc:
  assumes "room (Suc n) m"
  shows "AllocSrcID tw m c = (r, m') \<Longrightarrow> room n m'" "AllocDstID tw m c = (r, m') \<Longrightarrow> room n m'"
proof -
  note u = unat_next [OF room_next [OF assms]]
  have *: "room n m'" if "nextID m' = nextID m \<or> nextID m' = nextID m + 1"
    using that u assms by (auto simp: room_def)
  show "AllocSrcID tw m c = (r, m') \<Longrightarrow> room n m'" "AllocDstID tw m c = (r, m') \<Longrightarrow> room n m'"
    using * mgr_step_next [of tw "AllocSrc c" m] mgr_step_next [of tw "AllocDst c" m] by auto
qed

lemma room_Release [simp]:
  "room n (ReleaseSrc_if tw c m) = room n m" "room n (ReleaseDst_if tw c m) = room n m"
  "room n (release_ids tw a b m) = room n m"
  by (auto simp: release_ids_def room_def ReleaseSrc_if_def ReleaseDst_if_def ReleaseSrcID_def ReleaseDstID_def
      Let_def split: prod.splits option.splits)

text \<open>What an allocated ID is, per prefix.\<close>

definition id_of :: "(string \<Rightarrow> u32 option) \<Rightarrow> string \<Rightarrow> u32 \<Rightarrow> bool" where
  "id_of ids c i \<longleftrightarrow> (if c = [] then i = 0 else ids c = Some i)"

lemma alloc_src_holds:
  assumes h: "mgr_holds m R hs ds ls ld" and c: "c = [] \<or> normal_cidr c" and n: "room (Suc n) m"
    and a: "(if c \<noteq> [] then AllocSrcID tw m c else (Inr 0, m)) = (r, m')"
  shows "room n m' \<and> (steady tw m \<longrightarrow> steady tw m') \<and>
    (case r of
       Inl e \<Rightarrow> mgr_holds m' R hs ds ls ld
     | Inr i \<Rightarrow> mgr_holds m' R (c # hs) ds ls ld \<and> id_of (GetSrcID m') c i)"
proof (cases "c = []")
  case True
  with h n a show ?thesis by (auto simp: mgr_holds_def id_of_def room_def)
next
  case False
  with c a have a': "AllocSrcID tw m c = (r, m')" "normal_cidr c" by auto
  have i: "mgr_inv m" and s: "holds (GetSrcID m) (src_refs m) sc_SrcCIDR (\<lambda>s. ck_SrcID (sc_Key s)) R hs ls"
    using h by (auto simp: mgr_holds_def)
  have i': "mgr_inv m'" using src_ids.inv_alloc [OF i room_next [OF n], of tw c] a'(1) by simp
  have "case r of
      Inl e \<Rightarrow> holds (GetSrcID m') (src_refs m') sc_SrcCIDR (\<lambda>s. ck_SrcID (sc_Key s)) R hs ls
    | Inr i \<Rightarrow> holds (GetSrcID m') (src_refs m') sc_SrcCIDR (\<lambda>s. ck_SrcID (sc_Key s)) R (c # hs) ls \<and> GetSrcID m' c = Some i"
    using src_ids.holds_alloc [OF i s _ False a'(2)] src_ids.holds_alloc_fail [OF s] a'(1) by (auto split: sum.splits)
  then show ?thesis
    using h i' AllocSrc_dst [OF a'(1)] room_Alloc(1) [OF n a'(1)] steady_alloc(1) [OF _ a'(2,1)] False
    by (auto simp: mgr_holds_def id_of_def split: sum.splits)
qed

lemma alloc_dst_holds:
  assumes h: "mgr_holds m R hs ds ls ld" and c: "c = [] \<or> normal_cidr c" and n: "room (Suc n) m"
    and a: "(if c \<noteq> [] then AllocDstID tw m c else (Inr 0, m)) = (r, m')"
  shows "room n m' \<and> (steady tw m \<longrightarrow> steady tw m') \<and> GetSrcID m' = GetSrcID m \<and>
    (case r of
       Inl e \<Rightarrow> mgr_holds m' R hs ds ls ld
     | Inr i \<Rightarrow> mgr_holds m' R hs (c # ds) ls ld \<and> id_of (GetDstID m') c i)"
proof (cases "c = []")
  case True
  with h n a show ?thesis by (auto simp: mgr_holds_def id_of_def room_def)
next
  case False
  with c a have a': "AllocDstID tw m c = (r, m')" "normal_cidr c" by auto
  have i: "mgr_inv m" and s: "holds (GetDstID m) (dst_refs m) sc_DstCIDR (\<lambda>s. ck_DstID (sc_Key s)) R ds ld"
    using h by (auto simp: mgr_holds_def)
  have i': "mgr_inv m'" using dst_ids.inv_alloc [OF i room_next [OF n], of tw c] a'(1) by simp
  have "case r of
      Inl e \<Rightarrow> holds (GetDstID m') (dst_refs m') sc_DstCIDR (\<lambda>s. ck_DstID (sc_Key s)) R ds ld
    | Inr i \<Rightarrow> holds (GetDstID m') (dst_refs m') sc_DstCIDR (\<lambda>s. ck_DstID (sc_Key s)) R (c # ds) ld \<and> GetDstID m' c = Some i"
    using dst_ids.holds_alloc [OF i s _ False a'(2)] dst_ids.holds_alloc_fail [OF s] a'(1) by (auto split: sum.splits)
  then show ?thesis
    using h i' AllocDst_src [OF a'(1)] room_Alloc(2) [OF n a'(1)] steady_alloc(2) [OF _ a'(2,1)] False
    by (auto simp: mgr_holds_def id_of_def split: sum.splits)
qed

lemma alloc_ids_holds:
  assumes h: "mgr_holds m R hs ds ls ld" and c: "a = [] \<or> normal_cidr a" "b = [] \<or> normal_cidr b"
    and n: "room (Suc (Suc n)) m" and al: "alloc_ids tw a b m = (r, m')"
  shows "room n m' \<and> (case r of
      Inr (i, j) \<Rightarrow> mgr_holds m' R (a # hs) (b # ds) ls ld \<and> id_of (GetSrcID m') a i \<and> id_of (GetDstID m') b j \<and>
        (steady tw m \<longrightarrow> steady tw m')
    | Inl e \<Rightarrow> \<exists>ls'. mgr_holds m' R hs ds ls' ld \<and> (steady tw m \<longrightarrow> steady tw m' \<and> ls' = ls))"
proof -
  obtain r1 m1 where a1: "(if a \<noteq> [] then AllocSrcID tw m a else (Inr 0, m)) = (r1, m1)" by force
  note x1 = alloc_src_holds [OF h c(1) n a1]
  show ?thesis
  proof (cases r1)
    case (Inl e)
    with x1 a1 al show ?thesis by (auto simp: alloc_ids_def intro: room_mono [of "Suc n"])
  next
    case (Inr i)
    obtain r2 m2 where a2: "(if b \<noteq> [] then AllocDstID tw m1 b else (Inr 0, m1)) = (r2, m2)" by force
    have h1: "mgr_holds m1 R (a # hs) ds ls ld" "room (Suc n) m1" using x1 Inr by auto
    note x2 = alloc_dst_holds [OF h1(1) c(2) h1(2) a2]
    show ?thesis
    proof (cases r2)
      case (Inl e)
      with x2 have "mgr_holds m2 R (a # hs) ds ls ld" by simp
      from ReleaseSrc_if_holds [OF this, of tw] x1 x2 Inl Inr a1 a2 al show ?thesis
        by (auto simp: alloc_ids_def)
    next
      case (Inr j)
      with \<open>r1 = Inr i\<close> x1 x2 a1 a2 al show ?thesis by (auto simp: alloc_ids_def)
    qed
  qed
qed

section \<open>The critical section keeps the balance\<close>

text \<open>Every reference is held by a rule of the table, except \<open>lk\<close> of them.\<close>

lemma holds_stage:
  fixes h h' :: "('m, 'c, 't) Handlers"
  assumes h: "mgr_holds (cidrMgr h) (cidrRules h) [sc_SrcCIDR s] [sc_DstCIDR s] ls ld"
    and i: "id_of (GetSrcID (cidrMgr h)) (sc_SrcCIDR s) (ck_SrcID (sc_Key s))"
      "id_of (GetDstID (cidrMgr h)) (sc_DstCIDR s) (ck_DstID (sc_Key s))"
    and v: "cidr_view h' = cidr_view (add_cidr_memory rid s h)" "cidrMgr h' = cidrMgr h"
  shows "case map_of (cidrRules h) rid of
      None \<Rightarrow> mgr_holds (cidrMgr h') (cidrRules h') [] [] ls ld
    | Some old \<Rightarrow> mgr_holds (cidrMgr h') (cidrRules h') [sc_SrcCIDR old] [sc_DstCIDR old] ls ld"
proof -
  have r: "cidrRules h' = AList.update rid s (cidrRules h)"
    using view_fields(2) [OF v(1)] by (simp add: add_cidr_memory_fields)
  note hh = h [unfolded mgr_holds_def]
  show ?thesis
  proof (cases "map_of (cidrRules h) rid")
    case None
    then show ?thesis
      using hh i holds_put [of _ _ sc_SrcCIDR "\<lambda>s. ck_SrcID (sc_Key s)" "cidrRules h" s "[]" ls rid]
        holds_put [of _ _ sc_DstCIDR "\<lambda>s. ck_DstID (sc_Key s)" "cidrRules h" s "[]" ld rid]
      by (simp add: mgr_holds_def id_of_def r v(2))
  next
    case (Some old)
    then show ?thesis
      using hh i holds_replace [of _ _ sc_SrcCIDR "\<lambda>s. ck_SrcID (sc_Key s)" "cidrRules h" s "[]" ls rid old]
        holds_replace [of _ _ sc_DstCIDR "\<lambda>s. ck_DstID (sc_Key s)" "cidrRules h" s "[]" ld rid old]
      by (simp add: mgr_holds_def id_of_def r v(2))
  qed
qed

lemma mgr_holds_same_map:
  assumes "mgr_holds m R hs ds ls ld" "is_gomap R'" "map_of R' = map_of R"
  shows "mgr_holds m R' hs ds ls ld"
  using assms(1) holds_same_map [OF _ assms(2,3)] by (auto simp: mgr_holds_def)

lemma cidr_commit_holds:
  assumes inv: "cidr_inv h" and k: "wf_CIDRRuleKey (sc_Key s)" "validateComboType (getCIDRComboType (sc_Key s))"
    and h: "mgr_holds (cidrMgr h) (cidrRules h) [sc_SrcCIDR s] [sc_DstCIDR s] ls ld"
    and i: "id_of (GetSrcID (cidrMgr h)) (sc_SrcCIDR s) (ck_SrcID (sc_Key s))"
      "id_of (GetDstID (cidrMgr h)) (sc_DstCIDR s) (ck_DstID (sc_Key s))"
    and c: "cidr_commit K rid s value h = (r, h')"
  shows "\<exists>ls' ld'. mgr_holds (cidrMgr h') (cidrRules h') [] [] ls' ld' \<and>
    (steady (trie K) (cidrMgr h) \<longrightarrow> steady (trie K) (cidrMgr h') \<and> ls' = ls \<and> ld' = ld)"
proof -
  note t = cidr_commit_table [OF inv k c]
  have g: "is_gomap (cidrRules h')" using t by (auto simp: cidr_inv_def tbl_inv_def)
  obtain ls1 ld1 where rel: "mgr_holds (release_ids (trie K) (sc_SrcCIDR s) (sc_DstCIDR s) (cidrMgr h)) (cidrRules h) [] [] ls1 ld1"
    "steady (trie K) (cidrMgr h) \<longrightarrow>
       steady (trie K) (release_ids (trie K) (sc_SrcCIDR s) (sc_DstCIDR s) (cidrMgr h)) \<and> ls1 = ls \<and> ld1 = ld"
    using release_ids_holds [OF h, of "trie K"] by blast
  have undone: ?thesis
    if "cidrMgr h' = release_ids (trie K) (sc_SrcCIDR s) (sc_DstCIDR s) (cidrMgr h)" "\<forall>x. r \<noteq> Committed x"
    using mgr_holds_same_map [OF rel(1) g] t that rel(2) by auto
  show ?thesis
    using c
  proof (cases rule: cidr_commit_cases)
    case (failed h1)
    then show ?thesis using undone cidr_stage_frame [OF failed(1)] by simp
  next
    case (ok h1 h2)
    have v: "cidr_view h1 = cidr_view (add_cidr_memory rid s h)" "cidrMgr h1 = cidrMgr h"
      using cidr_stage_table [OF inv k ok(1)] cidr_stage_frame [OF ok(1)] by auto
    note st = holds_stage [OF h i v] and p = publish_views [OF ok(2)]
    show ?thesis
    proof (cases "map_of (cidrRules h) rid")
      case None
      with st p ok(4) v(2) show ?thesis by auto
    next
      case (Some old)
      with st p have "mgr_holds (cidrMgr h2) (cidrRules h2) [sc_SrcCIDR old] [sc_DstCIDR old] ls ld" by simp
      from release_ids_holds [OF this, of "trie K"] Some ok(4) p v(2) show ?thesis by auto
    qed
  next
    case (rollback h1 e h2)
    have "cidrMgr h2 = cidrMgr h" using publish_views [OF rollback(2)] cidr_stage_frame [OF rollback(1)] by simp
    with rollback undone show ?thesis by (simp add: cidr_rollback_views)
  qed
qed

section \<open>The entry points\<close>

text \<open>
  The IDs of every CIDR rule in the table are the registered ones, no reference is taken by more
  rules than it counts for; \<open>ids_tight\<close>: and none is left over.
\<close>

definition ids_ok :: "('m, 'c, 't) Handlers \<Rightarrow> bool" where
  "ids_ok h \<longleftrightarrow> (\<exists>ls ld. mgr_holds (cidrMgr h) (cidrRules h) [] [] ls ld)"

definition ids_tight :: "'t TrieWriter \<Rightarrow> ('m, 'c, 't) Handlers \<Rightarrow> bool" where
  "ids_tight tw h \<longleftrightarrow> steady tw (cidrMgr h) \<and>
     mgr_holds (cidrMgr h) (cidrRules h) [] [] (\<lambda>_. 0) (\<lambda>_. 0)"

definition cidr_committable :: "StoredCIDRRule \<Rightarrow> RuleValue \<Rightarrow> bool" where
  "cidr_committable s value \<longleftrightarrow> wf_CIDRRuleKey (sc_Key s) \<and> validateComboType (getCIDRComboType (sc_Key s)) \<and>
     value = ruleValueFromStoredCIDR s"

text \<open>Every property of a CIDR addition that concerns the CIDR table, in one step.\<close>

lemma cidr_alloc_commit_step:
  fixes h h' :: "('m, 'c, 't) Handlers"
  assumes inv: "cidr_inv h" and h: "mgr_holds (cidrMgr h) (cidrRules h) [] [] ls ld"
    and n: "room 2 (cidrMgr h)" and c: "a = [] \<or> normal_cidr a" "b = [] \<or> normal_cidr b"
    and al: "cidr_alloc_commit K rid req a b value h = (r, h')"
  shows "\<exists>ls' ld'. cidr_inv h' \<and> mgr_holds (cidrMgr h') (cidrRules h') [] [] ls' ld' \<and>
    (steady (trie K) (cidrMgr h) \<longrightarrow> steady (trie K) (cidrMgr h') \<and> ls' = ls \<and> ld' = ld) \<and>
    ((\<exists>s. r = Done (Committed rid) \<and> map_of (cidrRules h') = (map_of (cidrRules h))(rid \<mapsto> s) \<and>
       sc_SrcCIDR s = a \<and> sc_DstCIDR s = b) \<or>
     ((\<forall>x. r \<noteq> Done (Committed x)) \<and> map_of (cidrRules h') = map_of (cidrRules h)))"
proof -
  obtain x m where ax: "alloc_ids (trie K) a b (cidrMgr h) = (x, m)" by force
  have n2: "room (Suc (Suc 0)) (cidrMgr h)" using n by (simp add: numeral_2_eq_2)
  note A = alloc_ids_holds [OF h c n2 ax]
  show ?thesis
  proof (cases x)
    case (Inl e)
    with al ax have r: "r = Rejected e" "h' = h\<lparr>cidrMgr := m\<rparr>" by (simp_all add: cidr_alloc_commit_def)
    then have "cidr_inv h'" using inv by (simp add: cidr_inv_def)
    with A Inl r show ?thesis by auto
  next
    case (Inr ij)
    obtain i j where ij: "ij = (i, j)" by force
    let ?h1 = "h\<lparr>cidrMgr := m\<rparr>" and ?ck = "build_cidr_key i j (r_SrcPort req) (r_DstPort req) (r_Protocol req)"
    let ?s = "stored_cidr_of ?ck a b req"
    have s: "sc_Key ?s = ?ck" "sc_SrcCIDR ?s = a" "sc_DstCIDR ?s = b" "ck_SrcID ?ck = i" "ck_DstID ?ck = j" "wf_CIDRRuleKey ?ck"
      by (simp_all add: stored_cidr_of_def build_cidr_key_def wf_CIDRRuleKey_def)
    have m: "mgr_holds m (cidrRules h) [a] [b] ls ld" "id_of (GetSrcID m) a i" "id_of (GetDstID m) b j"
      "steady (trie K) (cidrMgr h) \<longrightarrow> steady (trie K) m"
      using A Inr ij by auto
    have inv1: "cidr_inv ?h1" using inv by (simp add: cidr_inv_def)
    show ?thesis
    proof (cases "validateComboType (getCIDRComboType ?ck)")
      case False
      with al ax Inr ij have r: "r = Rejected (BadCombo (getCIDRComboType ?ck))" "h' = with_mgr (release_ids (trie K) a b) ?h1"
        by (simp_all add: cidr_alloc_commit_def Let_def)
      have "cidr_inv h'" using inv1 cidr_inv_view [of h' ?h1] r(2) by simp
      moreover obtain ls' ld' where "mgr_holds (release_ids (trie K) a b m) (cidrRules h) [] [] ls' ld'"
        "steady (trie K) m \<longrightarrow> steady (trie K) (release_ids (trie K) a b m) \<and> ls' = ls \<and> ld' = ld"
        using release_ids_holds [OF m(1), of "trie K"] by blast
      ultimately show ?thesis using r m(4) by auto
    next
      case True
      obtain r1 where cc: "cidr_commit K rid ?s value ?h1 = (r1, h')" and r: "r = Done r1"
        using al ax Inr ij True by (auto simp: cidr_alloc_commit_def Let_def split: prod.splits)
      have k: "wf_CIDRRuleKey (sc_Key ?s)" "validateComboType (getCIDRComboType (sc_Key ?s))" using s True by simp_all
      have h1: "mgr_holds (cidrMgr ?h1) (cidrRules ?h1) [sc_SrcCIDR ?s] [sc_DstCIDR ?s] ls ld"
        "id_of (GetSrcID (cidrMgr ?h1)) (sc_SrcCIDR ?s) (ck_SrcID (sc_Key ?s))"
        "id_of (GetDstID (cidrMgr ?h1)) (sc_DstCIDR ?s) (ck_DstID (sc_Key ?s))"
        using m s by simp_all
      obtain ls' ld' where H: "mgr_holds (cidrMgr h') (cidrRules h') [] [] ls' ld'"
        "steady (trie K) m \<longrightarrow> steady (trie K) (cidrMgr h') \<and> ls' = ls \<and> ld' = ld"
        using cidr_commit_holds [OF inv1 k h1 cc] by auto
      show ?thesis using cidr_commit_table [OF inv1 k cc] H m(4) r s(2,3) by (intro exI [of _ ls'] exI [of _ ld']) auto
    qed
  qed
qed

end
