(* ===== verification/RuleMutation.thy ===== *)
theory RuleMutation
  imports CidrIds
begin

text \<open>
  The rule handlers of \<^verbatim>\<open>node/agent/api/rules_mutation.go\<close> and the routing of \<^verbatim>\<open>AddRuleFromSync\<close>
  (\<^verbatim>\<open>sync.go\<close>): single additions, deletions, and the two batches.
\<close>

section \<open>Single additions\<close>

definition AddRule ::
  "('m, 'c, 't) kernel \<Rightarrow> string \<Rightarrow> Rule \<Rightarrow> ('m, 'c, 't) Handlers \<Rightarrow>
   add_reply \<times> ('m, 'c, 't) Handlers" where
  "AddRule K fresh req h =
     (let hasCIDR = (r_SrcCIDR req \<noteq> [] \<or> r_DstCIDR req \<noteq> []);
          hasExactIP = (r_SrcIP req \<noteq> [] \<or> r_DstIP req \<noteq> [])
      in if hasCIDR \<and> hasExactIP then (Rejected MixedIPAndCIDR, h)
         else case parseTcpFlags (r_TcpFlags req) of
           Inl e \<Rightarrow> (Rejected (BadTcpFlags e), h)
         | Inr (flagsMask, flagsValue) \<Rightarrow>
             if flagsMask \<noteq> 0 \<and> r_Protocol req \<noteq> ''tcp'' then (Rejected FlagsNeedTCP, h)
             else
               let req' = req\<lparr>r_TcpFlags := tcpFlagsToString flagsMask flagsValue\<rparr>
               in if hasCIDR then addCIDRRule K fresh req' flagsMask flagsValue h
                  else AddRule_exact K fresh req' flagsMask flagsValue h)"

definition AddRuleFromSync ::
  "('m, 'c, 't) kernel \<Rightarrow> string \<Rightarrow> SyncRule \<Rightarrow> ('m, 'c, 't) Handlers \<Rightarrow>
   add_reply \<times> ('m, 'c, 't) Handlers" where
  "AddRuleFromSync K fresh rule h =
     (if sy_SrcCIDR rule \<noteq> [] \<or> sy_DstCIDR rule \<noteq> [] then addCIDRRuleFromSync K fresh rule h
      else AddRuleFromSync_exact K fresh rule h)"

section \<open>Deletions\<close>

datatype delete_reply = RuleNotFound | ExactDeleteFailed | CIDRDeleteFailed | RuleDeleted

text \<open>The rate-limit state of a key; its deletion is best effort, and the map may be absent.\<close>

definition drop_rl_state ::
  "('m, 'c, 't) kernel \<Rightarrow> string \<Rightarrow> bytes \<Rightarrow> ('m, 'c, 't) Handlers \<Rightarrow> ('m, 'c, 't) Handlers" where
  "drop_rl_state K action keyBytes h =
     (case rlStates h of
        Some rl \<Rightarrow> if action = ''rate_limit'' then h\<lparr>rlStates := Some (snd (Delete (hash K) rl keyBytes))\<rparr> else h
      | None \<Rightarrow> h)"

definition drop_cidr_rl_state ::
  "('m, 'c, 't) kernel \<Rightarrow> string \<Rightarrow> bytes \<Rightarrow> ('m, 'c, 't) Handlers \<Rightarrow> ('m, 'c, 't) Handlers" where
  "drop_cidr_rl_state K action keyBytes h =
     (case cidrRlStates h of
        Some rl \<Rightarrow> if action = ''rate_limit'' then h\<lparr>cidrRlStates := Some (snd (Delete (hash K) rl keyBytes))\<rparr> else h
      | None \<Rightarrow> h)"

text \<open>The part of a deletion before the publish, for one rule of either kind.\<close>

definition delete_exact ::
  "('m, 'c, 't) kernel \<Rightarrow> string \<Rightarrow> StoredRule \<Rightarrow> ('m, 'c, 't) Handlers \<Rightarrow> bool \<times> ('m, 'c, 't) Handlers" where
  "delete_exact K rid stored h =
     (let keyBytes = ruleKeyToBytes (sr_Key stored);
          (ok, bl) = Delete (hash K) (activeBlacklist h) keyBytes;
          h1 = set_activeBlacklist bl h
      in if ok then (True, drop_rule_memory rid stored (drop_rl_state K (sr_Action stored) keyBytes h1))
         else (False, h1))"

definition delete_cidr ::
  "('m, 'c, 't) kernel \<Rightarrow> string \<Rightarrow> StoredCIDRRule \<Rightarrow> ('m, 'c, 't) Handlers \<Rightarrow> bool \<times> ('m, 'c, 't) Handlers" where
  "delete_cidr K rid stored h =
     (let keyBytes = cidrRuleKeyToBytes (sc_Key stored);
          (ok, cbl) = Delete (hash K) (activeCidrBlacklist h) keyBytes;
          h1 = set_activeCidrBlacklist cbl h
      in if ok
         then (True, with_mgr (release_ids (trie K) (sc_SrcCIDR stored) (sc_DstCIDR stored))
                (drop_cidr_memory rid stored (drop_cidr_rl_state K (sc_Action stored) keyBytes h1)))
         else (False, h1))"

definition forget_pps :: "string \<Rightarrow> ('m, 'c, 't) Handlers \<Rightarrow> ('m, 'c, 't) Handlers" where
  "forget_pps rid h =
     h\<lparr>lastRuleDropCount := AList.delete rid (lastRuleDropCount h),
       lastRuleStatsTime := AList.delete rid (lastRuleStatsTime h)\<rparr>"

text \<open>A failed publish after a deletion is only logged.\<close>

definition DeleteRule ::
  "('m, 'c, 't) kernel \<Rightarrow> string \<Rightarrow> ('m, 'c, 't) Handlers \<Rightarrow> delete_reply \<times> ('m, 'c, 't) Handlers" where
  "DeleteRule K rid h =
     (case map_of (rules h) rid of
        Some stored \<Rightarrow>
          (case delete_exact K rid stored h of
             (False, h1) \<Rightarrow> (ExactDeleteFailed, h1)
           | (True, h1) \<Rightarrow> (RuleDeleted, forget_pps rid (snd (publishConfigUpdate K (- 1) 0 0 h1))))
      | None \<Rightarrow>
     (case map_of (cidrRules h) rid of
        Some cidrStored \<Rightarrow>
          (case delete_cidr K rid cidrStored h of
             (False, h1) \<Rightarrow> (CIDRDeleteFailed, h1)
           | (True, h1) \<Rightarrow> (RuleDeleted, forget_pps rid (snd (publishConfigUpdate K 0 0 (- 1) h1))))
      | None \<Rightarrow> (RuleNotFound, h)))"

section \<open>The batch of additions\<close>

datatype batch_reply = BatchPublishFailed publish_error | BatchDone int int

definition ruleToSyncRule :: "Rule \<Rightarrow> SyncRule" where
  "ruleToSyncRule r =
     \<lparr>sy_ID = r_ID r, sy_SrcIP = r_SrcIP r, sy_DstIP = r_DstIP r, sy_SrcCIDR = r_SrcCIDR r,
      sy_DstCIDR = r_DstCIDR r, sy_SrcPort = r_SrcPort r, sy_DstPort = r_DstPort r,
      sy_Protocol = r_Protocol r, sy_Action = r_Action r, sy_RateLimit = r_RateLimit r,
      sy_PktLenMin = r_PktLenMin r, sy_PktLenMax = r_PktLenMax r, sy_TcpFlags = r_TcpFlags r,
      sy_MatchAnomaly = r_MatchAnomaly r\<rparr>"

text \<open>The CIDR rules of a batch are added one by one.\<close>

fun batch_cidr ::
  "('m, 'c, 't) kernel \<Rightarrow> (nat \<Rightarrow> string) \<Rightarrow> nat \<Rightarrow> Rule list \<Rightarrow> int \<Rightarrow> int \<Rightarrow> ('m, 'c, 't) Handlers \<Rightarrow>
   int \<times> int \<times> ('m, 'c, 't) Handlers" where
  "batch_cidr K fresh n [] added failed h = (added, failed, h)"
| "batch_cidr K fresh n (r # rs) added failed h =
     (case addCIDRRuleFromSync K (fresh n) (ruleToSyncRule r) h of
        (Done (Committed _), h1) \<Rightarrow> batch_cidr K fresh (n + 1) rs (added + 1) failed h1
      | (_, h1) \<Rightarrow> batch_cidr K fresh (n + 1) rs added (failed + 1) h1)"

text \<open>
  The exact rules: each is inserted, an item that fails is counted and skipped. The result lists
  the items that succeeded, each with the rule it replaced.
\<close>

fun stage_items ::
  "('m, 'c, 't) kernel \<Rightarrow> preparedRule list \<Rightarrow> ('m, 'c, 't) Handlers \<Rightarrow>
   (preparedRule \<times> StoredRule option) list \<times> int \<times> ('m, 'c, 't) Handlers" where
  "stage_items K [] h = ([], 0, h)"
| "stage_items K (p # ps) h =
     (case rule_stage K (pr_id p) (pr_stored p) (pr_value p) h of
        (Some _, h1) \<Rightarrow>
          (let (succeeded, failed, h2) = stage_items K ps h1 in (succeeded, failed + 1, h2))
      | (None, h1) \<Rightarrow>
          (let (succeeded, failed, h2) = stage_items K ps h1
           in ((p, map_of (rules h) (pr_id p)) # succeeded, failed, h2)))"

text \<open>The rollback walks the succeeded items in the order they were added.\<close>

fun rollback_items ::
  "('m, 'c, 't) kernel \<Rightarrow> (preparedRule \<times> StoredRule option) list \<Rightarrow> ('m, 'c, 't) Handlers \<Rightarrow>
   ('m, 'c, 't) Handlers" where
  "rollback_items K [] h = h"
| "rollback_items K ((p, oldStored) # its) h =
     rollback_items K its (rule_rollback K (pr_id p) (pr_stored p) oldStored h)"

definition AddRulesBatch ::
  "('m, 'c, 't) kernel \<Rightarrow> (nat \<Rightarrow> string) \<Rightarrow> Rule list \<Rightarrow> ('m, 'c, 't) Handlers \<Rightarrow>
   batch_reply \<times> ('m, 'c, 't) Handlers" where
  "AddRulesBatch K fresh reqRules h =
     (let isCIDR = (\<lambda>r. r_SrcCIDR r \<noteq> [] \<or> r_DstCIDR r \<noteq> []);
          cidrRs = filter isCIDR reqRules;
          exactRs = filter (\<lambda>r. \<not> isCIDR r) reqRules;
          (added, failed, h1) = batch_cidr K fresh 0 cidrRs 0 0 h;
          (prepared, failed) = prepare_batch fresh (length cidrRs) exactRs [] failed;
          (succeeded, failed2, h2) = stage_items K prepared h1;
          netNew = int (length (filter (\<lambda>(p, oldStored). oldStored = None) succeeded))
      in if succeeded = [] then (BatchDone added (failed + failed2), h2)
         else case publishConfigUpdate K netNew 0 0 h2 of
                (Some e, h3) \<Rightarrow> (BatchPublishFailed e, rollback_items K succeeded h3)
              | (None, h3) \<Rightarrow> (BatchDone (added + int (length succeeded)) (failed + failed2), h3))"

section \<open>The batch of deletions\<close>

text \<open>The deleted IDs of exact and of CIDR rules, and the number of failures.\<close>

fun delete_items ::
  "('m, 'c, 't) kernel \<Rightarrow> string list \<Rightarrow> ('m, 'c, 't) Handlers \<Rightarrow>
   string list \<times> string list \<times> int \<times> ('m, 'c, 't) Handlers" where
  "delete_items K [] h = ([], [], 0, h)"
| "delete_items K (rid # ids) h =
     (case map_of (rules h) rid of
        Some stored \<Rightarrow>
          (let (ok, h1) = delete_exact K rid stored h;
               (es, cs, failed, h2) = delete_items K ids h1
           in if ok then (rid # es, cs, failed, h2) else (es, cs, failed + 1, h2))
      | None \<Rightarrow>
     (case map_of (cidrRules h) rid of
        Some cidrStored \<Rightarrow>
          (let (ok, h1) = delete_cidr K rid cidrStored h;
               (es, cs, failed, h2) = delete_items K ids h1
           in if ok then (es, rid # cs, failed, h2) else (es, cs, failed + 1, h2))
      | None \<Rightarrow>
          (let (es, cs, failed, h2) = delete_items K ids h in (es, cs, failed + 1, h2))))"

definition DeleteRulesBatch ::
  "('m, 'c, 't) kernel \<Rightarrow> string list \<Rightarrow> ('m, 'c, 't) Handlers \<Rightarrow> (int \<times> int) \<times> ('m, 'c, 't) Handlers" where
  "DeleteRulesBatch K ids h =
     (let (es, cs, failed, h1) = delete_items K ids h;
          h2 = (if es \<noteq> [] \<or> cs \<noteq> []
                then snd (publishConfigUpdate K (- int (length es)) 0 (- int (length cs)) h1) else h1)
      in ((int (length es) + int (length cs), failed), fold forget_pps (es @ cs) h2))"

end
