(* ===== verification/Whitelist.thy ===== *)
theory Whitelist
  imports ExactAdd
begin

text \<open>
  Whitelist entries (\<^verbatim>\<open>node/agent/api/whitelist.go\<close> and \<^verbatim>\<open>AddWhitelistFromSync\<close> in \<^verbatim>\<open>sync.go\<close>):
  adding or replacing one entry and deleting one. The order of the steps differs from that of the
  blacklist: the bitmap bit is published before the BPF entry exists, and the maps of the agent are
  written last. The table of whitelist entries is an interpretation of \<open>mirrored_table\<close>; a stored
  entry is its key.
\<close>

section \<open>Requests\<close>

datatype wl_error =
    WLBadKey convert_error
  | WLBadCombo int
  | WLBadPorts validation_error

datatype wl_result =
    WLAdded string
  | WLUnchanged string
  | WLConflict string
  | WLOldDeleteFailed
  | WLPublishFailed publish_error
  | WLInsertFailed "publish_error option"

datatype wl_reply = WLRejected wl_error | WLDone wl_result

text \<open>The checks before the locks are taken.\<close>

definition wl_checks :: "WhitelistEntry \<Rightarrow> wl_error + RuleKey" where
  "wl_checks req =
     (case whitelistToKey req of
        Inl e \<Rightarrow> Inl (WLBadKey e)
      | Inr key \<Rightarrow>
     (if \<not> validateComboType (getComboType key) then Inl (WLBadCombo (getComboType key)) else
     (case validatePortProtocolCompatNode (w_Protocol req) (w_SrcPort req) (w_DstPort req) of
        Some e \<Rightarrow> Inl (WLBadPorts e)
      | None \<Rightarrow> Inr key)))"

text \<open>\<^verbatim>\<open>wlValue := []byte{1}\<close>\<close>

definition wlValue :: bytes where
  "wlValue = [1]"

section \<open>Adding an entry\<close>

text \<open>
  The reference counts before the publish. The source indexes the array with combos that
  \<^verbatim>\<open>validateComboType\<close> has accepted, so that the bounds test of \<open>refs_inc\<close> is always true.
\<close>

definition wl_take_refs ::
  "RuleKey option \<Rightarrow> RuleKey \<Rightarrow> ('m, 'c, 't) Handlers \<Rightarrow> ('m, 'c, 't) Handlers" where
  "wl_take_refs oldKey key h =
     h\<lparr>wlComboRefCount := refs_inc (getComboType key)
         (case oldKey of Some ok \<Rightarrow> refs_dec (getComboType ok) (wlComboRefCount h) | None \<Rightarrow> wlComboRefCount h)\<rparr>"

text \<open>The rollback of both failures: the counts, then the old BPF entry, best effort.\<close>

definition wl_undo ::
  "('m, 'c, 't) kernel \<Rightarrow> RuleKey option \<Rightarrow> RuleKey \<Rightarrow> ('m, 'c, 't) Handlers \<Rightarrow> ('m, 'c, 't) Handlers" where
  "wl_undo K oldKey key h =
     (let h1 = h\<lparr>wlComboRefCount := refs_dec (getComboType key) (wlComboRefCount h)\<rparr>
      in case oldKey of
           None \<Rightarrow> h1
         | Some ok \<Rightarrow>
             (let h2 = h1\<lparr>wlComboRefCount := refs_inc (getComboType ok) (wlComboRefCount h1)\<rparr>
              in set_activeWhitelist
                   (snd (UpdateNoExist (hash K) (activeWhitelist h2) (ruleKeyToBytes ok) wlValue)) h2))"

text \<open>The agent's maps, written after the BPF entry exists.\<close>

definition wl_put_memory ::
  "string \<Rightarrow> RuleKey option \<Rightarrow> RuleKey \<Rightarrow> ('m, 'c, 't) Handlers \<Rightarrow> ('m, 'c, 't) Handlers" where
  "wl_put_memory wid oldKey key h =
     (let h1 = (case oldKey of Some ok \<Rightarrow> h\<lparr>wlKeyIndex := AList.delete ok (wlKeyIndex h)\<rparr> | None \<Rightarrow> h)
      in h1\<lparr>wlEntries := AList.update wid key (wlEntries h1),
            wlKeyIndex := AList.update key wid (wlKeyIndex h1)\<rparr>)"

text \<open>The critical section; a re-publish that fails is only logged.\<close>

definition wl_commit ::
  "('m, 'c, 't) kernel \<Rightarrow> string \<Rightarrow> RuleKey \<Rightarrow> ('m, 'c, 't) Handlers \<Rightarrow>
   wl_result \<times> ('m, 'c, 't) Handlers" where
  "wl_commit K wid key h =
     (case key_conflict (wlKeyIndex h) key wid of
        Some existingID \<Rightarrow> (WLConflict existingID, h)
      | None \<Rightarrow>
     (let oldKey = map_of (wlEntries h) wid;
          wlCountDelta = (if oldKey = None then 1 else 0)
      in if oldKey = Some key then (WLUnchanged wid, h) else
         case (case oldKey of
                 None \<Rightarrow> (True, activeWhitelist h)
               | Some ok \<Rightarrow> Delete (hash K) (activeWhitelist h) (ruleKeyToBytes ok)) of
           (False, wm) \<Rightarrow> (WLOldDeleteFailed, set_activeWhitelist wm h)
         | (True, wm) \<Rightarrow>
             (case publishConfigUpdate K 0 wlCountDelta 0
                     (wl_take_refs oldKey key (set_activeWhitelist wm h)) of
                (Some e, h3) \<Rightarrow> (WLPublishFailed e, wl_undo K oldKey key h3)
              | (None, h3) \<Rightarrow>
                  (case UpdateNoExist (hash K) (activeWhitelist h3) (ruleKeyToBytes key) wlValue of
                     (False, wm2) \<Rightarrow>
                       (let (pubErr, h5) = publishConfigUpdate K 0 (- wlCountDelta) 0
                              (wl_undo K oldKey key (set_activeWhitelist wm2 h3))
                        in (WLInsertFailed pubErr, h5))
                   | (True, wm2) \<Rightarrow>
                       (WLAdded wid, wl_put_memory wid oldKey key (set_activeWhitelist wm2 h3))))))"

definition AddWhitelist ::
  "('m, 'c, 't) kernel \<Rightarrow> string \<Rightarrow> WhitelistEntry \<Rightarrow> ('m, 'c, 't) Handlers \<Rightarrow>
   wl_reply \<times> ('m, 'c, 't) Handlers" where
  "AddWhitelist K fresh req h =
     (case wl_checks req of
        Inl e \<Rightarrow> (WLRejected e, h)
      | Inr key \<Rightarrow> (let (r, h') = wl_commit K (rule_id fresh (w_ID req)) key h in (WLDone r, h')))"

definition syncWhitelistFields :: "SyncWhitelistEntry \<Rightarrow> WhitelistEntry" where
  "syncWhitelistFields entry =
     \<lparr>w_ID = sw_ID entry, w_SrcIP = sw_SrcIP entry, w_DstIP = sw_DstIP entry,
      w_SrcPort = sw_SrcPort entry, w_DstPort = sw_DstPort entry, w_Protocol = sw_Protocol entry,
      w_Comment = []\<rparr>"

definition AddWhitelistFromSync ::
  "('m, 'c, 't) kernel \<Rightarrow> string \<Rightarrow> SyncWhitelistEntry \<Rightarrow> ('m, 'c, 't) Handlers \<Rightarrow>
   wl_reply \<times> ('m, 'c, 't) Handlers" where
  "AddWhitelistFromSync K fresh entry h =
     (case wl_checks (syncWhitelistFields entry) of
        Inl e \<Rightarrow> (WLRejected e, h)
      | Inr key \<Rightarrow> (let (r, h') = wl_commit K (rule_id fresh (sw_ID entry)) key h in (WLDone r, h')))"

section \<open>Deleting an entry\<close>

datatype wl_delete_reply =
    WLNotFound
  | WLDeleteFailed
  | WLDeletePublishFailed publish_error
  | WLDeleted

definition drop_whitelist ::
  "string \<Rightarrow> RuleKey \<Rightarrow> ('m, 'c, 't) Handlers \<Rightarrow> ('m, 'c, 't) Handlers" where
  "drop_whitelist wid key h =
     h\<lparr>wlComboRefCount := refs_dec (getComboType key) (wlComboRefCount h),
       wlKeyIndex := AList.delete key (wlKeyIndex h),
       wlEntries := AList.delete wid (wlEntries h)\<rparr>"

definition restore_whitelist ::
  "('m, 'c, 't) kernel \<Rightarrow> string \<Rightarrow> RuleKey \<Rightarrow> ('m, 'c, 't) Handlers \<Rightarrow> ('m, 'c, 't) Handlers" where
  "restore_whitelist K wid key h =
     (let h1 = h\<lparr>wlComboRefCount := refs_inc (getComboType key) (wlComboRefCount h),
                 wlEntries := AList.update wid key (wlEntries h),
                 wlKeyIndex := AList.update key wid (wlKeyIndex h)\<rparr>
      in set_activeWhitelist
           (snd (UpdateNoExist (hash K) (activeWhitelist h1) (ruleKeyToBytes key) wlValue)) h1)"

definition DeleteWhitelist ::
  "('m, 'c, 't) kernel \<Rightarrow> string \<Rightarrow> ('m, 'c, 't) Handlers \<Rightarrow>
   wl_delete_reply \<times> ('m, 'c, 't) Handlers" where
  "DeleteWhitelist K wid h =
     (case map_of (wlEntries h) wid of
        None \<Rightarrow> (WLNotFound, h)
      | Some key \<Rightarrow>
          (case Delete (hash K) (activeWhitelist h) (ruleKeyToBytes key) of
             (False, wm) \<Rightarrow> (WLDeleteFailed, set_activeWhitelist wm h)
           | (True, wm) \<Rightarrow>
               (case publishConfigUpdate K 0 (- 1) 0 (drop_whitelist wid key (set_activeWhitelist wm h)) of
                  (Some e, h2) \<Rightarrow> (WLDeletePublishFailed e, restore_whitelist K wid key h2)
                | (None, h2) \<Rightarrow> (WLDeleted, h2))))"

definition ListWhitelist :: "('m, 'c, 't) Handlers \<Rightarrow> WhitelistEntry list \<times> int" where
  "ListWhitelist h =
     (let entries = map (\<lambda>(wid, key). keyToWhitelist wid key) (wlEntries h)
      in (entries, int (length entries)))"

section \<open>The whitelist is a mirrored table\<close>

definition wl_inv :: "('m, 'c, 't) Handlers \<Rightarrow> bool" where
  "wl_inv h \<longleftrightarrow> tbl_inv (\<lambda>k. k) getComboType wf_RuleKey (wlEntries h) (wlKeyIndex h) (wlComboRefCount h)"

text \<open>Both memory updates of an addition at once.\<close>

definition put_whitelist ::
  "string \<Rightarrow> RuleKey \<Rightarrow> ('m, 'c, 't) Handlers \<Rightarrow> ('m, 'c, 't) Handlers" where
  "put_whitelist wid key h =
     wl_put_memory wid (map_of (wlEntries h) wid) key (wl_take_refs (map_of (wlEntries h) wid) key h)"

lemma put_whitelist_fields:
  "wlEntries (put_whitelist wid key h) = AList.update wid key (wlEntries h)"
  "wlKeyIndex (put_whitelist wid key h) = put_index (\<lambda>k. k) (map_of (wlEntries h) wid) wid key (wlKeyIndex h)"
  "wlComboRefCount (put_whitelist wid key h) = put_refs (\<lambda>k. k) getComboType (map_of (wlEntries h) wid) key (wlComboRefCount h)"
  by (auto simp: put_whitelist_def wl_put_memory_def wl_take_refs_def Let_def put_index_def put_refs_def
      split: option.splits)

interpretation wls: mirrored_table "\<lambda>h. map_of (wlEntries h)" "\<lambda>h. map_of (wlKeyIndex h)"
  "\<lambda>h. combo_bitmap (wlComboRefCount h)" put_whitelist drop_whitelist "\<lambda>k. k" getComboType
  wf_RuleKey wl_inv ruleKeyToBytes "\<lambda>_. wlValue"
proof unfold_locales
  fix h :: "('a, 'b, 'c) Handlers" and k wid s c
  show "map_of (wlEntries (put_whitelist wid s h)) = (map_of (wlEntries h))(wid \<mapsto> s)"
    by (simp add: put_whitelist_fields)
  show "map_of (wlEntries (drop_whitelist wid s h)) = (map_of (wlEntries h))(wid := None)"
    by (simp add: drop_whitelist_def)
  assume inv: "wl_inv h"
  note t = inv [unfolded wl_inv_def]
  show "map_of (wlKeyIndex h) k = Some wid \<longleftrightarrow> (\<exists>s. map_of (wlEntries h) wid = Some s \<and> s = k)"
    by (rule tbl_invD(4) [OF t])
  show "bit (combo_bitmap (wlComboRefCount h)) c \<longleftrightarrow>
      c < 64 \<and> (\<exists>rid s. map_of (wlEntries h) rid = Some s \<and> getComboType s = int c)"
    by (rule tbl_bitmap [OF t])
  show "map_of (wlEntries h) wid = Some s \<Longrightarrow> wf_RuleKey s \<and> 0 \<le> getComboType s \<and> getComboType s < 64"
    using tbl_invD(6-8) [OF t] by blast
  show "map_of (wlKeyIndex h) s = None \<or> map_of (wlKeyIndex h) s = Some wid \<Longrightarrow>
      wf_RuleKey s \<Longrightarrow> 0 \<le> getComboType s \<Longrightarrow> getComboType s < 64 \<Longrightarrow> wl_inv (put_whitelist wid s h)"
    using tbl_put [OF t] by (simp add: wl_inv_def put_whitelist_fields)
  show "map_of (wlEntries h) wid = Some s \<Longrightarrow> wl_inv (drop_whitelist wid s h)"
    using tbl_drop [OF t] by (simp add: wl_inv_def drop_whitelist_def)
next
  fix k l show "wf_RuleKey k \<Longrightarrow> wf_RuleKey l \<Longrightarrow> ruleKeyToBytes k = ruleKeyToBytes l \<longleftrightarrow> k = l"
    by (rule rule_key.enc_eq_iff)
qed

section \<open>Views\<close>

lemma wl_inv_view: "wl_view g = wl_view h \<Longrightarrow> wl_inv g = wl_inv h"
  by (simp add: wl_view_def wl_inv_def)

definition wl_mirror :: "('m \<Rightarrow> bytes \<Rightarrow> bytes option) \<Rightarrow> ('m, 'c, 't) Handlers \<Rightarrow> bool" where
  "wl_mirror get h \<longleftrightarrow>
     image_of (\<lambda>k. ruleKeyToBytes k) (\<lambda>_. wlValue) (map_of (wlEntries h)) (get (activeWhitelist h))"

text \<open>The views other than those of the whitelist and the configuration.\<close>

definition not_wl_views where
  "not_wl_views h = (exact_view h, cidr_view h, slots_view h, cidrMgr h, activeBlacklist h, activeCidrBlacklist h)"

lemma wl_ops_frame [simp]:
  "not_wl_views (wl_take_refs o' k h) = not_wl_views h" "not_wl_views (wl_put_memory wid o' k h) = not_wl_views h"
  "not_wl_views (wl_undo K o' k h) = not_wl_views h" "not_wl_views (drop_whitelist wid k h) = not_wl_views h"
  "not_wl_views (restore_whitelist K wid k h) = not_wl_views h"
  "not_wl_views (set_activeWhitelist m h) = not_wl_views h"
  "config_view (wl_take_refs o' k h) = config_view h" "config_view (wl_put_memory wid o' k h) = config_view h"
  "config_view (wl_undo K o' k h) = config_view h" "config_view (drop_whitelist wid k h) = config_view h"
  "config_view (restore_whitelist K wid k h) = config_view h"
  by (auto simp: not_wl_views_def view_defs map_defs wl_take_refs_def wl_put_memory_def wl_undo_def
      drop_whitelist_def restore_whitelist_def Let_def split: option.splits)

lemma publish_not_wl: "publishConfigUpdate K d wd cd h = (e, h') \<Longrightarrow> not_wl_views h' = not_wl_views h"
  using publish_views by (auto simp: not_wl_views_def)

lemma active_wl_ops [simp]:
  "activeWhitelist (wl_take_refs o' k h) = activeWhitelist h"
  "activeWhitelist (wl_put_memory wid o' k h) = activeWhitelist h"
  "activeWhitelist (drop_whitelist wid k h) = activeWhitelist h"
  by (auto simp: map_defs wl_take_refs_def wl_put_memory_def drop_whitelist_def Let_def split: option.splits)

text \<open>Taking the counts and undoing it is the identity.\<close>

lemma refs_inc_dec: "length refs = 64 \<Longrightarrow> refs_inc c (refs_dec c refs) = refs"
  by (rule nth_equalityI) (auto simp: refs_inc_nth refs_dec_nth)

lemma wl_undo_take:
  assumes "wl_inv h" "wl_view g = wl_view (wl_take_refs o' k h)"
  shows "wl_view (wl_undo K o' k g) = wl_view h"
proof -
  have l: "length (wlComboRefCount h) = 64" using assms(1) by (simp add: wl_inv_def tbl_inv_def)
  show ?thesis
    using assms(2) l by (cases o')
      (simp_all add: wl_undo_def wl_view_def wl_take_refs_def Let_def map_defs refs_dec_inc refs_inc_dec)
qed

end
