(* ===== verification/WhitelistFacts.thy ===== *)
theory WhitelistFacts
  imports Whitelist
begin

text \<open>
  What adding and deleting one whitelist entry does to the table, to the rest of the state, to the
  published configuration and to the BPF map.
\<close>

section \<open>The ways through an addition\<close>

abbreviation (input) wl_old_deleted where
  "wl_old_deleted K wid h r \<equiv>
     (case map_of (wlEntries h) wid of
        None \<Rightarrow> (True, activeWhitelist h)
      | Some ok \<Rightarrow> Delete (hash K) (activeWhitelist h) (ruleKeyToBytes ok)) = r"

abbreviation (input) wl_staged where
  "wl_staged wid key wm h \<equiv> wl_take_refs (map_of (wlEntries h) wid) key (set_activeWhitelist wm h)"

abbreviation (input) wl_delta where
  "wl_delta wid h \<equiv> (if map_of (wlEntries h) wid = None then 1 else 0)"

lemma wl_commit_cases:
  assumes "wl_commit K wid key h = (r, h')"
  obtains (conflict) e where "r = WLConflict e" "h' = h" "map_of (wlKeyIndex h) key = Some e" "e \<noteq> wid"
  | (unchanged) "r = WLUnchanged wid" "h' = h" "map_of (wlEntries h) wid = Some key"
  | (old) wm where "key_conflict (wlKeyIndex h) key wid = None" "map_of (wlEntries h) wid \<noteq> Some key"
      "wl_old_deleted K wid h (False, wm)" "r = WLOldDeleteFailed" "h' = set_activeWhitelist wm h"
  | (publish) wm e h3 where "key_conflict (wlKeyIndex h) key wid = None" "map_of (wlEntries h) wid \<noteq> Some key"
      "wl_old_deleted K wid h (True, wm)"
      "publishConfigUpdate K 0 (wl_delta wid h) 0 (wl_staged wid key wm h) = (Some e, h3)"
      "r = WLPublishFailed e" "h' = wl_undo K (map_of (wlEntries h) wid) key h3"
  | (insert) wm h3 wm2 p where "key_conflict (wlKeyIndex h) key wid = None" "map_of (wlEntries h) wid \<noteq> Some key"
      "wl_old_deleted K wid h (True, wm)"
      "publishConfigUpdate K 0 (wl_delta wid h) 0 (wl_staged wid key wm h) = (None, h3)"
      "UpdateNoExist (hash K) (activeWhitelist h3) (ruleKeyToBytes key) wlValue = (False, wm2)"
      "publishConfigUpdate K 0 (- wl_delta wid h) 0
         (wl_undo K (map_of (wlEntries h) wid) key (set_activeWhitelist wm2 h3)) = (p, h')"
      "r = WLInsertFailed p"
  | (ok) wm h3 wm2 where "key_conflict (wlKeyIndex h) key wid = None" "map_of (wlEntries h) wid \<noteq> Some key"
      "wl_old_deleted K wid h (True, wm)"
      "publishConfigUpdate K 0 (wl_delta wid h) 0 (wl_staged wid key wm h) = (None, h3)"
      "UpdateNoExist (hash K) (activeWhitelist h3) (ruleKeyToBytes key) wlValue = (True, wm2)"
      "h' = wl_put_memory wid (map_of (wlEntries h) wid) key (set_activeWhitelist wm2 h3)" "r = WLAdded wid"
proof (cases "key_conflict (wlKeyIndex h) key wid")
  case (Some e)
  then show ?thesis
    using assms conflict [of e] conflict_Some [OF Some] by (auto simp: wl_commit_def)
next
  case None
  show ?thesis
  proof (cases "map_of (wlEntries h) wid = Some key")
    case True
    with None assms unchanged show ?thesis by (simp add: wl_commit_def)
  next
    case False
    obtain b wm where d: "wl_old_deleted K wid h (b, wm)" by force
    obtain p h3 where p: "publishConfigUpdate K 0 (wl_delta wid h) 0 (wl_staged wid key wm h) = (p, h3)" by force
    obtain b2 wm2 where u: "UpdateNoExist (hash K) (activeWhitelist h3) (ruleKeyToBytes key) wlValue = (b2, wm2)" by force
    obtain p2 h5 where q: "publishConfigUpdate K 0 (- wl_delta wid h) 0
         (wl_undo K (map_of (wlEntries h) wid) key (set_activeWhitelist wm2 h3)) = (p2, h5)" by force
    note c = assms [unfolded wl_commit_def Let_def None d]
    show ?thesis
    proof (cases b)
      case b: False
      with c None False d old show ?thesis by simp
    next
      case b: True
      show ?thesis
      proof (cases p)
        case (Some e)
        with c b None False d p publish show ?thesis by simp
      next
        case pn: None
        show ?thesis
          using c b pn None False d p u q insert [OF None False, of wm h3 wm2 p2] ok [OF None False, of wm h3 wm2]
          by (cases b2) simp_all
      qed
    qed
  qed
qed

section \<open>The table\<close>

lemma wl_staged_view:
  "wl_view (wl_staged wid key wm h) = wl_view (wl_take_refs (map_of (wlEntries h) wid) key h)"
  by (cases "map_of (wlEntries h) wid") (auto simp: wl_view_def wl_take_refs_def map_defs)

lemma put_memory_view:
  "wl_view g = wl_view (wl_take_refs (map_of (wlEntries h) wid) key h) \<Longrightarrow>
   wl_view (wl_put_memory wid (map_of (wlEntries h) wid) key g) = wl_view (put_whitelist wid key h)"
  by (auto simp: wl_view_def put_whitelist_def wl_put_memory_def Let_def split: option.splits)

lemma put_whitelist_inv:
  assumes "wl_inv h" "wf_RuleKey key" "validateComboType (getComboType key)"
    and "key_conflict (wlKeyIndex h) key wid = None"
  shows "wl_inv (put_whitelist wid key h)"
  using wls.put_inv [OF assms(1) no_conflict [OF assms(4)] assms(2)] assms(3) by (simp add: validateComboType_iff)

text \<open>
  Whatever the kernel does, the table is consistent afterwards; it has the new entry exactly when
  the handler reports that it was added, and is literally the old one otherwise.
\<close>

lemma wl_commit_table:
  assumes inv: "wl_inv h" and k: "wf_RuleKey key" "validateComboType (getComboType key)"
    and c: "wl_commit K wid key h = (r, h')"
  shows "wl_inv h' \<and> (if r = WLAdded wid then map_of (wlEntries h') = (map_of (wlEntries h))(wid \<mapsto> key)
      else wl_view h' = wl_view h) \<and> (r = WLAdded wid \<or> (\<forall>x. r \<noteq> WLAdded x))"
proof -
  have same: ?thesis if "wl_view h' = wl_view h" "\<forall>x. r \<noteq> WLAdded x"
    using wl_inv_view [OF that(1)] inv that by simp
  show ?thesis
    using c
  proof (cases rule: wl_commit_cases)
    case (publish wm e h3)
    have "wl_view h3 = wl_view (wl_take_refs (map_of (wlEntries h) wid) key h)"
      using publish_views(3) [OF publish(4)] wl_staged_view by metis
    from wl_undo_take [OF inv this] publish(5,6) same show ?thesis by simp
  next
    case (insert wm h3 wm2 p)
    have "wl_view (set_activeWhitelist wm2 h3) = wl_view (wl_take_refs (map_of (wlEntries h) wid) key h)"
      using publish_views(3) [OF insert(4)] wl_staged_view by simp
    from wl_undo_take [OF inv this] publish_views(3) [OF insert(6)] insert(7) same show ?thesis by simp
  next
    case (ok wm h3 wm2)
    have "wl_view (set_activeWhitelist wm2 h3) = wl_view (wl_take_refs (map_of (wlEntries h) wid) key h)"
      using publish_views(3) [OF ok(4)] wl_staged_view by simp
    from put_memory_view [OF this] have v: "wl_view h' = wl_view (put_whitelist wid key h)" using ok(6) by simp
    show ?thesis
      using wl_inv_view [OF v] put_whitelist_inv [OF inv k ok(1)] view_fields(3) [OF v] ok(7)
      by (simp add: put_whitelist_fields)
  qed (use same in simp_all)
qed

lemma wl_commit_frame:
  assumes "wl_commit K wid key h = (r, h')"
  shows "not_wl_views h' = not_wl_views h"
  using assms
proof (cases rule: wl_commit_cases)
  case (publish wm e h3)
  then show ?thesis using publish_not_wl [OF publish(4)] by simp
next
  case (insert wm h3 wm2 p)
  then show ?thesis using publish_not_wl [OF insert(4)] publish_not_wl [OF insert(6)] by simp
next
  case (ok wm h3 wm2)
  then show ?thesis using publish_not_wl [OF ok(4)] by simp
qed simp_all

lemma wl_bitmaps_le:
  "wl_view h' = wl_view h \<Longrightarrow> not_wl_views h' = not_wl_views h \<Longrightarrow> bitmaps_le h' h"
  by (simp add: bitmaps_le_views not_wl_views_def)

section \<open>Coverage\<close>

text \<open>
  An addition keeps coverage, with one exception: when the insertion fails and the re-publish of the
  old bitmaps fails too, the bitmaps of the abandoned addition stay published.
\<close>

lemma wl_commit_covers:
  assumes inv: "wl_inv h" and k: "wf_RuleKey key" "validateComboType (getComboType key)"
    and A: "array_laws (arr K) get" "slot_ok get h" "covers get h"
    and c: "wl_commit K wid key h = (r, h')" and r: "\<forall>e. r \<noteq> WLInsertFailed (Some e)"
  shows "slot_ok get h' \<and> covers get h'"
proof -
  note t = wl_commit_table [OF inv k c] and f = wl_commit_frame [OF c]
  have le: "bitmaps_le h' h" if "r \<noteq> WLAdded wid"
    by (rule wl_bitmaps_le) (use t f that in auto)
  show ?thesis
    using c
  proof (cases rule: wl_commit_cases)
    case (old wm)
    then show ?thesis using covers_frame [of get h h'] A le by simp
  next
    case (publish wm e h3)
    show ?thesis
      using covers_after_publish [OF A _ publish(4), of h'] le publish(5,6) by simp
  next
    case (insert wm h3 wm2 p)
    have p: "p = None" using insert(7) r by (cases p) auto
    have "slot_ok get h3 \<and> covers get h3"
      using covers_after_publish [OF A _ insert(4), of h3] by (simp add: bitmaps_le_def)
    then have "slot_ok get (wl_undo K (map_of (wlEntries h) wid) key (set_activeWhitelist wm2 h3))"
      using config_published [of "wl_undo K (map_of (wlEntries h) wid) key (set_activeWhitelist wm2 h3)" h3 get] by simp
    from publish_covers [OF A(1) this insert(6)] p show ?thesis by simp
  next
    case (ok wm h3 wm2)
    have v: "wl_view (set_activeWhitelist wm2 h3) = wl_view (wl_take_refs (map_of (wlEntries h) wid) key h)"
      using publish_views(3) [OF ok(4)] wl_staged_view by simp
    have "wlComboRefCount h' = wlComboRefCount h3"
      by (auto simp: ok(6) wl_put_memory_def Let_def map_defs split: option.splits)
    moreover have "exact_view h' = exact_view h3" "cidr_view h' = cidr_view h3"
      using wl_ops_frame(2) [of wid _ key "set_activeWhitelist wm2 h3"] by (auto simp: ok(6) not_wl_views_def)
    ultimately have "bitmaps_le h' h3" by (simp add: bitmaps_le_def view_defs)
    then show ?thesis
      using covers_after_publish [OF A _ ok(4), of h'] by (simp add: ok(6))
  qed (use A in simp_all)
qed

section \<open>The mirror\<close>

lemma wl_commit_mirror:
  assumes R: "hash_reliable (hash K) get" and inv: "wl_inv h" and k: "wf_RuleKey key"
    "validateComboType (getComboType key)" and m: "wl_mirror get h" and c: "wl_commit K wid key h = (r, h')"
  shows "wl_mirror get h' \<and> (\<forall>p. r \<noteq> WLInsertFailed p) \<and> r \<noteq> WLOldDeleteFailed"
proof -
  let ?R = "map_of (wlEntries h)" and ?m = "get (activeWhitelist h)"
  note im = m [unfolded wl_mirror_def] and t = wl_commit_table [OF inv k c]
  have del: "b \<and> get wm = (case ?R wid of None \<Rightarrow> ?m | Some ok \<Rightarrow> ?m(ruleKeyToBytes ok := None))"
    if "wl_old_deleted K wid h (b, wm)" for b wm
  proof (cases "?R wid")
    case (Some ok)
    then have "?m (ruleKeyToBytes ok) \<noteq> None" using image_ofD [OF im Some] by simp
    with hash_reliableD(3) [OF R this] that Some show ?thesis by auto
  qed (use that in auto)
  have abs: "?m (ruleKeyToBytes key) = None"
    if "key_conflict (wlKeyIndex h) key wid = None" "?R wid \<noteq> Some key"
    using wls.absent [OF inv k(1) im no_conflict [OF that(1)]] that(2) by auto
  have abs': "get wm (ruleKeyToBytes key) = None"
    if "key_conflict (wlKeyIndex h) key wid = None" "?R wid \<noteq> Some key" "wl_old_deleted K wid h (True, wm)" for wm
    using abs [OF that(1,2)] del [OF that(3)] by (auto split: option.splits)
  have undo: "get (activeWhitelist (wl_undo K (?R wid) key g)) = ?m"
    if "get (activeWhitelist g) = (case ?R wid of None \<Rightarrow> ?m | Some ok \<Rightarrow> ?m(ruleKeyToBytes ok := None))" for g
  proof (cases "?R wid")
    case None
    have "activeWhitelist (g\<lparr>wlComboRefCount := x\<rparr>) = activeWhitelist g" for x by (simp add: map_defs)
    with None that show ?thesis by (simp add: wl_undo_def Let_def)
  next
    case (Some ok)
    note o = image_ofD [OF im Some]
    have gm: "get (activeWhitelist g) (ruleKeyToBytes ok) = None" using that Some by simp
    obtain g2 where g2: "UpdateNoExist (hash K) (activeWhitelist g) (ruleKeyToBytes ok) wlValue = (True, g2)"
      "get g2 = (get (activeWhitelist g))(ruleKeyToBytes ok \<mapsto> wlValue)"
      using hash_reliableD(2) [OF R gm, of wlValue] by blast
    have "activeWhitelist (g\<lparr>wlComboRefCount := x\<rparr>) = activeWhitelist g" for x by (simp add: map_defs)
    with Some g2 that o show ?thesis by (simp add: wl_undo_def Let_def fun_upd_idem)
  qed
  have pub: "activeWhitelist h3 = wm" if "publishConfigUpdate K 0 d 0 (wl_staged wid key wm h) = (p, h3)" for d p h3 wm
    using publish_views(8) [OF that] by simp
  show ?thesis
    using c
  proof (cases rule: wl_commit_cases)
    case (old wm)
    then show ?thesis using del [OF old(3)] by simp
  next
    case (publish wm e h3)
    have "get (activeWhitelist h') = ?m"
      using undo [of h3] del [OF publish(3)] pub [OF publish(4)] publish(6) by simp
    moreover have "wlEntries h' = wlEntries h" using t publish(5) view_fields(3) [of h' h] by simp
    ultimately show ?thesis using im publish(5) by (simp add: wl_mirror_def)
  next
    case (insert wm h3 wm2 p)
    then show ?thesis
      using hash_reliableD(2) [OF R abs' [OF insert(1-3)], of wlValue] pub [OF insert(4)] by auto
  next
    case (ok wm h3 wm2)
    have u: "get wm2 = (get wm)(ruleKeyToBytes key \<mapsto> wlValue)"
      using hash_reliableD(2) [OF R abs' [OF ok(1-3)], of wlValue] pub [OF ok(4)] ok(5) by auto
    have "image_of ruleKeyToBytes (\<lambda>_. wlValue) (?R(wid \<mapsto> key)) (get wm2)"
    proof (cases "?R wid")
      case None
      with image_of_add [OF im None, of key] abs [OF ok(1,2)] del [OF ok(3)] u show ?thesis by simp
    next
      case (Some old)
      note i = image_of_drop [OF im wls.entries_enc_inj [OF inv] Some]
      have "(?m(ruleKeyToBytes old := None)) (ruleKeyToBytes key) = None" using abs [OF ok(1,2)] by simp
      then have "image_of ruleKeyToBytes (\<lambda>_. wlValue) ((?R(wid := None))(wid \<mapsto> key))
          ((?m(ruleKeyToBytes old := None))(ruleKeyToBytes key \<mapsto> wlValue))"
        by (rule image_of_add [OF i, rotated]) simp
      with del [OF ok(3)] u Some show ?thesis by simp
    qed
    with t ok(6,7) show ?thesis by (simp add: wl_mirror_def)
  qed (use m in simp_all)
qed

section \<open>Deleting\<close>

lemma active_wl_fields [simp]:
  "activeWhitelist (h\<lparr>wlComboRefCount := a\<rparr>) = activeWhitelist h"
  "activeWhitelist (h\<lparr>wlComboRefCount := a, wlEntries := b, wlKeyIndex := c\<rparr>) = activeWhitelist h"
  by (simp_all add: map_defs)

lemma DeleteWhitelist_cases:
  assumes "DeleteWhitelist K wid h = (r, h')"
  obtains (missing) "map_of (wlEntries h) wid = None" "r = WLNotFound" "h' = h"
  | (bpf) key wm where "map_of (wlEntries h) wid = Some key"
      "Delete (hash K) (activeWhitelist h) (ruleKeyToBytes key) = (False, wm)" "r = WLDeleteFailed"
      "h' = set_activeWhitelist wm h"
  | (publish) key wm e h2 where "map_of (wlEntries h) wid = Some key"
      "Delete (hash K) (activeWhitelist h) (ruleKeyToBytes key) = (True, wm)"
      "publishConfigUpdate K 0 (- 1) 0 (drop_whitelist wid key (set_activeWhitelist wm h)) = (Some e, h2)"
      "r = WLDeletePublishFailed e" "h' = restore_whitelist K wid key h2"
  | (ok) key wm where "map_of (wlEntries h) wid = Some key"
      "Delete (hash K) (activeWhitelist h) (ruleKeyToBytes key) = (True, wm)"
      "publishConfigUpdate K 0 (- 1) 0 (drop_whitelist wid key (set_activeWhitelist wm h)) = (None, h')"
      "r = WLDeleted"
proof (cases "map_of (wlEntries h) wid")
  case None
  then have "r = WLNotFound" "h' = h" using assms by (simp_all add: DeleteWhitelist_def)
  with None missing show ?thesis by blast
next
  case (Some key)
  obtain b wm where d: "Delete (hash K) (activeWhitelist h) (ruleKeyToBytes key) = (b, wm)" by force
  obtain p h2 where p: "publishConfigUpdate K 0 (- 1) 0 (drop_whitelist wid key (set_activeWhitelist wm h)) = (p, h2)" by force
  note c = assms [unfolded DeleteWhitelist_def Some option.case d prod.case]
  show ?thesis
  proof (cases b)
    case False
    then have "r = WLDeleteFailed" "h' = set_activeWhitelist wm h" using c by simp_all
    moreover have "Delete (hash K) (activeWhitelist h) (ruleKeyToBytes key) = (False, wm)" using d False by simp
    ultimately show ?thesis using bpf [OF Some, of wm] by blast
  next
    case True
    note bt = this
    from bt have t: "Delete (hash K) (activeWhitelist h) (ruleKeyToBytes key) = (True, wm)" using d by simp
    note c' = c [unfolded p prod.case]
    show ?thesis
    proof (cases p)
      case None
      then have "r = WLDeleted" "h' = h2" using c' bt by simp_all
      with p None ok [OF Some t] show ?thesis by blast
    next
      case e: (Some e)
      then have "r = WLDeletePublishFailed e" "h' = restore_whitelist K wid key h2" using c' bt by simp_all
      with p e publish [OF Some t, of e h2] show ?thesis by blast
    qed
  qed
qed

lemma drop_whitelist_view:
  "wl_view g = wl_view h \<Longrightarrow> wl_view (drop_whitelist wid key g) = wl_view (drop_whitelist wid key h)"
  by (simp add: wl_view_def drop_whitelist_def)

lemma restore_whitelist_view:
  assumes "wl_view g = wl_view h" "map_of (wlEntries h) wid = None"
  shows "wl_view (restore_whitelist K wid key g) = wl_view (put_whitelist wid key h)"
  using assms by (simp add: restore_whitelist_def Let_def wl_view_def put_whitelist_fields put_index_def put_refs_def map_defs)

text \<open>A deletion removes the entry or leaves the table as it was.\<close>

lemma DeleteWhitelist_table:
  assumes inv: "wl_inv h" and d: "DeleteWhitelist K wid h = (r, h')"
  shows "wl_inv h' \<and> map_of (wlEntries h') = (if r = WLDeleted then (map_of (wlEntries h))(wid := None) else map_of (wlEntries h))"
  using d
proof (cases rule: DeleteWhitelist_cases)
  case (bpf key wm)
  then show ?thesis using inv wl_inv_view [of h' h] by simp
next
  case (publish key wm e h2)
  let ?d = "drop_whitelist wid key h"
  have v: "wl_view h2 = wl_view ?d"
    using publish_views(3) [OF publish(3)] drop_whitelist_view [of "set_activeWhitelist wm h" h] by simp
  have none: "map_of (wlEntries ?d) wid = None" by (simp add: drop_whitelist_def)
  have w: "wl_view h' = wl_view (put_whitelist wid key ?d)" using restore_whitelist_view [OF v none] publish(5) by simp
  have id: "wl_inv ?d" using wls.drop_inv [OF inv publish(1)] .
  have own: "map_of (wlKeyIndex ?d) key = None"
  proof (cases "map_of (wlKeyIndex ?d) key")
    case (Some a)
    then have "map_of (wlEntries ?d) a = Some key" using wls.owner_iff [OF id] by blast
    then have "map_of (wlEntries h) a = Some key" "a \<noteq> wid" by (auto simp: drop_whitelist_def split: if_splits)
    with wls.key_inj [OF inv _ publish(1)] show ?thesis by blast
  qed
  have "wl_inv (put_whitelist wid key ?d)" using wls.put_inv [OF id] own wls.entry_ok [OF inv publish(1)] by blast
  moreover have "map_of (wlEntries (put_whitelist wid key ?d)) = map_of (wlEntries h)"
    using publish(1) by (simp add: put_whitelist_fields drop_whitelist_def fun_upd_idem)
  ultimately show ?thesis using wl_inv_view [OF w] view_fields(3) [OF w] publish(4) by simp
next
  case (ok key wm)
  have v: "wl_view h' = wl_view (drop_whitelist wid key h)"
    using publish_views(3) [OF ok(3)] drop_whitelist_view [of "set_activeWhitelist wm h" h] by simp
  have "map_of (wlEntries (drop_whitelist wid key h)) = (map_of (wlEntries h))(wid := None)"
    by (simp add: drop_whitelist_def)
  with wl_inv_view [OF v] wls.drop_inv [OF inv ok(1)] view_fields(3) [OF v] ok(4) show ?thesis by simp
qed (use inv in simp)

lemma DeleteWhitelist_frame:
  assumes "DeleteWhitelist K wid h = (r, h')"
  shows "not_wl_views h' = not_wl_views h"
  using assms
proof (cases rule: DeleteWhitelist_cases)
  case (publish key wm e h2)
  then show ?thesis using publish_not_wl [OF publish(3)] by simp
next
  case (ok key wm)
  then show ?thesis using publish_not_wl [OF ok(3)] by simp
qed simp_all

lemma wl_entries_bitmaps_le:
  assumes "wl_inv h" "wl_inv h'" "map_of (wlEntries h') = map_of (wlEntries h)" "not_wl_views h' = not_wl_views h"
  shows "bitmaps_le h' h"
  using wls.same_entries [OF assms(1-3)] assms(4) by (simp add: bitmaps_le_def not_wl_views_def view_defs)

lemma DeleteWhitelist_covers:
  assumes inv: "wl_inv h" and A: "array_laws (arr K) get" "slot_ok get h" "covers get h"
    and d: "DeleteWhitelist K wid h = (r, h')"
  shows "slot_ok get h' \<and> covers get h'"
proof -
  have le: "bitmaps_le h' h" if "r \<noteq> WLDeleted"
    using wl_entries_bitmaps_le [OF inv, of h'] DeleteWhitelist_table [OF inv d] DeleteWhitelist_frame [OF d] that by simp
  show ?thesis
    using d
  proof (cases rule: DeleteWhitelist_cases)
    case (bpf key wm)
    then show ?thesis using covers_frame [of get h h'] A le by simp
  next
    case (publish key wm e h2)
    show ?thesis using covers_after_publish [OF A _ publish(3), of h'] le publish(4,5) by simp
  next
    case (ok key wm)
    show ?thesis using covers_after_publish [OF A _ ok(3), of h'] by (simp add: bitmaps_le_def)
  qed (use A in simp)
qed

lemma DeleteWhitelist_mirror:
  assumes R: "hash_reliable (hash K) get" and inv: "wl_inv h" and m: "wl_mirror get h"
    and d: "DeleteWhitelist K wid h = (r, h')"
  shows "wl_mirror get h' \<and> r \<noteq> WLDeleteFailed"
proof -
  note im = m [unfolded wl_mirror_def] and t = DeleteWhitelist_table [OF inv d]
  show ?thesis
    using d
  proof (cases rule: DeleteWhitelist_cases)
    case (bpf key wm)
    then show ?thesis using wls.delete_reliable [OF R inv im bpf(1)] by auto
  next
    case (publish key wm e h2)
    have del: "image_of ruleKeyToBytes (\<lambda>_. wlValue) ((map_of (wlEntries h))(wid := None)) (get wm)"
      using wls.delete_reliable [OF R inv im publish(1)] publish(2) by auto
    have "get wm (ruleKeyToBytes key) = None"
      using publish(2) hash_lawsD(3) [OF hash_reliableD(1) [OF R]] by fastforce
    then obtain w2 where u: "UpdateNoExist (hash K) wm (ruleKeyToBytes key) wlValue = (True, w2)"
      "get w2 = (get wm)(ruleKeyToBytes key \<mapsto> wlValue)"
      using hash_reliableD(2) [OF R, of wm] by blast
    have "activeWhitelist h2 = wm" using publish_views(8) [OF publish(3)] by simp
    then have "activeWhitelist h' = w2"
      using publish(5) u by (simp add: restore_whitelist_def Let_def)
    moreover have "image_of ruleKeyToBytes (\<lambda>_. wlValue) ((map_of (wlEntries h))(wid := None, wid \<mapsto> key)) (get w2)"
      unfolding u(2) by (rule image_of_add [OF del]) (use \<open>get wm (ruleKeyToBytes key) = None\<close> in simp_all)
    moreover have "(map_of (wlEntries h))(wid := None, wid \<mapsto> key) = map_of (wlEntries h)" using publish(1) by auto
    ultimately show ?thesis using t publish(4) by (simp add: wl_mirror_def)
  next
    case (ok key wm)
    have "activeWhitelist h' = wm" using publish_views(8) [OF ok(3)] by simp
    then show ?thesis
      using wls.delete_reliable [OF R inv im ok(1)] ok(2,4) t by (auto simp: wl_mirror_def)
  qed (use m in simp)
qed

end
