(* ===== verification/AgentInv.thy ===== *)
theory AgentInv
  imports RuleMutation WhitelistFacts
begin

text \<open>
  The invariant of the whole agent: the three tables are consistent, the CIDR rules hold the IDs of
  their prefixes, and the published bitmaps cover the tables; and the mirror: each active BPF map is
  the image of its table. This theory shows that adding one rule, on any path, keeps both.
\<close>

section \<open>The invariant\<close>

definition tables_ok :: "('m, 'c, 't) Handlers \<Rightarrow> bool" where
  "tables_ok h \<longleftrightarrow> exact_inv h \<and> cidr_inv h \<and> wl_inv h \<and> ids_ok h"

definition agent_ok :: "('c \<Rightarrow> bytes \<Rightarrow> bytes) \<Rightarrow> ('m, 'c, 't) Handlers \<Rightarrow> bool" where
  "agent_ok get h \<longleftrightarrow> tables_ok h \<and> slot_ok get h \<and> covers get h"

definition agent_mirror :: "('m \<Rightarrow> bytes \<Rightarrow> bytes option) \<Rightarrow> ('m, 'c, 't) Handlers \<Rightarrow> bool" where
  "agent_mirror get h \<longleftrightarrow> exact_mirror get h \<and> cidr_mirror get h \<and> wl_mirror get h"

lemma tables_okD:
  assumes "tables_ok h"
  shows "exact_inv h" "cidr_inv h" "wl_inv h" "ids_ok h"
  using assms by (simp_all add: tables_ok_def)

text \<open>Frame rules: an operation works on one table.\<close>

lemma ids_ok_view: "cidr_view h' = cidr_view h \<Longrightarrow> cidrMgr h' = cidrMgr h \<Longrightarrow> ids_ok h' = ids_ok h"
  using view_fields(2) [of h' h] by (simp add: ids_ok_def)

lemma tables_ok_exact:
  assumes "tables_ok h" "exact_inv h'" "cidr_view h' = cidr_view h" "wl_view h' = wl_view h" "cidrMgr h' = cidrMgr h"
  shows "tables_ok h'"
  using assms cidr_inv_view [of h' h] wl_inv_view [of h' h] ids_ok_view [of h' h] by (simp add: tables_ok_def)

lemma tables_ok_cidr:
  assumes "tables_ok h" "cidr_inv h'" "ids_ok h'" "exact_view h' = exact_view h" "wl_view h' = wl_view h"
  shows "tables_ok h'"
  using assms exact_inv_view [of h' h] wl_inv_view [of h' h] by (simp add: tables_ok_def)

lemma not_wlD:
  assumes "not_wl_views h' = not_wl_views h"
  shows "exact_view h' = exact_view h" "cidr_view h' = cidr_view h" "slots_view h' = slots_view h"
    "cidrMgr h' = cidrMgr h" "activeBlacklist h' = activeBlacklist h"
    "activeCidrBlacklist h' = activeCidrBlacklist h"
  using assms by (simp_all add: not_wl_views_def)

lemma tables_ok_wl:
  assumes "tables_ok h" "wl_inv h'" "not_wl_views h' = not_wl_views h"
  shows "tables_ok h'"
  using assms not_wlD [OF assms(3)] exact_inv_view [of h' h] cidr_inv_view [of h' h] ids_ok_view [of h' h]
  by (simp add: tables_ok_def)

lemma mirror_frame:
  "exact_view h' = exact_view h \<Longrightarrow> activeBlacklist h' = activeBlacklist h \<Longrightarrow> exact_mirror get h' = exact_mirror get h"
  "cidr_view h' = cidr_view h \<Longrightarrow> activeCidrBlacklist h' = activeCidrBlacklist h \<Longrightarrow> cidr_mirror get h' = cidr_mirror get h"
  "wl_view h' = wl_view h \<Longrightarrow> activeWhitelist h' = activeWhitelist h \<Longrightarrow> wl_mirror get h' = wl_mirror get h"
  by (simp_all add: exact_mirror_def cidr_mirror_def wl_mirror_def view_defs)

section \<open>Adding a CIDR rule\<close>

text \<open>What the checks of the two CIDR entry points establish.\<close>

definition cidr_request :: "Rule \<Rightarrow> string \<Rightarrow> string \<Rightarrow> RuleValue \<Rightarrow> bool" where
  "cidr_request req a b vl \<longleftrightarrow> (a = [] \<or> normal_cidr a) \<and> (b = [] \<or> normal_cidr b) \<and>
     (\<exists>action m v. parseAction (r_Action req) = Inr action \<and> parseTcpFlags (r_TcpFlags req) = Inr (m, v) \<and>
        vl = value_of action m v req)"

lemma normalize_if_normal: "normalize_if c = Inr a \<Longrightarrow> a = [] \<or> normal_cidr a"
  using NormalizeCIDR_normal [of c a] by (auto simp: normalize_if_def split: if_splits)

lemma cidr_prefix_checks_normal:
  "cidr_prefix_checks req m = Inr (a, b) \<Longrightarrow> (a = [] \<or> normal_cidr a) \<and> (b = [] \<or> normal_cidr b)"
  using normalize_if_normal [of "r_SrcCIDR req" a] normalize_if_normal [of "r_DstCIDR req" b]
  by (auto simp: cidr_prefix_checks_def Let_def split: sum.splits if_splits)

lemma cidr_field_checks_action: "cidr_field_checks req = Inr action \<Longrightarrow> parseAction (r_Action req) = Inr action"
  by (auto simp: cidr_field_checks_def split: sum.splits option.splits if_splits)

lemma cidr_value_restored:
  assumes "cidr_request req a b vl"
  shows "vl = ruleValueFromStoredCIDR (stored_cidr_of ck a b req)"
  using assms by (auto simp: cidr_request_def value_of_def ruleValueFromStoredCIDR_def stored_cidr_of_def)

lemma addCIDRRule_request:
  assumes "addCIDRRule K fresh req m v h = (r, h')" "parseTcpFlags (r_TcpFlags req) = Inr (m, v)"
  obtains (rejected) e where "r = Rejected e" "h' = h"
  | (request) a b vl where "cidr_request req a b vl"
      "cidr_alloc_commit K (rule_id fresh (r_ID req)) req a b vl h = (r, h')"
proof (cases "cidr_field_checks req")
  case (Inl e)
  with assms have "r = Rejected e" "h' = h" by (simp_all add: addCIDRRule_def)
  with rejected show ?thesis by blast
next
  case (Inr action)
  note f = Inr cidr_field_checks_action [OF Inr]
  show ?thesis
  proof (cases "cidr_prefix_checks req (cidrMgr h)")
    case (Inl e)
    with assms f have "r = Rejected e" "h' = h" by (simp_all add: addCIDRRule_def)
    with rejected show ?thesis by blast
  next
    case (Inr ab)
    obtain a b where ab: "ab = (a, b)" by force
    have "cidr_request req a b (value_of action m v req)"
      unfolding cidr_request_def using cidr_prefix_checks_normal [of req "cidrMgr h" a b] Inr ab f(2) assms(2) by blast
    with assms(1) f(1) Inr ab request show ?thesis by (simp add: addCIDRRule_def)
  qed
qed

lemma addCIDRRuleFromSync_request:
  assumes "addCIDRRuleFromSync K fresh rule h = (r, h')"
  obtains (rejected) e where "r = Rejected e" "h' = h"
  | (request) a b vl where "cidr_request (syncRuleFields rule) a b vl"
      "cidr_alloc_commit K (rule_id fresh (sy_ID rule)) (syncRuleFields rule) a b vl h = (r, h')"
proof (cases "cidr_field_checks (syncRuleFields rule)")
  case (Inl e)
  with assms have "r = Rejected e" "h' = h" by (simp_all add: addCIDRRuleFromSync_def Let_def)
  with rejected show ?thesis by blast
next
  case (Inr action)
  note f = Inr cidr_field_checks_action [OF Inr]
  show ?thesis
  proof (cases "cidr_prefix_checks (syncRuleFields rule) (cidrMgr h)")
    case (Inl e)
    with assms f have "r = Rejected e" "h' = h" by (simp_all add: addCIDRRuleFromSync_def Let_def)
    with rejected show ?thesis by blast
  next
    case (Inr ab)
    obtain a b where ab: "ab = (a, b)" by force
    note p = Inr ab
    show ?thesis
    proof (cases "parseTcpFlags (r_TcpFlags (syncRuleFields rule))")
      case (Inl e)
      with assms f p have "r = Rejected (BadTcpFlags e)" "h' = h" by (simp_all add: addCIDRRuleFromSync_def Let_def)
      with rejected show ?thesis by blast
    next
      case (Inr mv)
      obtain m v where mv: "mv = (m, v)" by force
      have "cidr_request (syncRuleFields rule) a b (value_of action m v (syncRuleFields rule))"
        unfolding cidr_request_def
        using cidr_prefix_checks_normal [of "syncRuleFields rule" "cidrMgr h" a b] p f(2) Inr mv by blast
      moreover have "r = Rejected FlagsNeedTCP \<and> h' = h \<or>
          cidr_alloc_commit K (rule_id fresh (sy_ID rule)) (syncRuleFields rule) a b (value_of action m v (syncRuleFields rule)) h = (r, h')"
        using assms f(1) p Inr mv by (auto simp: addCIDRRuleFromSync_def Let_def split: if_splits)
      ultimately show ?thesis using request rejected by blast
    qed
  qed
qed

lemma cidr_alloc_commit_cases:
  assumes "cidr_alloc_commit K rid req a b vl h = (r, h')"
  obtains (rejected) e m where "r = Rejected e" "h' = h\<lparr>cidrMgr := m\<rparr>"
  | (commit) ck m r1 where "r = Done r1" "wf_CIDRRuleKey ck" "validateComboType (getCIDRComboType ck)"
      "cidr_commit K rid (stored_cidr_of ck a b req) vl (h\<lparr>cidrMgr := m\<rparr>) = (r1, h')"
proof -
  obtain x m where al: "alloc_ids (trie K) a b (cidrMgr h) = (x, m)" by force
  show ?thesis
  proof (cases x)
    case (Inl e)
    with assms al have "r = Rejected e" "h' = h\<lparr>cidrMgr := m\<rparr>" by (simp_all add: cidr_alloc_commit_def)
    with rejected show ?thesis by blast
  next
    case (Inr ij)
    obtain i j where ij: "ij = (i, j)" by force
    let ?ck = "build_cidr_key i j (r_SrcPort req) (r_DstPort req) (r_Protocol req)"
    have wf: "wf_CIDRRuleKey ?ck" by (simp add: build_cidr_key_def wf_CIDRRuleKey_def)
    show ?thesis
    proof (cases "validateComboType (getCIDRComboType ?ck)")
      case False
      with assms al Inr ij have "r = Rejected (BadCombo (getCIDRComboType ?ck))"
        "h' = h\<lparr>cidrMgr := release_ids (trie K) a b m\<rparr>"
        by (simp_all add: cidr_alloc_commit_def Let_def with_mgr_def)
      with rejected show ?thesis by blast
    next
      case True
      obtain r1 h2 where "cidr_commit K rid (stored_cidr_of ?ck a b req) vl (h\<lparr>cidrMgr := m\<rparr>) = (r1, h2)" by force
      moreover from this assms al Inr ij True have "r = Done r1" "h' = h2" by (simp_all add: cidr_alloc_commit_def Let_def)
      ultimately show ?thesis using commit [OF _ wf True] by blast
    qed
  qed
qed

lemma stored_cidr_key [simp]: "sc_Key (stored_cidr_of ck a b req) = ck"
  by (simp add: stored_cidr_of_def)

lemma cidr_alloc_commit_frame:
  assumes "cidr_alloc_commit K rid req a b vl h = (r, h')"
  shows "exact_view h' = exact_view h \<and> wl_view h' = wl_view h \<and> slots_view h' = slots_view h \<and>
    activeBlacklist h' = activeBlacklist h \<and> activeWhitelist h' = activeWhitelist h"
  using assms
proof (cases rule: cidr_alloc_commit_cases)
  case (commit ck m r1)
  then show ?thesis using cidr_commit_frame [OF commit(4)] by simp
qed simp_all

lemma cidr_inv_mgr [simp]: "cidr_inv (h\<lparr>cidrMgr := m\<rparr>) = cidr_inv h"
  by (simp add: cidr_inv_def)

lemma covers_mgr [simp]:
  "slot_ok get (h\<lparr>cidrMgr := m\<rparr>) = slot_ok get h" "covers get (h\<lparr>cidrMgr := m\<rparr>) = covers get h"
  by (simp_all add: slot_ok_def covers_def published_def activeMap_def)

lemma cidr_mirror_mgr [simp]: "cidr_mirror get (h\<lparr>cidrMgr := m\<rparr>) = cidr_mirror get h"
  by (simp add: cidr_mirror_def)

lemma cidr_alloc_commit_covers:
  assumes "cidr_inv h" "array_laws (arr K) get" "slot_ok get h" "covers get h"
    and "cidr_alloc_commit K rid req a b vl h = (r, h')"
  shows "slot_ok get h' \<and> covers get h'"
  using assms(5)
proof (cases rule: cidr_alloc_commit_cases)
  case (commit ck m r1)
  then show ?thesis
    using cidr_commit_covers [of "h\<lparr>cidrMgr := m\<rparr>" "stored_cidr_of ck a b req" K get rid vl r1 h'] assms(1-4) by simp
qed (use assms(3,4) in simp_all)

lemma cidr_alloc_commit_mirror:
  assumes "hash_reliable (hash K) get" "cidr_inv h" "cidr_request req a b vl" "cidr_mirror get h"
    and "cidr_alloc_commit K rid req a b vl h = (r, h')"
  shows "cidr_mirror get h'"
  using assms(5)
proof (cases rule: cidr_alloc_commit_cases)
  case (commit ck m r1)
  then show ?thesis
    using cidr_commit_mirror [OF assms(1), of "h\<lparr>cidrMgr := m\<rparr>" "stored_cidr_of ck a b req" vl rid r1 h']
      assms(2,4) cidr_value_restored [OF assms(3), of ck] by simp
qed (use assms(4) in simp_all)

section \<open>Adding a rule of either kind\<close>

text \<open>
  Every path into the tables ends in one of three ways: a refusal, the critical section of the exact
  rules, or the allocation and critical section of the CIDR rules.
\<close>

definition add_effect ::
  "('m, 'c, 't) kernel \<Rightarrow> string \<Rightarrow> ('m, 'c, 't) Handlers \<Rightarrow> add_reply \<Rightarrow> ('m, 'c, 't) Handlers \<Rightarrow> bool" where
  "add_effect K rid h r h' \<longleftrightarrow>
     (\<exists>e. r = Rejected e \<and> h' = h) \<or>
     (\<exists>s vl r1. committable s vl \<and> rule_commit K rid s vl h = (r1, h') \<and> r = Done r1) \<or>
     (\<exists>req a b vl. cidr_request req a b vl \<and> cidr_alloc_commit K rid req a b vl h = (r, h'))"

lemma add_effect_cases:
  assumes "add_effect K rid h r h'"
  obtains (rejected) e where "r = Rejected e" "h' = h"
  | (exact) s vl r1 where "committable s vl" "rule_commit K rid s vl h = (r1, h')" "r = Done r1"
  | (cidr) req a b vl where "cidr_request req a b vl" "cidr_alloc_commit K rid req a b vl h = (r, h')"
  using assms unfolding add_effect_def by blast

lemma addCIDRRuleFromSync_effect:
  "addCIDRRuleFromSync K fresh rule h = (r, h') \<Longrightarrow> add_effect K (rule_id fresh (sy_ID rule)) h r h'"
  by (erule addCIDRRuleFromSync_request) (auto simp: add_effect_def)

lemma AddRuleFromSync_effect:
  assumes "AddRuleFromSync K fresh rule h = (r, h')"
  shows "add_effect K (rule_id fresh (sy_ID rule)) h r h'"
proof (cases "sy_SrcCIDR rule \<noteq> [] \<or> sy_DstCIDR rule \<noteq> []")
  case True
  with assms addCIDRRuleFromSync_effect [of K fresh rule h r h'] show ?thesis by (simp add: AddRuleFromSync_def)
next
  case False
  show ?thesis
  proof (cases "AddRuleFromSync_checks (syncRuleToRule rule)")
    case (Inl e)
    with assms False show ?thesis by (auto simp: AddRuleFromSync_def AddRuleFromSync_exact_def Let_def add_effect_def)
  next
    case (Inr kv)
    obtain key vl where kv: "kv = (key, vl)" by force
    obtain r1 h1 where c: "rule_commit K (rule_id fresh (sy_ID rule)) (stored_of key (syncRuleToRule rule)) vl h = (r1, h1)" by force
    have "committable (stored_of key (syncRuleToRule rule)) vl" using AddRuleFromSync_checks_ok Inr kv by blast
    with c assms False Inr kv show ?thesis
      by (auto simp: AddRuleFromSync_def AddRuleFromSync_exact_def Let_def add_effect_def)
  qed
qed

lemma AddRule_effect:
  assumes "AddRule K fresh req h = (r, h')"
  shows "add_effect K (rule_id fresh (r_ID req)) h r h'"
proof (cases "parseTcpFlags (r_TcpFlags req)")
  case (Inl e)
  with assms show ?thesis by (auto simp: AddRule_def Let_def add_effect_def split: if_splits)
next
  case (Inr mv)
  obtain m v where mv: "mv = (m, v)" by force
  let ?req = "req\<lparr>r_TcpFlags := tcpFlagsToString m v\<rparr>"
  have p: "parseTcpFlags (r_TcpFlags ?req) = Inr (m, v)" using parseTcpFlags_reparse Inr mv by simp
  have cidr: ?thesis if "addCIDRRule K fresh ?req m v h = (r, h')"
    using that p by (cases rule: addCIDRRule_request) (auto simp: add_effect_def)
  have ex: ?thesis if x: "AddRule_exact K fresh ?req m v h = (r, h')"
  proof (cases "AddRule_checks ?req m v")
    case (Inl e)
    with x show ?thesis by (auto simp: AddRule_exact_def add_effect_def)
  next
    case (Inr kv)
    obtain key vl where kv: "kv = (key, vl)" by force
    obtain r1 h1 where c: "rule_commit K (rule_id fresh (r_ID req)) (stored_of key ?req) vl h = (r1, h1)" by force
    have "committable (stored_of key ?req) vl" using AddRule_checks_ok [OF _ p] Inr kv by blast
    with c x Inr kv show ?thesis by (auto simp: AddRule_exact_def Let_def add_effect_def)
  qed
  show ?thesis
    using assms Inr mv cidr ex by (auto simp: AddRule_def Let_def add_effect_def split: if_splits)
qed

lemma add_effect_ok:
  assumes A: "array_laws (arr K) get" and ok: "agent_ok get h" and n: "room 2 (cidrMgr h)"
    and e: "add_effect K rid h r h'"
  shows "agent_ok get h'"
proof -
  have t: "tables_ok h" "slot_ok get h" "covers get h" using ok by (auto simp: agent_ok_def)
  note D = tables_okD [OF t(1)]
  show ?thesis
    using e
  proof (cases rule: add_effect_cases)
    case (exact s vl r1)
    then have k: "wf_RuleKey (sr_Key s)" "validateComboType (getComboType (sr_Key s))" by (auto simp: committable_def)
    have "exact_inv h'" using rule_commit_table [OF D(1) k exact(2)] by blast
    then show ?thesis
      using tables_ok_exact [OF t(1), of h'] rule_commit_frame [OF exact(2)] rule_commit_covers [OF D(1) k A t(2,3) exact(2)]
      by (simp add: agent_ok_def)
  next
    case (cidr req a b vl)
    obtain ls ld where i: "mgr_holds (cidrMgr h) (cidrRules h) [] [] ls ld" using D(4) by (auto simp: ids_ok_def)
    have nc: "a = [] \<or> normal_cidr a" "b = [] \<or> normal_cidr b" using cidr(1) by (auto simp: cidr_request_def)
    have "cidr_inv h'" "ids_ok h'"
      using cidr_alloc_commit_step [OF D(2) i n nc cidr(2)] unfolding ids_ok_def by blast+
    then show ?thesis
      using tables_ok_cidr [OF t(1), of h'] cidr_alloc_commit_frame [OF cidr(2)] cidr_alloc_commit_covers [OF D(2) A t(2,3) cidr(2)]
      by (simp add: agent_ok_def)
  qed (use ok in simp)
qed

lemma add_effect_mirror:
  assumes R: "hash_reliable (hash K) get" and t: "tables_ok h" and m: "agent_mirror get h"
    and e: "add_effect K rid h r h'"
  shows "agent_mirror get h'"
proof -
  note D = tables_okD [OF t]
  have M: "exact_mirror get h" "cidr_mirror get h" "wl_mirror get h" using m by (auto simp: agent_mirror_def)
  show ?thesis
    using e
  proof (cases rule: add_effect_cases)
    case (exact s vl r1)
    then have k: "wf_RuleKey (sr_Key s)" "validateComboType (getComboType (sr_Key s))" "vl = ruleValueFromStored s"
      by (auto simp: committable_def)
    show ?thesis
      using rule_commit_mirror [OF R D(1) k M(1) exact(2)] rule_commit_frame [OF exact(2)] M(2,3)
        mirror_frame(2,3) [of h' h get] by (simp add: agent_mirror_def)
  next
    case (cidr req a b vl)
    show ?thesis
      using cidr_alloc_commit_mirror [OF R D(2) cidr(1) M(2) cidr(2)] cidr_alloc_commit_frame [OF cidr(2)] M(1,3)
        mirror_frame(1,3) [of h' h get] by (simp add: agent_mirror_def)
  qed (use m in simp)
qed

text \<open>What an addition does to the tables: the rule is there exactly when the reply says so.\<close>

lemma add_effect_result:
  assumes t: "tables_ok h" and n: "room 2 (cidrMgr h)" and e: "add_effect K rid h r h'"
  shows "map_of (wlEntries h') = map_of (wlEntries h) \<and>
    (if r = Done (Committed rid)
     then (\<exists>s. map_of (rules h') = (map_of (rules h))(rid \<mapsto> s) \<and> map_of (cidrRules h') = map_of (cidrRules h)) \<or>
          (\<exists>s. map_of (cidrRules h') = (map_of (cidrRules h))(rid \<mapsto> s) \<and> map_of (rules h') = map_of (rules h))
     else map_of (rules h') = map_of (rules h) \<and> map_of (cidrRules h') = map_of (cidrRules h))"
proof -
  note D = tables_okD [OF t]
  show ?thesis
    using e
  proof (cases rule: add_effect_cases)
    case (exact s vl r1)
    then have k: "wf_RuleKey (sr_Key s)" "validateComboType (getComboType (sr_Key s))" by (auto simp: committable_def)
    have v: "cidrRules h' = cidrRules h" "wlEntries h' = wlEntries h"
      using rule_commit_frame [OF exact(2)] view_fields(2,3) [of h' h] by auto
    then show ?thesis using rule_commit_table [OF D(1) k exact(2)] exact(3) by auto
  next
    case (cidr req a b vl)
    obtain ls ld where i: "mgr_holds (cidrMgr h) (cidrRules h) [] [] ls ld" using D(4) by (auto simp: ids_ok_def)
    have nc: "a = [] \<or> normal_cidr a" "b = [] \<or> normal_cidr b" using cidr(1) by (auto simp: cidr_request_def)
    have v: "rules h' = rules h" "wlEntries h' = wlEntries h"
      using cidr_alloc_commit_frame [OF cidr(2)] view_fields(1,3) [of h' h] by auto
    then show ?thesis using cidr_alloc_commit_step [OF D(2) i n nc cidr(2)] by auto
  qed simp
qed

end
