(* ===== verification/DeleteFacts.thy ===== *)
theory DeleteFacts
  imports AgentInv
begin

text \<open>
  Deleting rules, one or a batch: the tables lose the rules that were deleted, the references of a
  CIDR rule go back to the manager, and the invariant and the mirror are kept. A failed publish is
  harmless, because the published bitmaps then have bits to spare.
\<close>

section \<open>Fewer entries, fewer bits\<close>

context rule_table
begin

lemma fewer_entries:
  "inv h \<Longrightarrow> inv h' \<Longrightarrow> entries h' \<subseteq>\<^sub>m entries h \<Longrightarrow> bit (bitmap h') c \<Longrightarrow> bit (bitmap h) c"
  by (auto simp: bitmap_iff map_le_def dom_def) (metis)

lemma drop_le: "entries (drop_entry rid s h) \<subseteq>\<^sub>m entries h"
  by (simp add: drop_entries)

end

lemma bitmaps_le_exact:
  assumes "exact_inv h" "exact_inv h'" "map_of (rules h') \<subseteq>\<^sub>m map_of (rules h)"
    and "cidr_view h' = cidr_view h" "wl_view h' = wl_view h"
  shows "bitmaps_le h' h"
  using exact.fewer_entries [OF assms(1-3)] assms(4,5) by (simp add: bitmaps_le_def view_defs)

lemma bitmaps_le_cidr:
  assumes "cidr_inv h" "cidr_inv h'" "map_of (cidrRules h') \<subseteq>\<^sub>m map_of (cidrRules h)"
    and "exact_view h' = exact_view h" "wl_view h' = wl_view h"
  shows "bitmaps_le h' h"
  using cidrs.fewer_entries [OF assms(1-3)] assms(4,5) by (simp add: bitmaps_le_def view_defs)

section \<open>State that belongs to no view\<close>

text \<open>The rate-limit maps and the statistics cache.\<close>

definition all_views where
  "all_views h = (exact_view h, cidr_view h, wl_view h, config_view h, slots_view h, cidrMgr h,
     activeBlacklist h, activeCidrBlacklist h, activeWhitelist h)"

lemma all_viewsD:
  assumes "all_views h' = all_views h"
  shows "exact_view h' = exact_view h" "cidr_view h' = cidr_view h" "wl_view h' = wl_view h"
    "config_view h' = config_view h" "slots_view h' = slots_view h" "cidrMgr h' = cidrMgr h"
    "activeBlacklist h' = activeBlacklist h" "activeCidrBlacklist h' = activeCidrBlacklist h"
    "activeWhitelist h' = activeWhitelist h"
  using assms by (simp_all add: all_views_def)

lemma side_views [simp]:
  "all_views (drop_rl_state K a kb h) = all_views h" "all_views (drop_cidr_rl_state K a kb h) = all_views h"
  "all_views (forget_pps rid h) = all_views h"
  by (auto simp: all_views_def view_defs map_defs drop_rl_state_def drop_cidr_rl_state_def forget_pps_def
      split: option.splits)

lemma fold_forget_views [simp]: "all_views (fold forget_pps ids h) = all_views h"
  by (induction ids arbitrary: h) simp_all

lemmas side_simps [simp] = side_views [THEN all_viewsD(1)] side_views [THEN all_viewsD(2)]
  side_views [THEN all_viewsD(3)] side_views [THEN all_viewsD(4)] side_views [THEN all_viewsD(5)]
  side_views [THEN all_viewsD(6)] side_views [THEN all_viewsD(7)] side_views [THEN all_viewsD(8)]
  side_views [THEN all_viewsD(9)]

lemma tables_ok_views:
  assumes "exact_view h' = exact_view h" "cidr_view h' = cidr_view h" "wl_view h' = wl_view h" "cidrMgr h' = cidrMgr h"
  shows "tables_ok h' = tables_ok h"
  using exact_inv_view [OF assms(1)] cidr_inv_view [OF assms(2)] wl_inv_view [OF assms(3)] ids_ok_view [OF assms(2,4)]
  by (simp add: tables_ok_def)

lemma mirror_views:
  assumes "exact_view h' = exact_view h" "cidr_view h' = cidr_view h" "wl_view h' = wl_view h"
    "activeBlacklist h' = activeBlacklist h" "activeCidrBlacklist h' = activeCidrBlacklist h"
    "activeWhitelist h' = activeWhitelist h"
  shows "agent_mirror get h' = agent_mirror get h"
  using mirror_frame(1) [OF assms(1,4)] mirror_frame(2) [OF assms(2,5)] mirror_frame(3) [OF assms(3,6)]
  by (simp add: agent_mirror_def)

text \<open>
  A publish over changed tables: when it fails the change must not have added bits.
\<close>

lemma agent_ok_publish:
  assumes A: "array_laws (arr K) get" and ok: "agent_ok get h" and g: "tables_ok g" "config_view g = config_view h"
    and p: "publishConfigUpdate K d wd cd g = (e, g')" and le: "e = None \<or> bitmaps_le g h"
    and h': "all_views h' = all_views g'"
  shows "agent_ok get h'"
proof -
  note v = all_viewsD [OF h'] and pv = publish_views [OF p]
  have t: "tables_ok h'" using tables_ok_views [of h' g] v pv g(1) by simp
  have b: "bitmaps_le h' g'" "bitmaps_le g' g" "bitmaps_le h' g" by (rule bitmaps_le_views; use v pv in simp)+
  have "if e = None then bitmaps_le h' g' else bitmaps_le h' h"
    using b le bitmaps_le_trans [of h' g h] by auto
  then show ?thesis
    using covers_after_publish [OF A _ _ g(2) p v(4)] ok t by (simp add: agent_ok_def)
qed

section \<open>Deleting one rule\<close>

lemma delete_exact_cases:
  assumes "delete_exact K rid s h = (b, h')"
  obtains (failed) bl where "\<not> b" "h' = set_activeBlacklist bl h"
      "Delete (hash K) (activeBlacklist h) (ruleKeyToBytes (sr_Key s)) = (False, bl)"
  | (ok) bl where "b" "Delete (hash K) (activeBlacklist h) (ruleKeyToBytes (sr_Key s)) = (True, bl)"
      "h' = drop_rule_memory rid s
         (drop_rl_state K (sr_Action s) (ruleKeyToBytes (sr_Key s)) (set_activeBlacklist bl h))"
proof -
  obtain b1 bl where d: "Delete (hash K) (activeBlacklist h) (ruleKeyToBytes (sr_Key s)) = (b1, bl)" by force
  show ?thesis
    using assms d failed [of bl] ok [of bl] by (cases b1) (simp_all add: delete_exact_def Let_def)
qed

lemma delete_cidr_cases:
  assumes "delete_cidr K rid s h = (b, h')"
  obtains (failed) bl where "\<not> b" "h' = set_activeCidrBlacklist bl h"
      "Delete (hash K) (activeCidrBlacklist h) (cidrRuleKeyToBytes (sc_Key s)) = (False, bl)"
  | (ok) bl where "b" "Delete (hash K) (activeCidrBlacklist h) (cidrRuleKeyToBytes (sc_Key s)) = (True, bl)"
      "h' = with_mgr (release_ids (trie K) (sc_SrcCIDR s) (sc_DstCIDR s)) (drop_cidr_memory rid s
         (drop_cidr_rl_state K (sc_Action s) (cidrRuleKeyToBytes (sc_Key s)) (set_activeCidrBlacklist bl h)))"
proof -
  obtain b1 bl where d: "Delete (hash K) (activeCidrBlacklist h) (cidrRuleKeyToBytes (sc_Key s)) = (b1, bl)" by force
  show ?thesis
    using assms d failed [of bl] ok [of bl] by (cases b1) (simp_all add: delete_cidr_def Let_def)
qed

lemma delete_exact_table:
  assumes inv: "exact_inv h" and s: "map_of (rules h) rid = Some s" and d: "delete_exact K rid s h = (b, h')"
  shows "exact_inv h' \<and> map_of (rules h') = (if b then (map_of (rules h))(rid := None) else map_of (rules h))"
  using d
proof (cases rule: delete_exact_cases)
  case (failed bl)
  then show ?thesis using inv exact_inv_view [of h' h] by simp
next
  case (ok bl)
  have v: "exact_view h' = exact_view (drop_rule_memory rid s h)"
    unfolding ok(3) by (rule exact_view_ops(2)) simp
  show ?thesis
    using exact_inv_view [OF v] view_fields(1) [OF v] exact.drop_inv [OF inv s] ok(1) by (simp add: drop_rule_memory_def)
qed

lemma delete_exact_frame:
  assumes "delete_exact K rid s h = (b, h')"
  shows "cidr_view h' = cidr_view h \<and> wl_view h' = wl_view h \<and> slots_view h' = slots_view h \<and>
    config_view h' = config_view h \<and> cidrMgr h' = cidrMgr h \<and>
    activeCidrBlacklist h' = activeCidrBlacklist h \<and> activeWhitelist h' = activeWhitelist h"
  using assms by (cases rule: delete_exact_cases) simp_all

lemma delete_exact_mirror:
  assumes R: "hash_reliable (hash K) get" and inv: "exact_inv h" and s: "map_of (rules h) rid = Some s"
    and m: "exact_mirror get h" and d: "delete_exact K rid s h = (b, h')"
  shows "b \<and> exact_mirror get h'"
proof -
  obtain bl where del: "Delete (hash K) (activeBlacklist h) (ruleKeyToBytes (sr_Key s)) = (True, bl)"
    "image_of (\<lambda>s. ruleKeyToBytes (sr_Key s)) rule_val ((map_of (rules h))(rid := None)) (get bl)"
    using exact.delete_reliable [OF R inv m [unfolded exact_mirror_def] s] by blast
  show ?thesis
    using d
  proof (cases rule: delete_exact_cases)
    case (ok bl')
    then show ?thesis using delete_exact_table [OF inv s d] del by (simp add: exact_mirror_def)
  qed (use del in simp)
qed

lemma delete_cidr_table:
  assumes inv: "cidr_inv h" and s: "map_of (cidrRules h) rid = Some s" and d: "delete_cidr K rid s h = (b, h')"
  shows "cidr_inv h' \<and> map_of (cidrRules h') = (if b then (map_of (cidrRules h))(rid := None) else map_of (cidrRules h))"
  using d
proof (cases rule: delete_cidr_cases)
  case (failed bl)
  then show ?thesis using inv cidr_inv_view [of h' h] by simp
next
  case (ok bl)
  have v: "cidr_view h' = cidr_view (drop_cidr_memory rid s h)"
    unfolding ok(3) with_mgr_views by (rule cidr_view_ops(2)) simp
  show ?thesis
    using cidr_inv_view [OF v] view_fields(2) [OF v] cidrs.drop_inv [OF inv s] ok(1) by (simp add: drop_cidr_memory_def)
qed

lemma delete_cidr_frame:
  assumes "delete_cidr K rid s h = (b, h')"
  shows "exact_view h' = exact_view h \<and> wl_view h' = wl_view h \<and> slots_view h' = slots_view h \<and>
    config_view h' = config_view h \<and>
    activeBlacklist h' = activeBlacklist h \<and> activeWhitelist h' = activeWhitelist h"
  using assms by (cases rule: delete_cidr_cases) simp_all

lemma delete_cidr_mirror:
  assumes R: "hash_reliable (hash K) get" and inv: "cidr_inv h" and s: "map_of (cidrRules h) rid = Some s"
    and m: "cidr_mirror get h" and d: "delete_cidr K rid s h = (b, h')"
  shows "b \<and> cidr_mirror get h'"
proof -
  obtain bl where del: "Delete (hash K) (activeCidrBlacklist h) (cidrRuleKeyToBytes (sc_Key s)) = (True, bl)"
    "image_of (\<lambda>s. cidrRuleKeyToBytes (sc_Key s)) cidr_val ((map_of (cidrRules h))(rid := None)) (get bl)"
    using cidrs.delete_reliable [OF R inv m [unfolded cidr_mirror_def] s] by blast
  show ?thesis
    using d
  proof (cases rule: delete_cidr_cases)
    case (ok bl')
    then show ?thesis using delete_cidr_table [OF inv s d] del by (simp add: cidr_mirror_def)
  qed (use del in simp)
qed

text \<open>The rule's references are given back: on sound tries none is left over.\<close>

lemma delete_cidr_holds:
  assumes s: "map_of (cidrRules h) rid = Some s" and h: "mgr_holds (cidrMgr h) (cidrRules h) [] [] ls ld"
    and d: "delete_cidr K rid s h = (b, h')"
  shows "\<exists>ls' ld'. mgr_holds (cidrMgr h') (cidrRules h') [] [] ls' ld' \<and>
    (steady (trie K) (cidrMgr h) \<longrightarrow> steady (trie K) (cidrMgr h') \<and> ls' = ls \<and> ld' = ld)"
  using d
proof (cases rule: delete_cidr_cases)
  case (failed bl)
  with h show ?thesis by auto
next
  case (ok bl)
  let ?g = "drop_cidr_rl_state K (sc_Action s) (cidrRuleKeyToBytes (sc_Key s)) (set_activeCidrBlacklist bl h)"
  have r: "cidrRules ?g = cidrRules h" using view_fields(2) [of ?g h] by simp
  have "mgr_holds (cidrMgr h) (AList.delete rid (cidrRules h)) [sc_SrcCIDR s] [sc_DstCIDR s] ls ld"
    using h holds_drop [OF _ s, of _ _ sc_SrcCIDR "\<lambda>s. ck_SrcID (sc_Key s)"]
      holds_drop [OF _ s, of _ _ sc_DstCIDR "\<lambda>s. ck_DstID (sc_Key s)"] by (simp add: mgr_holds_def)
  from release_ids_holds [OF this, of "trie K"] show ?thesis
    using r by (simp add: ok(3) drop_cidr_memory_def)
qed

section \<open>Either kind\<close>

text \<open>A deletion keeps the invariant of the tables and the configuration, and adds no bits.\<close>

lemma delete_exact_step:
  assumes t: "tables_ok h" and s: "map_of (rules h) rid = Some s" and d: "delete_exact K rid s h = (b, h')"
  shows "tables_ok h' \<and> config_view h' = config_view h \<and> bitmaps_le h' h"
proof -
  note D = tables_okD [OF t] and f = delete_exact_frame [OF d] and tb = delete_exact_table [OF tables_okD(1) [OF t] s d]
  have "map_of (rules h') \<subseteq>\<^sub>m map_of (rules h)" using tb by simp
  then show ?thesis
    using tables_ok_exact [OF t, of h'] bitmaps_le_exact [OF D(1), of h'] f tb by simp
qed

lemma delete_cidr_step:
  assumes t: "tables_ok h" and s: "map_of (cidrRules h) rid = Some s" and d: "delete_cidr K rid s h = (b, h')"
  shows "tables_ok h' \<and> config_view h' = config_view h \<and> bitmaps_le h' h"
proof -
  note D = tables_okD [OF t] and f = delete_cidr_frame [OF d] and tb = delete_cidr_table [OF tables_okD(2) [OF t] s d]
  obtain ls ld where i: "mgr_holds (cidrMgr h) (cidrRules h) [] [] ls ld" using D(4) by (auto simp: ids_ok_def)
  have "ids_ok h'" using delete_cidr_holds [OF s i d] unfolding ids_ok_def by blast
  moreover have "map_of (cidrRules h') \<subseteq>\<^sub>m map_of (cidrRules h)" using tb by simp
  ultimately show ?thesis
    using tables_ok_cidr [OF t, of h'] bitmaps_le_cidr [OF D(2), of h'] f tb by simp
qed

lemma delete_exact_mirror_step:
  assumes R: "hash_reliable (hash K) get" and t: "tables_ok h" and m: "agent_mirror get h"
    and s: "map_of (rules h) rid = Some s" and d: "delete_exact K rid s h = (b, h')"
  shows "b \<and> agent_mirror get h'"
  using delete_exact_mirror [OF R tables_okD(1) [OF t] s _ d] delete_exact_frame [OF d] m
    mirror_frame(2,3) [of h' h get] by (simp add: agent_mirror_def)

lemma delete_cidr_mirror_step:
  assumes R: "hash_reliable (hash K) get" and t: "tables_ok h" and m: "agent_mirror get h"
    and s: "map_of (cidrRules h) rid = Some s" and d: "delete_cidr K rid s h = (b, h')"
  shows "b \<and> agent_mirror get h'"
  using delete_cidr_mirror [OF R tables_okD(2) [OF t] s _ d] delete_cidr_frame [OF d] m
    mirror_frame(1,3) [of h' h get] by (simp add: agent_mirror_def)

section \<open>The handler\<close>

lemma DeleteRule_cases:
  assumes "DeleteRule K rid h = (r, h')"
  obtains (missing) "map_of (rules h) rid = None" "map_of (cidrRules h) rid = None" "r = RuleNotFound" "h' = h"
  | (exact_failed) s where "map_of (rules h) rid = Some s" "delete_exact K rid s h = (False, h')" "r = ExactDeleteFailed"
  | (exact) s h1 e h2 where "map_of (rules h) rid = Some s" "delete_exact K rid s h = (True, h1)"
      "publishConfigUpdate K (- 1) 0 0 h1 = (e, h2)" "h' = forget_pps rid h2" "r = RuleDeleted"
  | (cidr_failed) s where "map_of (rules h) rid = None" "map_of (cidrRules h) rid = Some s"
      "delete_cidr K rid s h = (False, h')" "r = CIDRDeleteFailed"
  | (cidr) s h1 e h2 where "map_of (rules h) rid = None" "map_of (cidrRules h) rid = Some s"
      "delete_cidr K rid s h = (True, h1)" "publishConfigUpdate K 0 0 (- 1) h1 = (e, h2)"
      "h' = forget_pps rid h2" "r = RuleDeleted"
proof (cases "map_of (rules h) rid")
  case (Some s)
  obtain b h1 where d: "delete_exact K rid s h = (b, h1)" by force
  obtain e h2 where p: "publishConfigUpdate K (- 1) 0 0 h1 = (e, h2)" by force
  show ?thesis
  proof (cases b)
    case True
    with assms Some d p have "r = RuleDeleted" "h' = forget_pps rid h2" by (auto simp: DeleteRule_def)
    with exact [OF Some d [unfolded eqTrueI [OF True]] p] show ?thesis by blast
  next
    case False
    with assms Some d have "r = ExactDeleteFailed" "h' = h1" by (auto simp: DeleteRule_def)
    with exact_failed [OF Some] d False show ?thesis by simp
  qed
next
  case None
  note n = None
  show ?thesis
  proof (cases "map_of (cidrRules h) rid")
    case None
    with assms n have "r = RuleNotFound" "h' = h" by (simp_all add: DeleteRule_def)
    with missing n None show ?thesis by blast
  next
    case (Some s)
    obtain b h1 where d: "delete_cidr K rid s h = (b, h1)" by force
    obtain e h2 where p: "publishConfigUpdate K 0 0 (- 1) h1 = (e, h2)" by force
    show ?thesis
    proof (cases b)
      case True
      with assms n Some d p have "r = RuleDeleted" "h' = forget_pps rid h2" by (auto simp: DeleteRule_def)
      with cidr [OF n Some d [unfolded eqTrueI [OF True]] p] show ?thesis by blast
    next
      case False
      with assms n Some d have "r = CIDRDeleteFailed" "h' = h1" by (auto simp: DeleteRule_def)
      with cidr_failed [OF n Some] d False show ?thesis by simp
    qed
  qed
qed

lemma agent_ok_frame:
  assumes "agent_ok get h" "tables_ok h'" "config_view h' = config_view h" "bitmaps_le h' h"
  shows "agent_ok get h'"
  using assms covers_frame [of get h h'] by (simp add: agent_ok_def)

lemma DeleteRule_ok:
  assumes A: "array_laws (arr K) get" and ok: "agent_ok get h" and d: "DeleteRule K rid h = (r, h')"
  shows "agent_ok get h'"
proof -
  have t: "tables_ok h" using ok by (simp add: agent_ok_def)
  show ?thesis
    using d
  proof (cases rule: DeleteRule_cases)
    case (exact_failed s)
    with agent_ok_frame [OF ok, of h'] delete_exact_step [OF t exact_failed(1,2)] show ?thesis by simp
  next
    case (exact s h1 e h2)
    note st = delete_exact_step [OF t exact(1,2)]
    show ?thesis by (rule agent_ok_publish [OF A ok _ _ exact(3)]) (use st exact(4) in simp_all)
  next
    case (cidr_failed s)
    with agent_ok_frame [OF ok, of h'] delete_cidr_step [OF t cidr_failed(2,3)] show ?thesis by simp
  next
    case (cidr s h1 e h2)
    note st = delete_cidr_step [OF t cidr(2,3)]
    show ?thesis by (rule agent_ok_publish [OF A ok _ _ cidr(4)]) (use st cidr(5) in simp_all)
  qed (use ok in simp)
qed

lemma mirror_publish:
  assumes "publishConfigUpdate K d wd cd g = (e, g')" "all_views h' = all_views g'"
  shows "agent_mirror get h' = agent_mirror get g"
  by (rule mirror_views) (use publish_views [OF assms(1)] all_viewsD [OF assms(2)] in simp_all)

lemma DeleteRule_mirror:
  assumes R: "hash_reliable (hash K) get" and t: "tables_ok h" and m: "agent_mirror get h"
    and d: "DeleteRule K rid h = (r, h')"
  shows "agent_mirror get h' \<and> (r = RuleDeleted \<or> r = RuleNotFound)"
  using d
proof (cases rule: DeleteRule_cases)
  case (exact_failed s)
  then show ?thesis using delete_exact_mirror_step [OF R t m exact_failed(1,2)] by simp
next
  case (exact s h1 e h2)
  then show ?thesis
    using delete_exact_mirror_step [OF R t m exact(1,2)] mirror_publish [OF exact(3), of h' get] by simp
next
  case (cidr_failed s)
  then show ?thesis using delete_cidr_mirror_step [OF R t m cidr_failed(2,3)] by simp
next
  case (cidr s h1 e h2)
  then show ?thesis
    using delete_cidr_mirror_step [OF R t m cidr(2,3)] mirror_publish [OF cidr(4), of h' get] by simp
qed (use m in simp)

text \<open>The table afterwards.\<close>

lemma DeleteRule_result:
  assumes t: "tables_ok h" and d: "DeleteRule K rid h = (r, h')"
  shows "wlEntries h' = wlEntries h \<and>
    (if r = RuleDeleted
     then if map_of (rules h) rid \<noteq> None
       then map_of (rules h') = (map_of (rules h))(rid := None) \<and> map_of (cidrRules h') = map_of (cidrRules h)
       else map_of (cidrRules h') = (map_of (cidrRules h))(rid := None) \<and> map_of (rules h') = map_of (rules h)
     else map_of (rules h') = map_of (rules h) \<and> map_of (cidrRules h') = map_of (cidrRules h))"
proof -
  note D = tables_okD [OF t]
  show ?thesis
    using d
  proof (cases rule: DeleteRule_cases)
    case (exact_failed s)
    have f: "cidrRules h' = cidrRules h" "wlEntries h' = wlEntries h"
      using delete_exact_frame [OF exact_failed(2)] by (auto intro: view_fields)
    then show ?thesis using delete_exact_table [OF D(1) exact_failed(1,2)] exact_failed by simp
  next
    case (exact s h1 e h2)
    have f: "cidrRules h1 = cidrRules h" "wlEntries h1 = wlEntries h"
      using delete_exact_frame [OF exact(2)] by (auto intro: view_fields)
    then show ?thesis
      using delete_exact_table [OF D(1) exact(1,2)] publish_views(9-11) [OF exact(3)] exact
      by (simp add: forget_pps_def)
  next
    case (cidr_failed s)
    have f: "rules h' = rules h" "wlEntries h' = wlEntries h"
      using delete_cidr_frame [OF cidr_failed(3)] by (auto intro: view_fields)
    then show ?thesis using delete_cidr_table [OF D(2) cidr_failed(2,3)] cidr_failed by simp
  next
    case (cidr s h1 e h2)
    have f: "rules h1 = rules h" "wlEntries h1 = wlEntries h"
      using delete_cidr_frame [OF cidr(3)] by (auto intro: view_fields)
    then show ?thesis
      using delete_cidr_table [OF D(2) cidr(2,3)] publish_views(9-11) [OF cidr(4)] cidr
      by (simp add: forget_pps_def)
  qed simp
qed

end
