(* ===== verification/BatchFacts.thy ===== *)
theory BatchFacts
  imports DeleteFacts
begin

text \<open>
  The two batches. A batch is one publish after many table steps: the tables stay consistent after
  every item, the mirror too, and coverage is restored by the publish. When the publish of an
  addition fails the handler rolls the items back in the order they were added, which restores the
  tables provided no item took a key that another item had just given up.
\<close>

section \<open>Deleting a batch\<close>

lemma delete_items_step:
  "tables_ok h \<Longrightarrow> delete_items K ids h = (es, cs, failed, h') \<Longrightarrow>
   tables_ok h' \<and> config_view h' = config_view h \<and> bitmaps_le h' h \<and> (es = [] \<and> cs = [] \<longrightarrow> all_tables h' = all_tables h)"
  if "all_tables = (\<lambda>h. (map_of (rules h), map_of (cidrRules h), wlEntries h))"
  for all_tables :: "('m, 'c, 't) Handlers \<Rightarrow> _"
proof (induction ids arbitrary: h es cs failed)
  case Nil
  then show ?case by (simp add: bitmaps_le_def)
next
  case (Cons rid ids)
  have next_step: ?case
    if st: "tables_ok h1 \<and> config_view h1 = config_view h \<and> bitmaps_le h1 h"
      and d: "delete_items K ids h1 = (es1, cs1, f1, h')"
      and same: "es = [] \<and> cs = [] \<Longrightarrow> es1 = [] \<and> cs1 = [] \<and> all_tables h1 = all_tables h" for h1 es1 cs1 f1
    using Cons.IH [OF _ d] st same bitmaps_le_trans [of h' h1 h] by auto
  show ?case
  proof (cases "map_of (rules h) rid")
    case (Some s)
    obtain b h1 where de: "delete_exact K rid s h = (b, h1)" by force
    obtain es1 cs1 f1 h2 where d: "delete_items K ids h1 = (es1, cs1, f1, h2)" by (cases "delete_items K ids h1") auto
    have "\<not> b \<Longrightarrow> all_tables h1 = all_tables h"
      using delete_exact_table [OF tables_okD(1) [OF Cons.prems(1)] Some de] delete_exact_frame [OF de]
        view_fields(2,3) [of h1 h] that by simp
    with next_step [OF delete_exact_step [OF Cons.prems(1) Some de], of es1 cs1 f1] d Cons.prems(2) Some de show ?thesis
      by (auto split: if_splits)
  next
    case None
    note n = None
    show ?thesis
    proof (cases "map_of (cidrRules h) rid")
      case (Some s)
      obtain b h1 where de: "delete_cidr K rid s h = (b, h1)" by force
      obtain es1 cs1 f1 h2 where d: "delete_items K ids h1 = (es1, cs1, f1, h2)" by (cases "delete_items K ids h1") auto
      have "\<not> b \<Longrightarrow> all_tables h1 = all_tables h"
        using delete_cidr_table [OF tables_okD(2) [OF Cons.prems(1)] Some de] delete_cidr_frame [OF de]
          view_fields(1,3) [of h1 h] that by simp
      with next_step [OF delete_cidr_step [OF Cons.prems(1) Some de], of es1 cs1 f1] d Cons.prems(2) n Some de show ?thesis
        by (auto split: if_splits)
    next
      case None
      obtain es1 cs1 f1 h2 where d: "delete_items K ids h = (es1, cs1, f1, h2)" by (cases "delete_items K ids h") auto
      have st: "tables_ok h \<and> config_view h = config_view h \<and> bitmaps_le h h" using Cons.prems(1) by (simp add: bitmaps_le_def)
      with next_step [OF st, of es1 cs1 f1] d Cons.prems(2) n None show ?thesis by auto
    qed
  qed
qed

lemma delete_items_mirror:
  assumes R: "hash_reliable (hash K) get"
  shows "tables_ok h \<Longrightarrow> agent_mirror get h \<Longrightarrow> delete_items K ids h = (es, cs, failed, h') \<Longrightarrow> agent_mirror get h'"
proof (induction ids arbitrary: h es cs failed)
  case (Cons rid ids)
  show ?case
  proof (cases "map_of (rules h) rid")
    case (Some s)
    obtain b h1 where de: "delete_exact K rid s h = (b, h1)" by force
    obtain es1 cs1 f1 where d: "delete_items K ids h1 = (es1, cs1, f1, h')"
      using Cons.prems(3) Some de by (cases "delete_items K ids h1") (auto split: if_splits)
    show ?thesis
      using Cons.IH [OF _ _ d] delete_exact_step [OF Cons.prems(1) Some de]
        delete_exact_mirror_step [OF R Cons.prems(1,2) Some de] by blast
  next
    case None
    note n = None
    show ?thesis
    proof (cases "map_of (cidrRules h) rid")
      case (Some s)
      obtain b h1 where de: "delete_cidr K rid s h = (b, h1)" by force
      obtain es1 cs1 f1 where d: "delete_items K ids h1 = (es1, cs1, f1, h')"
        using Cons.prems(3) n Some de by (cases "delete_items K ids h1") (auto split: if_splits)
      show ?thesis
        using Cons.IH [OF _ _ d] delete_cidr_step [OF Cons.prems(1) Some de]
          delete_cidr_mirror_step [OF R Cons.prems(1,2) Some de] by blast
    next
      case None
      obtain es1 cs1 f1 where d: "delete_items K ids h = (es1, cs1, f1, h')"
        using Cons.prems(3) n None by (cases "delete_items K ids h") auto
      show ?thesis using Cons.IH [OF Cons.prems(1,2) d] .
    qed
  qed
qed simp

lemma DeleteRulesBatch_cases:
  assumes "DeleteRulesBatch K ids h = (r, h')"
  obtains es cs failed h1 where "delete_items K ids h = (es, cs, failed, h1)"
    "r = (int (length es) + int (length cs), failed)"
    "if es \<noteq> [] \<or> cs \<noteq> [] then \<exists>e h2. publishConfigUpdate K (- int (length es)) 0 (- int (length cs)) h1 = (e, h2) \<and>
         h' = fold forget_pps (es @ cs) h2
       else h' = h1"
proof -
  obtain es cs failed h1 where d: "delete_items K ids h = (es, cs, failed, h1)" by (cases "delete_items K ids h") auto
  obtain e h2 where "publishConfigUpdate K (- int (length es)) 0 (- int (length cs)) h1 = (e, h2)" by force
  with assms d that show ?thesis by (auto simp: DeleteRulesBatch_def Let_def split: if_splits)
qed

lemma DeleteRulesBatch_ok:
  assumes A: "array_laws (arr K) get" and ok: "agent_ok get h" and d: "DeleteRulesBatch K ids h = (r, h')"
  shows "agent_ok get h'"
proof -
  obtain es cs failed h1 where c: "delete_items K ids h = (es, cs, failed, h1)"
    "if es \<noteq> [] \<or> cs \<noteq> [] then \<exists>e h2. publishConfigUpdate K (- int (length es)) 0 (- int (length cs)) h1 = (e, h2) \<and>
         h' = fold forget_pps (es @ cs) h2
       else h' = h1"
    by (rule DeleteRulesBatch_cases [OF d])
  have t: "tables_ok h" using ok by (simp add: agent_ok_def)
  note st = delete_items_step [OF refl t c(1)]
  show ?thesis
  proof (cases "es \<noteq> [] \<or> cs \<noteq> []")
    case True
    with c(2) obtain e h2 where p: "publishConfigUpdate K (- int (length es)) 0 (- int (length cs)) h1 = (e, h2)"
      "h' = fold forget_pps (es @ cs) h2" by auto
    show ?thesis by (rule agent_ok_publish [OF A ok _ _ p(1)]) (use st p(2) in simp_all)
  next
    case False
    with c(2) agent_ok_frame [OF ok, of h1] st show ?thesis by simp
  qed
qed

lemma DeleteRulesBatch_mirror:
  assumes R: "hash_reliable (hash K) get" and t: "tables_ok h" and m: "agent_mirror get h"
    and d: "DeleteRulesBatch K ids h = (r, h')"
  shows "agent_mirror get h'"
proof -
  obtain es cs failed h1 where c: "delete_items K ids h = (es, cs, failed, h1)"
    "if es \<noteq> [] \<or> cs \<noteq> [] then \<exists>e h2. publishConfigUpdate K (- int (length es)) 0 (- int (length cs)) h1 = (e, h2) \<and>
         h' = fold forget_pps (es @ cs) h2
       else h' = h1"
    by (rule DeleteRulesBatch_cases [OF d])
  have "agent_mirror get h1" using delete_items_mirror [OF R t m c(1)] .
  then show ?thesis
    using c(2) mirror_publish [of K "- int (length es)" 0 "- int (length cs)" h1 _ _ h' get]
    by (auto split: if_splits)
qed

section \<open>Staging a batch of additions\<close>

lemma committableD:
  assumes "committable s v"
  shows "wf_RuleKey (sr_Key s)" "validateComboType (getComboType (sr_Key s))" "v = ruleValueFromStored s"
  using assms by (simp_all add: committable_def)

lemma stage_items_cases:
  assumes "stage_items K (p # ps) h = (succ, failed, h')"
  obtains (failed) e h1 f1 where "rule_stage K (pr_id p) (pr_stored p) (pr_value p) h = (Some e, h1)"
      "stage_items K ps h1 = (succ, f1, h')" "failed = f1 + 1"
  | (ok) h1 succ1 where "rule_stage K (pr_id p) (pr_stored p) (pr_value p) h = (None, h1)"
      "stage_items K ps h1 = (succ1, failed, h')" "succ = (p, map_of (rules h) (pr_id p)) # succ1"
proof -
  obtain x h1 where st: "rule_stage K (pr_id p) (pr_stored p) (pr_value p) h = (x, h1)" by force
  obtain s1 f1 h2 where it: "stage_items K ps h1 = (s1, f1, h2)" by (cases "stage_items K ps h1") auto
  show ?thesis
  proof (cases x)
    case None
    with assms st it have "succ = (p, map_of (rules h) (pr_id p)) # s1" "failed = f1" "h' = h2" by simp_all
    with ok [of h1 s1] st it None show ?thesis by blast
  next
    case (Some e)
    with assms st it have "succ = s1" "failed = f1 + 1" "h' = h2" by simp_all
    with failed [of e h1 f1] st it Some show ?thesis by blast
  qed
qed

lemma stage_items_frame:
  "stage_items K ps h = (succ, failed, h') \<Longrightarrow>
   cidr_view h' = cidr_view h \<and> wl_view h' = wl_view h \<and> slots_view h' = slots_view h \<and>
   config_view h' = config_view h \<and> cidrMgr h' = cidrMgr h \<and>
   activeCidrBlacklist h' = activeCidrBlacklist h \<and> activeWhitelist h' = activeWhitelist h"
proof (induction ps arbitrary: h succ failed)
  case (Cons p ps)
  from Cons.prems show ?case
  proof (cases rule: stage_items_cases)
    case (failed e h1 f1)
    then show ?thesis using Cons.IH [OF failed(2)] rule_stage_frame [OF failed(1)] by simp
  next
    case (ok h1 succ1)
    then show ?thesis using Cons.IH [OF ok(2)] rule_stage_frame [OF ok(1)] by simp
  qed
qed simp

text \<open>
  The table after the staging: the items that succeeded are in it, each reported with the rule it
  replaced in the original table, because the IDs of a batch are distinct.
\<close>

definition staged_items :: "(preparedRule \<times> StoredRule option) list \<Rightarrow> (string \<rightharpoonup> StoredRule) \<Rightarrow> (string \<rightharpoonup> StoredRule)" where
  "staged_items succ R = fold (\<lambda>(p, _) R. R(pr_id p \<mapsto> pr_stored p)) succ R"

lemma staged_items_simps [simp]:
  "staged_items [] R = R" "staged_items ((p, old) # succ) R = staged_items succ (R(pr_id p \<mapsto> pr_stored p))"
  by (simp_all add: staged_items_def)

lemma staged_items_other: "rid \<notin> (pr_id \<circ> fst) ` set succ \<Longrightarrow> staged_items succ R rid = R rid"
  by (induction succ arbitrary: R) auto

lemma staged_items_get:
  "distinct (map (pr_id \<circ> fst) succ) \<Longrightarrow> (p, old) \<in> set succ \<Longrightarrow> staged_items succ R (pr_id p) = Some (pr_stored p)"
proof (induction succ arbitrary: R)
  case (Cons it succ)
  show ?case
  proof (cases "it = (p, old)")
    case True
    have "pr_id p \<notin> (pr_id \<circ> fst) ` set succ" using Cons.prems(1) True by (auto simp: image_iff)
    with True staged_items_other [of "pr_id p" succ] show ?thesis by simp
  next
    case False
    with Cons show ?thesis by (cases it) auto
  qed
qed simp

lemma stage_items_table:
  "exact_inv h \<Longrightarrow> \<forall>p \<in> set ps. committable (pr_stored p) (pr_value p) \<Longrightarrow> distinct (map pr_id ps) \<Longrightarrow>
   stage_items K ps h = (succ, failed, h') \<Longrightarrow>
   exact_inv h' \<and> map_of (rules h') = staged_items succ (map_of (rules h)) \<and>
   (\<forall>(p, old) \<in> set succ. p \<in> set ps \<and> old = map_of (rules h) (pr_id p)) \<and>
   distinct (map (pr_id \<circ> fst) succ) \<and> (succ = [] \<longrightarrow> exact_view h' = exact_view h)"
proof (induction ps arbitrary: h succ failed)
  case (Cons p ps)
  have k: "wf_RuleKey (sr_Key (pr_stored p))" "validateComboType (getComboType (sr_Key (pr_stored p)))"
    using Cons.prems(2) committableD by auto
  have prem: "\<forall>p \<in> set ps. committable (pr_stored p) (pr_value p)" "distinct (map pr_id ps)" using Cons.prems(2,3) by auto
  from Cons.prems(4) show ?case
  proof (cases rule: stage_items_cases)
    case (failed e h1 f1)
    note t = rule_stage_table [OF Cons.prems(1) k failed(1)]
    have v: "exact_view h1 = exact_view h" using t by simp
    have r: "rules h1 = rules h" using view_fields(1) [OF v] .
    have i: "exact_inv h1" using t by simp
    show ?thesis using Cons.IH [OF i prem failed(2)] v unfolding r by auto
  next
    case (ok h1 succ1)
    note t = rule_stage_table [OF Cons.prems(1) k ok(1)]
    have v: "exact_view h1 = exact_view (add_rule_memory (pr_id p) (pr_stored p) h)" using t by simp
    have r: "map_of (rules h1) = (map_of (rules h))(pr_id p \<mapsto> pr_stored p)"
      using view_fields(1) [OF v] by (simp add: add_rule_memory_fields)
    have i: "exact_inv h1" using t by simp
    note ih = Cons.IH [OF i prem ok(2)]
    have fresh: "pr_id q \<noteq> pr_id p" if "q \<in> set ps" for q using Cons.prems(3) that by (metis distinct.simps(2) imageI list.set_map list.simps(9))
    have later: "q \<in> set ps \<and> old = map_of (rules h1) (pr_id q)" if "(q, old) \<in> set succ1" for q old
      using ih that by blast
    have "pr_id p \<notin> (pr_id \<circ> fst) ` set succ1" using later fresh by fastforce
    then have dis: "distinct (map (pr_id \<circ> fst) succ)" using ih by (simp add: ok(3) comp_def)
    have mem: "q \<in> set (p # ps) \<and> old = map_of (rules h) (pr_id q)" if "(q, old) \<in> set succ" for q old
      using that later [of q old] fresh [of q] by (auto simp: ok(3) r)
    have "map_of (rules h') = staged_items succ (map_of (rules h))"
      using ih [THEN conjunct2, THEN conjunct1] by (simp only: ok(3) r staged_items_simps)
    moreover have "succ \<noteq> []" by (simp add: ok(3))
    ultimately show ?thesis using ih [THEN conjunct1] dis mem by blast
  qed
qed simp

lemma stage_items_mirror:
  assumes R: "hash_reliable (hash K) get"
  shows "exact_inv h \<Longrightarrow> \<forall>p \<in> set ps. committable (pr_stored p) (pr_value p) \<Longrightarrow> exact_mirror get h \<Longrightarrow>
   stage_items K ps h = (succ, failed, h') \<Longrightarrow> exact_mirror get h' \<and>
   (\<forall>(p, old) \<in> set succ. \<forall>s. old = Some s \<longrightarrow> sr_Key s \<noteq> sr_Key (pr_stored p))"
proof (induction ps arbitrary: h succ failed)
  case (Cons p ps)
  note c = committableD [of "pr_stored p" "pr_value p"]
  have cp: "committable (pr_stored p) (pr_value p)" using Cons.prems(2) by simp
  have prem: "\<forall>p \<in> set ps. committable (pr_stored p) (pr_value p)" using Cons.prems(2) by auto
  from Cons.prems(4) show ?case
  proof (cases rule: stage_items_cases)
    case (failed e h1 f1)
    show ?thesis
      using Cons.IH [OF _ prem _ failed(2)] rule_stage_table [OF Cons.prems(1) c(1,2) failed(1), OF cp cp]
        rule_stage_mirror [OF R Cons.prems(1) c(1,3) Cons.prems(3) failed(1), OF cp cp] by blast
  next
    case (ok h1 succ1)
    note st = rule_stage_mirror [OF R Cons.prems(1) c(1,3) Cons.prems(3) ok(1), OF cp cp]
    have un: "map_of (ruleKeyIndex h) (sr_Key (pr_stored p)) = None" using st by simp
    have ne: "sr_Key s \<noteq> sr_Key (pr_stored p)" if "map_of (rules h) (pr_id p) = Some s" for s
    proof
      assume "sr_Key s = sr_Key (pr_stored p)"
      then have "map_of (ruleKeyIndex h) (sr_Key (pr_stored p)) = Some (pr_id p)"
        using exact.owner_iff [OF Cons.prems(1)] that by blast
      with un show False by simp
    qed
    show ?thesis
      using Cons.IH [OF _ prem _ ok(2)] rule_stage_table [OF Cons.prems(1) c(1,2) ok(1), OF cp cp] st ne
      unfolding ok(3) by auto
  qed
qed simp

section \<open>Rolling a batch back\<close>

lemma rollback_step:
  fixes g :: "('m, 'c, 't) Handlers"
  assumes inv: "exact_inv g" and s: "map_of (rules g) rid = Some s"
    and old: "\<And>o'. old = Some o' \<Longrightarrow> wf_RuleKey (sr_Key o') \<and> validateComboType (getComboType (sr_Key o')) \<and>
      (\<forall>a t. map_of (rules g) a = Some t \<longrightarrow> sr_Key t = sr_Key o' \<longrightarrow> a = rid)"
  shows "exact_inv (rule_rollback K rid s old g) \<and> map_of (rules (rule_rollback K rid s old g)) = (map_of (rules g))(rid := old)"
proof -
  let ?d = "drop_rule_memory rid s g"
  note v = rollback_views(1) [of K rid s old g]
  have d: "exact_inv ?d" "map_of (rules ?d) = (map_of (rules g))(rid := None)"
    using exact.drop_inv [OF inv s] by (simp_all add: drop_rule_memory_def)
  have "exact_inv (undo_add rid s old g) \<and> map_of (rules (undo_add rid s old g)) = (map_of (rules g))(rid := old)"
  proof (cases old)
    case None
    with d show ?thesis by (simp add: undo_add_def)
  next
    case (Some o')
    note o = old [OF Some]
    have "map_of (ruleKeyIndex ?d) (sr_Key o') = None"
    proof (cases "map_of (ruleKeyIndex ?d) (sr_Key o')")
      case (Some a)
      then obtain t where "map_of (rules ?d) a = Some t" "sr_Key t = sr_Key o'" using exact.owner_iff [OF d(1)] by blast
      with d(2) o show ?thesis by (auto split: if_splits)
    qed
    then have "exact_inv (add_rule_memory rid o' ?d)"
      using exact.put_inv [OF d(1)] o by (simp add: validateComboType_iff)
    with Some d(2) show ?thesis by (simp add: undo_add_def add_rule_memory_fields)
  qed
  then show ?thesis using exact_inv_view [OF v] view_fields(1) [OF v] by simp
qed

lemma rollback_step_mirror:
  fixes g :: "('m, 'c, 't) Handlers"
  assumes R: "hash_reliable (hash K) get" and inv: "exact_inv g" and m: "exact_mirror get g"
    and s: "map_of (rules g) rid = Some s"
    and old: "\<And>o'. old = Some o' \<Longrightarrow> wf_RuleKey (sr_Key o') \<and> validateComboType (getComboType (sr_Key o')) \<and>
      (\<forall>a t. map_of (rules g) a = Some t \<longrightarrow> sr_Key t = sr_Key o' \<longrightarrow> a = rid)"
    and ne: "\<And>o'. old = Some o' \<Longrightarrow> sr_Key o' \<noteq> sr_Key s"
  shows "exact_mirror get (rule_rollback K rid s old g)"
proof -
  let ?enc = "\<lambda>s. ruleKeyToBytes (sr_Key s)"
  obtain b where b: "Delete (hash K) (activeBlacklist g) (?enc s) = (True, b)"
    "image_of ?enc rule_val ((map_of (rules g))(rid := None)) (get b)"
    using exact.delete_reliable [OF R inv m [unfolded exact_mirror_def] s] by blast
  have "image_of ?enc rule_val ((map_of (rules g))(rid := old)) (get (activeBlacklist (rule_rollback K rid s old g)))"
  proof (cases old)
    case None
    with b show ?thesis by (simp add: rule_rollback_def Let_def)
  next
    case (Some o')
    note o = old [OF Some] and n = ne [OF Some]
    have "?enc t \<noteq> ?enc o'" if t: "((map_of (rules g))(rid := None)) a = Some t" for a t
    proof -
      have "map_of (rules g) a = Some t" "a \<noteq> rid" using t by (auto split: if_splits)
      then show ?thesis
        using o exact.entry_ok [OF inv, of a t] rule_key.enc_eq_iff [of "sr_Key t" "sr_Key o'"] by blast
    qed
    then have a: "get b (?enc o') = None" using image_of_absent [OF b(2)] by blast
    then obtain b' where u: "UpdateNoExist (hash K) b (?enc o') (rule_val o') = (True, b')" "get b' = (get b)(?enc o' \<mapsto> rule_val o')"
      using hash_reliableD(2) [OF R] by blast
    have "image_of ?enc rule_val (((map_of (rules g))(rid := None))(rid \<mapsto> o')) (get b')"
      unfolding u(2) by (rule image_of_add [OF b(2) _ a]) simp
    with b(1) u(1) n Some show ?thesis by (simp add: rule_rollback_def Let_def rule_val_def)
  qed
  then show ?thesis using rollback_step [OF inv s old, where K = K] by (simp add: exact_mirror_def)
qed

lemma rollback_items_frame:
  "cidr_view (rollback_items K its h) = cidr_view h \<and> wl_view (rollback_items K its h) = wl_view h \<and>
   config_view (rollback_items K its h) = config_view h \<and> slots_view (rollback_items K its h) = slots_view h \<and>
   cidrMgr (rollback_items K its h) = cidrMgr h \<and> activeCidrBlacklist (rollback_items K its h) = activeCidrBlacklist h \<and>
   activeWhitelist (rollback_items K its h) = activeWhitelist h"
  by (induction its arbitrary: h) (auto simp: rollback_views)

text \<open>
  The items of a rollback, with the rules they replaced in \<open>R\<close>. No rule replaced has the key of an
  item other than its own.
\<close>

definition items_of :: "(preparedRule \<times> StoredRule option) list \<Rightarrow> (string \<rightharpoonup> StoredRule) \<Rightarrow> bool" where
  "items_of its R \<longleftrightarrow> distinct (map (pr_id \<circ> fst) its) \<and> (\<forall>(p, old) \<in> set its. old = R (pr_id p))"

definition no_handover :: "preparedRule list \<Rightarrow> (string \<rightharpoonup> StoredRule) \<Rightarrow> bool" where
  "no_handover ps R \<longleftrightarrow>
     (\<forall>p \<in> set ps. \<forall>q \<in> set ps. pr_id p \<noteq> pr_id q \<longrightarrow>
        (case R (pr_id p) of None \<Rightarrow> True | Some old \<Rightarrow> sr_Key old \<noteq> sr_Key (pr_stored q)))"

lemma no_handoverD:
  "no_handover ps R \<Longrightarrow> p \<in> set ps \<Longrightarrow> q \<in> set ps \<Longrightarrow> pr_id p \<noteq> pr_id q \<Longrightarrow> R (pr_id p) = Some old \<Longrightarrow>
   sr_Key old \<noteq> sr_Key (pr_stored q)"
  unfolding no_handover_def by fastforce

text \<open>
  From a state whose table is that of \<open>h\<close> with some of the items, rolling those back leads to the
  table of \<open>h\<close>.
\<close>

lemma rollback_items_restore:
  fixes g h :: "('m, 'c, 't) Handlers"
  assumes inv: "exact_inv h" and nh: "no_handover ps (map_of (rules h))"
  shows "exact_inv g \<Longrightarrow> items_of its (map_of (rules h)) \<Longrightarrow> fst ` set its \<subseteq> set ps \<Longrightarrow>
    map_of (rules g) = staged_items its (map_of (rules h)) \<Longrightarrow>
    exact_inv (rollback_items K its g) \<and> map_of (rules (rollback_items K its g)) = map_of (rules h) \<and>
    (hash_reliable (hash K) get \<and> exact_mirror get g \<and>
       (\<forall>(p, old) \<in> set its. \<forall>s. old = Some s \<longrightarrow> sr_Key s \<noteq> sr_Key (pr_stored p)) \<longrightarrow>
     exact_mirror get (rollback_items K its g))"
proof (induction its arbitrary: g)
  case (Cons it its)
  obtain p old where it: "it = (p, old)" by force
  let ?R = "map_of (rules h)" and ?g = "rule_rollback K (pr_id p) (pr_stored p) old g"
  have dist: "pr_id p \<notin> (pr_id \<circ> fst) ` set its" and items: "items_of its ?R" and o: "old = ?R (pr_id p)"
    using Cons.prems(2) by (auto simp: items_of_def it)
  have s: "map_of (rules g) (pr_id p) = Some (pr_stored p)"
    using Cons.prems(4) staged_items_other [OF dist] by (simp add: it)
  have entry: "a = pr_id p \<or> (\<exists>q \<in> set ps. pr_id q = a \<and> t = pr_stored q) \<or> ?R a = Some t"
    if t: "map_of (rules g) a = Some t" for a t
  proof (cases "a \<in> (pr_id \<circ> fst) ` set its")
    case True
    then obtain q o' where q: "(q, o') \<in> set its" "pr_id q = a" by auto
    have "distinct (map (pr_id \<circ> fst) its)" using items by (simp add: items_of_def)
    from staged_items_get [OF this q(1)] t q Cons.prems(3,4) show ?thesis by (force simp: it)
  next
    case False
    with t Cons.prems(4) staged_items_other [OF False] show ?thesis by (auto simp: it split: if_splits)
  qed
  have old: "wf_RuleKey (sr_Key o') \<and> validateComboType (getComboType (sr_Key o')) \<and>
      (\<forall>a t. map_of (rules g) a = Some t \<longrightarrow> sr_Key t = sr_Key o' \<longrightarrow> a = pr_id p)" if "old = Some o'" for o'
  proof (intro conjI allI impI)
    have e: "?R (pr_id p) = Some o'" using o that by simp
    show "wf_RuleKey (sr_Key o')" "validateComboType (getComboType (sr_Key o'))"
      using exact.entry_ok [OF inv e] by (simp_all add: validateComboType_iff)
    fix a t assume t: "map_of (rules g) a = Some t" "sr_Key t = sr_Key o'"
    have pp: "p \<in> set ps" using Cons.prems(3) by (simp add: it)
    from entry [OF t(1)] show "a = pr_id p"
    proof (elim disjE bexE conjE)
      fix q assume q: "q \<in> set ps" "pr_id q = a" "t = pr_stored q"
      show ?thesis using no_handoverD [OF nh pp q(1) _ e] q t(2) by metis
    next
      assume "?R a = Some t"
      with exact.key_inj [OF inv _ e t(2)] show ?thesis by blast
    qed
  qed
  note st = rollback_step [OF Cons.prems(1) s old, where K = K]
  have r: "map_of (rules ?g) = staged_items its ?R"
  proof
    fix a show "map_of (rules ?g) a = staged_items its ?R a"
    proof (cases "a = pr_id p")
      case True
      with st o staged_items_other [OF dist, of ?R] show ?thesis by simp
    next
      case False
      have "staged_items its (?R(pr_id p \<mapsto> pr_stored p)) a = staged_items its ?R a"
      proof (cases "a \<in> (pr_id \<circ> fst) ` set its")
        case True
        then obtain q o' where q: "(q, o') \<in> set its" "pr_id q = a" by auto
        have d: "distinct (map (pr_id \<circ> fst) its)" using items by (simp add: items_of_def)
        show ?thesis using staged_items_get [OF d q(1)] q(2) by metis
      next
        case out: False
        show ?thesis using False by (simp add: staged_items_other [OF out])
      qed
      with False st Cons.prems(4) show ?thesis by (simp add: it)
    qed
  qed
  have "fst ` set its \<subseteq> set ps" using Cons.prems(3) by auto
  note ih = Cons.IH [OF conjunct1 [OF st] items this r]
  have "exact_mirror get ?g" if "hash_reliable (hash K) get" "exact_mirror get g"
    "\<forall>s. old = Some s \<longrightarrow> sr_Key s \<noteq> sr_Key (pr_stored p)"
    using rollback_step_mirror [OF that(1) Cons.prems(1) that(2) s old] that(3) by blast
  with ih show ?case by (simp add: it)
qed simp

end
