(* ===== verification/BatchAdd.thy ===== *)
theory BatchAdd
  imports BatchFacts
begin

text \<open>
  The batch of additions as a whole: the CIDR rules one by one, the exact rules staged and published
  once. Also the room an addition uses in the space of CIDR IDs.
\<close>

section \<open>Room for IDs\<close>

lemma alloc_ids_room:
  assumes n: "room (Suc (Suc n)) m" and a: "alloc_ids tw a b m = (r, m')"
  shows "room n m'"
proof -
  obtain r1 m1 where 1: "(if a \<noteq> [] then AllocSrcID tw m a else (Inr 0, m)) = (r1, m1)" by force
  have n1: "room (Suc n) m1"
    using room_Alloc(1) [OF n, of tw a r1 m1] 1 room_mono [OF n, of "Suc n"] by (auto split: if_splits)
  obtain r2 m2 where 2: "(if b \<noteq> [] then AllocDstID tw m1 b else (Inr 0, m1)) = (r2, m2)" by force
  have n2: "room n m2"
    using room_Alloc(2) [OF n1, of tw b r2 m2] 2 room_mono [OF n1, of n] by (auto split: if_splits)
  show ?thesis
    using a 1 2 n1 n2 room_mono [OF n1, of n] by (cases r1; cases r2) (auto simp: alloc_ids_def)
qed

lemma cidr_commit_room:
  assumes "cidr_commit K rid s vl h = (r, h')"
  shows "room n (cidrMgr h') = room n (cidrMgr h)"
  using assms
proof (cases rule: cidr_commit_cases)
  case (failed h1)
  then show ?thesis using cidr_stage_frame [OF failed(1)] by simp
next
  case (ok h1 h2)
  then show ?thesis using cidr_stage_frame [OF ok(1)] publish_views(5) [OF ok(2)] by (auto split: option.splits)
next
  case (rollback h1 e h2)
  then show ?thesis using cidr_stage_frame [OF rollback(1)] publish_views(5) [OF rollback(2)] by (simp add: cidr_rollback_views)
qed

lemma cidr_alloc_commit_room:
  assumes n: "room (Suc (Suc n)) (cidrMgr h)" and c: "cidr_alloc_commit K rid req a b vl h = (r, h')"
  shows "room n (cidrMgr h')"
proof -
  obtain x m where al: "alloc_ids (trie K) a b (cidrMgr h) = (x, m)" by force
  note rm = alloc_ids_room [OF n al]
  show ?thesis
  proof (cases x)
    case (Inl e)
    with c al rm show ?thesis by (auto simp: cidr_alloc_commit_def)
  next
    case (Inr ij)
    obtain i j where ij: "ij = (i, j)" by force
    let ?ck = "build_cidr_key i j (r_SrcPort req) (r_DstPort req) (r_Protocol req)"
    obtain r1 h2 where cc: "cidr_commit K rid (stored_cidr_of ?ck a b req) vl (h\<lparr>cidrMgr := m\<rparr>) = (r1, h2)" by force
    have "room n (cidrMgr h2)" using cidr_commit_room [OF cc, of n] rm by simp
    with c al rm Inr ij cc show ?thesis by (auto simp: cidr_alloc_commit_def Let_def split: if_splits)
  qed
qed

lemma room_exact:
  assumes "rule_commit K rid s vl h = (r, h')"
  shows "cidrMgr h' = cidrMgr h"
  using rule_commit_frame [OF assms] by simp

lemma add_effect_room:
  assumes n: "room (Suc (Suc n)) (cidrMgr h)" and e: "add_effect K rid h r h'"
  shows "room n (cidrMgr h')"
  using e
proof (cases rule: add_effect_cases)
  case (exact s vl r1)
  with room_exact [OF exact(2)] room_mono [OF n, of n] show ?thesis by simp
next
  case (cidr req a b vl)
  with cidr_alloc_commit_room [OF n cidr(2)] show ?thesis by simp
qed (use room_mono [OF n, of n] in simp)

section \<open>The CIDR rules of a batch\<close>

lemma batch_cidr_step:
  assumes "batch_cidr K fresh n (r # rs) added failed h = (ad, fa, h')"
  obtains rp h1 n1 a1 f1 where "addCIDRRuleFromSync K (fresh n) (ruleToSyncRule r) h = (rp, h1)"
    "batch_cidr K fresh n1 rs a1 f1 h1 = (ad, fa, h')"
proof -
  obtain rp h1 where "addCIDRRuleFromSync K (fresh n) (ruleToSyncRule r) h = (rp, h1)" by force
  with assms that show ?thesis by (cases rp) (auto split: commit_result.splits)
qed

lemma addCIDRRuleFromSync_exact_view:
  assumes "addCIDRRuleFromSync K fresh rule h = (r, h')"
  shows "exact_view h' = exact_view h \<and> wl_view h' = wl_view h \<and> activeBlacklist h' = activeBlacklist h"
  using assms
  by (cases rule: addCIDRRuleFromSync_request) (auto dest: cidr_alloc_commit_frame)

lemma batch_cidr_ok:
  assumes A: "array_laws (arr K) get"
  shows "agent_ok get h \<Longrightarrow> room (2 * length rs) (cidrMgr h) \<Longrightarrow> batch_cidr K fresh n rs added failed h = (ad, fa, h') \<Longrightarrow>
    agent_ok get h' \<and> exact_view h' = exact_view h \<and> wl_view h' = wl_view h \<and> activeBlacklist h' = activeBlacklist h"
proof (induction rs arbitrary: h n added failed)
  case (Cons r rs)
  obtain rp h1 n1 a1 f1 where s: "addCIDRRuleFromSync K (fresh n) (ruleToSyncRule r) h = (rp, h1)"
    "batch_cidr K fresh n1 rs a1 f1 h1 = (ad, fa, h')"
    by (rule batch_cidr_step [OF Cons.prems(3)])
  note e = addCIDRRuleFromSync_effect [OF s(1)]
  have n: "room (Suc (Suc (2 * length rs))) (cidrMgr h)" using Cons.prems(2) by simp
  have "room 2 (cidrMgr h)" using room_mono [OF n, of 2] by simp
  with Cons.IH [OF add_effect_ok [OF A Cons.prems(1) _ e] add_effect_room [OF n e] s(2)]
    addCIDRRuleFromSync_exact_view [OF s(1)] show ?case by simp
qed simp

lemma batch_cidr_mirror:
  assumes A: "array_laws (arr K) cget" and R: "hash_reliable (hash K) get"
  shows "agent_ok cget h \<Longrightarrow> agent_mirror get h \<Longrightarrow> room (2 * length rs) (cidrMgr h) \<Longrightarrow>
    batch_cidr K fresh n rs added failed h = (ad, fa, h') \<Longrightarrow> agent_mirror get h'"
proof (induction rs arbitrary: h n added failed)
  case (Cons r rs)
  obtain rp h1 n1 a1 f1 where s: "addCIDRRuleFromSync K (fresh n) (ruleToSyncRule r) h = (rp, h1)"
    "batch_cidr K fresh n1 rs a1 f1 h1 = (ad, fa, h')"
    by (rule batch_cidr_step [OF Cons.prems(4)])
  note e = addCIDRRuleFromSync_effect [OF s(1)]
  have n: "room (Suc (Suc (2 * length rs))) (cidrMgr h)" using Cons.prems(3) by simp
  have n2: "room 2 (cidrMgr h)" using room_mono [OF n, of 2] by simp
  have t: "tables_ok h" using Cons.prems(1) by (simp add: agent_ok_def)
  show ?case
    using Cons.IH [OF add_effect_ok [OF A Cons.prems(1) n2 e] add_effect_mirror [OF R t Cons.prems(2) e]
        add_effect_room [OF n e] s(2)] .
qed simp

section \<open>The whole batch\<close>

text \<open>The split of a request, and the rules that pass the checks.\<close>

definition is_cidr :: "Rule \<Rightarrow> bool" where
  "is_cidr r \<longleftrightarrow> r_SrcCIDR r \<noteq> [] \<or> r_DstCIDR r \<noteq> []"

definition batch_prepared :: "(nat \<Rightarrow> string) \<Rightarrow> Rule list \<Rightarrow> preparedRule list" where
  "batch_prepared fresh reqRules =
     fst (prepare_batch fresh (length (filter is_cidr reqRules)) (filter (\<lambda>r. \<not> is_cidr r) reqRules) [] 0)"

lemma prepare_batch_failed:
  "fst (prepare_batch fresh n rs prepared f1) = fst (prepare_batch fresh n rs prepared f2)"
proof (induction rs arbitrary: n prepared f1 f2)
  case (Cons r rs)
  show ?case
  proof (cases "batch_checks r")
    case (Inl e)
    with Cons.IH [of n prepared "f1 + 1" "f2 + 1"] show ?thesis by simp
  next
    case (Inr sv)
    with Cons.IH show ?thesis by (cases sv) simp
  qed
qed simp

lemma batch_prepared_ready: "batch_ready (batch_prepared fresh rs)"
proof -
  obtain ps f where p: "prepare_batch fresh (length (filter is_cidr rs)) (filter (\<lambda>r. \<not> is_cidr r) rs) [] 0 = (ps, f)" by force
  have "batch_ready []" by (simp add: batch_ready_def)
  from prepare_batch_ready [OF p this] p show ?thesis by (simp add: batch_prepared_def)
qed

lemma AddRulesBatch_cases:
  assumes "AddRulesBatch K fresh rs h = (r, h')"
  obtains ad fa h1 succ f2 h2 where
    "batch_cidr K fresh 0 (filter is_cidr rs) 0 0 h = (ad, fa, h1)"
    "stage_items K (batch_prepared fresh rs) h1 = (succ, f2, h2)"
    "(succ = [] \<and> h' = h2 \<and> (\<exists>n m. r = BatchDone n m)) \<or>
     (succ \<noteq> [] \<and> (\<exists>e h3. publishConfigUpdate K (int (length (filter (\<lambda>(p, old). old = None) succ))) 0 0 h2 = (e, h3) \<and>
        (case e of
           Some x \<Rightarrow> r = BatchPublishFailed x \<and> h' = rollback_items K succ h3
         | None \<Rightarrow> (\<exists>n m. r = BatchDone n m) \<and> h' = h3)))"
proof -
  obtain ad fa h1 where b: "batch_cidr K fresh 0 (filter is_cidr rs) 0 0 h = (ad, fa, h1)"
    by (cases "batch_cidr K fresh 0 (filter is_cidr rs) 0 0 h") auto
  obtain ps f1 where p: "prepare_batch fresh (length (filter is_cidr rs)) (filter (\<lambda>r. \<not> is_cidr r) rs) [] fa = (ps, f1)" by force
  have ps: "batch_prepared fresh rs = ps" using p prepare_batch_failed unfolding batch_prepared_def by (metis fst_conv)
  obtain succ f2 h2 where st: "stage_items K ps h1 = (succ, f2, h2)" by (cases "stage_items K ps h1") auto
  obtain e h3 where pb: "publishConfigUpdate K (int (length (filter (\<lambda>(p, old). old = None) succ))) 0 0 h2 = (e, h3)" by force
  note d = assms [unfolded AddRulesBatch_def Let_def is_cidr_def [symmetric] b p st pb prod.case]
  have "(succ = [] \<and> h' = h2 \<and> (\<exists>n m. r = BatchDone n m)) \<or>
     (succ \<noteq> [] \<and> (\<exists>e h3. publishConfigUpdate K (int (length (filter (\<lambda>(p, old). old = None) succ))) 0 0 h2 = (e, h3) \<and>
        (case e of
           Some x \<Rightarrow> r = BatchPublishFailed x \<and> h' = rollback_items K succ h3
         | None \<Rightarrow> (\<exists>n m. r = BatchDone n m) \<and> h' = h3)))"
    using d pb by (cases "succ = []"; cases e) auto
  with b st ps that show ?thesis by blast
qed

lemma staged_ok:
  assumes t: "tables_ok h1" and ready: "batch_ready ps" and st: "stage_items K ps h1 = (succ, f2, h2)"
  shows "tables_ok h2 \<and> config_view h2 = config_view h1"
proof -
  have "exact_inv h2"
    using stage_items_table [OF tables_okD(1) [OF t] _ _ st] ready by (simp add: batch_ready_def)
  with tables_ok_exact [OF t, of h2] stage_items_frame [OF st] show ?thesis by simp
qed

text \<open>
  The invariant after a batch. When the publish fails it needs that no rule of the batch takes the
  key another rule of the batch gives up.
\<close>

lemma AddRulesBatch_ok:
  assumes A: "array_laws (arr K) get" and ok: "agent_ok get h" and n: "room (2 * length (filter is_cidr rs)) (cidrMgr h)"
    and b: "AddRulesBatch K fresh rs h = (r, h')"
    and nh: "\<forall>e. r = BatchPublishFailed e \<longrightarrow> no_handover (batch_prepared fresh rs) (map_of (rules h))"
  shows "agent_ok get h' \<and> (\<forall>e. r = BatchPublishFailed e \<longrightarrow> map_of (rules h') = map_of (rules h))"
proof -
  let ?ps = "batch_prepared fresh rs"
  obtain ad fa h1 succ f2 h2 where c:
    "batch_cidr K fresh 0 (filter is_cidr rs) 0 0 h = (ad, fa, h1)"
    "stage_items K ?ps h1 = (succ, f2, h2)"
    "(succ = [] \<and> h' = h2 \<and> (\<exists>n m. r = BatchDone n m)) \<or>
     (succ \<noteq> [] \<and> (\<exists>e h3. publishConfigUpdate K (int (length (filter (\<lambda>(p, old). old = None) succ))) 0 0 h2 = (e, h3) \<and>
        (case e of
           Some x \<Rightarrow> r = BatchPublishFailed x \<and> h' = rollback_items K succ h3
         | None \<Rightarrow> (\<exists>n m. r = BatchDone n m) \<and> h' = h3)))"
    by (rule AddRulesBatch_cases [OF b])
  have ok1: "agent_ok get h1" and rs1: "rules h1 = rules h"
    using batch_cidr_ok [OF A ok n c(1)] view_fields(1) [of h1 h] by auto
  have t1: "tables_ok h1" using ok1 by (simp add: agent_ok_def)
  note D1 = tables_okD [OF t1]
  note ready = batch_prepared_ready [of fresh rs]
  have com: "\<forall>p \<in> set ?ps. committable (pr_stored p) (pr_value p)" "distinct (map pr_id ?ps)"
    using ready by (simp_all add: batch_ready_def)
  note tb = stage_items_table [OF D1(1) com c(2)] and fr = stage_items_frame [OF c(2)]
  note so = staged_ok [OF t1 ready c(2)]
  from c(3) show ?thesis
  proof (elim disjE conjE exE)
    fix x y assume e: "succ = []" "h' = h2" "r = BatchDone x y"
    have v: "exact_view h2 = exact_view h1" using tb e(1) by blast
    have "bitmaps_le h2 h1" by (rule bitmaps_le_views) (use v fr in simp_all)
    with agent_ok_frame [OF ok1, of h2] so e show ?thesis by simp
  next
    fix e h3
    assume ne: "succ \<noteq> []" and p: "publishConfigUpdate K (int (length (filter (\<lambda>(p, old). old = None) succ))) 0 0 h2 = (e, h3)"
      and res: "case e of
           Some x \<Rightarrow> r = BatchPublishFailed x \<and> h' = rollback_items K succ h3
         | None \<Rightarrow> (\<exists>n m. r = BatchDone n m) \<and> h' = h3"
    show ?thesis
    proof (cases e)
      case None
      have "agent_ok get h3" by (rule agent_ok_publish [OF A ok1 _ _ p]) (use so None in simp_all)
      with res None show ?thesis by auto
    next
      case (Some x)
      with res have r: "r = BatchPublishFailed x" "h' = rollback_items K succ h3" by auto
      have nh1: "no_handover ?ps (map_of (rules h1))" using nh r(1) rs1 by simp
      note pv = publish_views [OF p]
      have v3: "exact_inv h3" using exact_inv_view [OF pv(1)] tb by blast
      have its: "items_of succ (map_of (rules h1))" "fst ` set succ \<subseteq> set ?ps"
        using tb by (auto simp: items_of_def)
      have r3: "map_of (rules h3) = staged_items succ (map_of (rules h1))" using tb pv(9) by simp
      have rest: "exact_inv h' \<and> map_of (rules h') = map_of (rules h1)"
        using rollback_items_restore [OF D1(1) nh1 v3 its r3, where K = K] r(2) by blast
      note rf = rollback_items_frame [of K succ h3]
      have t': "tables_ok h'" using tables_ok_exact [OF t1, of h'] rest rf pv fr r(2) by simp
      have le: "bitmaps_le h' h1" using exact_bitmaps_le [OF D1(1), of h'] rest rf pv fr r(2) by simp
      have "slot_ok get h' \<and> covers get h'"
        using covers_after_publish [OF A _ _ _ p, where h = h1 and h' = h'] ok1 so rf r(2) le Some by (simp add: agent_ok_def)
      with t' rest rs1 show ?thesis by (simp add: agent_ok_def)
    qed
  qed
qed

lemma AddRulesBatch_mirror:
  assumes A: "array_laws (arr K) cget" and R: "hash_reliable (hash K) get" and ok: "agent_ok cget h"
    and m: "agent_mirror get h" and n: "room (2 * length (filter is_cidr rs)) (cidrMgr h)"
    and b: "AddRulesBatch K fresh rs h = (r, h')"
    and nh: "\<forall>e. r = BatchPublishFailed e \<longrightarrow> no_handover (batch_prepared fresh rs) (map_of (rules h))"
  shows "agent_mirror get h'"
proof -
  let ?ps = "batch_prepared fresh rs"
  obtain ad fa h1 succ f2 h2 where c:
    "batch_cidr K fresh 0 (filter is_cidr rs) 0 0 h = (ad, fa, h1)"
    "stage_items K ?ps h1 = (succ, f2, h2)"
    "(succ = [] \<and> h' = h2 \<and> (\<exists>n m. r = BatchDone n m)) \<or>
     (succ \<noteq> [] \<and> (\<exists>e h3. publishConfigUpdate K (int (length (filter (\<lambda>(p, old). old = None) succ))) 0 0 h2 = (e, h3) \<and>
        (case e of
           Some x \<Rightarrow> r = BatchPublishFailed x \<and> h' = rollback_items K succ h3
         | None \<Rightarrow> (\<exists>n m. r = BatchDone n m) \<and> h' = h3)))"
    by (rule AddRulesBatch_cases [OF b])
  have t1: "tables_ok h1" and rs1: "rules h1 = rules h"
    using batch_cidr_ok [OF A ok n c(1)] view_fields(1) [of h1 h] by (auto simp: agent_ok_def)
  have m1: "agent_mirror get h1" using batch_cidr_mirror [OF A R ok m n c(1)] .
  note D1 = tables_okD [OF t1]
  have com: "\<forall>p \<in> set ?ps. committable (pr_stored p) (pr_value p)" "distinct (map pr_id ?ps)"
    using batch_prepared_ready [of fresh rs] by (simp_all add: batch_ready_def)
  note tb = stage_items_table [OF D1(1) com c(2)] and fr = stage_items_frame [OF c(2)]
  have em: "exact_mirror get h1" using m1 by (simp add: agent_mirror_def)
  note sm = stage_items_mirror [OF R D1(1) com(1) em c(2)]
  have m2: "agent_mirror get h2" using sm fr m1 mirror_frame(2,3) [of h2 h1 get] by (simp add: agent_mirror_def)
  from c(3) show ?thesis
  proof (elim disjE conjE exE)
    fix x y assume "h' = h2"
    with m2 show ?thesis by simp
  next
    fix e h3
    assume p: "publishConfigUpdate K (int (length (filter (\<lambda>(p, old). old = None) succ))) 0 0 h2 = (e, h3)"
      and res: "case e of
           Some x \<Rightarrow> r = BatchPublishFailed x \<and> h' = rollback_items K succ h3
         | None \<Rightarrow> (\<exists>n m. r = BatchDone n m) \<and> h' = h3"
    have m3: "agent_mirror get h3" using mirror_publish [OF p refl] m2 by simp
    show ?thesis
    proof (cases e)
      case None
      with res m3 show ?thesis by simp
    next
      case (Some x)
      with res have r: "r = BatchPublishFailed x" "h' = rollback_items K succ h3" by auto
      have nh1: "no_handover ?ps (map_of (rules h1))" using nh r(1) rs1 by simp
      note pv = publish_views [OF p]
      have v3: "exact_inv h3" using exact_inv_view [OF pv(1)] tb by blast
      have its: "items_of succ (map_of (rules h1))" "fst ` set succ \<subseteq> set ?ps"
        using tb by (auto simp: items_of_def)
      have r3: "map_of (rules h3) = staged_items succ (map_of (rules h1))" using tb pv(9) by simp
      have "exact_mirror get h'"
        using rollback_items_restore [OF D1(1) nh1 v3 its r3, where K = K and get = get] r(2) R m3 sm
        by (simp add: agent_mirror_def)
      with rollback_items_frame [of K succ h3] r(2) m3 mirror_frame(2,3) [of h' h3 get] show ?thesis
        by (simp add: agent_mirror_def)
    qed
  qed
qed

end
