(* ===== verification/WhitelistBatch.thy ===== *)
theory WhitelistBatch
  imports BatchAdd
begin

text \<open>
  The batches of whitelist entries (\<^verbatim>\<open>AddWhitelistBatch\<close> and \<^verbatim>\<open>DeleteWhitelistBatch\<close> in
  \<^verbatim>\<open>whitelist.go\<close>). The additions are all-or-nothing in seven phases: validation without locks,
  validation against the table, deletion of the replaced BPF entries, reference counts, publish,
  insertion of the new BPF entries, memory. The deletions are best effort per entry with one publish,
  and a failed publish restores every entry.
\<close>

section \<open>Additions: preparation\<close>

text \<open>An entry after both validations; \<open>we_oldKey\<close> is the key it replaces, \<open>we_isNoOp\<close> marks the same key.\<close>

record preparedEntry =
  we_id :: string
  we_key :: RuleKey
  we_isNoOp :: bool
  we_oldKey :: "RuleKey option"

datatype wl_batch_reply =
    EntryRejected nat wl_error
  | DuplicateInBatch string string
  | KeyOwned string
  | OldEntryDeleteFailed string
  | WLBatchPublishFailed publish_error
  | WLBatchInsertFailed string
  | WLBatchAdded nat

text \<open>Phase 1: any invalid entry refuses the batch; of the entries with one ID the last is kept.\<close>

fun place_entry :: "string \<Rightarrow> RuleKey \<Rightarrow> (string \<times> RuleKey) list \<Rightarrow> (string \<times> RuleKey) list" where
  "place_entry wid key [] = [(wid, key)]"
| "place_entry wid key ((i, k) # es) = (if i = wid then (wid, key) # es else (i, k) # place_entry wid key es)"

fun prepare_entries ::
  "(nat \<Rightarrow> string) \<Rightarrow> nat \<Rightarrow> nat \<Rightarrow> WhitelistEntry list \<Rightarrow> (string \<times> RuleKey) list \<Rightarrow>
   wl_batch_reply + (string \<times> RuleKey) list" where
  "prepare_entries fresh n i [] prepared = Inr prepared"
| "prepare_entries fresh n i (e # es) prepared =
     (case wl_checks e of
        Inl err \<Rightarrow> Inl (EntryRejected i err)
      | Inr key \<Rightarrow>
          prepare_entries fresh (if w_ID e = [] then n + 1 else n) (i + 1) es
            (place_entry (rule_id (fresh n) (w_ID e)) key prepared))"

text \<open>Phase 2: keys are unique in the batch and not owned by other entries.\<close>

fun check_entries ::
  "('m, 'c, 't) Handlers \<Rightarrow> (RuleKey, string) gomap \<Rightarrow> (string \<times> RuleKey) list \<Rightarrow>
   wl_batch_reply + preparedEntry list" where
  "check_entries h seenKeys [] = Inr []"
| "check_entries h seenKeys ((wid, key) # es) =
     (case key_conflict seenKeys key wid of
        Some ownerID \<Rightarrow> Inl (DuplicateInBatch ownerID wid)
      | None \<Rightarrow>
     (case key_conflict (wlKeyIndex h) key wid of
        Some existingID \<Rightarrow> Inl (KeyOwned existingID)
      | None \<Rightarrow>
          let existing = map_of (wlEntries h) wid;
              isNoOp = (existing = Some key);
              p = \<lparr>we_id = wid, we_key = key, we_isNoOp = isNoOp,
                   we_oldKey = (if isNoOp then None else existing)\<rparr>
          in case check_entries h (AList.update key wid seenKeys) es of
               Inl e \<Rightarrow> Inl e
             | Inr ps \<Rightarrow> Inr (p # ps)))"

section \<open>Additions: the BPF map and the counts\<close>

definition reinsert_old ::
  "('m, 'c, 't) kernel \<Rightarrow> RuleKey \<Rightarrow> ('m, 'c, 't) Handlers \<Rightarrow> ('m, 'c, 't) Handlers" where
  "reinsert_old K ok h =
     set_activeWhitelist (snd (UpdateNoExist (hash K) (activeWhitelist h) (ruleKeyToBytes ok) wlValue)) h"

text \<open>Phase 3: the replaced entries leave the BPF map; a failure puts those already deleted back.\<close>

fun delete_olds ::
  "('m, 'c, 't) kernel \<Rightarrow> preparedEntry list \<Rightarrow> RuleKey list \<Rightarrow> ('m, 'c, 't) Handlers \<Rightarrow>
   wl_batch_reply option \<times> ('m, 'c, 't) Handlers" where
  "delete_olds K [] deletedOld h = (None, h)"
| "delete_olds K (p # ps) deletedOld h =
     (case (if we_isNoOp p then None else we_oldKey p) of
        None \<Rightarrow> delete_olds K ps deletedOld h
      | Some ok \<Rightarrow>
          (let (b, wm) = Delete (hash K) (activeWhitelist h) (ruleKeyToBytes ok);
               h1 = set_activeWhitelist wm h
           in if b then delete_olds K ps (deletedOld @ [ok]) h1
              else (Some (OldEntryDeleteFailed (we_id p)), fold (reinsert_old K) deletedOld h1)))"

text \<open>Phase 4 and its inverse in the rollbacks of phases 5 and 6.\<close>

definition take_entry_refs :: "preparedEntry \<Rightarrow> ('m, 'c, 't) Handlers \<Rightarrow> ('m, 'c, 't) Handlers" where
  "take_entry_refs p h = (if we_isNoOp p then h else wl_take_refs (we_oldKey p) (we_key p) h)"

definition undo_entry ::
  "('m, 'c, 't) kernel \<Rightarrow> preparedEntry \<Rightarrow> ('m, 'c, 't) Handlers \<Rightarrow> ('m, 'c, 't) Handlers" where
  "undo_entry K p h = (if we_isNoOp p then h else wl_undo K (we_oldKey p) (we_key p) h)"

text \<open>Phase 6: the new entries enter the BPF map; a failure deletes those already inserted.\<close>

definition delete_inserted ::
  "('m, 'c, 't) kernel \<Rightarrow> RuleKey \<Rightarrow> ('m, 'c, 't) Handlers \<Rightarrow> ('m, 'c, 't) Handlers" where
  "delete_inserted K key h =
     set_activeWhitelist (snd (Delete (hash K) (activeWhitelist h) (ruleKeyToBytes key))) h"

fun insert_entries ::
  "('m, 'c, 't) kernel \<Rightarrow> preparedEntry list \<Rightarrow> RuleKey list \<Rightarrow> ('m, 'c, 't) Handlers \<Rightarrow>
   string option \<times> RuleKey list \<times> ('m, 'c, 't) Handlers" where
  "insert_entries K [] inserted h = (None, inserted, h)"
| "insert_entries K (p # ps) inserted h =
     (if we_isNoOp p then insert_entries K ps inserted h
      else let (b, wm) = UpdateNoExist (hash K) (activeWhitelist h) (ruleKeyToBytes (we_key p)) wlValue;
               h1 = set_activeWhitelist wm h
           in if b then insert_entries K ps (inserted @ [we_key p]) h1
              else (Some (we_id p), inserted, fold (delete_inserted K) inserted h1))"

text \<open>Phase 7.\<close>

definition put_entry_memory :: "preparedEntry \<Rightarrow> ('m, 'c, 't) Handlers \<Rightarrow> ('m, 'c, 't) Handlers" where
  "put_entry_memory p h = (if we_isNoOp p then h else wl_put_memory (we_id p) (we_oldKey p) (we_key p) h)"

definition netNewEntries :: "preparedEntry list \<Rightarrow> int" where
  "netNewEntries ps = int (length (filter (\<lambda>p. \<not> we_isNoOp p \<and> we_oldKey p = None) ps))"

section \<open>Additions: the handler\<close>

definition wl_batch_commit ::
  "('m, 'c, 't) kernel \<Rightarrow> preparedEntry list \<Rightarrow> ('m, 'c, 't) Handlers \<Rightarrow>
   wl_batch_reply \<times> ('m, 'c, 't) Handlers" where
  "wl_batch_commit K ps h =
     (case delete_olds K ps [] h of
        (Some e, h1) \<Rightarrow> (e, h1)
      | (None, h1) \<Rightarrow>
     (case publishConfigUpdate K 0 (netNewEntries ps) 0 (fold take_entry_refs ps h1) of
        (Some e, h3) \<Rightarrow> (WLBatchPublishFailed e, fold (undo_entry K) ps h3)
      | (None, h3) \<Rightarrow>
     (case insert_entries K ps [] h3 of
        (Some wid, _, h4) \<Rightarrow>
          (WLBatchInsertFailed wid,
           snd (publishConfigUpdate K 0 (- netNewEntries ps) 0 (fold (undo_entry K) ps h4)))
      | (None, inserted, h4) \<Rightarrow> (WLBatchAdded (length inserted), fold put_entry_memory ps h4))))"

definition AddWhitelistBatch ::
  "('m, 'c, 't) kernel \<Rightarrow> (nat \<Rightarrow> string) \<Rightarrow> WhitelistEntry list \<Rightarrow> ('m, 'c, 't) Handlers \<Rightarrow>
   wl_batch_reply \<times> ('m, 'c, 't) Handlers" where
  "AddWhitelistBatch K fresh entries h =
     (case prepare_entries fresh 0 0 entries [] of
        Inl e \<Rightarrow> (e, h)
      | Inr prepared \<Rightarrow>
          if prepared = [] then (WLBatchAdded 0, h)
          else case check_entries h [] prepared of
                 Inl e \<Rightarrow> (e, h)
               | Inr ps \<Rightarrow> wl_batch_commit K ps h)"

section \<open>Deletions\<close>

datatype wl_delete_batch_reply = WLDeleteBatchPublishFailed publish_error | WLBatchDeleted int int

text \<open>The entries deleted, in order, and the number of failures.\<close>

fun delete_entries ::
  "('m, 'c, 't) kernel \<Rightarrow> string list \<Rightarrow> ('m, 'c, 't) Handlers \<Rightarrow>
   (string \<times> RuleKey) list \<times> int \<times> ('m, 'c, 't) Handlers" where
  "delete_entries K [] h = ([], 0, h)"
| "delete_entries K (wid # ids) h =
     (case map_of (wlEntries h) wid of
        None \<Rightarrow> (let (ds, failed, h2) = delete_entries K ids h in (ds, failed + 1, h2))
      | Some key \<Rightarrow>
          (case Delete (hash K) (activeWhitelist h) (ruleKeyToBytes key) of
             (False, wm) \<Rightarrow>
               (let (ds, failed, h2) = delete_entries K ids (set_activeWhitelist wm h)
                in (ds, failed + 1, h2))
           | (True, wm) \<Rightarrow>
               (let (ds, failed, h2) = delete_entries K ids (drop_whitelist wid key (set_activeWhitelist wm h))
                in ((wid, key) # ds, failed, h2))))"

definition DeleteWhitelistBatch ::
  "('m, 'c, 't) kernel \<Rightarrow> string list \<Rightarrow> ('m, 'c, 't) Handlers \<Rightarrow>
   wl_delete_batch_reply \<times> ('m, 'c, 't) Handlers" where
  "DeleteWhitelistBatch K ids h =
     (let (ds, failed, h1) = delete_entries K ids h
      in if ds = [] then (WLBatchDeleted 0 failed, h1)
         else case publishConfigUpdate K 0 (- int (length ds)) 0 h1 of
                (Some e, h2) \<Rightarrow>
                  (WLDeleteBatchPublishFailed e, fold (\<lambda>(wid, key). restore_whitelist K wid key) ds h2)
              | (None, h2) \<Rightarrow> (WLBatchDeleted (int (length ds)) failed, h2))"

end
