(* ===== verification/WhitelistBatchFacts.thy ===== *)
theory WhitelistBatchFacts
  imports WhitelistBatch
begin

text \<open>
  The whitelist batches. The additions are all-or-nothing on the table, whatever the kernel does; on
  a BPF map that behaves the mirror survives every outcome. The deletions leave the entries that were
  not deleted, and all of them when the publish fails.
\<close>

section \<open>What the two validations establish\<close>

definition entry_fits :: "('m, 'c, 't) Handlers \<Rightarrow> preparedEntry \<Rightarrow> bool" where
  "entry_fits h p \<longleftrightarrow> wf_RuleKey (we_key p) \<and> validateComboType (getComboType (we_key p)) \<and>
     (map_of (wlKeyIndex h) (we_key p) = None \<or> map_of (wlKeyIndex h) (we_key p) = Some (we_id p)) \<and>
     we_isNoOp p = (map_of (wlEntries h) (we_id p) = Some (we_key p)) \<and>
     we_oldKey p = (if we_isNoOp p then None else map_of (wlEntries h) (we_id p))"

definition entries_ready :: "('m, 'c, 't) Handlers \<Rightarrow> preparedEntry list \<Rightarrow> bool" where
  "entries_ready h ps \<longleftrightarrow> distinct (map we_id ps) \<and> distinct (map we_key ps) \<and> (\<forall>p \<in> set ps. entry_fits h p)"

lemma wl_checks_ok: "wl_checks e = Inr key \<Longrightarrow> wf_RuleKey key \<and> validateComboType (getComboType key)"
  using whitelistToKey_wf [of e key]
  by (auto simp: wl_checks_def split: sum.splits if_splits option.splits)

lemma place_entry_set: "set (place_entry w k es) \<subseteq> insert (w, k) (set es)"
  by (induction es) (auto split: if_splits)

lemma place_entry_ids: "fst ` set (place_entry w k es) = insert w (fst ` set es)"
proof (induction es)
  case (Cons e es)
  then show ?case by (cases e) (simp add: insert_commute)
qed simp

lemma place_entry_distinct: "distinct (map fst es) \<Longrightarrow> distinct (map fst (place_entry w k es))"
proof (induction es)
  case (Cons e es)
  obtain i k' where e: "e = (i, k')" by force
  have "i \<noteq> w \<Longrightarrow> i \<notin> fst ` set (place_entry w k es)" using Cons.prems by (simp add: place_entry_ids e)
  with Cons show ?case by (auto simp: e)
qed simp

definition checked_entries :: "(string \<times> RuleKey) list \<Rightarrow> bool" where
  "checked_entries es \<longleftrightarrow> distinct (map fst es) \<and>
     (\<forall>(w, k) \<in> set es. wf_RuleKey k \<and> validateComboType (getComboType k))"

lemma checked_place:
  assumes "checked_entries es" "wf_RuleKey k" "validateComboType (getComboType k)"
  shows "checked_entries (place_entry w k es)"
  using assms place_entry_distinct [of es w k] place_entry_set [of w k es] by (fastforce simp: checked_entries_def)

lemma prepare_entries_checked:
  "prepare_entries fresh n i es prepared = Inr ps \<Longrightarrow> checked_entries prepared \<Longrightarrow> checked_entries ps"
proof (induction es arbitrary: n i prepared)
  case (Cons e es)
  then obtain key where k: "wl_checks e = Inr key" by (cases "wl_checks e") auto
  show ?case
    using Cons.IH [OF _ checked_place [OF Cons.prems(2)]] Cons.prems(1) k wl_checks_ok [OF k] by simp
qed simp

lemma check_entries_ready:
  "check_entries h seen es = Inr ps \<Longrightarrow> checked_entries es \<Longrightarrow> \<forall>k w. map_of seen k = Some w \<longrightarrow> w \<notin> fst ` set es \<Longrightarrow>
   entries_ready h ps \<and> we_id ` set ps = fst ` set es \<and> (\<forall>p \<in> set ps. map_of seen (we_key p) = None)"
proof (induction es arbitrary: seen ps)
  case Nil
  then show ?case by (simp add: entries_ready_def)
next
  case (Cons e es)
  obtain w k where e: "e = (w, k)" by force
  from Cons.prems(1) obtain ps' where c: "key_conflict seen k w = None" "key_conflict (wlKeyIndex h) k w = None"
    "check_entries h (AList.update k w seen) es = Inr ps'"
    "ps = \<lparr>we_id = w, we_key = k, we_isNoOp = (map_of (wlEntries h) w = Some k),
           we_oldKey = (if map_of (wlEntries h) w = Some k then None else map_of (wlEntries h) w)\<rparr> # ps'"
    by (auto simp: e Let_def split: option.splits sum.splits)
  have ch: "checked_entries es" "w \<notin> fst ` set es" "wf_RuleKey k" "validateComboType (getComboType k)"
    using Cons.prems(2) by (auto simp: checked_entries_def e image_iff)
  have seen': "\<forall>k' w'. map_of (AList.update k w seen) k' = Some w' \<longrightarrow> w' \<notin> fst ` set es"
    using Cons.prems(3) ch(2) by (auto simp: e)
  note ih = Cons.IH [OF c(3) ch(1) seen']
  have sk: "map_of seen k = None" using no_conflict [OF c(1)] Cons.prems(3) by (auto simp: e)
  have fresh: "we_id p \<noteq> w \<and> we_key p \<noteq> k \<and> map_of seen (we_key p) = None" if "p \<in> set ps'" for p
    using ih that ch(2) by (auto split: if_splits)
  then have "w \<notin> we_id ` set ps'" "k \<notin> we_key ` set ps'" by blast+
  moreover have "entry_fits h (hd ps)" using c(4) no_conflict [OF c(2)] ch(3,4) by (simp add: entry_fits_def)
  ultimately show ?case using ih c(4) sk fresh by (auto simp: entries_ready_def e)
qed

section \<open>The counts\<close>

definition ref_change :: "preparedEntry \<Rightarrow> nat \<Rightarrow> int" where
  "ref_change p c = (if we_isNoOp p then 0 else (if getComboType (we_key p) = int c then 1 else 0) -
     (case we_oldKey p of None \<Rightarrow> 0 | Some k \<Rightarrow> if getComboType k = int c then 1 else 0))"

lemma take_entry_refs_fields [simp]:
  "wlEntries (take_entry_refs p h) = wlEntries h" "wlKeyIndex (take_entry_refs p h) = wlKeyIndex h"
  "not_wl_views (take_entry_refs p h) = not_wl_views h" "config_view (take_entry_refs p h) = config_view h"
  "activeWhitelist (take_entry_refs p h) = activeWhitelist h"
  by (simp_all add: take_entry_refs_def) (simp_all add: wl_take_refs_def)

lemma undo_entry_fields [simp]:
  "wlEntries (undo_entry K p h) = wlEntries h" "wlKeyIndex (undo_entry K p h) = wlKeyIndex h"
  "not_wl_views (undo_entry K p h) = not_wl_views h" "config_view (undo_entry K p h) = config_view h"
  by (simp_all add: undo_entry_def) (simp_all add: wl_undo_def Let_def map_defs split: option.splits)

lemma put_entry_memory_fields [simp]:
  "wlComboRefCount (put_entry_memory p h) = wlComboRefCount h"
  "not_wl_views (put_entry_memory p h) = not_wl_views h" "config_view (put_entry_memory p h) = config_view h"
  "activeWhitelist (put_entry_memory p h) = activeWhitelist h"
  by (simp_all add: put_entry_memory_def) (simp_all add: wl_put_memory_def Let_def split: option.splits)

lemma fold_take_fields [simp]:
  "wlEntries (fold take_entry_refs ps h) = wlEntries h" "wlKeyIndex (fold take_entry_refs ps h) = wlKeyIndex h"
  "not_wl_views (fold take_entry_refs ps h) = not_wl_views h" "config_view (fold take_entry_refs ps h) = config_view h"
  "activeWhitelist (fold take_entry_refs ps h) = activeWhitelist h"
  by (induction ps arbitrary: h) simp_all

lemma fold_undo_fields [simp]:
  "wlEntries (fold (undo_entry K) ps h) = wlEntries h" "wlKeyIndex (fold (undo_entry K) ps h) = wlKeyIndex h"
  "not_wl_views (fold (undo_entry K) ps h) = not_wl_views h" "config_view (fold (undo_entry K) ps h) = config_view h"
  by (induction ps arbitrary: h) simp_all

lemma fold_put_fields [simp]:
  "wlComboRefCount (fold put_entry_memory ps h) = wlComboRefCount h"
  "not_wl_views (fold put_entry_memory ps h) = not_wl_views h" "config_view (fold put_entry_memory ps h) = config_view h"
  "activeWhitelist (fold put_entry_memory ps h) = activeWhitelist h"
  by (induction ps arbitrary: h) simp_all

lemma take_refs_nth:
  assumes "length (wlComboRefCount h) = 64"
  shows "length (wlComboRefCount (take_entry_refs p h)) = 64"
    "c < 64 \<Longrightarrow> wlComboRefCount (take_entry_refs p h) ! c = wlComboRefCount h ! c + ref_change p c"
  using assms by (auto simp: take_entry_refs_def wl_take_refs_def ref_change_def refs_inc_nth refs_dec_nth split: option.splits)

lemma undo_refs_nth:
  assumes "length (wlComboRefCount h) = 64"
  shows "length (wlComboRefCount (undo_entry K p h)) = 64"
    "c < 64 \<Longrightarrow> wlComboRefCount (undo_entry K p h) ! c = wlComboRefCount h ! c - ref_change p c"
  using assms by (auto simp: undo_entry_def wl_undo_def Let_def map_defs ref_change_def refs_inc_nth refs_dec_nth split: option.splits)

lemma fold_take_nth:
  "length (wlComboRefCount h) = 64 \<Longrightarrow> length (wlComboRefCount (fold take_entry_refs ps h)) = 64 \<and>
   (\<forall>c < 64. wlComboRefCount (fold take_entry_refs ps h) ! c = wlComboRefCount h ! c + sum_list (map (\<lambda>p. ref_change p c) ps))"
proof (induction ps arbitrary: h)
  case (Cons p ps)
  from Cons.IH [OF take_refs_nth(1) [OF Cons.prems, of p]] take_refs_nth(2) [OF Cons.prems, of _ p] show ?case by simp
qed simp

lemma fold_undo_nth:
  "length (wlComboRefCount h) = 64 \<Longrightarrow> length (wlComboRefCount (fold (undo_entry K) ps h)) = 64 \<and>
   (\<forall>c < 64. wlComboRefCount (fold (undo_entry K) ps h) ! c = wlComboRefCount h ! c - sum_list (map (\<lambda>p. ref_change p c) ps))"
proof (induction ps arbitrary: h)
  case (Cons p ps)
  from Cons.IH [OF undo_refs_nth(1) [OF Cons.prems, of K p]] undo_refs_nth(2) [OF Cons.prems, of _ K p] show ?case by simp
qed simp

text \<open>Taking the counts of a batch and undoing it, in the same order, is the identity.\<close>

lemma undo_batch:
  assumes inv: "wl_inv h" and g: "wl_view g = wl_view (fold take_entry_refs ps h)"
  shows "wl_view (fold (undo_entry K) ps g) = wl_view h"
proof -
  have l: "length (wlComboRefCount h) = 64" using inv by (simp add: wl_inv_def tbl_inv_def)
  note t = fold_take_nth [OF l, of ps]
  have gl: "wlComboRefCount g = wlComboRefCount (fold take_entry_refs ps h)" "wlEntries g = wlEntries h" "wlKeyIndex g = wlKeyIndex h"
    using g by (simp_all add: wl_view_def)
  have "wlComboRefCount (fold (undo_entry K) ps g) = wlComboRefCount h"
    by (rule nth_equalityI) (use fold_undo_nth [of g K ps] t l in \<open>simp_all add: gl(1)\<close>)
  with gl show ?thesis by (simp add: wl_view_def)
qed

section \<open>The table after an addition\<close>

definition put_entry :: "preparedEntry \<Rightarrow> ('m, 'c, 't) Handlers \<Rightarrow> ('m, 'c, 't) Handlers" where
  "put_entry p h = (if we_isNoOp p then h else put_whitelist (we_id p) (we_key p) h)"

definition keeps_olds :: "preparedEntry list \<Rightarrow> ('m, 'c, 't) Handlers \<Rightarrow> bool" where
  "keeps_olds ps h \<longleftrightarrow> distinct (map we_id ps) \<and>
     (\<forall>p \<in> set ps. \<not> we_isNoOp p \<longrightarrow> we_oldKey p = map_of (wlEntries h) (we_id p))"

lemma put_entry_keeps:
  assumes "keeps_olds (p # ps) h"
  shows "keeps_olds ps (put_entry p h)"
proof -
  have "we_id q \<noteq> we_id p" if "q \<in> set ps" for q using assms that by (auto simp: keeps_olds_def image_iff)
  with assms show ?thesis by (auto simp: keeps_olds_def put_entry_def put_whitelist_fields)
qed

lemma fold_refs_cong:
  "wlComboRefCount a = wlComboRefCount b \<Longrightarrow>
   wlComboRefCount (fold take_entry_refs ps a) = wlComboRefCount (fold take_entry_refs ps b)"
proof (induction ps arbitrary: a b)
  case (Cons p ps)
  have "wlComboRefCount (take_entry_refs p a) = wlComboRefCount (take_entry_refs p b)"
    using Cons.prems by (simp add: take_entry_refs_def wl_take_refs_def split: option.split)
  from Cons.IH [OF this] show ?case by simp
qed simp

lemma memory_after_refs:
  "keeps_olds ps h \<Longrightarrow> wl_view g = wl_view (fold take_entry_refs ps h) \<Longrightarrow>
   wl_view (fold put_entry_memory ps g) = wl_view (fold put_entry ps h)"
proof (induction ps arbitrary: g h)
  case (Cons p ps)
  let ?g = "put_entry_memory p g" and ?h = "put_entry p h"
  have old: "\<not> we_isNoOp p \<Longrightarrow> we_oldKey p = map_of (wlEntries h) (we_id p)" using Cons.prems(1) by (simp add: keeps_olds_def)
  have gv: "wlEntries g = wlEntries h" "wlKeyIndex g = wlKeyIndex h"
    "wlComboRefCount g = wlComboRefCount (fold take_entry_refs ps (take_entry_refs p h))"
    using Cons.prems(2) by (simp_all add: wl_view_def)
  have rf: "wlComboRefCount ?h = wlComboRefCount (take_entry_refs p h)"
    using old by (simp add: put_entry_def put_whitelist_fields put_refs_def take_entry_refs_def wl_take_refs_def)
  have e: "wlEntries ?g = wlEntries ?h" "wlKeyIndex ?g = wlKeyIndex ?h"
    using old gv(1,2) by (cases "we_isNoOp p"; cases "map_of (wlEntries h) (we_id p)";
        simp add: put_entry_memory_def put_entry_def put_whitelist_fields wl_put_memory_def Let_def put_index_def)+
  have "wl_view ?g = wl_view (fold take_entry_refs ps ?h)"
    using e gv(3) fold_refs_cong [OF rf, of ps] by (simp add: wl_view_def)
  from Cons.IH [OF put_entry_keeps [OF Cons.prems(1)] this] show ?case by simp
qed simp

definition entries_after :: "preparedEntry list \<Rightarrow> (string \<rightharpoonup> RuleKey) \<Rightarrow> (string \<rightharpoonup> RuleKey)" where
  "entries_after ps R = fold (\<lambda>p R. R(we_id p \<mapsto> we_key p)) ps R"

lemma entries_after_simps [simp]:
  "entries_after [] R = R" "entries_after (p # ps) R = entries_after ps (R(we_id p \<mapsto> we_key p))"
  by (simp_all add: entries_after_def)

lemma put_entry_fits:
  assumes inv: "wl_inv h" and r: "entries_ready h (p # ps)"
  shows "wl_inv (put_entry p h) \<and> entries_ready (put_entry p h) ps \<and>
    map_of (wlEntries (put_entry p h)) = (map_of (wlEntries h))(we_id p \<mapsto> we_key p)"
proof -
  have p: "entry_fits h p" and ids: "we_id p \<notin> we_id ` set ps" and keys: "we_key p \<notin> we_key ` set ps"
    and ps: "\<forall>q \<in> set ps. entry_fits h q" "distinct (map we_id ps)" "distinct (map we_key ps)"
    using r by (auto simp: entries_ready_def)
  have e: "map_of (wlEntries (put_entry p h)) = (map_of (wlEntries h))(we_id p \<mapsto> we_key p)"
    using p by (auto simp: put_entry_def entry_fits_def put_whitelist_fields)
  have i: "wl_inv (put_entry p h)"
    using inv wls.put_inv [OF inv, of "we_key p" "we_id p"] p
    by (auto simp: put_entry_def entry_fits_def validateComboType_iff)
  have "entry_fits (put_entry p h) q" if q: "q \<in> set ps" for q
  proof -
    have f: "entry_fits h q" and ne: "we_id q \<noteq> we_id p" "we_key q \<noteq> we_key p"
      using ps(1) ids keys q imageI [OF q, of we_id] imageI [OF q, of we_key] by metis+
    have "map_of (wlKeyIndex (put_entry p h)) (we_key q) = None \<or> map_of (wlKeyIndex (put_entry p h)) (we_key q) = Some (we_id q)"
    proof (cases "map_of (wlKeyIndex (put_entry p h)) (we_key q)")
      case (Some a)
      then have "map_of (wlEntries (put_entry p h)) a = Some (we_key q)" using wls.owner_iff [OF i] by blast
      then have "map_of (wlEntries h) a = Some (we_key q)" using e ne(2) by (auto split: if_splits)
      then have "map_of (wlKeyIndex h) (we_key q) = Some a" using wls.owner_iff [OF inv] by blast
      with f Some show ?thesis by (auto simp: entry_fits_def)
    qed simp
    with f ne e show ?thesis by (simp add: entry_fits_def)
  qed
  with i e ps show ?thesis by (simp add: entries_ready_def)
qed

lemma put_batch:
  "wl_inv h \<Longrightarrow> entries_ready h ps \<Longrightarrow>
   wl_inv (fold put_entry ps h) \<and> map_of (wlEntries (fold put_entry ps h)) = entries_after ps (map_of (wlEntries h))"
proof (induction ps arbitrary: h)
  case (Cons p ps)
  note s = put_entry_fits [OF Cons.prems]
  from Cons.IH [of "put_entry p h"] s show ?case unfolding entries_after_simps list.simps fold_simps by metis
qed simp

lemma ready_keeps: "entries_ready h ps \<Longrightarrow> keeps_olds ps h"
  by (auto simp: entries_ready_def keeps_olds_def entry_fits_def)

section \<open>The BPF map\<close>

text \<open>Steps that work on the BPF map only.\<close>

definition bpf_only :: "('m, 'c, 't) Handlers \<Rightarrow> ('m, 'c, 't) Handlers \<Rightarrow> bool" where
  "bpf_only h h' \<longleftrightarrow> wl_view h' = wl_view h \<and> not_wl_views h' = not_wl_views h \<and> config_view h' = config_view h"

lemma bpf_only_trans: "bpf_only a b \<Longrightarrow> bpf_only b c \<Longrightarrow> bpf_only a c"
  by (simp add: bpf_only_def)

lemma bpf_only_refl [simp]: "bpf_only h h"
  by (simp add: bpf_only_def)

lemma bpf_only_set [simp]: "bpf_only h (set_activeWhitelist wm h)"
  by (simp add: bpf_only_def)

lemma fold_bpf_only:
  assumes "\<And>x g. bpf_only g (f x g)"
  shows "bpf_only h (fold f xs h)"
proof (induction xs arbitrary: h)
  case (Cons x xs)
  from bpf_only_trans [OF assms Cons] show ?case by simp
qed simp

lemma delete_olds_frame:
  "delete_olds K ps ds h = (e, h') \<Longrightarrow> bpf_only h h' \<and> (\<forall>x. e = Some x \<longrightarrow> (\<exists>w. x = OldEntryDeleteFailed w))"
proof (induction ps arbitrary: ds h)
  case (Cons p ps)
  show ?case
  proof (cases "if we_isNoOp p then None else we_oldKey p")
    case None
    with Cons.prems have "delete_olds K ps ds h = (e, h')" by simp
    from Cons.IH [OF this] show ?thesis .
  next
    case (Some ok)
    obtain b wm where d: "Delete (hash K) (activeWhitelist h) (ruleKeyToBytes ok) = (b, wm)" by force
    show ?thesis
    proof (cases b)
      case True
      with Cons.prems Some d have "delete_olds K ps (ds @ [ok]) (set_activeWhitelist wm h) = (e, h')" by simp
      note ih = Cons.IH [OF this]
      from bpf_only_trans [OF bpf_only_set conjunct1 [OF ih]] conjunct2 [OF ih] show ?thesis by blast
    next
      case False
      have "bpf_only (set_activeWhitelist wm h) (fold (reinsert_old K) ds (set_activeWhitelist wm h))"
        by (rule fold_bpf_only) (simp add: reinsert_old_def)
      from bpf_only_trans [OF bpf_only_set this] Cons.prems Some d False show ?thesis by auto
    qed
  qed
qed simp

lemma insert_entries_frame:
  "insert_entries K ps ins h = (e, ins', h') \<Longrightarrow> bpf_only h h'"
proof (induction ps arbitrary: ins h)
  case (Cons p ps)
  show ?case
  proof (cases "we_isNoOp p")
    case True
    with Cons.prems have "insert_entries K ps ins h = (e, ins', h')" by simp
    from Cons.IH [OF this] show ?thesis .
  next
    case False
    obtain b wm where d: "UpdateNoExist (hash K) (activeWhitelist h) (ruleKeyToBytes (we_key p)) wlValue = (b, wm)" by force
    show ?thesis
    proof (cases b)
      case True
      with Cons.prems False d have "insert_entries K ps (ins @ [we_key p]) (set_activeWhitelist wm h) = (e, ins', h')" by simp
      from bpf_only_trans [OF bpf_only_set Cons.IH [OF this]] show ?thesis .
    next
      case f: False
      have "bpf_only (set_activeWhitelist wm h) (fold (delete_inserted K) ins (set_activeWhitelist wm h))"
        by (rule fold_bpf_only) (simp add: delete_inserted_def)
      from bpf_only_trans [OF bpf_only_set this] Cons.prems False d f show ?thesis by auto
    qed
  qed
qed simp

section \<open>The ways through the critical section\<close>

abbreviation (input) batch_taken where
  "batch_taken ps h \<equiv> fold take_entry_refs ps h"

lemma wl_batch_commit_cases:
  assumes "wl_batch_commit K ps h = (r, h')"
  obtains (old) w where "delete_olds K ps [] h = (Some r, h')" "r = OldEntryDeleteFailed w"
  | (publish) h1 e h3 where "delete_olds K ps [] h = (None, h1)"
      "publishConfigUpdate K 0 (netNewEntries ps) 0 (batch_taken ps h1) = (Some e, h3)"
      "r = WLBatchPublishFailed e" "h' = fold (undo_entry K) ps h3"
  | (insert) h1 h3 w ins h4 p where "delete_olds K ps [] h = (None, h1)"
      "publishConfigUpdate K 0 (netNewEntries ps) 0 (batch_taken ps h1) = (None, h3)"
      "insert_entries K ps [] h3 = (Some w, ins, h4)"
      "publishConfigUpdate K 0 (- netNewEntries ps) 0 (fold (undo_entry K) ps h4) = (p, h')"
      "r = WLBatchInsertFailed w"
  | (ok) h1 h3 ins h4 where "delete_olds K ps [] h = (None, h1)"
      "publishConfigUpdate K 0 (netNewEntries ps) 0 (batch_taken ps h1) = (None, h3)"
      "insert_entries K ps [] h3 = (None, ins, h4)" "r = WLBatchAdded (length ins)"
      "h' = fold put_entry_memory ps h4"
proof -
  obtain e h1 where d: "delete_olds K ps [] h = (e, h1)" by force
  obtain p h3 where p: "publishConfigUpdate K 0 (netNewEntries ps) 0 (batch_taken ps h1) = (p, h3)" by force
  obtain i ins h4 where i: "insert_entries K ps [] h3 = (i, ins, h4)" by (cases "insert_entries K ps [] h3") auto
  obtain q h5 where q: "publishConfigUpdate K 0 (- netNewEntries ps) 0 (fold (undo_entry K) ps h4) = (q, h5)" by force
  note c = assms [unfolded wl_batch_commit_def d prod.case p i q]
  show ?thesis
  proof (cases e)
    case (Some x)
    then have rx: "x = r" "h1 = h'" using c by simp_all
    obtain w where "x = OldEntryDeleteFailed w" using delete_olds_frame [OF d] Some by blast
    with old d Some rx show ?thesis by blast
  next
    case None
    note dn = d [unfolded None] and c' = c [unfolded None option.case]
    show ?thesis
    proof (cases p)
      case (Some x)
      then have "r = WLBatchPublishFailed x" "h' = fold (undo_entry K) ps h3" using c' by simp_all
      with publish [OF dn] p Some show ?thesis by blast
    next
      case None
      note pn = p [unfolded None] and c2 = c' [unfolded None option.case]
      show ?thesis
      proof (cases i)
        case (Some w)
        then have "r = WLBatchInsertFailed w" "h' = h5" using c2 by simp_all
        with insert [OF dn pn] i q Some show ?thesis by blast
      next
        case None
        then have "r = WLBatchAdded (length ins)" "h' = fold put_entry_memory ps h4" using c2 by simp_all
        with ok [OF dn pn] i None show ?thesis by blast
      qed
    qed
  qed
qed

lemma fold_take_cong:
  "wl_view a = wl_view b \<Longrightarrow> wl_view (fold take_entry_refs ps a) = wl_view (fold take_entry_refs ps b)"
  using fold_refs_cong [of a b ps] by (simp add: wl_view_def)

text \<open>All or nothing, whatever the kernel does.\<close>

lemma wl_batch_commit_table:
  assumes inv: "wl_inv h" and ready: "entries_ready h ps" and c: "wl_batch_commit K ps h = (r, h')"
  shows "wl_inv h' \<and> not_wl_views h' = not_wl_views h \<and>
    (if \<exists>n. r = WLBatchAdded n then map_of (wlEntries h') = entries_after ps (map_of (wlEntries h))
     else wl_view h' = wl_view h)"
proof -
  have d: "wl_view (batch_taken ps h1) = wl_view (batch_taken ps h) \<and> not_wl_views h1 = not_wl_views h"
    if "delete_olds K ps [] h = (e, h1)" for e h1
    using delete_olds_frame [OF that] fold_take_cong [of h1 h ps] by (auto simp: bpf_only_def)
  have same: ?thesis if "wl_view h' = wl_view h" "not_wl_views h' = not_wl_views h" "\<forall>n. r \<noteq> WLBatchAdded n"
    using wl_inv_view [OF that(1)] inv that by simp
  show ?thesis
    using c
  proof (cases rule: wl_batch_commit_cases)
    case (old w)
    then show ?thesis using same delete_olds_frame [OF old(1)] by (auto simp: bpf_only_def)
  next
    case (publish h1 e h3)
    have "wl_view h3 = wl_view (batch_taken ps h)" using publish_views(3) [OF publish(2)] d [OF publish(1)] by simp
    from undo_batch [OF inv this, of K] publish publish_not_wl [OF publish(2)] d [OF publish(1)] same show ?thesis by simp
  next
    case (insert h1 h3 w ins h4 p)
    have "wl_view h4 = wl_view (batch_taken ps h)"
      using insert_entries_frame [OF insert(3)] publish_views(3) [OF insert(2)] d [OF insert(1)] by (simp add: bpf_only_def)
    from undo_batch [OF inv this, of K] insert publish_views(3) [OF insert(4)] publish_not_wl [OF insert(4)]
      publish_not_wl [OF insert(2)] insert_entries_frame [OF insert(3)] d [OF insert(1)] same
    show ?thesis by (simp add: bpf_only_def)
  next
    case (ok h1 h3 ins h4)
    have v: "wl_view h4 = wl_view (batch_taken ps h)"
      using insert_entries_frame [OF ok(3)] publish_views(3) [OF ok(2)] d [OF ok(1)] by (simp add: bpf_only_def)
    have w: "wl_view h' = wl_view (fold put_entry ps h)"
      using memory_after_refs [OF ready_keeps [OF ready] v] ok(5) by simp
    have "not_wl_views h' = not_wl_views h"
      using ok(5) insert_entries_frame [OF ok(3)] publish_not_wl [OF ok(2)] d [OF ok(1)] by (simp add: bpf_only_def)
    with put_batch [OF inv ready] wl_inv_view [OF w] view_fields(3) [OF w] ok(4) show ?thesis by simp
  qed
qed

lemma wl_batch_commit_covers:
  assumes inv: "wl_inv h" and ready: "entries_ready h ps"
    and A: "array_laws (arr K) get" "slot_ok get h" "covers get h"
    and c: "wl_batch_commit K ps h = (r, h')" and r: "\<forall>w. r \<noteq> WLBatchInsertFailed w"
  shows "slot_ok get h' \<and> covers get h'"
proof -
  note t = wl_batch_commit_table [OF inv ready c]
  have le: "bitmaps_le h' h" if "\<forall>n. r \<noteq> WLBatchAdded n"
    by (rule wl_bitmaps_le) (use t that in auto)
  show ?thesis
    using c
  proof (cases rule: wl_batch_commit_cases)
    case (old w)
    have "config_view h' = config_view h" using delete_olds_frame [OF old(1)] by (simp add: bpf_only_def)
    with covers_frame [of get h h'] A le old show ?thesis by simp
  next
    case (publish h1 e h3)
    have "config_view (batch_taken ps h1) = config_view h" using delete_olds_frame [OF publish(1)] by (simp add: bpf_only_def)
    with covers_after_publish [OF A _ publish(2), of h'] le publish(3,4) show ?thesis by simp
  next
    case (insert h1 h3 w ins h4 p)
    with r show ?thesis by simp
  next
    case (ok h1 h3 ins h4)
    have v: "config_view (batch_taken ps h1) = config_view h" using delete_olds_frame [OF ok(1)] by (simp add: bpf_only_def)
    note f = insert_entries_frame [OF ok(3), unfolded bpf_only_def]
    have n: "not_wl_views h' = not_wl_views h3" using ok(5) f by simp
    have w: "wlComboRefCount h' = wlComboRefCount h3" using ok(5) f by (simp add: wl_view_def)
    have b: "bitmaps_le h' h3"
      using not_wlD(1,2) [OF n] w by (simp add: bitmaps_le_def view_defs)
    have "config_view h' = config_view h3" using ok(5) f by simp
    then show ?thesis using covers_after_publish [OF A v ok(2), of h'] b by simp
  qed
qed

end
