(* ===== verification/WhitelistBatchMirror.thy ===== *)
theory WhitelistBatchMirror
  imports WhitelistBatchFacts
begin

text \<open>
  The whitelist batches and the BPF map: on a map that fails for the documented reasons only, an
  addition always ends with the map being the image of the table, and so does a deletion.
\<close>

section \<open>Updating a map for every item of a list\<close>

definition upd_all :: "('p \<Rightarrow> bool) \<Rightarrow> ('p \<Rightarrow> string) \<Rightarrow> ('p \<Rightarrow> 'v option) \<Rightarrow> 'p list \<Rightarrow> (string \<rightharpoonup> 'v) \<Rightarrow> (string \<rightharpoonup> 'v)" where
  "upd_all sk f v ps R = fold (\<lambda>p R. if sk p then R else R(f p := v p)) ps R"

lemma upd_all_simps [simp]:
  "upd_all sk f v [] R = R"
  "upd_all sk f v (p # ps) R = upd_all sk f v ps (if sk p then R else R(f p := v p))"
  by (simp_all add: upd_all_def)

lemma upd_all_other: "(\<forall>p \<in> set ps. f p = a \<longrightarrow> sk p) \<Longrightarrow> upd_all sk f v ps R a = R a"
proof (induction ps arbitrary: R)
  case (Cons p ps)
  from Cons.IH [of "if sk p then R else R(f p := v p)"] Cons.prems show ?case by auto
qed simp

lemma upd_all_get:
  "distinct (map f ps) \<Longrightarrow> p \<in> set ps \<Longrightarrow> \<not> sk p \<Longrightarrow> upd_all sk f v ps R (f p) = v p"
proof (induction ps arbitrary: R)
  case (Cons q ps)
  show ?case
  proof (cases "q = p")
    case True
    have "\<forall>r \<in> set ps. f r = f p \<longrightarrow> sk r" using Cons.prems(1) True by (auto simp: image_iff)
    from upd_all_other [OF this, of v] True Cons.prems(3) show ?thesis by simp
  next
    case False
    with Cons show ?thesis by simp
  qed
qed simp

text \<open>A pointwise reading, to compare such updates.\<close>

lemma upd_all_cases:
  assumes "distinct (map f ps)"
  obtains "upd_all sk f v ps R a = R a" "\<forall>p \<in> set ps. f p = a \<longrightarrow> sk p"
  | p where "p \<in> set ps" "\<not> sk p" "f p = a" "upd_all sk f v ps R a = v p"
  using upd_all_other [of ps f a sk v R] upd_all_get [OF assms, of _ sk v R] by metis

lemma entries_after_upd:
  assumes "entries_ready h ps"
  shows "entries_after ps (map_of (wlEntries h)) = upd_all we_isNoOp we_id (\<lambda>p. Some (we_key p)) ps (map_of (wlEntries h))"
proof -
  have "entries_after ps R = upd_all we_isNoOp we_id (\<lambda>p. Some (we_key p)) ps R"
    if "distinct (map we_id ps)" "\<forall>p \<in> set ps. we_isNoOp p \<longrightarrow> R (we_id p) = Some (we_key p)" for R
    using that
  proof (induction ps arbitrary: R)
    case (Cons p ps)
    have ids: "we_id q \<noteq> we_id p" if "q \<in> set ps" for q using Cons.prems(1) that by (auto simp: image_iff)
    have "R(we_id p \<mapsto> we_key p) = (if we_isNoOp p then R else R(we_id p := Some (we_key p)))"
      using Cons.prems(2) by (auto simp: fun_upd_idem)
    moreover have "\<forall>q \<in> set ps. we_isNoOp q \<longrightarrow> (R(we_id p \<mapsto> we_key p)) (we_id q) = Some (we_key q)"
      using Cons.prems(2) ids by simp
    moreover have "distinct (map we_id ps)" using Cons.prems(1) by simp
    ultimately have "entries_after ps (R(we_id p \<mapsto> we_key p)) =
        upd_all we_isNoOp we_id (\<lambda>p. Some (we_key p)) ps (R(we_id p \<mapsto> we_key p))"
      by (intro Cons.IH)
    with \<open>R(we_id p \<mapsto> we_key p) = _\<close> show ?case by (simp only: entries_after_simps upd_all_simps)
  qed simp
  with assms show ?thesis by (auto simp: entries_ready_def entry_fits_def)
qed

section \<open>Deleting and inserting entries\<close>

abbreviation wl_image :: "(string \<rightharpoonup> RuleKey) \<Rightarrow> (bytes \<Rightarrow> bytes option) \<Rightarrow> bool" where
  "wl_image Q m \<equiv> image_of ruleKeyToBytes (\<lambda>_. wlValue) Q m"

lemma enc_inj_drop: "enc_inj enc R \<Longrightarrow> enc_inj enc (R(a := None))"
  unfolding enc_inj_def by (auto split: if_splits)

definition no_old :: "preparedEntry \<Rightarrow> bool" where
  "no_old p \<longleftrightarrow> we_isNoOp p \<or> we_oldKey p = None"

lemma delete_olds_mirror:
  assumes R: "hash_reliable (hash K) get"
  shows "wl_image Q (get (activeWhitelist h)) \<Longrightarrow> enc_inj ruleKeyToBytes Q \<Longrightarrow> distinct (map we_id ps) \<Longrightarrow>
    \<forall>p \<in> set ps. \<not> no_old p \<longrightarrow> Q (we_id p) = we_oldKey p \<Longrightarrow> delete_olds K ps ds h = (e, h') \<Longrightarrow>
    e = None \<and> wl_image (upd_all no_old we_id (\<lambda>_. None) ps Q) (get (activeWhitelist h'))"
proof (induction ps arbitrary: Q ds h)
  case (Cons p ps)
  show ?case
  proof (cases "no_old p")
    case True
    then have "(if we_isNoOp p then None else we_oldKey p) = None" by (auto simp: no_old_def)
    with Cons.prems(5) have d: "delete_olds K ps ds h = (e, h')" by simp
    from Cons.IH [OF Cons.prems(1,2) _ _ d] Cons.prems(3,4) True show ?thesis by simp
  next
    case False
    then obtain ok where ok: "we_oldKey p = Some ok" "\<not> we_isNoOp p" by (auto simp: no_old_def)
    have q: "Q (we_id p) = Some ok" using Cons.prems(4) False ok by simp
    have "get (activeWhitelist h) (ruleKeyToBytes ok) \<noteq> None" using image_ofD [OF Cons.prems(1) q] by simp
    then obtain wm where wm: "Delete (hash K) (activeWhitelist h) (ruleKeyToBytes ok) = (True, wm)"
      "get wm = (get (activeWhitelist h))(ruleKeyToBytes ok := None)"
      using hash_reliableD(3) [OF R] by blast
    have im: "wl_image (Q(we_id p := None)) (get (activeWhitelist (set_activeWhitelist wm h)))"
      using image_of_drop [OF Cons.prems(1,2) q] wm(2) by simp
    have ids: "we_id q \<noteq> we_id p" if "q \<in> set ps" for q using Cons.prems(3) that by (auto simp: image_iff)
    have d: "delete_olds K ps (ds @ [ok]) (set_activeWhitelist wm h) = (e, h')" using Cons.prems(5) ok wm(1) by simp
    have olds: "\<forall>q \<in> set ps. \<not> no_old q \<longrightarrow> (Q(we_id p := None)) (we_id q) = we_oldKey q"
      using Cons.prems(4) ids by simp
    have dist: "distinct (map we_id ps)" using Cons.prems(3) by simp
    have u: "upd_all no_old we_id (\<lambda>_. None) (p # ps) Q = upd_all no_old we_id (\<lambda>_. None) ps (Q(we_id p := None))"
      using False by simp
    show ?thesis unfolding u by (rule Cons.IH [OF im enc_inj_drop [OF Cons.prems(2)] dist olds d])
  qed
qed simp

text \<open>Inserting a list of keys, none of which is in the table.\<close>

definition insertable :: "('p \<Rightarrow> bool) \<Rightarrow> ('p \<Rightarrow> string) \<Rightarrow> ('p \<Rightarrow> RuleKey) \<Rightarrow> 'p list \<Rightarrow> (string \<rightharpoonup> RuleKey) \<Rightarrow> bool" where
  "insertable sk f k ps Q \<longleftrightarrow> distinct (map f ps) \<and> (\<forall>a s. Q a = Some s \<longrightarrow> wf_RuleKey s) \<and>
     (\<forall>p \<in> set ps. \<not> sk p \<longrightarrow> wf_RuleKey (k p) \<and> Q (f p) = None \<and> (\<forall>a. Q a \<noteq> Some (k p))) \<and>
     (\<forall>p \<in> set ps. \<forall>q \<in> set ps. \<not> sk p \<longrightarrow> \<not> sk q \<longrightarrow> k p = k q \<longrightarrow> f p = f q)"

lemma insertableD:
  assumes "insertable sk f k ps Q"
  shows "distinct (map f ps)" "Q a = Some s \<Longrightarrow> wf_RuleKey s"
    "p \<in> set ps \<Longrightarrow> \<not> sk p \<Longrightarrow> wf_RuleKey (k p)" "p \<in> set ps \<Longrightarrow> \<not> sk p \<Longrightarrow> Q (f p) = None"
    "p \<in> set ps \<Longrightarrow> \<not> sk p \<Longrightarrow> Q a \<noteq> Some (k p)"
    "p \<in> set ps \<Longrightarrow> q \<in> set ps \<Longrightarrow> \<not> sk p \<Longrightarrow> \<not> sk q \<Longrightarrow> k p = k q \<Longrightarrow> f p = f q"
  using assms unfolding insertable_def by blast+

lemma insertableI:
  assumes "distinct (map f ps)" "\<And>a s. Q a = Some s \<Longrightarrow> wf_RuleKey s"
    "\<And>p. p \<in> set ps \<Longrightarrow> \<not> sk p \<Longrightarrow> wf_RuleKey (k p)" "\<And>p. p \<in> set ps \<Longrightarrow> \<not> sk p \<Longrightarrow> Q (f p) = None"
    "\<And>p a. p \<in> set ps \<Longrightarrow> \<not> sk p \<Longrightarrow> Q a \<noteq> Some (k p)"
    "\<And>p q. p \<in> set ps \<Longrightarrow> q \<in> set ps \<Longrightarrow> \<not> sk p \<Longrightarrow> \<not> sk q \<Longrightarrow> k p = k q \<Longrightarrow> f p = f q"
  shows "insertable sk f k ps Q"
  using assms unfolding insertable_def by blast

lemma insertable_step:
  assumes R: "hash_reliable ops get" and i: "insertable sk f k (p # ps) Q" and m: "wl_image Q (get wm)"
    and s: "\<not> sk p"
  shows "\<exists>wm'. UpdateNoExist ops wm (ruleKeyToBytes (k p)) wlValue = (True, wm') \<and>
    wl_image (Q(f p \<mapsto> k p)) (get wm') \<and> insertable sk f k ps (Q(f p \<mapsto> k p))"
proof -
  have pp: "p \<in> set (p # ps)" by simp
  note D = insertableD [OF i] and Dp = insertableD(3-5) [OF i pp s]
  have "ruleKeyToBytes t \<noteq> ruleKeyToBytes (k p)" if "Q a = Some t" for a t
    using rule_key.enc_eq_iff [OF D(2) [OF that] Dp(1)] Dp(3) [of a] that by blast
  then have a: "get wm (ruleKeyToBytes (k p)) = None" using image_of_absent [OF m] by blast
  obtain wm' where u: "UpdateNoExist ops wm (ruleKeyToBytes (k p)) wlValue = (True, wm')"
    "get wm' = (get wm)(ruleKeyToBytes (k p) \<mapsto> wlValue)"
    using hash_reliableD(2) [OF R a] by blast
  have ids: "f q \<noteq> f p" if "q \<in> set ps" for q using D(1) imageI [OF that, of f] by (metis distinct.simps(2) list.set_map list.simps(9))
  have mem: "q \<in> set (p # ps)" if "q \<in> set ps" for q using that by simp
  have keys: "k q \<noteq> k p" if "q \<in> set ps" "\<not> sk q" for q
    using D(6) [OF mem [OF that(1)] pp that(2) s] ids [OF that(1)] by blast
  have ins: "insertable sk f k ps (Q(f p \<mapsto> k p))"
  proof (rule insertableI)
    fix a t assume "(Q(f p \<mapsto> k p)) a = Some t"
    then show "wf_RuleKey t" using D(2) [of a t] Dp(1) by (cases "a = f p") simp_all
  next
    fix q a assume q: "q \<in> set ps" "\<not> sk q"
    show "(Q(f p \<mapsto> k p)) a \<noteq> Some (k q)"
      using D(5) [OF mem [OF q(1)] q(2), of a] keys [OF q] by (cases "a = f p") auto
  next
    fix q assume q: "q \<in> set ps" "\<not> sk q"
    show "(Q(f p \<mapsto> k p)) (f q) = None" using D(4) [OF mem [OF q(1)] q(2)] ids [OF q(1)] by simp
    show "wf_RuleKey (k q)" using D(3) [OF mem [OF q(1)] q(2)] .
  next
    fix q r assume "q \<in> set ps" "r \<in> set ps" "\<not> sk q" "\<not> sk r" "k q = k r"
    then show "f q = f r" using D(6) [OF mem mem] by blast
  qed (use D(1) in simp)
  with image_of_add [OF m Dp(2) a] u show ?thesis by auto
qed

lemma insertable_skip: "insertable sk f k (p # ps) Q \<Longrightarrow> insertable sk f k ps Q"
proof (rule insertableI)
  assume "insertable sk f k (p # ps) Q"
  note D = insertableD [OF this]
  have mem: "q \<in> set (p # ps)" if "q \<in> set ps" for q using that by simp
  show "distinct (map f ps)" using D(1) by simp
  show "Q a = Some s \<Longrightarrow> wf_RuleKey s" for a s using D(2) .
  show "q \<in> set ps \<Longrightarrow> \<not> sk q \<Longrightarrow> wf_RuleKey (k q)" "q \<in> set ps \<Longrightarrow> \<not> sk q \<Longrightarrow> Q (f q) = None" for q
    using D(3,4) [OF mem] by blast+
  show "q \<in> set ps \<Longrightarrow> \<not> sk q \<Longrightarrow> Q a \<noteq> Some (k q)" for q a using D(5) [OF mem] .
  show "q \<in> set ps \<Longrightarrow> r \<in> set ps \<Longrightarrow> \<not> sk q \<Longrightarrow> \<not> sk r \<Longrightarrow> k q = k r \<Longrightarrow> f q = f r" for q r
    using D(6) [OF mem mem] .
qed

lemma insert_entries_mirror:
  assumes R: "hash_reliable (hash K) get"
  shows "wl_image Q (get (activeWhitelist h)) \<Longrightarrow> insertable we_isNoOp we_id we_key ps Q \<Longrightarrow>
    insert_entries K ps ins h = (e, ins', h') \<Longrightarrow>
    e = None \<and> wl_image (upd_all we_isNoOp we_id (\<lambda>p. Some (we_key p)) ps Q) (get (activeWhitelist h'))"
proof (induction ps arbitrary: Q ins h)
  case (Cons p ps)
  show ?case
  proof (cases "we_isNoOp p")
    case True
    with Cons.prems(3) have "insert_entries K ps ins h = (e, ins', h')" by simp
    from Cons.IH [OF Cons.prems(1) insertable_skip [OF Cons.prems(2)] this] True show ?thesis by simp
  next
    case False
    obtain wm where wm: "UpdateNoExist (hash K) (activeWhitelist h) (ruleKeyToBytes (we_key p)) wlValue = (True, wm)"
      "wl_image (Q(we_id p \<mapsto> we_key p)) (get wm)" "insertable we_isNoOp we_id we_key ps (Q(we_id p \<mapsto> we_key p))"
      using insertable_step [OF R Cons.prems(2,1) False] by blast
    have i: "insert_entries K ps (ins @ [we_key p]) (set_activeWhitelist wm h) = (e, ins', h')"
      using Cons.prems(3) False wm(1) by simp
    have "wl_image (Q(we_id p \<mapsto> we_key p)) (get (activeWhitelist (set_activeWhitelist wm h)))" using wm(2) by simp
    note ih = Cons.IH [OF this wm(3) i]
    have u: "upd_all we_isNoOp we_id (\<lambda>p. Some (we_key p)) (p # ps) Q =
        upd_all we_isNoOp we_id (\<lambda>p. Some (we_key p)) ps (Q(we_id p \<mapsto> we_key p))"
      using False by simp
    show ?thesis unfolding u by (rule ih)
  qed
qed simp

lemma active_refs [simp]: "activeWhitelist (h\<lparr>wlComboRefCount := x\<rparr>) = activeWhitelist h"
  by (simp add: map_defs)

lemma active_undo:
  "activeWhitelist (wl_undo K (Some ok) key h) = snd (UpdateNoExist (hash K) (activeWhitelist h) (ruleKeyToBytes ok) wlValue)"
  "activeWhitelist (wl_undo K None key h) = activeWhitelist h"
  by (simp_all add: wl_undo_def Let_def)

lemma undo_entries_mirror:
  assumes R: "hash_reliable (hash K) get"
  shows "wl_image Q (get (activeWhitelist h)) \<Longrightarrow> insertable no_old we_id (\<lambda>p. the (we_oldKey p)) ps Q \<Longrightarrow>
    wl_image (upd_all no_old we_id (\<lambda>p. Some (the (we_oldKey p))) ps Q) (get (activeWhitelist (fold (undo_entry K) ps h)))"
proof (induction ps arbitrary: Q h)
  case (Cons p ps)
  show ?case
  proof (cases "no_old p")
    case True
    then have "activeWhitelist (undo_entry K p h) = activeWhitelist h" by (auto simp: no_old_def undo_entry_def active_undo)
    with Cons.IH [of Q "undo_entry K p h"] Cons.prems(1) insertable_skip [OF Cons.prems(2)] True show ?thesis by simp
  next
    case False
    then obtain ok where ok: "we_oldKey p = Some ok" "\<not> we_isNoOp p" by (auto simp: no_old_def)
    obtain wm where wm: "UpdateNoExist (hash K) (activeWhitelist h) (ruleKeyToBytes (the (we_oldKey p))) wlValue = (True, wm)"
      "wl_image (Q(we_id p \<mapsto> the (we_oldKey p))) (get wm)"
      "insertable no_old we_id (\<lambda>p. the (we_oldKey p)) ps (Q(we_id p \<mapsto> the (we_oldKey p)))"
      using insertable_step [OF R Cons.prems(2,1) False] by blast
    have "activeWhitelist (undo_entry K p h) = wm" using ok wm(1) by (simp add: undo_entry_def active_undo)
    then have "wl_image (Q(we_id p \<mapsto> the (we_oldKey p))) (get (activeWhitelist (undo_entry K p h)))" using wm(2) by simp
    note ih = Cons.IH [OF this wm(3)]
    have u: "upd_all no_old we_id (\<lambda>p. Some (the (we_oldKey p))) (p # ps) Q =
        upd_all no_old we_id (\<lambda>p. Some (the (we_oldKey p))) ps (Q(we_id p \<mapsto> the (we_oldKey p)))"
      using False by simp
    show ?thesis unfolding u by (simp only: list.simps fold_simps) (rule ih)
  qed
qed simp

section \<open>The batch of additions\<close>

lemma wl_batch_commit_mirror:
  assumes R: "hash_reliable (hash K) get" and inv: "wl_inv h" and ready: "entries_ready h ps"
    and m: "wl_mirror get h" and c: "wl_batch_commit K ps h = (r, h')"
  shows "wl_mirror get h' \<and> (\<forall>w. r \<noteq> WLBatchInsertFailed w) \<and> (\<forall>w. r \<noteq> OldEntryDeleteFailed w)"
proof -
  let ?R = "map_of (wlEntries h)"
  let ?D = "upd_all no_old we_id (\<lambda>_. None) ps ?R"
  note t = wl_batch_commit_table [OF inv ready c]
  have im: "wl_image ?R (get (activeWhitelist h))" using m by (simp add: wl_mirror_def)
  have dist: "distinct (map we_id ps)" and fits: "\<And>p. p \<in> set ps \<Longrightarrow> entry_fits h p" and kdist: "distinct (map we_key ps)"
    using ready by (auto simp: entries_ready_def)
  have olds: "\<forall>p \<in> set ps. \<not> no_old p \<longrightarrow> ?R (we_id p) = we_oldKey p"
    using fits by (auto simp: no_old_def entry_fits_def)
  note del = delete_olds_mirror [OF R im wls.entries_enc_inj [OF inv] dist olds]
  have Dsub: "?R a = Some s" if "?D a = Some s" for a s
    using that upd_all_cases [OF dist, of no_old "\<lambda>_. None" ?R a] by (metis option.distinct(1))
  have Dwf: "\<forall>a s. ?D a = Some s \<longrightarrow> wf_RuleKey s" using Dsub wls.entry_ok [OF inv] by blast
  have Dold: "?D (we_id p) = None" if "p \<in> set ps" "\<not> no_old p" for p
    using upd_all_get [where f = we_id and ps = ps and p = p and sk = no_old and v = "\<lambda>_. None" and R = ?R] dist that by blast
  have noop: "?D (we_id p) = None" if p: "p \<in> set ps" "\<not> we_isNoOp p" for p
  proof (cases "we_oldKey p")
    case None
    then have "?R (we_id p) = None" using fits [OF p(1)] p(2) by (simp add: entry_fits_def)
    then show ?thesis using Dsub [of "we_id p"] by (cases "?D (we_id p)") auto
  next
    case (Some ok)
    with Dold p show ?thesis by (simp add: no_old_def)
  qed
  have inj: "we_id p = we_id q" if "p \<in> set ps" "q \<in> set ps" "we_key p = we_key q" for p q
    using kdist that by (metis distinct_map inj_on_eq_iff)
  have ins: "insertable we_isNoOp we_id we_key ps ?D"
  proof -
    have "?D a \<noteq> Some (we_key p)" if p: "p \<in> set ps" "\<not> we_isNoOp p" for a p
    proof
      assume d: "?D a = Some (we_key p)"
      then have "map_of (wlKeyIndex h) (we_key p) = Some a" using Dsub wls.owner_iff [OF inv] by blast
      then have "a = we_id p" using fits [OF p(1)] by (auto simp: entry_fits_def)
      with d noop [OF p] show False by simp
    qed
    note nokey = this
    have "wf_RuleKey (we_key p)" if "p \<in> set ps" for p using fits [OF that] by (simp add: entry_fits_def)
    then show ?thesis by (intro insertableI) (use dist Dwf noop nokey inj in blast)+
  qed
  have und: "insertable no_old we_id (\<lambda>p. the (we_oldKey p)) ps ?D"
  proof -
    have o: "?R (we_id p) = Some (the (we_oldKey p))" if "p \<in> set ps" "\<not> no_old p" for p
      using olds that by (auto simp: no_old_def)
    have "?D a \<noteq> Some (the (we_oldKey p))" if p: "p \<in> set ps" "\<not> no_old p" for a p
    proof
      assume d: "?D a = Some (the (we_oldKey p))"
      with wls.key_inj [OF inv Dsub [OF d] o [OF p]] have "a = we_id p" by simp
      with d Dold [OF p] show False by simp
    qed
    moreover have "wf_RuleKey (the (we_oldKey p))" if "p \<in> set ps" "\<not> no_old p" for p
      using wls.entry_ok [OF inv o [OF that]] by blast
    moreover have "we_id p = we_id q" if "p \<in> set ps" "q \<in> set ps" "\<not> no_old p" "\<not> no_old q"
      "the (we_oldKey p) = the (we_oldKey q)" for p q
      using wls.key_inj [OF inv o [OF that(1,3)] o [OF that(2,4)]] that(5) by simp
    ultimately show ?thesis by (intro insertableI) (use dist Dwf Dold in blast)+
  qed
  have undone: "upd_all no_old we_id (\<lambda>p. Some (the (we_oldKey p))) ps ?D = ?R"
  proof
    fix a show "upd_all no_old we_id (\<lambda>p. Some (the (we_oldKey p))) ps ?D a = ?R a"
    proof (cases rule: upd_all_cases [OF dist, of no_old "\<lambda>p. Some (the (we_oldKey p))" ?D a])
      case 1
      with upd_all_other [OF 1(2), of "\<lambda>_. None" ?R] show ?thesis by simp
    next
      case (2 p)
      with olds show ?thesis by (auto simp: no_old_def)
    qed
  qed
  have fwd: "upd_all we_isNoOp we_id (\<lambda>p. Some (we_key p)) ps ?D = entries_after ps ?R"
  proof -
    have "upd_all we_isNoOp we_id (\<lambda>p. Some (we_key p)) ps ?D a = upd_all we_isNoOp we_id (\<lambda>p. Some (we_key p)) ps ?R a" for a
    proof (cases rule: upd_all_cases [OF dist, of we_isNoOp "\<lambda>p. Some (we_key p)" ?D a])
      case 1
      have "\<forall>p \<in> set ps. we_id p = a \<longrightarrow> no_old p" using 1(2) by (simp add: no_old_def)
      with 1 upd_all_other [OF 1(2), of "\<lambda>p. Some (we_key p)" ?R] upd_all_other [of ps we_id a no_old "\<lambda>_. None" ?R]
      show ?thesis by simp
    next
      case (2 p)
      with upd_all_get [OF dist 2(1), of we_isNoOp "\<lambda>p. Some (we_key p)" ?R] show ?thesis by simp
    qed
    then show ?thesis using entries_after_upd [OF ready] by auto
  qed
  show ?thesis
    using c
  proof (cases rule: wl_batch_commit_cases)
    case (old w)
    with del [OF old(1)] show ?thesis by simp
  next
    case (publish h1 e h3)
    have "activeWhitelist h3 = activeWhitelist h1" using publish_views(8) [OF publish(2)] by simp
    then have "wl_image ?D (get (activeWhitelist h3))" using del [OF publish(1)] by simp
    from undo_entries_mirror [OF R this und] undone publish(4) have "wl_image ?R (get (activeWhitelist h'))" by simp
    moreover have "wlEntries h' = wlEntries h" using t publish(3) view_fields(3) [of h' h] by simp
    ultimately show ?thesis using publish(3) by (simp add: wl_mirror_def)
  next
    case (insert h1 h3 w ins' h4 p)
    have "activeWhitelist h3 = activeWhitelist h1" using publish_views(8) [OF insert(2)] by simp
    then have "wl_image ?D (get (activeWhitelist h3))" using del [OF insert(1)] by simp
    from insert_entries_mirror [OF R this ins insert(3)] show ?thesis by simp
  next
    case (ok h1 h3 ins' h4)
    have "activeWhitelist h3 = activeWhitelist h1" using publish_views(8) [OF ok(2)] by simp
    then have "wl_image ?D (get (activeWhitelist h3))" using del [OF ok(1)] by simp
    from insert_entries_mirror [OF R this ins ok(3)] fwd ok(5) have "wl_image (entries_after ps ?R) (get (activeWhitelist h'))" by simp
    moreover have "map_of (wlEntries h') = entries_after ps ?R" using t ok(4) by simp
    ultimately show ?thesis using ok(4) by (simp add: wl_mirror_def)
  qed
qed

text \<open>The handler is the two validations and then the critical section on a ready list.\<close>

lemma AddWhitelistBatch_cases:
  assumes "AddWhitelistBatch K fresh es h = (r, h')"
  obtains (refused) "h' = h" | (commit) ps where "entries_ready h ps" "wl_batch_commit K ps h = (r, h')"
proof (cases "prepare_entries fresh 0 0 es []")
  case (Inl e)
  then have "h' = h" using assms by (simp add: AddWhitelistBatch_def)
  then show ?thesis by (rule refused)
next
  case (Inr prepared)
  have "checked_entries []" by (simp add: checked_entries_def)
  with prepare_entries_checked [OF Inr] have ch: "checked_entries prepared" by simp
  show ?thesis
  proof (cases "prepared = []")
    case True
    then have "h' = h" using assms Inr by (simp add: AddWhitelistBatch_def)
    then show ?thesis by (rule refused)
  next
    case False
    show ?thesis
    proof (cases "check_entries h [] prepared")
      case (Inl e)
      then have "h' = h" using assms \<open>prepare_entries fresh 0 0 es [] = Inr prepared\<close> False by (simp add: AddWhitelistBatch_def)
      then show ?thesis by (rule refused)
    next
      case (Inr ps)
      then have "wl_batch_commit K ps h = (r, h')"
        using assms \<open>prepare_entries fresh 0 0 es [] = Inr prepared\<close> False by (simp add: AddWhitelistBatch_def)
      moreover have "entries_ready h ps" using check_entries_ready [OF Inr ch] by simp
      ultimately show ?thesis by (rule commit [rotated])
    qed
  qed
qed

lemma AddWhitelistBatch_ok:
  assumes A: "array_laws (arr K) get" and ok: "agent_ok get h" and b: "AddWhitelistBatch K fresh es h = (r, h')"
    and r: "\<forall>w. r \<noteq> WLBatchInsertFailed w"
  shows "agent_ok get h'"
  using b
proof (cases rule: AddWhitelistBatch_cases)
  case (commit ps)
  have t: "tables_ok h" "slot_ok get h" "covers get h" using ok by (auto simp: agent_ok_def)
  note D = tables_okD [OF t(1)]
  show ?thesis
    using tables_ok_wl [OF t(1), of h'] wl_batch_commit_table [OF D(3) commit]
      wl_batch_commit_covers [OF D(3) commit(1) A t(2,3) commit(2) r] by (simp add: agent_ok_def)
qed (use ok in simp)

lemma AddWhitelistBatch_mirror:
  assumes R: "hash_reliable (hash K) get" and t: "tables_ok h" and m: "agent_mirror get h"
    and b: "AddWhitelistBatch K fresh es h = (r, h')"
  shows "agent_mirror get h'"
  using b
proof (cases rule: AddWhitelistBatch_cases)
  case (commit ps)
  note D = tables_okD [OF t]
  have M: "exact_mirror get h" "cidr_mirror get h" "wl_mirror get h" using m by (auto simp: agent_mirror_def)
  have n: "not_wl_views h' = not_wl_views h" using wl_batch_commit_table [OF D(3) commit] by blast
  show ?thesis
    using wl_batch_commit_mirror [OF R D(3) commit(1) M(3) commit(2)] M(1,2)
      mirror_frame(1) [OF not_wlD(1,5) [OF n]] mirror_frame(2) [OF not_wlD(2,6) [OF n]] by (simp add: agent_mirror_def)
qed (use m in simp)

end
