(* ===== verification/WhitelistDeleteBatch.thy ===== *)
theory WhitelistDeleteBatch
  imports WhitelistBatchMirror
begin

text \<open>
  The batch of whitelist deletions (\<^verbatim>\<open>DeleteWhitelistBatch\<close>), and the invariant of the agent under
  the single whitelist operations.
\<close>

section \<open>Single operations\<close>

lemma wl_commit_ok:
  assumes A: "array_laws (arr K) get" and ok: "agent_ok get h" and k: "wf_RuleKey key" "validateComboType (getComboType key)"
    and c: "wl_commit K wid key h = (r, h')" and r: "\<forall>e. r \<noteq> WLInsertFailed (Some e)"
  shows "agent_ok get h'"
proof -
  have t: "tables_ok h" "slot_ok get h" "covers get h" using ok by (auto simp: agent_ok_def)
  note D = tables_okD [OF t(1)]
  show ?thesis
    using tables_ok_wl [OF t(1), of h'] wl_commit_table [OF D(3) k c] wl_commit_frame [OF c]
      wl_commit_covers [OF D(3) k A t(2,3) c r] by (simp add: agent_ok_def)
qed

lemma wl_mirror_step:
  assumes "agent_mirror get h" "wl_mirror get h'" "not_wl_views h' = not_wl_views h"
  shows "agent_mirror get h'"
  using assms(1,2) mirror_frame(1) [OF not_wlD(1,5) [OF assms(3)]] mirror_frame(2) [OF not_wlD(2,6) [OF assms(3)]]
  by (simp add: agent_mirror_def)

lemma AddWhitelist_cases:
  assumes "AddWhitelist K fresh req h = (r, h')"
  obtains (rejected) e where "r = WLRejected e" "h' = h"
  | (commit) key r1 where "wl_checks req = Inr key" "wl_commit K (rule_id fresh (w_ID req)) key h = (r1, h')" "r = WLDone r1"
proof (cases "wl_checks req")
  case (Inl e)
  then have "r = WLRejected e" "h' = h" using assms by (simp_all add: AddWhitelist_def)
  then show ?thesis by (rule rejected)
next
  case (Inr key)
  obtain r1 h1 where c: "wl_commit K (rule_id fresh (w_ID req)) key h = (r1, h1)" by force
  then have "h' = h1" "r = WLDone r1" using assms Inr by (simp_all add: AddWhitelist_def)
  with commit [OF Inr] c show ?thesis by blast
qed

lemma AddWhitelistFromSync_is:
  "AddWhitelistFromSync K fresh entry h = AddWhitelist K fresh (syncWhitelistFields entry) h"
proof -
  have "w_ID (syncWhitelistFields entry) = sw_ID entry" by (simp add: syncWhitelistFields_def)
  then show ?thesis
    by (cases "wl_checks (syncWhitelistFields entry)") (simp_all add: AddWhitelistFromSync_def AddWhitelist_def)
qed

lemma AddWhitelist_ok:
  assumes A: "array_laws (arr K) get" and ok: "agent_ok get h" and a: "AddWhitelist K fresh req h = (r, h')"
    and r: "\<forall>e. r \<noteq> WLDone (WLInsertFailed (Some e))"
  shows "agent_ok get h'"
  using a
proof (cases rule: AddWhitelist_cases)
  case (commit key r1)
  have "\<forall>e. r1 \<noteq> WLInsertFailed (Some e)" using r commit(3) by simp
  with wl_commit_ok [OF A ok _ _ commit(2)] wl_checks_ok [OF commit(1)] show ?thesis by blast
qed (use ok in simp)

lemma AddWhitelist_mirror:
  assumes R: "hash_reliable (hash K) get" and t: "tables_ok h" and m: "agent_mirror get h"
    and a: "AddWhitelist K fresh req h = (r, h')"
  shows "agent_mirror get h' \<and> (\<forall>p. r \<noteq> WLDone (WLInsertFailed p))"
  using a
proof (cases rule: AddWhitelist_cases)
  case (commit key r1)
  have k: "wf_RuleKey key" "validateComboType (getComboType key)" using wl_checks_ok [OF commit(1)] by auto
  have wm: "wl_mirror get h" using m by (simp add: agent_mirror_def)
  note x = wl_commit_mirror [OF R tables_okD(3) [OF t] k wm commit(2)]
  show ?thesis
    using wl_mirror_step [OF m _ wl_commit_frame [OF commit(2)]] x commit(3) by simp
qed (use m in simp)

lemma DeleteWhitelist_ok:
  assumes A: "array_laws (arr K) get" and ok: "agent_ok get h" and d: "DeleteWhitelist K wid h = (r, h')"
  shows "agent_ok get h'"
proof -
  have t: "tables_ok h" "slot_ok get h" "covers get h" using ok by (auto simp: agent_ok_def)
  note D = tables_okD [OF t(1)]
  show ?thesis
    using tables_ok_wl [OF t(1), of h'] DeleteWhitelist_table [OF D(3) d] DeleteWhitelist_frame [OF d]
      DeleteWhitelist_covers [OF D(3) A t(2,3) d] by (simp add: agent_ok_def)
qed

lemma DeleteWhitelist_mirror_all:
  assumes R: "hash_reliable (hash K) get" and t: "tables_ok h" and m: "agent_mirror get h"
    and d: "DeleteWhitelist K wid h = (r, h')"
  shows "agent_mirror get h'"
proof -
  have "wl_mirror get h" using m by (simp add: agent_mirror_def)
  from DeleteWhitelist_mirror [OF R tables_okD(3) [OF t] this d] show ?thesis
    using wl_mirror_step [OF m _ DeleteWhitelist_frame [OF d]] by blast
qed

section \<open>Deleting the entries of a batch\<close>

lemma drop_whitelist_step:
  assumes inv: "wl_inv h" and k: "map_of (wlEntries h) wid = Some key"
  shows "wl_inv (drop_whitelist wid key (set_activeWhitelist wm h)) \<and>
    map_of (wlEntries (drop_whitelist wid key (set_activeWhitelist wm h))) = (map_of (wlEntries h))(wid := None)"
proof -
  have "wl_view (drop_whitelist wid key (set_activeWhitelist wm h)) = wl_view (drop_whitelist wid key h)"
    by (rule drop_whitelist_view) simp
  with wl_inv_view [OF this] wls.drop_inv [OF inv k] view_fields(3) [OF this] show ?thesis
    by (simp add: drop_whitelist_def)
qed

text \<open>One step of the loop.\<close>

lemma delete_entries_cases:
  assumes "delete_entries K (wid # ids) h = (ds, failed, h')"
  obtains (skip) h1 f1 where "h1 = h \<or> (\<exists>wm key. map_of (wlEntries h) wid = Some key \<and>
        Delete (hash K) (activeWhitelist h) (ruleKeyToBytes key) = (False, wm) \<and> h1 = set_activeWhitelist wm h)"
      "delete_entries K ids h1 = (ds, f1, h')"
  | (ok) key wm ds1 where "map_of (wlEntries h) wid = Some key"
      "Delete (hash K) (activeWhitelist h) (ruleKeyToBytes key) = (True, wm)"
      "delete_entries K ids (drop_whitelist wid key (set_activeWhitelist wm h)) = (ds1, failed, h')" "ds = (wid, key) # ds1"
proof (cases "map_of (wlEntries h) wid")
  case None
  obtain ds1 f1 h2 where d: "delete_entries K ids h = (ds1, f1, h2)" by (cases "delete_entries K ids h") auto
  with assms None have "ds = ds1" "h' = h2" by simp_all
  with skip [of h f1] d show ?thesis by blast
next
  case (Some key)
  obtain b wm where b: "Delete (hash K) (activeWhitelist h) (ruleKeyToBytes key) = (b, wm)" by force
  show ?thesis
  proof (cases b)
    case False
    obtain ds1 f1 h2 where d: "delete_entries K ids (set_activeWhitelist wm h) = (ds1, f1, h2)"
      by (cases "delete_entries K ids (set_activeWhitelist wm h)") auto
    with assms Some b False have "ds = ds1" "h' = h2" by simp_all
    moreover have "Delete (hash K) (activeWhitelist h) (ruleKeyToBytes key) = (False, wm)" using b False by simp
    ultimately show ?thesis using skip [of "set_activeWhitelist wm h" f1] d Some by blast
  next
    case True
    obtain ds1 f1 h2 where d: "delete_entries K ids (drop_whitelist wid key (set_activeWhitelist wm h)) = (ds1, f1, h2)"
      by (cases "delete_entries K ids (drop_whitelist wid key (set_activeWhitelist wm h))") auto
    with assms Some b True have "ds = (wid, key) # ds1" "failed = f1" "h' = h2" by simp_all
    moreover have "Delete (hash K) (activeWhitelist h) (ruleKeyToBytes key) = (True, wm)" using b True by simp
    ultimately show ?thesis using ok [OF Some] d by blast
  qed
qed

definition removed :: "(string \<times> RuleKey) list \<Rightarrow> (string \<rightharpoonup> RuleKey) \<Rightarrow> (string \<rightharpoonup> RuleKey)" where
  "removed ds R = (\<lambda>w. if w \<in> fst ` set ds then None else R w)"

lemma delete_entries_table:
  "wl_inv h \<Longrightarrow> delete_entries K ids h = (ds, failed, h') \<Longrightarrow>
   wl_inv h' \<and> map_of (wlEntries h') = removed ds (map_of (wlEntries h)) \<and> distinct (map fst ds) \<and>
   (\<forall>(w, k) \<in> set ds. map_of (wlEntries h) w = Some k) \<and> not_wl_views h' = not_wl_views h \<and>
   config_view h' = config_view h \<and> (ds = [] \<longrightarrow> wl_view h' = wl_view h)"
proof (induction ids arbitrary: h ds failed)
  case Nil
  then show ?case by (simp add: removed_def)
next
  case (Cons wid ids)
  from Cons.prems(2) show ?case
  proof (cases rule: delete_entries_cases)
    case (skip h1 f1)
    then have v: "wl_view h1 = wl_view h" "not_wl_views h1 = not_wl_views h" "config_view h1 = config_view h" by auto
    have "wl_inv h1" using wl_inv_view [OF v(1)] Cons.prems(1) by simp
    note ih = Cons.IH [OF this skip(2)]
    show ?thesis using ih v unfolding view_fields(3) [OF v(1)] by simp
  next
    case (ok key wm ds1)
    let ?h = "drop_whitelist wid key (set_activeWhitelist wm h)"
    note st = drop_whitelist_step [OF Cons.prems(1) ok(1), of wm]
    note ih = Cons.IH [OF conjunct1 [OF st] ok(3)]
    have e: "map_of (wlEntries h) w = Some k \<and> w \<noteq> wid" if "(w, k) \<in> set ds1" for w k
    proof -
      have "map_of (wlEntries ?h) w = Some k" using ih that by blast
      then show ?thesis using st by (auto split: if_splits)
    qed
    have "map_of (wlEntries h') = removed ds (map_of (wlEntries h))"
      using ih st by (auto simp: removed_def ok(4))
    moreover have "wid \<notin> fst ` set ds1" using e by force
    ultimately show ?thesis using ih e ok(1) unfolding ok(4) by auto
  qed
qed

lemma delete_entries_mirror:
  assumes R: "hash_reliable (hash K) get"
  shows "wl_inv h \<Longrightarrow> wl_mirror get h \<Longrightarrow> delete_entries K ids h = (ds, failed, h') \<Longrightarrow> wl_mirror get h'"
proof (induction ids arbitrary: h ds failed)
  case (Cons wid ids)
  note im = Cons.prems(2) [unfolded wl_mirror_def]
  from Cons.prems(3) show ?case
  proof (cases rule: delete_entries_cases)
    case (skip h1 f1)
    have "h1 = h" using skip(1)
    proof (elim disjE exE conjE)
      fix wm key assume k: "map_of (wlEntries h) wid = Some key"
        and f: "Delete (hash K) (activeWhitelist h) (ruleKeyToBytes key) = (False, wm)"
      show ?thesis using wls.delete_reliable [OF R Cons.prems(1) im k] f by auto
    qed
    with Cons.IH [OF Cons.prems(1,2)] skip(2) show ?thesis by simp
  next
    case (ok key wm ds1)
    let ?h = "drop_whitelist wid key (set_activeWhitelist wm h)"
    note st = drop_whitelist_step [OF Cons.prems(1) ok(1), of wm]
    have "wl_mirror get ?h"
      using wls.delete_reliable [OF R Cons.prems(1) im ok(1)] ok(2) st by (auto simp: wl_mirror_def)
    from Cons.IH [OF conjunct1 [OF st] this ok(3)] show ?thesis .
  qed
qed simp

section \<open>Restoring them\<close>

lemma restore_whitelist_step:
  fixes g :: "('m, 'c, 't) Handlers"
  assumes inv: "wl_inv g" and n: "map_of (wlEntries g) wid = None" and k: "wf_RuleKey key" "0 \<le> getComboType key" "getComboType key < 64"
    and u: "\<forall>a. map_of (wlEntries g) a \<noteq> Some key"
  shows "wl_inv (restore_whitelist K wid key g) \<and>
    map_of (wlEntries (restore_whitelist K wid key g)) = (map_of (wlEntries g))(wid \<mapsto> key) \<and>
    (hash_reliable (hash K) get \<and> wl_mirror get g \<longrightarrow> wl_mirror get (restore_whitelist K wid key g))"
proof -
  have v: "wl_view (restore_whitelist K wid key g) = wl_view (put_whitelist wid key g)"
    using restore_whitelist_view [OF refl n] .
  have "map_of (wlKeyIndex g) key = None"
  proof (cases "map_of (wlKeyIndex g) key")
    case (Some a)
    then show ?thesis using wls.owner_iff [OF inv] u by blast
  qed
  then have i: "wl_inv (restore_whitelist K wid key g)"
    using wl_inv_view [OF v] wls.put_inv [OF inv] k by blast
  have e: "map_of (wlEntries (restore_whitelist K wid key g)) = (map_of (wlEntries g))(wid \<mapsto> key)"
    using view_fields(3) [OF v] by (simp add: put_whitelist_fields)
  have "wl_mirror get (restore_whitelist K wid key g)" if R: "hash_reliable (hash K) get" and m: "wl_mirror get g"
  proof -
    note im = m [unfolded wl_mirror_def]
    have "ruleKeyToBytes t \<noteq> ruleKeyToBytes key" if t: "map_of (wlEntries g) a = Some t" for a t
      using rule_key.enc_eq_iff [of t key] wls.entry_ok [OF inv t] k(1) u t by blast
    then have a: "get (activeWhitelist g) (ruleKeyToBytes key) = None" using image_of_absent [OF im] by blast
    then obtain w2 where w2: "UpdateNoExist (hash K) (activeWhitelist g) (ruleKeyToBytes key) wlValue = (True, w2)"
      "get w2 = (get (activeWhitelist g))(ruleKeyToBytes key \<mapsto> wlValue)"
      using hash_reliableD(2) [OF R] by blast
    have "activeWhitelist (restore_whitelist K wid key g) = w2" using w2(1) by (simp add: restore_whitelist_def Let_def)
    moreover have "wl_image ((map_of (wlEntries g))(wid \<mapsto> key)) (get w2)"
      unfolding w2(2) by (rule image_of_add [OF im n a])
    ultimately show ?thesis using e by (simp add: wl_mirror_def)
  qed
  with i e show ?thesis by blast
qed

lemma restore_entries:
  fixes g h :: "('m, 'c, 't) Handlers"
  assumes inv: "wl_inv h"
  shows "wl_inv g \<Longrightarrow> distinct (map fst ds) \<Longrightarrow> \<forall>(w, k) \<in> set ds. map_of (wlEntries h) w = Some k \<Longrightarrow>
    map_of (wlEntries g) = removed ds (map_of (wlEntries h)) \<Longrightarrow>
    wl_inv (fold (\<lambda>(wid, key). restore_whitelist K wid key) ds g) \<and>
    map_of (wlEntries (fold (\<lambda>(wid, key). restore_whitelist K wid key) ds g)) = map_of (wlEntries h) \<and>
    (hash_reliable (hash K) get \<and> wl_mirror get g \<longrightarrow>
     wl_mirror get (fold (\<lambda>(wid, key). restore_whitelist K wid key) ds g))"
proof (induction ds arbitrary: g)
  case Nil
  then show ?case by (simp add: removed_def)
next
  case (Cons d ds)
  obtain w k where d: "d = (w, k)" by force
  have hk: "map_of (wlEntries h) w = Some k" using Cons.prems(3) by (simp add: d)
  have n: "map_of (wlEntries g) w = None" using Cons.prems(4) by (simp add: removed_def d)
  have "map_of (wlEntries g) a \<noteq> Some k" for a
  proof
    assume "map_of (wlEntries g) a = Some k"
    then have "map_of (wlEntries h) a = Some k" "a \<noteq> w" using Cons.prems(4) by (auto simp: removed_def d split: if_splits)
    with wls.key_inj [OF inv _ hk] show False by blast
  qed
  note st = restore_whitelist_step [OF Cons.prems(1) n _ _ _ allI [OF this], of K get] and eo = wls.entry_ok [OF inv hk]
  have s: "wl_inv (restore_whitelist K w k g)" "map_of (wlEntries (restore_whitelist K w k g)) = (map_of (wlEntries g))(w \<mapsto> k)"
    "hash_reliable (hash K) get \<and> wl_mirror get g \<longrightarrow> wl_mirror get (restore_whitelist K w k g)"
    using st eo by blast+
  have "w \<notin> fst ` set ds" "distinct (map fst ds)" using Cons.prems(2) by (auto simp: d)
  then have "(map_of (wlEntries g))(w \<mapsto> k) = removed ds (map_of (wlEntries h))"
    using hk unfolding Cons.prems(4) by (auto simp: removed_def d)
  then have "map_of (wlEntries (restore_whitelist K w k g)) = removed ds (map_of (wlEntries h))" using s(2) by (rule trans [rotated])
  from Cons.IH [OF s(1) \<open>distinct (map fst ds)\<close> _ this] Cons.prems(3) s(3) show ?case by (auto simp: d)
qed

lemma fold_restore_frame:
  "not_wl_views (fold (\<lambda>(wid, key). restore_whitelist K wid key) ds g) = not_wl_views g \<and>
   config_view (fold (\<lambda>(wid, key). restore_whitelist K wid key) ds g) = config_view g"
  by (induction ds arbitrary: g) auto

section \<open>The handler\<close>

lemma DeleteWhitelistBatch_cases:
  assumes "DeleteWhitelistBatch K ids h = (r, h')"
  obtains (none) failed where "delete_entries K ids h = ([], failed, h')" "r = WLBatchDeleted 0 failed"
  | (publish) ds failed h1 e h2 where "delete_entries K ids h = (ds, failed, h1)"
      "publishConfigUpdate K 0 (- int (length ds)) 0 h1 = (Some e, h2)" "r = WLDeleteBatchPublishFailed e"
      "h' = fold (\<lambda>(wid, key). restore_whitelist K wid key) ds h2"
  | (ok) ds failed h1 where "delete_entries K ids h = (ds, failed, h1)"
      "publishConfigUpdate K 0 (- int (length ds)) 0 h1 = (None, h')" "r = WLBatchDeleted (int (length ds)) failed"
proof -
  obtain ds failed h1 where d: "delete_entries K ids h = (ds, failed, h1)" by (cases "delete_entries K ids h") auto
  obtain e h2 where p: "publishConfigUpdate K 0 (- int (length ds)) 0 h1 = (e, h2)" by force
  show ?thesis
  proof (cases "ds = []")
    case True
    then have "r = WLBatchDeleted 0 failed" "h' = h1" using assms d by (simp_all add: DeleteWhitelistBatch_def)
    with none d True show ?thesis by blast
  next
    case False
    show ?thesis
    proof (cases e)
      case None
      then have "r = WLBatchDeleted (int (length ds)) failed" "h' = h2" using assms d p False by (simp_all add: DeleteWhitelistBatch_def)
      with ok [OF d] p None show ?thesis by blast
    next
      case (Some x)
      then have "r = WLDeleteBatchPublishFailed x" "h' = fold (\<lambda>(wid, key). restore_whitelist K wid key) ds h2"
        using assms d p False by (simp_all add: DeleteWhitelistBatch_def)
      with publish [OF d] p Some show ?thesis by blast
    qed
  qed
qed

text \<open>A failed publish leaves the table as it was; otherwise exactly the deleted entries are gone.\<close>

lemma DeleteWhitelistBatch_table:
  assumes inv: "wl_inv h" and d: "DeleteWhitelistBatch K ids h = (r, h')"
  shows "wl_inv h' \<and> not_wl_views h' = not_wl_views h \<and> map_of (wlEntries h') \<subseteq>\<^sub>m map_of (wlEntries h) \<and>
    (\<forall>e. r = WLDeleteBatchPublishFailed e \<longrightarrow> map_of (wlEntries h') = map_of (wlEntries h)) \<and>
    (\<forall>n f. r = WLBatchDeleted n f \<longrightarrow> int (card (dom (map_of (wlEntries h)) - dom (map_of (wlEntries h')))) = n)"
proof -
  have le: "removed ds R \<subseteq>\<^sub>m R" for ds and R :: "string \<rightharpoonup> RuleKey" by (simp add: removed_def map_le_def dom_def)
  have cnt: "int (card (dom (map_of (wlEntries h)) - dom (removed ds (map_of (wlEntries h))))) = int (length ds)"
    if "distinct (map fst ds)" "\<forall>(w, k) \<in> set ds. map_of (wlEntries h) w = Some k" for ds
  proof -
    have "dom (map_of (wlEntries h)) - dom (removed ds (map_of (wlEntries h))) = fst ` set ds"
      using that(2) by (force simp: removed_def split: if_splits)
    then show ?thesis using distinct_card [OF that(1)] by simp
  qed
  show ?thesis
    using d
  proof (cases rule: DeleteWhitelistBatch_cases)
    case (none failed)
    note t = delete_entries_table [OF inv none(1)]
    then have "wlEntries h' = wlEntries h" using view_fields(3) [of h' h] by blast
    then show ?thesis using t none(2) by simp
  next
    case (publish ds failed h1 e h2)
    note t = delete_entries_table [OF inv publish(1)] and pv = publish_views(3,11) [OF publish(2)]
    have i: "wl_inv h2" "map_of (wlEntries h2) = removed ds (map_of (wlEntries h))"
      using wl_inv_view [OF pv(1)] t pv(2) by simp_all
    have ds: "distinct (map fst ds)" "\<forall>(w, k) \<in> set ds. map_of (wlEntries h) w = Some k" using t by blast+
    from restore_entries [OF inv i(1) ds i(2), of K] publish(3,4) fold_restore_frame [of K ds h2] publish_not_wl [OF publish(2)] t
    show ?thesis by simp
  next
    case (ok ds failed h1)
    note t = delete_entries_table [OF inv ok(1)] and pv = publish_views(3,11) [OF ok(2)]
    have ds: "distinct (map fst ds)" "\<forall>(w, k) \<in> set ds. map_of (wlEntries h) w = Some k" using t by blast+
    have e: "map_of (wlEntries h') = removed ds (map_of (wlEntries h))" using t pv(2) by simp
    have "wl_inv h'" "not_wl_views h' = not_wl_views h" using t wl_inv_view [OF pv(1)] publish_not_wl [OF ok(2)] by auto
    then show ?thesis using cnt [OF ds] ok(3) le unfolding e by simp
  qed
qed

lemma bitmaps_le_wl:
  assumes "wl_inv h" "wl_inv h'" "map_of (wlEntries h') \<subseteq>\<^sub>m map_of (wlEntries h)" "not_wl_views h' = not_wl_views h"
  shows "bitmaps_le h' h"
  using wls.fewer_entries [OF assms(1-3)] not_wlD(1,2) [OF assms(4)] by (simp add: bitmaps_le_def view_defs)

lemma DeleteWhitelistBatch_ok:
  assumes A: "array_laws (arr K) get" and ok: "agent_ok get h" and d: "DeleteWhitelistBatch K ids h = (r, h')"
  shows "agent_ok get h'"
proof -
  have t: "tables_ok h" "slot_ok get h" "covers get h" using ok by (auto simp: agent_ok_def)
  note D = tables_okD [OF t(1)] and tb = DeleteWhitelistBatch_table [OF tables_okD(3) [OF t(1)] d]
  have t': "tables_ok h'" using tables_ok_wl [OF t(1), of h'] tb by blast
  have le: "bitmaps_le h' h" using bitmaps_le_wl [OF D(3), of h'] tb by blast
  show ?thesis
    using d
  proof (cases rule: DeleteWhitelistBatch_cases)
    case (none failed)
    have "config_view h' = config_view h" using delete_entries_table [OF D(3) none(1)] by blast
    with agent_ok_frame [OF ok t'] le show ?thesis by blast
  next
    case (publish ds failed h1 e h2)
    have v: "config_view h1 = config_view h" using delete_entries_table [OF D(3) publish(1)] by blast
    have "config_view h' = config_view h2" using publish(4) fold_restore_frame [of K ds h2] by simp
    with covers_after_publish [OF A t(2,3) v publish(2), of h'] le t' show ?thesis by (simp add: agent_ok_def)
  next
    case (ok ds failed h1)
    have v: "config_view h1 = config_view h" using delete_entries_table [OF D(3) ok(1)] by blast
    with covers_after_publish [OF A t(2,3) v ok(2), of h'] t' show ?thesis by (simp add: agent_ok_def bitmaps_le_def)
  qed
qed

lemma DeleteWhitelistBatch_mirror:
  assumes R: "hash_reliable (hash K) get" and t: "tables_ok h" and m: "agent_mirror get h"
    and d: "DeleteWhitelistBatch K ids h = (r, h')"
  shows "agent_mirror get h'"
proof -
  note D = tables_okD [OF t]
  have wm: "wl_mirror get h" using m by (simp add: agent_mirror_def)
  have pub: "wl_mirror get h2" if "publishConfigUpdate K a b c h1 = (e, h2)" "wl_mirror get h1" for a b c e h1 h2
    using mirror_frame(3) [OF publish_views(3,8) [OF that(1)]] that(2) by blast
  have "wl_mirror get h'"
    using d
  proof (cases rule: DeleteWhitelistBatch_cases)
    case (none failed)
    then show ?thesis using delete_entries_mirror [OF R D(3) wm] by blast
  next
    case (publish ds failed h1 e h2)
    note tb = delete_entries_table [OF D(3) publish(1)] and pv = publish_views(3,11) [OF publish(2)]
    have i: "wl_inv h2" "map_of (wlEntries h2) = removed ds (map_of (wlEntries h))"
      using wl_inv_view [OF pv(1)] tb pv(2) by simp_all
    have ds: "distinct (map fst ds)" "\<forall>(w, k) \<in> set ds. map_of (wlEntries h) w = Some k" using tb by blast+
    have "wl_mirror get h2" using pub [OF publish(2)] delete_entries_mirror [OF R D(3) wm publish(1)] by blast
    with restore_entries [OF D(3) i(1) ds i(2), of K get] R publish(4) show ?thesis by simp
  next
    case (ok ds failed h1)
    then show ?thesis using pub [OF ok(2)] delete_entries_mirror [OF R D(3) wm ok(1)] by blast
  qed
  with wl_mirror_step [OF m] DeleteWhitelistBatch_table [OF D(3) d] show ?thesis by blast
qed

end
