(* ===== verification/AtomicSync.thy ===== *)
theory AtomicSync
  imports WhitelistDeleteBatch
begin

text \<open>
  The atomic sync of the blacklist (\<^verbatim>\<open>AtomicSync\<close> and \<^verbatim>\<open>DoAtomicSync\<close> in
  \<^verbatim>\<open>node/agent/api/sync.go\<close>): the new rule set is written to the shadow rule maps, the shadow
  configuration is prepared, one selector write makes both active, and only then the agent's tables
  are replaced and the old CIDR IDs released. Any rule that fails aborts the sync before the switch.
  The tables of the agent are gomaps; the source's \<^verbatim>\<open>range\<close> over one visits it in an order Go leaves
  open, here the order of the list that represents it.
\<close>

section \<open>The shadow build\<close>

text \<open>The local variables of the build loop.\<close>

record shadow_build =
  sb_rules :: "(string, StoredRule) gomap"
  sb_index :: "(RuleKey, string) gomap"
  sb_combo :: "int list"
  sb_cidrRules :: "(string, StoredCIDRRule) gomap"
  sb_cidrIndex :: "(CIDRRuleKey, string) gomap"
  sb_cidrCombo :: "int list"
  sb_count :: int
  sb_cidrCount :: int
  sb_added :: int
  sb_failed :: int

definition empty_build :: shadow_build where
  "empty_build =
     \<lparr>sb_rules = [], sb_index = [], sb_combo = zero64, sb_cidrRules = [], sb_cidrIndex = [],
      sb_cidrCombo = zero64, sb_count = 0, sb_cidrCount = 0, sb_added = 0, sb_failed = 0\<rparr>"

definition count_failed :: "shadow_build \<Rightarrow> shadow_build" where
  "count_failed b = b\<lparr>sb_failed := sb_failed b + 1\<rparr>"

text \<open>The checks of both kinds; every failure is counted and the rule skipped.\<close>

definition sync_action :: "Rule \<Rightarrow> u8 option" where
  "sync_action r =
     (case parseAction (r_Action r) of
        Inl _ \<Rightarrow> None
      | Inr action \<Rightarrow> if action = ActionRateLimit \<and> r_RateLimit r \<le> 0 then None else Some action)"

definition sync_cidr_checks :: "Rule \<Rightarrow> (string \<times> string \<times> u8 \<times> u8) option" where
  "sync_cidr_checks r =
     (case normalize_if (r_SrcCIDR r) of
        Inl _ \<Rightarrow> None
      | Inr srcCIDR \<Rightarrow>
     (case normalize_if (r_DstCIDR r) of
        Inl _ \<Rightarrow> None
      | Inr dstCIDR \<Rightarrow>
     (case parseTcpFlags (r_TcpFlags r) of
        Inl _ \<Rightarrow> None
      | Inr (cfm, cfv) \<Rightarrow>
     (if cfm \<noteq> 0 \<and> parseProtocol (r_Protocol r) \<noteq> ProtoTCP then None else
     (case validateNodeAnomalyFields (r_MatchAnomaly r) (r_Action r) (r_SrcIP r) (r_DstIP r)
             (r_SrcCIDR r) (r_DstCIDR r) of
        Some _ \<Rightarrow> None
      | None \<Rightarrow>
     (case validatePortProtocolCompatNode (r_Protocol r) (r_SrcPort r) (r_DstPort r) of
        Some _ \<Rightarrow> None
      | None \<Rightarrow> Some (srcCIDR, dstCIDR, cfm, cfv)))))))"

definition sync_exact_checks :: "Rule \<Rightarrow> (RuleKey \<times> u8 \<times> u8) option" where
  "sync_exact_checks r =
     (case validateRule (r_SrcIP r) (r_DstIP r) (r_Protocol r) (r_SrcPort r) (r_DstPort r)
             (r_PktLenMin r) (r_PktLenMax r) of
        Some _ \<Rightarrow> None
      | None \<Rightarrow>
     (case validateNodeAnomalyFields (r_MatchAnomaly r) (r_Action r) (r_SrcIP r) (r_DstIP r)
             (r_SrcCIDR r) (r_DstCIDR r) of
        Some _ \<Rightarrow> None
      | None \<Rightarrow>
     (case ruleToKey r of
        Inl _ \<Rightarrow> None
      | Inr key \<Rightarrow>
     (if \<not> validateComboType (getComboType key) then None else
     (case parseTcpFlags (r_TcpFlags r) of
        Inl _ \<Rightarrow> None
      | Inr (efm, efv) \<Rightarrow>
          if efm \<noteq> 0 \<and> parseProtocol (r_Protocol r) \<noteq> ProtoTCP then None
          else Some (key, efm, efv))))))"

text \<open>A rule that entered its shadow map.\<close>

definition build_exact :: "string \<Rightarrow> StoredRule \<Rightarrow> shadow_build \<Rightarrow> shadow_build" where
  "build_exact rid s b =
     b\<lparr>sb_combo := refs_inc (getComboType (sr_Key s)) (sb_combo b), sb_count := sb_count b + 1,
       sb_rules := AList.update rid s (sb_rules b),
       sb_index := AList.update (sr_Key s) rid (sb_index b), sb_added := sb_added b + 1\<rparr>"

definition build_cidr :: "string \<Rightarrow> StoredCIDRRule \<Rightarrow> shadow_build \<Rightarrow> shadow_build" where
  "build_cidr rid s b =
     b\<lparr>sb_cidrCombo := refs_inc (getCIDRComboType (sc_Key s)) (sb_cidrCombo b),
       sb_cidrCount := sb_cidrCount b + 1,
       sb_cidrRules := AList.update rid s (sb_cidrRules b),
       sb_cidrIndex := AList.update (sc_Key s) rid (sb_cidrIndex b), sb_added := sb_added b + 1\<rparr>"

definition sync_exact ::
  "('m, 'c, 't) kernel \<Rightarrow> string \<Rightarrow> Rule \<Rightarrow> u8 \<Rightarrow> ('m, 'c, 't) Handlers \<Rightarrow> shadow_build \<Rightarrow>
   ('m, 'c, 't) Handlers \<times> shadow_build" where
  "sync_exact K rid r action h b =
     (case sync_exact_checks r of
        None \<Rightarrow> (h, count_failed b)
      | Some (key, efm, efv) \<Rightarrow>
          (let (ok, bl) = UpdateNoExist (hash K) (shadowBlacklist h) (ruleKeyToBytes key)
                 (ruleValueToBytes (value_of action efm efv r));
               h1 = set_shadowBlacklist bl h
           in if ok then (h1, build_exact rid (stored_of key r) b) else (h1, count_failed b)))"

text \<open>The IDs of a CIDR rule are taken before it is written and given back when that fails.\<close>

definition sync_cidr ::
  "('m, 'c, 't) kernel \<Rightarrow> string \<Rightarrow> Rule \<Rightarrow> u8 \<Rightarrow> ('m, 'c, 't) Handlers \<Rightarrow> shadow_build \<Rightarrow>
   ('m, 'c, 't) Handlers \<times> shadow_build" where
  "sync_cidr K rid r action h b =
     (case sync_cidr_checks r of
        None \<Rightarrow> (h, count_failed b)
      | Some (srcCIDR, dstCIDR, cfm, cfv) \<Rightarrow>
          (case alloc_ids (trie K) srcCIDR dstCIDR (cidrMgr h) of
             (Inl _, m) \<Rightarrow> (h\<lparr>cidrMgr := m\<rparr>, count_failed b)
           | (Inr (srcID, dstID), m) \<Rightarrow>
               (let h1 = h\<lparr>cidrMgr := m\<rparr>;
                    ck = build_cidr_key srcID dstID (r_SrcPort r) (r_DstPort r) (r_Protocol r)
                in if \<not> validateComboType (getCIDRComboType ck)
                   then (with_mgr (release_ids (trie K) srcCIDR dstCIDR) h1, count_failed b)
                   else
                     let (ok, cbl) = UpdateNoExist (hash K) (shadowCidrBlacklist h1) (cidrRuleKeyToBytes ck)
                           (ruleValueToBytes (value_of action cfm cfv r));
                         h2 = set_shadowCidrBlacklist cbl h1
                     in if ok then (h2, build_cidr rid (stored_cidr_of ck srcCIDR dstCIDR r) b)
                        else (with_mgr (release_ids (trie K) srcCIDR dstCIDR) h2, count_failed b))))"

definition sync_rule ::
  "('m, 'c, 't) kernel \<Rightarrow> string \<Rightarrow> Rule \<Rightarrow> ('m, 'c, 't) Handlers \<Rightarrow> shadow_build \<Rightarrow>
   ('m, 'c, 't) Handlers \<times> shadow_build" where
  "sync_rule K fresh r h b =
     (let hasCIDR = (r_SrcCIDR r \<noteq> [] \<or> r_DstCIDR r \<noteq> []);
          hasExactIP = (r_SrcIP r \<noteq> [] \<or> r_DstIP r \<noteq> [])
      in if hasCIDR \<and> hasExactIP then (h, count_failed b)
         else let rid = rule_id fresh (r_ID r)
              in case sync_action r of
                   None \<Rightarrow> (h, count_failed b)
                 | Some action \<Rightarrow>
                     if hasCIDR then sync_cidr K rid r action h b else sync_exact K rid r action h b)"

fun sync_rules ::
  "('m, 'c, 't) kernel \<Rightarrow> (nat \<Rightarrow> string) \<Rightarrow> nat \<Rightarrow> Rule list \<Rightarrow> ('m, 'c, 't) Handlers \<Rightarrow> shadow_build \<Rightarrow>
   ('m, 'c, 't) Handlers \<times> shadow_build" where
  "sync_rules K fresh n [] h b = (h, b)"
| "sync_rules K fresh n (r # rs) h b =
     (let (h1, b1) = sync_rule K (fresh n) r h b in sync_rules K fresh (n + 1) rs h1 b1)"

section \<open>The switch\<close>

text \<open>The release of the IDs of every rule of a table: of the new one on failure, of the old one after the switch.\<close>

definition release_rules ::
  "('m, 'c, 't) kernel \<Rightarrow> (string, StoredCIDRRule) gomap \<Rightarrow> ('m, 'c, 't) Handlers \<Rightarrow> ('m, 'c, 't) Handlers" where
  "release_rules K rs h =
     fold (\<lambda>(_, stored). with_mgr (release_ids (trie K) (sc_SrcCIDR stored) (sc_DstCIDR stored))) rs h"

text \<open>Step 3a; unlike \<^verbatim>\<open>publishConfigUpdate\<close> it does not look at the result of the writes.\<close>

fun copy_unchecked :: "'c array_ops \<Rightarrow> 'c \<Rightarrow> nat list \<Rightarrow> 'c \<Rightarrow> 'c" where
  "copy_unchecked A active [] shadow = shadow"
| "copy_unchecked A active (i # is) shadow =
     (case LookupArray A active (le32 (of_nat i)) of
        Some v \<Rightarrow> copy_unchecked A active is (snd (UpdateExist A shadow (le32 (of_nat i)) v))
      | None \<Rightarrow> copy_unchecked A active is shadow)"

text \<open>Step 3b: the entries of the new rule set.\<close>

fun put_entries :: "'c array_ops \<Rightarrow> (nat \<times> u64) list \<Rightarrow> 'c \<Rightarrow> publish_error option \<times> 'c" where
  "put_entries A [] c = (None, c)"
| "put_entries A ((idx, v) # us) c = and_then (cfg_put A idx v c) (put_entries A us)"

definition sync_config :: "('m, 'c, 't) Handlers \<Rightarrow> shadow_build \<Rightarrow> (nat \<times> u64) list" where
  "sync_config h b =
     [(ConfigRuleBitmap, combo_bitmap (sb_combo b)),
      (ConfigBlacklistCount, of_int (sb_count b)),
      (ConfigCIDRBitmap, combo_bitmap (sb_cidrCombo b)),
      (ConfigCIDRRuleCount, of_int (sb_cidrCount b)),
      (ConfigRuleMapSelector, of_int (1 - activeRuleSlot h)),
      (ConfigAnomalyRuleCount, countAnomalyRulesIn (sb_rules b) (sb_cidrRules b))]"

text \<open>Step 5.\<close>

definition install_build :: "shadow_build \<Rightarrow> ('m, 'c, 't) Handlers \<Rightarrow> ('m, 'c, 't) Handlers" where
  "install_build b h =
     h\<lparr>rules := sb_rules b, ruleKeyIndex := sb_index b, cidrRules := sb_cidrRules b,
       cidrRuleKeyIndex := sb_cidrIndex b, comboRefCount := sb_combo b,
       cidrComboRefCount := sb_cidrCombo b\<rparr>"

definition clear_shadows :: "('m, 'c, 't) kernel \<Rightarrow> ('m, 'c, 't) Handlers \<Rightarrow> ('m, 'c, 't) Handlers" where
  "clear_shadows K h =
     (let h1 = set_shadowBlacklist (snd (clearMap (hash K) (shadowBlacklist h))) h
      in set_shadowCidrBlacklist (snd (clearMap (hash K) (shadowCidrBlacklist h1))) h1)"

datatype sync_error = SyncRulesFailed int | SyncConfigFailed publish_error | SyncFlipFailed publish_error

text \<open>Steps 3 to 6, after a build without failures.\<close>

definition sync_switch ::
  "('m, 'c, 't) kernel \<Rightarrow> shadow_build \<Rightarrow> ('m, 'c, 't) Handlers \<Rightarrow>
   sync_error option \<times> ('m, 'c, 't) Handlers" where
  "sync_switch K b h =
     (let A = arr K;
          (e, shadow) = put_entries A (sync_config h b)
            (copy_unchecked A (activeMap h) [0..<ConfigMapEntries] (shadowMap h));
          h1 = set_shadowMap shadow h
      in case e of
           Some err \<Rightarrow> (Some (SyncConfigFailed err), release_rules K (sb_cidrRules b) h1)
         | None \<Rightarrow>
     (case switch_slot K h1 of
        (Some err, h2) \<Rightarrow> (Some (SyncFlipFailed err), release_rules K (sb_cidrRules b) h2)
      | (None, h2) \<Rightarrow>
          (let oldCidrRules = cidrRules h;
               h3 = install_build b (h2\<lparr>activeRuleSlot := 1 - activeRuleSlot h\<rparr>);
               h4 = release_rules K oldCidrRules h3;
               h5 = h4\<lparr>lastRuleDropCount := [], lastRuleStatsTime := []\<rparr>
           in (None, clear_shadows K h5))))"

definition DoAtomicSync ::
  "('m, 'c, 't) kernel \<Rightarrow> (nat \<Rightarrow> string) \<Rightarrow> Rule list \<Rightarrow> ('m, 'c, 't) Handlers \<Rightarrow>
   (AtomicSyncResult \<times> sync_error option) \<times> ('m, 'c, 't) Handlers" where
  "DoAtomicSync K fresh rs h =
     (let (h1, b) = sync_rules K fresh 0 rs (clear_shadows K h) empty_build;
          partial = \<lparr>as_Added = sb_added b, as_Failed = sb_failed b, as_ExactRules = 0, as_CIDRRules = 0\<rparr>
      in if sb_failed b > 0
         then ((partial, Some (SyncRulesFailed (sb_failed b))), release_rules K (sb_cidrRules b) h1)
         else case sync_switch K b h1 of
                (Some e, h2) \<Rightarrow> ((partial, Some e), h2)
              | (None, h2) \<Rightarrow>
                  ((partial\<lparr>as_ExactRules := sb_count b, as_CIDRRules := sb_cidrCount b\<rparr>, None), h2))"

section \<open>The whitelist\<close>

datatype wl_sync_error =
    EmptyID
  | DuplicateID string
  | InvalidEntry string convert_error
  | DuplicateKey string
  | UnsupportedCombo string int
  | PortError string validation_error
  | ShadowClearFailed nat
  | ShadowInsertFailed string
  | WLSyncPublishFailed publish_error

text \<open>Phase 1: all entries are validated before anything is written.\<close>

fun wl_sync_items ::
  "string list \<Rightarrow> RuleKey list \<Rightarrow> SyncWhitelistEntry list \<Rightarrow> wl_sync_error + (string \<times> RuleKey) list" where
  "wl_sync_items seenIDs seenKeys [] = Inr []"
| "wl_sync_items seenIDs seenKeys (e # es) =
     (let wid = sw_ID e in
      if wid = [] then Inl EmptyID
      else if wid \<in> set seenIDs then Inl (DuplicateID wid)
      else case whitelistToKey ((syncWhitelistFields e)\<lparr>w_ID := []\<rparr>) of
        Inl err \<Rightarrow> Inl (InvalidEntry wid err)
      | Inr key \<Rightarrow>
          if key \<in> set seenKeys then Inl (DuplicateKey wid)
          else if \<not> validateComboType (getComboType key) then Inl (UnsupportedCombo wid (getComboType key))
          else case validatePortProtocolCompatNode (sw_Protocol e) (sw_SrcPort e) (sw_DstPort e) of
            Some err \<Rightarrow> Inl (PortError wid err)
          | None \<Rightarrow>
              (case wl_sync_items (wid # seenIDs) (key # seenKeys) es of
                 Inl err \<Rightarrow> Inl err
               | Inr items \<Rightarrow> Inr ((wid, key) # items)))"

text \<open>Phase 3.\<close>

fun wl_sync_write ::
  "('m, 'c, 't) kernel \<Rightarrow> (string \<times> RuleKey) list \<Rightarrow> 'm \<Rightarrow>
   (string, RuleKey) gomap \<Rightarrow> (RuleKey, string) gomap \<Rightarrow> int list \<Rightarrow>
   (string + (string, RuleKey) gomap \<times> (RuleKey, string) gomap \<times> int list) \<times> 'm" where
  "wl_sync_write K [] sh es ix refs = (Inr (es, ix, refs), sh)"
| "wl_sync_write K ((wid, key) # items) sh es ix refs =
     (let (ok, sh1) = UpdateNoExist (hash K) sh (ruleKeyToBytes key) wlValue
      in if ok
         then wl_sync_write K items sh1 (AList.update wid key es) (AList.update key wid ix)
                (refs_inc (getComboType key) refs)
         else (Inl wid, sh1))"

definition DoWhitelistAtomicSync ::
  "('m, 'c, 't) kernel \<Rightarrow> SyncWhitelistEntry list \<Rightarrow> ('m, 'c, 't) Handlers \<Rightarrow>
   wl_sync_error option \<times> ('m, 'c, 't) Handlers" where
  "DoWhitelistAtomicSync K entries h =
     (case wl_sync_items [] [] entries of
        Inl e \<Rightarrow> (Some e, h)
      | Inr items \<Rightarrow>
     (case clearMap (hash K) (shadowWhitelist h) of
        (Some n, sh) \<Rightarrow> (Some (ShadowClearFailed n), set_shadowWhitelist sh h)
      | (None, sh) \<Rightarrow>
     (case wl_sync_write K items sh [] [] zero64 of
        (Inl wid, sh1) \<Rightarrow> (Some (ShadowInsertFailed wid), set_shadowWhitelist sh1 h)
      | (Inr (es, ix, refs), sh1) \<Rightarrow>
          (let h1 = set_shadowWhitelist sh1 h;
               h2 = h1\<lparr>activeWLSlot := 1 - activeWLSlot h1, wlComboRefCount := refs\<rparr>
           in case publishConfigUpdateForWLSync K (of_nat (length items)) refs h2 of
                (Some e, h3) \<Rightarrow>
                  (Some (WLSyncPublishFailed e),
                   h3\<lparr>activeWLSlot := activeWLSlot h1, wlComboRefCount := wlComboRefCount h1\<rparr>)
              | (None, h3) \<Rightarrow>
                  (let h4 = h3\<lparr>wlEntries := es, wlKeyIndex := ix\<rparr>
                   in (None, set_shadowWhitelist (snd (clearMap (hash K) (shadowWhitelist h4))) h4))))))"

datatype wl_clear_error = WLClearDeleteFailed string | WLClearPublishFailed publish_error

text \<open>\<^verbatim>\<open>ClearAllWhitelistFromSync\<close>: one entry after the other; a failed deletion stops it.\<close>

fun clear_entries ::
  "('m, 'c, 't) kernel \<Rightarrow> (string \<times> RuleKey) list \<Rightarrow> nat \<Rightarrow> ('m, 'c, 't) Handlers \<Rightarrow>
   (string option \<times> nat) \<times> ('m, 'c, 't) Handlers" where
  "clear_entries K [] deleted h = ((None, deleted), h)"
| "clear_entries K ((wid, key) # es) deleted h =
     (case Delete (hash K) (activeWhitelist h) (ruleKeyToBytes key) of
        (False, wm) \<Rightarrow> ((Some wid, deleted), set_activeWhitelist wm h)
      | (True, wm) \<Rightarrow> clear_entries K es (deleted + 1) (drop_whitelist wid key (set_activeWhitelist wm h)))"

definition ClearAllWhitelistFromSync ::
  "('m, 'c, 't) kernel \<Rightarrow> ('m, 'c, 't) Handlers \<Rightarrow> wl_clear_error option \<times> ('m, 'c, 't) Handlers" where
  "ClearAllWhitelistFromSync K h =
     (case clear_entries K (wlEntries h) 0 h of
        ((Some wid, deleted), h1) \<Rightarrow>
          (Some (WLClearDeleteFailed wid),
           if deleted > 0 then snd (publishConfigUpdate K 0 (- int deleted) 0 h1) else h1)
      | ((None, deleted), h1) \<Rightarrow>
          (let h2 = h1\<lparr>wlComboRefCount := zero64\<rparr>
           in if deleted > 0
              then (case publishConfigUpdate K 0 (- int deleted) 0 h2 of
                      (Some e, h3) \<Rightarrow> (Some (WLClearPublishFailed e), h3)
                    | (None, h3) \<Rightarrow> (None, h3))
              else (None, h2)))"

end
