(* ===== verification/SyncBuild.thy ===== *)
theory SyncBuild
  imports AtomicSync
begin

text \<open>
  The build loop of the atomic sync: what it keeps of the agent's state, the two tables it builds,
  and the references it takes from the CIDR manager. During the build the rules of the old and of the
  new table both hold references; the two tables are joined under tagged IDs, so that the balance
  \<open>mgr_holds\<close> speaks of both.
\<close>

section \<open>References of two tables\<close>

definition tag :: "char \<Rightarrow> (string, 's) gomap \<Rightarrow> (string, 's) gomap" where
  "tag c R = map (\<lambda>(k, s). (c # k, s)) R"

lemma tag_simps [simp]: "tag c [] = []" "tag c ((k, s) # R) = (c # k, s) # tag c R" "tag c (A @ B) = tag c A @ tag c B"
  by (simp_all add: tag_def)

lemma fst_tag: "map fst (tag c R) = map (\<lambda>k. c # k) (map fst R)"
  by (auto simp: tag_def)

lemma is_gomap_tag [simp]: "is_gomap (tag c R) = is_gomap R"
  unfolding fst_tag distinct_map [of "\<lambda>k. c # k"] by (simp add: inj_on_def)

lemma map_of_tag [simp]: "map_of (tag c R) (c # k) = map_of R k"
  by (induction R) auto

lemma map_of_tag_other [simp]: "c \<noteq> d \<Longrightarrow> map_of (tag c R) (d # k) = None"
  by (induction R) auto

lemma count_if_tag [simp]: "count_if (\<lambda>_ s. P s) (tag c R) = count_if (\<lambda>_ s. P s) R"
  by (induction R) auto

lemma map_of_tag_Some: "map_of (tag c R) rid = Some s \<Longrightarrow> \<exists>k. rid = c # k \<and> map_of R k = Some s"
proof (induction R)
  case (Cons x R)
  obtain k t where x: "x = (k, t)" by force
  show ?case
  proof (cases "rid = c # k")
    case True
    with Cons.prems show ?thesis by (simp add: x)
  next
    case False
    then have "map_of (tag c R) rid = Some s" using Cons.prems by (simp add: x)
    from Cons.IH [OF this] False show ?thesis by (auto simp: x)
  qed
qed simp

lemma holds_tag: "holds ids refs pre idf (tag c R) hs lk = holds ids refs pre idf R hs lk"
proof -
  have "(\<forall>rid s. map_of (tag c R) rid = Some s \<longrightarrow> P s) = (\<forall>rid s. map_of R rid = Some s \<longrightarrow> P s)" for P
    using map_of_tag_Some [of c R] map_of_tag [of c R] by metis
  then show ?thesis by (simp add: holds_def)
qed

lemma mgr_holds_tag: "mgr_holds m (tag c R) hs ds ls ld = mgr_holds m R hs ds ls ld"
  by (simp add: mgr_holds_def holds_tag)

definition both :: "(string, StoredCIDRRule) gomap \<Rightarrow> (string, StoredCIDRRule) gomap \<Rightarrow> (string, StoredCIDRRule) gomap" where
  "both O' N = tag CHR 0x6F O' @ tag CHR 0x6E N"

lemma both_update:
  assumes "map_of N rid = None"
  shows "both O' (AList.update rid s N) = AList.update (CHR 0x6E # rid) s (both O' N)"
    "map_of (both O' N) (CHR 0x6E # rid) = None"
proof -
  show n: "map_of (both O' N) (CHR 0x6E # rid) = None" using assms by (simp add: both_def map_add_def)
  show "both O' (AList.update rid s N) = AList.update (CHR 0x6E # rid) s (both O' N)"
    using update_fresh [OF assms, of s] update_fresh [OF n, of s] by (simp add: both_def)
qed

lemma mgr_holds_put:
  assumes h: "mgr_holds m R (sc_SrcCIDR s # hs) (sc_DstCIDR s # ds) ls ld" and n: "map_of R rid = None"
    and i: "id_of (GetSrcID m) (sc_SrcCIDR s) (ck_SrcID (sc_Key s))" "id_of (GetDstID m) (sc_DstCIDR s) (ck_DstID (sc_Key s))"
  shows "mgr_holds m (AList.update rid s R) hs ds ls ld"
  using h i holds_put [of _ _ sc_SrcCIDR "\<lambda>s. ck_SrcID (sc_Key s)" R s hs ls rid]
    holds_put [of _ _ sc_DstCIDR "\<lambda>s. ck_DstID (sc_Key s)" R s ds ld rid] n
  by (simp add: mgr_holds_def id_of_def)

lemma delete_middle:
  assumes "is_gomap (A @ (k, s) # B)"
  shows "AList.delete k (A @ (k, s) # B) = A @ B"
proof -
  have "k \<notin> fst ` set A" "k \<notin> fst ` set B" using assms by auto
  then have "filter (\<lambda>(k', _). k \<noteq> k') A = A" "filter (\<lambda>(k', _). k \<noteq> k') B = B"
    by (force simp: filter_id_conv)+
  then show ?thesis by (simp add: AList.delete_eq)
qed

text \<open>Releasing the rules of one part gives exactly their references back.\<close>

abbreviation release_all :: "'t TrieWriter \<Rightarrow> (string, StoredCIDRRule) gomap \<Rightarrow> 't Manager \<Rightarrow> 't Manager" where
  "release_all tw rs m \<equiv> fold (\<lambda>(_, s). release_ids tw (sc_SrcCIDR s) (sc_DstCIDR s)) rs m"

lemma release_all_holds:
  "mgr_holds m (A @ B @ C) [] [] ls ld \<Longrightarrow>
   \<exists>ls' ld'. mgr_holds (release_all tw B m) (A @ C) [] [] ls' ld' \<and>
     (steady tw m \<longrightarrow> steady tw (release_all tw B m) \<and> ls' = ls \<and> ld' = ld)"
proof (induction B arbitrary: m ls ld)
  case Nil
  then show ?case by auto
next
  case (Cons x B)
  obtain k s where x: "x = (k, s)" by force
  let ?R = "A @ (k, s) # B @ C"
  have h: "mgr_holds m ?R [] [] ls ld" using Cons.prems by (simp add: x)
  have g: "is_gomap ?R" using h unfolding mgr_holds_def by (blast dest: holdsD(1))
  have k: "map_of ?R k = Some s"
  proof -
    have "k \<notin> fst ` set A" using g by auto
    then have "map_of A k = None" by (simp add: map_of_eq_None_iff)
    then show ?thesis by (simp add: map_add_def)
  qed
  have d: "AList.delete k ?R = A @ B @ C" using delete_middle [of A k s "B @ C"] g by simp
  have "mgr_holds m (AList.delete k ?R) [sc_SrcCIDR s] [sc_DstCIDR s] ls ld"
    using h holds_drop [OF _ k, of _ _ sc_SrcCIDR "\<lambda>s. ck_SrcID (sc_Key s)"]
      holds_drop [OF _ k, of _ _ sc_DstCIDR "\<lambda>s. ck_DstID (sc_Key s)"] by (simp add: mgr_holds_def)
  then have "mgr_holds m (A @ B @ C) [sc_SrcCIDR s] [sc_DstCIDR s] ls ld" unfolding d .
  from release_ids_holds [OF this, of tw] obtain ls1 ld1 where
    1: "mgr_holds (release_ids tw (sc_SrcCIDR s) (sc_DstCIDR s) m) (A @ B @ C) [] [] ls1 ld1"
    "steady tw m \<longrightarrow> steady tw (release_ids tw (sc_SrcCIDR s) (sc_DstCIDR s) m) \<and> ls1 = ls \<and> ld1 = ld" by blast
  from Cons.IH [OF 1(1)] 1(2) show ?case by (auto simp: x)
qed

lemma release_all_tag: "release_all tw (tag c R) m = release_all tw R m"
  by (induction R arbitrary: m) auto

lemma release_new:
  assumes "mgr_holds m (both O' N) [] [] ls ld"
  shows "\<exists>ls' ld'. mgr_holds (release_all tw N m) O' [] [] ls' ld' \<and>
    (steady tw m \<longrightarrow> steady tw (release_all tw N m) \<and> ls' = ls \<and> ld' = ld)"
  using release_all_holds [of m "tag CHR 0x6F O'" "tag CHR 0x6E N" "[]" ls ld tw] assms
  by (simp add: both_def release_all_tag mgr_holds_tag)

lemma release_old:
  assumes "mgr_holds m (both O' N) [] [] ls ld"
  shows "\<exists>ls' ld'. mgr_holds (release_all tw O' m) N [] [] ls' ld' \<and>
    (steady tw m \<longrightarrow> steady tw (release_all tw O' m) \<and> ls' = ls \<and> ld' = ld)"
  using release_all_holds [of m "[]" "tag CHR 0x6F O'" "tag CHR 0x6E N" ls ld tw] assms
  by (simp add: both_def release_all_tag mgr_holds_tag)

section \<open>What the build leaves alone\<close>

text \<open>Every view and every active map; the shadow maps and the CIDR manager change.\<close>

definition active_views where
  "active_views h = (exact_view h, cidr_view h, wl_view h, config_view h, slots_view h,
     activeBlacklist h, activeCidrBlacklist h, activeWhitelist h)"

lemma active_viewsD:
  assumes "active_views h' = active_views h"
  shows "exact_view h' = exact_view h" "cidr_view h' = cidr_view h" "wl_view h' = wl_view h"
    "config_view h' = config_view h" "slots_view h' = slots_view h"
    "activeBlacklist h' = activeBlacklist h" "activeCidrBlacklist h' = activeCidrBlacklist h"
    "activeWhitelist h' = activeWhitelist h"
  using assms by (simp_all add: active_views_def)

lemma shadow_ops [simp]:
  "active_views (set_shadowBlacklist m h) = active_views h"
  "active_views (set_shadowCidrBlacklist m h) = active_views h"
  "active_views (set_shadowWhitelist m h) = active_views h"
  "active_views (h\<lparr>cidrMgr := mg\<rparr>) = active_views h" "active_views (with_mgr f h) = active_views h"
  "cidrMgr (set_shadowBlacklist m h) = cidrMgr h" "cidrMgr (set_shadowCidrBlacklist m h) = cidrMgr h"
  "cidrMgr (set_shadowWhitelist m h) = cidrMgr h"
  "shadowCidrBlacklist (set_shadowBlacklist m h) = shadowCidrBlacklist h"
  "shadowBlacklist (set_shadowCidrBlacklist m h) = shadowBlacklist h"
  "shadowBlacklist (h\<lparr>cidrMgr := mg\<rparr>) = shadowBlacklist h" "shadowBlacklist (with_mgr f h) = shadowBlacklist h"
  "shadowCidrBlacklist (h\<lparr>cidrMgr := mg\<rparr>) = shadowCidrBlacklist h"
  "shadowCidrBlacklist (with_mgr f h) = shadowCidrBlacklist h"
  by (auto simp: active_views_def view_defs map_defs set_shadowBlacklist_def set_shadowCidrBlacklist_def
      set_shadowWhitelist_def shadowBlacklist_def shadowCidrBlacklist_def with_mgr_def)

lemma clear_shadows_frame [simp]:
  "active_views (clear_shadows K h) = active_views h" "cidrMgr (clear_shadows K h) = cidrMgr h"
  by (simp_all add: clear_shadows_def Let_def)

lemma release_rules_frame [simp]:
  "active_views (release_rules K rs h) = active_views h"
  "cidrMgr (release_rules K rs h) = release_all (trie K) rs (cidrMgr h)"
  "shadowBlacklist (release_rules K rs h) = shadowBlacklist h"
  "shadowCidrBlacklist (release_rules K rs h) = shadowCidrBlacklist h"
  by (induction rs arbitrary: h) (auto simp: release_rules_def)

section \<open>The tables of the build\<close>

definition build_tables :: "('m \<Rightarrow> bytes \<Rightarrow> bytes option) \<Rightarrow> ('m, 'c, 't) Handlers \<Rightarrow> shadow_build \<Rightarrow> bool" where
  "build_tables get h b \<longleftrightarrow>
     tbl_inv sr_Key getComboType wf_RuleKey (sb_rules b) (sb_index b) (sb_combo b) \<and>
     tbl_inv sc_Key getCIDRComboType wf_CIDRRuleKey (sb_cidrRules b) (sb_cidrIndex b) (sb_cidrCombo b) \<and>
     (\<forall>rid s. map_of (sb_rules b) rid = Some s \<longrightarrow> get (shadowBlacklist h) (ruleKeyToBytes (sr_Key s)) = Some (rule_val s)) \<and>
     (\<forall>rid s. map_of (sb_cidrRules b) rid = Some s \<longrightarrow>
        get (shadowCidrBlacklist h) (cidrRuleKeyToBytes (sc_Key s)) = Some (cidr_val s)) \<and>
     sb_count b = int (length (sb_rules b)) \<and> sb_cidrCount b = int (length (sb_cidrRules b))"

lemma build_tablesD:
  assumes "build_tables get h b"
  shows "tbl_inv sr_Key getComboType wf_RuleKey (sb_rules b) (sb_index b) (sb_combo b)"
    "tbl_inv sc_Key getCIDRComboType wf_CIDRRuleKey (sb_cidrRules b) (sb_cidrIndex b) (sb_cidrCombo b)"
    "map_of (sb_rules b) rid = Some s \<Longrightarrow> get (shadowBlacklist h) (ruleKeyToBytes (sr_Key s)) = Some (rule_val s)"
    "map_of (sb_cidrRules b) rid = Some t \<Longrightarrow> get (shadowCidrBlacklist h) (cidrRuleKeyToBytes (sc_Key t)) = Some (cidr_val t)"
    "sb_count b = int (length (sb_rules b))" "sb_cidrCount b = int (length (sb_cidrRules b))"
  using assms unfolding build_tables_def by blast+

lemma build_tables_empty: "build_tables get h empty_build"
  by (simp add: build_tables_def empty_build_def tbl_inv_empty)

lemma build_tables_failed [simp]: "build_tables get h (count_failed b) = build_tables get h b"
  by (simp add: build_tables_def count_failed_def)

lemma build_tables_shadows:
  assumes "build_tables get h b" "get (shadowBlacklist h') = get (shadowBlacklist h)"
    "get (shadowCidrBlacklist h') = get (shadowCidrBlacklist h)"
  shows "build_tables get h' b"
  using assms by (simp add: build_tables_def)

text \<open>The mirror, once the shadow maps were empty at the start.\<close>

definition build_mirror :: "('m \<Rightarrow> bytes \<Rightarrow> bytes option) \<Rightarrow> ('m, 'c, 't) Handlers \<Rightarrow> shadow_build \<Rightarrow> bool" where
  "build_mirror get h b \<longleftrightarrow>
     image_of (\<lambda>s. ruleKeyToBytes (sr_Key s)) rule_val (map_of (sb_rules b)) (get (shadowBlacklist h)) \<and>
     image_of (\<lambda>s. cidrRuleKeyToBytes (sc_Key s)) cidr_val (map_of (sb_cidrRules b)) (get (shadowCidrBlacklist h))"

lemma build_mirror_shadows:
  assumes "get (shadowBlacklist h') = get (shadowBlacklist h)" "get (shadowCidrBlacklist h') = get (shadowCidrBlacklist h)"
    "sb_rules b' = sb_rules b" "sb_cidrRules b' = sb_cidrRules b"
  shows "build_mirror get h' b' = build_mirror get h b"
  using assms by (simp add: build_mirror_def)

lemma build_exact_step:
  assumes b: "build_tables get h b" and n: "map_of (sb_rules b) rid = None"
    and k: "committable s vl" and u: "get (shadowBlacklist h) (ruleKeyToBytes (sr_Key s)) = None"
      "get (shadowBlacklist h') = (get (shadowBlacklist h))(ruleKeyToBytes (sr_Key s) \<mapsto> ruleValueToBytes vl)"
    and c: "shadowCidrBlacklist h' = shadowCidrBlacklist h"
  shows "build_tables get h' (build_exact rid s b) \<and> (build_mirror get h b \<longrightarrow> build_mirror get h' (build_exact rid s b))"
proof -
  note D = build_tablesD [OF b] and kd = committableD [OF k]
  have val: "ruleValueToBytes vl = rule_val s" using kd(3) by (simp add: rule_val_def)
  have ne: "ruleKeyToBytes (sr_Key t) \<noteq> ruleKeyToBytes (sr_Key s)" if "map_of (sb_rules b) a = Some t" for a t
    using D(3) [OF that] u(1) by auto
  have "map_of (sb_index b) (sr_Key s) = None"
  proof (cases "map_of (sb_index b) (sr_Key s)")
    case (Some a)
    then obtain t where "map_of (sb_rules b) a = Some t" "sr_Key t = sr_Key s" using tbl_invD(4) [OF D(1)] by blast
    with ne [of a t] show ?thesis by simp
  qed
  then have "tbl_inv sr_Key getComboType wf_RuleKey (AList.update rid s (sb_rules b)) (AList.update (sr_Key s) rid (sb_index b))
      (refs_inc (getComboType (sr_Key s)) (sb_combo b))"
    using tbl_add [OF D(1) n] kd by (simp add: validateComboType_iff)
  moreover have "get (shadowBlacklist h') (ruleKeyToBytes (sr_Key t)) = Some (rule_val t)"
    if "map_of (AList.update rid s (sb_rules b)) a = Some t" for a t
    using that D(3) [of a t] ne [of a t] u(2) val by (auto split: if_splits)
  moreover have "length (AList.update rid s (sb_rules b)) = Suc (length (sb_rules b))" using update_fresh [OF n] by simp
  moreover have "build_mirror get h' (build_exact rid s b)" if "build_mirror get h b"
    using that image_of_add [of "\<lambda>s. ruleKeyToBytes (sr_Key s)" rule_val "map_of (sb_rules b)" "get (shadowBlacklist h)" rid s] n u val c
    by (simp add: build_mirror_def build_exact_def)
  ultimately show ?thesis using D(2,4,5,6) c by (simp add: build_tables_def build_exact_def)
qed

lemma build_cidr_step:
  assumes b: "build_tables get h b" and n: "map_of (sb_cidrRules b) rid = None"
    and k: "cidr_committable s vl" and u: "get (shadowCidrBlacklist h) (cidrRuleKeyToBytes (sc_Key s)) = None"
      "get (shadowCidrBlacklist h') = (get (shadowCidrBlacklist h))(cidrRuleKeyToBytes (sc_Key s) \<mapsto> ruleValueToBytes vl)"
    and c: "shadowBlacklist h' = shadowBlacklist h"
  shows "build_tables get h' (build_cidr rid s b) \<and> (build_mirror get h b \<longrightarrow> build_mirror get h' (build_cidr rid s b))"
proof -
  note D = build_tablesD [OF b] and kd = k [unfolded cidr_committable_def]
  have val: "ruleValueToBytes vl = cidr_val s" using kd by (simp add: cidr_val_def)
  have ne: "cidrRuleKeyToBytes (sc_Key t) \<noteq> cidrRuleKeyToBytes (sc_Key s)" if "map_of (sb_cidrRules b) a = Some t" for a t
    using D(4) [OF that] u(1) by auto
  have "map_of (sb_cidrIndex b) (sc_Key s) = None"
  proof (cases "map_of (sb_cidrIndex b) (sc_Key s)")
    case (Some a)
    then obtain t where "map_of (sb_cidrRules b) a = Some t" "sc_Key t = sc_Key s" using tbl_invD(4) [OF D(2)] by blast
    with ne [of a t] show ?thesis by simp
  qed
  then have "tbl_inv sc_Key getCIDRComboType wf_CIDRRuleKey (AList.update rid s (sb_cidrRules b)) (AList.update (sc_Key s) rid (sb_cidrIndex b))
      (refs_inc (getCIDRComboType (sc_Key s)) (sb_cidrCombo b))"
    using tbl_add [OF D(2) n] kd by (simp add: validateComboType_iff)
  moreover have "get (shadowCidrBlacklist h') (cidrRuleKeyToBytes (sc_Key t)) = Some (cidr_val t)"
    if "map_of (AList.update rid s (sb_cidrRules b)) a = Some t" for a t
    using that D(4) [of a t] ne [of a t] u(2) val by (auto split: if_splits)
  moreover have "length (AList.update rid s (sb_cidrRules b)) = Suc (length (sb_cidrRules b))" using update_fresh [OF n] by simp
  moreover have "build_mirror get h' (build_cidr rid s b)" if "build_mirror get h b"
    using that image_of_add [of "\<lambda>s. cidrRuleKeyToBytes (sc_Key s)" cidr_val "map_of (sb_cidrRules b)" "get (shadowCidrBlacklist h)" rid s] n u val c
    by (simp add: build_mirror_def build_cidr_def)
  ultimately show ?thesis using D(1,3,5,6) c by (simp add: build_tables_def build_cidr_def)
qed

end
