(* ===== verification/SyncLoop.thy ===== *)
theory SyncLoop
  imports SyncBuild
begin

text \<open>
  The build loop of the atomic sync as a whole. For a rule set with distinct IDs it leaves two
  consistent tables whose rules are all in the shadow maps, and the CIDR manager holds the references
  of the old and of the new table.
\<close>

section \<open>The state of the loop\<close>

definition loop_ok ::
  "('m, 'c, 't) kernel \<Rightarrow> ('m \<Rightarrow> bytes \<Rightarrow> bytes option) \<Rightarrow> ('m, 'c, 't) Handlers \<Rightarrow> bool \<Rightarrow> (string \<Rightarrow> int) \<Rightarrow> (string \<Rightarrow> int) \<Rightarrow>
   ('m, 'c, 't) Handlers \<Rightarrow> shadow_build \<Rightarrow> string set \<Rightarrow> bool" where
  "loop_ok K get h0 clean ls0 ld0 h b seen \<longleftrightarrow> active_views h = active_views h0 \<and> build_tables get h b \<and>
     (clean \<longrightarrow> build_mirror get h b) \<and> 0 \<le> sb_failed b \<and>
     fst ` set (sb_rules b) \<union> fst ` set (sb_cidrRules b) \<subseteq> seen \<and>
     (sb_failed b = 0 \<longrightarrow> seen \<subseteq> fst ` set (sb_rules b) \<union> fst ` set (sb_cidrRules b)) \<and>
     (\<exists>ls ld. mgr_holds (cidrMgr h) (both (cidrRules h0) (sb_cidrRules b)) [] [] ls ld \<and>
       (steady (trie K) (cidrMgr h0) \<longrightarrow> steady (trie K) (cidrMgr h) \<and> ls = ls0 \<and> ld = ld0))"

lemma loop_okD:
  assumes "loop_ok K get h0 clean ls0 ld0 h b seen"
  shows "active_views h = active_views h0" "build_tables get h b" "clean \<Longrightarrow> build_mirror get h b" "0 \<le> sb_failed b"
    "fst ` set (sb_rules b) \<subseteq> seen" "fst ` set (sb_cidrRules b) \<subseteq> seen"
    "sb_failed b = 0 \<Longrightarrow> seen \<subseteq> fst ` set (sb_rules b) \<union> fst ` set (sb_cidrRules b)"
    "\<exists>ls ld. mgr_holds (cidrMgr h) (both (cidrRules h0) (sb_cidrRules b)) [] [] ls ld \<and>
       (steady (trie K) (cidrMgr h0) \<longrightarrow> steady (trie K) (cidrMgr h) \<and> ls = ls0 \<and> ld = ld0)"
  using assms unfolding loop_ok_def by blast+

lemma loop_ok_failed:
  assumes l: "loop_ok K get h0 clean ls0 ld0 h b seen"
    and v: "active_views h' = active_views h" and s: "get (shadowBlacklist h') = get (shadowBlacklist h)"
      "get (shadowCidrBlacklist h') = get (shadowCidrBlacklist h)" and sub: "seen \<subseteq> seen'"
    and m: "\<And>ls ld. mgr_holds (cidrMgr h) (both (cidrRules h0) (sb_cidrRules b)) [] [] ls ld \<Longrightarrow>
      \<exists>ls' ld'. mgr_holds (cidrMgr h') (both (cidrRules h0) (sb_cidrRules b)) [] [] ls' ld' \<and>
        (steady (trie K) (cidrMgr h) \<longrightarrow> steady (trie K) (cidrMgr h') \<and> ls' = ls \<and> ld' = ld)"
  shows "loop_ok K get h0 clean ls0 ld0 h' (count_failed b) seen'"
proof -
  note D = loop_okD [OF l]
  have c: "sb_rules (count_failed b) = sb_rules b" "sb_cidrRules (count_failed b) = sb_cidrRules b"
    "sb_failed (count_failed b) = sb_failed b + 1" by (simp_all add: count_failed_def)
  have t: "build_tables get h' (count_failed b)" using build_tables_shadows [OF D(2) s] by simp
  have bm: "clean \<longrightarrow> build_mirror get h' (count_failed b)" using D(3) build_mirror_shadows [OF s c(1,2)] by blast
  obtain ls ld where h: "mgr_holds (cidrMgr h) (both (cidrRules h0) (sb_cidrRules b)) [] [] ls ld"
    "steady (trie K) (cidrMgr h0) \<longrightarrow> steady (trie K) (cidrMgr h) \<and> ls = ls0 \<and> ld = ld0" using D(8) by blast
  from m [OF h(1)] h(2) have "\<exists>ls ld. mgr_holds (cidrMgr h') (both (cidrRules h0) (sb_cidrRules (count_failed b))) [] [] ls ld \<and>
       (steady (trie K) (cidrMgr h0) \<longrightarrow> steady (trie K) (cidrMgr h') \<and> ls = ls0 \<and> ld = ld0)"
    unfolding c(2) by blast
  then show ?thesis
    unfolding loop_ok_def using D(1,4,5,6) v t bm sub c by auto
qed

section \<open>One rule\<close>

lemma sync_exact_checks_ok:
  assumes "sync_exact_checks r = Some (key, m, v)" "sync_action r = Some action"
  shows "committable (stored_of key r) (value_of action m v r)"
proof -
  have k: "ruleToKey r = Inr key" "validateComboType (getComboType key)" "parseTcpFlags (r_TcpFlags r) = Inr (m, v)"
    using assms(1) by (auto simp: sync_exact_checks_def split: option.splits sum.splits if_splits)
  have a: "parseAction (r_Action r) = Inr action"
    using assms(2) by (auto simp: sync_action_def split: sum.splits if_splits)
  show ?thesis using value_restored [OF a k(3)] ruleToKey_wf [OF k(1)] k(2) by (simp add: committable_def stored_of_def)
qed

lemma sync_cidr_checks_ok:
  assumes "sync_cidr_checks r = Some (a, b, m, v)" "sync_action r = Some action"
  shows "cidr_request r a b (value_of action m v r)"
proof -
  have k: "normalize_if (r_SrcCIDR r) = Inr a" "normalize_if (r_DstCIDR r) = Inr b" "parseTcpFlags (r_TcpFlags r) = Inr (m, v)"
    using assms(1) by (auto simp: sync_cidr_checks_def split: option.splits sum.splits if_splits)
  have ac: "parseAction (r_Action r) = Inr action"
    using assms(2) by (auto simp: sync_action_def split: sum.splits if_splits)
  show ?thesis unfolding cidr_request_def using normalize_if_normal [OF k(1)] normalize_if_normal [OF k(2)] k(3) ac by blast
qed

lemma fresh_id: "rid \<notin> fst ` set m \<Longrightarrow> map_of m rid = None"
  by (simp add: map_of_eq_None_iff)

lemma set_update_fresh: "rid \<notin> fst ` set m \<Longrightarrow> fst ` set (AList.update rid s m) = insert rid (fst ` set m)"
  using update_fresh [OF fresh_id, of rid m s] by auto

lemma sync_exact_step:
  assumes H: "hash_laws (hash K) get" and l: "loop_ok K get h0 clean ls0 ld0 h b seen" and n: "rid \<notin> seen"
    and a: "sync_action r = Some action" and s: "sync_exact K rid r action h b = (h', b')"
  shows "loop_ok K get h0 clean ls0 ld0 h' b' (insert rid seen) \<and> cidrMgr h' = cidrMgr h"
proof -
  note D = loop_okD [OF l]
  show ?thesis
  proof (cases "sync_exact_checks r")
    case None
    then have "h' = h" "b' = count_failed b" using s by (simp_all add: sync_exact_def)
    with loop_ok_failed [OF l, of h "insert rid seen"] show ?thesis by blast
  next
    case (Some kmv)
    obtain key m v where kmv: "kmv = (key, m, v)" by (cases kmv) auto
    obtain ok bl where u: "UpdateNoExist (hash K) (shadowBlacklist h) (ruleKeyToBytes key)
        (ruleValueToBytes (value_of action m v r)) = (ok, bl)" by force
    show ?thesis
    proof (cases ok)
      case True
      then have h': "h' = set_shadowBlacklist bl h" "b' = build_exact rid (stored_of key r) b"
        using s Some kmv u by (simp_all add: sync_exact_def)
      note w = hash_lawsD(1) [OF H u [unfolded eqTrueI [OF True]]]
      have nr: "map_of (sb_rules b) rid = None" using D(5) n by (intro fresh_id) auto
      have c: "committable (stored_of key r) (value_of action m v r)" using sync_exact_checks_ok Some kmv a by blast
      have st: "build_tables get h' b' \<and> (build_mirror get h b \<longrightarrow> build_mirror get h' b')"
        unfolding h'(2) by (rule build_exact_step [OF D(2) nr c]) (use w in \<open>simp_all add: h'(1) stored_of_def\<close>)
      have f: "sb_cidrRules b' = sb_cidrRules b" "sb_failed b' = sb_failed b" "sb_rules b' = AList.update rid (stored_of key r) (sb_rules b)"
        by (simp_all add: h'(2) build_exact_def)
      have ids: "fst ` set (sb_rules b') = insert rid (fst ` set (sb_rules b))"
        unfolding f(3) by (rule set_update_fresh) (use D(5) n in auto)
      have mg: "cidrMgr h' = cidrMgr h" and v: "active_views h' = active_views h" by (simp_all add: h'(1))
      show ?thesis
        using D st ids mg v f(1,2) unfolding loop_ok_def by auto
    next
      case False
      then have h': "h' = set_shadowBlacklist bl h" "b' = count_failed b"
        using s Some kmv u by (simp_all add: sync_exact_def)
      have "get bl = get (shadowBlacklist h)" using hash_lawsD(2) [OF H] u False by simp
      then have "loop_ok K get h0 clean ls0 ld0 h' (count_failed b) (insert rid seen)"
        by (intro loop_ok_failed [OF l]) (auto simp: h'(1))
      then show ?thesis by (simp add: h')
    qed
  qed
qed

lemma sync_cidr_step:
  assumes H: "hash_laws (hash K) get" and l: "loop_ok K get h0 clean ls0 ld0 h b seen" and n: "rid \<notin> seen"
    and rm: "room (Suc (Suc k)) (cidrMgr h)"
    and a: "sync_action r = Some action" and s: "sync_cidr K rid r action h b = (h', b')"
  shows "loop_ok K get h0 clean ls0 ld0 h' b' (insert rid seen) \<and> room k (cidrMgr h')"
proof -
  note D = loop_okD [OF l]
  have mono: "room k (cidrMgr h)" using room_mono [OF rm, of k] by simp
  show ?thesis
  proof (cases "sync_cidr_checks r")
    case None
    then have "h' = h" "b' = count_failed b" using s by (simp_all add: sync_cidr_def)
    with loop_ok_failed [OF l, of h "insert rid seen"] mono show ?thesis by blast
  next
    case (Some q)
    obtain ca cb m v where q: "q = (ca, cb, m, v)" by (cases q) auto
    let ?vl = "value_of action m v r"
    have rq: "cidr_request r ca cb ?vl" using sync_cidr_checks_ok Some q a by blast
    then have nc: "ca = [] \<or> normal_cidr ca" "cb = [] \<or> normal_cidr cb" by (auto simp: cidr_request_def)
    obtain x mg where al: "alloc_ids (trie K) ca cb (cidrMgr h) = (x, mg)" by force
    note A = alloc_ids_holds [OF _ nc rm al]
    note rk = alloc_ids_room [OF rm al]
    show ?thesis
    proof (cases x)
      case (Inl e)
      then have h': "h' = h\<lparr>cidrMgr := mg\<rparr>" "b' = count_failed b" using s Some q al by (simp_all add: sync_cidr_def)
      have "loop_ok K get h0 clean ls0 ld0 h' (count_failed b) (insert rid seen)"
      proof (rule loop_ok_failed [OF l])
        fix ls ld assume "mgr_holds (cidrMgr h) (both (cidrRules h0) (sb_cidrRules b)) [] [] ls ld"
        from A [OF this] Inl show "\<exists>ls' ld'. mgr_holds (cidrMgr h') (both (cidrRules h0) (sb_cidrRules b)) [] [] ls' ld' \<and>
          (steady (trie K) (cidrMgr h) \<longrightarrow> steady (trie K) (cidrMgr h') \<and> ls' = ls \<and> ld' = ld)" by (auto simp: h'(1))
      qed (auto simp: h'(1))
      then show ?thesis using rk by (simp add: h')
    next
      case (Inr ij)
      obtain i j where ij: "ij = (i, j)" by force
      let ?h1 = "h\<lparr>cidrMgr := mg\<rparr>" and ?ck = "build_cidr_key i j (r_SrcPort r) (r_DstPort r) (r_Protocol r)"
      let ?s = "stored_cidr_of ?ck ca cb r"
      have hold: "mgr_holds mg R [ca] [cb] ls ld \<and> id_of (GetSrcID mg) ca i \<and> id_of (GetDstID mg) cb j \<and>
          (steady (trie K) (cidrMgr h) \<longrightarrow> steady (trie K) mg)"
        if "mgr_holds (cidrMgr h) R [] [] ls ld" for R ls ld
        using A [OF that] Inr ij by simp
      have given_back: "\<exists>ls' ld'. mgr_holds (release_ids (trie K) ca cb mg) R [] [] ls' ld' \<and>
          (steady (trie K) (cidrMgr h) \<longrightarrow> steady (trie K) (release_ids (trie K) ca cb mg) \<and> ls' = ls \<and> ld' = ld)"
        if "mgr_holds (cidrMgr h) R [] [] ls ld" for R ls ld
        using release_ids_holds [of mg R ca "[]" cb "[]" ls ld "trie K"] hold [OF that] by blast
      show ?thesis
      proof (cases "validateComboType (getCIDRComboType ?ck)")
        case False
        then have h': "h' = with_mgr (release_ids (trie K) ca cb) ?h1" "b' = count_failed b"
          using s Some q al Inr ij by (simp_all add: sync_cidr_def Let_def)
        have "loop_ok K get h0 clean ls0 ld0 h' (count_failed b) (insert rid seen)"
          by (rule loop_ok_failed [OF l]) (use given_back in \<open>auto simp: h'(1)\<close>)
        then show ?thesis using rk by (simp add: h')
      next
        case combo: True
        obtain ok cbl where u: "UpdateNoExist (hash K) (shadowCidrBlacklist h) (cidrRuleKeyToBytes ?ck) (ruleValueToBytes ?vl) = (ok, cbl)"
          by force
        let ?h2 = "set_shadowCidrBlacklist cbl ?h1"
        show ?thesis
        proof (cases ok)
          case True
          then have h': "h' = ?h2" "b' = build_cidr rid ?s b"
            using s Some q al Inr ij combo u by (simp_all add: sync_cidr_def Let_def)
          note w = hash_lawsD(1) [OF H u [unfolded eqTrueI [OF True]]]
          have nr: "map_of (sb_cidrRules b) rid = None" using D(6) n by (intro fresh_id) auto
          have sk: "sc_Key ?s = ?ck" "sc_SrcCIDR ?s = ca" "sc_DstCIDR ?s = cb" "ck_SrcID ?ck = i" "ck_DstID ?ck = j" "wf_CIDRRuleKey ?ck"
            by (simp_all add: stored_cidr_of_def build_cidr_key_def wf_CIDRRuleKey_def)
          have c: "cidr_committable ?s ?vl"
            using cidr_value_restored [OF rq, of ?ck] combo sk by (simp add: cidr_committable_def)
          have sh: "shadowCidrBlacklist ?h2 = cbl" by simp
          have st: "build_tables get h' b' \<and> (build_mirror get h b \<longrightarrow> build_mirror get h' b')"
            unfolding h'(2) by (rule build_cidr_step [OF D(2) nr c]) (use w sk(1) sh in \<open>simp_all add: h'(1)\<close>)
          have f: "sb_cidrRules b' = AList.update rid ?s (sb_cidrRules b)" "sb_failed b' = sb_failed b" "sb_rules b' = sb_rules b"
            by (simp_all add: h'(2) build_cidr_def)
          have ids: "fst ` set (sb_cidrRules b') = insert rid (fst ` set (sb_cidrRules b))"
            unfolding f(1) by (rule set_update_fresh) (use D(6) n in auto)
          have mg: "cidrMgr h' = mg" and v: "active_views h' = active_views h" by (simp_all add: h'(1))
          obtain ls ld where hl: "mgr_holds (cidrMgr h) (both (cidrRules h0) (sb_cidrRules b)) [] [] ls ld"
            "steady (trie K) (cidrMgr h0) \<longrightarrow> steady (trie K) (cidrMgr h) \<and> ls = ls0 \<and> ld = ld0" using D(8) by blast
          note hh = hold [OF hl(1)]
          have "mgr_holds mg (AList.update (CHR 0x6E # rid) ?s (both (cidrRules h0) (sb_cidrRules b))) [] [] ls ld"
            by (rule mgr_holds_put) (use hh sk both_update(2) [OF nr] in simp_all)
          then have "mgr_holds (cidrMgr h') (both (cidrRules h0) (sb_cidrRules b')) [] [] ls ld"
            unfolding f(1) mg both_update(1) [OF nr] .
          then have bal: "\<exists>ls ld. mgr_holds (cidrMgr h') (both (cidrRules h0) (sb_cidrRules b')) [] [] ls ld \<and>
              (steady (trie K) (cidrMgr h0) \<longrightarrow> steady (trie K) (cidrMgr h') \<and> ls = ls0 \<and> ld = ld0)"
            using hl(2) hh mg by blast
          show ?thesis
            unfolding loop_ok_def using D st ids mg v f(2,3) bal rk by auto
        next
          case False
          then have h': "h' = with_mgr (release_ids (trie K) ca cb) ?h2" "b' = count_failed b"
            using s Some q al Inr ij combo u by (simp_all add: sync_cidr_def Let_def)
          have g: "get cbl = get (shadowCidrBlacklist h)" using hash_lawsD(2) [OF H] u False by simp
          have "loop_ok K get h0 clean ls0 ld0 h' (count_failed b) (insert rid seen)"
            by (rule loop_ok_failed [OF l]) (use given_back g in \<open>auto simp: h'(1)\<close>)
          then show ?thesis using rk by (simp add: h')
        qed
      qed
    qed
  qed
qed

lemma sync_rule_step:
  assumes H: "hash_laws (hash K) get" and l: "loop_ok K get h0 clean ls0 ld0 h b seen" and n: "rule_id fresh (r_ID r) \<notin> seen"
    and rm: "room (Suc (Suc k)) (cidrMgr h)" and s: "sync_rule K fresh r h b = (h', b')"
  shows "loop_ok K get h0 clean ls0 ld0 h' b' (insert (rule_id fresh (r_ID r)) seen) \<and> room k (cidrMgr h')"
proof -
  have mono: "room k (cidrMgr h)" using room_mono [OF rm, of k] by simp
  have skip: ?thesis if "(h', b') = (h, count_failed b)"
    using loop_ok_failed [OF l, of h "insert (rule_id fresh (r_ID r)) seen"] that mono by blast
  show ?thesis
  proof (cases "(r_SrcCIDR r \<noteq> [] \<or> r_DstCIDR r \<noteq> []) \<and> (r_SrcIP r \<noteq> [] \<or> r_DstIP r \<noteq> [])")
    case True
    with s skip show ?thesis by (auto simp: sync_rule_def Let_def)
  next
    case mixed: False
    show ?thesis
    proof (cases "sync_action r")
      case None
      with s mixed skip show ?thesis by (auto simp: sync_rule_def Let_def)
    next
      case (Some action)
      show ?thesis
      proof (cases "r_SrcCIDR r \<noteq> [] \<or> r_DstCIDR r \<noteq> []")
        case True
        with s mixed Some have "sync_cidr K (rule_id fresh (r_ID r)) r action h b = (h', b')" by (auto simp: sync_rule_def Let_def)
        from sync_cidr_step [OF H l n rm Some this] show ?thesis .
      next
        case False
        with s mixed Some have "sync_exact K (rule_id fresh (r_ID r)) r action h b = (h', b')" by (auto simp: sync_rule_def Let_def)
        from sync_exact_step [OF H l n Some this] mono show ?thesis by simp
      qed
    qed
  qed
qed

section \<open>The loop\<close>

text \<open>The IDs the rules of a request get.\<close>

fun sync_ids :: "(nat \<Rightarrow> string) \<Rightarrow> nat \<Rightarrow> Rule list \<Rightarrow> string list" where
  "sync_ids fresh n [] = []"
| "sync_ids fresh n (r # rs) = rule_id (fresh n) (r_ID r) # sync_ids fresh (n + 1) rs"

lemma sync_rules_loop:
  assumes H: "hash_laws (hash K) get"
  shows "loop_ok K get h0 clean ls0 ld0 h b seen \<Longrightarrow> distinct (sync_ids fresh n rs) \<Longrightarrow> set (sync_ids fresh n rs) \<inter> seen = {} \<Longrightarrow>
    room (2 * length rs) (cidrMgr h) \<Longrightarrow> sync_rules K fresh n rs h b = (h', b') \<Longrightarrow>
    loop_ok K get h0 clean ls0 ld0 h' b' (seen \<union> set (sync_ids fresh n rs))"
proof (induction rs arbitrary: n h b seen)
  case Nil
  then show ?case by auto
next
  case (Cons r rs)
  obtain h1 b1 where s: "sync_rule K (fresh n) r h b = (h1, b1)" by force
  have d: "sync_rules K fresh (n + 1) rs h1 b1 = (h', b')" using Cons.prems(5) s by simp
  have rm: "room (Suc (Suc (2 * length rs))) (cidrMgr h)" using Cons.prems(4) by simp
  have nw: "rule_id (fresh n) (r_ID r) \<notin> seen" using Cons.prems(3) by auto
  note st = sync_rule_step [OF H Cons.prems(1) nw rm s]
  have "set (sync_ids fresh (n + 1) rs) \<inter> insert (rule_id (fresh n) (r_ID r)) seen = {}" "distinct (sync_ids fresh (n + 1) rs)"
    using Cons.prems(2,3) by auto
  with Cons.IH [OF conjunct1 [OF st] _ _ conjunct2 [OF st] d] show ?case by simp
qed

end
