(* ===== verification/SyncSwitch.thy ===== *)
theory SyncSwitch
  imports SyncLoop
begin

text \<open>
  The switch of the atomic sync and the sync as a whole. A sync that fails, at any point, changes
  nothing the BPF program or the agent reads; one that succeeds installs exactly the tables it built,
  publishes their bitmaps and counts, and makes the shadow maps active.
\<close>

section \<open>The shadow configuration\<close>

lemma copy_unchecked_eq: "copy_entries A a is c = (None, c') \<Longrightarrow> copy_unchecked A a is c = c'"
  by (induction "is" arbitrary: c) (auto split: option.splits prod.splits if_splits)

lemma put_entries_ok:
  assumes A: "array_laws A get"
  shows "put_entries A us c = (None, c') \<Longrightarrow> list_all (\<lambda>(i, _). i < 12) us \<Longrightarrow> j < 12 \<Longrightarrow>
    cfg_get get c' j = (case map_of (rev us) j of Some v \<Rightarrow> v | None \<Rightarrow> cfg_get get c j)"
proof (induction us arbitrary: c)
  case (Cons u us)
  obtain i v where u: "u = (i, v)" by force
  obtain c1 where p: "cfg_put A i v c = (None, c1)" "put_entries A us c1 = (None, c')"
    using Cons.prems(1) by (auto simp: u and_then_None)
  have "cfg_get get c1 j = (if j = i then v else cfg_get get c j)"
    using cfg_put_ok [OF A p(1)] Cons.prems(2,3) by (simp add: u)
  with Cons.IH [OF p(2)] Cons.prems(2,3) show ?case by (simp add: u map_add_def split: option.splits)
qed simp

text \<open>
  The entries the program is to read after the switch. The six of the rules are written and checked;
  the others are copied, and the copy is not checked.
\<close>

definition sync_entry :: "('m, 'c, 't) Handlers \<Rightarrow> shadow_build \<Rightarrow> (nat \<Rightarrow> u64) \<Rightarrow> nat \<Rightarrow> u64" where
  "sync_entry h b old j =
     (if j = ConfigRuleBitmap then combo_bitmap (sb_combo b)
      else if j = ConfigBlacklistCount then of_int (sb_count b)
      else if j = ConfigCIDRBitmap then combo_bitmap (sb_cidrCombo b)
      else if j = ConfigCIDRRuleCount then of_int (sb_cidrCount b)
      else if j = ConfigRuleMapSelector then of_int (1 - activeRuleSlot h)
      else if j = ConfigAnomalyRuleCount then countAnomalyRulesIn (sb_rules b) (sb_cidrRules b)
      else old j)"

definition rule_entries :: "nat set" where
  "rule_entries = {ConfigRuleBitmap, ConfigBlacklistCount, ConfigCIDRBitmap, ConfigCIDRRuleCount,
     ConfigRuleMapSelector, ConfigAnomalyRuleCount}"

text \<open>Every entry of the active array could be copied to the shadow array.\<close>

definition sync_copied :: "('m, 'c, 't) kernel \<Rightarrow> ('m, 'c, 't) Handlers \<Rightarrow> bool" where
  "sync_copied K h \<longleftrightarrow> fst (copy_entries (arr K) (activeMap h) [0..<ConfigMapEntries] (shadowMap h)) = None"

lemma sync_copied_config: "config_view h' = config_view h \<Longrightarrow> sync_copied K h' = sync_copied K h"
  by (simp add: sync_copied_def config_view_def activeMap_def shadowMap_def)

lemma sync_entries_put:
  assumes A: "array_laws A get"
    and p: "put_entries A (sync_config h b) (copy_unchecked A (activeMap h) [0..<ConfigMapEntries] (shadowMap h)) = (None, c)"
    and j: "j < 12" "j \<in> rule_entries \<or> fst (copy_entries A (activeMap h) [0..<ConfigMapEntries] (shadowMap h)) = None"
  shows "cfg_get get c j = sync_entry h b (published get h) j"
proof -
  let ?c0 = "copy_unchecked A (activeMap h) [0..<ConfigMapEntries] (shadowMap h)"
  have "list_all (\<lambda>(i, _). i < 12) (sync_config h b)" by (simp add: sync_config_def)
  from put_entries_ok [OF A p this j(1)]
  have c: "cfg_get get c j = (case map_of (rev (sync_config h b)) j of Some v \<Rightarrow> v | None \<Rightarrow> cfg_get get ?c0 j)" .
  show ?thesis
  proof (cases "j \<in> rule_entries")
    case True
    then show ?thesis unfolding c by (auto simp: rule_entries_def sync_config_def sync_entry_def)
  next
    case False
    with j(2) obtain c1 where "copy_entries A (activeMap h) [0..<12] (shadowMap h) = (None, c1)"
      by (metis prod.collapse)
    from copy_entries_ok [OF A this] copy_unchecked_eq [OF this] j(1)
    have "cfg_get get ?c0 j = published get h j" by (simp add: published_def)
    with False show ?thesis unfolding c by (auto simp: rule_entries_def sync_config_def sync_entry_def)
  qed
qed

section \<open>The switch\<close>

lemma sync_switch_cases:
  assumes "sync_switch K b h = (r, h')"
  obtains (config) e c where "r = Some (SyncConfigFailed e)" "h' = release_rules K (sb_cidrRules b) (set_shadowMap c h)"
  | (flip) e c h2 where "r = Some (SyncFlipFailed e)" "switch_slot K (set_shadowMap c h) = (Some e, h2)"
      "h' = release_rules K (sb_cidrRules b) h2"
  | (switched) c h2 where "r = None" "put_entries (arr K) (sync_config h b)
        (copy_unchecked (arr K) (activeMap h) [0..<ConfigMapEntries] (shadowMap h)) = (None, c)"
      "switch_slot K (set_shadowMap c h) = (None, h2)"
      "h' = clear_shadows K ((release_rules K (cidrRules h) (install_build b (h2\<lparr>activeRuleSlot := 1 - activeRuleSlot h\<rparr>)))
         \<lparr>lastRuleDropCount := [], lastRuleStatsTime := []\<rparr>)"
proof -
  obtain e c where p: "put_entries (arr K) (sync_config h b)
      (copy_unchecked (arr K) (activeMap h) [0..<ConfigMapEntries] (shadowMap h)) = (e, c)" by force
  show ?thesis
  proof (cases e)
    case (Some x)
    with assms p show ?thesis by (intro config [of x c]) (simp_all add: sync_switch_def Let_def)
  next
    case None
    obtain e2 h2 where s: "switch_slot K (set_shadowMap c h) = (e2, h2)" by force
    show ?thesis
    proof (cases e2)
      case (Some x)
      with assms p None s show ?thesis by (intro flip [of x c h2]) (simp_all add: sync_switch_def Let_def)
    next
      case None
      with assms p \<open>e = None\<close> s show ?thesis by (intro switched [of c h2]) (simp_all add: sync_switch_def Let_def)
    qed
  qed
qed

text \<open>What the program and the agent read, and the active maps.\<close>

definition unchanged :: "('c \<Rightarrow> bytes \<Rightarrow> bytes) \<Rightarrow> ('m, 'c, 't) Handlers \<Rightarrow> ('m, 'c, 't) Handlers \<Rightarrow> bool" where
  "unchanged get h h' \<longleftrightarrow> slot_ok get h' \<and> (\<forall>j < ConfigMapEntries. published get h' j = published get h j) \<and>
     exact_view h' = exact_view h \<and> cidr_view h' = cidr_view h \<and> wl_view h' = wl_view h \<and> slots_view h' = slots_view h \<and>
     activeBlacklist h' = activeBlacklist h \<and> activeCidrBlacklist h' = activeCidrBlacklist h \<and>
     activeWhitelist h' = activeWhitelist h"

lemma unchangedD:
  assumes "unchanged get h h'"
  shows "slot_ok get h'" "j < 12 \<Longrightarrow> published get h' j = published get h j" "exact_view h' = exact_view h"
    "cidr_view h' = cidr_view h" "wl_view h' = wl_view h" "slots_view h' = slots_view h"
    "activeBlacklist h' = activeBlacklist h" "activeCidrBlacklist h' = activeCidrBlacklist h"
    "activeWhitelist h' = activeWhitelist h"
  using assms unfolding unchanged_def by blast+

lemma unchanged_active:
  assumes "slot_ok get h" "active_views h' = active_views h"
  shows "unchanged get h h'"
  using active_viewsD [OF assms(2)] config_published [of h' h get] assms(1) by (simp add: unchanged_def)

lemma unchanged_trans: "unchanged get h g \<Longrightarrow> unchanged get g h' \<Longrightarrow> unchanged get h h'"
  by (simp add: unchanged_def)

lemma same_but_config_views:
  assumes "same_but_config h h'"
  shows "exact_view h' = exact_view h" "cidr_view h' = cidr_view h" "wl_view h' = wl_view h" "slots_view h' = slots_view h"
    "activeBlacklist h' = activeBlacklist h" "activeCidrBlacklist h' = activeCidrBlacklist h" "activeWhitelist h' = activeWhitelist h"
  by (simp_all add: view_defs map_defs same_but_config_fields [OF assms])

lemma unchanged_same_but_config:
  "same_but_config h h' \<Longrightarrow> slot_ok get h' \<Longrightarrow> \<forall>j < 12. published get h' j = published get h j \<Longrightarrow> unchanged get h h'"
  by (simp add: unchanged_def same_but_config_views)

lemma sync_switch_failed:
  assumes A: "array_laws (arr K) get" and sl: "slot_ok get h" and s: "sync_switch K b h = (Some e, h')"
  shows "unchanged get h h' \<and> cidrMgr h' = release_all (trie K) (sb_cidrRules b) (cidrMgr h)"
proof -
  have *: ?thesis if "h' = release_rules K (sb_cidrRules b) g" "unchanged get h g" "cidrMgr g = cidrMgr h" for g
    using that unchanged_active [of get g h'] unchanged_trans [of get h g h'] by (simp add: unchangedD(1))
  show ?thesis
    using s
  proof (cases rule: sync_switch_cases)
    case (config e' c)
    have "unchanged get h (set_shadowMap c h)"
      using shadow_failed [OF sl, of c] same_but_config_shadow [of h c] by (intro unchanged_same_but_config) auto
    then show ?thesis using config(2) * [of "set_shadowMap c h"] by (simp add: set_shadowMap_def)
  next
    case (flip e' c h2)
    from switch_slot_cases [OF A sl flip(2)] same_but_config_fields(19) [of h h2] show ?thesis
      by (intro * [OF flip(3)] unchanged_same_but_config) auto
  qed simp
qed


text \<open>The agent's slots are 0 or 1, and agree with the selectors the program reads.\<close>

definition sel_ok :: "('c \<Rightarrow> bytes \<Rightarrow> bytes) \<Rightarrow> ('m, 'c, 't) Handlers \<Rightarrow> bool" where
  "sel_ok get h \<longleftrightarrow> (activeRuleSlot h = 0 \<or> activeRuleSlot h = 1) \<and> (activeWLSlot h = 0 \<or> activeWLSlot h = 1) \<and>
     published get h ConfigRuleMapSelector = of_int (activeRuleSlot h) \<and>
     published get h ConfigWLMapSelector = of_int (activeWLSlot h)"

lemma sel_okD:
  assumes "sel_ok get h"
  shows "activeRuleSlot h = 0 \<or> activeRuleSlot h = 1" "activeWLSlot h = 0 \<or> activeWLSlot h = 1"
    "published get h 9 = of_int (activeRuleSlot h)" "published get h 8 = of_int (activeWLSlot h)"
  using assms by (simp_all add: sel_ok_def)

lemma install_views:
  assumes "same_but_config h h2" "activeRuleSlot h = 0 \<or> activeRuleSlot h = 1"
    and "g = install_build b (h2\<lparr>activeRuleSlot := 1 - activeRuleSlot h\<rparr>)"
  shows "exact_view g = (sb_rules b, sb_index b, sb_combo b)" "cidr_view g = (sb_cidrRules b, sb_cidrIndex b, sb_cidrCombo b)"
    "wl_view g = wl_view h" "config_view g = config_view h2" "slots_view g = (1 - activeRuleSlot h, activeWLSlot h)"
    "activeBlacklist g = shadowBlacklist h" "activeCidrBlacklist g = shadowCidrBlacklist h" "activeWhitelist g = activeWhitelist h"
    "cidrMgr g = cidrMgr h"
  using assms(2) same_but_config_fields [OF assms(1)]
  by (auto simp: assms(3) install_build_def view_defs map_defs shadowBlacklist_def shadowCidrBlacklist_def)

lemma active_views_side [simp]: "active_views (h\<lparr>lastRuleDropCount := x, lastRuleStatsTime := y\<rparr>) = active_views h"
  by (simp add: active_views_def view_defs map_defs)

text \<open>A switch that happened.\<close>

definition installed :: "('m, 'c, 't) Handlers \<Rightarrow> shadow_build \<Rightarrow> ('m, 'c, 't) Handlers \<Rightarrow> bool" where
  "installed h b h' \<longleftrightarrow> exact_view h' = (sb_rules b, sb_index b, sb_combo b) \<and>
     cidr_view h' = (sb_cidrRules b, sb_cidrIndex b, sb_cidrCombo b) \<and> wl_view h' = wl_view h \<and>
     slots_view h' = (1 - activeRuleSlot h, activeWLSlot h) \<and> activeBlacklist h' = shadowBlacklist h \<and>
     activeCidrBlacklist h' = shadowCidrBlacklist h \<and> activeWhitelist h' = activeWhitelist h"

lemma installedD:
  assumes "installed h b h'"
  shows "exact_view h' = (sb_rules b, sb_index b, sb_combo b)" "cidr_view h' = (sb_cidrRules b, sb_cidrIndex b, sb_cidrCombo b)"
    "wl_view h' = wl_view h" "slots_view h' = (1 - activeRuleSlot h, activeWLSlot h)" "activeBlacklist h' = shadowBlacklist h"
    "activeCidrBlacklist h' = shadowCidrBlacklist h" "activeWhitelist h' = activeWhitelist h"
    "rules h' = sb_rules b" "cidrRules h' = sb_cidrRules b"
  using assms by (simp_all add: installed_def view_defs)

lemma sync_switch_done:
  assumes A: "array_laws (arr K) get" and sl: "slot_ok get h" and rs: "activeRuleSlot h = 0 \<or> activeRuleSlot h = 1"
    and s: "sync_switch K b h = (None, h')"
  shows "slot_ok get h' \<and> installed h b h' \<and> cidrMgr h' = release_all (trie K) (cidrRules h) (cidrMgr h)"
    "j < 12 \<Longrightarrow> j \<in> rule_entries \<or> sync_copied K h \<Longrightarrow> published get h' j = sync_entry h b (published get h) j"
proof -
  from s obtain c h2 where p: "put_entries (arr K) (sync_config h b)
      (copy_unchecked (arr K) (activeMap h) [0..<ConfigMapEntries] (shadowMap h)) = (None, c)"
    and w: "switch_slot K (set_shadowMap c h) = (None, h2)"
    and h': "h' = clear_shadows K ((release_rules K (cidrRules h) (install_build b (h2\<lparr>activeRuleSlot := 1 - activeRuleSlot h\<rparr>)))
       \<lparr>lastRuleDropCount := [], lastRuleStatsTime := []\<rparr>)"
    by (cases rule: sync_switch_cases) auto
  note sw = switch_slot_cases [OF A sl w]
  let ?g = "install_build b (h2\<lparr>activeRuleSlot := 1 - activeRuleSlot h\<rparr>)"
  note iv = install_views [OF conjunct1 [OF sw] rs refl, of b]
  have v: "active_views h' = active_views ?g" by (simp add: h')
  note av = active_viewsD [OF v]
  note cp = config_published [of h' h2 get]
  have cv: "config_view h' = config_view h2" using av(4) iv(4) by simp
  have "slot_ok get h'" using cp cv sw by simp
  moreover have "installed h b h'" unfolding installed_def using av iv by simp
  moreover have "cidrMgr h' = release_all (trie K) (cidrRules h) (cidrMgr h)" by (simp add: h' iv(9))
  ultimately show "slot_ok get h' \<and> installed h b h' \<and> cidrMgr h' = release_all (trie K) (cidrRules h) (cidrMgr h)" by blast
  assume "j < 12" "j \<in> rule_entries \<or> sync_copied K h"
  from sync_entries_put [OF A p this(1)] this(2) have "cfg_get get c j = sync_entry h b (published get h) j"
    by (simp add: sync_copied_def)
  with cp cv sw show "published get h' j = sync_entry h b (published get h) j" by simp
qed

section \<open>The sync\<close>

lemma clear_shadows_content:
  assumes H: "hash_laws (hash K) get"
  shows "(\<forall>k. get (shadowBlacklist (clear_shadows K h)) k = None \<or>
        get (shadowBlacklist (clear_shadows K h)) k = get (shadowBlacklist h) k) \<and>
    (\<forall>k. get (shadowCidrBlacklist (clear_shadows K h)) k = None \<or>
        get (shadowCidrBlacklist (clear_shadows K h)) k = get (shadowCidrBlacklist h) k)"
  using clearMap_content [OF H, of "shadowBlacklist h"] clearMap_content [OF H, of "shadowCidrBlacklist h"]
  by (auto simp: clear_shadows_def Let_def prod_eq_iff)

lemma DoAtomicSync_cases:
  assumes "DoAtomicSync K fresh rs h = (r, h')"
  obtains (rules_failed) h1 b where "sync_rules K fresh 0 rs (clear_shadows K h) empty_build = (h1, b)" "0 < sb_failed b"
      "snd r = Some (SyncRulesFailed (sb_failed b))" "h' = release_rules K (sb_cidrRules b) h1"
      "as_Added (fst r) = sb_added b" "as_Failed (fst r) = sb_failed b"
  | (switched) h1 b where "sync_rules K fresh 0 rs (clear_shadows K h) empty_build = (h1, b)" "\<not> 0 < sb_failed b"
      "sync_switch K b h1 = (snd r, h')" "as_Added (fst r) = sb_added b" "as_Failed (fst r) = sb_failed b"
proof -
  obtain h1 b where l: "sync_rules K fresh 0 rs (clear_shadows K h) empty_build = (h1, b)" by force
  show ?thesis
  proof (cases "0 < sb_failed b")
    case True
    from assms l True show ?thesis by (intro rules_failed [OF l True]) (auto simp: DoAtomicSync_def Let_def)
  next
    case False
    obtain e h2 where s: "sync_switch K b h1 = (e, h2)" by force
    from assms l False s show ?thesis
      by (cases e; intro switched [OF l False]) (auto simp: DoAtomicSync_def Let_def)
  qed
qed

end
