(* ===== verification/SyncFacts.thy ===== *)
theory SyncFacts
  imports SyncSwitch
begin

text \<open>
  The atomic sync as a whole: a failed sync changes nothing that is read, a successful one replaces
  both rule tables by the request's rules. Both keep the invariant of the agent and, on a reliable
  kernel, the mirror; the CIDR IDs of the rules that are gone are given back.
\<close>

section \<open>The rules of the request\<close>

text \<open>The rule a request's rule became.\<close>

definition built :: "shadow_build \<Rightarrow> string \<Rightarrow> Rule \<Rightarrow> bool" where
  "built b rid r \<longleftrightarrow>
     (\<exists>key m v. sync_exact_checks r = Some (key, m, v) \<and> map_of (sb_rules b) rid = Some (stored_of key r)) \<or>
     (\<exists>ca cb m v i j. sync_cidr_checks r = Some (ca, cb, m, v) \<and>
        map_of (sb_cidrRules b) rid =
          Some (stored_cidr_of (build_cidr_key i j (r_SrcPort r) (r_DstPort r) (r_Protocol r)) ca cb r))"

lemma sync_rule_outcome:
  assumes "sync_rule K fresh r h b = (h', b')"
  obtains (failed) "b' = count_failed b"
  | (exact) key m v where "sync_exact_checks r = Some (key, m, v)" "b' = build_exact (rule_id fresh (r_ID r)) (stored_of key r) b"
  | (cidr) ca cb m v i j where "sync_cidr_checks r = Some (ca, cb, m, v)"
      "b' = build_cidr (rule_id fresh (r_ID r)) (stored_cidr_of (build_cidr_key i j (r_SrcPort r) (r_DstPort r) (r_Protocol r)) ca cb r) b"
  using assms
  by (auto simp: sync_rule_def sync_exact_def sync_cidr_def Let_def
      split: if_splits option.splits prod.splits sum.splits)

lemma sync_rule_failed_mono:
  assumes "sync_rule K fresh r h b = (h', b')"
  shows "sb_failed b \<le> sb_failed b'"
  by (rule sync_rule_outcome [OF assms]) (auto simp: count_failed_def build_exact_def build_cidr_def)

lemma sync_rules_failed_mono: "sync_rules K fresh n rs h b = (h', b') \<Longrightarrow> sb_failed b \<le> sb_failed b'"
proof (induction rs arbitrary: n h b)
  case (Cons r rs)
  obtain h1 b1 where s: "sync_rule K (fresh n) r h b = (h1, b1)" by force
  from Cons.IH [of "n + 1" h1 b1] Cons.prems s sync_rule_failed_mono [OF s] show ?case by simp
qed simp

lemma sync_rule_built:
  assumes "sync_rule K fresh r h b = (h', b')" "sb_failed b' \<le> sb_failed b"
  shows "built b' (rule_id fresh (r_ID r)) r" "rid \<noteq> rule_id fresh (r_ID r) \<Longrightarrow> built b rid q \<Longrightarrow> built b' rid q"
  using assms(2)
  by (rule_tac [!] sync_rule_outcome [OF assms(1)])
    (auto simp: built_def count_failed_def build_exact_def build_cidr_def)

lemma sync_rules_built:
  "sync_rules K fresh n rs h b = (h', b') \<Longrightarrow> sb_failed b' \<le> sb_failed b \<Longrightarrow> distinct (sync_ids fresh n rs) \<Longrightarrow>
   (\<forall>rid q. rid \<notin> set (sync_ids fresh n rs) \<longrightarrow> built b rid q \<longrightarrow> built b' rid q) \<and>
   list_all2 (built b') (sync_ids fresh n rs) rs"
proof (induction rs arbitrary: n h b)
  case (Cons r rs)
  obtain h1 b1 where s: "sync_rule K (fresh n) r h b = (h1, b1)" by force
  have d: "sync_rules K fresh (n + 1) rs h1 b1 = (h', b')" using Cons.prems(1) s by simp
  have f: "sb_failed b1 \<le> sb_failed b" "sb_failed b' \<le> sb_failed b1"
    using sync_rule_failed_mono [OF s] sync_rules_failed_mono [OF d] Cons.prems(2) by linarith+
  have n: "rule_id (fresh n) (r_ID r) \<notin> set (sync_ids fresh (n + 1) rs)" using Cons.prems(3) by simp
  note ih = Cons.IH [OF d f(2)] and st = sync_rule_built [OF s f(1)]
  have "built b' (rule_id (fresh n) (r_ID r)) r" using ih Cons.prems(3) st(1) n by auto
  with ih Cons.prems(3) st(2) show ?case by auto
qed simp

section \<open>The build loop from an empty build\<close>

lemma sync_build_loop:
  assumes H: "hash_laws (hash K) get" and d: "distinct (sync_ids fresh 0 rs)" and rm: "room (2 * length rs) (cidrMgr h)"
    and m: "mgr_holds (cidrMgr h) (cidrRules h) [] [] ls ld"
    and l: "sync_rules K fresh 0 rs (clear_shadows K h) empty_build = (h1, b)"
  shows "loop_ok K get h (get (shadowBlacklist (clear_shadows K h)) = Map.empty \<and>
      get (shadowCidrBlacklist (clear_shadows K h)) = Map.empty) ls ld h1 b (set (sync_ids fresh 0 rs))"
proof -
  have c: "build_mirror get g empty_build"
    if "get (shadowBlacklist g) = Map.empty" "get (shadowCidrBlacklist g) = Map.empty" for g :: "('a, 'b, 'c) Handlers"
    using that by (simp add: build_mirror_def image_of_def empty_build_def)
  have "both (cidrRules h) [] = tag CHR 0x6F (cidrRules h)" by (simp add: both_def)
  then have "mgr_holds (cidrMgr h) (both (cidrRules h) []) [] [] ls ld" using m by (simp add: mgr_holds_tag)
  then have "loop_ok K get h (get (shadowBlacklist (clear_shadows K h)) = Map.empty \<and>
      get (shadowCidrBlacklist (clear_shadows K h)) = Map.empty) ls ld (clear_shadows K h) empty_build {}"
    unfolding loop_ok_def using build_tables_empty [of get "clear_shadows K h"] c [of "clear_shadows K h"]
    by (auto simp: empty_build_def)
  from sync_rules_loop [OF H this d _ _ l] rm show ?thesis by simp
qed

section \<open>A failed sync\<close>

lemma DoAtomicSync_failed:
  fixes h h' :: "('m, 'c, 't) Handlers"
  assumes H: "hash_laws (hash K) get" and A: "array_laws (arr K) geta" and sl: "slot_ok geta h" and t: "tables_ok h"
    and d: "distinct (sync_ids fresh 0 rs)" and rm: "room (2 * length rs) (cidrMgr h)"
    and s: "DoAtomicSync K fresh rs h = ((r, Some e), h')"
  shows "unchanged geta h h' \<and> tables_ok h' \<and> (ids_tight (trie K) h \<longrightarrow> ids_tight (trie K) h')"
proof -
  obtain h1 b where l: "sync_rules K fresh 0 rs (clear_shadows K h) empty_build = (h1, b)" by force
  have *: "unchanged geta h h' \<and> cidrMgr h' = release_all (trie K) (sb_cidrRules b) (cidrMgr h1)"
    if v: "active_views h1 = active_views h"
    using s
  proof (cases rule: DoAtomicSync_cases)
    case (rules_failed h1' b')
    with l unchanged_active [OF sl, of h'] v show ?thesis by simp
  next
    case (switched h1' b')
    have sw: "sync_switch K b h1 = (Some e, h')" using switched(1,3) l by simp
    have u: "unchanged geta h h1" by (rule unchanged_active [OF sl v])
    from sync_switch_failed [OF A unchangedD(1) [OF u] sw] unchanged_trans [OF u] show ?thesis by blast
  qed
  have balance: "\<exists>ls' ld'. mgr_holds (cidrMgr h') (cidrRules h) [] [] ls' ld' \<and>
      (steady (trie K) (cidrMgr h) \<longrightarrow> steady (trie K) (cidrMgr h') \<and> ls' = ls \<and> ld' = ld) \<and> unchanged geta h h'"
    if m: "mgr_holds (cidrMgr h) (cidrRules h) [] [] ls ld" for ls ld
  proof -
    note D = loop_okD [OF sync_build_loop [OF H d rm m l]]
    obtain l1 d1 where b: "mgr_holds (cidrMgr h1) (both (cidrRules h) (sb_cidrRules b)) [] [] l1 d1"
      "steady (trie K) (cidrMgr h) \<longrightarrow> steady (trie K) (cidrMgr h1) \<and> l1 = ls \<and> d1 = ld" using D(8) by blast
    from release_new [OF b(1), of "trie K"] * [OF D(1)] b(2) show ?thesis by metis
  qed
  obtain ls ld where m: "mgr_holds (cidrMgr h) (cidrRules h) [] [] ls ld" using tables_okD(4) [OF t] by (auto simp: ids_ok_def)
  have u: "unchanged geta h h'" using balance [OF m] by blast
  note uD = unchangedD [OF u]
  have cr: "cidrRules h' = cidrRules h" using view_fields(2) [OF uD(4)] .
  have "ids_ok h'" unfolding ids_ok_def cr using balance [OF m] by blast
  moreover have "ids_tight (trie K) h'" if "ids_tight (trie K) h"
    using balance [of "\<lambda>_. 0" "\<lambda>_. 0"] that unfolding ids_tight_def cr by blast
  moreover have "tables_ok h'"
    using tables_okD [OF t] exact_inv_view [OF uD(3)] cidr_inv_view [OF uD(4)] wl_inv_view [OF uD(5)] calculation(1)
    by (simp add: tables_ok_def)
  ultimately show ?thesis using u by blast
qed

section \<open>A sync that succeeded\<close>

text \<open>The state after it: the tables hold the request's rules and nothing else, and are in the maps.\<close>

definition synced :: "('m \<Rightarrow> bytes \<Rightarrow> bytes option) \<Rightarrow> string list \<Rightarrow> Rule list \<Rightarrow> ('m, 'c, 't) Handlers \<Rightarrow> ('m, 'c, 't) Handlers \<Rightarrow> bool" where
  "synced get ids rs h h' \<longleftrightarrow>
     (\<exists>b. rules h' = sb_rules b \<and> cidrRules h' = sb_cidrRules b \<and> list_all2 (built b) ids rs) \<and>
     dom (map_of (rules h')) \<union> dom (map_of (cidrRules h')) = set ids \<and>
     (\<forall>rid s. map_of (rules h') rid = Some s \<longrightarrow> get (activeBlacklist h') (ruleKeyToBytes (sr_Key s)) = Some (rule_val s)) \<and>
     (\<forall>rid s. map_of (cidrRules h') rid = Some s \<longrightarrow>
        get (activeCidrBlacklist h') (cidrRuleKeyToBytes (sc_Key s)) = Some (cidr_val s)) \<and>
     wl_view h' = wl_view h \<and> activeWhitelist h' = activeWhitelist h \<and>
     slots_view h' = (1 - activeRuleSlot h, activeWLSlot h)"

text \<open>The entries published for the rules: their bitmaps, their numbers and the map selector.\<close>

definition rules_published :: "('c \<Rightarrow> bytes \<Rightarrow> bytes) \<Rightarrow> ('m, 'c, 't) Handlers \<Rightarrow> bool" where
  "rules_published get h \<longleftrightarrow>
     published get h ConfigRuleBitmap = combo_bitmap (comboRefCount h) \<and>
     published get h ConfigCIDRBitmap = combo_bitmap (cidrComboRefCount h) \<and>
     published get h ConfigBlacklistCount = of_nat (length (rules h)) \<and>
     published get h ConfigCIDRRuleCount = of_nat (length (cidrRules h)) \<and>
     published get h ConfigRuleMapSelector = of_int (activeRuleSlot h) \<and>
     published get h ConfigAnomalyRuleCount = countAnomalyRulesLocked h"

lemma DoAtomicSync_done:
  fixes h h' :: "('m, 'c, 't) Handlers"
  assumes H: "hash_laws (hash K) get" and A: "array_laws (arr K) geta" and sl: "slot_ok geta h" and t: "tables_ok h"
    and rsl: "activeRuleSlot h = 0 \<or> activeRuleSlot h = 1"
    and d: "distinct (sync_ids fresh 0 rs)" and rm: "room (2 * length rs) (cidrMgr h)"
    and s: "DoAtomicSync K fresh rs h = ((r, None), h')"
  shows "slot_ok geta h'" "tables_ok h'" "ids_tight (trie K) h \<Longrightarrow> ids_tight (trie K) h'"
    "synced get (sync_ids fresh 0 rs) rs h h'" "rules_published geta h'"
    "j < 12 \<Longrightarrow> j \<notin> rule_entries \<Longrightarrow> sync_copied K h \<Longrightarrow> published geta h' j = published geta h j"
    "get (shadowBlacklist (clear_shadows K h)) = Map.empty \<Longrightarrow> get (shadowCidrBlacklist (clear_shadows K h)) = Map.empty \<Longrightarrow>
      exact_mirror get h' \<and> cidr_mirror get h'"
proof -
  from s obtain h1 b where l: "sync_rules K fresh 0 rs (clear_shadows K h) empty_build = (h1, b)" and f: "\<not> 0 < sb_failed b"
    and sw: "sync_switch K b h1 = (None, h')"
    by (cases rule: DoAtomicSync_cases) auto
  obtain ls ld where m: "mgr_holds (cidrMgr h) (cidrRules h) [] [] ls ld" using tables_okD(4) [OF t] by (auto simp: ids_ok_def)
  note D = loop_okD [OF sync_build_loop [OF H d rm m l]]
  note av = active_viewsD [OF D(1)]
  note cp = config_published [OF av(4), of geta]
  have sl1: "slot_ok geta h1" using cp sl by simp
  have slots: "activeRuleSlot h1 = activeRuleSlot h" "activeWLSlot h1 = activeWLSlot h" using av(5) by (simp_all add: slots_view_def)
  have rs1: "activeRuleSlot h1 = 0 \<or> activeRuleSlot h1 = 1" using rsl slots by simp
  have cr: "cidrRules h1 = cidrRules h" using view_fields(2) [OF av(2)] .
  note S = sync_switch_done(1) [OF A sl1 rs1 sw] and P = sync_switch_done(2) [OF A sl1 rs1 sw]
  have inst: "installed h1 b h'" using S by blast
  note I = installedD [OF inst] and B = build_tablesD [OF D(2)]
  have v: "ruleKeyIndex h' = sb_index b" "comboRefCount h' = sb_combo b" "cidrRuleKeyIndex h' = sb_cidrIndex b"
    "cidrComboRefCount h' = sb_cidrCombo b" using I(1,2) by (simp_all add: view_defs)
  have f0: "sb_failed b = 0" using f D(4) by simp
  show "slot_ok geta h'" using S by blast
  have balance: "\<exists>ls' ld'. mgr_holds (cidrMgr h') (cidrRules h') [] [] ls' ld' \<and>
      (steady (trie K) (cidrMgr h) \<longrightarrow> steady (trie K) (cidrMgr h') \<and> ls' = ls \<and> ld' = ld)"
    if m: "mgr_holds (cidrMgr h) (cidrRules h) [] [] ls ld" for ls ld
  proof -
    note D = loop_okD [OF sync_build_loop [OF H d rm m l]]
    obtain l1 d1 where b: "mgr_holds (cidrMgr h1) (both (cidrRules h) (sb_cidrRules b)) [] [] l1 d1"
      "steady (trie K) (cidrMgr h) \<longrightarrow> steady (trie K) (cidrMgr h1) \<and> l1 = ls \<and> d1 = ld" using D(8) by blast
    have "cidrMgr h' = release_all (trie K) (cidrRules h) (cidrMgr h1)" using S cr by simp
    with release_old [OF b(1), of "trie K"] b(2) I(9) show ?thesis by metis
  qed
  have ids: "ids_ok h'" unfolding ids_ok_def using balance [OF m] by blast
  have "exact_inv h'" "cidr_inv h'" using B(1,2) I(8,9) v by (simp_all add: exact_inv_def cidr_inv_def)
  moreover have "wl_inv h'" using tables_okD(3) [OF t] wl_inv_view [of h' h] I(3) av(3) by simp
  ultimately show "tables_ok h'" using ids by (simp add: tables_ok_def)
  show "ids_tight (trie K) h'" if "ids_tight (trie K) h"
    using balance [of "\<lambda>_. 0" "\<lambda>_. 0"] that unfolding ids_tight_def by blast
  have "list_all2 (built b) (sync_ids fresh 0 rs) rs"
    using sync_rules_built [OF l _ d] f0 by (simp add: empty_build_def)
  moreover have "dom (map_of (rules h')) \<union> dom (map_of (cidrRules h')) = set (sync_ids fresh 0 rs)"
    unfolding dom_map_of_conv_image_fst I(8,9) using D(5,6) D(7) [OF f0] by blast
  ultimately show "synced get (sync_ids fresh 0 rs) rs h h'"
    unfolding synced_def I(5,6) using I(3,4,7,8,9) av(3,8) B(3,4) slots by auto
  have c: "countAnomalyRulesLocked h' = countAnomalyRulesIn (sb_rules b) (sb_cidrRules b)"
    by (simp add: countAnomalyRulesLocked_def countAnomalyRulesIn_def I(8,9))
  show "rules_published geta h'"
    unfolding rules_published_def c v I(8,9)
    using P [of 2] P [of 7] P [of 0] P [of 6] P [of 9] P [of 10] B(5,6) I(4)
    by (simp add: rule_entries_def sync_entry_def slots_view_def)
  show "published geta h' j = published geta h j" if "j < 12" "j \<notin> rule_entries" "sync_copied K h"
    using P [OF that(1)] that(2,3) sync_copied_config [OF av(4), of K] cp by (auto simp: sync_entry_def rule_entries_def)
  show "exact_mirror get h' \<and> cidr_mirror get h'"
    if "get (shadowBlacklist (clear_shadows K h)) = Map.empty" "get (shadowCidrBlacklist (clear_shadows K h)) = Map.empty"
    using D(3) that by (simp add: build_mirror_def exact_mirror_def cidr_mirror_def I(5,6,8,9))
qed

section \<open>On a reliable kernel\<close>

lemma clear_loop_empties:
  assumes R: "hash_reliable ops get"
  shows "clear_loop ops ks m n = (f, m') \<Longrightarrow> (k \<in> set ks \<longrightarrow> get m' k = None) \<and> (get m k = None \<longrightarrow> get m' k = None)"
proof (induction ks arbitrary: m n)
  case (Cons j ks)
  note L = hash_lawsD [OF hash_reliableD(1) [OF R]]
  obtain ok m1 where d: "Delete ops m j = (ok, m1)" by force
  have c: "clear_loop ops ks m1 (if ok then n else Suc n) = (f, m')" using Cons.prems d by simp
  have "get m1 = (get m)(j := None)"
  proof (cases "get m j = None")
    case True
    then have "\<not> ok" using L(3) [of m j m1] d by (cases ok) auto
    then show ?thesis using L(4) [of m j m1] d True by (auto simp: fun_upd_idem)
  next
    case False
    from hash_reliableD(3) [OF R this] d show ?thesis by auto
  qed
  with Cons.IH [OF c] show ?case by (auto split: if_splits)
qed simp

lemma clearMap_empties:
  assumes R: "hash_reliable ops get"
  shows "get (snd (clearMap ops m)) = Map.empty"
proof
  fix k
  obtain f m' where c: "clear_loop ops (Iterate ops m) m 0 = (f, m')" by force
  have s: "snd (clearMap ops m) = m'" by (simp add: clearMap_def c)
  show "get (snd (clearMap ops m)) k = None"
    using clear_loop_empties [OF R c, of k] hash_lawsD(5) [OF hash_reliableD(1) [OF R], of m] unfolding s by blast
qed

lemma clear_shadows_empty:
  assumes R: "hash_reliable (hash K) get"
  shows "get (shadowBlacklist (clear_shadows K h)) = Map.empty" "get (shadowCidrBlacklist (clear_shadows K h)) = Map.empty"
  using clearMap_empties [OF R] by (simp_all add: clear_shadows_def Let_def)

end
