(* ===== verification/WhitelistSync.thy ===== *)
theory WhitelistSync
  imports SyncFacts
begin

text \<open>
  The atomic sync of the whitelist and its error-recovery clearing: the sync replaces the whole
  whitelist or leaves everything that is read as it was; the clearing removes entries one by one.
\<close>

section \<open>The checks\<close>

lemma wl_sync_items_ok:
  "wl_sync_items ids keys es = Inr items \<Longrightarrow>
   map fst items = map sw_ID es \<and> distinct (map fst items) \<and> distinct (map snd items) \<and>
   fst ` set items \<inter> set ids = {} \<and> snd ` set items \<inter> set keys = {} \<and>
   list_all (\<lambda>(w, k). w \<noteq> [] \<and> wf_RuleKey k \<and> validateComboType (getComboType k)) items"
proof (induction es arbitrary: ids keys items)
  case (Cons e es)
  obtain key its where i: "sw_ID e \<noteq> []" "sw_ID e \<notin> set ids" "whitelistToKey ((syncWhitelistFields e)\<lparr>w_ID := []\<rparr>) = Inr key"
    "key \<notin> set keys" "validateComboType (getComboType key)" "wl_sync_items (sw_ID e # ids) (key # keys) es = Inr its"
    "items = (sw_ID e, key) # its"
    using Cons.prems by (auto simp: Let_def split: if_splits sum.splits option.splits)
  note ih = Cons.IH [OF i(6)]
  have n: "sw_ID e \<notin> fst ` set its" "key \<notin> snd ` set its" using ih by auto
  then have "sw_ID e \<notin> set (map sw_ID es)" using conjunct1 [OF ih] by (metis list.set_map)
  then show ?case using n ih i(1,2,4,5) whitelistToKey_wf [OF i(3)] unfolding i(7) by auto
qed simp

section \<open>Writing the shadow map\<close>

text \<open>The table and the shadow map, step by step.\<close>

definition wl_build_ok ::
  "('m \<Rightarrow> bytes \<Rightarrow> bytes option) \<Rightarrow> 'm \<Rightarrow> (string, RuleKey) gomap \<Rightarrow> (RuleKey, string) gomap \<Rightarrow> int list \<Rightarrow> bool" where
  "wl_build_ok get sh es ix refs \<longleftrightarrow> tbl_inv (\<lambda>k. k) getComboType wf_RuleKey es ix refs \<and> wl_image (map_of es) (get sh)"

lemma wl_sync_write_step:
  assumes H: "hash_laws (hash K) get" and b: "wl_build_ok get sh es ix refs" and n: "map_of es w = None"
    and k: "wf_RuleKey k" "validateComboType (getComboType k)"
    and u: "UpdateNoExist (hash K) sh (ruleKeyToBytes k) wlValue = (True, sh1)"
  shows "wl_build_ok get sh1 (AList.update w k es) (AList.update k w ix) (refs_inc (getComboType k) refs)"
proof -
  have t: "tbl_inv (\<lambda>k. k) getComboType wf_RuleKey es ix refs" and im: "wl_image (map_of es) (get sh)"
    using b by (simp_all add: wl_build_ok_def)
  note w = hash_lawsD(1) [OF H u]
  have "map_of ix k = None"
  proof (cases "map_of ix k")
    case (Some a)
    then have "map_of es a = Some k" using tbl_invD(4) [OF t] by blast
    then have "get sh (ruleKeyToBytes k) = Some wlValue" using im unfolding image_of_def by blast
    with w show ?thesis by simp
  qed
  with tbl_add [OF t n, of k] k have "tbl_inv (\<lambda>k. k) getComboType wf_RuleKey (AList.update w k es) (AList.update k w ix) (refs_inc (getComboType k) refs)"
    by (simp add: validateComboType_iff)
  moreover have "wl_image ((map_of es)(w \<mapsto> k)) (get sh1)"
    using image_of_add [OF im n, of k] w by simp
  ultimately show ?thesis by (simp add: wl_build_ok_def AList.update_conv')
qed

lemma wl_sync_write_ok:
  assumes H: "hash_laws (hash K) get"
  shows "wl_build_ok get sh es ix refs \<Longrightarrow> distinct (map fst items) \<Longrightarrow> fst ` set items \<inter> dom (map_of es) = {} \<Longrightarrow>
    list_all (\<lambda>(w, k). w \<noteq> [] \<and> wf_RuleKey k \<and> validateComboType (getComboType k)) items \<Longrightarrow>
    wl_sync_write K items sh es ix refs = (Inr (es', ix', refs'), sh') \<Longrightarrow>
    wl_build_ok get sh' es' ix' refs' \<and> map_of es' = map_of es ++ map_of items \<and> length es' = length es + length items"
proof (induction items arbitrary: sh es ix refs)
  case (Cons i items)
  obtain w k where i: "i = (w, k)" by force
  obtain sh1 where u: "UpdateNoExist (hash K) sh (ruleKeyToBytes k) wlValue = (True, sh1)"
    and r: "wl_sync_write K items sh1 (AList.update w k es) (AList.update k w ix) (refs_inc (getComboType k) refs) =
      (Inr (es', ix', refs'), sh')"
    using Cons.prems(5) by (auto simp: i Let_def split: prod.splits if_splits)
  have n: "map_of es w = None" using Cons.prems(3) by (auto simp: i domIff)
  have b: "wl_build_ok get sh1 (AList.update w k es) (AList.update k w ix) (refs_inc (getComboType k) refs)"
    by (rule wl_sync_write_step [OF H Cons.prems(1) n _ _ u]) (use Cons.prems(4) in \<open>auto simp: i\<close>)
  have d: "distinct (map fst items)" "fst ` set items \<inter> dom (map_of (AList.update w k es)) = {}" "w \<notin> fst ` set items"
    using Cons.prems(2,3) by (auto simp: i AList.update_conv')
  note ih = Cons.IH [OF b d(1,2) _ r]
  have "map_of items w = None" using d(3) by (simp add: map_of_eq_None_iff)
  then have "(map_of es)(w \<mapsto> k) ++ map_of items = map_of es ++ map_of (i # items)"
    by (auto simp: i map_add_def fun_eq_iff split: option.splits)
  moreover have "length (AList.update w k es) = Suc (length es)" using update_fresh [OF n] by simp
  ultimately have e: "map_of (AList.update w k es) ++ map_of items = map_of es ++ map_of (i # items)"
    "length (AList.update w k es) + length items = length es + length (i # items)" by (simp_all add: fun_upd_def)
  have "list_all (\<lambda>(w, k). w \<noteq> [] \<and> wf_RuleKey k \<and> validateComboType (getComboType k)) items" using Cons.prems(4) by simp
  from ih [OF this] show ?case unfolding e .
qed simp

section \<open>The sync\<close>

lemma DoWhitelistAtomicSync_cases:
  assumes "DoWhitelistAtomicSync K entries h = (r, h')"
  obtains (early) e sh where "r = Some e" "h' = h \<or> h' = set_shadowWhitelist sh h"
  | (publish) items :: "(string \<times> RuleKey) list" and refs e sh h3 where "r = Some (WLSyncPublishFailed e)"
      "publishConfigUpdateForWLSync K (of_nat (length items)) refs
        ((set_shadowWhitelist sh h)\<lparr>activeWLSlot := 1 - activeWLSlot h, wlComboRefCount := refs\<rparr>) = (Some e, h3)"
      "h' = h3\<lparr>activeWLSlot := activeWLSlot h, wlComboRefCount := wlComboRefCount h\<rparr>"
  | (ok) items sh0 es ix refs sh h3 where "r = None" "wl_sync_items [] [] entries = Inr items"
      "clearMap (hash K) (shadowWhitelist h) = (None, sh0)" "wl_sync_write K items sh0 [] [] zero64 = (Inr (es, ix, refs), sh)"
      "publishConfigUpdateForWLSync K (of_nat (length items)) refs
        ((set_shadowWhitelist sh h)\<lparr>activeWLSlot := 1 - activeWLSlot h, wlComboRefCount := refs\<rparr>) = (None, h3)"
      "h' = set_shadowWhitelist (snd (clearMap (hash K) (shadowWhitelist (h3\<lparr>wlEntries := es, wlKeyIndex := ix\<rparr>))))
         (h3\<lparr>wlEntries := es, wlKeyIndex := ix\<rparr>)"
proof (cases "wl_sync_items [] [] entries")
  case (Inl e)
  with assms early show ?thesis by (auto simp: DoWhitelistAtomicSync_def)
next
  case (Inr items)
  obtain c sh0 where cl: "clearMap (hash K) (shadowWhitelist h) = (c, sh0)" by force
  show ?thesis
  proof (cases c)
    case (Some n)
    with assms Inr cl early show ?thesis by (auto simp: DoWhitelistAtomicSync_def)
  next
    case None
    obtain x sh where w: "wl_sync_write K items sh0 [] [] zero64 = (x, sh)" by force
    show ?thesis
    proof (cases x)
      case (Inl wid)
      with assms Inr cl None w early show ?thesis by (auto simp: DoWhitelistAtomicSync_def)
    next
      case x: (Inr y)
      obtain es ix refs where y: "y = (es, ix, refs)" by (cases y)
      have s: "activeWLSlot (set_shadowWhitelist sh h) = activeWLSlot h" "wlComboRefCount (set_shadowWhitelist sh h) = wlComboRefCount h"
        by (simp_all add: set_shadowWhitelist_def)
      obtain e h3 where p: "publishConfigUpdateForWLSync K (of_nat (length items)) refs
          ((set_shadowWhitelist sh h)\<lparr>activeWLSlot := 1 - activeWLSlot h, wlComboRefCount := refs\<rparr>) = (e, h3)" by force
      show ?thesis
      proof (cases e)
        case None
        with assms Inr cl \<open>c = None\<close> w x y p s show ?thesis
          by (intro ok [of items sh0 es ix refs sh h3]) (simp_all add: DoWhitelistAtomicSync_def Let_def)
      next
        case (Some err)
        with assms Inr cl \<open>c = None\<close> w x y p s show ?thesis
          by (intro publish [of err items refs sh h3]) (simp_all add: DoWhitelistAtomicSync_def Let_def)
      qed
    qed
  qed
qed


text \<open>A failed sync changes nothing that is read.\<close>

lemma set_shadowWhitelist_active [simp]: "active_views (set_shadowWhitelist m h) = active_views h"
  by (rule shadow_ops)

lemma DoWhitelistAtomicSync_failed:
  assumes A: "array_laws (arr K) geta" and sl: "slot_ok geta h" and s: "DoWhitelistAtomicSync K entries h = (Some e, h')"
  shows "unchanged geta h h' \<and> cidrMgr h' = cidrMgr h"
  using s
proof (cases rule: DoWhitelistAtomicSync_cases)
  case (early e' sh)
  then have "active_views h' = active_views h" "cidrMgr h' = cidrMgr h" by auto
  with unchanged_active [OF sl] show ?thesis by blast
next
  case (publish items refs e' sh h3)
  let ?g = "(set_shadowWhitelist sh h)\<lparr>activeWLSlot := 1 - activeWLSlot h, wlComboRefCount := refs\<rparr>"
  have c: "config_view ?g = config_view h" "config_view h' = config_view h3"
    by (simp_all add: publish(3) config_view_def set_shadowWhitelist_def)
  note cp = config_published [OF c(1), of geta] config_published [OF c(2), of geta]
  have "slot_ok geta ?g" using cp sl by simp
  note r = publish_wl_result [OF A this publish(2)]
  note f = same_but_config_fields [OF conjunct1 [OF r]]
  have "unchanged geta h h' \<and> cidrMgr h' = cidrMgr h"
    using r cp f unfolding unchanged_def publish(3)
    by (cases "activeWLSlot h = 0") (simp_all add: view_defs map_defs set_shadowWhitelist_def)
  then show ?thesis .
qed simp

text \<open>
  A sync that succeeds: the table holds exactly the checked entries, the active map is its image (the
  shadow map was cleared without a failure, so no reliability is assumed), and the other tables and
  their published entries are untouched.
\<close>

lemma DoWhitelistAtomicSync_done:
  fixes h h' :: "('m, 'c, 't) Handlers"
  assumes H: "hash_laws (hash K) get" and A: "array_laws (arr K) geta" and sl: "slot_ok geta h"
    and ws: "activeWLSlot h = 0 \<or> activeWLSlot h = 1" and s: "DoWhitelistAtomicSync K entries h = (None, h')"
  obtains items where "wl_sync_items [] [] entries = Inr items" "map_of (wlEntries h') = map_of items"
    "length (wlEntries h') = length items" "wl_inv h'" "wl_mirror get h'" "not_wl_views (h'\<lparr>activeWLSlot := activeWLSlot h\<rparr>) = not_wl_views h"
    "activeWLSlot h' = 1 - activeWLSlot h" "slot_ok geta h'"
    "\<forall>j < 12. published geta h' j = intended_wl_entry h' (of_nat (length items)) (wlComboRefCount h') (published geta h) j"
  using s
proof (cases rule: DoWhitelistAtomicSync_cases)
  case (ok items sh0 es ix refs sh h3)
  let ?g = "(set_shadowWhitelist sh h)\<lparr>activeWLSlot := 1 - activeWLSlot h, wlComboRefCount := refs\<rparr>"
  note io = wl_sync_items_ok [OF ok(2)]
  have e: "get sh0 = Map.empty" using clearMap_content [OF H ok(3)] by blast
  have "wl_build_ok get sh0 [] [] zero64" unfolding wl_build_ok_def by (simp add: tbl_inv_empty image_of_def e)
  from wl_sync_write_ok [OF H this _ _ _ ok(4)] io
  have b: "wl_build_ok get sh es ix refs" "map_of es = map_of items" "length es = length items" by auto
  have c: "config_view ?g = config_view h" "config_view h' = config_view h3"
    by (auto simp: ok(6) config_view_def set_shadowWhitelist_def)
  note cp = config_published [OF c(1), of geta] config_published [OF c(2), of geta]
  have "slot_ok geta ?g" using cp sl by simp
  note r = publish_wl_result [OF A this ok(5)]
  note f = same_but_config_fields [OF conjunct1 [OF r]]
  have v: "wlEntries h' = es" "wlKeyIndex h' = ix" "wlComboRefCount h' = refs" "activeWLSlot h' = 1 - activeWLSlot h"
    using f by (auto simp: ok(6) set_shadowWhitelist_def)
  have am: "activeWhitelist h' = sh"
    using ws f by (auto simp: ok(6) set_shadowWhitelist_def activeWhitelist_def)
  have nv: "not_wl_views (h'\<lparr>activeWLSlot := activeWLSlot h\<rparr>) = not_wl_views h"
    using f by (cases "activeWLSlot h = 0") (simp_all add: ok(6) set_shadowWhitelist_def not_wl_views_def view_defs map_defs)
  have "wl_inv h'" "wl_mirror get h'" using b v am by (simp_all add: wl_build_ok_def wl_inv_def wl_mirror_def)
  moreover have "slot_ok geta h'" using r cp by simp
  moreover have "\<forall>j < 12. published geta h' j = intended_wl_entry h' (of_nat (length items)) (wlComboRefCount h') (published geta h) j"
    using r cp v by (simp add: intended_wl_entry_def)
  ultimately show ?thesis using that [OF ok(2)] b v nv by simp
qed simp_all

section \<open>Clearing\<close>

lemma clear_entries_ok:
  "wl_inv h \<Longrightarrow> wlEntries h = es \<Longrightarrow> clear_entries K es n h = ((x, n'), h') \<Longrightarrow>
   wl_inv h' \<and> map_of (wlEntries h') \<subseteq>\<^sub>m map_of (wlEntries h) \<and> not_wl_views h' = not_wl_views h \<and>
   config_view h' = config_view h \<and> n \<le> n' \<and> (n' = n \<longrightarrow> wl_view h' = wl_view h) \<and>
   (x = None \<longrightarrow> wlEntries h' = [] \<and> n' = n + length es) \<and>
   (hash_reliable (hash K) get \<and> wl_mirror get h \<longrightarrow> x = None \<and> wl_mirror get h')"
proof (induction es arbitrary: h n)
  case (Cons e es)
  obtain wid key where e: "e = (wid, key)" by force
  have g: "is_gomap (wlEntries h)" using tbl_invD(1) Cons.prems(1) unfolding wl_inv_def by blast
  have k: "map_of (wlEntries h) wid = Some key" by (simp add: Cons.prems(2) e)
  obtain b wm where d: "Delete (hash K) (activeWhitelist h) (ruleKeyToBytes key) = (b, wm)" by force
  have R: "b \<and> wl_image ((map_of (wlEntries h))(wid := None)) (get wm)"
    if "hash_reliable (hash K) get" "wl_mirror get h"
    using wls.delete_reliable [OF that(1) Cons.prems(1) that(2) [unfolded wl_mirror_def] k] d by auto
  show ?case
  proof (cases b)
    case False
    then have h': "h' = set_activeWhitelist wm h" "x = Some wid" "n' = n" using Cons.prems(3) d by (auto simp: e)
    then show ?thesis using wl_inv_view [of h' h] Cons.prems(1) R False by auto
  next
    case True
    let ?h = "drop_whitelist wid key (set_activeWhitelist wm h)"
    have c: "clear_entries K es (n + 1) ?h = ((x, n'), h')" using Cons.prems(3) d True by (simp add: e)
    note st = drop_whitelist_step [OF Cons.prems(1) k, of wm]
    have es: "wlEntries ?h = es"
      using delete_middle [of "[]" wid key es] g by (simp add: drop_whitelist_def Cons.prems(2) e)
    note ih = Cons.IH [OF conjunct1 [OF st] es c]
    have "map_of (wlEntries ?h) \<subseteq>\<^sub>m map_of (wlEntries h)" using st by (auto simp: map_le_def)
    then have "map_of (wlEntries h') \<subseteq>\<^sub>m map_of (wlEntries h)" using ih map_le_trans by blast
    moreover have "wl_mirror get ?h" if "hash_reliable (hash K) get" "wl_mirror get h"
      using R [OF that] st by (simp add: wl_mirror_def)
    ultimately show ?thesis using ih by auto
  qed
qed simp

lemma zero_counts:
  fixes h :: "('m, 'c, 't) Handlers"
  assumes "wl_inv h" "wlEntries h = []"
  shows "wl_inv (h\<lparr>wlComboRefCount := zero64\<rparr>)"
  using assms unfolding wl_inv_def tbl_inv_def by (simp add: zero64_def count_if_def)

lemma ClearAllWhitelistFromSync_cases:
  assumes "ClearAllWhitelistFromSync K h = (r, h')"
  obtains (stopped) wid n h1 where "clear_entries K (wlEntries h) 0 h = ((Some wid, n), h1)" "r = Some (WLClearDeleteFailed wid)"
      "if n > 0 then \<exists>e. publishConfigUpdate K 0 (- int n) 0 h1 = (e, h') else h' = h1"
  | (cleared) n h1 where "clear_entries K (wlEntries h) 0 h = ((None, n), h1)"
      "if n > 0 then (\<exists>e. publishConfigUpdate K 0 (- int n) 0 (h1\<lparr>wlComboRefCount := zero64\<rparr>) = (e, h') \<and> r = map_option WLClearPublishFailed e)
       else h' = h1\<lparr>wlComboRefCount := zero64\<rparr> \<and> r = None"
proof -
  obtain x n h1 where c: "clear_entries K (wlEntries h) 0 h = ((x, n), h1)" by (cases "clear_entries K (wlEntries h) 0 h") auto
  show ?thesis
  proof (cases x)
    case (Some wid)
    obtain e h2 where p: "publishConfigUpdate K 0 (- int n) 0 h1 = (e, h2)" by force
    have "r = Some (WLClearDeleteFailed wid)" "h' = (if n > 0 then h2 else h1)"
      using assms c Some p by (auto simp: ClearAllWhitelistFromSync_def)
    then show ?thesis using stopped [OF c [unfolded Some]] p by simp
  next
    case None
    obtain e h2 where p: "publishConfigUpdate K 0 (- int n) 0 (h1\<lparr>wlComboRefCount := zero64\<rparr>) = (e, h2)" by force
    have "if n > 0 then h' = h2 \<and> r = map_option WLClearPublishFailed e else h' = h1\<lparr>wlComboRefCount := zero64\<rparr> \<and> r = None"
      using assms c None p by (cases e) (auto simp: ClearAllWhitelistFromSync_def Let_def)
    then show ?thesis using cleared [OF c [unfolded None]] p by (auto split: if_splits)
  qed
qed

lemma zero_views [simp]:
  "not_wl_views (h\<lparr>wlComboRefCount := z\<rparr>) = not_wl_views h" "config_view (h\<lparr>wlComboRefCount := z\<rparr>) = config_view h"
  "activeWhitelist (h\<lparr>wlComboRefCount := z\<rparr>) = activeWhitelist h"
  by (simp_all add: not_wl_views_def view_defs map_defs)

lemma ClearAll_published:
  assumes A: "array_laws (arr K) geta" and ok: "agent_ok geta h" and g: "wl_inv g" "not_wl_views g = not_wl_views h"
    "config_view g = config_view h" "map_of (wlEntries g) \<subseteq>\<^sub>m map_of (wlEntries h)"
    and p: "if n > (0::nat) then \<exists>e. publishConfigUpdate K 0 (- int n) 0 g = (e, h') else h' = g"
  shows "agent_ok geta h' \<and> wlEntries h' = wlEntries g \<and> not_wl_views h' = not_wl_views h \<and> activeWhitelist h' = activeWhitelist g"
proof -
  have t: "tables_ok h" using ok by (simp add: agent_ok_def)
  have le: "bitmaps_le g h" by (rule bitmaps_le_wl [OF tables_okD(3) [OF t] g(1,4,2)])
  have tg: "tables_ok g" using tables_ok_wl [OF t g(1,2)] .
  show ?thesis
  proof (cases "n > 0")
    case True
    then obtain e where e: "publishConfigUpdate K 0 (- int n) 0 g = (e, h')" using p by auto
    have "agent_ok geta h'" by (rule agent_ok_publish [OF A ok tg g(3) e]) (use le in auto)
    then show ?thesis using publish_views(8,11) [OF e] publish_not_wl [OF e] g(2) by simp
  next
    case False
    then show ?thesis using p agent_ok_frame [OF ok tg g(3) le] g(2) by simp
  qed
qed

lemma ClearAllWhitelistFromSync_ok:
  fixes h h' :: "('m, 'c, 't) Handlers"
  assumes A: "array_laws (arr K) geta" and ok: "agent_ok geta h" and c: "ClearAllWhitelistFromSync K h = (r, h')"
  shows "agent_ok geta h'" "not_wl_views h' = not_wl_views h" "\<forall>w. r \<noteq> Some (WLClearDeleteFailed w) \<Longrightarrow> wlEntries h' = []"
    "hash_reliable (hash K) get \<Longrightarrow> wl_mirror get h \<Longrightarrow> wl_mirror get h' \<and> wlEntries h' = []"
proof -
  have inv: "wl_inv h" using ok by (simp add: agent_ok_def tables_ok_def)
  have "agent_ok geta h' \<and> not_wl_views h' = not_wl_views h \<and> ((\<forall>w. r \<noteq> Some (WLClearDeleteFailed w)) \<longrightarrow> wlEntries h' = []) \<and>
    (hash_reliable (hash K) get \<and> wl_mirror get h \<longrightarrow> wl_mirror get h' \<and> wlEntries h' = [])"
    using c
  proof (cases rule: ClearAllWhitelistFromSync_cases)
    case (stopped wid n h1)
    note ce = clear_entries_ok [OF inv refl stopped(1), of get]
    have "agent_ok geta h' \<and> wlEntries h' = wlEntries h1 \<and> not_wl_views h' = not_wl_views h \<and> activeWhitelist h' = activeWhitelist h1"
      by (rule ClearAll_published [OF A ok _ _ _ _ stopped(3)]) (use ce in auto)
    then show ?thesis using ce stopped(2) by auto
  next
    case (cleared n h1)
    note ce = clear_entries_ok [OF inv refl cleared(1), of get]
    let ?g = "h1\<lparr>wlComboRefCount := zero64\<rparr>"
    have z: "wl_inv ?g" using zero_counts ce by blast
    have p: "if n > 0 then \<exists>e. publishConfigUpdate K 0 (- int n) 0 ?g = (e, h') else h' = ?g" using cleared(2) by (auto split: if_splits)
    have "agent_ok geta h' \<and> wlEntries h' = wlEntries ?g \<and> not_wl_views h' = not_wl_views h \<and> activeWhitelist h' = activeWhitelist ?g"
      by (rule ClearAll_published [OF A ok z _ _ _ p]) (use ce in auto)
    then show ?thesis using ce by (auto simp: wl_mirror_def)
  qed
  then show "agent_ok geta h'" "not_wl_views h' = not_wl_views h" "\<forall>w. r \<noteq> Some (WLClearDeleteFailed w) \<Longrightarrow> wlEntries h' = []"
    "hash_reliable (hash K) get \<Longrightarrow> wl_mirror get h \<Longrightarrow> wl_mirror get h' \<and> wlEntries h' = []" by blast+
qed

end
