(* ===== verification/Selectors.thy ===== *)
theory Selectors
  imports WhitelistSync
begin

text \<open>
  The configuration under every operation. A rule or whitelist operation reaches its result by steps
  that leave the configuration and the slots alone and by publishes; whatever the errors on the way,
  the selectors the BPF program follows keep agreeing with the agent's slots, and the entries that
  belong to the operator (fast forward, the filtered interface, the CPU divisor) never change.
\<close>

section \<open>Paths of publishes\<close>

definition cs_view where
  "cs_view h = (config_view h, slots_view h)"

lemma cs_viewI: "config_view h' = config_view h \<Longrightarrow> slots_view h' = slots_view h \<Longrightarrow> cs_view h' = cs_view h"
  by (simp add: cs_view_def)

lemma cs_not_wl: "not_wl_views h' = not_wl_views h \<Longrightarrow> config_view h' = config_view h \<Longrightarrow> cs_view h' = cs_view h"
  by (simp add: cs_view_def not_wl_views_def)

inductive cfg_path :: "('m, 'c, 't) kernel \<Rightarrow> ('m, 'c, 't) Handlers \<Rightarrow> ('m, 'c, 't) Handlers \<Rightarrow> bool" for K where
  frame: "cs_view h' = cs_view h \<Longrightarrow> cfg_path K h h'"
| publish: "cfg_path K h g \<Longrightarrow> publishConfigUpdate K d wd cd g = (e, g') \<Longrightarrow> cs_view h' = cs_view g' \<Longrightarrow> cfg_path K h h'"

lemma cfg_path_refl: "cfg_path K h h"
  by (simp add: cfg_path.frame)

lemma cfg_path_frame: "cfg_path K h g \<Longrightarrow> cs_view h' = cs_view g \<Longrightarrow> cfg_path K h h'"
  by (induction rule: cfg_path.induct) (auto intro: cfg_path.intros)

lemma cfg_path_trans: "cfg_path K g h' \<Longrightarrow> cfg_path K h g \<Longrightarrow> cfg_path K h h'"
  by (induction rule: cfg_path.induct) (auto intro: cfg_path_frame cfg_path.publish)

lemma cfg_path_one:
  "cs_view g = cs_view h \<Longrightarrow> publishConfigUpdate K d wd cd g = (e, g') \<Longrightarrow> cs_view h' = cs_view g' \<Longrightarrow> cfg_path K h h'"
  by (blast intro: cfg_path.intros)

text \<open>The entries of the operator.\<close>

definition operator_entries :: "nat set" where
  "operator_entries = {ConfigFastForwardEnabled, ConfigFilterIfindex, ConfigRLCPUDivisor}"

definition cfg_ok :: "('c \<Rightarrow> bytes \<Rightarrow> bytes) \<Rightarrow> ('m, 'c, 't) Handlers \<Rightarrow> bool" where
  "cfg_ok get h \<longleftrightarrow> slot_ok get h \<and> sel_ok get h"

lemma cfg_ok_frame:
  assumes "cs_view h' = cs_view h"
  shows "cfg_ok get h' = cfg_ok get h" "published get h' = published get h"
proof -
  have v: "config_view h' = config_view h" "slots_view h' = slots_view h" using assms by (simp_all add: cs_view_def)
  note p = config_published [OF v(1), of get]
  show "published get h' = published get h" using p by blast
  show "cfg_ok get h' = cfg_ok get h" using p v(2) by (simp add: cfg_ok_def sel_ok_def slots_view_def)
qed

lemma publish_cfg_ok:
  assumes A: "array_laws (arr K) get" and ok: "cfg_ok get h" and p: "publishConfigUpdate K d wd cd h = (e, h')"
  shows "cfg_ok get h' \<and> (\<forall>j \<in> operator_entries. published get h' j = published get h j)"
proof -
  have sl: "slot_ok get h" "sel_ok get h" using ok by (auto simp: cfg_ok_def)
  have r: "slot_ok get h'" "\<forall>j < 12. published get h' j =
      (if e = None then intended_entry h d wd cd (published get h) j else published get h j)"
    using publish_result [OF A sl(1) p] by blast+
  have s: "activeRuleSlot h' = activeRuleSlot h" "activeWLSlot h' = activeWLSlot h"
    using publish_views(4) [OF p] by (simp_all add: slots_view_def)
  have "sel_ok get h'" using sl(2) r(2) s by (simp add: sel_ok_def intended_entry_def)
  then show ?thesis using r by (auto simp: cfg_ok_def operator_entries_def intended_entry_def)
qed

lemma cfg_path_ok:
  assumes A: "array_laws (arr K) get" and p: "cfg_path K h h'" and ok: "cfg_ok get h"
  shows "cfg_ok get h' \<and> (\<forall>j \<in> operator_entries. published get h' j = published get h j)"
  using p ok
proof (induction rule: cfg_path.induct)
  case (frame h' h)
  then show ?case using cfg_ok_frame [OF frame(1), of get] by simp
next
  case (publish h g d wd cd e g' h')
  have "cfg_ok get g" and o: "\<forall>j \<in> operator_entries. published get g j = published get h j" using publish.IH publish.prems by auto
  note q = publish_cfg_ok [OF A this(1) publish(2)]
  show ?case using q o cfg_ok_frame [OF publish(3), of get] by simp
qed

section \<open>The operations\<close>

lemma rule_commit_path:
  assumes "rule_commit K rid s v h = (r, h')"
  shows "cfg_path K h h'"
  using assms
proof (cases rule: rule_commit_cases)
  case failed
  then show ?thesis using rule_stage_frame [OF failed(1)] by (intro cfg_path.frame cs_viewI) auto
next
  case (ok h1)
  show ?thesis by (rule cfg_path_one [OF cs_viewI ok(2) refl]) (use rule_stage_frame [OF ok(1)] in auto)
next
  case (rollback h1 e h2)
  show ?thesis
    by (rule cfg_path_one [OF cs_viewI rollback(2) cs_viewI])
      (use rule_stage_frame [OF rollback(1)] in \<open>auto simp: rollback(4) rollback_views\<close>)
qed

lemma cidr_commit_path:
  assumes "cidr_commit K rid s v h = (r, h')"
  shows "cfg_path K h h'"
  using assms
proof (cases rule: cidr_commit_cases)
  case (failed h1)
  then show ?thesis using cidr_stage_frame [OF failed(1)] by (intro cfg_path.frame cs_viewI) auto
next
  case (ok h1 h2)
  show ?thesis
    by (rule cfg_path_one [OF cs_viewI ok(2) cs_viewI])
      (use cidr_stage_frame [OF ok(1)] in \<open>auto simp: ok(4) split: option.splits\<close>)
next
  case (rollback h1 e h2)
  show ?thesis
    by (rule cfg_path_one [OF cs_viewI rollback(2) cs_viewI])
      (use cidr_stage_frame [OF rollback(1)] in \<open>auto simp: rollback(4) cidr_rollback_views\<close>)
qed

lemma add_effect_path:
  assumes "add_effect K rid h r h'"
  shows "cfg_path K h h'"
  using assms
proof (cases rule: add_effect_cases)
  case (cidr req a b vl)
  from cidr(2) show ?thesis
  proof (cases rule: cidr_alloc_commit_cases)
    case (rejected e m)
    then show ?thesis by (intro cfg_path.frame cs_viewI) auto
  next
    case (commit ck m r1)
    show ?thesis by (rule cfg_path_trans [OF cidr_commit_path [OF commit(4)] cfg_path.frame [OF cs_viewI]]) simp_all
  qed
qed (auto intro: cfg_path_refl rule_commit_path)

lemma batch_cidr_path: "batch_cidr K fresh n rs ad fa h = (ad', fa', h') \<Longrightarrow> cfg_path K h h'"
proof (induction rs arbitrary: n ad fa h)
  case Nil
  then show ?case by (auto intro: cfg_path_refl)
next
  case (Cons r rs)
  obtain rp h1 n1 a1 f1 where s: "addCIDRRuleFromSync K (fresh n) (ruleToSyncRule r) h = (rp, h1)"
    "batch_cidr K fresh n1 rs a1 f1 h1 = (ad', fa', h')" by (rule batch_cidr_step [OF Cons.prems])
  show ?case
    by (rule cfg_path_trans [OF Cons.IH [OF s(2)] add_effect_path [OF addCIDRRuleFromSync_effect [OF s(1)]]])
qed

lemma AddRulesBatch_path:
  assumes "AddRulesBatch K fresh rs h = (r, h')"
  shows "cfg_path K h h'"
  using assms
proof (cases rule: AddRulesBatch_cases)
  case (1 ad fa h1 succ f2 h2)
  have v: "cs_view h2 = cs_view h1" using stage_items_frame [OF 1(2)] by (simp add: cs_view_def)
  have rb: "cs_view (rollback_items K succ g) = cs_view g" for g using rollback_items_frame [of K succ g] by (simp add: cs_view_def)
  have "cfg_path K h1 h'"
    using 1(3)
  proof (elim disjE conjE exE)
    assume "h' = h2"
    with v show ?thesis by (simp add: cfg_path.frame)
  next
    fix e h3
    assume p: "publishConfigUpdate K (int (length (filter (\<lambda>(p, old). old = None) succ))) 0 0 h2 = (e, h3)"
      and c: "case e of Some x \<Rightarrow> r = BatchPublishFailed x \<and> h' = rollback_items K succ h3 | None \<Rightarrow> (\<exists>n m. r = BatchDone n m) \<and> h' = h3"
    have "cs_view h' = cs_view h3" using c rb by (cases e) auto
    with cfg_path_one [OF v p] show ?thesis by blast
  qed
  from cfg_path_trans [OF this batch_cidr_path [OF 1(1)]] show ?thesis .
qed

lemma DeleteRule_path:
  assumes "DeleteRule K rid h = (r, h')"
  shows "cfg_path K h h'"
  using assms
proof (cases rule: DeleteRule_cases)
  case (exact_failed s)
  then show ?thesis using delete_exact_frame [OF exact_failed(2)] by (intro cfg_path.frame cs_viewI) auto
next
  case (exact s h1 e h2)
  show ?thesis
    by (rule cfg_path_one [OF cs_viewI exact(3) cs_viewI]) (use delete_exact_frame [OF exact(2)] exact(4) in auto)
next
  case (cidr_failed s)
  then show ?thesis using delete_cidr_frame [OF cidr_failed(3)] by (intro cfg_path.frame cs_viewI) auto
next
  case (cidr s h1 e h2)
  show ?thesis
    by (rule cfg_path_one [OF cs_viewI cidr(4) cs_viewI]) (use delete_cidr_frame [OF cidr(3)] cidr(5) in auto)
qed (simp add: cfg_path_refl)

lemma delete_items_cs: "delete_items K ids h = (es, cs, failed, h') \<Longrightarrow> cs_view h' = cs_view h"
proof (induction ids arbitrary: h es cs failed)
  case (Cons rid ids)
  have x: "cs_view g = cs_view h" if "delete_exact K rid s h = (b, g)" for s b g
    using delete_exact_frame [OF that] by (simp add: cs_view_def)
  have y: "cs_view g = cs_view h" if "delete_cidr K rid s h = (b, g)" for s b g
    using delete_cidr_frame [OF that] by (simp add: cs_view_def)
  show ?case
    using Cons.prems Cons.IH x y by (auto split: option.splits prod.splits if_splits)
qed simp

lemma DeleteRulesBatch_path:
  assumes "DeleteRulesBatch K ids h = (r, h')"
  shows "cfg_path K h h'"
  using assms
proof (cases rule: DeleteRulesBatch_cases)
  case (1 es cs failed h1)
  note v = delete_items_cs [OF 1(1)]
  have f: "cs_view (fold forget_pps l g) = cs_view g" for l g
    by (simp add: cs_view_def all_viewsD(4,5) [OF fold_forget_views])
  show ?thesis
  proof (cases "es \<noteq> [] \<or> cs \<noteq> []")
    case True
    with 1(3) obtain e h2 where "publishConfigUpdate K (- int (length es)) 0 (- int (length cs)) h1 = (e, h2)"
      "h' = fold forget_pps (es @ cs) h2" by auto
    with cfg_path_one [OF v] f show ?thesis by blast
  next
    case False
    with 1(3) v show ?thesis by (auto intro: cfg_path.frame)
  qed
qed

section \<open>The whitelist\<close>

lemma wl_cs [simp]:
  "cs_view (wl_take_refs o' k h) = cs_view h" "cs_view (wl_put_memory wid o' k h) = cs_view h"
  "cs_view (wl_undo K o' k h) = cs_view h" "cs_view (drop_whitelist wid k h) = cs_view h"
  "cs_view (restore_whitelist K wid k h) = cs_view h" "cs_view (set_activeWhitelist m h) = cs_view h"
  by (intro cs_not_wl; simp)+

lemma wl_folds_cs [simp]:
  "cs_view (fold take_entry_refs ps h) = cs_view h" "cs_view (fold (undo_entry K) ps h) = cs_view h"
  "cs_view (fold put_entry_memory ps h) = cs_view h"
  "cs_view (fold (\<lambda>(wid, key). restore_whitelist K wid key) ds h) = cs_view h"
  using fold_restore_frame [of K ds h] by (intro cs_not_wl; simp)+

lemma bpf_only_cs: "bpf_only h h' \<Longrightarrow> cs_view h' = cs_view h"
  by (auto simp: bpf_only_def intro: cs_not_wl)

lemma wl_commit_path:
  assumes "wl_commit K wid key h = (r, h')"
  shows "cfg_path K h h'"
  using assms
proof (cases rule: wl_commit_cases)
  case (old wm)
  then show ?thesis by (simp add: cfg_path.frame)
next
  case (publish wm e h3)
  show ?thesis by (rule cfg_path_one [OF _ publish(4)]) (simp_all add: publish(6))
next
  case (insert wm h3 wm2 p)
  have "cfg_path K h h3" by (rule cfg_path_one [OF _ insert(4) refl]) simp
  from cfg_path.publish [OF cfg_path_frame [OF this] insert(6) refl] show ?thesis by simp
next
  case (ok wm h3 wm2)
  show ?thesis by (rule cfg_path_one [OF _ ok(4)]) (simp_all add: ok(6))
qed (simp_all add: cfg_path_refl)

lemma AddWhitelist_path: "AddWhitelist K fresh req h = (r, h') \<Longrightarrow> cfg_path K h h'"
  by (erule AddWhitelist_cases) (auto intro: cfg_path_refl wl_commit_path)

lemma DeleteWhitelist_path:
  assumes "DeleteWhitelist K wid h = (r, h')"
  shows "cfg_path K h h'"
  using assms
proof (cases rule: DeleteWhitelist_cases)
  case (bpf key wm)
  then show ?thesis by (simp add: cfg_path.frame)
next
  case (publish key wm e h2)
  show ?thesis by (rule cfg_path_one [OF _ publish(3)]) (simp_all add: publish(5))
next
  case (ok key wm)
  show ?thesis by (rule cfg_path_one [OF _ ok(3) refl]) simp
qed (simp add: cfg_path_refl)

lemma wl_batch_commit_path:
  assumes "wl_batch_commit K ps h = (r, h')"
  shows "cfg_path K h h'"
  using assms
proof (cases rule: wl_batch_commit_cases)
  case (old w)
  then show ?thesis using delete_olds_frame [OF old(1)] by (auto intro: cfg_path.frame bpf_only_cs)
next
  case (publish h1 e h3)
  have "cs_view h1 = cs_view h" using delete_olds_frame [OF publish(1)] bpf_only_cs by blast
  then show ?thesis by (intro cfg_path_one [OF _ publish(2)]) (simp_all add: publish(4))
next
  case (insert h1 h3 w ins h4 p)
  have v: "cs_view h1 = cs_view h" "cs_view h4 = cs_view h3"
    using delete_olds_frame [OF insert(1)] insert_entries_frame [OF insert(3)] bpf_only_cs by blast+
  have "cfg_path K h h3" by (rule cfg_path_one [OF _ insert(2) refl]) (simp add: v)
  from cfg_path.publish [OF cfg_path_frame [OF this] insert(4) refl] v show ?thesis by simp
next
  case (ok h1 h3 ins h4)
  have v: "cs_view h1 = cs_view h" "cs_view h4 = cs_view h3"
    using delete_olds_frame [OF ok(1)] insert_entries_frame [OF ok(3)] bpf_only_cs by blast+
  show ?thesis by (rule cfg_path_one [OF _ ok(2)]) (simp_all add: v ok(5))
qed

lemma AddWhitelistBatch_path: "AddWhitelistBatch K fresh es h = (r, h') \<Longrightarrow> cfg_path K h h'"
  by (erule AddWhitelistBatch_cases) (auto intro: cfg_path_refl wl_batch_commit_path)

lemma delete_entries_cs: "delete_entries K ids h = (ds, failed, h') \<Longrightarrow> cs_view h' = cs_view h"
proof (induction ids arbitrary: h ds failed)
  case (Cons wid ids)
  from Cons.prems show ?case
  proof (cases rule: delete_entries_cases)
    case (skip h1 f1)
    then show ?thesis using Cons.IH [OF skip(2)] by auto
  next
    case (ok key wm ds1)
    then show ?thesis using Cons.IH [OF ok(3)] by simp
  qed
qed simp

lemma DeleteWhitelistBatch_path:
  assumes "DeleteWhitelistBatch K ids h = (r, h')"
  shows "cfg_path K h h'"
  using assms
proof (cases rule: DeleteWhitelistBatch_cases)
  case (none failed)
  then show ?thesis by (auto intro: cfg_path.frame delete_entries_cs)
next
  case (publish ds failed h1 e h2)
  show ?thesis by (rule cfg_path_one [OF delete_entries_cs [OF publish(1)] publish(2)]) (simp add: publish(4))
next
  case (ok ds failed h1)
  show ?thesis by (rule cfg_path_one [OF delete_entries_cs [OF ok(1)] ok(2) refl])
qed

lemma clear_entries_cs: "clear_entries K es n h = (x, h') \<Longrightarrow> cs_view h' = cs_view h"
proof (induction es arbitrary: n h)
  case (Cons e es)
  obtain wid key where e: "e = (wid, key)" by force
  obtain b wm where d: "Delete (hash K) (activeWhitelist h) (ruleKeyToBytes key) = (b, wm)" by force
  show ?case using Cons.prems Cons.IH [of "n + 1" "drop_whitelist wid key (set_activeWhitelist wm h)"] d
    by (cases b) (auto simp: e)
qed simp

lemma ClearAllWhitelistFromSync_path:
  assumes "ClearAllWhitelistFromSync K h = (r, h')"
  shows "cfg_path K h h'"
  using assms
proof (cases rule: ClearAllWhitelistFromSync_cases)
  case (stopped wid n h1)
  then show ?thesis
    using clear_entries_cs [OF stopped(1)] cfg_path_one [of h1 h K 0 "- int n" 0] by (auto intro: cfg_path.frame split: if_splits)
next
  case (cleared n h1)
  have "cs_view (h1\<lparr>wlComboRefCount := zero64\<rparr>) = cs_view h1" by (rule cs_not_wl) simp_all
  then have v: "cs_view (h1\<lparr>wlComboRefCount := zero64\<rparr>) = cs_view h" using clear_entries_cs [OF cleared(1)] by simp
  then show ?thesis using cleared(2) cfg_path_one [OF v, of K 0 "- int n" 0] by (auto intro: cfg_path.frame split: if_splits)
qed

end
