(* ===== verification/AgentSteps.thy ===== *)
theory AgentSteps
  imports Selectors
begin

text \<open>
  The agent as a state machine: its initial state is what \<^verbatim>\<open>NewHandlers\<close> returns, its steps are the
  API operations, each with whatever errors the kernel maps produce on the way. The invariant
  (consistent tables, held CIDR IDs, covered bitmaps, selectors in agreement) holds in every reachable
  state, and on reliable hash maps the active maps mirror the tables.
\<close>

section \<open>Steps\<close>

text \<open>
  The side conditions: the counter of the CIDR IDs has room for what the operation may allocate; the
  IDs of a full sync are distinct; the copy of the configuration in a sync went through; and the three
  rollbacks the code leaves incomplete are not taken (a failed publish of a batch that hands a key from
  one rule to another, a failed second publish after a failed whitelist insertion).
\<close>

inductive agent_step :: "('m, 'c, 't) kernel \<Rightarrow> ('m, 'c, 't) Handlers \<Rightarrow> ('m, 'c, 't) Handlers \<Rightarrow> bool" for K where
  add: "room 2 (cidrMgr h) \<Longrightarrow> AddRule K fresh req h = (r, h') \<Longrightarrow> agent_step K h h'"
| add_sync: "room 2 (cidrMgr h) \<Longrightarrow> AddRuleFromSync K fresh rule h = (r, h') \<Longrightarrow> agent_step K h h'"
| add_batch: "room (2 * length (filter is_cidr rs)) (cidrMgr h) \<Longrightarrow> AddRulesBatch K uuids rs h = (rb, h') \<Longrightarrow>
    (\<forall>e. rb = BatchPublishFailed e \<longrightarrow> no_handover (batch_prepared uuids rs) (map_of (rules h))) \<Longrightarrow> agent_step K h h'"
| delete: "DeleteRule K rid h = (rd, h') \<Longrightarrow> agent_step K h h'"
| delete_batch: "DeleteRulesBatch K ids h = (rdb, h') \<Longrightarrow> agent_step K h h'"
| wl_add: "AddWhitelist K fresh entry h = (rw, h') \<Longrightarrow> (\<forall>e. rw \<noteq> WLDone (WLInsertFailed (Some e))) \<Longrightarrow> agent_step K h h'"
| wl_add_sync: "AddWhitelistFromSync K fresh sentry h = (rw, h') \<Longrightarrow> (\<forall>e. rw \<noteq> WLDone (WLInsertFailed (Some e))) \<Longrightarrow>
    agent_step K h h'"
| wl_add_batch: "AddWhitelistBatch K uuids entries h = (rwb, h') \<Longrightarrow> (\<forall>w. rwb \<noteq> WLBatchInsertFailed w) \<Longrightarrow> agent_step K h h'"
| wl_delete: "DeleteWhitelist K wid h = (rwd, h') \<Longrightarrow> agent_step K h h'"
| wl_delete_batch: "DeleteWhitelistBatch K ids h = (rwdb, h') \<Longrightarrow> agent_step K h h'"
| sync: "room (2 * length rs) (cidrMgr h) \<Longrightarrow> distinct (sync_ids uuids 0 rs) \<Longrightarrow> sync_copied K h \<Longrightarrow>
    DoAtomicSync K uuids rs h = (rs', h') \<Longrightarrow> agent_step K h h'"
| wl_sync: "DoWhitelistAtomicSync K sentries h = (rws, h') \<Longrightarrow> agent_step K h h'"
| wl_clear: "ClearAllWhitelistFromSync K h = (rwc, h') \<Longrightarrow> agent_step K h h'"

definition agent_inv :: "('c \<Rightarrow> bytes \<Rightarrow> bytes) \<Rightarrow> ('m, 'c, 't) Handlers \<Rightarrow> bool" where
  "agent_inv get h \<longleftrightarrow> agent_ok get h \<and> sel_ok get h"

lemma agent_invD:
  assumes "agent_inv get h"
  shows "agent_ok get h" "sel_ok get h" "tables_ok h" "slot_ok get h" "covers get h" "cfg_ok get h"
  using assms by (simp_all add: agent_inv_def agent_ok_def cfg_ok_def)

text \<open>What a step keeps: the invariant and the entries of the operator.\<close>

definition keeps :: "('c \<Rightarrow> bytes \<Rightarrow> bytes) \<Rightarrow> ('m, 'c, 't) Handlers \<Rightarrow> ('m, 'c, 't) Handlers \<Rightarrow> bool" where
  "keeps get h h' \<longleftrightarrow> agent_inv get h' \<and> (\<forall>j \<in> operator_entries. published get h' j = published get h j)"

lemma keepsI:
  assumes "tables_ok h'" "slot_ok get h'" "covers get h'" "sel_ok get h'"
    and "\<And>j. j \<in> operator_entries \<Longrightarrow> published get h' j = published get h j"
  shows "keeps get h h'"
  using assms by (simp add: keeps_def agent_inv_def agent_ok_def)

lemma operator_entry: "j \<in> operator_entries \<Longrightarrow> j < 12 \<and> j \<notin> rule_entries \<and> j \<notin> {1, 3, 8}"
  by (auto simp: operator_entries_def rule_entries_def)

lemma keeps_path:
  assumes "array_laws (arr K) get" "agent_inv get h" "cfg_path K h h'" "agent_ok get h'"
  shows "keeps get h h'"
  using cfg_path_ok [OF assms(1,3) agent_invD(6) [OF assms(2)]] assms(4)
  by (simp add: keeps_def agent_inv_def cfg_ok_def)

lemma keeps_unchanged:
  assumes i: "agent_inv get h" and u: "unchanged get h h'" and t: "tables_ok h'"
  shows "keeps get h h'"
proof -
  note U = unchangedD [OF u] and I = agent_invD [OF i]
  have s: "activeRuleSlot h' = activeRuleSlot h" "activeWLSlot h' = activeWLSlot h" using U(6) by (simp_all add: slots_view_def)
  have "bitmaps_le h' h" by (rule bitmaps_le_views) (use U in simp_all)
  with covers_mono [OF I(5), of h'] U(2) have "covers get h'" by simp
  moreover have "sel_ok get h'" using I(2) s U(2) by (simp add: sel_ok_def)
  moreover have "published get h' j = published get h j" if "j \<in> operator_entries" for j
    using U(2) operator_entry [OF that] by blast
  ultimately show ?thesis by (intro keepsI [OF t U(1)])
qed

lemma DoAtomicSync_keeps:
  fixes h h' :: "('m, 'c, 't) Handlers"
  assumes H: "hash_laws (hash K) get" and A: "array_laws (arr K) geta" and i: "agent_inv geta h"
    and d: "distinct (sync_ids uuids 0 rs)" and rm: "room (2 * length rs) (cidrMgr h)" and cp: "sync_copied K h"
    and s: "DoAtomicSync K uuids rs h = (r, h')"
  shows "keeps geta h h'"
proof -
  note I = agent_invD [OF i]
  have rsl: "activeRuleSlot h = 0 \<or> activeRuleSlot h = 1" using sel_okD(1) [OF I(2)] .
  obtain r1 e where r: "r = (r1, e)" by force
  show ?thesis
  proof (cases e)
    case (Some x)
    with DoAtomicSync_failed [OF H A I(4,3) d rm, of r1 x h'] s r keeps_unchanged [OF i, of h'] show ?thesis by blast
  next
    case None
    with s r have s': "DoAtomicSync K uuids rs h = ((r1, None), h')" by simp
    note D = DoAtomicSync_done [OF H A I(4,3) rsl d rm s']
    have w: "wl_view h' = wl_view h" "slots_view h' = (1 - activeRuleSlot h, activeWLSlot h)"
      using D(4) unfolding synced_def by blast+
    have p: "published geta h' j = published geta h j" if "j < 12" "j \<notin> rule_entries" for j using D(6) that cp by blast
    have p3: "published geta h' 3 = published geta h 3" and p8: "published geta h' 8 = published geta h 8"
      by (rule p; simp add: rule_entries_def)+
    have c: "covers geta h'"
      using D(5) p3 I(5) w(1) by (simp add: covers_def rules_published_def wl_view_def)
    have "sel_ok geta h'"
      using D(5) p8 sel_okD [OF I(2)] w(2) by (auto simp: sel_ok_def rules_published_def slots_view_def)
    moreover have "published geta h' j = published geta h j" if "j \<in> operator_entries" for j
      using p operator_entry [OF that] by blast
    ultimately show ?thesis by (rule keepsI [OF D(2,1) c])
  qed
qed

lemma DoWhitelistAtomicSync_keeps:
  fixes h h' :: "('m, 'c, 't) Handlers"
  assumes H: "hash_laws (hash K) get" and A: "array_laws (arr K) geta" and i: "agent_inv geta h"
    and s: "DoWhitelistAtomicSync K entries h = (r, h')"
  shows "keeps geta h h'"
proof -
  note I = agent_invD [OF i] and S = sel_okD [OF agent_invD(2) [OF i]]
  note T = tables_okD [OF I(3)]
  show ?thesis
  proof (cases r)
    case (Some e)
    then have u: "unchanged geta h h' \<and> cidrMgr h' = cidrMgr h" using DoWhitelistAtomicSync_failed [OF A I(4)] s by blast
    note U = unchangedD [OF conjunct1 [OF u]]
    have "tables_ok h'" using tables_ok_views [OF U(3,4,5)] u I(3) by simp
    with keeps_unchanged [OF i] u show ?thesis by blast
  next
    case None
    with s have d: "DoWhitelistAtomicSync K entries h = (None, h')" by simp
    show ?thesis
    proof (rule DoWhitelistAtomicSync_done [OF H A I(4) S(2) d])
      fix items assume
        D: "wl_inv h'" "not_wl_views (h'\<lparr>activeWLSlot := activeWLSlot h\<rparr>) = not_wl_views h" "activeWLSlot h' = 1 - activeWLSlot h"
          "slot_ok geta h'" and P: "\<forall>j < 12. published geta h' j = intended_wl_entry h' (of_nat (length items)) (wlComboRefCount h') (published geta h) j"
      have v: "exact_view h' = exact_view h" "cidr_view h' = cidr_view h" "cidrMgr h' = cidrMgr h" "activeRuleSlot h' = activeRuleSlot h"
        using D(2) by (simp_all add: not_wl_views_def view_defs)
      have t: "tables_ok h'"
        using T exact_inv_view [OF v(1)] cidr_inv_view [OF v(2)] ids_ok_view [OF v(2,3)] D(1) by (simp add: tables_ok_def)
      have c: "covers geta h'" using P I(5) v(1,2) by (simp add: covers_def intended_wl_entry_def view_defs)
      have "sel_ok geta h'" using P S v(4) D(3) by (auto simp: sel_ok_def intended_wl_entry_def)
      moreover have "published geta h' j = published geta h j" if "j \<in> operator_entries" for j
        using P operator_entry [OF that] by (simp add: intended_wl_entry_def)
      ultimately show ?thesis by (rule keepsI [OF t D(4) c])
    qed
  qed
qed

lemma agent_step_keeps:
  fixes h h' :: "('m, 'c, 't) Handlers"
  assumes H: "hash_laws (hash K) get" and A: "array_laws (arr K) geta" and s: "agent_step K h h'" and i: "agent_inv geta h"
  shows "keeps geta h h'"
  using s
proof cases
  case (add fresh req r)
  note e = AddRule_effect [OF add(2)]
  from keeps_path [OF A i add_effect_path [OF e] add_effect_ok [OF A agent_invD(1) [OF i] add(1) e]] show ?thesis .
next
  case (add_sync fresh rule r)
  note e = AddRuleFromSync_effect [OF add_sync(2)]
  from keeps_path [OF A i add_effect_path [OF e] add_effect_ok [OF A agent_invD(1) [OF i] add_sync(1) e]] show ?thesis .
next
  case (add_batch rs uuids rb)
  from AddRulesBatch_ok [OF A agent_invD(1) [OF i] add_batch] keeps_path [OF A i AddRulesBatch_path [OF add_batch(2)]] show ?thesis by blast
next
  case (delete rid rd)
  from keeps_path [OF A i DeleteRule_path [OF delete] DeleteRule_ok [OF A agent_invD(1) [OF i] delete]] show ?thesis .
next
  case (delete_batch ids rdb)
  from keeps_path [OF A i DeleteRulesBatch_path [OF delete_batch] DeleteRulesBatch_ok [OF A agent_invD(1) [OF i] delete_batch]] show ?thesis .
next
  case (wl_add fresh entry rw)
  from keeps_path [OF A i AddWhitelist_path [OF wl_add(1)] AddWhitelist_ok [OF A agent_invD(1) [OF i] wl_add]] show ?thesis .
next
  case (wl_add_sync fresh sentry rw)
  note a = wl_add_sync(1) [unfolded AddWhitelistFromSync_is]
  from keeps_path [OF A i AddWhitelist_path [OF a] AddWhitelist_ok [OF A agent_invD(1) [OF i] a wl_add_sync(2)]] show ?thesis .
next
  case (wl_add_batch uuids entries rwb)
  from keeps_path [OF A i AddWhitelistBatch_path [OF wl_add_batch(1)] AddWhitelistBatch_ok [OF A agent_invD(1) [OF i] wl_add_batch]] show ?thesis .
next
  case (wl_delete wid rwd)
  from keeps_path [OF A i DeleteWhitelist_path [OF wl_delete] DeleteWhitelist_ok [OF A agent_invD(1) [OF i] wl_delete]] show ?thesis .
next
  case (wl_delete_batch ids rwdb)
  from keeps_path [OF A i DeleteWhitelistBatch_path [OF wl_delete_batch] DeleteWhitelistBatch_ok [OF A agent_invD(1) [OF i] wl_delete_batch]]
  show ?thesis .
next
  case (sync rs uuids rs')
  from DoAtomicSync_keeps [OF H A i sync(2,1,3,4)] show ?thesis .
next
  case (wl_sync sentries rws)
  from DoWhitelistAtomicSync_keeps [OF H A i wl_sync] show ?thesis .
next
  case (wl_clear rwc)
  from keeps_path [OF A i ClearAllWhitelistFromSync_path [OF wl_clear] ClearAllWhitelistFromSync_ok(1) [OF A agent_invD(1) [OF i] wl_clear]]
  show ?thesis .
qed

section \<open>The mirror\<close>

lemma DoAtomicSync_mirror:
  fixes h h' :: "('m, 'c, 't) Handlers"
  assumes R: "hash_reliable (hash K) get" and A: "array_laws (arr K) geta" and i: "agent_inv geta h" and m: "agent_mirror get h"
    and d: "distinct (sync_ids uuids 0 rs)" and rm: "room (2 * length rs) (cidrMgr h)" and s: "DoAtomicSync K uuids rs h = (r, h')"
  shows "agent_mirror get h'"
proof -
  note H = hash_reliableD(1) [OF R] and I = agent_invD [OF i]
  obtain r1 e where r: "r = (r1, e)" by force
  show ?thesis
  proof (cases e)
    case (Some x)
    then have u: "unchanged geta h h'" using DoAtomicSync_failed [OF H A I(4,3) d rm, of r1 x h'] s r by blast
    have "agent_mirror get h' = agent_mirror get h" by (rule mirror_views) (use unchangedD [OF u] in simp_all)
    with m show ?thesis by simp
  next
    case None
    with s r have s': "DoAtomicSync K uuids rs h = ((r1, None), h')" by simp
    note D = DoAtomicSync_done [OF H A I(4,3) sel_okD(1) [OF I(2)] d rm s']
    have "wl_view h' = wl_view h" "activeWhitelist h' = activeWhitelist h" using D(4) unfolding synced_def by blast+
    then show ?thesis
      using D(7) clear_shadows_empty [OF R] mirror_frame(3) [of h' h get] m by (simp add: agent_mirror_def)
  qed
qed

lemma wl_slot_views [simp]:
  "exact_view (h\<lparr>activeWLSlot := x\<rparr>) = exact_view h" "cidr_view (h\<lparr>activeWLSlot := x\<rparr>) = cidr_view h"
  "activeBlacklist (h\<lparr>activeWLSlot := x\<rparr>) = activeBlacklist h"
  "activeCidrBlacklist (h\<lparr>activeWLSlot := x\<rparr>) = activeCidrBlacklist h"
  by (auto simp: view_defs map_defs)

lemma DoWhitelistAtomicSync_mirror:
  fixes h h' :: "('m, 'c, 't) Handlers"
  assumes H: "hash_laws (hash K) get" and A: "array_laws (arr K) geta" and i: "agent_inv geta h" and m: "agent_mirror get h"
    and s: "DoWhitelistAtomicSync K entries h = (r, h')"
  shows "agent_mirror get h'"
proof (cases r)
  case (Some e)
  then have u: "unchanged geta h h'" using DoWhitelistAtomicSync_failed [OF A agent_invD(4) [OF i]] s by blast
  have "agent_mirror get h' = agent_mirror get h" by (rule mirror_views) (use unchangedD [OF u] in simp_all)
  with m show ?thesis by simp
next
  case None
  with s have d: "DoWhitelistAtomicSync K entries h = (None, h')" by simp
  show ?thesis
  proof (rule DoWhitelistAtomicSync_done [OF H A agent_invD(4) [OF i] sel_okD(2) [OF agent_invD(2) [OF i]] d])
    fix items assume D: "wl_mirror get h'" "not_wl_views (h'\<lparr>activeWLSlot := activeWLSlot h\<rparr>) = not_wl_views h"
    have v: "exact_view h' = exact_view h" "cidr_view h' = cidr_view h" "activeBlacklist h' = activeBlacklist h"
      "activeCidrBlacklist h' = activeCidrBlacklist h"
      using not_wlD [OF D(2)] by simp_all
    show ?thesis
      using m D(1) mirror_frame(1) [OF v(1,3)] mirror_frame(2) [OF v(2,4)] by (simp add: agent_mirror_def)
  qed
qed

lemma ClearAllWhitelistFromSync_mirror:
  fixes h h' :: "('m, 'c, 't) Handlers"
  assumes R: "hash_reliable (hash K) get" and A: "array_laws (arr K) geta" and ok: "agent_ok geta h" and m: "agent_mirror get h"
    and c: "ClearAllWhitelistFromSync K h = (r, h')"
  shows "agent_mirror get h'"
proof -
  have "wl_mirror get h" using m by (simp add: agent_mirror_def)
  from ClearAllWhitelistFromSync_ok(4) [OF A ok c R this] wl_mirror_step [OF m _ ClearAllWhitelistFromSync_ok(2) [OF A ok c]]
  show ?thesis by blast
qed

lemma agent_step_mirror:
  fixes h h' :: "('m, 'c, 't) Handlers"
  assumes R: "hash_reliable (hash K) get" and A: "array_laws (arr K) geta" and s: "agent_step K h h'"
    and i: "agent_inv geta h" and m: "agent_mirror get h"
  shows "agent_mirror get h'"
  using s
proof cases
  note I = agent_invD [OF i]
  {
    case (add fresh req r)
    from add_effect_mirror [OF R I(3) m AddRule_effect [OF add(2)]] show ?thesis .
  next
    case (add_sync fresh rule r)
    from add_effect_mirror [OF R I(3) m AddRuleFromSync_effect [OF add_sync(2)]] show ?thesis .
  next
    case (add_batch rs uuids rb)
    from AddRulesBatch_mirror [OF A R I(1) m add_batch] show ?thesis .
  next
    case (delete rid rd)
    from DeleteRule_mirror [OF R I(3) m delete] show ?thesis by blast
  next
    case (delete_batch ids rdb)
    from DeleteRulesBatch_mirror [OF R I(3) m delete_batch] show ?thesis .
  next
    case (wl_add fresh entry rw)
    from AddWhitelist_mirror [OF R I(3) m wl_add(1)] show ?thesis by blast
  next
    case (wl_add_sync fresh sentry rw)
    from AddWhitelist_mirror [OF R I(3) m wl_add_sync(1) [unfolded AddWhitelistFromSync_is]] show ?thesis by blast
  next
    case (wl_add_batch uuids entries rwb)
    from AddWhitelistBatch_mirror [OF R I(3) m wl_add_batch(1)] show ?thesis .
  next
    case (wl_delete wid rwd)
    from DeleteWhitelist_mirror_all [OF R I(3) m wl_delete] show ?thesis .
  next
    case (wl_delete_batch ids rwdb)
    from DeleteWhitelistBatch_mirror [OF R I(3) m wl_delete_batch] show ?thesis .
  next
    case (sync rs uuids rs')
    from DoAtomicSync_mirror [OF R A i m sync(2,1,4)] show ?thesis .
  next
    case (wl_sync sentries rws)
    from DoWhitelistAtomicSync_mirror [OF hash_reliableD(1) [OF R] A i m wl_sync] show ?thesis .
  next
    case (wl_clear rwc)
    from ClearAllWhitelistFromSync_mirror [OF R A I(1) m wl_clear] show ?thesis .
  }
qed

section \<open>The initial state\<close>

lemma init_indices_ok:
  assumes A: "array_laws A get"
  shows "init_indices A is c = (None, c') \<Longrightarrow> list_all (\<lambda>i. i < 12) is \<Longrightarrow> j < 12 \<Longrightarrow>
    cfg_get get c' j = (if j \<in> set is then 0 else cfg_get get c j)"
proof (induction "is" arbitrary: c)
  case (Cons i "is")
  obtain c1 where p: "cfg_put A i 0 c = (None, c1)" "init_indices A is c1 = (None, c')"
    using Cons.prems(1) by (auto simp: and_then_None)
  have "cfg_get get c1 j = (if j = i then 0 else cfg_get get c j)" using cfg_put_ok [OF A p(1)] Cons.prems(2,3) by simp
  with Cons.IH [OF p(2)] Cons.prems(2,3) show ?case by auto
qed simp

lemma initDynamicConfig_ok:
  assumes "array_laws A get" "initDynamicConfig A c = (None, c')" "j < 12"
  shows "cfg_get get c' j = 0"
proof -
  have "j \<in> set [0, 1, 2, 3, 4, 5, 6, 7, 8, 9, 10, 11::nat]" using assms(3) by (simp add: numeral_eq_Suc less_Suc_eq)
  then show ?thesis
    using init_indices_ok [OF assms(1) assms(2) [unfolded initDynamicConfig_def] _ assms(3)] by auto
qed

text \<open>The state the agent starts in: everything empty, both arrays zero, slot 0 active.\<close>

lemma NewHandlers_fields:
  assumes "NewHandlers K init = Some h"
  obtains ca cb ac where "initDynamicConfig (arr K) (configA init) = (None, ca)" "initDynamicConfig (arr K) (configB init) = (None, cb)"
    "UpdateExist (arr K) (activeConfig init) (le32 0) (le64 0) = (True, ac)"
    "h = init\<lparr>configA := ca, configB := cb, activeConfig := ac, activeSlot := 0, activeRuleSlot := 0, activeWLSlot := 0,
       wlComboRefCount := zero64, rules := [], ruleKeyIndex := [], wlEntries := [], wlKeyIndex := [], lastRuleDropCount := [],
       lastRuleStatsTime := [], comboRefCount := zero64, cidrRules := [], cidrRuleKeyIndex := [], cidrComboRefCount := zero64\<rparr>"
  using assms by (auto simp: NewHandlers_def split: prod.splits option.splits bool.splits)

lemma new_manager_holds: "mgr_holds (NewManager a b c d) [] [] [] (\<lambda>_. 0) (\<lambda>_. 0)"
  by (auto simp: mgr_holds_def holds_def mgr_inv_def ids_inj_def id_at_def getSrcMaps_def getDstMaps_def NewManager_def table_ok_def src_refs_def dst_refs_def ref_at_def
      GetSrcID_def GetDstID_def count_if_def split: if_splits)

lemma NewHandlers_inv:
  assumes A: "array_laws (arr K) get" and n: "NewHandlers K init = Some h" and m: "cidrMgr init = NewManager a b c d"
  shows "agent_inv get h \<and> (\<forall>j < ConfigMapEntries. published get h j = 0)"
proof -
  from n obtain ca cb ac where ca: "initDynamicConfig (arr K) (configA init) = (None, ca)"
    and ac: "UpdateExist (arr K) (activeConfig init) (le32 0) (le64 0) = (True, ac)"
    and h: "h = init\<lparr>configA := ca, configB := cb, activeConfig := ac, activeSlot := 0, activeRuleSlot := 0, activeWLSlot := 0,
       wlComboRefCount := zero64, rules := [], ruleKeyIndex := [], wlEntries := [], wlKeyIndex := [], lastRuleDropCount := [],
       lastRuleStatsTime := [], comboRefCount := zero64, cidrRules := [], cidrRuleKeyIndex := [], cidrComboRefCount := zero64\<rparr>"
    by (rule NewHandlers_fields)
  have p: "published get h j = 0" if "j < 12" for j
    using initDynamicConfig_ok [OF A ca that] by (simp add: published_def activeMap_def h)
  have "get ac = (get (activeConfig init))(le32 0 := le64 0)" using array_lawsD(1) [OF A ac] .
  then have sl: "slot_ok get h" by (simp add: slot_ok_def cfg_get_def h)
  have "mgr_holds (cidrMgr h) (cidrRules h) [] [] (\<lambda>_. 0) (\<lambda>_. 0)" using new_manager_holds [of a b c d] by (simp add: h m)
  then have "ids_ok h" by (auto simp: ids_ok_def)
  then have "tables_ok h" by (simp add: tables_ok_def exact_inv_def cidr_inv_def wl_inv_def tbl_inv_empty h)
  moreover have "bit (combo_bitmap zero64) i \<longleftrightarrow> False" for i
    using tbl_bitmap [OF tbl_inv_empty, of i] by simp
  then have "covers get h" by (simp add: covers_def h)
  moreover have "sel_ok get h" using p by (simp add: sel_ok_def h)
  ultimately show ?thesis using p sl by (simp add: agent_inv_def agent_ok_def)
qed

lemma NewHandlers_mirror:
  assumes "NewHandlers K init = Some h" "get (blacklist init) = Map.empty" "get (cidrBlacklist init) = Map.empty"
    "get (whitelist init) = Map.empty"
  shows "agent_mirror get h"
  by (rule NewHandlers_fields [OF assms(1)])
    (use assms(2-4) in \<open>simp add: agent_mirror_def exact_mirror_def cidr_mirror_def wl_mirror_def image_of_def map_defs\<close>)

section \<open>Reachable states\<close>

inductive agent_reachable :: "('m, 'c, 't) kernel \<Rightarrow> ('m, 'c, 't) Handlers \<Rightarrow> ('m, 'c, 't) Handlers \<Rightarrow> bool" for K h0 where
  start: "agent_reachable K h0 h0"
| step: "agent_reachable K h0 h \<Longrightarrow> agent_step K h h' \<Longrightarrow> agent_reachable K h0 h'"

lemma agent_reachable_keeps:
  fixes h0 h :: "('m, 'c, 't) Handlers"
  assumes H: "hash_laws (hash K) get" and A: "array_laws (arr K) geta" and r: "agent_reachable K h0 h" and i: "agent_inv geta h0"
  shows "keeps geta h0 h"
  using r
proof (induction rule: agent_reachable.induct)
  case start
  then show ?case using i by (simp add: keeps_def)
next
  case (step h h')
  have "agent_inv geta h" using step.IH by (simp add: keeps_def)
  from agent_step_keeps [OF H A step.hyps(2) this] step.IH show ?case by (simp add: keeps_def)
qed

lemma agent_reachable_mirror:
  fixes h0 h :: "('m, 'c, 't) Handlers"
  assumes R: "hash_reliable (hash K) get" and A: "array_laws (arr K) geta" and r: "agent_reachable K h0 h"
    and i: "agent_inv geta h0" and m: "agent_mirror get h0"
  shows "agent_mirror get h"
  using r
proof (induction rule: agent_reachable.induct)
  case (step h h')
  have "agent_inv geta h" using agent_reachable_keeps [OF hash_reliableD(1) [OF R] A step.hyps(1) i] by (simp add: keeps_def)
  from agent_step_mirror [OF R A step.hyps(2) this step.IH] show ?case .
qed (rule m)

end
