(* ===== verification/AgentIds.thy ===== *)
theory AgentIds
  imports AgentSteps
begin

text \<open>
  The CIDR IDs under every operation: when the kernel's tries are reliable, no operation leaks a
  reference. In every reachable state the manager counts for each prefix exactly the rules that name
  it, whatever failed on the way there.
\<close>

lemma ids_tight_view: "cidr_view h' = cidr_view h \<Longrightarrow> cidrMgr h' = cidrMgr h \<Longrightarrow> ids_tight tw h' = ids_tight tw h"
  using view_fields(2) [of h' h] by (simp add: ids_tight_def)

lemma ids_tight_not_wl: "not_wl_views h' = not_wl_views h \<Longrightarrow> ids_tight tw h' = ids_tight tw h"
  using ids_tight_view not_wlD by blast

lemma add_effect_tight:
  assumes t: "tables_ok h" and n: "room 2 (cidrMgr h)" and e: "add_effect K rid h r h'" and i: "ids_tight (trie K) h"
  shows "ids_tight (trie K) h'"
  using e
proof (cases rule: add_effect_cases)
  case (exact s vl r1)
  then show ?thesis using rule_commit_frame [OF exact(2)] ids_tight_view [of h' h] i by simp
next
  case (cidr req a b vl)
  have c: "a = [] \<or> normal_cidr a" "b = [] \<or> normal_cidr b" using cidr(1) by (auto simp: cidr_request_def)
  have h: "mgr_holds (cidrMgr h) (cidrRules h) [] [] (\<lambda>_. 0) (\<lambda>_. 0)" and st: "steady (trie K) (cidrMgr h)"
    using i by (auto simp: ids_tight_def)
  from cidr_alloc_commit_step [OF tables_okD(2) [OF t] h n c cidr(2)] st show ?thesis
    unfolding ids_tight_def by blast
qed (use i in simp)

lemma batch_cidr_tight:
  assumes A: "array_laws (arr K) get"
  shows "agent_ok get h \<Longrightarrow> room (2 * length rs) (cidrMgr h) \<Longrightarrow> ids_tight (trie K) h \<Longrightarrow>
    batch_cidr K fresh n rs ad fa h = (ad', fa', h') \<Longrightarrow> ids_tight (trie K) h'"
proof (induction rs arbitrary: h n ad fa)
  case (Cons r rs)
  obtain rp h1 n1 a1 f1 where s: "addCIDRRuleFromSync K (fresh n) (ruleToSyncRule r) h = (rp, h1)"
    "batch_cidr K fresh n1 rs a1 f1 h1 = (ad', fa', h')" by (rule batch_cidr_step [OF Cons.prems(4)])
  note e = addCIDRRuleFromSync_effect [OF s(1)]
  have n: "room (Suc (Suc (2 * length rs))) (cidrMgr h)" using Cons.prems(2) by simp
  have n2: "room 2 (cidrMgr h)" using room_mono [OF n, of 2] by simp
  have t: "tables_ok h" using Cons.prems(1) by (simp add: agent_ok_def)
  from Cons.IH [OF add_effect_ok [OF A Cons.prems(1) n2 e] add_effect_room [OF n e] add_effect_tight [OF t n2 e Cons.prems(3)] s(2)]
  show ?case .
qed simp

lemma AddRulesBatch_tight:
  assumes A: "array_laws (arr K) get" and ok: "agent_ok get h" and n: "room (2 * length (filter is_cidr rs)) (cidrMgr h)"
    and i: "ids_tight (trie K) h" and b: "AddRulesBatch K fresh rs h = (r, h')"
  shows "ids_tight (trie K) h'"
  using b
proof (cases rule: AddRulesBatch_cases)
  case (1 ad fa h1 succ f2 h2)
  note t1 = batch_cidr_tight [OF A ok n i 1(1)] and f2 = stage_items_frame [OF 1(2)]
  have "cidr_view h' = cidr_view h2 \<and> cidrMgr h' = cidrMgr h2"
    using 1(3)
  proof (elim disjE conjE exE)
    fix e h3
    assume p: "publishConfigUpdate K (int (length (filter (\<lambda>(p, old). old = None) succ))) 0 0 h2 = (e, h3)"
      and c: "case e of Some x \<Rightarrow> r = BatchPublishFailed x \<and> h' = rollback_items K succ h3 | None \<Rightarrow> (\<exists>n m. r = BatchDone n m) \<and> h' = h3"
    show ?thesis using c publish_views(2,5) [OF p] rollback_items_frame [of K succ h3] by (cases e) auto
  qed simp
  with ids_tight_view [of h' h1] f2 t1 show ?thesis by simp
qed

lemma delete_exact_tight: "delete_exact K rid s h = (b, h') \<Longrightarrow> ids_tight tw h' = ids_tight tw h"
  using delete_exact_frame [of K rid s h b h'] ids_tight_view [of h' h] by blast

lemma delete_cidr_tight:
  assumes "map_of (cidrRules h) rid = Some s" "ids_tight (trie K) h" "delete_cidr K rid s h = (b, h')"
  shows "ids_tight (trie K) h'"
  using delete_cidr_holds [OF assms(1) _ assms(3), of "\<lambda>_. 0" "\<lambda>_. 0"] assms(2) unfolding ids_tight_def by blast

lemma publish_tight: "publishConfigUpdate K d wd cd g = (e, g') \<Longrightarrow> ids_tight tw g' = ids_tight tw g"
  using publish_views(2,5) [of K d wd cd g e g'] ids_tight_view [of g' g] by blast

lemma forget_tight [simp]: "ids_tight tw (forget_pps rid h) = ids_tight tw h"
  by (rule ids_tight_view) simp_all

lemma DeleteRule_tight:
  assumes i: "ids_tight (trie K) h" and d: "DeleteRule K rid h = (r, h')"
  shows "ids_tight (trie K) h'"
  using d
proof (cases rule: DeleteRule_cases)
  case (exact_failed s)
  then show ?thesis using delete_exact_tight i by blast
next
  case (exact s h1 e h2)
  then show ?thesis using delete_exact_tight [OF exact(2)] publish_tight [OF exact(3)] i by simp
next
  case (cidr_failed s)
  then show ?thesis using delete_cidr_tight i by blast
next
  case (cidr s h1 e h2)
  then show ?thesis using delete_cidr_tight [OF cidr(2) i cidr(3)] publish_tight [OF cidr(4)] by simp
qed (use i in simp)

lemma delete_items_tight:
  "ids_tight (trie K) h \<Longrightarrow> delete_items K ids h = (es, cs, failed, h') \<Longrightarrow> ids_tight (trie K) h'"
proof (induction ids arbitrary: h es cs failed)
  case (Cons rid ids)
  have x: "ids_tight (trie K) g" if "delete_exact K rid s h = (b, g)" for s b g
    using delete_exact_tight [OF that] Cons.prems(1) by blast
  have y: "ids_tight (trie K) g" if "map_of (cidrRules h) rid = Some s" "delete_cidr K rid s h = (b, g)" for s b g
    using delete_cidr_tight [OF that(1) Cons.prems(1) that(2)] .
  have "\<exists>h1 es1 cs1 f1. delete_items K ids h1 = (es1, cs1, f1, h') \<and> (h1 = h \<or> (\<exists>s b. delete_exact K rid s h = (b, h1)) \<or>
      (\<exists>s b. map_of (cidrRules h) rid = Some s \<and> delete_cidr K rid s h = (b, h1)))"
  proof (cases "map_of (rules h) rid")
    case (Some s)
    obtain b h1 where e: "delete_exact K rid s h = (b, h1)" by force
    obtain es1 cs1 f1 h2 where d: "delete_items K ids h1 = (es1, cs1, f1, h2)" by (cases "delete_items K ids h1")
    have "h2 = h'" using Cons.prems(2) Some e d by (auto split: if_splits)
    with d e show ?thesis by blast
  next
    case none: None
    show ?thesis
    proof (cases "map_of (cidrRules h) rid")
      case (Some s)
      obtain b h1 where e: "delete_cidr K rid s h = (b, h1)" by force
      obtain es1 cs1 f1 h2 where d: "delete_items K ids h1 = (es1, cs1, f1, h2)" by (cases "delete_items K ids h1")
      have "h2 = h'" using Cons.prems(2) none Some e d by (auto split: if_splits)
      with d e Some show ?thesis by blast
    next
      case None
      obtain es1 cs1 f1 h2 where d: "delete_items K ids h = (es1, cs1, f1, h2)" by (cases "delete_items K ids h")
      have "h2 = h'" using Cons.prems(2) none None d by auto
      with d show ?thesis by blast
    qed
  qed
  then obtain h1 es1 cs1 f1 where d: "delete_items K ids h1 = (es1, cs1, f1, h')" and
    h1: "h1 = h \<or> (\<exists>s b. delete_exact K rid s h = (b, h1)) \<or> (\<exists>s b. map_of (cidrRules h) rid = Some s \<and> delete_cidr K rid s h = (b, h1))"
    by blast
  have "ids_tight (trie K) h1" using h1 x y Cons.prems(1) by blast
  from Cons.IH [OF this d] show ?case .
qed simp

lemma fold_forget_tight [simp]: "ids_tight tw (fold forget_pps l h) = ids_tight tw h"
  by (induction l arbitrary: h) simp_all

lemma DeleteRulesBatch_tight:
  assumes i: "ids_tight (trie K) h" and d: "DeleteRulesBatch K ids h = (r, h')"
  shows "ids_tight (trie K) h'"
  using d
proof (cases rule: DeleteRulesBatch_cases)
  case (1 es cs failed h1)
  note t = delete_items_tight [OF i 1(1)]
  show ?thesis
  proof (cases "es \<noteq> [] \<or> cs \<noteq> []")
    case True
    with 1(3) obtain e h2 where p: "publishConfigUpdate K (- int (length es)) 0 (- int (length cs)) h1 = (e, h2)"
      and h': "h' = fold forget_pps (es @ cs) h2" by auto
    from publish_tight [OF p] t h' show ?thesis by simp
  next
    case False
    with 1(3) t show ?thesis by simp
  qed
qed

lemma AddWhitelist_not_wl: "AddWhitelist K fresh req h = (r, h') \<Longrightarrow> not_wl_views h' = not_wl_views h"
  by (erule AddWhitelist_cases) (auto dest: wl_commit_frame)

lemma agent_step_tight:
  fixes h h' :: "('m, 'c, 't) Handlers"
  assumes H: "hash_laws (hash K) get" and A: "array_laws (arr K) geta" and s: "agent_step K h h'"
    and i: "agent_inv geta h" and t: "ids_tight (trie K) h"
  shows "ids_tight (trie K) h'"
  using s
proof cases
  note I = agent_invD [OF i]
  {
    case (add fresh req r)
    from add_effect_tight [OF I(3) add(1) AddRule_effect [OF add(2)] t] show ?thesis .
  next
    case (add_sync fresh rule r)
    from add_effect_tight [OF I(3) add_sync(1) AddRuleFromSync_effect [OF add_sync(2)] t] show ?thesis .
  next
    case (add_batch rs uuids rb)
    from AddRulesBatch_tight [OF A I(1) add_batch(1) t add_batch(2)] show ?thesis .
  next
    case (delete rid rd)
    from DeleteRule_tight [OF t delete] show ?thesis .
  next
    case (delete_batch ids rdb)
    from DeleteRulesBatch_tight [OF t delete_batch] show ?thesis .
  next
    case (wl_add fresh entry rw)
    from ids_tight_not_wl [OF AddWhitelist_not_wl [OF wl_add(1)]] t show ?thesis by simp
  next
    case (wl_add_sync fresh sentry rw)
    from ids_tight_not_wl [OF AddWhitelist_not_wl [OF wl_add_sync(1) [unfolded AddWhitelistFromSync_is]]] t show ?thesis by simp
  next
    case (wl_add_batch uuids entries rwb)
    from wl_add_batch(1) show ?thesis
    proof (cases rule: AddWhitelistBatch_cases)
      case (commit ps)
      from ids_tight_not_wl [OF conjunct1 [OF conjunct2 [OF wl_batch_commit_table [OF tables_okD(3) [OF I(3)] commit]]]] t show ?thesis by simp
    qed (use t in simp)
  next
    case (wl_delete wid rwd)
    from ids_tight_not_wl [OF DeleteWhitelist_frame [OF wl_delete]] t show ?thesis by simp
  next
    case (wl_delete_batch ids rwdb)
    from ids_tight_not_wl [of h' h] DeleteWhitelistBatch_table [OF tables_okD(3) [OF I(3)] wl_delete_batch] t show ?thesis by blast
  next
    case (sync rs uuids rs')
    obtain r1 e where r: "rs' = (r1, e)" by force
    show ?thesis
    proof (cases e)
      case (Some x)
      with DoAtomicSync_failed [OF H A I(4,3) sync(2,1), of r1 x h'] sync(4) r t show ?thesis by blast
    next
      case None
      with sync(4) r have "DoAtomicSync K uuids rs h = ((r1, None), h')" by simp
      from DoAtomicSync_done(3) [OF H A I(4,3) sel_okD(1) [OF I(2)] sync(2,1) this t] show ?thesis .
    qed
  next
    case (wl_sync sentries rws)
    show ?thesis
    proof (cases rws)
      case (Some e)
      with wl_sync have u: "unchanged geta h h' \<and> cidrMgr h' = cidrMgr h" using DoWhitelistAtomicSync_failed [OF A I(4)] by blast
      with ids_tight_view [OF unchangedD(4)] t show ?thesis by blast
    next
      case None
      with wl_sync have d: "DoWhitelistAtomicSync K sentries h = (None, h')" by simp
      show ?thesis
        by (rule DoWhitelistAtomicSync_done [OF H A I(4) sel_okD(2) [OF I(2)] d])
          (use t ids_tight_view [of h' h] not_wlD [of "h'\<lparr>activeWLSlot := activeWLSlot h\<rparr>" h] in simp)
    qed
  next
    case (wl_clear rwc)
    from ids_tight_not_wl [OF ClearAllWhitelistFromSync_ok(2) [OF A I(1) wl_clear]] t show ?thesis by simp
  }
qed

lemma agent_reachable_tight:
  fixes h0 h :: "('m, 'c, 't) Handlers"
  assumes H: "hash_laws (hash K) get" and A: "array_laws (arr K) geta" and r: "agent_reachable K h0 h"
    and i: "agent_inv geta h0" and t: "ids_tight (trie K) h0"
  shows "ids_tight (trie K) h"
  using r
proof (induction rule: agent_reachable.induct)
  case (step h h')
  have "agent_inv geta h" using agent_reachable_keeps [OF H A step.hyps(1) i] by (simp add: keeps_def)
  from agent_step_tight [OF H A step.hyps(2) this step.IH] show ?case .
qed (rule t)

end
