(* ===== verification/Samples.thy ===== *)
theory Samples
  imports AgentIds
begin

text \<open>
  A reliable kernel for the witnesses: association lists whose calls fail only for the documented
  reasons. The kernel of \<open>ConfigPublish\<close> is the one with fault scripts. The section on success shows
  that on a reliable kernel a publish and the start of the agent cannot fail.
\<close>

section \<open>A reliable kernel\<close>

definition plain_hash :: "(bytes, bytes) gomap hash_ops" where
  "plain_hash =
     \<lparr>UpdateNoExist = (\<lambda>m k v. if map_of m k \<noteq> None then (False, m) else (True, m @ [(k, v)])),
      Delete = (\<lambda>m k. if map_of m k = None then (False, m) else (True, filter (\<lambda>(j, _). j \<noteq> k) m)),
      Lookup = map_of, Iterate = (\<lambda>m. remdups (map fst m))\<rparr>"

lemma plain_hash_reliable: "hash_reliable plain_hash map_of"
  unfolding hash_reliable_def hash_laws_def plain_hash_def
  by (auto simp: map_of_filter_neq map_add_def fun_eq_iff dom_map_of_conv_image_fst split: if_splits option.splits)

definition plain_array :: "(bytes, bytes) gomap array_ops" where
  "plain_array =
     \<lparr>UpdateExist = (\<lambda>m k v. (True, (k, v) # m)),
      LookupArray = (\<lambda>m k. Some (case map_of m k of Some v \<Rightarrow> v | None \<Rightarrow> replicate 8 0))\<rparr>"

definition plain_get :: "(bytes, bytes) gomap \<Rightarrow> bytes \<Rightarrow> bytes" where
  "plain_get m k = (case map_of m k of Some v \<Rightarrow> v | None \<Rightarrow> replicate 8 0)"

text \<open>An array map whose updates never fail.\<close>

definition array_reliable :: "'c array_ops \<Rightarrow> ('c \<Rightarrow> bytes \<Rightarrow> bytes) \<Rightarrow> bool" where
  "array_reliable ops get \<longleftrightarrow> array_laws ops get \<and> (\<forall>c k v. fst (UpdateExist ops c k v))"

lemma plain_array_reliable: "array_reliable plain_array plain_get"
  by (auto simp: array_reliable_def array_laws_def plain_array_def plain_get_def fun_eq_iff)

lemma list_trie_reliable: "trie_reliable list_trie map_of"
  using list_trie_laws by (simp add: trie_reliable_def) (simp add: list_trie_def)

definition plain_kernel :: "((bytes, bytes) gomap, (bytes, bytes) gomap, (trie_key \<times> u32) list) kernel" where
  "plain_kernel = \<lparr>hash = plain_hash, arr = plain_array, trie = list_trie\<rparr>"

definition plain_start :: "((bytes, bytes) gomap, (bytes, bytes) gomap, (trie_key \<times> u32) list) Handlers" where
  "plain_start =
     \<lparr>blacklist = [], blacklistB = [], whitelist = [], whitelistB = [],
      rlStates = Some [], configA = [], configB = [], activeConfig = [],
      activeSlot = 0, activeRuleSlot = 0, activeWLSlot = 0, wlComboRefCount = zero64, rules = [],
      ruleKeyIndex = [], wlEntries = [], wlKeyIndex = [], lastRuleDropCount = [],
      lastRuleStatsTime = [], comboRefCount = zero64, cidrBlacklist = [],
      cidrBlacklistB = [], cidrRlStates = None, cidrMgr = NewManager [] [] [] [],
      cidrRules = [], cidrRuleKeyIndex = [], cidrComboRefCount = zero64\<rparr>"

section \<open>Success on a reliable kernel\<close>

lemma array_reliableD:
  assumes "array_reliable A get"
  shows "array_laws A get" "\<exists>c'. UpdateExist A c k v = (True, c')"
  using assms by (auto simp: array_reliable_def prod_eq_iff)

lemma cfg_put_succeeds:
  assumes R: "array_reliable A get"
  shows "\<exists>c'. cfg_put A i v c = (None, c')"
  using array_reliableD(2) [OF R, of c "le32 (of_nat i)" "le64 v"] by (auto simp: cfg_put_def)

lemma bump_count_succeeds:
  assumes R: "array_reliable A get"
  shows "\<exists>c'. bump_count A i d c = (None, c')"
  using cfg_put_succeeds [OF R] by (auto simp: bump_count_def Let_def)

lemma copy_entries_succeeds:
  assumes R: "array_reliable A get"
  shows "\<exists>c'. copy_entries A a is c = (None, c')"
proof (induction "is" arbitrary: c)
  case (Cons i "is")
  obtain v where v: "LookupArray A a (le32 (of_nat i)) = Some v" using array_lawsD(3) [OF array_reliableD(1) [OF R]] by blast
  obtain c1 where "UpdateExist A c (le32 (of_nat i)) v = (True, c1)" using array_reliableD(2) [OF R] by blast
  with v Cons.IH [of c1] show ?case by simp
qed simp

lemma and_then_succeeds:
  "\<exists>c'. r = (None, c') \<Longrightarrow> (\<And>c. \<exists>c'. f c = (None, c')) \<Longrightarrow> \<exists>c'. and_then r f = (None, c')"
  by auto

lemma switch_slot_succeeds:
  assumes R: "array_reliable (arr K) get"
  shows "\<exists>h'. switch_slot K h = (None, h')"
  using array_reliableD(2) [OF R, of "activeConfig h" "le32 0" "le64 (of_int (1 - activeSlot h))"]
  by (auto simp: switch_slot_def Let_def)

lemma publish_succeeds:
  assumes R: "array_reliable (arr K) get"
  shows "\<exists>h'. publishConfigUpdate K d wd cd h = (None, h')"
proof -
  let ?A = "arr K"
  have "\<exists>c. and_then (copy_entries ?A (activeMap h) [0..<12] (shadowMap h)) (\<lambda>c.
    and_then (cfg_put ?A 2 (combo_bitmap (comboRefCount h)) c) (\<lambda>c.
    and_then (cfg_put ?A 3 (combo_bitmap (wlComboRefCount h)) c) (\<lambda>c.
    and_then (cfg_put ?A 8 (of_int (activeWLSlot h)) c) (\<lambda>c.
    and_then (bump_count ?A 0 d c) (\<lambda>c. and_then (bump_count ?A 1 wd c) (\<lambda>c.
    and_then (cfg_put ?A 7 (combo_bitmap (cidrComboRefCount h)) c) (\<lambda>c.
    and_then (bump_count ?A 6 cd c) (\<lambda>c. cfg_put ?A 10 (countAnomalyRulesLocked h) c)))))))) = (None, c)"
    by (intro and_then_succeeds copy_entries_succeeds [OF R] cfg_put_succeeds [OF R] bump_count_succeeds [OF R])
  then obtain c where c: "and_then (copy_entries ?A (activeMap h) [0..<12] (shadowMap h)) (\<lambda>c.
    and_then (cfg_put ?A 2 (combo_bitmap (comboRefCount h)) c) (\<lambda>c.
    and_then (cfg_put ?A 3 (combo_bitmap (wlComboRefCount h)) c) (\<lambda>c.
    and_then (cfg_put ?A 8 (of_int (activeWLSlot h)) c) (\<lambda>c.
    and_then (bump_count ?A 0 d c) (\<lambda>c. and_then (bump_count ?A 1 wd c) (\<lambda>c.
    and_then (cfg_put ?A 7 (combo_bitmap (cidrComboRefCount h)) c) (\<lambda>c.
    and_then (bump_count ?A 6 cd c) (\<lambda>c. cfg_put ?A 10 (countAnomalyRulesLocked h) c)))))))) = (None, c)" by blast
  have "publishConfigUpdate K d wd cd h = switch_slot K (set_shadowMap c h)"
    by (simp only: publishConfigUpdate_def Let_def c prod.case option.case)
  with switch_slot_succeeds [OF R] show ?thesis by simp
qed

lemma init_indices_succeeds:
  assumes R: "array_reliable A get"
  shows "\<exists>c'. init_indices A is c = (None, c')"
  by (induction "is" arbitrary: c) (auto intro!: and_then_succeeds cfg_put_succeeds [OF R])

lemma NewHandlers_succeeds:
  assumes R: "array_reliable (arr K) get"
  shows "\<exists>h. NewHandlers K init = Some h"
proof -
  obtain ca cb where "initDynamicConfig (arr K) (configA init) = (None, ca)" "initDynamicConfig (arr K) (configB init) = (None, cb)"
    using init_indices_succeeds [OF R] unfolding initDynamicConfig_def by blast
  moreover obtain ac where "UpdateExist (arr K) (activeConfig init) (le32 0) (le64 0) = (True, ac)"
    using array_reliableD(2) [OF R] by blast
  ultimately show ?thesis by (simp add: NewHandlers_def)
qed

lemma plain_laws:
  "hash_reliable (hash plain_kernel) map_of" "hash_laws (hash plain_kernel) map_of"
  "array_reliable (arr plain_kernel) plain_get" "array_laws (arr plain_kernel) plain_get"
  "trie_reliable (trie plain_kernel) map_of"
  using hash_reliableD(1) [OF plain_hash_reliable] plain_hash_reliable plain_array_reliable list_trie_reliable
    array_reliableD(1) [OF plain_array_reliable]
  by (simp_all add: plain_kernel_def)

text \<open>The sample start state satisfies the invariants of a started agent.\<close>

lemma plain_start_ok:
  "agent_inv plain_get plain_start" "agent_mirror map_of plain_start" "ids_tight (trie plain_kernel) plain_start"
  "published plain_get plain_start j = 0"
proof -
  show p: "published plain_get plain_start j = 0" for j
    by (simp add: published_def activeMap_def plain_start_def cfg_get_def plain_get_def numeral_eq_Suc)
  have h: "mgr_holds (cidrMgr plain_start) (cidrRules plain_start) [] [] (\<lambda>_. 0) (\<lambda>_. 0)"
    using new_manager_holds [of "[]" "[]" "[]" "[]"] by (simp add: plain_start_def)
  have t: "tables_ok plain_start"
    using h by (auto simp: tables_ok_def exact_inv_def cidr_inv_def wl_inv_def tbl_inv_empty plain_start_def ids_ok_def)
  have "slot_ok plain_get plain_start"
    by (simp add: slot_ok_def plain_start_def cfg_get_def plain_get_def numeral_eq_Suc)
  moreover have "bit (combo_bitmap zero64) i \<longleftrightarrow> False" for i
    using tbl_bitmap [OF tbl_inv_empty, of i] by simp
  then have "covers plain_get plain_start" by (simp add: covers_def plain_start_def)
  moreover have "sel_ok plain_get plain_start" using p by (simp add: sel_ok_def plain_start_def)
  ultimately show "agent_inv plain_get plain_start" using t by (simp add: agent_inv_def agent_ok_def)
  show "agent_mirror map_of plain_start"
    by (simp add: agent_mirror_def exact_mirror_def cidr_mirror_def wl_mirror_def image_of_def map_defs plain_start_def)
  have "tries_mirror map_of (cidrMgr plain_start)"
    by (simp add: tries_mirror_def mirrors_def plain_start_def NewManager_def)
  then show "ids_tight (trie plain_kernel) plain_start"
    using h plain_laws(5) unfolding ids_tight_def steady_def by blast
qed

section \<open>Sample rules\<close>

text \<open>Rules without addresses: UDP to a port is dropped.\<close>

definition udp_rule :: "string \<Rightarrow> u16 \<Rightarrow> Rule" where
  "udp_rule rid port =
     \<lparr>r_ID = rid, r_SrcIP = [], r_DstIP = [], r_SrcCIDR = [], r_DstCIDR = [], r_SrcPort = 0, r_DstPort = port,
      r_Protocol = ''udp'', r_Action = ''drop'', r_RateLimit = 0, r_PktLenMin = 0, r_PktLenMax = 0, r_TcpFlags = [],
      r_MatchAnomaly = 0, r_Comment = []\<rparr>"

definition udp_key :: "u16 \<Rightarrow> RuleKey" where
  "udp_key port =
     \<lparr>rk_SrcIP = replicate 16 0, rk_DstIP = replicate 16 0, rk_SrcPort = 0, rk_DstPort = htons port,
      rk_Protocol = ProtoUDP, rk_Pad = [0, 0, 0]\<rparr>"

lemma udp_rule_fields [simp]:
  "r_ID (udp_rule rid port) = rid" "r_SrcCIDR (udp_rule rid port) = []" "r_DstCIDR (udp_rule rid port) = []"
  "r_SrcIP (udp_rule rid port) = []" "r_DstIP (udp_rule rid port) = []" "r_Protocol (udp_rule rid port) = ''udp''"
  "r_TcpFlags (udp_rule rid port) = []" "r_TcpFlags_update (\<lambda>_. []) (udp_rule rid port) = udp_rule rid port"
  by (simp_all add: udp_rule_def)

lemma udp_flags: "parseTcpFlags [] = Inr (0, 0)" "tcpFlagsToString 0 0 = []"
  by (simp_all add: parseTcpFlags_def strings_TrimSpace_def tcpFlagsToString_def)

lemma udp_key_of: "ruleToKey (udp_rule rid port) = Inr (udp_key port)"
  by (simp add: udp_rule_def ruleToKey_def ip_field_def udp_key_def zero_RuleKey_def zero_IPAddr_def parseProtocol_def
      parseProtocolStrict_def htons_def)

lemma udp_combo: "port \<noteq> 0 \<Longrightarrow> getComboType (udp_key port) = ComboDstPortProto"
  by (simp add: getComboType_def udp_key_def isZeroIP_def list_all_iff)

lemma udp_checks:
  assumes "port \<noteq> 0"
  shows "AddRule_checks (udp_rule rid port) 0 0 = Inr (udp_key port, value_of ActionDrop 0 0 (udp_rule rid port))"
proof -
  have r: "validateRule (r_SrcIP (udp_rule rid port)) (r_DstIP (udp_rule rid port)) (r_Protocol (udp_rule rid port))
      (r_SrcPort (udp_rule rid port)) (r_DstPort (udp_rule rid port)) (r_PktLenMin (udp_rule rid port))
      (r_PktLenMax (udp_rule rid port)) = None"
    by (simp add: udp_rule_def validateRule_def validatePortProtocolCompatNode_def portlessProtocolsNode_def
        strings_ToLower_def lower_char_def of_char_def)
  show ?thesis
    unfolding AddRule_checks_def r udp_key_of
    by (simp add: udp_combo [OF assms] validateComboType_def)
      (simp add: udp_rule_def parseAction_def validateNodeAnomalyFields_def)
qed

lemma AddRule_udp:
  assumes "port \<noteq> 0"
  shows "AddRule K fresh (udp_rule rid port) h =
    (let (r, h') = rule_commit K (rule_id fresh rid) (stored_of (udp_key port) (udp_rule rid port))
         (value_of ActionDrop 0 0 (udp_rule rid port)) h in (Done r, h'))"
  by (simp add: AddRule_def udp_flags AddRule_exact_def udp_checks [OF assms] Let_def)

end
