(* ===== verification/AgentProps.thy ===== *)
theory AgentProps
  imports Samples
begin

text \<open>
  The properties of the agent as a state machine, stated over every state reachable from the one
  \<^verbatim>\<open>NewHandlers\<close> returns.
\<close>

section \<open>What the BPF program reads\<close>

text \<open>
  The program's side: it looks only at the kernel maps. The selector array names the config array,
  two entries of which name the rule maps and the whitelist map.
\<close>

definition seen_entry :: "('c \<Rightarrow> bytes \<Rightarrow> bytes) \<Rightarrow> ('m, 'c, 't) Handlers \<Rightarrow> nat \<Rightarrow> u64" where
  "seen_entry get h i = cfg_get get (if cfg_get get (activeConfig h) 0 = 0 then configA h else configB h) i"

definition seen_rules :: "('c \<Rightarrow> bytes \<Rightarrow> bytes) \<Rightarrow> ('m, 'c, 't) Handlers \<Rightarrow> 'm" where
  "seen_rules get h = (if seen_entry get h ConfigRuleMapSelector = 0 then blacklist h else blacklistB h)"

definition seen_cidr_rules :: "('c \<Rightarrow> bytes \<Rightarrow> bytes) \<Rightarrow> ('m, 'c, 't) Handlers \<Rightarrow> 'm" where
  "seen_cidr_rules get h = (if seen_entry get h ConfigRuleMapSelector = 0 then cidrBlacklist h else cidrBlacklistB h)"

definition seen_whitelist :: "('c \<Rightarrow> bytes \<Rightarrow> bytes) \<Rightarrow> ('m, 'c, 't) Handlers \<Rightarrow> 'm" where
  "seen_whitelist get h = (if seen_entry get h ConfigWLMapSelector = 0 then whitelist h else whitelistB h)"

lemma seen_published: "slot_ok get h \<Longrightarrow> seen_entry get h = published get h"
  by (auto simp: seen_entry_def published_def activeMap_def slot_ok_def fun_eq_iff)

lemma seen_maps:
  assumes "slot_ok get h" "sel_ok get h"
  shows "seen_rules get h = activeBlacklist h" "seen_cidr_rules get h = activeCidrBlacklist h"
    "seen_whitelist get h = activeWhitelist h"
  using assms by (auto simp: seen_rules_def seen_cidr_rules_def seen_whitelist_def seen_published sel_ok_def map_defs)

lemma covers_seen:
  assumes t: "tables_ok h" and c: "covers get h"
  shows "map_of (rules h) rid = Some s \<Longrightarrow> bit (published get h 2) (nat (getComboType (sr_Key s)))"
    "map_of (cidrRules h) rid = Some cs \<Longrightarrow> bit (published get h 7) (nat (getCIDRComboType (sc_Key cs)))"
    "map_of (wlEntries h) rid = Some k \<Longrightarrow> bit (published get h 3) (nat (getComboType k))"
  using exact.covered [OF tables_okD(1) [OF t], of rid s] cidrs.covered [OF tables_okD(2) [OF t], of rid cs]
    wls.covered [OF tables_okD(3) [OF t], of rid k] c by (auto simp: covers_def)

text \<open>On a reliable kernel the critical section of an addition succeeds when the key has no owner.\<close>

lemma rule_commit_live:
  fixes h :: "('m, 'c, 't) Handlers"
  assumes R: "hash_reliable (hash K) get" and A: "array_reliable (arr K) geta" and inv: "exact_inv h" and m: "exact_mirror get h"
    and s: "committable s vl"
  shows "(fst (rule_commit K rid s vl h) = Committed rid \<longleftrightarrow> map_of (ruleKeyIndex h) (sr_Key s) = None) \<and>
    (\<forall>e. fst (rule_commit K rid s vl h) \<noteq> PublishFailed e)"
proof -
  obtain x h1 where st: "rule_stage K rid s vl h = (x, h1)" by force
  note k = committableD [OF s]
  note sm = rule_stage_mirror [OF R inv k(1,3) m st]
  obtain h2 where p: "publishConfigUpdate K (if map_of (rules h) rid = None then 1 else 0) 0 0 h1 = (None, h2)"
    using publish_succeeds [OF A] by blast
  show ?thesis
  proof (cases x)
    case None
    with st p sm show ?thesis by (simp add: rule_commit_def Let_def)
  next
    case (Some y)
    with st have "\<forall>z. y \<noteq> Committed z" "\<forall>e. y \<noteq> PublishFailed e" by (cases rule: rule_stage_cases; auto)+
    with st Some sm show ?thesis by (simp add: rule_commit_def Let_def)
  qed
qed

text \<open>The first step of a sample run.\<close>

abbreviation (input) sample_add where
  "sample_add h \<equiv> AddRule plain_kernel ''u'' (udp_rule ''r1'' 53) h"

lemma sample_reachable:
  assumes "NewHandlers plain_kernel plain_start = Some h0"
  shows "agent_reachable plain_kernel h0 (snd (sample_add h0))"
proof -
  have "cidrMgr h0 = NewManager [] [] [] []" by (rule NewHandlers_fields [OF assms]) (simp add: plain_start_def)
  then have "room 2 (cidrMgr h0)" by (simp add: room_def NewManager_def)
  from agent_reachable.step [OF agent_reachable.start agent_step.add [OF this prod.collapse [symmetric]]] show ?thesis .
qed

lemma sample_started: "\<exists>h0. NewHandlers plain_kernel plain_start = Some h0"
  using NewHandlers_succeeds [OF plain_laws(3)] by blast

lemma plain_start_fields: "cidrMgr plain_start = NewManager [] [] [] []" "map_of (blacklist plain_start) = Map.empty"
    "map_of (cidrBlacklist plain_start) = Map.empty" "map_of (whitelist plain_start) = Map.empty"
  by (simp_all add: plain_start_def)

lemma udp_committable: "port \<noteq> 0 \<Longrightarrow> committable (stored_of (udp_key port) (udp_rule rid port)) (value_of ActionDrop 0 0 (udp_rule rid port))"
  by (rule AddRule_checks_ok [OF udp_checks]) (simp_all add: udp_flags)

lemma sample_stored:
  assumes n: "NewHandlers plain_kernel plain_start = Some h0"
  shows "fst (sample_add h0) = Done (Committed ''r1'')"
    "map_of (rules (snd (sample_add h0))) ''r1'' = Some (stored_of (udp_key 53) (udp_rule ''r1'' 53))"
proof -
  let ?s = "stored_of (udp_key 53) (udp_rule ''r1'' 53)" and ?v = "value_of ActionDrop 0 0 (udp_rule ''r1'' 53)"
  note i = agent_invD(3) [OF conjunct1 [OF NewHandlers_inv [OF plain_laws(4) n plain_start_fields(1)]]]
  have e: "exact_inv h0" "exact_mirror map_of h0"
    using tables_okD(1) [OF i] NewHandlers_mirror [OF n plain_start_fields(2-4)] by (auto simp: agent_mirror_def)
  have ix: "ruleKeyIndex h0 = []" by (rule NewHandlers_fields [OF n]) simp
  obtain r h where c: "rule_commit plain_kernel ''r1'' ?s ?v h0 = (r, h)" by force
  have r: "r = Committed ''r1''"
    using rule_commit_live [OF plain_laws(1,3) e udp_committable [of 53 "''r1''"], of "''r1''"] c ix by simp
  have a: "sample_add h0 = (Done r, h)" using c by (simp add: AddRule_udp rule_id_def)
  note t = rule_commit_table [OF e(1) committableD(1,2) [OF udp_committable] c]
  show "fst (sample_add h0) = Done (Committed ''r1'')" using a r by simp
  show "map_of (rules (snd (sample_add h0))) ''r1'' = Some ?s" using t a r by simp
qed

section \<open>Properties\<close>



section \<open>Witnesses\<close>



end
