(* ===== verification/RuleProps.thy ===== *)
theory RuleProps
  imports AgentProps
begin

text \<open>
  Properties of the rule operations: what the tables hold, how CIDR IDs are accounted for, and what
  an addition, a deletion and a batch do on every outcome.
\<close>

section \<open>Facts about single additions\<close>

text \<open>An exact rule: the stored value, and on a reliable kernel the only reasons for a failure.\<close>

lemma AddRule_exact_form:
  assumes "r_SrcCIDR req = []" "r_DstCIDR req = []" "AddRule K fresh req h = (r, h')"
  obtains (rejected) e where "r = Rejected e" "h' = h"
  | (commit) m v key vl r1 where "parseTcpFlags (r_TcpFlags req) = Inr (m, v)"
      "AddRule_checks (req\<lparr>r_TcpFlags := tcpFlagsToString m v\<rparr>) m v = Inr (key, vl)"
      "rule_commit K (rule_id fresh (r_ID req)) (stored_of key (req\<lparr>r_TcpFlags := tcpFlagsToString m v\<rparr>)) vl h = (r1, h')"
      "r = Done r1" "ruleToKey (req\<lparr>r_TcpFlags := tcpFlagsToString m v\<rparr>) = Inr key"
proof (cases "parseTcpFlags (r_TcpFlags req)")
  case (Inl e)
  with assms have "r = Rejected (BadTcpFlags e)" "h' = h" by (auto simp: AddRule_def)
  with rejected show ?thesis by blast
next
  case (Inr mv)
  obtain m v where mv: "mv = (m, v)" by force
  let ?req = "req\<lparr>r_TcpFlags := tcpFlagsToString m v\<rparr>"
  show ?thesis
  proof (cases "m \<noteq> 0 \<and> r_Protocol req \<noteq> ''tcp''")
    case True
    with assms Inr mv have "r = Rejected FlagsNeedTCP" "h' = h" by (auto simp: AddRule_def)
    with rejected show ?thesis by blast
  next
    case False
    have a: "AddRule_exact K fresh ?req m v h = (r, h')" using assms Inr mv False by (simp add: AddRule_def Let_def split: if_splits)
    show ?thesis
    proof (cases "AddRule_checks ?req m v")
      case (Inl e)
      with a have "r = Rejected e" "h' = h" by (simp_all add: AddRule_exact_def)
      with rejected show ?thesis by blast
    next
      case c: (Inr kv)
      obtain key vl where kv: "kv = (key, vl)" by force
      obtain r1 h1 where rc: "rule_commit K (rule_id fresh (r_ID req)) (stored_of key ?req) vl h = (r1, h1)" by force
      have k: "ruleToKey ?req = Inr key"
        using c kv by (auto simp: AddRule_checks_def split: option.splits sum.splits if_splits)
      have "r = Done r1" "h' = h1" using a c kv rc by (simp_all add: AddRule_exact_def Let_def)
      with commit [OF _ _ _ _ k] Inr mv c kv rc show ?thesis by simp
    qed
  qed
qed

lemma ruleToKey_flags: "ruleToKey (req\<lparr>r_TcpFlags := x\<rparr>) = ruleToKey req"
  by (simp add: ruleToKey_def split: option.split)

section \<open>Properties\<close>



text \<open>C17. Adding a rule is all or nothing. An addition over HTTP that does not answer with the new
rule's ID, because the request was refused, the key belongs to another rule, a kernel call failed or the
publish failed, leaves all three tables as they were; one that does changes exactly the entry of that ID,
in one of the two rule tables. For a request without prefixes the entry is the request itself with its
key and its TCP flags in canonical form.\<close>

theorem add_rule_all_or_nothing:
  fixes h h' :: "('m, 'c, 't) Handlers"
  assumes t: "tables_ok h" and n: "room 2 (cidrMgr h)" and a: "AddRule K fresh req h = (r, h')"
  shows "map_of (wlEntries h') = map_of (wlEntries h) \<and>
    (r \<noteq> Done (Committed (rule_id fresh (r_ID req))) \<longrightarrow>
       map_of (rules h') = map_of (rules h) \<and> map_of (cidrRules h') = map_of (cidrRules h)) \<and>
    (r = Done (Committed (rule_id fresh (r_ID req))) \<longrightarrow>
       (\<exists>s. map_of (rules h') = (map_of (rules h))(rule_id fresh (r_ID req) \<mapsto> s) \<and> map_of (cidrRules h') = map_of (cidrRules h)) \<or>
       (\<exists>s. map_of (cidrRules h') = (map_of (cidrRules h))(rule_id fresh (r_ID req) \<mapsto> s) \<and> map_of (rules h') = map_of (rules h))) \<and>
    (r = Done (Committed (rule_id fresh (r_ID req))) \<and> r_SrcCIDR req = [] \<and> r_DstCIDR req = [] \<longrightarrow>
       (\<exists>m v key. parseTcpFlags (r_TcpFlags req) = Inr (m, v) \<and>
          ruleToKey (req\<lparr>r_TcpFlags := tcpFlagsToString m v\<rparr>) = Inr key \<and>
          map_of (rules h') = (map_of (rules h))(rule_id fresh (r_ID req) \<mapsto> stored_of key (req\<lparr>r_TcpFlags := tcpFlagsToString m v\<rparr>))))"
proof -
  note res = add_effect_result [OF t n AddRule_effect [OF a]]
  have "\<exists>m v key. parseTcpFlags (r_TcpFlags req) = Inr (m, v) \<and>
          ruleToKey (req\<lparr>r_TcpFlags := tcpFlagsToString m v\<rparr>) = Inr key \<and>
          map_of (rules h') = (map_of (rules h))(rule_id fresh (r_ID req) \<mapsto> stored_of key (req\<lparr>r_TcpFlags := tcpFlagsToString m v\<rparr>))"
    if "r = Done (Committed (rule_id fresh (r_ID req)))" "r_SrcCIDR req = []" "r_DstCIDR req = []"
    using that(2,3) a
  proof (cases rule: AddRule_exact_form)
    case (commit m v key vl r1)
    have k: "wf_RuleKey key" "validateComboType (getComboType key)"
      using ruleToKey_wf [OF commit(5)] commit(2) by (auto simp: AddRule_checks_def split: option.splits sum.splits if_splits)
    have sk: "sr_Key (stored_of key q) = key" for q by (simp add: stored_of_def)
    from rule_commit_table [OF tables_okD(1) [OF t] _ _ commit(3)] k sk commit(1,4,5) that(1) show ?thesis by auto
  qed (use that in simp)
  then show ?thesis using res by metis
qed

text \<open>C25. Adding a rule succeeds when it should. On a reliable kernel an addition of an exact rule is
answered in one of three ways only: the request is refused before anything is touched; it is committed;
or its key already has an owner in the table. The publish never fails it. (The owner may be the rule with
the same ID: re-submitting an unchanged rule fails, because the insertion wants an absent key.)\<close>

theorem add_rule_succeeds:
  fixes h h' :: "('m, 'c, 't) Handlers"
  assumes R: "hash_reliable (hash K) get" and A: "array_reliable (arr K) geta" and t: "tables_ok h" and m: "agent_mirror get h"
    and c: "r_SrcCIDR req = []" "r_DstCIDR req = []" and a: "AddRule K fresh req h = (r, h')"
  shows "(\<exists>e. r = Rejected e \<and> h' = h) \<or> r = Done (Committed (rule_id fresh (r_ID req))) \<or>
    (\<exists>rid s. map_of (rules h) rid = Some s \<and> ruleToKey req = Inr (sr_Key s))"
  using c a
proof (cases rule: AddRule_exact_form)
  case (rejected e)
  then show ?thesis by blast
next
  case (commit m v key vl r1)
  note E = tables_okD(1) [OF t]
  have em: "exact_mirror get h" using m by (simp add: agent_mirror_def)
  have k: "ruleToKey req = Inr key" using commit(5) by (simp add: ruleToKey_flags)
  have cm: "committable (stored_of key (req\<lparr>r_TcpFlags := tcpFlagsToString m v\<rparr>)) vl"
    by (rule AddRule_checks_ok [OF commit(2)]) (use parseTcpFlags_reparse [OF commit(1)] in simp)
  have sk: "sr_Key (stored_of key q) = key" for q by (simp add: stored_of_def)
  show ?thesis
  proof (cases "map_of (ruleKeyIndex h) key")
    case None
    with rule_commit_live [OF R A E em cm, of "rule_id fresh (r_ID req)"] commit(3,4) sk show ?thesis by simp
  next
    case (Some rid)
    then obtain s where "map_of (rules h) rid = Some s" "sr_Key s = key"
      using tbl_invD(4) [OF E [unfolded exact_inv_def]] by blast
    with k show ?thesis by blast
  qed
qed

section \<open>Witnesses\<close>

lemma started_facts:
  assumes "NewHandlers plain_kernel plain_start = Some h0"
  shows "tables_ok h0" "agent_mirror map_of h0" "room 2 (cidrMgr h0)" "cidrMgr h0 = NewManager [] [] [] []" "rules h0 = []"
proof -
  show "tables_ok h0"
    by (rule agent_invD(3) [OF conjunct1 [OF NewHandlers_inv [OF plain_laws(4) assms plain_start_fields(1)]]])
  show "agent_mirror map_of h0" by (rule NewHandlers_mirror [OF assms plain_start_fields(2-4)])
  show m: "cidrMgr h0 = NewManager [] [] [] []" by (rule NewHandlers_fields [OF assms]) (simp add: plain_start_def)
  then show "room 2 (cidrMgr h0)" by (simp add: room_def NewManager_def)
  show "rules h0 = []" by (rule NewHandlers_fields [OF assms]) simp
qed



theorem add_rule_all_or_nothing_witness:
  "\<exists>h0. NewHandlers plain_kernel plain_start = Some h0 \<and> fst (sample_add h0) = Done (Committed ''r1'') \<and>
     map_of (cidrRules (snd (sample_add h0))) = map_of (cidrRules h0) \<and> map_of (wlEntries (snd (sample_add h0))) = map_of (wlEntries h0)"
proof -
  obtain h0 where n: "NewHandlers plain_kernel plain_start = Some h0" using sample_started by blast
  note S = started_facts [OF n]
  note all = add_rule_all_or_nothing [OF S(1,3) prod.collapse [symmetric], of plain_kernel "''u''" "udp_rule ''r1'' 53"]
  have rid: "rule_id ''u'' (r_ID (udp_rule ''r1'' 53)) = ''r1''" by (simp add: rule_id_def)
  note all = all [unfolded rid]
  have "map_of (rules (snd (sample_add h0))) \<noteq> map_of (rules h0)" using S(5) sample_stored(2) [OF n] by auto
  with mp [OF conjunct1 [OF conjunct2 [OF conjunct2 [OF all]]] sample_stored(1) [OF n]]
  have "map_of (cidrRules (snd (sample_add h0))) = map_of (cidrRules h0)" by blast
  with conjunct1 [OF all] n sample_stored(1) [OF n] show ?thesis by blast
qed

theorem add_rule_succeeds_witness:
  "\<exists>h0. NewHandlers plain_kernel plain_start = Some h0 \<and> fst (sample_add h0) = Done (Committed ''r1'')"
proof -
  obtain h0 where n: "NewHandlers plain_kernel plain_start = Some h0" using sample_started by blast
  note S = started_facts [OF n]
  have "\<not> (\<exists>e. fst (sample_add h0) = Rejected e)"
    by (auto simp: AddRule_udp split: prod.splits)
  moreover note add_rule_succeeds [OF plain_laws(1,3) S(1,2), of "udp_rule ''r1'' 53" "''u''" "fst (sample_add h0)" "snd (sample_add h0)"]
  ultimately have "fst (sample_add h0) = Done (Committed ''r1'')" using S(5) by (simp add: rule_id_def)
  with n show ?thesis by blast
qed

end
