(* ===== verification/BatchProps.thy ===== *)
theory BatchProps
  imports RuleProps
begin

text \<open>
  Properties of the rule batches and of deletions: what a failed publish of a batch restores, the
  batches for which it does not, and what deletions remove.
\<close>

section \<open>A batch that hands a key from one rule to another\<close>

lemma udp_batch_checks:
  assumes "port \<noteq> 0"
  shows "batch_checks (udp_rule rid port) =
    Inr (stored_of (udp_key port) (udp_rule rid port), value_of ActionDrop 0 0 (udp_rule rid port))"
proof -
  have r: "validateRule (r_SrcIP (udp_rule rid port)) (r_DstIP (udp_rule rid port)) (r_Protocol (udp_rule rid port))
      (r_SrcPort (udp_rule rid port)) (r_DstPort (udp_rule rid port)) (r_PktLenMin (udp_rule rid port))
      (r_PktLenMax (udp_rule rid port)) = None"
    using assms by (simp add: udp_rule_def validateRule_def validatePortProtocolCompatNode_def portlessProtocolsNode_def
        strings_ToLower_def lower_char_def of_char_def)
  have a: "validateNodeAnomalyFields (r_MatchAnomaly (udp_rule rid port)) (r_Action (udp_rule rid port))
      (r_SrcIP (udp_rule rid port)) (r_DstIP (udp_rule rid port)) (r_SrcCIDR (udp_rule rid port)) (r_DstCIDR (udp_rule rid port)) = None"
    "parseAction (r_Action (udp_rule rid port)) = Inr ActionDrop"
    by (simp_all add: udp_rule_def parseAction_def validateNodeAnomalyFields_def)
  show ?thesis
    unfolding batch_checks_def r udp_key_of a by (simp add: udp_combo [OF assms] validateComboType_def udp_flags)
qed

text \<open>One rule on port 53 in table, index, counts and map; the next write of the configuration fails.\<close>

abbreviation (input) dns where
  "dns \<equiv> stored_of (udp_key 53) (udp_rule ''r1'' 53)"

definition handover_state :: "(fmap, fmap, (trie_key \<times> u32) list) Handlers" where
  "handover_state = (empty_handlers [] [True])
     \<lparr>rules := [(''r1'', dns)], ruleKeyIndex := [(udp_key 53, ''r1'')], comboRefCount := refs_inc ComboDstPortProto zero64,
      blacklist := ([(ruleKeyToBytes (udp_key 53), rule_val dns)], [])\<rparr>"

lemma udp_key_neq: "udp_key 54 \<noteq> udp_key 53" "ruleKeyToBytes (udp_key 54) \<noteq> ruleKeyToBytes (udp_key 53)"
proof -
  have "htons 54 \<noteq> htons 53" by (simp add: htons_def)
  then show "udp_key 54 \<noteq> udp_key 53" by (simp add: udp_key_def)
  then show "ruleKeyToBytes (udp_key 54) \<noteq> ruleKeyToBytes (udp_key 53)"
    using rule_key.enc_eq_iff [of "udp_key 54" "udp_key 53"] by (simp add: wf_RuleKey_def udp_key_def)
qed

definition handover_batch :: "Rule list" where
  "handover_batch = [udp_rule ''r1'' 54, udp_rule ''r2'' 53]"

lemma handover_prepared:
  "prepare_batch (\<lambda>_. []) 0 handover_batch [] 0 =
    ([\<lparr>pr_id = ''r1'', pr_stored = stored_of (udp_key 54) (udp_rule ''r1'' 54), pr_value = value_of ActionDrop 0 0 (udp_rule ''r1'' 54)\<rparr>,
      \<lparr>pr_id = ''r2'', pr_stored = stored_of (udp_key 53) (udp_rule ''r2'' 53), pr_value = value_of ActionDrop 0 0 (udp_rule ''r2'' 53)\<rparr>], 0)"
  by (simp add: handover_batch_def udp_batch_checks rule_id_def)

lemma stored_key [simp]: "sr_Key (stored_of key req) = key"
  by (simp add: stored_of_def)

lemma failing_publish:
  assumes "shadowMap h = (m, True # fs)"
  shows "publishConfigUpdate sample_kernel d wd cd h = (Some (CopyFailed 0), set_shadowMap (m, fs) h)"
  using assms
  by (cases "activeMap h") (simp add: publishConfigUpdate_def sample_kernel_def list_array_def faulty_def upt_rec Let_def)

lemma handover_stage:
  "\<exists>p1 p2 h2. stage_items sample_kernel (fst (prepare_batch (\<lambda>_. []) 0 handover_batch [] 0)) handover_state = ([(p1, Some dns), (p2, None)], 0, h2) \<and>
     pr_id p1 = ''r1'' \<and> pr_stored p1 = stored_of (udp_key 54) (udp_rule ''r1'' 54) \<and>
     pr_id p2 = ''r2'' \<and> pr_stored p2 = stored_of (udp_key 53) (udp_rule ''r2'' 53) \<and>
     shadowMap h2 = ([], [True]) \<and> activeRuleSlot h2 = 0 \<and>
     fst (blacklist h2) = [(ruleKeyToBytes (udp_key 54), ruleValueToBytes (pr_value p1)), (ruleKeyToBytes (udp_key 53), ruleValueToBytes (pr_value p2))] \<and> snd (blacklist h2) = [] \<and>
     rules h2 = [(''r1'', pr_stored p1), (''r2'', pr_stored p2)] \<and> ruleKeyIndex h2 = [(udp_key 54, ''r1''), (udp_key 53, ''r2'')]"
  using udp_key_neq
  by (simp add: handover_prepared rule_stage_def key_conflict_def handover_state_def empty_handlers_def sample_kernel_def
      replace_bpf_def stale_key_def list_hash_def faulty_def activeBlacklist_def set_activeBlacklist_def add_rule_memory_def
      shadowMap_def Let_def)

text \<open>
  The rollback runs forward: it first puts the old rule back, whose key is still taken, and then takes
  that key out with the second rule.
\<close>

lemma handover_rollback:
  assumes s: "pr_id p1 = ''r1''" "pr_stored p1 = stored_of (udp_key 54) (udp_rule ''r1'' 54)"
      "pr_id p2 = ''r2''" "pr_stored p2 = stored_of (udp_key 53) (udp_rule ''r2'' 53)"
    and h: "activeRuleSlot h = 0" "blacklist h = ([(ruleKeyToBytes (udp_key 54), v1), (ruleKeyToBytes (udp_key 53), v2)], fs)"
      "fs = [] \<or> fs = [False]" "rules h = [(''r1'', pr_stored p1), (''r2'', pr_stored p2)]" "ruleKeyIndex h = [(udp_key 54, ''r1''), (udp_key 53, ''r2'')]"
  shows "rules (rollback_items sample_kernel [(p1, Some dns), (p2, None)] h) = [(''r1'', dns)] \<and>
    ruleKeyIndex (rollback_items sample_kernel [(p1, Some dns), (p2, None)] h) = [] \<and>
    fst (activeBlacklist (rollback_items sample_kernel [(p1, Some dns), (p2, None)] h)) = []"
  using udp_key_neq s h
  by (auto simp: rule_rollback_def sample_kernel_def list_hash_def faulty_def activeBlacklist_def set_activeBlacklist_def
      drop_rule_memory_def restore_rule_memory_def Let_def)

section \<open>What deletions do to the tables\<close>

text \<open>The two rule tables, and what a deletion and a batch of deletions mean for them.\<close>

abbreviation (input) rule_tables :: "('m, 'c, 't) Handlers \<Rightarrow> (string \<rightharpoonup> StoredRule) \<times> (string \<rightharpoonup> StoredCIDRRule)" where
  "rule_tables h \<equiv> (map_of (rules h), map_of (cidrRules h))"

fun spec_delete :: "string \<Rightarrow> (string \<rightharpoonup> 'a) \<times> (string \<rightharpoonup> 'b) \<Rightarrow> bool \<times> (string \<rightharpoonup> 'a) \<times> (string \<rightharpoonup> 'b)" where
  "spec_delete rid (E, C) =
     (if E rid \<noteq> None then (True, E(rid := None), C)
      else if C rid \<noteq> None then (True, E, C(rid := None)) else (False, E, C))"

fun spec_delete_all ::
  "string list \<Rightarrow> (string \<rightharpoonup> 'a) \<times> (string \<rightharpoonup> 'b) \<Rightarrow> int \<times> int \<times> (string \<rightharpoonup> 'a) \<times> (string \<rightharpoonup> 'b)" where
  "spec_delete_all [] T = (0, 0, T)"
| "spec_delete_all (rid # ids) T =
     (let (ok, T1) = spec_delete rid T; (d, f, T2) = spec_delete_all ids T1
      in if ok then (d + 1, f, T2) else (d, f + 1, T2))"

lemma delete_items_spec:
  assumes R: "hash_reliable (hash K) get"
  shows "tables_ok h \<Longrightarrow> agent_mirror get h \<Longrightarrow> delete_items K ids h = (es, cs, failed, h') \<Longrightarrow>
    spec_delete_all ids (rule_tables h) = (int (length es) + int (length cs), failed, rule_tables h')"
proof (induction ids arbitrary: h h' es cs failed)
  case (Cons rid ids)
  show ?case
  proof (cases "map_of (rules h) rid")
    case (Some s)
    obtain b h1 where de: "delete_exact K rid s h = (b, h1)" by force
    obtain es1 cs1 f1 h2 where d: "delete_items K ids h1 = (es1, cs1, f1, h2)" by (cases "delete_items K ids h1") auto
    note t1 = delete_exact_step [OF Cons.prems(1) Some de] and m1 = delete_exact_mirror_step [OF R Cons.prems(1,2) Some de]
    have T: "rule_tables h1 = ((map_of (rules h))(rid := None), map_of (cidrRules h))"
      using delete_exact_table [OF tables_okD(1) [OF Cons.prems(1)] Some de] delete_exact_frame [OF de]
        view_fields(2) [of h1 h] m1 by simp
    have "spec_delete_all ids (rule_tables h1) = (int (length es1) + int (length cs1), f1, rule_tables h2)"
      using Cons.IH [OF _ _ d] t1 m1 by blast
    then show ?thesis using T Cons.prems(3) Some de d m1 by auto
  next
    case n: None
    show ?thesis
    proof (cases "map_of (cidrRules h) rid")
      case (Some s)
      obtain b h1 where de: "delete_cidr K rid s h = (b, h1)" by force
      obtain es1 cs1 f1 h2 where d: "delete_items K ids h1 = (es1, cs1, f1, h2)" by (cases "delete_items K ids h1") auto
      note t1 = delete_cidr_step [OF Cons.prems(1) Some de] and m1 = delete_cidr_mirror_step [OF R Cons.prems(1,2) Some de]
      have T: "rule_tables h1 = (map_of (rules h), (map_of (cidrRules h))(rid := None))"
        using delete_cidr_table [OF tables_okD(2) [OF Cons.prems(1)] Some de] delete_cidr_frame [OF de]
          view_fields(1) [of h1 h] m1 by simp
      have "spec_delete_all ids (rule_tables h1) = (int (length es1) + int (length cs1), f1, rule_tables h2)"
        using Cons.IH [OF _ _ d] t1 m1 by blast
      then show ?thesis using T Cons.prems(3) n Some de d m1 by auto
    next
      case None
      obtain es1 cs1 f1 h2 where d: "delete_items K ids h = (es1, cs1, f1, h2)" by (cases "delete_items K ids h") auto
      from Cons.IH [OF Cons.prems(1,2) d] show ?thesis using Cons.prems(3) n None d by auto
    qed
  qed
qed simp

lemma forget_tables [simp]:
  "map_of (rules (fold forget_pps ids h)) = map_of (rules h)" "map_of (cidrRules (fold forget_pps ids h)) = map_of (cidrRules h)"
  by (induction ids arbitrary: h) (simp_all add: forget_pps_def)

section \<open>A sample run with failing writes\<close>

lemma empty_agent_ok: "agent_ok farray_get (empty_handlers fa fb)"
proof -
  let ?h = "empty_handlers fa fb"
  have h: "mgr_holds (cidrMgr ?h) (cidrRules ?h) [] [] (\<lambda>_. 0) (\<lambda>_. 0)"
    using new_manager_holds [of "[]" "[]" "[]" "[]"] by (simp add: empty_handlers_def)
  then have "tables_ok ?h"
    by (auto simp: tables_ok_def exact_inv_def cidr_inv_def wl_inv_def tbl_inv_empty empty_handlers_def ids_ok_def)
  moreover have "covers farray_get ?h"
    using tbl_bitmap [OF tbl_inv_empty] by (simp add: covers_def empty_handlers_def)
  ultimately show ?thesis using sample_slot_ok by (simp add: agent_ok_def)
qed

section \<open>Properties\<close>


text \<open>C21. A rollback that loses a rule. A batch changes the key of the rule r1 from port 53 to port 54
and gives port 53 to a new rule r2; its publish fails. The rollback undoes the two additions in the
order they were made. Afterwards the table still has r1 on port 53, as before the request, but the kernel
map has no entry at all and the key index is empty: the rule is reported and not enforced.\<close>

theorem batch_handover_loses_key:
  "\<exists>e h'. AddRulesBatch sample_kernel (\<lambda>_. []) handover_batch handover_state = (BatchPublishFailed e, h') \<and>
     rules h' = rules handover_state \<and> fst (activeBlacklist handover_state) = [(ruleKeyToBytes (udp_key 53), rule_val dns)] \<and>
     fst (activeBlacklist h') = [] \<and> ruleKeyIndex h' = []"
proof -
  have none: "filter (\<lambda>r. r_SrcCIDR r \<noteq> [] \<or> r_DstCIDR r \<noteq> []) handover_batch = []"
    "filter (\<lambda>r. \<not> (r_SrcCIDR r \<noteq> [] \<or> r_DstCIDR r \<noteq> [])) handover_batch = handover_batch"
    by (simp_all add: handover_batch_def)
  obtain p1 p2 h2 where
    st: "stage_items sample_kernel (fst (prepare_batch (\<lambda>_. []) 0 handover_batch [] 0)) handover_state = ([(p1, Some dns), (p2, None)], 0, h2)"
    and p: "pr_id p1 = ''r1''" "pr_stored p1 = stored_of (udp_key 54) (udp_rule ''r1'' 54)"
      "pr_id p2 = ''r2''" "pr_stored p2 = stored_of (udp_key 53) (udp_rule ''r2'' 53)"
    and h: "shadowMap h2 = ([], [True])" "activeRuleSlot h2 = 0" "snd (blacklist h2) = []"
      "fst (blacklist h2) = [(ruleKeyToBytes (udp_key 54), ruleValueToBytes (pr_value p1)), (ruleKeyToBytes (udp_key 53), ruleValueToBytes (pr_value p2))]"
      "rules h2 = [(''r1'', pr_stored p1), (''r2'', pr_stored p2)]" "ruleKeyIndex h2 = [(udp_key 54, ''r1''), (udp_key 53, ''r2'')]"
    using handover_stage by blast
  let ?h3 = "set_shadowMap ([], []) h2"
  have h3: "activeRuleSlot ?h3 = activeRuleSlot h2" "blacklist ?h3 = blacklist h2" "rules ?h3 = rules h2" "ruleKeyIndex ?h3 = ruleKeyIndex h2"
    by (simp_all add: set_shadowMap_def)
  have "AddRulesBatch sample_kernel (\<lambda>_. []) handover_batch handover_state =
      (BatchPublishFailed (CopyFailed 0), rollback_items sample_kernel [(p1, Some dns), (p2, None)] ?h3)"
    using st failing_publish [OF h(1)]
    unfolding AddRulesBatch_def none Let_def by (cases "prepare_batch (\<lambda>_. []) 0 handover_batch [] 0") simp
  moreover note handover_rollback [OF p, of ?h3]
  moreover have "fst (activeBlacklist handover_state) = [(ruleKeyToBytes (udp_key 53), rule_val dns)]"
    "rules handover_state = [(''r1'', dns)]"
    by (simp_all add: handover_state_def activeBlacklist_def empty_handlers_def)
  moreover have "blacklist h2 = ([(ruleKeyToBytes (udp_key 54), ruleValueToBytes (pr_value p1)), (ruleKeyToBytes (udp_key 53), ruleValueToBytes (pr_value p2))], [])"
    using h(3,4) by (simp add: prod_eq_iff)
  ultimately show ?thesis using h h3 by simp
qed

text \<open>C23. Deleting a rule refines the deletion from the pair of tables. On a reliable hash map a deletion
fails only for an ID that is in neither table; an ID that is in both is removed from the exact table first.
The kernel maps agree with the tables again, whatever happens to the publish.\<close>

theorem delete_rule_refines:
  fixes h h' :: "('m, 'c, 't) Handlers"
  assumes R: "hash_reliable (hash K) get" and t: "tables_ok h" and m: "agent_mirror get h"
    and d: "DeleteRule K rid h = (r, h')"
  shows "spec_delete rid (rule_tables h) = (r = RuleDeleted, rule_tables h') \<and> (r = RuleDeleted \<or> r = RuleNotFound) \<and>
    map_of (wlEntries h') = map_of (wlEntries h) \<and> agent_mirror get h'"
proof -
  note mi = DeleteRule_mirror [OF R t m d] and re = DeleteRule_result [OF t d]
  have "r = RuleNotFound \<longleftrightarrow> map_of (rules h) rid = None \<and> map_of (cidrRules h) rid = None"
    using d by (cases rule: DeleteRule_cases) simp_all
  then show ?thesis using mi re by (cases "r = RuleDeleted") (auto split: if_splits)
qed

text \<open>C24. A batch of deletions is the sequence of its deletions. On a reliable hash map the two counts
answered and the two tables afterwards are those of deleting the IDs one after the other, repeated and
missing IDs included, and every ID is counted once.\<close>

theorem delete_batch_refines:
  fixes h h' :: "('m, 'c, 't) Handlers"
  assumes R: "hash_reliable (hash K) get" and t: "tables_ok h" and m: "agent_mirror get h"
    and d: "DeleteRulesBatch K ids h = ((deleted, failed), h')"
  shows "spec_delete_all ids (rule_tables h) = (deleted, failed, rule_tables h') \<and> agent_mirror get h' \<and>
    deleted + failed = int (length ids)"
proof -
  obtain es cs f h1 where c: "delete_items K ids h = (es, cs, f, h1)" "(deleted, failed) = (int (length es) + int (length cs), f)"
    "if es \<noteq> [] \<or> cs \<noteq> [] then \<exists>e h2. publishConfigUpdate K (- int (length es)) 0 (- int (length cs)) h1 = (e, h2) \<and>
         h' = fold forget_pps (es @ cs) h2
       else h' = h1"
    by (rule DeleteRulesBatch_cases [OF d])
  have T: "rule_tables h' = rule_tables h1"
    using c(3) publish_views(9,10) [of K "- int (length es)" 0 "- int (length cs)" h1]
    by (auto split: if_splits)
  have s: "spec_delete_all ids (rule_tables h) = (deleted, failed, rule_tables h')"
    using delete_items_spec [OF R t m c(1)] c(2) T by simp
  have "d1 + f1 = int (length ids)" if "spec_delete_all ids T = (d1, f1, T')" for T d1 f1 T' and ids :: "string list"
    using that by (induction ids arbitrary: T d1 f1) (auto simp: Let_def split: prod.splits if_splits)
  with s DeleteRulesBatch_mirror [OF R t m d] show ?thesis by blast
qed

section \<open>Witnesses\<close>


text \<open>A state with one rule.\<close>

lemma sample_one_rule:
  obtains h :: "((bytes, bytes) gomap, (bytes, bytes) gomap, (trie_key \<times> u32) list) Handlers"
  where "tables_ok h" "agent_mirror map_of h" "map_of (rules h) ''r1'' = Some (stored_of (udp_key 53) (udp_rule ''r1'' 53))"
proof -
  obtain h0 where n: "NewHandlers plain_kernel plain_start = Some h0" using sample_started by blast
  note i = conjunct1 [OF NewHandlers_inv [OF plain_laws(4) n plain_start_fields(1)]]
  note r = sample_reachable [OF n]
  have "agent_inv plain_get (snd (sample_add h0))"
    using agent_reachable_keeps [OF plain_laws(2,4) r i] by (simp add: keeps_def)
  then have "tables_ok (snd (sample_add h0))" by (rule agent_invD(3))
  moreover have "agent_mirror map_of (snd (sample_add h0))"
    by (rule agent_reachable_mirror [OF plain_laws(1,4) r i NewHandlers_mirror [OF n plain_start_fields(2-4)]])
  ultimately show ?thesis using that sample_stored(2) [OF n] by blast
qed

theorem delete_rule_refines_witness:
  "\<exists>h. map_of (rules h) ''r1'' \<noteq> None \<and> fst (DeleteRule plain_kernel ''r1'' h) = RuleDeleted \<and>
     map_of (rules (snd (DeleteRule plain_kernel ''r1'' h))) ''r1'' = None"
proof -
  obtain h :: "((bytes, bytes) gomap, (bytes, bytes) gomap, (trie_key \<times> u32) list) Handlers"
    where h: "tables_ok h" "agent_mirror map_of h" "map_of (rules h) ''r1'' = Some (stored_of (udp_key 53) (udp_rule ''r1'' 53))"
    by (rule sample_one_rule)
  from delete_rule_refines [OF plain_laws(1) h(1,2) prod.collapse [symmetric], of "''r1''"] h(3) show ?thesis
    by (intro exI [of _ h]) (auto dest: fun_cong [where x = "''r1''"])
qed

theorem delete_batch_refines_witness:
  "\<exists>h. map_of (rules h) ''r1'' \<noteq> None \<and> map_of (rules (snd (DeleteRulesBatch plain_kernel [''r1'', ''r2''] h))) ''r1'' = None"
proof -
  obtain h :: "((bytes, bytes) gomap, (bytes, bytes) gomap, (trie_key \<times> u32) list) Handlers"
    where h: "tables_ok h" "agent_mirror map_of h" "map_of (rules h) ''r1'' = Some (stored_of (udp_key 53) (udp_rule ''r1'' 53))"
    by (rule sample_one_rule)
  obtain d f h' where d: "DeleteRulesBatch plain_kernel [''r1'', ''r2''] h = ((d, f), h')"
    by (cases "DeleteRulesBatch plain_kernel [''r1'', ''r2''] h") auto
  show ?thesis
    by (intro exI [of _ h], use delete_batch_refines [OF plain_laws(1) h(1,2) d] h(3) d in \<open>auto split: if_splits dest: fun_cong [where x = "''r1''"]\<close>)
qed

end
