(* ===== verification/SyncProps.thy ===== *)
theory SyncProps
  imports BatchProps
begin

text \<open>
  Properties of the atomic syncs as the BPF program sees them: a failed sync is invisible, a
  successful one replaces the tables, and what goes wrong when the unchecked copy of the
  configuration fails.
\<close>

section \<open>What the program sees\<close>

text \<open>Everything the BPF program can reach.\<close>

definition seen_all where
  "seen_all get h = (map (seen_entry get h) [0..<ConfigMapEntries], seen_rules get h, seen_cidr_rules get h, seen_whitelist get h)"

lemma seen_unchanged:
  assumes u: "unchanged get h h'" and i: "agent_inv get h"
  shows "seen_all get h' = seen_all get h"
proof -
  note U = unchangedD [OF u] and I = agent_invD [OF i]
  have s: "activeRuleSlot h' = activeRuleSlot h" "activeWLSlot h' = activeWLSlot h" using U(6) by (simp_all add: slots_view_def)
  have so: "sel_ok get h'" using I(2) s U(2) by (simp add: sel_ok_def)
  show ?thesis
    unfolding seen_all_def seen_maps [OF U(1) so] seen_maps [OF I(4,2)] seen_published [OF U(1)] seen_published [OF I(4)] U(7-9)
    using U(2) by simp
qed

lemma unchanged_tables:
  assumes "unchanged get h h'"
  shows "rules h' = rules h" "cidrRules h' = cidrRules h" "wlEntries h' = wlEntries h"
  using unchangedD(3-5) [OF assms] by (auto intro: view_fields)

section \<open>A copy that fails\<close>

text \<open>The whitelist is in slot B with one entry; the write of entry 8 of the shadow config fails.\<close>

definition copy_fault_state :: "(fmap, fmap, (trie_key \<times> u32) list) Handlers" where
  "copy_fault_state = (empty_handlers [] (replicate 8 False @ [True]))
     \<lparr>configA := ([(le32 8, le64 1)], []), activeWLSlot := 1, wlEntries := [(''w'', udp_key 53)],
      wlKeyIndex := [(udp_key 53, ''w'')], wlComboRefCount := refs_inc (getComboType (udp_key 53)) zero64,
      whitelistB := ([(ruleKeyToBytes (udp_key 53), wlValue)], [])\<rparr>"

lemma clear_empty: "clearMap list_hash ([], []) = (None, ([], []))"
  by (simp add: clearMap_def list_hash_def)

lemma clear_shadows_same:
  assumes "activeRuleSlot h = 0" "blacklistB h = ([], [])" "cidrBlacklistB h = ([], [])"
  shows "clear_shadows \<lparr>hash = list_hash, arr = A, trie = T\<rparr> h = h"
proof -
  have "h\<lparr>blacklistB := ([], [])\<rparr> = h" by (cases h) (use assms(2) in simp)
  moreover have "h\<lparr>cidrBlacklistB := ([], [])\<rparr> = h" by (cases h) (use assms(3) in simp)
  ultimately show ?thesis using assms by (simp add: clear_shadows_def clear_empty shadowBlacklist_def set_shadowBlacklist_def shadowCidrBlacklist_def set_shadowCidrBlacklist_def)
qed

lemma clear_shadows_fields [simp]:
  "wlEntries (clear_shadows K h) = wlEntries h" "activeWLSlot (clear_shadows K h) = activeWLSlot h"
  "whitelist (clear_shadows K h) = whitelist h" "activeSlot (clear_shadows K h) = activeSlot h"
  "activeConfig (clear_shadows K h) = activeConfig h" "configB (clear_shadows K h) = configB h"
  by (simp_all add: clear_shadows_def set_shadowBlacklist_def set_shadowCidrBlacklist_def Let_def)

lemma put_entries_plain:
  "put_entries list_array us (m, []) = (None, (rev (map (\<lambda>(i, v). (le32 (of_nat i), le64 v)) us) @ m, []))"
  by (induction us arbitrary: m) (auto simp: cfg_put_def list_array_def faulty_def)

abbreviation (input) copied where
  "copied a is \<equiv> rev (map (\<lambda>i. (le32 (of_nat i), case map_of (fst a) (le32 (of_nat i)) of Some v \<Rightarrow> v | None \<Rightarrow> replicate 8 0)) is)"

lemma copy_plain:
  "copy_unchecked list_array a is (m, replicate (length is) False @ fs) = (copied a is @ m, fs)"
  by (induction "is" arbitrary: m) (auto simp: list_array_def faulty_def split: prod.splits)

lemma copy_exhausted: "copy_unchecked list_array a is (m, []) = (copied a is @ m, [])"
  by (induction "is" arbitrary: m) (auto simp: list_array_def faulty_def split: prod.splits)

lemma copy_append: "copy_unchecked A b (xs @ ys) c = copy_unchecked A b ys (copy_unchecked A b xs c)"
  by (induction xs arbitrary: c) (auto split: option.splits)

lemma copy_fault:
  "\<exists>m. copy_unchecked list_array a [0..<ConfigMapEntries] ([], replicate 8 False @ [True]) = (m, []) \<and> map_of m (le32 8) = None"
proof -
  have u: "[0..<ConfigMapEntries] = [0..<8] @ [8] @ [9..<12]" by (simp add: upt_rec)
  have l: "length [0..<8] = 8" by simp
  have e: "copy_unchecked list_array a [8] (m, [True]) = (m, [])" for m
    by (simp add: list_array_def faulty_def split: prod.splits)
  have ne: "le32 (of_nat i) \<noteq> le32 8" if "i \<in> set ([0..<8] @ [9..<12])" for i
    using le32_index_eq [of i 8] that by auto
  have "le32 8 \<notin> fst ` set (copied a [9..<12] @ copied a [0..<8] @ [])"
    using ne by (fastforce simp del: le_inject)
  then have "map_of (copied a [9..<12] @ copied a [0..<8] @ []) (le32 8) = None" unfolding map_of_eq_None_iff .
  then show ?thesis
    unfolding u copy_append copy_plain [of a "[0..<8]" "[]" "[True]", unfolded l] e copy_exhausted by blast
qed

lemma copy_fault_sync:
  "\<exists>h'. DoAtomicSync sample_kernel (\<lambda>_. []) [] copy_fault_state = ((\<lparr>as_Added = 0, as_Failed = 0, as_ExactRules = 0, as_CIDRRules = 0\<rparr>, None), h') \<and>
     wlEntries h' = wlEntries copy_fault_state \<and> activeWLSlot h' = 1 \<and> fst (whitelist h') = [] \<and>
     activeSlot h' = 1 \<and> fst (activeConfig h') = [(le32 0, le64 1)] \<and> map_of (fst (configB h')) (le32 8) = None"
proof -
  let ?h = copy_fault_state
  have c: "clear_shadows sample_kernel ?h = ?h"
    unfolding sample_kernel_def by (rule clear_shadows_same) (simp_all add: copy_fault_state_def empty_handlers_def)
  obtain m where m: "copy_unchecked list_array (configA ?h) [0..<ConfigMapEntries] ([], replicate 8 False @ [True]) = (m, [])"
    "map_of m (le32 8) = None" using copy_fault by blast
  have s0: "activeMap ?h = configA ?h" "shadowMap ?h = ([], replicate 8 False @ [True])" "activeRuleSlot ?h = 0" "activeSlot ?h = 0"
    "cidrRules ?h = []" "activeWLSlot ?h = 1" "fst (whitelist ?h) = []" "activeConfig ?h = ([], [])" "arr sample_kernel = list_array"
    by (simp_all add: copy_fault_state_def empty_handlers_def activeMap_def shadowMap_def sample_kernel_def)
  obtain us where us: "sync_config ?h empty_build = us" "map fst us = [2, 0, 7, 6, 9, 10]" by (simp add: sync_config_def)
  let ?m = "rev (map (\<lambda>(i, v). (le32 (of_nat i), le64 v)) us) @ m"
  have "le32 8 \<notin> fst ` set (rev (map (\<lambda>(i, v). (le32 (of_nat i), le64 v)) us))"
  proof
    assume "le32 8 \<in> fst ` set (rev (map (\<lambda>(i, v). (le32 (of_nat i), le64 v)) us))"
    then obtain i where i: "i \<in> set (map fst us)" "le32 8 = le32 (of_nat i)" by (force simp del: le_inject)
    with le32_index_eq [of 8 i] us(2) show False by auto
  qed
  then have m8: "map_of ?m (le32 8) = None" using m(2) unfolding map_of_eq_None_iff set_append image_Un by blast
  let ?h1 = "set_shadowMap (?m, []) ?h"
  have sw: "switch_slot sample_kernel ?h1 = (None, ?h1\<lparr>activeConfig := ([(le32 0, le64 1)], []), activeSlot := 1\<rparr>)"
    by (simp add: switch_slot_def set_shadowMap_def s0 list_array_def faulty_def)
  have "\<exists>h'. sync_switch sample_kernel empty_build ?h = (None, h') \<and>
     wlEntries h' = wlEntries ?h \<and> activeWLSlot h' = 1 \<and> fst (whitelist h') = [] \<and>
     activeSlot h' = 1 \<and> fst (activeConfig h') = [(le32 0, le64 1)] \<and> configB h' = (?m, [])"
    unfolding sync_switch_def Let_def s0 m us(1) put_entries_plain prod.case option.case sw
    by (rule exI, rule conjI, rule refl)
      (simp add: release_rules_def install_build_def set_shadowMap_def s0 empty_build_def)
  with m8 c show ?thesis by (auto simp: DoAtomicSync_def empty_build_def)
qed

section \<open>Properties\<close>



text \<open>C22. A failed write during the copy is not noticed. In a consistent state the whitelist is in slot B
and has one entry, which the BPF program sees. A sync of the empty rule set runs while the kernel refuses
one write of the copy of the configuration, that of entry 8, the whitelist selector. The sync reports
success, the agent's table still has the entry, and the program now reads the other, empty whitelist map.\<close>

theorem sync_loses_whitelist:
  "sel_ok farray_get copy_fault_state \<and>
   fst (seen_whitelist farray_get copy_fault_state) = [(ruleKeyToBytes (udp_key 53), wlValue)] \<and>
   (\<exists>r h'. DoAtomicSync sample_kernel (\<lambda>_. []) [] copy_fault_state = ((r, None), h') \<and>
     wlEntries h' = [(''w'', udp_key 53)] \<and> fst (seen_whitelist farray_get h') = [])"
proof -
  let ?h = copy_fault_state
  have g: "cfg_get farray_get c 0 = (case map_of (fst c) (le32 0) of None \<Rightarrow> 0 | Some v \<Rightarrow> le_read v)"
    "cfg_get farray_get c 8 = (case map_of (fst c) (le32 8) of None \<Rightarrow> 0 | Some v \<Rightarrow> le_read v)"
    "cfg_get farray_get c 9 = (case map_of (fst c) (le32 9) of None \<Rightarrow> 0 | Some v \<Rightarrow> le_read v)" for c
    by (simp_all add: cfg_get_def farray_get_def numeral_eq_Suc split: option.split)
  have s0: "activeConfig ?h = ([], [])" "configA ?h = ([(le32 8, le64 1)], [])" "activeSlot ?h = 0"
    "whitelistB ?h = ([(ruleKeyToBytes (udp_key 53), wlValue)], [])" "activeRuleSlot ?h = 0" "activeWLSlot ?h = 1"
    "wlEntries ?h = [(''w'', udp_key 53)]"
    by (simp_all add: copy_fault_state_def empty_handlers_def)
  have "seen_entry farray_get ?h 8 = 1"
    unfolding seen_entry_def g s0 by simp
  then have a: "fst (seen_whitelist farray_get ?h) = [(ruleKeyToBytes (udp_key 53), wlValue)]" by (simp add: seen_whitelist_def s0)
  have b: "sel_ok farray_get ?h" unfolding sel_ok_def published_def activeMap_def g s0 by simp
  obtain r h' where s: "DoAtomicSync sample_kernel (\<lambda>_. []) [] ?h = ((r, None), h')" and
    h': "wlEntries h' = wlEntries ?h" "fst (whitelist h') = []" "fst (activeConfig h') = [(le32 0, le64 1)]"
      "map_of (fst (configB h')) (le32 8) = None" using copy_fault_sync by blast
  have "seen_entry farray_get h' 8 = 0" unfolding seen_entry_def g h' by (simp add: h'(4))
  then have "fst (seen_whitelist farray_get h') = []" by (simp add: seen_whitelist_def h'(2))
  with a b s h'(1) s0(7) show ?thesis by metis
qed

text \<open>C19. The whitelist sync is all or nothing. A whitelist sync that reports an error leaves the table and
everything the program reaches as they were, whichever kernel call failed. One that succeeds leaves exactly
the validated entries of the request, and the map the program now reads has exactly their keys, even when
the kernel is unreliable; the rule tables are not touched. In both cases the invariant holds again.\<close>

theorem whitelist_sync_all_or_nothing:
  fixes h h' :: "('m, 'c, 't) Handlers"
  assumes H: "hash_laws (hash K) get" and A: "array_laws (arr K) geta" and i: "agent_inv geta h"
    and s: "DoWhitelistAtomicSync K entries h = (r, h')"
  shows "agent_inv geta h' \<and> rules h' = rules h \<and> cidrRules h' = cidrRules h \<and>
    (case r of
       Some e \<Rightarrow> wlEntries h' = wlEntries h \<and> seen_all geta h' = seen_all geta h
     | None \<Rightarrow> (\<exists>items. wl_sync_items [] [] entries = Inr items \<and> map_of (wlEntries h') = map_of items \<and>
         length (wlEntries h') = length items \<and>
         (\<forall>kb vb. get (seen_whitelist geta h') kb = Some vb \<longleftrightarrow>
            (\<exists>wid k. map_of (wlEntries h') wid = Some k \<and> kb = ruleKeyToBytes k \<and> vb = wlValue))))"
proof -
  note I = agent_invD [OF i]
  have inv: "agent_inv geta h'" using DoWhitelistAtomicSync_keeps [OF H A i s] by (simp add: keeps_def)
  show ?thesis
  proof (cases r)
    case (Some e)
    then have u: "unchanged geta h h'" using DoWhitelistAtomicSync_failed [OF A I(4)] s by blast
    show ?thesis using inv unchanged_tables [OF u] seen_unchanged [OF u i] Some by simp
  next
    case None
    obtain items where it: "wl_sync_items [] [] entries = Inr items" "map_of (wlEntries h') = map_of items"
      "length (wlEntries h') = length items" "wl_mirror get h'" "not_wl_views (h'\<lparr>activeWLSlot := activeWLSlot h\<rparr>) = not_wl_views h"
      using DoWhitelistAtomicSync_done [OF H A I(4) sel_okD(2) [OF I(2)] s [unfolded None]] by metis
    have v: "rules h' = rules h" "cidrRules h' = cidrRules h"
      using it(5) by (simp_all add: not_wl_views_def view_defs)
    have m: "seen_whitelist geta h' = activeWhitelist h'" using seen_maps [OF agent_invD(4,2) [OF inv]] by blast
    have "get (seen_whitelist geta h') kb = Some vb \<longleftrightarrow>
        (\<exists>wid k. map_of (wlEntries h') wid = Some k \<and> kb = ruleKeyToBytes k \<and> vb = wlValue)" for kb vb
      unfolding m using it(4) by (simp add: wl_mirror_def image_of_def)
    then show ?thesis using inv v it(1-3) None by simp
  qed
qed

section \<open>Witnesses\<close>

lemma sample_agent_inv: "agent_inv farray_get (empty_handlers fa fb)"
  using empty_agent_ok
  by (simp add: agent_inv_def sel_ok_def published_def empty_handlers_def activeMap_def cfg_get_def farray_get_def numeral_eq_Suc)


lemma put_entries_succeeds:
  assumes R: "array_reliable A get"
  shows "\<exists>c'. put_entries A us c = (None, c')"
proof (induction us arbitrary: c)
  case (Cons u us)
  obtain i v where u: "u = (i, v)" by force
  obtain c1 where "cfg_put A i v c = (None, c1)" using cfg_put_succeeds [OF R] by blast
  with Cons.IH [of c1] show ?case by (simp add: u)
qed simp

lemma sync_switch_succeeds:
  assumes R: "array_reliable (arr K) get"
  shows "fst (sync_switch K b h) = None"
proof -
  obtain c where c: "put_entries (arr K) (sync_config h b)
      (copy_unchecked (arr K) (activeMap h) [0..<ConfigMapEntries] (shadowMap h)) = (None, c)"
    using put_entries_succeeds [OF R] by blast
  obtain h2 where "switch_slot K (set_shadowMap c h) = (None, h2)" using switch_slot_succeeds [OF R] by blast
  then show ?thesis unfolding sync_switch_def Let_def c prod.case option.case by simp
qed

lemma sync_udp: "sync_action (udp_rule rid 53) = Some ActionDrop" "sync_exact_checks (udp_rule rid 53) = Some (udp_key 53, 0, 0)"
proof -
  show "sync_action (udp_rule rid 53) = Some ActionDrop" by (simp add: sync_action_def udp_rule_def parseAction_def)
  have r: "validateRule (r_SrcIP (udp_rule rid 53)) (r_DstIP (udp_rule rid 53)) (r_Protocol (udp_rule rid 53))
      (r_SrcPort (udp_rule rid 53)) (r_DstPort (udp_rule rid 53)) (r_PktLenMin (udp_rule rid 53))
      (r_PktLenMax (udp_rule rid 53)) = None"
    by (simp add: udp_rule_def validateRule_def validatePortProtocolCompatNode_def portlessProtocolsNode_def
        strings_ToLower_def lower_char_def of_char_def)
  have a: "validateNodeAnomalyFields (r_MatchAnomaly (udp_rule rid 53)) (r_Action (udp_rule rid 53))
      (r_SrcIP (udp_rule rid 53)) (r_DstIP (udp_rule rid 53)) (r_SrcCIDR (udp_rule rid 53)) (r_DstCIDR (udp_rule rid 53)) = None"
    by (simp add: udp_rule_def validateNodeAnomalyFields_def)
  show "sync_exact_checks (udp_rule rid 53) = Some (udp_key 53, 0, 0)"
    unfolding sync_exact_checks_def r a udp_key_of by (simp add: udp_combo validateComboType_def udp_flags)
qed


theorem whitelist_sync_all_or_nothing_witness:
  "\<exists>r h'. DoWhitelistAtomicSync plain_kernel [] plain_start = (r, h') \<and> rules h' = [] \<and> agent_inv plain_get h'"
proof -
  obtain r h' where s: "DoWhitelistAtomicSync plain_kernel [] plain_start = (r, h')" by force
  from whitelist_sync_all_or_nothing [OF plain_laws(2,4) plain_start_ok(1) s] s show ?thesis
    by (auto simp: plain_start_def)
qed

end
