(* ===== verification/CtlModel.thy ===== *)
theory CtlModel
  imports Convert
begin

text \<open>
  The data of the controller (\<^verbatim>\<open>controller/internal/model\<close>) and the form in which it sends rules and
  whitelist entries to the nodes: JSON objects that the node decodes into the structs of its own API.
  Times are nanoseconds; a pointer of a request, which tells an absent field from an empty one, is an
  option.
\<close>

section \<open>Rules\<close>

record CRule =
  c_ID :: string
  c_Name :: string
  c_SrcIP :: string
  c_DstIP :: string
  c_SrcCIDR :: string
  c_DstCIDR :: string
  c_SrcPort :: int
  c_DstPort :: int
  c_Protocol :: string
  c_Action :: string
  c_RateLimit :: int
  c_PktLenMin :: int
  c_PktLenMax :: int
  c_TcpFlags :: string
  c_MatchAnomaly :: int
  c_Source :: string
  c_Comment :: string
  c_Enabled :: bool
  c_CreatedAt :: int
  c_ExpiresAt :: "int option"
  c_UpdatedAt :: int

record RuleRequest =
  q_Name :: string
  q_SrcIP :: string
  q_DstIP :: string
  q_SrcCIDR :: string
  q_DstCIDR :: string
  q_SrcPort :: int
  q_DstPort :: int
  q_Protocol :: string
  q_Action :: string
  q_RateLimit :: int
  q_PktLenMin :: "int option"
  q_PktLenMax :: "int option"
  q_TcpFlags :: "string option"
  q_Decoder :: string
  q_MatchAnomaly :: int
  q_ExpiresIn :: string
  q_Source :: string
  q_Enabled :: "bool option"
  q_Comment :: "string option"

text \<open>The request whose JSON body is \<^verbatim>\<open>{}\<close>.\<close>

definition empty_request :: RuleRequest where
  "empty_request =
     \<lparr>q_Name = [], q_SrcIP = [], q_DstIP = [], q_SrcCIDR = [], q_DstCIDR = [], q_SrcPort = 0, q_DstPort = 0,
      q_Protocol = [], q_Action = [], q_RateLimit = 0, q_PktLenMin = None, q_PktLenMax = None, q_TcpFlags = None,
      q_Decoder = [], q_MatchAnomaly = 0, q_ExpiresIn = [], q_Source = [], q_Enabled = None, q_Comment = None\<rparr>"

definition derefString :: "string option \<Rightarrow> string" where
  "derefString p = (case p of None \<Rightarrow> [] | Some s \<Rightarrow> s)"

definition derefInt :: "int option \<Rightarrow> int" where
  "derefInt p = (case p of None \<Rightarrow> 0 | Some n \<Rightarrow> n)"

section \<open>Whitelist entries\<close>

record CWhitelist =
  e_ID :: string
  e_Name :: string
  e_SrcIP :: string
  e_DstIP :: string
  e_SrcPort :: int
  e_DstPort :: int
  e_Protocol :: string
  e_Comment :: string
  e_CreatedAt :: int

record WhitelistRequest =
  wq_Name :: string
  wq_SrcIP :: string
  wq_DstIP :: string
  wq_SrcPort :: int
  wq_DstPort :: int
  wq_Protocol :: string
  wq_Comment :: string

section \<open>The form sent to a node\<close>

text \<open>
  A \<^verbatim>\<open>map[string]interface{}\<close> whose values are strings and numbers; \<open>JNested\<close> is a value of any other
  kind, as the statistics a node adds to a rule, which is never looked into.
\<close>

datatype json_value = JString string | JInt int | JNested

type_synonym json_object = "(string, json_value) gomap"

definition opt_field :: "bool \<Rightarrow> string \<Rightarrow> json_value \<Rightarrow> json_object" where
  "opt_field b k v = (if b then [(k, v)] else [])"

definition ToNodeRule :: "CRule \<Rightarrow> json_object" where
  "ToNodeRule r =
     [(''id'', JString (c_ID r)), (''action'', JString (c_Action r))] @
     opt_field (c_SrcIP r \<noteq> []) ''src_ip'' (JString (c_SrcIP r)) @
     opt_field (c_DstIP r \<noteq> []) ''dst_ip'' (JString (c_DstIP r)) @
     opt_field (c_SrcPort r > 0) ''src_port'' (JInt (c_SrcPort r)) @
     opt_field (c_DstPort r > 0) ''dst_port'' (JInt (c_DstPort r)) @
     opt_field (c_Protocol r \<noteq> [] \<and> c_Protocol r \<noteq> ''all'') ''protocol'' (JString (c_Protocol r)) @
     opt_field (c_RateLimit r > 0) ''rate_limit'' (JInt (c_RateLimit r)) @
     opt_field (c_PktLenMin r > 0) ''pkt_len_min'' (JInt (c_PktLenMin r)) @
     opt_field (c_PktLenMax r > 0) ''pkt_len_max'' (JInt (c_PktLenMax r)) @
     opt_field (c_TcpFlags r \<noteq> []) ''tcp_flags'' (JString (c_TcpFlags r)) @
     opt_field (c_SrcCIDR r \<noteq> []) ''src_cidr'' (JString (c_SrcCIDR r)) @
     opt_field (c_DstCIDR r \<noteq> []) ''dst_cidr'' (JString (c_DstCIDR r)) @
     opt_field (c_MatchAnomaly r \<noteq> 0) ''match_anomaly'' (JInt (c_MatchAnomaly r))"

definition ToNodeWhitelist :: "CWhitelist \<Rightarrow> json_object" where
  "ToNodeWhitelist w =
     [(''id'', JString (e_ID w))] @
     opt_field (e_SrcIP w \<noteq> []) ''src_ip'' (JString (e_SrcIP w)) @
     opt_field (e_DstIP w \<noteq> []) ''dst_ip'' (JString (e_DstIP w)) @
     opt_field (e_SrcPort w > 0) ''src_port'' (JInt (e_SrcPort w)) @
     opt_field (e_DstPort w > 0) ''dst_port'' (JInt (e_DstPort w)) @
     opt_field (e_Protocol w \<noteq> []) ''protocol'' (JString (e_Protocol w))"

section \<open>Decoding on the node\<close>

text \<open>
  What \<^verbatim>\<open>encoding/json\<close> does with a struct field: an absent key leaves the zero value, a value of the
  wrong kind or a number that does not fit is an error of the whole request.
\<close>

definition json_string :: "string \<Rightarrow> json_object \<Rightarrow> string option" where
  "json_string k obj = (case map_of obj k of None \<Rightarrow> Some [] | Some (JString s) \<Rightarrow> Some s | Some _ \<Rightarrow> None)"

definition json_uint :: "string \<Rightarrow> json_object \<Rightarrow> 'w::len word option" where
  "json_uint k obj =
     (case map_of obj k of
        None \<Rightarrow> Some 0
      | Some (JInt n) \<Rightarrow> if 0 \<le> n \<and> n < 2 ^ LENGTH('w) then Some (of_int n) else None
      | Some _ \<Rightarrow> None)"

abbreviation (input) and_get :: "'a option \<Rightarrow> ('a \<Rightarrow> 'b option) \<Rightarrow> 'b option" where
  "and_get \<equiv> Option.bind"

definition decode_rule :: "json_object \<Rightarrow> Rule option" where
  "decode_rule obj =
     and_get (json_string ''id'' obj) (\<lambda>rid. and_get (json_string ''src_ip'' obj) (\<lambda>sip.
     and_get (json_string ''dst_ip'' obj) (\<lambda>dip. and_get (json_string ''src_cidr'' obj) (\<lambda>sc.
     and_get (json_string ''dst_cidr'' obj) (\<lambda>dc. and_get (json_uint ''src_port'' obj) (\<lambda>sp.
     and_get (json_uint ''dst_port'' obj) (\<lambda>dp. and_get (json_string ''protocol'' obj) (\<lambda>pr.
     and_get (json_string ''action'' obj) (\<lambda>ac. and_get (json_uint ''rate_limit'' obj) (\<lambda>rl.
     and_get (json_uint ''pkt_len_min'' obj) (\<lambda>lmin. and_get (json_uint ''pkt_len_max'' obj) (\<lambda>lmax.
     and_get (json_string ''tcp_flags'' obj) (\<lambda>fl. and_get (json_uint ''match_anomaly'' obj) (\<lambda>an.
     and_get (json_string ''comment'' obj) (\<lambda>co.
       Some \<lparr>r_ID = rid, r_SrcIP = sip, r_DstIP = dip, r_SrcCIDR = sc, r_DstCIDR = dc, r_SrcPort = sp, r_DstPort = dp,
             r_Protocol = pr, r_Action = ac, r_RateLimit = rl, r_PktLenMin = lmin, r_PktLenMax = lmax, r_TcpFlags = fl,
             r_MatchAnomaly = an, r_Comment = co\<rparr>)))))))))))))))"

definition decode_whitelist :: "json_object \<Rightarrow> SyncWhitelistEntry option" where
  "decode_whitelist obj =
     and_get (json_string ''id'' obj) (\<lambda>wid. and_get (json_string ''src_ip'' obj) (\<lambda>sip.
     and_get (json_string ''dst_ip'' obj) (\<lambda>dip. and_get (json_uint ''src_port'' obj) (\<lambda>sp.
     and_get (json_uint ''dst_port'' obj) (\<lambda>dp. and_get (json_string ''protocol'' obj) (\<lambda>pr.
       Some \<lparr>sw_ID = wid, sw_SrcIP = sip, sw_DstIP = dip, sw_SrcPort = sp, sw_DstPort = dp, sw_Protocol = pr\<rparr>))))))"

section \<open>What a node decodes\<close>

text \<open>The rule a node receives, when the numbers fit.\<close>

definition node_rule :: "CRule \<Rightarrow> Rule" where
  "node_rule r =
     \<lparr>r_ID = c_ID r, r_SrcIP = c_SrcIP r, r_DstIP = c_DstIP r, r_SrcCIDR = c_SrcCIDR r, r_DstCIDR = c_DstCIDR r,
      r_SrcPort = of_int (c_SrcPort r), r_DstPort = of_int (c_DstPort r),
      r_Protocol = (if c_Protocol r = ''all'' then [] else c_Protocol r), r_Action = c_Action r,
      r_RateLimit = of_int (c_RateLimit r), r_PktLenMin = of_int (c_PktLenMin r), r_PktLenMax = of_int (c_PktLenMax r),
      r_TcpFlags = c_TcpFlags r, r_MatchAnomaly = of_int (c_MatchAnomaly r), r_Comment = []\<rparr>"

definition rule_fits :: "CRule \<Rightarrow> bool" where
  "rule_fits r \<longleftrightarrow> c_SrcPort r \<in> {0..65535} \<and> c_DstPort r \<in> {0..65535} \<and> c_RateLimit r \<in> {0..4294967295} \<and>
     c_PktLenMin r \<in> {0..65535} \<and> c_PktLenMax r \<in> {0..65535} \<and> c_MatchAnomaly r \<in> {0..255}"

definition node_entry :: "CWhitelist \<Rightarrow> SyncWhitelistEntry" where
  "node_entry w =
     \<lparr>sw_ID = e_ID w, sw_SrcIP = e_SrcIP w, sw_DstIP = e_DstIP w, sw_SrcPort = of_int (e_SrcPort w),
      sw_DstPort = of_int (e_DstPort w), sw_Protocol = e_Protocol w\<rparr>"

lemma opt_field_get [simp]:
  "map_of (opt_field b k v) = (if b then [k \<mapsto> v] else Map.empty)"
  by (simp add: opt_field_def)

lemma if_map_apply [simp]: "(if b then m else m') k = (if b then m k else m' k)"
  by simp

lemma ToNodeRule_get:
  "map_of (ToNodeRule r) ''id'' = Some (JString (c_ID r))" "map_of (ToNodeRule r) ''action'' = Some (JString (c_Action r))"
  "map_of (ToNodeRule r) ''src_ip'' = (if c_SrcIP r = [] then None else Some (JString (c_SrcIP r)))"
  "map_of (ToNodeRule r) ''dst_ip'' = (if c_DstIP r = [] then None else Some (JString (c_DstIP r)))"
  "map_of (ToNodeRule r) ''src_cidr'' = (if c_SrcCIDR r = [] then None else Some (JString (c_SrcCIDR r)))"
  "map_of (ToNodeRule r) ''dst_cidr'' = (if c_DstCIDR r = [] then None else Some (JString (c_DstCIDR r)))"
  "map_of (ToNodeRule r) ''protocol'' =
     (if c_Protocol r = [] \<or> c_Protocol r = ''all'' then None else Some (JString (c_Protocol r)))"
  "map_of (ToNodeRule r) ''tcp_flags'' = (if c_TcpFlags r = [] then None else Some (JString (c_TcpFlags r)))"
  "map_of (ToNodeRule r) ''src_port'' = (if c_SrcPort r > 0 then Some (JInt (c_SrcPort r)) else None)"
  "map_of (ToNodeRule r) ''dst_port'' = (if c_DstPort r > 0 then Some (JInt (c_DstPort r)) else None)"
  "map_of (ToNodeRule r) ''rate_limit'' = (if c_RateLimit r > 0 then Some (JInt (c_RateLimit r)) else None)"
  "map_of (ToNodeRule r) ''pkt_len_min'' = (if c_PktLenMin r > 0 then Some (JInt (c_PktLenMin r)) else None)"
  "map_of (ToNodeRule r) ''pkt_len_max'' = (if c_PktLenMax r > 0 then Some (JInt (c_PktLenMax r)) else None)"
  "map_of (ToNodeRule r) ''match_anomaly'' = (if c_MatchAnomaly r \<noteq> 0 then Some (JInt (c_MatchAnomaly r)) else None)"
  "map_of (ToNodeRule r) ''comment'' = None"
  by (simp_all add: ToNodeRule_def map_add_def)

lemma decode_ToNodeRule:
  assumes "rule_fits r"
  shows "decode_rule (ToNodeRule r) = Some (node_rule r)"
proof -
  note f = assms [unfolded rule_fits_def]
  have s: "json_string ''id'' (ToNodeRule r) = Some (c_ID r)" "json_string ''action'' (ToNodeRule r) = Some (c_Action r)"
    "json_string ''src_ip'' (ToNodeRule r) = Some (c_SrcIP r)" "json_string ''dst_ip'' (ToNodeRule r) = Some (c_DstIP r)"
    "json_string ''src_cidr'' (ToNodeRule r) = Some (c_SrcCIDR r)" "json_string ''dst_cidr'' (ToNodeRule r) = Some (c_DstCIDR r)"
    "json_string ''protocol'' (ToNodeRule r) = Some (if c_Protocol r = ''all'' then [] else c_Protocol r)"
    "json_string ''tcp_flags'' (ToNodeRule r) = Some (c_TcpFlags r)" "json_string ''comment'' (ToNodeRule r) = Some []"
    by (simp_all add: json_string_def ToNodeRule_get)
  have n: "json_uint ''src_port'' (ToNodeRule r) = Some (of_int (c_SrcPort r) :: u16)"
    "json_uint ''dst_port'' (ToNodeRule r) = Some (of_int (c_DstPort r) :: u16)"
    "json_uint ''rate_limit'' (ToNodeRule r) = Some (of_int (c_RateLimit r) :: u32)"
    "json_uint ''pkt_len_min'' (ToNodeRule r) = Some (of_int (c_PktLenMin r) :: u16)"
    "json_uint ''pkt_len_max'' (ToNodeRule r) = Some (of_int (c_PktLenMax r) :: u16)"
    "json_uint ''match_anomaly'' (ToNodeRule r) = Some (of_int (c_MatchAnomaly r) :: u8)"
    using f by (auto simp: json_uint_def ToNodeRule_get)
  show ?thesis by (simp add: decode_rule_def s n node_rule_def)
qed

lemma ToNodeWhitelist_get:
  "map_of (ToNodeWhitelist w) ''id'' = Some (JString (e_ID w))"
  "map_of (ToNodeWhitelist w) ''src_ip'' = (if e_SrcIP w = [] then None else Some (JString (e_SrcIP w)))"
  "map_of (ToNodeWhitelist w) ''dst_ip'' = (if e_DstIP w = [] then None else Some (JString (e_DstIP w)))"
  "map_of (ToNodeWhitelist w) ''src_port'' = (if e_SrcPort w > 0 then Some (JInt (e_SrcPort w)) else None)"
  "map_of (ToNodeWhitelist w) ''dst_port'' = (if e_DstPort w > 0 then Some (JInt (e_DstPort w)) else None)"
  "map_of (ToNodeWhitelist w) ''protocol'' = (if e_Protocol w = [] then None else Some (JString (e_Protocol w)))"
  by (simp_all add: ToNodeWhitelist_def map_add_def)

lemma decode_ToNodeWhitelist:
  assumes "e_SrcPort w \<in> {0..65535}" "e_DstPort w \<in> {0..65535}"
  shows "decode_whitelist (ToNodeWhitelist w) = Some (node_entry w)"
proof -
  have s: "json_string ''id'' (ToNodeWhitelist w) = Some (e_ID w)" "json_string ''src_ip'' (ToNodeWhitelist w) = Some (e_SrcIP w)"
    "json_string ''dst_ip'' (ToNodeWhitelist w) = Some (e_DstIP w)" "json_string ''protocol'' (ToNodeWhitelist w) = Some (e_Protocol w)"
    by (simp_all add: json_string_def ToNodeWhitelist_get)
  have n: "json_uint ''src_port'' (ToNodeWhitelist w) = Some (of_int (e_SrcPort w) :: u16)"
    "json_uint ''dst_port'' (ToNodeWhitelist w) = Some (of_int (e_DstPort w) :: u16)"
    using assms by (auto simp: json_uint_def ToNodeWhitelist_get)
  show ?thesis by (simp add: decode_whitelist_def s n node_entry_def)
qed

end
