(* ===== verification/CtlDecoder.thy ===== *)
theory CtlDecoder
  imports CtlModel
begin

text \<open>
  The decoder shorthand of the controller and its checks of anomaly rules
  (\<^verbatim>\<open>controller/internal/service/decoder.go\<close>). A function of the source that changes its request in place
  returns the changed request; its error is \<open>Inl\<close> of a constructor that names the message.
\<close>

datatype ctl_error =
    UnknownDecoder string
  | DecoderWithProtocol string string
  | DecoderWithTcpFlags string string
  | DecoderWithAnomaly string int
  | DecoderDropOnly string
  | DecoderIPv6Target string
  | DecoderNoTarget
  | BadAnomalyBits int
  | AnomalyRuleDropOnly
  | AnomalyNoBoundedTarget
  | AnomalyIPv6Target
  | ActionRequired
  | BadAction string
  | RateLimitRequired
  | RateLimitWithDrop int
  | PortRange string int
  | PktLenRange string int
  | RateLimitRange int
  | BadIPField string string
  | BadProtocol string
  | PortsWithPortless string int int
  | PureLength
  | EmptyLengthRange int int
  | FlagsWithoutTCP
  | BadTcpFlag string
  | ContradictoryFlags string
  | NoCIDR
  | MixedIPAndCIDR
  | BadSrcCIDR string
  | BadDstCIDR string
  | SrcOverlap string string
  | DstOverlap string string
  | FlagsAndAnomaly
  | RuleExists
  | CIDRRuleExists
  | MergeOntoPlain
  | MergeActionConflict string string
  | BadExpiry string
  | StoreFailed
  | NoSuchRule
  | KeyFieldFixed string
  | EmptyWhitelist
  | WhitelistAll
  | WhitelistExists

section \<open>Decoders\<close>

record decoderSpec =
  ds_Protocol :: string
  ds_TcpFlags :: string
  ds_AnomalyBits :: u8

definition CtlBadFragment :: u8 where "CtlBadFragment = 0x01"
definition CtlInvalid :: u8 where "CtlInvalid = 0x02"

definition knownDecoders :: "(string, decoderSpec) gomap" where
  "knownDecoders =
     [(''tcp_ack'', \<lparr>ds_Protocol = ''tcp'', ds_TcpFlags = ''ACK,!SYN'', ds_AnomalyBits = 0\<rparr>),
      (''tcp_rst'', \<lparr>ds_Protocol = ''tcp'', ds_TcpFlags = ''RST'', ds_AnomalyBits = 0\<rparr>),
      (''tcp_fin'', \<lparr>ds_Protocol = ''tcp'', ds_TcpFlags = ''FIN'', ds_AnomalyBits = 0\<rparr>),
      (''bad_fragment'', \<lparr>ds_Protocol = [], ds_TcpFlags = [], ds_AnomalyBits = CtlBadFragment\<rparr>),
      (''invalid'', \<lparr>ds_Protocol = [], ds_TcpFlags = [], ds_AnomalyBits = CtlInvalid\<rparr>)]"

definition isIPv6String :: "string \<Rightarrow> bool" where
  "isIPv6String s = (s \<noteq> [] \<and> (case net_ParseIP s of None \<Rightarrow> False | Some ip \<Rightarrow> ip_To4 ip = None))"

definition ctl_isIPv6CIDR :: "string \<Rightarrow> bool" where
  "ctl_isIPv6CIDR s = (s \<noteq> [] \<and> (case net_ParseCIDR s of None \<Rightarrow> False | Some (ip, _) \<Rightarrow> ip_To4 ip = None))"

definition rejectIPv6AnomalyTarget :: "RuleRequest \<Rightarrow> string \<Rightarrow> ctl_error option" where
  "rejectIPv6AnomalyTarget req decoderName =
     (if isIPv6String (q_DstIP req) \<or> isIPv6String (q_SrcIP req) \<or>
         ctl_isIPv6CIDR (q_DstCIDR req) \<or> ctl_isIPv6CIDR (q_SrcCIDR req)
      then Some (DecoderIPv6Target decoderName) else None)"

definition hasExplicitTarget :: "RuleRequest \<Rightarrow> bool" where
  "hasExplicitTarget req = (q_DstIP req \<noteq> [] \<or> q_DstCIDR req \<noteq> [] \<or> q_SrcIP req \<noteq> [] \<or> q_SrcCIDR req \<noteq> [])"

definition expand_decoder :: "decoderSpec \<Rightarrow> RuleRequest \<Rightarrow> RuleRequest" where
  "expand_decoder sp req =
     (let req = (if ds_Protocol sp \<noteq> [] then req\<lparr>q_Protocol := ds_Protocol sp\<rparr> else req)
      in if ds_TcpFlags sp \<noteq> [] then req\<lparr>q_TcpFlags := Some (ds_TcpFlags sp)\<rparr> else req)"

definition normalizeDecoderInternal :: "RuleRequest \<Rightarrow> bool \<Rightarrow> ctl_error + RuleRequest" where
  "normalizeDecoderInternal req requireExplicitTarget =
     (if q_Decoder req = [] then Inr req
      else case map_of knownDecoders (q_Decoder req) of
        None \<Rightarrow> Inl (UnknownDecoder (q_Decoder req))
      | Some sp \<Rightarrow>
          if q_Protocol req \<noteq> [] then Inl (DecoderWithProtocol (q_Decoder req) (q_Protocol req))
          else if derefString (q_TcpFlags req) \<noteq> []
            then Inl (DecoderWithTcpFlags (q_Decoder req) (derefString (q_TcpFlags req)))
          else if q_MatchAnomaly req \<noteq> 0 then Inl (DecoderWithAnomaly (q_Decoder req) (q_MatchAnomaly req))
          else
            let req1 = expand_decoder sp req
            in if ds_AnomalyBits sp \<noteq> 0
               then
                 if q_Action req1 = ''rate_limit'' then Inl (DecoderDropOnly (q_Decoder req1))
                 else case (if ds_AnomalyBits sp = CtlBadFragment
                            then rejectIPv6AnomalyTarget req1 (q_Decoder req1) else None) of
                        Some e \<Rightarrow> Inl e
                      | None \<Rightarrow>
                          if requireExplicitTarget \<and> \<not> hasExplicitTarget req1 then Inl DecoderNoTarget
                          else Inr (req1\<lparr>q_MatchAnomaly := uint (ds_AnomalyBits sp), q_Decoder := []\<rparr>)
               else Inr (req1\<lparr>q_Decoder := []\<rparr>))"

definition normalizeDecoder :: "RuleRequest \<Rightarrow> ctl_error + RuleRequest" where
  "normalizeDecoder req = normalizeDecoderInternal req True"

text \<open>An update without a target borrows that of the existing rule for the scope guard and gives it back.\<close>

definition normalizeDecoderForUpdate :: "RuleRequest \<Rightarrow> CRule \<Rightarrow> ctl_error + RuleRequest" where
  "normalizeDecoderForUpdate req existing =
     (if q_DstIP req = [] \<and> q_SrcIP req = [] \<and> q_DstCIDR req = [] \<and> q_SrcCIDR req = []
      then case normalizeDecoderInternal
                  (req\<lparr>q_DstIP := c_DstIP existing, q_SrcIP := c_SrcIP existing,
                       q_DstCIDR := c_DstCIDR existing, q_SrcCIDR := c_SrcCIDR existing\<rparr>) False of
             Inl e \<Rightarrow> Inl e
           | Inr req1 \<Rightarrow>
               Inr (req1\<lparr>q_DstIP := q_DstIP req, q_SrcIP := q_SrcIP req,
                         q_DstCIDR := q_DstCIDR req, q_SrcCIDR := q_SrcCIDR req\<rparr>)
      else normalizeDecoderInternal req True)"

section \<open>Anomaly rules\<close>

definition ctl_boundedExact :: "string \<Rightarrow> bool" where
  "ctl_boundedExact s = (s \<noteq> [] \<and> (case net_ParseIP s of None \<Rightarrow> False | Some ip \<Rightarrow> \<not> ip_IsUnspecified ip))"

definition ctl_boundedCIDR :: "string \<Rightarrow> bool" where
  "ctl_boundedCIDR s =
     (s \<noteq> [] \<and> (case net_ParseCIDR s of None \<Rightarrow> False | Some (_, n) \<Rightarrow> mask_Size (net_Mask n) > 0))"

definition hasBoundedAnomalyTarget :: "string \<Rightarrow> string \<Rightarrow> string \<Rightarrow> string \<Rightarrow> bool" where
  "hasBoundedAnomalyTarget srcIP dstIP srcCIDR dstCIDR =
     (ctl_boundedExact srcIP \<or> ctl_boundedExact dstIP \<or> ctl_boundedCIDR srcCIDR \<or> ctl_boundedCIDR dstCIDR)"

text \<open>The bits are Go \<^verbatim>\<open>int\<close> values; \<open>AND\<close> and \<open>NOT\<close> on the integers are its two's complement.\<close>

definition validateAnomalyEffective ::
  "int \<Rightarrow> string \<Rightarrow> string \<Rightarrow> string \<Rightarrow> string \<Rightarrow> string \<Rightarrow> ctl_error option" where
  "validateAnomalyEffective matchAnomaly action srcIP dstIP srcCIDR dstCIDR =
     (let validBits = uint (CtlBadFragment OR CtlInvalid)
      in if matchAnomaly = 0 then None
         else if matchAnomaly < 0 \<or> matchAnomaly AND NOT validBits \<noteq> 0 then Some (BadAnomalyBits matchAnomaly)
         else if action = ''rate_limit'' then Some AnomalyRuleDropOnly
         else if \<not> hasBoundedAnomalyTarget srcIP dstIP srcCIDR dstCIDR then Some AnomalyNoBoundedTarget
         else if matchAnomaly AND uint CtlBadFragment \<noteq> 0 \<and>
                 (isIPv6String srcIP \<or> isIPv6String dstIP \<or> ctl_isIPv6CIDR srcCIDR \<or> ctl_isIPv6CIDR dstCIDR)
           then Some AnomalyIPv6Target
         else None)"

definition validateAnomalyFields :: "RuleRequest \<Rightarrow> ctl_error option" where
  "validateAnomalyFields req =
     validateAnomalyEffective (q_MatchAnomaly req) (q_Action req) (q_SrcIP req) (q_DstIP req)
       (q_SrcCIDR req) (q_DstCIDR req)"

definition validateAnomalyFieldsForUpdate :: "RuleRequest \<Rightarrow> CRule \<Rightarrow> ctl_error option" where
  "validateAnomalyFieldsForUpdate req existing =
     validateAnomalyEffective
       (if q_MatchAnomaly req \<noteq> 0 then q_MatchAnomaly req else c_MatchAnomaly existing)
       (if q_Action req \<noteq> [] then q_Action req else c_Action existing)
       (c_SrcIP existing) (c_DstIP existing) (c_SrcCIDR existing) (c_DstCIDR existing)"

section \<open>Facts\<close>

text \<open>The accepted bits are the two known ones.\<close>

lemma valid_bits: "uint (CtlBadFragment OR CtlInvalid) = 3"
  by (simp add: CtlBadFragment_def CtlInvalid_def)

lemma and_not_3: "n AND NOT 3 = 0 \<longleftrightarrow> n \<in> {0..3}" for n :: int
proof -
  have m: "(3 :: int) = mask 2" by (simp add: mask_eq_exp_minus_1)
  have "n AND NOT (mask 2) = 0 \<longleftrightarrow> take_bit 2 n = n"
    by (auto simp: bit_eq_iff bit_and_iff bit_not_iff bit_mask_iff bit_take_bit_iff)
  also have "\<dots> \<longleftrightarrow> n \<in> {0..3}" by (auto simp: take_bit_int_eq_self_iff)
  finally show ?thesis unfolding m .
qed

lemma validateAnomalyEffective_None:
  "validateAnomalyEffective an ac sip dip sc dc = None \<longleftrightarrow>
     an = 0 \<or> an \<in> {1..3} \<and> ac \<noteq> ''rate_limit'' \<and> hasBoundedAnomalyTarget sip dip sc dc \<and>
       \<not> (odd an \<and> (isIPv6String sip \<or> isIPv6String dip \<or> ctl_isIPv6CIDR sc \<or> ctl_isIPv6CIDR dc))"
proof -
  have o: "an AND 1 \<noteq> 0 \<longleftrightarrow> odd an" by (simp add: and_one_eq odd_iff_mod_2_eq_one)
  have v: "\<not> (an < 0 \<or> an AND NOT 3 \<noteq> 0) \<longleftrightarrow> an \<in> {0..3}" using and_not_3 [of an] by auto
  have b: "uint CtlBadFragment = 1" by (simp add: CtlBadFragment_def)
  show ?thesis
    unfolding validateAnomalyEffective_def Let_def valid_bits b o using v by (auto split: if_splits)
qed

end
