(* ===== verification/CtlValidate.thy ===== *)
theory CtlValidate
  imports CtlDecoder
begin

text \<open>
  The checks of a request by the controller's rule service and whitelist service
  (\<^verbatim>\<open>controller/internal/service/rule_service.go\<close>, \<^verbatim>\<open>whitelist_service.go\<close>): names, ranges, addresses,
  prefixes, TCP flags.
\<close>

section \<open>Protocols and ports\<close>

definition validProtocols :: "string list" where
  "validProtocols = [''all'', ''tcp'', ''udp'', ''icmp'', ''icmpv6'', ''igmp'', ''gre'', ''esp'', []]"

definition portlessProtocols :: "string list" where
  "portlessProtocols = [''icmp'', ''icmpv6'', ''igmp'', ''gre'', ''esp'']"

definition validatePortProtocolCompat :: "string \<Rightarrow> int \<Rightarrow> int \<Rightarrow> ctl_error option" where
  "validatePortProtocolCompat protocol srcPort dstPort =
     (if protocol \<notin> set portlessProtocols then None
      else if srcPort = 0 \<and> dstPort = 0 then None
      else Some (PortsWithPortless protocol srcPort dstPort))"

definition validateProtocol :: "string \<Rightarrow> ctl_error option" where
  "validateProtocol protocol = (if protocol \<in> set validProtocols then None else Some (BadProtocol protocol))"

section \<open>Ranges\<close>

definition validateRuleScalarBounds :: "RuleRequest \<Rightarrow> ctl_error option" where
  "validateRuleScalarBounds req =
     (if q_SrcPort req < 0 \<or> q_SrcPort req > 65535 then Some (PortRange ''src_port'' (q_SrcPort req))
      else if q_DstPort req < 0 \<or> q_DstPort req > 65535 then Some (PortRange ''dst_port'' (q_DstPort req))
      else if (case q_PktLenMin req of None \<Rightarrow> False | Some v \<Rightarrow> v < 0 \<or> v > 65535)
        then Some (PktLenRange ''pkt_len_min'' (derefInt (q_PktLenMin req)))
      else if (case q_PktLenMax req of None \<Rightarrow> False | Some v \<Rightarrow> v < 0 \<or> v > 65535)
        then Some (PktLenRange ''pkt_len_max'' (derefInt (q_PktLenMax req)))
      else if q_RateLimit req < 0 then Some (RateLimitRange (q_RateLimit req))
      else if q_RateLimit req > 4294967295 then Some (RateLimitRange (q_RateLimit req))
      else if q_Action req = ''drop'' \<and> q_RateLimit req > 0 then Some (RateLimitWithDrop (q_RateLimit req))
      else None)"

definition validateWhitelistScalarBounds :: "WhitelistRequest \<Rightarrow> ctl_error option" where
  "validateWhitelistScalarBounds req =
     (if wq_SrcPort req < 0 \<or> wq_SrcPort req > 65535 then Some (PortRange ''src_port'' (wq_SrcPort req))
      else if wq_DstPort req < 0 \<or> wq_DstPort req > 65535 then Some (PortRange ''dst_port'' (wq_DstPort req))
      else None)"

section \<open>Addresses and prefixes\<close>

definition validateAndNormalizeIPField :: "string \<Rightarrow> string \<Rightarrow> ctl_error + string" where
  "validateAndNormalizeIPField field value =
     (if value = [] then Inr []
      else case net_ParseIP value of
             None \<Rightarrow> Inl (BadIPField field value)
           | Some ip \<Rightarrow>
               (case ip_To4 ip of
                  Some ip4 \<Rightarrow> Inr (ip_String ip4)
                | None \<Rightarrow> Inr (ip_String ip)))"

definition validateIPFields :: "RuleRequest \<Rightarrow> ctl_error + RuleRequest" where
  "validateIPFields req =
     (case validateAndNormalizeIPField ''src_ip'' (q_SrcIP req) of
        Inl e \<Rightarrow> Inl e
      | Inr src \<Rightarrow>
          (case validateAndNormalizeIPField ''dst_ip'' (q_DstIP req) of
             Inl e \<Rightarrow> Inl e
           | Inr dst \<Rightarrow> Inr (req\<lparr>q_SrcIP := src, q_DstIP := dst\<rparr>)))"

definition validateWhitelistIPFields :: "WhitelistRequest \<Rightarrow> ctl_error + WhitelistRequest" where
  "validateWhitelistIPFields req =
     (case validateAndNormalizeIPField ''src_ip'' (wq_SrcIP req) of
        Inl e \<Rightarrow> Inl e
      | Inr src \<Rightarrow>
          (case validateAndNormalizeIPField ''dst_ip'' (wq_DstIP req) of
             Inl e \<Rightarrow> Inl e
           | Inr dst \<Rightarrow> Inr (req\<lparr>wq_SrcIP := src, wq_DstIP := dst\<rparr>)))"

text \<open>An empty prefix stays, another becomes its network.\<close>

definition ctl_network :: "string \<Rightarrow> string option" where
  "ctl_network s = (if s = [] then Some [] else map_option (\<lambda>(_, network). ipnet_String network) (net_ParseCIDR s))"

definition validateCIDRRule :: "RuleRequest \<Rightarrow> ctl_error + RuleRequest" where
  "validateCIDRRule req =
     (if q_SrcCIDR req = [] \<and> q_DstCIDR req = [] then Inl NoCIDR
      else if q_SrcIP req \<noteq> [] \<or> q_DstIP req \<noteq> [] then Inl MixedIPAndCIDR
      else case ctl_network (q_SrcCIDR req) of
             None \<Rightarrow> Inl (BadSrcCIDR (q_SrcCIDR req))
           | Some src \<Rightarrow>
               (case ctl_network (q_DstCIDR req) of
                  None \<Rightarrow> Inl (BadDstCIDR (q_DstCIDR req))
                | Some dst \<Rightarrow> Inr (req\<lparr>q_SrcCIDR := src, q_DstCIDR := dst\<rparr>)))"

text \<open>The first existing prefix that contains the new one or is contained in it; \<open>[]\<close> if none.\<close>

fun findCIDROverlap :: "string \<Rightarrow> string list \<Rightarrow> string" where
  "findCIDROverlap newCIDR [] = []"
| "findCIDROverlap newCIDR (e # es) =
     (case net_ParseCIDR newCIDR of
        None \<Rightarrow> []
      | Some (_, newNet) \<Rightarrow>
          if e = newCIDR then findCIDROverlap newCIDR es
          else case net_ParseCIDR e of
                 None \<Rightarrow> findCIDROverlap newCIDR es
               | Some (_, existNet) \<Rightarrow>
                   (let newOnes = mask_Size (net_Mask newNet); existOnes = mask_Size (net_Mask existNet)
                    in if newOnes \<ge> existOnes \<and> ipnet_Contains existNet (net_IP newNet) then e
                       else if existOnes \<ge> newOnes \<and> ipnet_Contains newNet (net_IP existNet) then e
                       else findCIDROverlap newCIDR es))"

section \<open>TCP flags\<close>

definition validTcpFlags :: "string list" where
  "validTcpFlags = [''FIN'', ''SYN'', ''RST'', ''PSH'', ''ACK'', ''URG'', ''ECE'', ''CWR'']"

definition canonicalOrder :: "string list" where
  "canonicalOrder = [''CWR'', ''ECE'', ''URG'', ''ACK'', ''PSH'', ''RST'', ''SYN'', ''FIN'']"

text \<open>\<open>seen\<close>, \<open>sets\<close> and \<open>clears\<close> list the keys of the source's three maps.\<close>

fun normalize_flags_loop ::
  "string list \<Rightarrow> string list \<Rightarrow> string list \<Rightarrow> string list \<Rightarrow> ctl_error + string list \<times> string list" where
  "normalize_flags_loop [] seen sets clears = Inr (sets, clears)"
| "normalize_flags_loop (p # ps) seen sets clears =
     (let part = strings_TrimSpace p in
      if part = [] then normalize_flags_loop ps seen sets clears
      else
        let upper = strings_ToUpper part;
            negate = strings_HasPrefix upper ''!'';
            name = (if negate then drop 1 upper else upper)
        in if name \<notin> set validTcpFlags then Inl (BadTcpFlag part)
           else if name \<in> set seen then normalize_flags_loop ps seen sets clears
           else if negate
             then if name \<in> set sets then Inl (ContradictoryFlags name)
                  else normalize_flags_loop ps (name # seen) sets (name # clears)
             else if name \<in> set clears then Inl (ContradictoryFlags name)
                  else normalize_flags_loop ps (name # seen) (name # sets) clears)"

fun emit_flags :: "string list \<Rightarrow> string list \<Rightarrow> string list \<Rightarrow> string list" where
  "emit_flags [] sets clears = []"
| "emit_flags (name # ns) sets clears =
     (if name \<in> set sets then name # emit_flags ns sets clears
      else if name \<in> set clears then (''!'' @ name) # emit_flags ns sets clears
      else emit_flags ns sets clears)"

definition validateAndNormalizeTcpFlags :: "string \<Rightarrow> ctl_error + string" where
  "validateAndNormalizeTcpFlags s0 =
     (let s = strings_TrimSpace s0 in
      if s = [] then Inr []
      else case normalize_flags_loop (strings_Split (CHR '','') s) [] [] [] of
             Inl e \<Rightarrow> Inl e
           | Inr (sets, clears) \<Rightarrow> Inr (strings_Join '','' (emit_flags canonicalOrder sets clears)))"

section \<open>Packet lengths and flags of a request\<close>

definition validatePktLenRule :: "RuleRequest \<Rightarrow> ctl_error + RuleRequest" where
  "validatePktLenRule req =
     (let pktMin = derefInt (q_PktLenMin req); pktMax = derefInt (q_PktLenMax req);
          hasLengthFilter = (pktMin > 0 \<or> pktMax > 0);
          has5Tuple = (q_SrcIP req \<noteq> [] \<or> q_DstIP req \<noteq> [] \<or> q_SrcCIDR req \<noteq> [] \<or> q_DstCIDR req \<noteq> [] \<or>
             q_SrcPort req \<noteq> 0 \<or> q_DstPort req \<noteq> 0 \<or> (q_Protocol req \<noteq> [] \<and> q_Protocol req \<noteq> ''all''))
      in if hasLengthFilter \<and> \<not> has5Tuple then Inl PureLength
         else if pktMin > 0 \<and> pktMax > 0 \<and> pktMin > pktMax then Inl (EmptyLengthRange pktMin pktMax)
         else case q_TcpFlags req of
                None \<Rightarrow> Inr req
              | Some s \<Rightarrow>
                  if s = [] then Inr req
                  else if q_Protocol req \<noteq> ''tcp'' then Inl FlagsWithoutTCP
                  else case validateAndNormalizeTcpFlags s of
                         Inl e \<Rightarrow> Inl e
                       | Inr normalized \<Rightarrow> Inr (req\<lparr>q_TcpFlags := Some normalized\<rparr>))"

section \<open>Whitelist\<close>

definition normalizeWhitelistProtocol :: "string \<Rightarrow> string" where
  "normalizeWhitelistProtocol proto = (if proto = ''all'' then [] else proto)"

definition validateWhitelistCombo :: "WhitelistRequest \<Rightarrow> ctl_error option" where
  "validateWhitelistCombo req =
     (let proto = normalizeWhitelistProtocol (wq_Protocol req);
          hasAnyField = (wq_SrcIP req \<noteq> [] \<or> wq_DstIP req \<noteq> [] \<or> wq_SrcPort req \<noteq> 0 \<or> wq_DstPort req \<noteq> 0 \<or> proto \<noteq> [])
      in if \<not> hasAnyField then Some EmptyWhitelist
         else if wq_Protocol req = ''all'' \<and> wq_SrcIP req = [] \<and> wq_DstIP req = [] \<and>
                 wq_SrcPort req = 0 \<and> wq_DstPort req = 0 then Some WhitelistAll
         else None)"

section \<open>The flags of the controller are those of the node\<close>

text \<open>
  The text the controller stores is the canonical text of a mask and a value, so the node parses it.
\<close>

lemma flag_lists: "set validTcpFlags = set flag_names" "canonicalOrder = flag_names"
  by (auto simp: validTcpFlags_def flag_names_def canonicalOrder_def)

lemma emit_flag_parts:
  assumes "\<forall>n \<in> set ns. (m AND flag_bit n \<noteq> 0 \<longleftrightarrow> n \<in> set sets \<or> n \<in> set clears) \<and> (v AND flag_bit n \<noteq> 0 \<longleftrightarrow> n \<in> set sets)"
  shows "emit_flags ns sets clears = flag_parts ns m v"
  using assms by (induction ns) (auto simp: Let_def)

lemma sel_flag:
  assumes "n \<in> set flag_names"
  shows "sel P flag_names AND flag_bit n \<noteq> 0 \<longleftrightarrow> P n"
proof -
  obtain i where i: "i < 8" "n = rev flag_names ! i" using assms flag_names_index by blast
  have "bit (sel P flag_names) i \<longleftrightarrow> (\<exists>x \<in> set flag_names. P x \<and> bit (flag_bit x) i)" by (rule bit_sel)
  also have "\<dots> \<longleftrightarrow> (\<exists>j < 8. P (rev flag_names ! j) \<and> bit (flag_bit (rev flag_names ! j)) i)"
    unfolding Bex_def flag_names_index by blast
  also have "\<dots> \<longleftrightarrow> P n" using i by (auto simp: bit_flag_bit)
  finally show ?thesis using and_flag_bit [OF i(1)] i(2) by simp
qed

lemma normalized_flags:
  assumes "validateAndNormalizeTcpFlags s = Inr t"
  shows "\<exists>m v. t = tcpFlagsToString m v"
proof (cases "strings_TrimSpace s = []")
  case True
  with assms have "t = tcpFlagsToString 0 0" by (simp add: validateAndNormalizeTcpFlags_def tcpFlagsToString_def)
  then show ?thesis by blast
next
  case False
  with assms obtain sets clears where
    l: "normalize_flags_loop (strings_Split (CHR '','') (strings_TrimSpace s)) [] [] [] = Inr (sets, clears)"
    and t: "t = strings_Join '','' (emit_flags flag_names sets clears)"
    by (auto simp: validateAndNormalizeTcpFlags_def Let_def flag_lists split: sum.splits)
  let ?m = "sel (\<lambda>n. n \<in> set sets \<or> n \<in> set clears) flag_names" and ?v = "sel (\<lambda>n. n \<in> set sets) flag_names"
  have e: "emit_flags flag_names sets clears = flag_parts flag_names ?m ?v"
    by (rule emit_flag_parts, intro ballI conjI; rule sel_flag; assumption)
  obtain m v where mv: "emit_flags flag_names sets clears = flag_parts flag_names m v" using e by blast
  have "flag_parts ns 0 v = []" for ns by (induction ns) (simp_all add: Let_def)
  then have "t = tcpFlagsToString m v" unfolding t mv tcpFlagsToString_def by simp
  then show ?thesis by blast
qed

end
