(* ===== verification/CtlStore.thy ===== *)
theory CtlStore
  imports CtlValidate
begin

text \<open>
  The rule store of the controller (\<^verbatim>\<open>controller/internal/repository/sqlite.go\<close>). The statements of the
  source are SQL on one table; a table is the list of its rows in the order of insertion. SQLite itself may
  fail any statement: a script tells for each whether it does (an exhausted script fails nothing). A
  transaction is one such call, since it takes effect as a whole or not at all. The column \<^verbatim>\<open>src_ip\<close> holds
  NULL for an empty address; a NULL differs from every other NULL in a UNIQUE constraint.
\<close>

record Store =
  st_rules :: "CRule list"
  st_whitelist :: "CWhitelist list"
  st_faults :: "bool list"

section \<open>Statements that may fail\<close>

definition db_query :: "(Store \<Rightarrow> 'a) \<Rightarrow> Store \<Rightarrow> 'a option \<times> Store" where
  "db_query q st =
     (case st_faults st of
        [] \<Rightarrow> (Some (q st), st)
      | f # fs \<Rightarrow> (if f then None else Some (q st), st\<lparr>st_faults := fs\<rparr>))"

text \<open>A write of the rules table that may also violate a constraint.\<close>

definition db_write :: "(CRule list \<Rightarrow> CRule list option) \<Rightarrow> Store \<Rightarrow> bool \<times> Store" where
  "db_write w st =
     (case db_query (\<lambda>st. w (st_rules st)) st of
        (Some (Some rows), st1) \<Rightarrow> (True, st1\<lparr>st_rules := rows\<rparr>)
      | (_, st1) \<Rightarrow> (False, st1))"

section \<open>Constraints\<close>

definition unique_conflict :: "CRule \<Rightarrow> CRule \<Rightarrow> bool" where
  "unique_conflict a b =
     (c_SrcIP a \<noteq> [] \<and> c_DstIP a \<noteq> [] \<and> c_SrcIP a = c_SrcIP b \<and> c_SrcCIDR a = c_SrcCIDR b \<and> c_DstIP a = c_DstIP b \<and>
      c_DstCIDR a = c_DstCIDR b \<and> c_SrcPort a = c_SrcPort b \<and> c_DstPort a = c_DstPort b \<and> c_Protocol a = c_Protocol b)"

definition insert_row :: "int \<Rightarrow> CRule \<Rightarrow> CRule list \<Rightarrow> CRule list option" where
  "insert_row ts rule rows =
     (if \<exists>r \<in> set rows. c_ID r = c_ID rule \<or> unique_conflict rule r then None
      else Some (rows @ [rule\<lparr>c_CreatedAt := ts, c_UpdatedAt := ts\<rparr>]))"

fun insert_rows :: "int \<Rightarrow> CRule list \<Rightarrow> CRule list \<Rightarrow> CRule list option" where
  "insert_rows ts [] rows = Some rows"
| "insert_rows ts (rule # rules) rows =
     (case insert_row ts rule rows of None \<Rightarrow> None | Some rows1 \<Rightarrow> insert_rows ts rules rows1)"

definition update_row :: "int \<Rightarrow> CRule \<Rightarrow> CRule list \<Rightarrow> CRule list option" where
  "update_row ts rule rows =
     (if (\<exists>r \<in> set rows. c_ID r = c_ID rule) \<and> (\<exists>r \<in> set rows. c_ID r \<noteq> c_ID rule \<and> unique_conflict rule r) then None
      else Some (map (\<lambda>r. if c_ID r = c_ID rule then rule\<lparr>c_CreatedAt := c_CreatedAt r, c_UpdatedAt := ts\<rparr> else r) rows))"

section \<open>The rule repository\<close>

definition repo_Create :: "int \<Rightarrow> CRule \<Rightarrow> Store \<Rightarrow> bool \<times> Store" where
  "repo_Create ts rule = db_write (insert_row ts rule)"

definition repo_BatchCreate :: "int \<Rightarrow> CRule list \<Rightarrow> Store \<Rightarrow> bool \<times> Store" where
  "repo_BatchCreate ts rules = db_write (insert_rows ts rules)"

definition repo_Get :: "string \<Rightarrow> Store \<Rightarrow> CRule option option \<times> Store" where
  "repo_Get rid = db_query (\<lambda>st. find (\<lambda>r. c_ID r = rid) (st_rules st))"

definition newest_first :: "CRule list \<Rightarrow> CRule list" where
  "newest_first = sort_key (\<lambda>r. - c_CreatedAt r)"

definition repo_List :: "Store \<Rightarrow> CRule list option \<times> Store" where
  "repo_List = db_query (\<lambda>st. newest_first (st_rules st))"

definition repo_ListEnabled :: "Store \<Rightarrow> CRule list option \<times> Store" where
  "repo_ListEnabled = db_query (\<lambda>st. newest_first (filter c_Enabled (st_rules st)))"

definition expired_at :: "int \<Rightarrow> CRule \<Rightarrow> bool" where
  "expired_at ts r = (case c_ExpiresAt r of None \<Rightarrow> False | Some t \<Rightarrow> ts > t)"

definition repo_ListExpired :: "int \<Rightarrow> Store \<Rightarrow> CRule list option \<times> Store" where
  "repo_ListExpired ts = db_query (\<lambda>st. filter (expired_at ts) (st_rules st))"

definition repo_Update :: "int \<Rightarrow> CRule \<Rightarrow> Store \<Rightarrow> bool \<times> Store" where
  "repo_Update ts rule = db_write (update_row ts rule)"

text \<open>The answer is \<open>None\<close> for an error, else whether a row was deleted.\<close>

definition repo_Delete :: "string \<Rightarrow> Store \<Rightarrow> bool option \<times> Store" where
  "repo_Delete rid st =
     (case db_query (\<lambda>st. list_ex (\<lambda>r. c_ID r = rid) (st_rules st)) st of
        (None, st1) \<Rightarrow> (None, st1)
      | (Some found, st1) \<Rightarrow> (Some found, st1\<lparr>st_rules := filter (\<lambda>r. c_ID r \<noteq> rid) (st_rules st1)\<rparr>))"

definition repo_BatchDelete :: "string list \<Rightarrow> Store \<Rightarrow> bool \<times> Store" where
  "repo_BatchDelete ids st =
     (if ids = [] then (True, st)
      else db_write (\<lambda>rows. Some (filter (\<lambda>r. c_ID r \<notin> set ids) rows)) st)"

fun delete_each :: "CRule list \<Rightarrow> int \<Rightarrow> Store \<Rightarrow> int \<times> Store" where
  "delete_each [] count st = (count, st)"
| "delete_each (r # rs) count st =
     (case repo_Delete (c_ID r) st of
        (None, st1) \<Rightarrow> delete_each rs count st1
      | (Some _, st1) \<Rightarrow> delete_each rs (count + 1) st1)"

definition repo_DeleteExpired :: "int \<Rightarrow> Store \<Rightarrow> int option \<times> Store" where
  "repo_DeleteExpired ts st =
     (case repo_ListExpired ts st of
        (None, st1) \<Rightarrow> (None, st1)
      | (Some expired, st1) \<Rightarrow> (let (n, st2) = delete_each expired 0 st1 in (Some n, st2)))"

text \<open>The rules with the given addresses, ports and protocol, whatever their prefixes.\<close>

definition tuple_match :: "string \<Rightarrow> string \<Rightarrow> int \<Rightarrow> int \<Rightarrow> string \<Rightarrow> CRule \<Rightarrow> bool" where
  "tuple_match srcIP dstIP srcPort dstPort protocol r =
     (c_SrcIP r = srcIP \<and> c_DstIP r = dstIP \<and> c_SrcPort r = srcPort \<and> c_DstPort r = dstPort \<and> c_Protocol r = protocol)"

definition cidr_match :: "string \<Rightarrow> string \<Rightarrow> int \<Rightarrow> int \<Rightarrow> string \<Rightarrow> CRule \<Rightarrow> bool" where
  "cidr_match srcCIDR dstCIDR srcPort dstPort protocol r =
     (c_SrcCIDR r = srcCIDR \<and> c_DstCIDR r = dstCIDR \<and> c_SrcPort r = srcPort \<and> c_DstPort r = dstPort \<and> c_Protocol r = protocol)"

definition repo_Exists :: "string \<Rightarrow> string \<Rightarrow> int \<Rightarrow> int \<Rightarrow> string \<Rightarrow> Store \<Rightarrow> bool option \<times> Store" where
  "repo_Exists srcIP dstIP srcPort dstPort protocol =
     db_query (\<lambda>st. list_ex (tuple_match srcIP dstIP srcPort dstPort protocol) (st_rules st))"

definition repo_CIDRExists :: "string \<Rightarrow> string \<Rightarrow> int \<Rightarrow> int \<Rightarrow> string \<Rightarrow> Store \<Rightarrow> bool option \<times> Store" where
  "repo_CIDRExists srcCIDR dstCIDR srcPort dstPort protocol =
     db_query (\<lambda>st. list_ex (cidr_match srcCIDR dstCIDR srcPort dstPort protocol) (st_rules st))"

definition repo_GetByTuple :: "string \<Rightarrow> string \<Rightarrow> int \<Rightarrow> int \<Rightarrow> string \<Rightarrow> Store \<Rightarrow> CRule option option \<times> Store" where
  "repo_GetByTuple srcIP dstIP srcPort dstPort protocol =
     db_query (\<lambda>st. find (\<lambda>r. tuple_match srcIP dstIP srcPort dstPort protocol r \<and> c_SrcCIDR r = [] \<and> c_DstCIDR r = [])
       (st_rules st))"

definition repo_GetByCIDRTuple :: "string \<Rightarrow> string \<Rightarrow> int \<Rightarrow> int \<Rightarrow> string \<Rightarrow> Store \<Rightarrow> CRule option option \<times> Store" where
  "repo_GetByCIDRTuple srcCIDR dstCIDR srcPort dstPort protocol =
     db_query (\<lambda>st. find (cidr_match srcCIDR dstCIDR srcPort dstPort protocol) (st_rules st))"

definition repo_ListSrcCIDRs :: "Store \<Rightarrow> string list option \<times> Store" where
  "repo_ListSrcCIDRs = db_query (\<lambda>st. remdups (filter (\<lambda>c. c \<noteq> []) (map c_SrcCIDR (st_rules st))))"

definition repo_ListDstCIDRs :: "Store \<Rightarrow> string list option \<times> Store" where
  "repo_ListDstCIDRs = db_query (\<lambda>st. remdups (filter (\<lambda>c. c \<noteq> []) (map c_DstCIDR (st_rules st))))"

section \<open>The whitelist repository\<close>

definition same_entry :: "CWhitelist \<Rightarrow> CWhitelist \<Rightarrow> bool" where
  "same_entry a b =
     (e_SrcIP a = e_SrcIP b \<and> e_DstIP a = e_DstIP b \<and> e_SrcPort a = e_SrcPort b \<and> e_DstPort a = e_DstPort b \<and>
      e_Protocol a = e_Protocol b)"

definition repo_CreateWhitelist :: "int \<Rightarrow> CWhitelist \<Rightarrow> Store \<Rightarrow> ctl_error option \<times> Store" where
  "repo_CreateWhitelist ts entry st =
     (case db_query (\<lambda>st. list_ex (same_entry entry) (st_whitelist st)) st of
        (None, st1) \<Rightarrow> (Some StoreFailed, st1)
      | (Some True, st1) \<Rightarrow> (Some WhitelistExists, st1)
      | (Some False, st1) \<Rightarrow>
          (case db_query (\<lambda>st. list_ex (\<lambda>e. e_ID e = e_ID entry) (st_whitelist st)) st1 of
             (Some False, st2) \<Rightarrow> (None, st2\<lparr>st_whitelist := st_whitelist st2 @ [entry\<lparr>e_CreatedAt := ts\<rparr>]\<rparr>)
           | (_, st2) \<Rightarrow> (Some StoreFailed, st2)))"

definition repo_ListWhitelist :: "Store \<Rightarrow> CWhitelist list option \<times> Store" where
  "repo_ListWhitelist = db_query (\<lambda>st. sort_key (\<lambda>e. - e_CreatedAt e) (st_whitelist st))"

definition repo_DeleteWhitelist :: "string \<Rightarrow> Store \<Rightarrow> bool \<times> Store" where
  "repo_DeleteWhitelist wid st =
     (case db_query (\<lambda>_. ()) st of
        (None, st1) \<Rightarrow> (False, st1)
      | (Some _, st1) \<Rightarrow> (True, st1\<lparr>st_whitelist := filter (\<lambda>e. e_ID e \<noteq> wid) (st_whitelist st1)\<rparr>))"

section \<open>Facts\<close>

text \<open>A query changes neither table.\<close>

lemma db_query_tables [simp]:
  "st_rules (snd (db_query q st)) = st_rules st" "st_whitelist (snd (db_query q st)) = st_whitelist st"
  by (simp_all add: db_query_def split: list.split)

lemma db_query_cases:
  assumes "db_query q st = (r, st')"
  shows "st_rules st' = st_rules st" "st_whitelist st' = st_whitelist st" "r = None \<or> r = Some (q st)"
    "st_faults st = [] \<Longrightarrow> r = Some (q st) \<and> st' = st"
  using assms by (auto simp: db_query_def split: list.splits if_splits)

lemma db_write_cases:
  assumes "db_write w st = (b, st')"
  shows "st_whitelist st' = st_whitelist st" "if b then w (st_rules st) = Some (st_rules st') else st_rules st' = st_rules st"
  using assms by (auto simp: db_write_def db_query_def split: list.splits if_splits option.splits prod.splits)

end
