(* ===== verification/CtlRules.thy ===== *)
theory CtlRules
  imports CtlStore
begin

text \<open>
  The rule service and the whitelist service of the controller
  (\<^verbatim>\<open>controller/internal/service/rule_service.go\<close>, \<^verbatim>\<open>whitelist_service.go\<close>). An operation reads and
  writes the store and answers with a rule or an error and with the calls it makes to the sync service, in
  their order; the outcome of a sync is only reported and changes neither the store nor the answer.
\<close>

section \<open>The environment\<close>

text \<open>
  The clock and \<^verbatim>\<open>time.ParseDuration\<close>. \<open>new_id\<close> gives the eight characters taken of the n-th fresh UUID.
\<close>

record env =
  time_now :: int
  ParseDuration :: "string \<Rightarrow> int option"
  new_id :: "nat \<Rightarrow> string"

datatype sync_action =
    SyncAddRule CRule
  | SyncUpdateRule CRule
  | SyncDeleteRule string
  | SyncAddRulesBatch "CRule list"
  | FullSyncToAllNodes
  | SyncAddWhitelist CWhitelist
  | SyncDeleteWhitelist string

section \<open>Checks\<close>

definition stop_if :: "ctl_error option \<Rightarrow> ctl_error + 'a \<Rightarrow> ctl_error + 'a" where
  "stop_if e r = (case e of Some x \<Rightarrow> Inl x | None \<Rightarrow> r)"

definition and_check :: "ctl_error + 'a \<Rightarrow> ('a \<Rightarrow> ctl_error + 'b) \<Rightarrow> ctl_error + 'b" where
  "and_check r f = (case r of Inl e \<Rightarrow> Inl e | Inr x \<Rightarrow> f x)"

definition check_action :: "RuleRequest \<Rightarrow> ctl_error option" where
  "check_action req =
     (if q_Action req = [] then Some ActionRequired
      else if q_Action req \<noteq> ''drop'' \<and> q_Action req \<noteq> ''rate_limit'' then Some (BadAction (q_Action req))
      else if q_Action req = ''rate_limit'' \<and> q_RateLimit req \<le> 0 then Some RateLimitRequired
      else None)"

text \<open>The checks before the store is asked, and those after.\<close>

definition check_fields :: "RuleRequest \<Rightarrow> ctl_error + RuleRequest" where
  "check_fields req0 =
     and_check (normalizeDecoder req0) (\<lambda>req1.
     stop_if (check_action req1) (
     and_check (validateIPFields req1) (\<lambda>req2.
     stop_if (validateRuleScalarBounds req2) (
     stop_if (validateProtocol (q_Protocol req2)) (
     stop_if (validatePortProtocolCompat (q_Protocol req2) (q_SrcPort req2) (q_DstPort req2)) (
     and_check (validatePktLenRule req2) (\<lambda>req3.
       if q_SrcCIDR req3 \<noteq> [] \<or> q_DstCIDR req3 \<noteq> [] then validateCIDRRule req3 else Inr req3)))))))"

definition check_anomaly :: "RuleRequest \<Rightarrow> ctl_error option" where
  "check_anomaly req =
     (case validateAnomalyFields req of
        Some e \<Rightarrow> Some e
      | None \<Rightarrow> if derefString (q_TcpFlags req) \<noteq> [] \<and> q_MatchAnomaly req \<noteq> 0 then Some FlagsAndAnomaly else None)"

definition checkCIDROverlap :: "string \<Rightarrow> string \<Rightarrow> Store \<Rightarrow> ctl_error option \<times> Store" where
  "checkCIDROverlap srcCIDR dstCIDR st =
     (let (e, st1) =
        (if srcCIDR \<noteq> []
         then case repo_ListSrcCIDRs st of
                (None, st1) \<Rightarrow> (Some StoreFailed, st1)
              | (Some existing, st1) \<Rightarrow>
                  (let conflict = findCIDROverlap srcCIDR existing
                   in (if conflict \<noteq> [] then Some (SrcOverlap srcCIDR conflict) else None, st1))
         else (None, st))
      in if e \<noteq> None then (e, st1)
         else if dstCIDR \<noteq> []
         then case repo_ListDstCIDRs st1 of
                (None, st2) \<Rightarrow> (Some StoreFailed, st2)
              | (Some existing, st2) \<Rightarrow>
                  (let conflict = findCIDROverlap dstCIDR existing
                   in (if conflict \<noteq> [] then Some (DstOverlap dstCIDR conflict) else None, st2))
         else (None, st1))"

text \<open>The overlap check of a request with a prefix.\<close>

definition overlap_check :: "RuleRequest \<Rightarrow> Store \<Rightarrow> ctl_error option \<times> Store" where
  "overlap_check req st =
     (if q_SrcCIDR req \<noteq> [] \<or> q_DstCIDR req \<noteq> [] then checkCIDROverlap (q_SrcCIDR req) (q_DstCIDR req) st else (None, st))"

definition stored_protocol :: "RuleRequest \<Rightarrow> string" where
  "stored_protocol req = (if q_Protocol req = [] then ''all'' else q_Protocol req)"

text \<open>The rule built from an accepted request.\<close>

definition rule_of_request :: "env \<Rightarrow> nat \<Rightarrow> int option \<Rightarrow> RuleRequest \<Rightarrow> CRule" where
  "rule_of_request E n expiresAt req =
     \<lparr>c_ID = ''rule_'' @ new_id E n, c_Name = q_Name req, c_SrcIP = q_SrcIP req, c_DstIP = q_DstIP req,
      c_SrcCIDR = q_SrcCIDR req, c_DstCIDR = q_DstCIDR req, c_SrcPort = q_SrcPort req, c_DstPort = q_DstPort req,
      c_Protocol = stored_protocol req, c_Action = q_Action req, c_RateLimit = q_RateLimit req,
      c_PktLenMin = derefInt (q_PktLenMin req), c_PktLenMax = derefInt (q_PktLenMax req),
      c_TcpFlags = derefString (q_TcpFlags req), c_MatchAnomaly = q_MatchAnomaly req,
      c_Source = (if q_Source req = [] then ''api'' else q_Source req), c_Comment = derefString (q_Comment req),
      c_Enabled = (case q_Enabled req of None \<Rightarrow> True | Some b \<Rightarrow> b), c_CreatedAt = time_now E,
      c_ExpiresAt = expiresAt, c_UpdatedAt = time_now E\<rparr>"

section \<open>Creating a rule\<close>

text \<open>\<open>NoMerge\<close> is the answer \<^verbatim>\<open>nil, nil, nil\<close>: the request is not about anomaly bits.\<close>

datatype merge_result = NoMerge | MergeFailed ctl_error | Merged CRule "sync_action list"

definition tryAnomalyMerge :: "env \<Rightarrow> CRule \<Rightarrow> RuleRequest \<Rightarrow> Store \<Rightarrow> merge_result \<times> Store" where
  "tryAnomalyMerge E existing req st =
     (if q_MatchAnomaly req = 0 then (NoMerge, st)
      else if c_MatchAnomaly existing = 0 then (MergeFailed MergeOntoPlain, st)
      else if c_Action existing \<noteq> q_Action req
        then (MergeFailed (MergeActionConflict (c_Action existing) (q_Action req)), st)
      else
        let merged = existing\<lparr>c_MatchAnomaly := c_MatchAnomaly existing OR q_MatchAnomaly req\<rparr>
        in if c_MatchAnomaly merged = c_MatchAnomaly existing then (Merged merged [], st)
           else
             let merged = merged\<lparr>c_UpdatedAt := time_now E\<rparr>
             in case repo_Update (time_now E) merged st of
                  (False, st1) \<Rightarrow> (MergeFailed StoreFailed, st1)
                | (True, st1) \<Rightarrow> (Merged merged (if c_Enabled merged then [SyncUpdateRule merged] else []), st1))"

definition lookup_tuple :: "RuleRequest \<Rightarrow> Store \<Rightarrow> CRule option option \<times> Store" where
  "lookup_tuple req =
     (if q_SrcCIDR req \<noteq> [] \<or> q_DstCIDR req \<noteq> []
      then repo_GetByCIDRTuple (q_SrcCIDR req) (q_DstCIDR req) (q_SrcPort req) (q_DstPort req) (stored_protocol req)
      else repo_GetByTuple (q_SrcIP req) (q_DstIP req) (q_SrcPort req) (q_DstPort req) (stored_protocol req))"

definition expiry :: "env \<Rightarrow> RuleRequest \<Rightarrow> ctl_error + int option" where
  "expiry E req =
     (if q_ExpiresIn req = [] then Inr None
      else case ParseDuration E (q_ExpiresIn req) of
             None \<Rightarrow> Inl (BadExpiry (q_ExpiresIn req))
           | Some d \<Rightarrow> Inr (Some (time_now E + d)))"

definition CreateRule :: "env \<Rightarrow> RuleRequest \<Rightarrow> Store \<Rightarrow> (ctl_error + CRule) \<times> sync_action list \<times> Store" where
  "CreateRule E req0 st =
     (case check_fields req0 of
        Inl e \<Rightarrow> (Inl e, [], st)
      | Inr req \<Rightarrow>
     (case overlap_check req st of
        (Some e, st1) \<Rightarrow> (Inl e, [], st1)
      | (None, st1) \<Rightarrow>
     (case check_anomaly req of
        Some e \<Rightarrow> (Inl e, [], st1)
      | None \<Rightarrow>
     (case lookup_tuple req st1 of
        (None, st2) \<Rightarrow> (Inl StoreFailed, [], st2)
      | (Some (Some existing), st2) \<Rightarrow>
          (case tryAnomalyMerge E existing req st2 of
             (MergeFailed e, st3) \<Rightarrow> (Inl e, [], st3)
           | (Merged rule acts, st3) \<Rightarrow> (Inr rule, acts, st3)
           | (NoMerge, st3) \<Rightarrow>
               (Inl (if q_SrcCIDR req \<noteq> [] \<or> q_DstCIDR req \<noteq> [] then CIDRRuleExists else RuleExists), [], st3))
      | (Some None, st2) \<Rightarrow>
     (case expiry E req of
        Inl e \<Rightarrow> (Inl e, [], st2)
      | Inr expiresAt \<Rightarrow>
          (let rule = rule_of_request E 0 expiresAt req
           in case repo_Create (time_now E) rule st2 of
                (False, st3) \<Rightarrow> (Inl StoreFailed, [], st3)
              | (True, st3) \<Rightarrow> (Inr rule, (if c_Enabled rule then [SyncAddRule rule] else []), st3)))))))"

section \<open>Updating a rule\<close>

text \<open>The key fields of a rule cannot change; the prefixes are looked at before the addresses are parsed.\<close>

definition check_key_fields :: "RuleRequest \<Rightarrow> CRule \<Rightarrow> ctl_error option" where
  "check_key_fields req rule =
     (if q_SrcIP req \<noteq> [] \<or> q_DstIP req \<noteq> [] then Some (KeyFieldFixed ''ip'')
      else if q_Protocol req \<noteq> [] \<and> q_Protocol req \<noteq> c_Protocol rule then Some (KeyFieldFixed ''protocol'')
      else if q_SrcPort req \<noteq> 0 \<and> q_SrcPort req \<noteq> c_SrcPort rule then Some (KeyFieldFixed ''src_port'')
      else if q_DstPort req \<noteq> 0 \<and> q_DstPort req \<noteq> c_DstPort rule then Some (KeyFieldFixed ''dst_port'')
      else None)"

text \<open>The request \<^verbatim>\<open>tempReq\<close> whose lengths are checked.\<close>

definition effective_lengths :: "RuleRequest \<Rightarrow> CRule \<Rightarrow> RuleRequest" where
  "effective_lengths req rule =
     empty_request\<lparr>q_SrcIP := c_SrcIP rule, q_DstIP := c_DstIP rule, q_SrcPort := c_SrcPort rule,
       q_DstPort := c_DstPort rule, q_Protocol := c_Protocol rule,
       q_PktLenMin := Some (case q_PktLenMin req of Some v \<Rightarrow> v | None \<Rightarrow> c_PktLenMin rule),
       q_PktLenMax := Some (case q_PktLenMax req of Some v \<Rightarrow> v | None \<Rightarrow> c_PktLenMax rule)\<rparr>"

definition effectiveAction :: "RuleRequest \<Rightarrow> CRule \<Rightarrow> string" where
  "effectiveAction req rule = (if q_Action req \<noteq> [] then q_Action req else c_Action rule)"

definition check_update_action :: "RuleRequest \<Rightarrow> CRule \<Rightarrow> ctl_error option" where
  "check_update_action req rule =
     (if q_Action req \<noteq> [] \<and> q_Action req \<noteq> ''drop'' \<and> q_Action req \<noteq> ''rate_limit'' then Some (BadAction (q_Action req))
      else
        let effectiveRateLimit = (if q_RateLimit req > 0 then q_RateLimit req else c_RateLimit rule)
        in if effectiveAction req rule = ''rate_limit'' \<and> effectiveRateLimit \<le> 0 then Some RateLimitRequired
           else if q_RateLimit req > 0 \<and> effectiveAction req rule = ''drop'' then Some (RateLimitWithDrop (q_RateLimit req))
           else None)"

text \<open>The checks of an update against the existing rule, up to the merge of the fields.\<close>

definition update_checks :: "RuleRequest \<Rightarrow> CRule \<Rightarrow> ctl_error + RuleRequest" where
  "update_checks req0 rule =
     and_check (normalizeDecoderForUpdate req0 rule) (\<lambda>req1.
     stop_if (if q_SrcCIDR req1 \<noteq> [] \<or> q_DstCIDR req1 \<noteq> [] then Some (KeyFieldFixed ''cidr'') else None) (
     and_check (validateIPFields req1) (\<lambda>req.
     stop_if (check_key_fields req rule) (
     stop_if (validateRuleScalarBounds req) (
     stop_if (validateAnomalyFieldsForUpdate req rule) (
     and_check (validatePktLenRule (effective_lengths req rule)) (\<lambda>_.
     stop_if (check_update_action req rule) (Inr req))))))))"

definition update_flags :: "RuleRequest \<Rightarrow> CRule \<Rightarrow> ctl_error + string" where
  "update_flags req rule =
     (case q_TcpFlags req of
        None \<Rightarrow> Inr (c_TcpFlags rule)
      | Some s \<Rightarrow>
          if s \<noteq> []
          then if c_Protocol rule \<noteq> ''tcp'' then Inl FlagsWithoutTCP else validateAndNormalizeTcpFlags s
          else Inr [])"

text \<open>The fields after the merge.\<close>

definition merge_fields :: "env \<Rightarrow> RuleRequest \<Rightarrow> CRule \<Rightarrow> ctl_error + CRule" where
  "merge_fields E req rule =
     (and_check (update_flags req rule) (\<lambda>flags.
         let merged = rule\<lparr>
           c_Name := (if q_Name req \<noteq> [] then q_Name req else c_Name rule),
           c_Action := effectiveAction req rule,
           c_RateLimit := (if effectiveAction req rule = ''drop'' then 0 else if q_RateLimit req > 0 then q_RateLimit req else c_RateLimit rule),
           c_PktLenMin := (case q_PktLenMin req of Some v \<Rightarrow> v | None \<Rightarrow> c_PktLenMin rule),
           c_PktLenMax := (case q_PktLenMax req of Some v \<Rightarrow> v | None \<Rightarrow> c_PktLenMax rule),
           c_TcpFlags := flags,
           c_MatchAnomaly := (if q_MatchAnomaly req \<noteq> 0 then q_MatchAnomaly req else c_MatchAnomaly rule),
           c_Enabled := (case q_Enabled req of Some b \<Rightarrow> b | None \<Rightarrow> c_Enabled rule),
           c_Comment := (case q_Comment req of Some s \<Rightarrow> s | None \<Rightarrow> c_Comment rule)\<rparr>
         in if c_TcpFlags merged \<noteq> [] \<and> c_MatchAnomaly merged \<noteq> 0 then Inl FlagsAndAnomaly
            else Inr (merged\<lparr>c_UpdatedAt := time_now E\<rparr>)))"

definition update_sync :: "CRule \<Rightarrow> CRule \<Rightarrow> sync_action list" where
  "update_sync old new =
     (if c_Enabled old \<and> c_Enabled new then [SyncUpdateRule new]
      else if c_Enabled new then [SyncAddRule new]
      else if c_Enabled old then [SyncDeleteRule (c_ID new)]
      else [])"

definition UpdateRule :: "env \<Rightarrow> string \<Rightarrow> RuleRequest \<Rightarrow> Store \<Rightarrow> (ctl_error + CRule) \<times> sync_action list \<times> Store" where
  "UpdateRule E rid req0 st =
     (case repo_Get rid st of
        (None, st1) \<Rightarrow> (Inl StoreFailed, [], st1)
      | (Some None, st1) \<Rightarrow> (Inl NoSuchRule, [], st1)
      | (Some (Some rule), st1) \<Rightarrow>
          (case and_check (update_checks req0 rule) (\<lambda>req. merge_fields E req rule) of
             Inl e \<Rightarrow> (Inl e, [], st1)
           | Inr new \<Rightarrow>
               (case repo_Update (time_now E) new st1 of
                  (False, st2) \<Rightarrow> (Inl StoreFailed, [], st2)
                | (True, st2) \<Rightarrow> (Inr new, update_sync rule new, st2))))"

section \<open>Deleting rules\<close>

definition DeleteRuleByID :: "string \<Rightarrow> Store \<Rightarrow> (ctl_error + unit) \<times> sync_action list \<times> Store" where
  "DeleteRuleByID rid st =
     (case repo_Get rid st of
        (None, st1) \<Rightarrow> (Inl StoreFailed, [], st1)
      | (Some None, st1) \<Rightarrow> (Inr (), [], st1)
      | (Some (Some rule), st1) \<Rightarrow>
          (case repo_Delete rid st1 of
             (None, st2) \<Rightarrow> (Inl StoreFailed, [], st2)
           | (Some False, st2) \<Rightarrow> (Inr (), [], st2)
           | (Some True, st2) \<Rightarrow> (Inr (), (if c_Enabled rule then [SyncDeleteRule rid] else []), st2)))"

text \<open>The counts answered: deleted and failed.\<close>

definition BatchDeleteRules :: "string list \<Rightarrow> Store \<Rightarrow> (int \<times> int) \<times> ctl_error option \<times> sync_action list \<times> Store" where
  "BatchDeleteRules ids st =
     (if ids = [] then ((0, 0), None, [], st)
      else case repo_BatchDelete ids st of
             (False, st1) \<Rightarrow> ((0, int (length ids)), Some StoreFailed, [], st1)
           | (True, st1) \<Rightarrow> ((int (length ids), 0), None, [FullSyncToAllNodes], st1))"

section \<open>Creating a batch\<close>

record batch_state =
  bs_rules :: "CRule list"
  bs_failed :: int
  bs_src :: "string list"
  bs_dst :: "string list"
  bs_seen :: "string list"

text \<open>The key of a request: a text with the parts between colons. The ports are not negative here.\<close>

definition batch_key :: "RuleRequest \<Rightarrow> string" where
  "batch_key req =
     (let ports = '':'' @ itoa (nat (q_SrcPort req)) @ '':'' @ itoa (nat (q_DstPort req)) @ '':'' @ stored_protocol req
      in if q_SrcCIDR req \<noteq> [] \<or> q_DstCIDR req \<noteq> []
         then ''cidr:'' @ q_SrcCIDR req @ '':'' @ q_DstCIDR req @ ports
         else ''ip:'' @ q_SrcIP req @ '':'' @ q_DstIP req @ ports)"

definition pending_overlap :: "RuleRequest \<Rightarrow> batch_state \<Rightarrow> bool" where
  "pending_overlap req b =
     (q_SrcCIDR req \<noteq> [] \<and> findCIDROverlap (q_SrcCIDR req) (bs_src b) \<noteq> [] \<or>
      q_DstCIDR req \<noteq> [] \<and> findCIDROverlap (q_DstCIDR req) (bs_dst b) \<noteq> [])"

definition batch_exists :: "RuleRequest \<Rightarrow> Store \<Rightarrow> bool option \<times> Store" where
  "batch_exists req =
     (if q_SrcCIDR req \<noteq> [] \<or> q_DstCIDR req \<noteq> []
      then repo_CIDRExists (q_SrcCIDR req) (q_DstCIDR req) (q_SrcPort req) (q_DstPort req) (stored_protocol req)
      else repo_Exists (q_SrcIP req) (q_DstIP req) (q_SrcPort req) (q_DstPort req) (stored_protocol req))"

text \<open>An expiry that does not parse is dropped here, unlike in \<^verbatim>\<open>Create\<close>.\<close>

definition batch_accept :: "env \<Rightarrow> nat \<Rightarrow> RuleRequest \<Rightarrow> batch_state \<Rightarrow> batch_state" where
  "batch_accept E n req b =
     b\<lparr>bs_seen := batch_key req # bs_seen b,
       bs_src := (if q_SrcCIDR req \<noteq> [] then bs_src b @ [q_SrcCIDR req] else bs_src b),
       bs_dst := (if q_DstCIDR req \<noteq> [] then bs_dst b @ [q_DstCIDR req] else bs_dst b),
       bs_rules := bs_rules b @ [rule_of_request E n (case expiry E req of Inl _ \<Rightarrow> None | Inr t \<Rightarrow> t) req]\<rparr>"

definition batch_fail :: "batch_state \<Rightarrow> batch_state" where
  "batch_fail b = b\<lparr>bs_failed := bs_failed b + 1\<rparr>"

definition batch_item :: "env \<Rightarrow> nat \<Rightarrow> RuleRequest \<Rightarrow> batch_state \<Rightarrow> Store \<Rightarrow> batch_state \<times> Store" where
  "batch_item E n req0 b st =
     (case check_fields req0 of
        Inl e \<Rightarrow> (batch_fail b, st)
      | Inr req \<Rightarrow>
     (case overlap_check req st of
        (Some e, st1) \<Rightarrow> (batch_fail b, st1)
      | (None, st1) \<Rightarrow>
     (if pending_overlap req b then (batch_fail b, st1)
      else if check_anomaly req \<noteq> None then (batch_fail b, st1)
      else case batch_exists req st1 of
        (Some False, st2) \<Rightarrow>
          (if batch_key req \<in> set (bs_seen b) then (batch_fail b, st2) else (batch_accept E n req b, st2))
      | (_, st2) \<Rightarrow> (batch_fail b, st2))))"

fun batch_items :: "env \<Rightarrow> nat \<Rightarrow> RuleRequest list \<Rightarrow> batch_state \<Rightarrow> Store \<Rightarrow> batch_state \<times> Store" where
  "batch_items E n [] b st = (b, st)"
| "batch_items E n (req # reqs) b st =
     (let (b1, st1) = batch_item E n req b st in batch_items E (n + 1) reqs b1 st1)"

definition empty_batch :: batch_state where
  "empty_batch = \<lparr>bs_rules = [], bs_failed = 0, bs_src = [], bs_dst = [], bs_seen = []\<rparr>"

definition BatchCreateRules ::
  "env \<Rightarrow> RuleRequest list \<Rightarrow> Store \<Rightarrow> (CRule list \<times> int \<times> int) \<times> ctl_error option \<times> sync_action list \<times> Store" where
  "BatchCreateRules E reqs st =
     (let (b, st1) = batch_items E 0 reqs empty_batch st;
          done = (bs_rules b, int (length (bs_rules b)), bs_failed b);
          enabled = filter c_Enabled (bs_rules b);
          acts = (if enabled \<noteq> [] then [SyncAddRulesBatch enabled] else [])
      in if bs_rules b = [] then (done, None, acts, st1)
         else case repo_BatchCreate (time_now E) (bs_rules b) st1 of
                (False, st2) \<Rightarrow> (([], 0, int (length reqs)), Some StoreFailed, [], st2)
              | (True, st2) \<Rightarrow> (done, None, acts, st2))"

section \<open>The whitelist service\<close>

definition CreateWhitelist ::
  "env \<Rightarrow> WhitelistRequest \<Rightarrow> Store \<Rightarrow> (ctl_error + CWhitelist) \<times> sync_action list \<times> Store" where
  "CreateWhitelist E req0 st =
     (case validateWhitelistIPFields req0 of
        Inl e \<Rightarrow> (Inl e, [], st)
      | Inr req \<Rightarrow>
     (case stop_if (validateWhitelistScalarBounds req) (stop_if (validateProtocol (wq_Protocol req))
             (stop_if (validatePortProtocolCompat (wq_Protocol req) (wq_SrcPort req) (wq_DstPort req))
             (stop_if (validateWhitelistCombo req) (Inr ())))) of
        Inl e \<Rightarrow> (Inl e, [], st)
      | Inr _ \<Rightarrow>
          (let entry = \<lparr>e_ID = ''wl_'' @ new_id E 0, e_Name = wq_Name req, e_SrcIP = wq_SrcIP req, e_DstIP = wq_DstIP req,
                 e_SrcPort = wq_SrcPort req, e_DstPort = wq_DstPort req,
                 e_Protocol = normalizeWhitelistProtocol (wq_Protocol req), e_Comment = wq_Comment req,
                 e_CreatedAt = time_now E\<rparr>
           in case repo_CreateWhitelist (time_now E) entry st of
                (Some e, st1) \<Rightarrow> (Inl e, [], st1)
              | (None, st1) \<Rightarrow> (Inr entry, [SyncAddWhitelist entry], st1))))"

definition DeleteWhitelistEntry :: "string \<Rightarrow> Store \<Rightarrow> ctl_error option \<times> sync_action list \<times> Store" where
  "DeleteWhitelistEntry wid st =
     (case repo_DeleteWhitelist wid st of
        (False, st1) \<Rightarrow> (Some StoreFailed, [], st1)
      | (True, st1) \<Rightarrow> (None, [SyncDeleteWhitelist wid], st1))"

end
