(* ===== verification/CtlValid.thy ===== *)
theory CtlValid
  imports CtlRules GoNetCidr
begin

text \<open>
  What the checks of the rule service promise of every rule it stores: canonical addresses and prefixes,
  one kind of target, a known protocol with ports only where it has them, canonical TCP flags, an anomaly
  mask with a bounded target. Creating a rule establishes this, updating one and merging anomaly bits into
  one keep it.
\<close>

section \<open>Valid rules\<close>

definition canonical_ip :: "string \<Rightarrow> bool" where
  "canonical_ip s \<longleftrightarrow> validateAndNormalizeIPField [] s = Inr s"

definition has_target :: "CRule \<Rightarrow> bool" where
  "has_target r \<longleftrightarrow> c_SrcIP r \<noteq> [] \<or> c_DstIP r \<noteq> [] \<or> c_SrcCIDR r \<noteq> [] \<or> c_DstCIDR r \<noteq> [] \<or>
     c_SrcPort r \<noteq> 0 \<or> c_DstPort r \<noteq> 0 \<or> c_Protocol r \<noteq> ''all''"

definition flags_ok :: "string \<Rightarrow> string \<Rightarrow> bool" where
  "flags_ok protocol flags \<longleftrightarrow> flags = [] \<or> protocol = ''tcp'' \<and> (\<exists>m v. flags = tcpFlagsToString m v)"

definition lengths_ok :: "CRule \<Rightarrow> bool" where
  "lengths_ok r \<longleftrightarrow> ((c_PktLenMin r > 0 \<or> c_PktLenMax r > 0) \<longrightarrow> has_target r) \<and>
     (c_PktLenMin r > 0 \<and> c_PktLenMax r > 0 \<longrightarrow> c_PktLenMin r \<le> c_PktLenMax r)"

definition action_ok :: "string \<Rightarrow> int \<Rightarrow> bool" where
  "action_ok action rate \<longleftrightarrow> action = ''drop'' \<and> rate = 0 \<or> action = ''rate_limit'' \<and> 0 < rate"

definition target_ok :: "CRule \<Rightarrow> bool" where
  "target_ok r \<longleftrightarrow> canonical_ip (c_SrcIP r) \<and> canonical_ip (c_DstIP r) \<and>
     ctl_network (c_SrcCIDR r) = Some (c_SrcCIDR r) \<and> ctl_network (c_DstCIDR r) = Some (c_DstCIDR r) \<and>
     (c_SrcCIDR r \<noteq> [] \<or> c_DstCIDR r \<noteq> [] \<longrightarrow> c_SrcIP r = [] \<and> c_DstIP r = [])"

definition protocol_ok :: "CRule \<Rightarrow> bool" where
  "protocol_ok r \<longleftrightarrow> c_Protocol r \<in> set validProtocols \<and> c_Protocol r \<noteq> [] \<and>
     validatePortProtocolCompat (c_Protocol r) (c_SrcPort r) (c_DstPort r) = None"

definition anomaly_ok :: "CRule \<Rightarrow> bool" where
  "anomaly_ok r \<longleftrightarrow> validateAnomalyEffective (c_MatchAnomaly r) (c_Action r) (c_SrcIP r) (c_DstIP r)
       (c_SrcCIDR r) (c_DstCIDR r) = None \<and> \<not> (c_TcpFlags r \<noteq> [] \<and> c_MatchAnomaly r \<noteq> 0)"

definition valid_rule :: "CRule \<Rightarrow> bool" where
  "valid_rule r \<longleftrightarrow> rule_fits r \<and> action_ok (c_Action r) (c_RateLimit r) \<and> protocol_ok r \<and> target_ok r \<and>
     flags_ok (c_Protocol r) (c_TcpFlags r) \<and> lengths_ok r \<and> anomaly_ok r"

section \<open>What each check gives\<close>

lemma normalized_ip_canonical:
  assumes "validateAndNormalizeIPField f s = Inr t"
  shows "canonical_ip t"
proof (cases "s = []")
  case True
  with assms show ?thesis by (simp add: validateAndNormalizeIPField_def canonical_ip_def)
next
  case False
  with assms obtain b where b: "net_ParseIP s = Some b" "t = ip_String (canon_ip b)"
    by (auto simp: validateAndNormalizeIPField_def canon_ip_def split: option.splits)
  have l: "length b = 16" using ParseIP_length [OF b(1)] .
  have "ip_String (canon_ip b) = ip_String b" by (auto simp: ip_String_def canon_ip_def ip_To4_def)
  with b(2) have t: "t = ip_String b" by simp
  have p: "net_ParseIP t = Some b" using ParseIP_String [OF l] t by simp
  have "ip_String (case ip_To4 b of Some y \<Rightarrow> y | None \<Rightarrow> b) = t" using b(2) by (simp add: canon_ip_def)
  with p show ?thesis by (auto simp: canonical_ip_def validateAndNormalizeIPField_def split: option.splits)
qed

lemma ctl_network_idem:
  assumes "ctl_network s = Some t"
  shows "ctl_network t = Some t"
proof (cases "s = []")
  case True
  with assms show ?thesis by (simp add: ctl_network_def)
next
  case False
  with assms obtain ip n where n: "net_ParseCIDR s = Some (ip, n)" "t = ipnet_String n"
    by (auto simp: ctl_network_def)
  obtain nn k where v: "is_view n nn k" using ParseCIDR_view [OF n(1)] by blast
  then have w: "length nn = 4 \<or> length nn = 16 \<and> ip_To4 nn = None" "k \<le> 8 * length nn" "masked nn k = nn"
    by (auto simp: is_view_def)
  have t: "t = view_string nn k" using n(2) ipnet_String_view [OF v] by simp
  have "\<exists>ip. net_ParseCIDR t = Some (ip, view_net nn k)" unfolding t by (rule ParseCIDR_view_string [OF w])
  then show ?thesis using ipnet_String_view [OF is_view_view_net [OF w]] t by (auto simp: ctl_network_def)
qed

lemma and_check_Inr: "and_check r f = Inr y \<longleftrightarrow> (\<exists>x. r = Inr x \<and> f x = Inr y)"
  by (simp add: and_check_def split: sum.split)

lemma stop_if_Inr: "stop_if e r = Inr y \<longleftrightarrow> e = None \<and> r = Inr y"
  by (simp add: stop_if_def split: option.split)

lemma validateIPFields_Inr:
  assumes "validateIPFields req = Inr req'"
  shows "\<exists>s d. req' = req\<lparr>q_SrcIP := s, q_DstIP := d\<rparr> \<and> canonical_ip s \<and> canonical_ip d"
  using assms by (auto simp: validateIPFields_def split: sum.splits dest: normalized_ip_canonical)

lemma validateCIDRRule_Inr:
  assumes "validateCIDRRule req = Inr req'"
  shows "\<exists>s d. req' = req\<lparr>q_SrcCIDR := s, q_DstCIDR := d\<rparr> \<and> ctl_network s = Some s \<and> ctl_network d = Some d \<and>
    q_SrcIP req = [] \<and> q_DstIP req = [] \<and> (s = [] \<longleftrightarrow> q_SrcCIDR req = []) \<and> (d = [] \<longleftrightarrow> q_DstCIDR req = [])"
proof -
  have ne: "ctl_network c = Some s \<Longrightarrow> s = [] \<longleftrightarrow> c = []" for c s
  proof -
    assume a: "ctl_network c = Some s"
    have "ipnet_String n \<noteq> []" for n by (auto simp: ipnet_String_def Let_def split: option.split)
    with a show ?thesis by (auto simp: ctl_network_def split: if_splits)
  qed
  obtain s d where sd: "ctl_network (q_SrcCIDR req) = Some s" "ctl_network (q_DstCIDR req) = Some d"
    "req' = req\<lparr>q_SrcCIDR := s, q_DstCIDR := d\<rparr>" "q_SrcIP req = []" "q_DstIP req = []"
    using assms by (auto simp: validateCIDRRule_def split: if_splits option.splits)
  then show ?thesis
    using ne [OF sd(1)] ne [OF sd(2)] ctl_network_idem [OF sd(1)] ctl_network_idem [OF sd(2)]
    by (intro exI [of _ s] exI [of _ d] conjI) simp_all
qed

lemma validatePktLenRule_Inr:
  assumes "validatePktLenRule req = Inr req'"
  shows "\<exists>fl. req' = req\<lparr>q_TcpFlags := fl\<rparr> \<and> flags_ok (q_Protocol req) (derefString fl)"
    and "derefInt (q_PktLenMin req) > 0 \<or> derefInt (q_PktLenMax req) > 0 \<Longrightarrow>
      q_SrcIP req \<noteq> [] \<or> q_DstIP req \<noteq> [] \<or> q_SrcCIDR req \<noteq> [] \<or> q_DstCIDR req \<noteq> [] \<or>
      q_SrcPort req \<noteq> 0 \<or> q_DstPort req \<noteq> 0 \<or> (q_Protocol req \<noteq> [] \<and> q_Protocol req \<noteq> ''all'')"
    and "derefInt (q_PktLenMin req) > 0 \<and> derefInt (q_PktLenMax req) > 0 \<Longrightarrow>
      derefInt (q_PktLenMin req) \<le> derefInt (q_PktLenMax req)"
proof -
  note a = assms [unfolded validatePktLenRule_def Let_def]
  show "derefInt (q_PktLenMin req) > 0 \<or> derefInt (q_PktLenMax req) > 0 \<Longrightarrow>
      q_SrcIP req \<noteq> [] \<or> q_DstIP req \<noteq> [] \<or> q_SrcCIDR req \<noteq> [] \<or> q_DstCIDR req \<noteq> [] \<or>
      q_SrcPort req \<noteq> 0 \<or> q_DstPort req \<noteq> 0 \<or> (q_Protocol req \<noteq> [] \<and> q_Protocol req \<noteq> ''all'')"
    using a by (auto split: if_splits)
  show "derefInt (q_PktLenMin req) > 0 \<and> derefInt (q_PktLenMax req) > 0 \<Longrightarrow>
      derefInt (q_PktLenMin req) \<le> derefInt (q_PktLenMax req)"
    using a by (auto split: if_splits)
  show "\<exists>fl. req' = req\<lparr>q_TcpFlags := fl\<rparr> \<and> flags_ok (q_Protocol req) (derefString fl)"
  proof (cases "derefString (q_TcpFlags req) = []")
    case True
    then have "req' = req\<lparr>q_TcpFlags := q_TcpFlags req\<rparr>"
      using a by (auto simp: derefString_def split: if_splits option.splits)
    with True show ?thesis unfolding flags_ok_def by blast
  next
    case False
    then obtain s where s: "q_TcpFlags req = Some s" "s \<noteq> []" by (auto simp: derefString_def split: option.splits)
    with a have p: "q_Protocol req = ''tcp''" by (auto split: if_splits)
    obtain t where t: "validateAndNormalizeTcpFlags s = Inr t" "req' = req\<lparr>q_TcpFlags := Some t\<rparr>"
      using a s by (auto split: if_splits sum.splits)
    have "flags_ok (q_Protocol req) (derefString (Some t))"
      using normalized_flags [OF t(1)] p unfolding flags_ok_def derefString_def option.case by blast
    with t(2) show ?thesis by blast
  qed
qed

lemma scalar_bounds_None:
  assumes "validateRuleScalarBounds req = None"
  shows "q_SrcPort req \<in> {0..65535}" "q_DstPort req \<in> {0..65535}" "q_RateLimit req \<in> {0..4294967295}"
    "q_PktLenMin req = Some v \<Longrightarrow> v \<in> {0..65535}" "q_PktLenMax req = Some w \<Longrightarrow> w \<in> {0..65535}"
    "q_Action req = ''drop'' \<Longrightarrow> q_RateLimit req = 0"
  using assms by (auto simp: validateRuleScalarBounds_def split: if_splits)

text \<open>The parts of an accepted request.\<close>

lemma check_fieldsE:
  assumes "check_fields req0 = Inr req"
  obtains req1 req2 req3 where "normalizeDecoder req0 = Inr req1" "check_action req1 = None"
    "validateIPFields req1 = Inr req2" "validateRuleScalarBounds req2 = None" "validateProtocol (q_Protocol req2) = None"
    "validatePortProtocolCompat (q_Protocol req2) (q_SrcPort req2) (q_DstPort req2) = None"
    "validatePktLenRule req2 = Inr req3"
    "if q_SrcCIDR req3 \<noteq> [] \<or> q_DstCIDR req3 \<noteq> [] then validateCIDRRule req3 = Inr req else req = req3"
proof -
  from assms obtain req1 where 1: "normalizeDecoder req0 = Inr req1" "check_action req1 = None"
    and r: "and_check (validateIPFields req1) (\<lambda>req2.
       stop_if (validateRuleScalarBounds req2) (
       stop_if (validateProtocol (q_Protocol req2)) (
       stop_if (validatePortProtocolCompat (q_Protocol req2) (q_SrcPort req2) (q_DstPort req2)) (
       and_check (validatePktLenRule req2) (\<lambda>req3.
         if q_SrcCIDR req3 \<noteq> [] \<or> q_DstCIDR req3 \<noteq> [] then validateCIDRRule req3 else Inr req3))))) = Inr req"
    unfolding check_fields_def and_check_Inr stop_if_Inr by blast
  then obtain req2 req3 where 2: "validateIPFields req1 = Inr req2" "validateRuleScalarBounds req2 = None"
    "validateProtocol (q_Protocol req2) = None"
    "validatePortProtocolCompat (q_Protocol req2) (q_SrcPort req2) (q_DstPort req2) = None"
    "validatePktLenRule req2 = Inr req3"
    "(if q_SrcCIDR req3 \<noteq> [] \<or> q_DstCIDR req3 \<noteq> [] then validateCIDRRule req3 else Inr req3) = Inr req"
    unfolding and_check_Inr stop_if_Inr by blast
  from 2(6) have 3: "if q_SrcCIDR req3 \<noteq> [] \<or> q_DstCIDR req3 \<noteq> [] then validateCIDRRule req3 = Inr req else req = req3"
    by (auto split: if_splits)
  show ?thesis by (rule that [OF 1 2(1-5) 3])
qed

definition has_target_request :: "RuleRequest \<Rightarrow> bool" where
  "has_target_request req \<longleftrightarrow> q_SrcIP req \<noteq> [] \<or> q_DstIP req \<noteq> [] \<or> q_SrcCIDR req \<noteq> [] \<or> q_DstCIDR req \<noteq> [] \<or>
     q_SrcPort req \<noteq> 0 \<or> q_DstPort req \<noteq> 0 \<or> (q_Protocol req \<noteq> [] \<and> q_Protocol req \<noteq> ''all'')"

text \<open>A request that passed the checks of its fields.\<close>

definition request_ok :: "RuleRequest \<Rightarrow> bool" where
  "request_ok req \<longleftrightarrow> q_SrcPort req \<in> {0..65535} \<and> q_DstPort req \<in> {0..65535} \<and> q_RateLimit req \<in> {0..4294967295} \<and>
     derefInt (q_PktLenMin req) \<in> {0..65535} \<and> derefInt (q_PktLenMax req) \<in> {0..65535} \<and>
     action_ok (q_Action req) (q_RateLimit req) \<and> q_Protocol req \<in> set validProtocols \<and>
     validatePortProtocolCompat (q_Protocol req) (q_SrcPort req) (q_DstPort req) = None \<and>
     canonical_ip (q_SrcIP req) \<and> canonical_ip (q_DstIP req) \<and>
     ctl_network (q_SrcCIDR req) = Some (q_SrcCIDR req) \<and> ctl_network (q_DstCIDR req) = Some (q_DstCIDR req) \<and>
     (q_SrcCIDR req \<noteq> [] \<or> q_DstCIDR req \<noteq> [] \<longrightarrow> q_SrcIP req = [] \<and> q_DstIP req = []) \<and>
     flags_ok (q_Protocol req) (derefString (q_TcpFlags req)) \<and>
     ((derefInt (q_PktLenMin req) > 0 \<or> derefInt (q_PktLenMax req) > 0) \<longrightarrow> has_target_request req) \<and>
     (derefInt (q_PktLenMin req) > 0 \<and> derefInt (q_PktLenMax req) > 0 \<longrightarrow>
        derefInt (q_PktLenMin req) \<le> derefInt (q_PktLenMax req))"

lemma check_fields_ok:
  assumes "check_fields req0 = Inr req"
  shows "request_ok req"
proof -
  from assms show ?thesis
  proof (cases rule: check_fieldsE)
    case (1 req1 req2 req3)
    note c = 1
    obtain s d where ip: "req2 = req1\<lparr>q_SrcIP := s, q_DstIP := d\<rparr>" "canonical_ip s" "canonical_ip d"
      using validateIPFields_Inr [OF c(3)] by blast
    obtain fl where fl: "req3 = req2\<lparr>q_TcpFlags := fl\<rparr>" "flags_ok (q_Protocol req2) (derefString fl)"
      using validatePktLenRule_Inr(1) [OF c(7)] by blast
    obtain sc dc where sc: "req = req3\<lparr>q_SrcCIDR := sc, q_DstCIDR := dc\<rparr>" "ctl_network sc = Some sc" "ctl_network dc = Some dc"
      "sc \<noteq> [] \<or> dc \<noteq> [] \<longrightarrow> q_SrcIP req3 = [] \<and> q_DstIP req3 = []"
      "sc = [] \<longleftrightarrow> q_SrcCIDR req3 = []" "dc = [] \<longleftrightarrow> q_DstCIDR req3 = []"
    proof (cases "q_SrcCIDR req3 \<noteq> [] \<or> q_DstCIDR req3 \<noteq> []")
      case True
      with c(8) have "validateCIDRRule req3 = Inr req" by simp
      from validateCIDRRule_Inr [OF this] that show ?thesis by blast
    next
      case False
      with c(8) have "req = req3\<lparr>q_SrcCIDR := [], q_DstCIDR := []\<rparr>" by simp
      with False show ?thesis by (intro that [of "[]" "[]"]) (auto simp: ctl_network_def)
    qed
    have f: "q_SrcPort req = q_SrcPort req2" "q_DstPort req = q_DstPort req2" "q_RateLimit req = q_RateLimit req2"
      "q_PktLenMin req = q_PktLenMin req2" "q_PktLenMax req = q_PktLenMax req2" "q_Action req = q_Action req1"
      "q_Action req2 = q_Action req1" "q_RateLimit req2 = q_RateLimit req1"
      "q_Protocol req = q_Protocol req2" "q_SrcIP req = s" "q_DstIP req = d" "q_SrcCIDR req = sc" "q_DstCIDR req = dc"
      "q_TcpFlags req = fl" "q_SrcIP req3 = s" "q_DstIP req3 = d" "q_SrcIP req2 = s" "q_DstIP req2 = d"
      "q_SrcCIDR req3 = q_SrcCIDR req2" "q_DstCIDR req3 = q_DstCIDR req2"
      by (simp_all add: ip(1) fl(1) sc(1))
    note b = scalar_bounds_None [OF c(4)]
    have l: "derefInt (q_PktLenMin req2) \<in> {0..65535}" "derefInt (q_PktLenMax req2) \<in> {0..65535}"
      using b(4,5) by (auto simp: derefInt_def split: option.split)
    have a: "action_ok (q_Action req1) (q_RateLimit req1)"
      using c(2) b(6) f by (auto simp: check_action_def action_ok_def split: if_splits)
    have p: "q_Protocol req2 \<in> set validProtocols" using c(5) by (auto simp: validateProtocol_def split: if_splits)
    have t: "derefInt (q_PktLenMin req2) > 0 \<or> derefInt (q_PktLenMax req2) > 0 \<Longrightarrow> has_target_request req"
      using validatePktLenRule_Inr(2) [OF c(7)] f sc(5,6) unfolding has_target_request_def by auto
    have m: "sc \<noteq> [] \<or> dc \<noteq> [] \<longrightarrow> s = [] \<and> d = []" using sc(4) f(15,16) by simp
    show ?thesis
      unfolding request_ok_def f
      using b(1-3) l a p c(6) ip(2,3) sc(2,3) m fl(2) t validatePktLenRule_Inr(3) [OF c(7)] f(8) by simp
  qed
qed

lemma rule_of_request_simps [simp]:
  "c_SrcIP (rule_of_request E n t req) = q_SrcIP req" "c_DstIP (rule_of_request E n t req) = q_DstIP req"
  "c_SrcCIDR (rule_of_request E n t req) = q_SrcCIDR req" "c_DstCIDR (rule_of_request E n t req) = q_DstCIDR req"
  "c_SrcPort (rule_of_request E n t req) = q_SrcPort req" "c_DstPort (rule_of_request E n t req) = q_DstPort req"
  "c_Protocol (rule_of_request E n t req) = stored_protocol req" "c_Action (rule_of_request E n t req) = q_Action req"
  "c_RateLimit (rule_of_request E n t req) = q_RateLimit req"
  "c_PktLenMin (rule_of_request E n t req) = derefInt (q_PktLenMin req)"
  "c_PktLenMax (rule_of_request E n t req) = derefInt (q_PktLenMax req)"
  "c_TcpFlags (rule_of_request E n t req) = derefString (q_TcpFlags req)"
  "c_MatchAnomaly (rule_of_request E n t req) = q_MatchAnomaly req"
  "c_ID (rule_of_request E n t req) = ''rule_'' @ new_id E n"
  by (simp_all add: rule_of_request_def)

lemma anomaly_in_range:
  "validateAnomalyEffective an ac sip dip sc dc = None \<Longrightarrow> an \<in> {0..3}"
  by (auto simp: validateAnomalyEffective_None)

text \<open>What passes all checks of a request is stored as a valid rule.\<close>

lemma request_ok_valid_rule:
  assumes "request_ok req" "check_anomaly req = None"
  shows "valid_rule (rule_of_request E n t req)"
proof -
  note r = assms(1) [unfolded request_ok_def]
  have an: "validateAnomalyEffective (q_MatchAnomaly req) (q_Action req) (q_SrcIP req) (q_DstIP req) (q_SrcCIDR req)
      (q_DstCIDR req) = None" "\<not> (derefString (q_TcpFlags req) \<noteq> [] \<and> q_MatchAnomaly req \<noteq> 0)"
    using assms(2) by (auto simp: check_anomaly_def validateAnomalyFields_def split: option.splits if_splits)
  have p: "stored_protocol req \<in> set validProtocols" "stored_protocol req \<noteq> []"
    using r by (auto simp: stored_protocol_def validProtocols_def)
  have pc: "validatePortProtocolCompat (stored_protocol req) (q_SrcPort req) (q_DstPort req) = None"
    using r by (auto simp: stored_protocol_def validatePortProtocolCompat_def portlessProtocols_def)
  have fl: "flags_ok (stored_protocol req) (derefString (q_TcpFlags req))"
    using r by (auto simp: stored_protocol_def flags_ok_def)
  have tg: "has_target_request req = has_target (rule_of_request E n t req)"
    by (auto simp: has_target_request_def has_target_def stored_protocol_def)
  show ?thesis
    unfolding valid_rule_def rule_fits_def protocol_ok_def target_ok_def lengths_ok_def anomaly_ok_def rule_of_request_simps
    using r an p pc fl anomaly_in_range [OF an(1)] tg by auto
qed

section \<open>Merging anomaly bits\<close>

lemma odd_or: "odd (a OR b) \<longleftrightarrow> odd a \<or> odd b" for a b :: int
  using bit_or_iff [of a b 0] by (simp add: bit_0)

lemma or_small:
  fixes a b :: int
  assumes "a \<in> {0..3}" "b \<in> {0..3}"
  shows "a OR b \<in> {0..3}" "b \<noteq> 0 \<Longrightarrow> a OR b \<noteq> 0"
proof -
  have "\<forall>a \<in> {0, 1, 2, 3}. \<forall>b \<in> {0, 1, 2, 3 :: int}. a OR b \<in> {0..3} \<and> (b \<noteq> 0 \<longrightarrow> a OR b \<noteq> 0)" by simp
  moreover have "a \<in> {0, 1, 2, 3}" "b \<in> {0, 1, 2, 3}" using assms by auto
  ultimately show "a OR b \<in> {0..3}" "b \<noteq> 0 \<Longrightarrow> a OR b \<noteq> 0" by blast+
qed

lemma anomaly_or:
  assumes "validateAnomalyEffective a ac sip dip sc dc = None" "validateAnomalyEffective b ac sip dip sc dc = None"
    "a \<noteq> 0" "b \<noteq> 0"
  shows "validateAnomalyEffective (a OR b) ac sip dip sc dc = None"
proof -
  have r: "a \<in> {0..3}" "b \<in> {0..3}" using assms(1,2) anomaly_in_range by blast+
  have "a OR b \<in> {0..3}" "a OR b \<noteq> 0" using or_small [OF r] assms(4) by simp_all
  then have n: "a OR b \<in> {1..3}" unfolding atLeastAtMost_iff by linarith
  show ?thesis
    using assms n odd_or [of a b] unfolding validateAnomalyEffective_None by blast
qed

text \<open>The merged rule differs from the existing one in the mask and the time of the update only.\<close>

lemma merged_valid:
  assumes "valid_rule e" "check_anomaly req = None" "q_MatchAnomaly req \<noteq> 0" "c_MatchAnomaly e \<noteq> 0"
    "c_Action e = q_Action req" "c_SrcIP e = q_SrcIP req" "c_DstIP e = q_DstIP req" "c_SrcCIDR e = q_SrcCIDR req"
    "c_DstCIDR e = q_DstCIDR req"
  shows "valid_rule (e\<lparr>c_MatchAnomaly := c_MatchAnomaly e OR q_MatchAnomaly req\<rparr>)"
proof -
  note v = assms(1) [unfolded valid_rule_def]
  have a: "anomaly_ok e" using v by simp
  have b: "validateAnomalyEffective (q_MatchAnomaly req) (q_Action req) (q_SrcIP req) (q_DstIP req) (q_SrcCIDR req)
      (q_DstCIDR req) = None"
    using assms(2) by (auto simp: check_anomaly_def validateAnomalyFields_def split: option.splits)
  have m: "validateAnomalyEffective (c_MatchAnomaly e OR q_MatchAnomaly req) (c_Action e) (c_SrcIP e) (c_DstIP e)
      (c_SrcCIDR e) (c_DstCIDR e) = None"
    using anomaly_or [OF _ _ assms(4,3)] a b assms(5-9) by (simp add: anomaly_ok_def)
  have r: "c_MatchAnomaly e OR q_MatchAnomaly req \<in> {0..255}" using anomaly_in_range [OF m] by auto
  have f: "c_TcpFlags e = []" using a assms(4) by (simp add: anomaly_ok_def)
  show ?thesis
    using v m r f
    by (simp add: valid_rule_def rule_fits_def protocol_ok_def target_ok_def lengths_ok_def has_target_def anomaly_ok_def)
qed

lemma valid_rule_updated [simp]: "valid_rule (r\<lparr>c_UpdatedAt := t\<rparr>) = valid_rule r"
  "valid_rule (r\<lparr>c_CreatedAt := t\<rparr>) = valid_rule r"
  by (simp_all add: valid_rule_def rule_fits_def protocol_ok_def target_ok_def lengths_ok_def has_target_def anomaly_ok_def)

section \<open>Updating\<close>

text \<open>What an update never changes.\<close>

definition same_key :: "CRule \<Rightarrow> CRule \<Rightarrow> bool" where
  "same_key a b \<longleftrightarrow> c_ID a = c_ID b \<and> c_SrcIP a = c_SrcIP b \<and> c_DstIP a = c_DstIP b \<and> c_SrcCIDR a = c_SrcCIDR b \<and>
     c_DstCIDR a = c_DstCIDR b \<and> c_SrcPort a = c_SrcPort b \<and> c_DstPort a = c_DstPort b \<and> c_Protocol a = c_Protocol b"

lemma merge_fields_key: "merge_fields E req rule = Inr new \<Longrightarrow> same_key new rule"
  by (auto simp: merge_fields_def and_check_Inr Let_def same_key_def split: if_splits)

lemma update_checks_Inr:
  assumes "update_checks req0 rule = Inr req"
  shows "validateRuleScalarBounds req = None" "validateAnomalyFieldsForUpdate req rule = None"
    "\<exists>x. validatePktLenRule (effective_lengths req rule) = Inr x" "check_update_action req rule = None"
  using assms unfolding update_checks_def and_check_Inr stop_if_Inr by blast+

lemma update_flags_ok:
  assumes "update_flags req rule = Inr flags" "flags_ok (c_Protocol rule) (c_TcpFlags rule)"
  shows "flags_ok (c_Protocol rule) flags"
proof (cases "\<exists>s. q_TcpFlags req = Some s \<and> s \<noteq> []")
  case True
  then obtain s where "c_Protocol rule = ''tcp''" "validateAndNormalizeTcpFlags s = Inr flags"
    using assms(1) by (auto simp: update_flags_def split: if_splits)
  with normalized_flags [of s flags] show ?thesis by (simp add: flags_ok_def)
next
  case False
  with assms show ?thesis by (auto simp: update_flags_def flags_ok_def split: option.splits if_splits)
qed

text \<open>An accepted update keeps the rule valid.\<close>

lemma update_valid:
  assumes "valid_rule rule" "update_checks req0 rule = Inr req" "merge_fields E req rule = Inr new"
  shows "valid_rule new"
proof -
  note v = assms(1) [unfolded valid_rule_def]
  note u = update_checks_Inr [OF assms(2)]
  note b = scalar_bounds_None [OF u(1)]
  let ?min = "case q_PktLenMin req of Some v \<Rightarrow> v | None \<Rightarrow> c_PktLenMin rule"
  let ?max = "case q_PktLenMax req of Some v \<Rightarrow> v | None \<Rightarrow> c_PktLenMax rule"
  have k: "same_key new rule" using merge_fields_key [OF assms(3)] .
  obtain flags where fl: "update_flags req rule = Inr flags"
    and n: "c_TcpFlags new = flags" "c_Action new = effectiveAction req rule" "c_PktLenMin new = ?min" "c_PktLenMax new = ?max"
      "c_RateLimit new = (if effectiveAction req rule = ''drop'' then 0 else if q_RateLimit req > 0 then q_RateLimit req else c_RateLimit rule)"
      "c_MatchAnomaly new = (if q_MatchAnomaly req \<noteq> 0 then q_MatchAnomaly req else c_MatchAnomaly rule)"
      "\<not> (c_TcpFlags new \<noteq> [] \<and> c_MatchAnomaly new \<noteq> 0)"
    using assms(3) by (auto simp: merge_fields_def and_check_Inr Let_def split: if_splits)
  obtain x where x: "validatePktLenRule (effective_lengths req rule) = Inr x" using u(3) by blast
  have fi: "c_PktLenMin rule \<in> {0..65535}" "c_PktLenMax rule \<in> {0..65535}" "c_RateLimit rule \<in> {0..4294967295}"
    "c_SrcPort rule \<in> {0..65535}" "c_DstPort rule \<in> {0..65535}"
    using v by (auto simp: rule_fits_def)
  have mm: "?min \<in> {0..65535}" "?max \<in> {0..65535}"
    using b(4,5) fi(1,2) by (auto split: option.split)
  have an: "validateAnomalyEffective (c_MatchAnomaly new) (c_Action new) (c_SrcIP new) (c_DstIP new) (c_SrcCIDR new)
      (c_DstCIDR new) = None"
    using u(2) k by (simp add: validateAnomalyFieldsForUpdate_def n(2,6) effectiveAction_def same_key_def)
  have "action_ok (c_Action rule) (c_RateLimit rule)" using v by simp
  then have ac: "action_ok (c_Action new) (c_RateLimit new)"
    using u(4) unfolding n(2,5) by (auto simp: action_ok_def check_update_action_def Let_def effectiveAction_def split: if_splits)
  have le: "lengths_ok new"
    using validatePktLenRule_Inr(2,3) [OF x] k unfolding lengths_ok_def n(3,4) has_target_def same_key_def
    by (simp add: effective_lengths_def empty_request_def derefInt_def)
  have ra: "c_RateLimit new \<in> {0..4294967295}" using b(3) fi(3) n(5) by auto
  have fo: "flags_ok (c_Protocol new) (c_TcpFlags new)"
    using update_flags_ok [OF fl] v k n(1) by (simp add: same_key_def)
  have rf: "rule_fits new"
    using fi(4,5) mm ra anomaly_in_range [OF an] k n(3,4) by (auto simp: rule_fits_def same_key_def)
  have "protocol_ok new" "target_ok new" using v k by (simp_all add: protocol_ok_def target_ok_def same_key_def)
  with rf ac fo le an n(7) show ?thesis unfolding valid_rule_def anomaly_ok_def by blast
qed

end
