(* ===== verification/CtlOverlap.thy ===== *)
theory CtlOverlap
  imports CtlValid CidrManager
begin

text \<open>
  The overlap check of the controller (\<^verbatim>\<open>findCIDROverlap\<close>) and that of the nodes
  (\<^verbatim>\<open>CheckOverlap\<close>) are two programs; on the prefixes the controller stores they give the same
  answer, and an empty answer means that no two of them share an address.
\<close>

section \<open>Canonical prefixes\<close>

lemma ctl_network_normal: "c \<noteq> [] \<Longrightarrow> ctl_network c = Some c \<longleftrightarrow> normal_cidr c"
  by (auto simp: ctl_network_def normal_cidr_def NormalizeCIDR_def split: option.splits)

lemma normal_cidr_view:
  assumes "normal_cidr c"
  obtains nn k ip where "c = view_string nn k" "net_ParseCIDR c = Some (ip, view_net nn k)" "is_view (view_net nn k) nn k"
    "mask_Size (net_Mask (view_net nn k)) = int k" "length nn = 4 \<or> length nn = 16 \<and> ip_To4 nn = None"
proof -
  obtain ip0 n where n: "net_ParseCIDR c = Some (ip0, n)" "c = ipnet_String n"
    using assms by (auto simp: normal_cidr_def NormalizeCIDR_def split: option.splits)
  obtain nn k where v: "is_view n nn k" using ParseCIDR_view [OF n(1)] by blast
  then have w: "length nn = 4 \<or> length nn = 16 \<and> ip_To4 nn = None" "k \<le> 8 * length nn" "masked nn k = nn"
    by (auto simp: is_view_def)
  have c: "c = view_string nn k" using n(2) ipnet_String_view [OF v] by simp
  obtain ip where p: "net_ParseCIDR c = Some (ip, view_net nn k)" using ParseCIDR_view_string [OF w] c by blast
  have "mask_Size (net_Mask (view_net nn k)) = int k"
    using simple_mask_length_cidr_mask [OF w(2)] by (simp add: mask_Size_def view_net_def Let_def)
  with that [OF c p is_view_view_net [OF w]] w(1) show ?thesis by blast
qed

lemma normal_cidr_nonempty: "normal_cidr c \<Longrightarrow> c \<noteq> []"
  by (auto elim!: normal_cidr_view simp: view_string_def)

text \<open>A prefix contains the network number of a longer one as soon as that contains its own.\<close>

lemma contains_longer:
  assumes "is_view n nn k" "is_view n' nn' k'" "k \<le> k'" "ipnet_Contains n' (net_IP n)"
  shows "ipnet_Contains n (net_IP n')"
proof -
  have a: "length nn = length nn'" "masked nn k' = nn'"
    using assms(4) by (simp_all add: Contains_view [OF assms(2)] view_canon [OF assms(1)])
  have "masked nn' k = nn" using masked_masked [OF assms(3), of nn] a(2) view_masked [OF assms(1)] by simp
  with a(1) show ?thesis by (simp add: Contains_view [OF assms(1)] view_canon [OF assms(2)])
qed

section \<open>The two checks agree\<close>

lemma findCIDROverlap_loop:
  assumes "normal_cidr c" "net_ParseCIDR c = Some (ip, n)" "\<forall>e \<in> set es. normal_cidr e"
  shows "findCIDROverlap c es = overlap_loop n es"
  using assms(3)
proof (induction es)
  case (Cons e es)
  obtain nn k ip1 where v: "c = view_string nn k" "net_ParseCIDR c = Some (ip1, view_net nn k)"
    "is_view (view_net nn k) nn k" "mask_Size (net_Mask (view_net nn k)) = int k"
    using assms(1) by (elim normal_cidr_view)
  have n: "n = view_net nn k" using v(2) assms(2) by simp
  have "normal_cidr e" using Cons.prems by simp
  then obtain nn' k' ip' where v': "e = view_string nn' k'" "net_ParseCIDR e = Some (ip', view_net nn' k')"
    "is_view (view_net nn' k') nn' k'" "mask_Size (net_Mask (view_net nn' k')) = int k'"
    by (elim normal_cidr_view)
  have s: "ipnet_String n = ipnet_String (view_net nn' k') \<longleftrightarrow> e = c"
    using ipnet_String_view [OF v(3)] ipnet_String_view [OF v'(3)] v(1) v'(1) n by auto
  have IH: "findCIDROverlap c es = overlap_loop n es" using Cons by simp
  let ?a = "ipnet_Contains (view_net nn' k') (net_IP n)" and ?b = "ipnet_Contains n (net_IP (view_net nn' k'))"
  have ab: "?a \<Longrightarrow> k \<le> k' \<Longrightarrow> ?b" "?b \<Longrightarrow> k' \<le> k \<Longrightarrow> ?a"
    using contains_longer [OF v(3) v'(3)] contains_longer [OF v'(3) v(3)] n by blast+
  have "findCIDROverlap c (e # es) =
      (if e = c then overlap_loop n es
       else if int k \<ge> int k' \<and> ?a then e else if int k' \<ge> int k \<and> ?b then e else overlap_loop n es)"
    by (simp only: findCIDROverlap.simps assms(2) v'(2) v'(4) n v(4) option.case prod.case Let_def IH)
  also have "\<dots> = (if e = c then overlap_loop n es else if ?a \<or> ?b then e else overlap_loop n es)"
    using ab linear [of k k'] by (auto simp: of_nat_le_iff)
  also have "\<dots> = overlap_loop n (e # es)"
    by (simp only: overlap_loop.simps v'(2) option.case prod.case s)
  finally show ?case .
qed simp

text \<open>The addresses of a prefix.\<close>

definition cidr_has :: "string \<Rightarrow> bytes \<Rightarrow> bool" where
  "cidr_has c x \<longleftrightarrow> (case net_ParseCIDR c of None \<Rightarrow> False | Some (_, n) \<Rightarrow> ipnet_Contains n x)"

definition cidrs_apart :: "string \<Rightarrow> string \<Rightarrow> bool" where
  "cidrs_apart c d \<longleftrightarrow> c = [] \<or> d = [] \<or> c = d \<or> \<not> (\<exists>x. cidr_has c x \<and> cidr_has d x)"

lemma cidrs_apart_sym: "cidrs_apart c d \<Longrightarrow> cidrs_apart d c"
  by (auto simp: cidrs_apart_def)

lemma findCIDROverlap_cases:
  assumes "normal_cidr c" "\<forall>e \<in> set es. normal_cidr e"
  shows "(findCIDROverlap c es = [] \<and> (\<forall>e \<in> set es. cidrs_apart c e)) \<or>
    (findCIDROverlap c es \<in> set es \<and> \<not> cidrs_apart c (findCIDROverlap c es))"
proof -
  obtain nn k ip where v: "c = view_string nn k" "net_ParseCIDR c = Some (ip, view_net nn k)"
    "is_view (view_net nn k) nn k"
    using assms(1) by (elim normal_cidr_view)
  let ?n = "view_net nn k"
  note eq = findCIDROverlap_loop [OF assms(1) v(2) assms(2)]
  have sc: "ipnet_String ?n = c" using ipnet_String_view [OF v(3)] v(1) by simp
  have se: "ipnet_String n' = e" if "e \<in> set es" "net_ParseCIDR e = Some (ip', n')" for e ip' n'
  proof -
    have "normal_cidr e" using that(1) assms(2) by blast
    then show ?thesis using that(2) by (simp add: normal_cidr_def NormalizeCIDR_def)
  qed
  from overlap_loop_cases [OF v(3), of es] show ?thesis
  proof
    assume a: "overlap_loop ?n es \<in> set es \<and> (\<exists>ip' n'. net_ParseCIDR (overlap_loop ?n es) = Some (ip', n') \<and>
        ipnet_String n' \<noteq> ipnet_String ?n \<and> (\<exists>x. ipnet_Contains ?n x \<and> ipnet_Contains n' x))"
    then obtain ip' n' x where b: "net_ParseCIDR (overlap_loop ?n es) = Some (ip', n')" "ipnet_String n' \<noteq> c"
      "ipnet_Contains ?n x" "ipnet_Contains n' x" unfolding sc by blast
    have "overlap_loop ?n es \<noteq> c" using se [OF _ b(1)] a b(2) by blast
    moreover have "overlap_loop ?n es \<noteq> []" "c \<noteq> []" using a assms normal_cidr_nonempty by blast+
    moreover have "cidr_has c x" "cidr_has (overlap_loop ?n es) x" using b v(2) by (simp_all add: cidr_has_def)
    ultimately show ?thesis using a unfolding eq cidrs_apart_def by blast
  next
    assume a: "overlap_loop ?n es = [] \<and> (\<forall>e \<in> set es. \<forall>ip' n'. net_ParseCIDR e = Some (ip', n') \<longrightarrow>
        ipnet_String n' = ipnet_String ?n \<or> \<not> (\<exists>x. ipnet_Contains ?n x \<and> ipnet_Contains n' x))"
    have "cidrs_apart c e" if e: "e \<in> set es" for e
    proof -
      have "normal_cidr e" using e assms(2) by blast
      then obtain ip' n' where p: "net_ParseCIDR e = Some (ip', n')" by (elim normal_cidr_view) blast
      have "e = c \<or> \<not> (\<exists>x. ipnet_Contains ?n x \<and> ipnet_Contains n' x)"
        using a e p se [OF e p] sc by metis
      then show ?thesis using p v(2) by (auto simp: cidrs_apart_def cidr_has_def)
    qed
    with a show ?thesis unfolding eq by blast
  qed
qed

end
