(* ===== verification/CtlInv.thy ===== *)
theory CtlInv
  imports CtlOverlap
begin

text \<open>
  The invariant of the controller's store: every rule is valid, no two rules share an ID or match the same
  packets by the same fields, and the prefixes of one direction are equal or share no address. Every
  operation of the services keeps it, whichever statements the database fails.
\<close>

section \<open>Tables of rules\<close>

definition same_tuple :: "CRule \<Rightarrow> CRule \<Rightarrow> bool" where
  "same_tuple a b \<longleftrightarrow> c_SrcIP a = c_SrcIP b \<and> c_DstIP a = c_DstIP b \<and> c_SrcCIDR a = c_SrcCIDR b \<and>
     c_DstCIDR a = c_DstCIDR b \<and> c_SrcPort a = c_SrcPort b \<and> c_DstPort a = c_DstPort b \<and> c_Protocol a = c_Protocol b"

definition rules_apart :: "CRule \<Rightarrow> CRule \<Rightarrow> bool" where
  "rules_apart a b \<longleftrightarrow> cidrs_apart (c_SrcCIDR a) (c_SrcCIDR b) \<and> cidrs_apart (c_DstCIDR a) (c_DstCIDR b)"

definition rows_ok :: "CRule list \<Rightarrow> bool" where
  "rows_ok rows \<longleftrightarrow> distinct (map c_ID rows) \<and>
     (\<forall>r \<in> set rows. valid_rule r \<and> (\<forall>r' \<in> set rows. rules_apart r r' \<and> (same_tuple r r' \<longrightarrow> c_ID r = c_ID r')))"

lemma rows_okD:
  assumes "rows_ok rows"
  shows "distinct (map c_ID rows)" "r \<in> set rows \<Longrightarrow> valid_rule r"
    "r \<in> set rows \<Longrightarrow> r' \<in> set rows \<Longrightarrow> rules_apart r r'"
    "r \<in> set rows \<Longrightarrow> r' \<in> set rows \<Longrightarrow> same_tuple r r' \<Longrightarrow> c_ID r = c_ID r'"
  using assms by (auto simp: rows_ok_def)

lemma rules_apart_sym: "rules_apart a b \<Longrightarrow> rules_apart b a"
  by (simp add: rules_apart_def cidrs_apart_sym)

lemma rules_apart_refl [simp]: "rules_apart a a"
  by (simp add: rules_apart_def cidrs_apart_def)

lemma same_tuple_sym: "same_tuple a b \<Longrightarrow> same_tuple b a"
  by (simp add: same_tuple_def)

text \<open>A rule that may join a table: it matches by no existing tuple and its prefixes overlap none.\<close>

definition fresh_for :: "CRule \<Rightarrow> CRule list \<Rightarrow> bool" where
  "fresh_for r rows \<longleftrightarrow> (\<forall>r' \<in> set rows. rules_apart r r' \<and> \<not> same_tuple r r')"

lemma rows_ok_snoc:
  assumes "rows_ok rows" "valid_rule r" "fresh_for r rows" "\<forall>r' \<in> set rows. c_ID r' \<noteq> c_ID r"
  shows "rows_ok (rows @ [r])"
proof -
  have d: "distinct (map c_ID (rows @ [r]))" using rows_okD(1) [OF assms(1)] assms(4) by auto
  have "valid_rule a \<and> (\<forall>b \<in> set (rows @ [r]). rules_apart a b \<and> (same_tuple a b \<longrightarrow> c_ID a = c_ID b))"
    if a: "a \<in> set (rows @ [r])" for a
  proof (cases "a = r")
    case True
    with assms(2,3) show ?thesis by (auto simp: fresh_for_def)
  next
    case False
    with a have ar: "a \<in> set rows" by simp
    have "rules_apart a r" "\<not> same_tuple a r"
      using assms(3) ar rules_apart_sym same_tuple_sym unfolding fresh_for_def by blast+
    with rows_okD(2-4) [OF assms(1)] ar show ?thesis by auto
  qed
  with d show ?thesis unfolding rows_ok_def by blast
qed

lemma rows_ok_filter:
  assumes "rows_ok rows"
  shows "rows_ok (filter P rows)"
  using assms by (auto simp: rows_ok_def distinct_map_filter)

lemma same_key_cong:
  assumes "same_key a a'" "same_key b b'"
  shows "rules_apart a b = rules_apart a' b'" "same_tuple a b = same_tuple a' b'" "c_ID a = c_ID a'"
  using assms by (simp_all add: same_key_def rules_apart_def same_tuple_def)

lemma rows_ok_map:
  assumes "rows_ok rows" "\<forall>r \<in> set rows. same_key (f r) r \<and> valid_rule (f r)"
  shows "rows_ok (map f rows)"
proof -
  have i: "map c_ID (map f rows) = map c_ID rows" using assms(2) by (simp add: same_key_def)
  have "valid_rule (f r) \<and> rules_apart (f r) (f s) \<and> (same_tuple (f r) (f s) \<longrightarrow> c_ID (f r) = c_ID (f s))"
    if "r \<in> set rows" "s \<in> set rows" for r s
  proof -
    have k: "same_key (f r) r" "same_key (f s) s" "valid_rule (f r)" using assms(2) that by blast+
    show ?thesis
      using rows_okD(3,4) [OF assms(1) that] k(3) same_key_cong [OF k(1,2)] same_key_cong(3) [OF k(2,1)] by simp
  qed
  then show ?thesis using rows_okD(1) [OF assms(1)] unfolding rows_ok_def i by auto
qed

section \<open>The statements\<close>

lemma insert_row_ok:
  assumes "rows_ok rows" "valid_rule r" "fresh_for r rows" "insert_row ts r rows = Some rows'"
  shows "rows_ok rows'"
proof -
  let ?r = "r\<lparr>c_CreatedAt := ts, c_UpdatedAt := ts\<rparr>"
  have e: "rows' = rows @ [?r]" "\<forall>r' \<in> set rows. c_ID r' \<noteq> c_ID r"
    using assms(4) by (auto simp: insert_row_def split: if_splits)
  have "fresh_for ?r rows" using assms(3) by (simp add: fresh_for_def rules_apart_def same_tuple_def)
  then show ?thesis unfolding e(1) by (intro rows_ok_snoc) (use assms e(2) in auto)
qed

text \<open>The rules of a batch join one after the other.\<close>

fun fresh_chain :: "CRule list \<Rightarrow> CRule list \<Rightarrow> bool" where
  "fresh_chain [] rows = True"
| "fresh_chain (r # rs) rows = (valid_rule r \<and> fresh_for r rows \<and> fresh_chain rs (rows @ [r]))"

lemma fresh_chain_snoc:
  "fresh_chain (rs @ [r]) rows \<longleftrightarrow> fresh_chain rs rows \<and> valid_rule r \<and> fresh_for r (rows @ rs)"
  by (induction rs arbitrary: rows) auto

lemma fresh_for_timed:
  "fresh_for r (rows @ [s\<lparr>c_CreatedAt := ts, c_UpdatedAt := ts\<rparr>]) = fresh_for r (rows @ [s])"
  by (simp add: fresh_for_def rules_apart_def same_tuple_def)

lemma fresh_chain_cong:
  assumes "\<And>r. fresh_for r rows = fresh_for r rows'"
  shows "fresh_chain rs rows = fresh_chain rs rows'"
  using assms
proof (induction rs arbitrary: rows rows')
  case (Cons r rs)
  have "fresh_for s (rows @ [r]) = fresh_for s (rows' @ [r])" for s
    using Cons.prems [of s] by (simp add: fresh_for_def)
  with Cons show ?case by (metis fresh_chain.simps(2))
qed simp

lemma insert_rows_ok:
  "rows_ok rows \<Longrightarrow> fresh_chain rs rows \<Longrightarrow> insert_rows ts rs rows = Some rows' \<Longrightarrow> rows_ok rows'"
proof (induction rs arbitrary: rows)
  case (Cons r rs)
  from Cons.prems(3) obtain rows1 where i: "insert_row ts r rows = Some rows1" "insert_rows ts rs rows1 = Some rows'"
    by (auto split: option.splits)
  have ok: "rows_ok rows1" using insert_row_ok [OF Cons.prems(1) _ _ i(1)] Cons.prems(2) by simp
  have "rows1 = rows @ [r\<lparr>c_CreatedAt := ts, c_UpdatedAt := ts\<rparr>]"
    using i(1) by (auto simp: insert_row_def split: if_splits)
  then have "fresh_chain rs rows1 = fresh_chain rs (rows @ [r])"
    using fresh_chain_cong [OF fresh_for_timed] by simp
  with Cons.IH [OF ok _ i(2)] Cons.prems(2) show ?case by simp
qed simp

text \<open>The row is rewritten with a rule of the same key.\<close>

lemma update_row_ok:
  assumes "rows_ok rows" "rule \<in> set rows" "same_key new rule" "valid_rule new" "update_row ts new rows = Some rows'"
  shows "rows_ok rows'"
proof -
  let ?f = "\<lambda>r. if c_ID r = c_ID new then new\<lparr>c_CreatedAt := c_CreatedAt r, c_UpdatedAt := ts\<rparr> else r"
  have e: "rows' = map ?f rows" using assms(5) by (auto simp: update_row_def split: if_splits)
  have "same_key (?f r) r \<and> valid_rule (?f r)" if r: "r \<in> set rows" for r
  proof (cases "c_ID r = c_ID new")
    case True
    then have "r = rule" using assms(2,3) r rows_okD(1) [OF assms(1)] by (auto simp: same_key_def distinct_map inj_on_def)
    with assms(3,4) True show ?thesis by (simp add: same_key_def)
  next
    case False
    with rows_okD(2) [OF assms(1) r] show ?thesis by (simp add: same_key_def)
  qed
  then show ?thesis unfolding e by (intro rows_ok_map [OF assms(1)]) blast
qed

section \<open>Whitelist entries\<close>

definition valid_entry :: "CWhitelist \<Rightarrow> bool" where
  "valid_entry e \<longleftrightarrow> e_SrcPort e \<in> {0..65535} \<and> e_DstPort e \<in> {0..65535} \<and> canonical_ip (e_SrcIP e) \<and>
     canonical_ip (e_DstIP e) \<and> e_Protocol e \<in> set validProtocols \<and> e_Protocol e \<noteq> ''all'' \<and>
     validatePortProtocolCompat (e_Protocol e) (e_SrcPort e) (e_DstPort e) = None \<and>
     (e_SrcIP e \<noteq> [] \<or> e_DstIP e \<noteq> [] \<or> e_SrcPort e \<noteq> 0 \<or> e_DstPort e \<noteq> 0 \<or> e_Protocol e \<noteq> [])"

definition entries_ok :: "CWhitelist list \<Rightarrow> bool" where
  "entries_ok es \<longleftrightarrow> distinct (map e_ID es) \<and>
     (\<forall>e \<in> set es. valid_entry e \<and> (\<forall>e' \<in> set es. same_entry e e' \<longrightarrow> e_ID e = e_ID e'))"

definition store_ok :: "Store \<Rightarrow> bool" where
  "store_ok st \<longleftrightarrow> rows_ok (st_rules st) \<and> entries_ok (st_whitelist st)"

lemma entries_ok_filter: "entries_ok es \<Longrightarrow> entries_ok (filter P es)"
  by (auto simp: entries_ok_def distinct_map_filter)

lemma entries_ok_snoc:
  assumes "entries_ok es" "valid_entry e" "\<forall>x \<in> set es. \<not> same_entry e x \<and> e_ID x \<noteq> e_ID e"
  shows "entries_ok (es @ [e\<lparr>e_CreatedAt := ts\<rparr>])"
proof -
  have s: "same_entry (e\<lparr>e_CreatedAt := ts\<rparr>) x = same_entry e x" "same_entry x (e\<lparr>e_CreatedAt := ts\<rparr>) = same_entry e x" for x
    by (auto simp: same_entry_def)
  have v: "valid_entry (e\<lparr>e_CreatedAt := ts\<rparr>)" using assms(2) by (simp add: valid_entry_def)
  show ?thesis using assms(1,3) v s by (auto simp: entries_ok_def)
qed

end
