(* ===== verification/CtlSteps.thy ===== *)
theory CtlSteps
  imports CtlInv
begin

text \<open>
  The operations of the controller's services as steps on its store, and the proof that each keeps the
  store's invariant.
\<close>

section \<open>Queries\<close>

lemmas queries = repo_Get_def repo_GetByTuple_def repo_GetByCIDRTuple_def repo_Exists_def repo_CIDRExists_def
  repo_ListSrcCIDRs_def repo_ListDstCIDRs_def repo_ListExpired_def

definition same_tables :: "Store \<Rightarrow> Store \<Rightarrow> bool" where
  "same_tables st st' \<longleftrightarrow> st_rules st' = st_rules st \<and> st_whitelist st' = st_whitelist st"

lemma same_tables_refl [simp]: "same_tables st st"
  by (simp add: same_tables_def)

lemma same_tables_trans [trans]: "same_tables a b \<Longrightarrow> same_tables b c \<Longrightarrow> same_tables a c"
  by (simp add: same_tables_def)

lemma same_tablesD:
  assumes "same_tables st st'"
  shows "store_ok st \<Longrightarrow> store_ok st'" "st_rules st' = st_rules st"
  using assms by (simp_all add: same_tables_def store_ok_def)

lemma db_query_same: "db_query q st = (r, st') \<Longrightarrow> same_tables st st'"
  using db_query_cases(1,2) [of q st r st'] by (simp add: same_tables_def)

lemma db_query_value: "db_query q st = (Some x, st') \<Longrightarrow> x = q st"
  using db_query_cases(3) [of q st] by fastforce

lemma write_rules_ok:
  assumes "store_ok st" "db_write w st = (b, st')" "\<And>rows. w (st_rules st) = Some rows \<Longrightarrow> rows_ok rows"
  shows "store_ok st'"
  using db_write_cases [OF assms(2)] assms(1,3) by (auto simp: store_ok_def split: if_splits)

section \<open>Checks against the store\<close>

text \<open>The prefixes listed from a valid table are canonical.\<close>

lemma listed_normal:
  assumes "rows_ok rows" "e \<in> set (remdups (filter (\<lambda>c. c \<noteq> []) (map c_SrcCIDR rows))) \<or>
    e \<in> set (remdups (filter (\<lambda>c. c \<noteq> []) (map c_DstCIDR rows)))"
  shows "normal_cidr e"
proof -
  obtain r where r: "r \<in> set rows" "e = c_SrcCIDR r \<or> e = c_DstCIDR r" "e \<noteq> []" using assms(2) by auto
  with rows_okD(2) [OF assms(1)] have "valid_rule r" by blast
  then have "ctl_network e = Some e" using r(2) by (auto simp: valid_rule_def target_ok_def)
  with ctl_network_normal [OF r(3)] show ?thesis by simp
qed

lemma no_overlap_apart:
  assumes "c \<noteq> []" "ctl_network c = Some c" "\<forall>e \<in> set es. normal_cidr e" "findCIDROverlap c es = []" "e \<in> set es"
  shows "cidrs_apart c e"
proof -
  have "normal_cidr c" using assms(1,2) ctl_network_normal by simp
  from findCIDROverlap_cases [OF this assms(3)] have "\<forall>e \<in> set es. cidrs_apart c e"
  proof
    assume "findCIDROverlap c es \<in> set es \<and> \<not> cidrs_apart c (findCIDROverlap c es)"
    with assms(4) have "[] \<in> set es" by simp
    with assms(3) normal_cidr_nonempty show ?thesis by blast
  qed blast
  with assms(5) show ?thesis by blast
qed

text \<open>A passed overlap check: the prefixes of the request are apart from all stored ones.\<close>

lemma checkCIDROverlap_same: "checkCIDROverlap s d st = (e, st') \<Longrightarrow> same_tables st st'"
  by (auto simp: checkCIDROverlap_def Let_def repo_ListSrcCIDRs_def repo_ListDstCIDRs_def
      split: if_splits prod.splits option.splits dest!: db_query_same intro: same_tables_trans)

lemma overlap_check_same: "overlap_check req st = (e, st') \<Longrightarrow> same_tables st st'"
  by (auto simp: overlap_check_def split: if_splits dest: checkCIDROverlap_same)

lemma checkCIDROverlap_None:
  assumes "checkCIDROverlap s d st = (None, st')"
  shows "s \<noteq> [] \<Longrightarrow> findCIDROverlap s (remdups (filter (\<lambda>c. c \<noteq> []) (map c_SrcCIDR (st_rules st)))) = []"
    "d \<noteq> [] \<Longrightarrow> findCIDROverlap d (remdups (filter (\<lambda>c. c \<noteq> []) (map c_DstCIDR (st_rules st)))) = []"
proof -
  show "findCIDROverlap s (remdups (filter (\<lambda>c. c \<noteq> []) (map c_SrcCIDR (st_rules st)))) = []" if "s \<noteq> []"
    using assms that
    by (auto simp: checkCIDROverlap_def Let_def repo_ListSrcCIDRs_def split: if_splits prod.splits option.splits dest: db_query_value)
  obtain e st1 where 1: "(if s \<noteq> []
         then case repo_ListSrcCIDRs st of
                (None, st1) \<Rightarrow> (Some StoreFailed, st1)
              | (Some existing, st1) \<Rightarrow>
                  (let conflict = findCIDROverlap s existing
                   in (if conflict \<noteq> [] then Some (SrcOverlap s conflict) else None, st1))
         else (None, st)) = (e, st1)" by (meson surj_pair)
  have same: "same_tables st st1"
    using 1 by (auto simp: repo_ListSrcCIDRs_def Let_def split: if_splits prod.splits option.splits dest!: db_query_same)
  show "findCIDROverlap d (remdups (filter (\<lambda>c. c \<noteq> []) (map c_DstCIDR (st_rules st)))) = []" if "d \<noteq> []"
  proof -
    have "e = None" using assms unfolding checkCIDROverlap_def 1 by (auto split: if_splits)
    with assms that have "(case repo_ListDstCIDRs st1 of
                (None, st2) \<Rightarrow> (Some StoreFailed, st2)
              | (Some existing, st2) \<Rightarrow>
                  (let conflict = findCIDROverlap d existing
                   in (if conflict \<noteq> [] then Some (DstOverlap d conflict) else None, st2))) = (None, st')"
      unfolding checkCIDROverlap_def 1 by simp
    then show ?thesis
      using same by (auto simp: repo_ListDstCIDRs_def Let_def same_tables_def split: prod.splits option.splits if_splits dest: db_query_value)
  qed
qed

lemma overlap_check_apart:
  assumes "rows_ok (st_rules st)" "overlap_check req st = (None, st')" "request_ok req" "r' \<in> set (st_rules st)"
  shows "rules_apart (rule_of_request E n t req) r'"
proof -
  have nw: "ctl_network (q_SrcCIDR req) = Some (q_SrcCIDR req)" "ctl_network (q_DstCIDR req) = Some (q_DstCIDR req)"
    using assms(3) by (simp_all add: request_ok_def)
  have c: "checkCIDROverlap (q_SrcCIDR req) (q_DstCIDR req) st = (None, st')" if "q_SrcCIDR req \<noteq> [] \<or> q_DstCIDR req \<noteq> []"
    using assms(2) that by (simp add: overlap_check_def)
  have "cidrs_apart (q_SrcCIDR req) (c_SrcCIDR r')"
  proof (cases "q_SrcCIDR req = [] \<or> c_SrcCIDR r' = []")
    case False
    then have m: "c_SrcCIDR r' \<in> set (remdups (filter (\<lambda>c. c \<noteq> []) (map c_SrcCIDR (st_rules st))))" using assms(4) by auto
    show ?thesis
      by (rule no_overlap_apart [OF _ nw(1) _ checkCIDROverlap_None(1) [OF c] m]) (use False listed_normal [OF assms(1)] in auto)
  qed (auto simp: cidrs_apart_def)
  moreover have "cidrs_apart (q_DstCIDR req) (c_DstCIDR r')"
  proof (cases "q_DstCIDR req = [] \<or> c_DstCIDR r' = []")
    case False
    then have m: "c_DstCIDR r' \<in> set (remdups (filter (\<lambda>c. c \<noteq> []) (map c_DstCIDR (st_rules st))))" using assms(4) by auto
    show ?thesis
      by (rule no_overlap_apart [OF _ nw(2) _ checkCIDROverlap_None(2) [OF c] m]) (use False listed_normal [OF assms(1)] in auto)
  qed (auto simp: cidrs_apart_def)
  ultimately show ?thesis by (simp add: rules_apart_def)
qed

text \<open>No stored rule has the tuple of a request that was looked up in vain.\<close>

lemma lookup_None_fresh:
  assumes "lookup_tuple req st = (Some None, st')" "r' \<in> set (st_rules st)"
  shows "\<not> same_tuple (rule_of_request E n t req) r'"
proof (cases "q_SrcCIDR req \<noteq> [] \<or> q_DstCIDR req \<noteq> []")
  case True
  with assms(1) have "find (cidr_match (q_SrcCIDR req) (q_DstCIDR req) (q_SrcPort req) (q_DstPort req) (stored_protocol req))
      (st_rules st) = None"
    by (auto simp: lookup_tuple_def repo_GetByCIDRTuple_def dest: db_query_value)
  with assms(2) show ?thesis by (auto simp: find_None_iff cidr_match_def same_tuple_def)
next
  case False
  with assms(1) have "find (\<lambda>r. tuple_match (q_SrcIP req) (q_DstIP req) (q_SrcPort req) (q_DstPort req) (stored_protocol req) r \<and>
      c_SrcCIDR r = [] \<and> c_DstCIDR r = []) (st_rules st) = None"
    by (auto simp: lookup_tuple_def repo_GetByTuple_def dest: db_query_value)
  then have "\<not> (tuple_match (q_SrcIP req) (q_DstIP req) (q_SrcPort req) (q_DstPort req) (stored_protocol req) r' \<and>
      c_SrcCIDR r' = [] \<and> c_DstCIDR r' = [])"
    using assms(2) unfolding find_None_iff by blast
  with False show ?thesis by (auto simp: tuple_match_def same_tuple_def)
qed

text \<open>The rule that was found has the targets of the request.\<close>

lemma find_SomeD: "find P xs = Some x \<Longrightarrow> x \<in> set xs \<and> P x"
  by (induction xs) (auto split: if_splits)

lemma lookup_Some:
  assumes "lookup_tuple req st = (Some (Some e), st')" "rows_ok (st_rules st)" "request_ok req"
  shows "e \<in> set (st_rules st)" "c_SrcIP e = q_SrcIP req" "c_DstIP e = q_DstIP req" "c_SrcCIDR e = q_SrcCIDR req"
    "c_DstCIDR e = q_DstCIDR req"
proof -
  have "e \<in> set (st_rules st) \<and> c_SrcIP e = q_SrcIP req \<and> c_DstIP e = q_DstIP req \<and> c_SrcCIDR e = q_SrcCIDR req \<and>
    c_DstCIDR e = q_DstCIDR req"
  proof (cases "q_SrcCIDR req \<noteq> [] \<or> q_DstCIDR req \<noteq> []")
    case True
    with assms(1) have "find (cidr_match (q_SrcCIDR req) (q_DstCIDR req) (q_SrcPort req) (q_DstPort req) (stored_protocol req))
        (st_rules st) = Some e"
      by (auto simp: lookup_tuple_def repo_GetByCIDRTuple_def dest: db_query_value)
    from find_SomeD [OF this] have m: "e \<in> set (st_rules st)" "c_SrcCIDR e = q_SrcCIDR req" "c_DstCIDR e = q_DstCIDR req"
      by (auto simp: cidr_match_def)
    have "target_ok e" using rows_okD(2) [OF assms(2) m(1)] by (simp add: valid_rule_def)
    then have "c_SrcIP e = []" "c_DstIP e = []" using m True by (auto simp: target_ok_def)
    moreover have "q_SrcIP req = []" "q_DstIP req = []" using assms(3) True by (auto simp: request_ok_def)
    ultimately show ?thesis using m by simp
  next
    case False
    with assms(1) have "find (\<lambda>r. tuple_match (q_SrcIP req) (q_DstIP req) (q_SrcPort req) (q_DstPort req) (stored_protocol req) r \<and>
        c_SrcCIDR r = [] \<and> c_DstCIDR r = []) (st_rules st) = Some e"
      by (auto simp: lookup_tuple_def repo_GetByTuple_def dest: db_query_value)
    from find_SomeD [OF this] False show ?thesis by (auto simp: tuple_match_def)
  qed
  then show "e \<in> set (st_rules st)" "c_SrcIP e = q_SrcIP req" "c_DstIP e = q_DstIP req" "c_SrcCIDR e = q_SrcCIDR req"
    "c_DstCIDR e = q_DstCIDR req" by blast+
qed

lemma lookup_same: "lookup_tuple req st = (x, st') \<Longrightarrow> same_tables st st'"
  by (auto simp: lookup_tuple_def queries split: if_splits dest: db_query_same)

section \<open>Creating, updating, deleting\<close>

lemma tryAnomalyMerge_ok:
  assumes "store_ok st" "e \<in> set (st_rules st)" "request_ok req" "check_anomaly req = None" "c_SrcIP e = q_SrcIP req"
    "c_DstIP e = q_DstIP req" "c_SrcCIDR e = q_SrcCIDR req" "c_DstCIDR e = q_DstCIDR req"
    "tryAnomalyMerge E e req st = (r, st')"
  shows "store_ok st'"
proof -
  let ?m = "e\<lparr>c_MatchAnomaly := c_MatchAnomaly e OR q_MatchAnomaly req\<rparr>"
  consider "st' = st" | (upd) b where "q_MatchAnomaly req \<noteq> 0" "c_MatchAnomaly e \<noteq> 0" "c_Action e = q_Action req"
    "repo_Update (time_now E) (?m\<lparr>c_UpdatedAt := time_now E\<rparr>) st = (b, st')"
    using assms(9) by (auto simp: tryAnomalyMerge_def Let_def split: if_splits prod.splits bool.splits)
  then show ?thesis
  proof cases
    case 1
    with assms(1) show ?thesis by simp
  next
    case (upd b)
    have rows: "rows_ok (st_rules st)" using assms(1) by (simp add: store_ok_def)
    have v: "valid_rule (?m\<lparr>c_UpdatedAt := time_now E\<rparr>)"
      using merged_valid [OF rows_okD(2) [OF rows assms(2)] assms(4) upd(1-3) assms(5-8)] by simp
    have k: "same_key (?m\<lparr>c_UpdatedAt := time_now E\<rparr>) e" by (simp add: same_key_def)
    show ?thesis
      by (rule write_rules_ok [OF assms(1) upd(4) [unfolded repo_Update_def]]) (rule update_row_ok [OF rows assms(2) k v])
  qed
qed

lemma CreateRule_ok:
  assumes "store_ok st" "CreateRule E req0 st = (r, acts, st')"
  shows "store_ok st'"
proof (cases "check_fields req0")
  case (Inl e)
  with assms show ?thesis by (simp add: CreateRule_def)
next
  case (Inr req)
  note ok = check_fields_ok [OF Inr]
  note rows = assms(1) [unfolded store_ok_def, THEN conjunct1]
  obtain e1 st1 where o: "overlap_check req st = (e1, st1)" by force
  have s1: "same_tables st st1" using overlap_check_same [OF o] .
  then have ok1: "store_ok st1" and r1: "st_rules st1 = st_rules st"
    using same_tablesD [OF s1] assms(1) by blast+
  show ?thesis
  proof (cases "e1 = None \<and> check_anomaly req = None")
    case False
    then have "st' = st1" using assms(2) Inr o by (auto simp: CreateRule_def split: option.splits)
    with ok1 show ?thesis by simp
  next
    case True
    then have an: "check_anomaly req = None" and o': "overlap_check req st = (None, st1)" using o by auto
    obtain x st2 where l: "lookup_tuple req st1 = (x, st2)" by force
    have s2: "same_tables st1 st2" using lookup_same [OF l] .
    then have ok2: "store_ok st2" and r2: "st_rules st2 = st_rules st"
      using same_tablesD [OF s2] ok1 r1 by simp_all
    consider "x = None" | e where "x = Some (Some e)" | "x = Some None" by (cases x) auto
    then show ?thesis
    proof cases
      case 1
      then have "st' = st2" using assms(2) Inr o' an l by (simp add: CreateRule_def)
      with ok2 show ?thesis by simp
    next
      case (2 e)
      note f = lookup_Some [OF l [unfolded 2] _ ok]
      obtain m st3 where m: "tryAnomalyMerge E e req st2 = (m, st3)" by force
      have "st' = st3" using assms(2) Inr o' an l 2 m by (auto simp: CreateRule_def split: merge_result.splits)
      moreover have "store_ok st3"
        by (rule tryAnomalyMerge_ok [OF ok2 _ ok an _ _ _ _ m]) (use f rows r1 r2 in auto)
      ultimately show ?thesis by simp
    next
      case 3
      show ?thesis
      proof (cases "expiry E req")
        case (Inl e)
        then have "st' = st2" using assms(2) Inr o' an l 3 by (simp add: CreateRule_def)
        with ok2 show ?thesis by simp
      next
        case (Inr t)
        let ?r = "rule_of_request E 0 t req"
        obtain b st3 where c: "repo_Create (time_now E) ?r st2 = (b, st3)" by force
        have "st' = st3"
          using assms(2) \<open>check_fields req0 = Inr req\<close> o' an l 3 Inr c by (auto simp: CreateRule_def Let_def split: bool.splits)
        moreover have "fresh_for ?r (st_rules st2)"
          using overlap_check_apart [OF rows o' ok] lookup_None_fresh [OF l [unfolded 3]] r1 r2 by (auto simp: fresh_for_def)
        then have "store_ok st3"
          by (intro write_rules_ok [OF ok2 c [unfolded repo_Create_def]])
            (rule insert_row_ok [OF _ request_ok_valid_rule [OF ok an]], use rows r2 in auto)
        ultimately show ?thesis by simp
      qed
    qed
  qed
qed

lemma UpdateRule_ok:
  assumes "store_ok st" "UpdateRule E rid req0 st = (r, acts, st')"
  shows "store_ok st'"
proof -
  obtain x st1 where g: "repo_Get rid st = (x, st1)" by force
  have s1: "same_tables st st1" using g by (auto simp: repo_Get_def dest: db_query_same)
  then have ok1: "store_ok st1" and r1: "st_rules st1 = st_rules st"
    using same_tablesD [OF s1] assms(1) by blast+
  consider "st' = st1" | (upd) rule req new b where "x = Some (Some rule)" "update_checks req0 rule = Inr req"
    "merge_fields E req rule = Inr new" "repo_Update (time_now E) new st1 = (b, st')"
  proof (cases "\<exists>rule new. x = Some (Some rule) \<and> and_check (update_checks req0 rule) (\<lambda>req. merge_fields E req rule) = Inr new")
    case False
    then have "st' = st1" using assms(2) g by (auto simp: UpdateRule_def split: option.splits sum.splits)
    with that(1) show ?thesis .
  next
    case True
    then obtain rule new where n: "x = Some (Some rule)" "and_check (update_checks req0 rule) (\<lambda>req. merge_fields E req rule) = Inr new"
      by blast
    obtain b st2 where u: "repo_Update (time_now E) new st1 = (b, st2)" by force
    have "st' = st2" using assms(2) g n u by (auto simp: UpdateRule_def split: bool.splits)
    with n u that(2) show ?thesis unfolding and_check_Inr by blast
  qed
  then show ?thesis
  proof cases
    case 1
    with ok1 show ?thesis by simp
  next
    case (upd rule req new b)
    have "find (\<lambda>r. c_ID r = rid) (st_rules st) = Some rule"
      using g upd(1) by (auto simp: repo_Get_def dest: db_query_value)
    then have m: "rule \<in> set (st_rules st1)" using find_SomeD r1 by metis
    have rows: "rows_ok (st_rules st1)" using ok1 by (simp add: store_ok_def)
    have v: "valid_rule new" using update_valid [OF rows_okD(2) [OF rows m] upd(2,3)] .
    show ?thesis
      by (rule write_rules_ok [OF ok1 upd(4) [unfolded repo_Update_def]])
        (rule update_row_ok [OF rows m merge_fields_key [OF upd(3)] v])
  qed
qed

lemma filtered_ok:
  "store_ok st \<Longrightarrow> store_ok (st\<lparr>st_rules := filter P (st_rules st)\<rparr>)"
  by (simp add: store_ok_def rows_ok_filter)

lemma repo_Delete_ok:
  assumes "store_ok st" "repo_Delete rid st = (x, st')"
  shows "store_ok st'"
proof -
  obtain y st1 where q: "db_query (\<lambda>st. list_ex (\<lambda>r. c_ID r = rid) (st_rules st)) st = (y, st1)" by force
  have "store_ok st1" using same_tablesD(1) [OF db_query_same [OF q] assms(1)] .
  then show ?thesis using assms(2) q filtered_ok by (auto simp: repo_Delete_def split: option.splits)
qed

lemma DeleteRuleByID_ok:
  assumes "store_ok st" "DeleteRuleByID rid st = (x, acts, st')"
  shows "store_ok st'"
proof -
  obtain g st1 where g: "repo_Get rid st = (g, st1)" by force
  have ok1: "store_ok st1"
    using same_tablesD(1) [OF db_query_same [OF g [unfolded repo_Get_def]] assms(1)] .
  obtain y st2 where d: "repo_Delete rid st1 = (y, st2)" by force
  have "st' = st1 \<or> st' = st2"
    using assms(2) g d by (auto simp: DeleteRuleByID_def split: option.splits bool.splits)
  with ok1 repo_Delete_ok [OF ok1 d] show ?thesis by blast
qed

lemma BatchDeleteRules_ok:
  assumes "store_ok st" "BatchDeleteRules ids st = (x, e, acts, st')"
  shows "store_ok st'"
proof (cases "ids = []")
  case True
  with assms show ?thesis by (simp add: BatchDeleteRules_def)
next
  case False
  obtain b st1 where d: "db_write (\<lambda>rows. Some (filter (\<lambda>r. c_ID r \<notin> set ids) rows)) st = (b, st1)" by force
  have "st' = st1" using assms(2) False d by (auto simp: BatchDeleteRules_def repo_BatchDelete_def split: bool.splits)
  moreover have "store_ok st1"
    by (rule write_rules_ok [OF assms(1) d]) (use assms(1) rows_ok_filter in \<open>auto simp: store_ok_def\<close>)
  ultimately show ?thesis by simp
qed

lemma delete_each_ok: "store_ok st \<Longrightarrow> delete_each rs n st = (m, st') \<Longrightarrow> store_ok st'"
proof (induction rs arbitrary: n st)
  case (Cons r rs)
  obtain x st1 where d: "repo_Delete (c_ID r) st = (x, st1)" by force
  then obtain n1 where "delete_each rs n1 st1 = (m, st')" using Cons.prems(2) by (cases x) auto
  with Cons.IH repo_Delete_ok [OF Cons.prems(1) d] show ?case by blast
qed simp

lemma DeleteExpired_ok:
  assumes "store_ok st" "repo_DeleteExpired ts st = (x, st')"
  shows "store_ok st'"
proof -
  obtain y st1 where l: "repo_ListExpired ts st = (y, st1)" by force
  have ok1: "store_ok st1"
    using same_tablesD(1) [OF db_query_same [OF l [unfolded repo_ListExpired_def]] assms(1)] .
  show ?thesis
  proof (cases y)
    case None
    with ok1 assms(2) l show ?thesis by (simp add: repo_DeleteExpired_def)
  next
    case (Some expired)
    obtain n st2 where d: "delete_each expired 0 st1 = (n, st2)" by force
    with assms(2) l Some have "st' = st2" by (simp add: repo_DeleteExpired_def)
    with delete_each_ok [OF ok1 d] show ?thesis by simp
  qed
qed

end
