(* ===== verification/CtlBatch.thy ===== *)
theory CtlBatch
  imports CtlSteps
begin

text \<open>
  Batches of rules and the whitelist on the controller: they too keep the store consistent.
\<close>

section \<open>Batches\<close>

text \<open>The key of a rule, that of the request it was made from.\<close>

definition rule_key :: "CRule \<Rightarrow> string" where
  "rule_key r =
     (let ports = '':'' @ itoa (nat (c_SrcPort r)) @ '':'' @ itoa (nat (c_DstPort r)) @ '':'' @ c_Protocol r
      in if c_SrcCIDR r \<noteq> [] \<or> c_DstCIDR r \<noteq> [] then ''cidr:'' @ c_SrcCIDR r @ '':'' @ c_DstCIDR r @ ports
         else ''ip:'' @ c_SrcIP r @ '':'' @ c_DstIP r @ ports)"

lemma rule_key_of_request: "rule_key (rule_of_request E n t req) = batch_key req"
  by (simp add: rule_key_def batch_key_def Let_def)

lemma same_tuple_key: "same_tuple a b \<Longrightarrow> rule_key a = rule_key b"
  by (simp add: same_tuple_def rule_key_def Let_def)

text \<open>The loop's variables describe the rules accepted so far, which may join the table one after the other.\<close>

definition batch_inv :: "CRule list \<Rightarrow> batch_state \<Rightarrow> bool" where
  "batch_inv rows b \<longleftrightarrow> fresh_chain (bs_rules b) rows \<and> set (bs_seen b) = rule_key ` set (bs_rules b) \<and>
     set (bs_src b) = c_SrcCIDR ` set (bs_rules b) - {[]} \<and>
     set (bs_dst b) = c_DstCIDR ` set (bs_rules b) - {[]}"

lemma batch_inv_fail [simp]: "batch_inv rows (batch_fail b) = batch_inv rows b"
  by (simp add: batch_inv_def batch_fail_def)

lemma fresh_chain_valid: "fresh_chain rs rows \<Longrightarrow> r \<in> set rs \<Longrightarrow> valid_rule r"
  by (induction rs arbitrary: rows) auto

lemma batch_exists_same: "batch_exists req st = (x, st') \<Longrightarrow> same_tables st st'"
  by (auto simp: batch_exists_def queries split: if_splits dest: db_query_same)

lemma batch_exists_fresh:
  assumes "batch_exists req st = (Some False, st')" "r' \<in> set (st_rules st)"
  shows "\<not> same_tuple (rule_of_request E n t req) r'"
proof (cases "q_SrcCIDR req \<noteq> [] \<or> q_DstCIDR req \<noteq> []")
  case True
  with assms(1) have "\<not> list_ex (cidr_match (q_SrcCIDR req) (q_DstCIDR req) (q_SrcPort req) (q_DstPort req) (stored_protocol req))
      (st_rules st)"
    by (auto simp: batch_exists_def repo_CIDRExists_def dest: db_query_value)
  with assms(2) show ?thesis by (auto simp: list_ex_iff cidr_match_def same_tuple_def)
next
  case False
  with assms(1) have "\<not> list_ex (tuple_match (q_SrcIP req) (q_DstIP req) (q_SrcPort req) (q_DstPort req) (stored_protocol req))
      (st_rules st)"
    by (auto simp: batch_exists_def repo_Exists_def dest: db_query_value)
  with assms(2) show ?thesis by (auto simp: list_ex_iff tuple_match_def same_tuple_def)
qed

text \<open>The rule of a request that passed every check of the loop.\<close>

lemma pending_apart:
  assumes "batch_inv rows b" "\<not> pending_overlap req b" "request_ok req" "r' \<in> set (bs_rules b)"
  shows "rules_apart (rule_of_request E n t req) r'"
proof -
  have nw: "ctl_network (q_SrcCIDR req) = Some (q_SrcCIDR req)" "ctl_network (q_DstCIDR req) = Some (q_DstCIDR req)"
    using assms(3) by (simp_all add: request_ok_def)
  have v: "valid_rule r" if "r \<in> set (bs_rules b)" for r
    by (rule fresh_chain_valid [OF assms(1) [unfolded batch_inv_def, THEN conjunct1] that])
  have nn: "normal_cidr e" if m: "e \<in> set (bs_src b) \<or> e \<in> set (bs_dst b)" for e
  proof -
    obtain r where r: "r \<in> set (bs_rules b)" "e = c_SrcCIDR r \<or> e = c_DstCIDR r" "e \<noteq> []"
      using m assms(1) by (auto simp: batch_inv_def)
    have "ctl_network e = Some e" using v [OF r(1)] r(2) by (auto simp: valid_rule_def target_ok_def)
    with ctl_network_normal [OF r(3)] show ?thesis by simp
  qed
  have "cidrs_apart (q_SrcCIDR req) (c_SrcCIDR r')"
  proof (cases "q_SrcCIDR req = [] \<or> c_SrcCIDR r' = []")
    case False
    then have m: "c_SrcCIDR r' \<in> set (bs_src b)" using assms(1,4) by (simp add: batch_inv_def)
    show ?thesis
      by (rule no_overlap_apart [OF _ nw(1) _ _ m]) (use False assms(2) nn in \<open>auto simp: pending_overlap_def\<close>)
  qed (auto simp: cidrs_apart_def)
  moreover have "cidrs_apart (q_DstCIDR req) (c_DstCIDR r')"
  proof (cases "q_DstCIDR req = [] \<or> c_DstCIDR r' = []")
    case False
    then have m: "c_DstCIDR r' \<in> set (bs_dst b)" using assms(1,4) by (simp add: batch_inv_def)
    show ?thesis
      by (rule no_overlap_apart [OF _ nw(2) _ _ m]) (use False assms(2) nn in \<open>auto simp: pending_overlap_def\<close>)
  qed (auto simp: cidrs_apart_def)
  ultimately show ?thesis by (simp add: rules_apart_def)
qed

lemma batch_item_ok:
  assumes "rows_ok (st_rules st)" "batch_inv (st_rules st) b" "batch_item E n req0 b st = (b', st')"
  shows "same_tables st st'" "batch_inv (st_rules st) b'"
    "int (length (bs_rules b')) + bs_failed b' = int (length (bs_rules b)) + bs_failed b + 1"
proof -
  have "same_tables st st' \<and> batch_inv (st_rules st) b' \<and>
    int (length (bs_rules b')) + bs_failed b' = int (length (bs_rules b)) + bs_failed b + 1"
  proof (cases "b' = batch_fail b \<and> same_tables st st'")
    case True
    then have "bs_rules b' = bs_rules b" "bs_failed b' = bs_failed b + 1" by (simp_all add: batch_fail_def)
    with True assms(2) show ?thesis by simp
  next
    case nf: False
    show ?thesis
    proof (cases "check_fields req0")
      case (Inl e)
      with nf assms(3) show ?thesis by (simp add: batch_item_def)
    next
      case (Inr req)
      note ok = check_fields_ok [OF Inr]
      obtain e st1 where o: "overlap_check req st = (e, st1)" by force
      have s1: "same_tables st st1" using overlap_check_same [OF o] .
      obtain x st2 where x: "batch_exists req st1 = (x, st2)" by force
      have s2: "same_tables st st2" using same_tables_trans [OF s1 batch_exists_same [OF x]] .
      have c: "e = None" "\<not> pending_overlap req b" "check_anomaly req = None" "x = Some False"
        "batch_key req \<notin> set (bs_seen b)" "b' = batch_accept E n req b" "st' = st2"
        using assms(3) nf Inr o x s1 s2 by (auto simp: batch_item_def split: option.splits if_splits bool.splits)
      let ?t = "case expiry E req of Inl _ \<Rightarrow> None | Inr t \<Rightarrow> t"
      let ?r = "rule_of_request E n ?t req"
      have rules: "bs_rules b' = bs_rules b @ [?r]" "bs_failed b' = bs_failed b" unfolding c(6) by (simp_all add: batch_accept_def)
      have v: "valid_rule ?r" using request_ok_valid_rule [OF ok c(3)] .
      have f: "fresh_for ?r (st_rules st @ bs_rules b)"
        unfolding fresh_for_def
      proof
        fix r' assume "r' \<in> set (st_rules st @ bs_rules b)"
        then consider "r' \<in> set (st_rules st)" | "r' \<in> set (bs_rules b)" by auto
        then show "rules_apart ?r r' \<and> \<not> same_tuple ?r r'"
        proof cases
          case 1
          have "r' \<in> set (st_rules st1)" using 1 same_tablesD(2) [OF s1] by simp
          with overlap_check_apart [OF assms(1) o [unfolded c(1)] ok 1] batch_exists_fresh [OF x [unfolded c(4)]]
          show ?thesis by blast
        next
          case 2
          have "rule_key r' \<in> set (bs_seen b)" using assms(2) 2 by (simp add: batch_inv_def)
          then have "\<not> same_tuple ?r r'" using c(5) same_tuple_key rule_key_of_request by metis
          with pending_apart [OF assms(2) c(2) ok 2] show ?thesis by blast
        qed
      qed
      have i: "batch_inv (st_rules st) b'"
      proof -
        have "fresh_chain (bs_rules b') (st_rules st)" using assms(2) v f unfolding rules fresh_chain_snoc batch_inv_def by blast
        moreover have "set (bs_seen b') = rule_key ` set (bs_rules b')"
          using assms(2) unfolding rules c(6) by (simp add: batch_accept_def batch_inv_def rule_key_of_request)
        moreover have "set (bs_src b') = c_SrcCIDR ` set (bs_rules b') - {[]}"
          using assms(2) unfolding rules c(6) by (auto simp: batch_accept_def batch_inv_def)
        moreover have "set (bs_dst b') = c_DstCIDR ` set (bs_rules b') - {[]}"
          using assms(2) unfolding rules c(6) by (auto simp: batch_accept_def batch_inv_def)
        ultimately show ?thesis unfolding batch_inv_def by blast
      qed
      show ?thesis using s2 c(7) i rules by simp
    qed
  qed
  then show "same_tables st st'" "batch_inv (st_rules st) b'"
    "int (length (bs_rules b')) + bs_failed b' = int (length (bs_rules b)) + bs_failed b + 1" by blast+
qed

lemma batch_items_ok:
  "rows_ok (st_rules st) \<Longrightarrow> batch_inv (st_rules st) b \<Longrightarrow> batch_items E n reqs b st = (b', st') \<Longrightarrow>
   same_tables st st' \<and> batch_inv (st_rules st) b' \<and>
   int (length (bs_rules b')) + bs_failed b' = int (length (bs_rules b)) + bs_failed b + int (length reqs)"
proof (induction reqs arbitrary: n b st)
  case (Cons req reqs)
  obtain b1 st1 where i: "batch_item E n req b st = (b1, st1)" by force
  note k = batch_item_ok [OF Cons.prems(1,2) i]
  have r: "st_rules st1 = st_rules st" using same_tablesD(2) [OF k(1)] .
  have "batch_items E (n + 1) reqs b1 st1 = (b', st')" using Cons.prems(3) i by simp
  from Cons.IH [OF _ _ this] have "same_tables st1 st' \<and> batch_inv (st_rules st1) b' \<and>
      int (length (bs_rules b')) + bs_failed b' = int (length (bs_rules b1)) + bs_failed b1 + int (length reqs)"
    using Cons.prems(1) k(2) unfolding r by blast
  with k(1,3) r show ?case using same_tables_trans by auto
qed simp

lemma BatchCreateRules_cases:
  assumes "store_ok st" "BatchCreateRules E reqs st = ((rs, added, failed), err, acts, st')"
  shows "store_ok st'" "added + failed = int (length reqs)" "added = int (length rs)"
    "\<forall>r \<in> set rs. valid_rule r"
proof -
  obtain b st1 where i: "batch_items E 0 reqs empty_batch st = (b, st1)" by force
  have rows: "rows_ok (st_rules st)" using assms(1) by (simp add: store_ok_def)
  have e: "batch_inv (st_rules st) empty_batch" by (simp add: batch_inv_def empty_batch_def)
  note k = batch_items_ok [OF rows e i]
  have n: "int (length (bs_rules b)) + bs_failed b = int (length reqs)" using k by (simp add: empty_batch_def)
  have ok1: "store_ok st1" and r1: "st_rules st1 = st_rules st" using same_tablesD [of st st1] k assms(1) by blast+
  have ch: "fresh_chain (bs_rules b) (st_rules st)" using k unfolding batch_inv_def by blast
  have v: "\<forall>r \<in> set (bs_rules b). valid_rule r" using fresh_chain_valid [OF ch] by blast
  have "store_ok st' \<and> (rs = bs_rules b \<and> added = int (length (bs_rules b)) \<and> failed = bs_failed b \<or>
      rs = [] \<and> added = 0 \<and> failed = int (length reqs))"
  proof (cases "bs_rules b = []")
    case True
    with assms(2) i ok1 show ?thesis by (simp add: BatchCreateRules_def)
  next
    case False
    obtain ok st2 where c: "repo_BatchCreate (time_now E) (bs_rules b) st1 = (ok, st2)" by force
    have ok2: "store_ok st2"
      by (rule write_rules_ok [OF ok1 c [unfolded repo_BatchCreate_def]])
        (rule insert_rows_ok [OF rows ch], use r1 in simp)
    have "st' = st2 \<and> (rs = bs_rules b \<and> added = int (length (bs_rules b)) \<and> failed = bs_failed b \<or>
      rs = [] \<and> added = 0 \<and> failed = int (length reqs))"
      using assms(2) i False c by (auto simp: BatchCreateRules_def Let_def split: bool.splits)
    with ok2 show ?thesis by blast
  qed
  with n v show "store_ok st'" "added + failed = int (length reqs)" "added = int (length rs)"
    "\<forall>r \<in> set rs. valid_rule r" by auto
qed

section \<open>The whitelist\<close>

lemma validateWhitelistIPFields_Inr:
  assumes "validateWhitelistIPFields req = Inr req'"
  shows "\<exists>s d. req' = req\<lparr>wq_SrcIP := s, wq_DstIP := d\<rparr> \<and> canonical_ip s \<and> canonical_ip d"
  using assms by (auto simp: validateWhitelistIPFields_def split: sum.splits dest: normalized_ip_canonical)

lemma repo_CreateWhitelist_ok:
  assumes "store_ok st" "valid_entry e" "repo_CreateWhitelist ts e st = (r, st')"
  shows "store_ok st'"
proof -
  obtain x st1 where q1: "db_query (\<lambda>st. list_ex (same_entry e) (st_whitelist st)) st = (x, st1)" by force
  obtain y st2 where q2: "db_query (\<lambda>st. list_ex (\<lambda>a. e_ID a = e_ID e) (st_whitelist st)) st1 = (y, st2)" by force
  have s1: "same_tables st st1" using db_query_same [OF q1] .
  have s2: "same_tables st st2" using same_tables_trans [OF s1 db_query_same [OF q2]] .
  show ?thesis
  proof (cases "x = Some False \<and> y = Some False")
    case False
    then have "st' = st1 \<or> st' = st2"
      using assms(3) q1 q2 by (auto simp: repo_CreateWhitelist_def split: option.splits bool.splits)
    with same_tablesD(1) [OF s1 assms(1)] same_tablesD(1) [OF s2 assms(1)] show ?thesis by blast
  next
    case True
    then have st': "st' = st2\<lparr>st_whitelist := st_whitelist st2 @ [e\<lparr>e_CreatedAt := ts\<rparr>]\<rparr>"
      using assms(3) q1 q2 by (simp add: repo_CreateWhitelist_def)
    have n: "\<not> list_ex (same_entry e) (st_whitelist st)" "\<not> list_ex (\<lambda>a. e_ID a = e_ID e) (st_whitelist st1)"
      using db_query_value [OF q1 [unfolded conjunct1 [OF True]]] db_query_value [OF q2 [unfolded conjunct2 [OF True]]]
      by simp_all
    have w: "st_whitelist st1 = st_whitelist st" "st_whitelist st2 = st_whitelist st" "st_rules st2 = st_rules st"
      using s1 s2 by (simp_all add: same_tables_def)
    have "\<forall>a \<in> set (st_whitelist st). \<not> same_entry e a \<and> e_ID a \<noteq> e_ID e" using n w by (auto simp: list_ex_iff)
    with entries_ok_snoc [of "st_whitelist st" e] assms(1,2) show ?thesis unfolding st' by (simp add: store_ok_def w)
  qed
qed

lemma CreateWhitelist_cases:
  assumes "store_ok st" "CreateWhitelist E req0 st = (r, acts, st')"
  shows "store_ok st'" "r = Inr e \<Longrightarrow> valid_entry e"
proof -
  have "store_ok st' \<and> (\<forall>e. r = Inr e \<longrightarrow> valid_entry e)"
  proof (cases "validateWhitelistIPFields req0")
    case (Inl e)
    with assms show ?thesis by (auto simp: CreateWhitelist_def)
  next
    case (Inr req)
    obtain s d where ip: "req = req0\<lparr>wq_SrcIP := s, wq_DstIP := d\<rparr>" "canonical_ip s" "canonical_ip d"
      using validateWhitelistIPFields_Inr [OF Inr] by blast
    let ?c = "stop_if (validateWhitelistScalarBounds req) (stop_if (validateProtocol (wq_Protocol req))
             (stop_if (validatePortProtocolCompat (wq_Protocol req) (wq_SrcPort req) (wq_DstPort req))
             (stop_if (validateWhitelistCombo req) (Inr ()))))"
    show ?thesis
    proof (cases ?c)
      case (Inl e)
      with Inr assms show ?thesis by (auto simp: CreateWhitelist_def)
    next
      case c: (Inr u)
      then have k: "validateWhitelistScalarBounds req = None" "validateProtocol (wq_Protocol req) = None"
        "validatePortProtocolCompat (wq_Protocol req) (wq_SrcPort req) (wq_DstPort req) = None" "validateWhitelistCombo req = None"
        unfolding stop_if_Inr by blast+
      let ?e = "\<lparr>e_ID = ''wl_'' @ new_id E 0, e_Name = wq_Name req, e_SrcIP = wq_SrcIP req, e_DstIP = wq_DstIP req,
                 e_SrcPort = wq_SrcPort req, e_DstPort = wq_DstPort req,
                 e_Protocol = normalizeWhitelistProtocol (wq_Protocol req), e_Comment = wq_Comment req,
                 e_CreatedAt = time_now E\<rparr>"
      have b: "wq_SrcPort req \<in> {0..65535}" "wq_DstPort req \<in> {0..65535}"
        using k(1) by (auto simp: validateWhitelistScalarBounds_def split: if_splits)
      have p: "normalizeWhitelistProtocol (wq_Protocol req) \<in> set validProtocols" "normalizeWhitelistProtocol (wq_Protocol req) \<noteq> ''all''"
        using k(2) by (auto simp: normalizeWhitelistProtocol_def validateProtocol_def validProtocols_def split: if_splits)
      have pc: "validatePortProtocolCompat (normalizeWhitelistProtocol (wq_Protocol req)) (wq_SrcPort req) (wq_DstPort req) = None"
        using k(3) by (auto simp: normalizeWhitelistProtocol_def validatePortProtocolCompat_def portlessProtocols_def split: if_splits)
      have any: "wq_SrcIP req \<noteq> [] \<or> wq_DstIP req \<noteq> [] \<or> wq_SrcPort req \<noteq> 0 \<or> wq_DstPort req \<noteq> 0 \<or>
          normalizeWhitelistProtocol (wq_Protocol req) \<noteq> []"
        using k(4) by (auto simp: validateWhitelistCombo_def Let_def split: if_splits)
      have v: "valid_entry ?e" using b p pc any ip by (simp add: valid_entry_def)
      obtain x st1 where cr: "repo_CreateWhitelist (time_now E) ?e st = (x, st1)" by force
      have "st' = st1 \<and> (r = Inr ?e \<or> (\<exists>y. r = Inl y))"
        using assms(2) Inr c cr by (auto simp: CreateWhitelist_def Let_def split: option.splits)
      with repo_CreateWhitelist_ok [OF assms(1) v cr] v show ?thesis by auto
    qed
  qed
  then show "store_ok st'" "r = Inr e \<Longrightarrow> valid_entry e" by blast+
qed

lemma DeleteWhitelistEntry_ok:
  assumes "store_ok st" "DeleteWhitelistEntry wid st = (x, acts, st')"
  shows "store_ok st'"
proof -
  obtain u st1 where q: "db_query (\<lambda>_. ()) st = (u, st1)" by force
  have s: "same_tables st st1" using db_query_same [OF q] .
  then have w: "st_whitelist st1 = st_whitelist st" "st_rules st1 = st_rules st" by (simp_all add: same_tables_def)
  have "st' = st1 \<or> st' = st1\<lparr>st_whitelist := filter (\<lambda>e. e_ID e \<noteq> wid) (st_whitelist st1)\<rparr>"
    using assms(2) q by (auto simp: DeleteWhitelistEntry_def repo_DeleteWhitelist_def split: option.splits)
  with assms(1) w entries_ok_filter show ?thesis by (auto simp: store_ok_def)
qed

end
