(* ===== verification/CtlNode.thy ===== *)
theory CtlNode
  imports CtlBatch SyncFacts
begin

text \<open>
  The controller against the node: the checks of the two are different programs, and a full sync of a node
  fails as a whole when the node refuses one rule. A rule of the controller's store is accepted by the node
  exactly when it constrains something; the ones that do not are let in by the controller.
\<close>

section \<open>Numbers\<close>

lemma small_word:
  assumes "0 \<le> n" "n < 2 ^ LENGTH('a::len)"
  shows "uint (of_int n :: 'a word) = n" "(of_int n :: 'a word) = 0 \<longleftrightarrow> n = 0"
proof -
  show u: "uint (of_int n :: 'a word) = n" using assms by (simp add: uint_word_of_int)
  show "(of_int n :: 'a word) = 0 \<longleftrightarrow> n = 0" using u by (auto simp: word_uint_eq_iff)
qed

lemma small_u16:
  assumes "n \<in> {0..65535}" "m \<in> {0..65535}"
  shows "(of_int n :: u16) = 0 \<longleftrightarrow> n = 0" "(of_int n :: u16) > 0 \<longleftrightarrow> n > 0" "(of_int n :: u16) > of_int m \<longleftrightarrow> n > m"
  using small_word [of n, where 'a = 16] small_word [of m, where 'a = 16] assms
  by (auto simp: word_less_def)

lemma small_u8:
  assumes "an \<in> {0..3 :: int}"
  shows "(of_int an :: u8) = 0 \<longleftrightarrow> an = 0" "(of_int an :: u8) AND NOT (1 OR 2) = 0" "(of_int an :: u8) AND 1 \<noteq> 0 \<longleftrightarrow> odd an"
proof -
  have "an \<in> {0, 1, 2, 3}" using assms by auto
  then show "(of_int an :: u8) = 0 \<longleftrightarrow> an = 0" "(of_int an :: u8) AND NOT (1 OR 2) = 0" "(of_int an :: u8) AND 1 \<noteq> 0 \<longleftrightarrow> odd an"
    by auto
qed

section \<open>Addresses\<close>

lemma canonical_ip_parse:
  assumes "canonical_ip s" "s \<noteq> []"
  obtains b where "length b = 16" "net_ParseIP s = Some b" "s = ip_String b"
proof -
  obtain b where b: "net_ParseIP s = Some b"
    using assms by (auto simp: canonical_ip_def validateAndNormalizeIPField_def split: option.splits)
  have c: "s = ip_String (canon_ip b)"
    using assms b by (auto simp: canonical_ip_def validateAndNormalizeIPField_def canon_ip_def split: option.splits)
  have l: "length b = 16" using ParseIP_length [OF b] .
  have "ip_String (canon_ip b) = ip_String b" by (auto simp: ip_String_def canon_ip_def ip_To4_def)
  with b c that [OF l] show ?thesis by simp
qed

text \<open>An address that a node does not read as a wildcard.\<close>

definition address_set :: "string \<Rightarrow> bool" where
  "address_set s \<longleftrightarrow> s \<noteq> [] \<and> s \<noteq> ''0.0.0.0'' \<and> s \<noteq> ''::''"

lemma ip_String_zero: "ip_String zero_IPAddr = ''::''"
proof -
  have z: "zero_IPAddr = [0, 0, 0, 0, 0, 0, 0, 0, 0, 0, 0, 0, 0, 0, 0, 0]" by (simp add: zero_IPAddr_def numeral_eq_Suc)
  have g: "u16_groups zero_IPAddr = [0, 0, 0, 0, 0, 0, 0, 0]" by (simp add: z)
  have r: "zero_run [0, 0, 0, 0, 0, 0, 0, 0] 0 (255, 255) = (0, 8)" by code_simp
  have e: "v6_emit [0, 0, 0, 0, 0, 0, 0, 0] 0 (0, 8) 0 = ''::''" by code_simp
  have v: "v6_string zero_IPAddr = ''::''" by (simp only: v6_string_def g r e Let_def)
  have "ip_To4 zero_IPAddr = None" by (simp add: ip_To4_def z v4_in_v6_prefix_def)
  with v show ?thesis by (simp add: ip_String_def z)
qed

lemma ip_field_canonical:
  assumes "canonical_ip s"
  obtains a where "ip_field s = Some a" "a = zero_IPAddr \<longleftrightarrow> \<not> address_set s"
proof (cases "address_set s")
  case False
  then have "ip_field s = Some zero_IPAddr" unfolding ip_field_def address_set_def by (simp only: if_False simp_thms)
  with False that show ?thesis by blast
next
  case True
  then have "s \<noteq> []" by (simp add: address_set_def)
  with assms obtain b where b: "length b = 16" "net_ParseIP s = Some b" "s = ip_String b" by (elim canonical_ip_parse)
  have "ip_field s = Some b" using True b ipToIPAddr_16 by (simp add: ip_field_def address_set_def)
  moreover have "b \<noteq> zero_IPAddr" using True b(3) ip_String_zero by (auto simp: address_set_def)
  ultimately show ?thesis using True that by blast
qed

section \<open>Anomaly masks\<close>

lemma bounded_ip_eq: "bounded_ip s = ctl_boundedExact s"
proof -
  have "ip_IsUnspecified mapped_zero" "ip_IsUnspecified zero_IPAddr"
    by (simp_all add: ip_IsUnspecified_def mapped_zero_def ip_To4_def zero_IPAddr_def v4_in_v6_prefix_def)
  then show ?thesis by (auto simp: bounded_ip_def ctl_boundedExact_def ParseIP_0000 ParseIP_unspecified)
qed

lemma bounded_cidr_eq: "bounded_cidr s = ctl_boundedCIDR s" "v6_cidr s = ctl_isIPv6CIDR s"
  by (simp_all add: bounded_cidr_def ctl_boundedCIDR_def v6_cidr_def ctl_isIPv6CIDR_def)

lemma v6_ip_imp: "v6_ip s \<Longrightarrow> isIPv6String s"
  by (auto simp: v6_ip_def isIPv6String_def split: option.splits)

lemma node_anomaly_ok:
  assumes "validateAnomalyEffective an ac sip dip sc dc = None"
  shows "validateNodeAnomalyFields (of_int an) ac sip dip sc dc = None"
proof -
  have r: "an \<in> {0..3}" using anomaly_in_range [OF assms] .
  show ?thesis
    using assms v6_ip_imp
    unfolding validateNodeAnomalyFields_def validateAnomalyEffective_None small_u8 [OF r] Let_def
    by (auto simp: hasBoundedAnomalyTarget_def bounded_ip_eq bounded_cidr_eq)
qed

section \<open>Acceptance\<close>

text \<open>The fields the node will look at: a wildcard address and the protocol \<^verbatim>\<open>all\<close> constrain nothing.\<close>

definition effective_rule :: "CRule \<Rightarrow> bool" where
  "effective_rule r \<longleftrightarrow> c_SrcCIDR r \<noteq> [] \<or> c_DstCIDR r \<noteq> [] \<or> address_set (c_SrcIP r) \<or> address_set (c_DstIP r) \<or>
     c_SrcPort r \<noteq> 0 \<or> c_DstPort r \<noteq> 0 \<or> c_Protocol r \<noteq> ''all''"

definition node_protocol :: "CRule \<Rightarrow> string" where
  "node_protocol r = (if c_Protocol r = ''all'' then [] else c_Protocol r)"

lemma node_rule_simps [simp]:
  "r_SrcIP (node_rule r) = c_SrcIP r" "r_DstIP (node_rule r) = c_DstIP r" "r_SrcCIDR (node_rule r) = c_SrcCIDR r"
  "r_DstCIDR (node_rule r) = c_DstCIDR r" "r_SrcPort (node_rule r) = of_int (c_SrcPort r)"
  "r_DstPort (node_rule r) = of_int (c_DstPort r)" "r_Protocol (node_rule r) = node_protocol r"
  "r_Action (node_rule r) = c_Action r" "r_RateLimit (node_rule r) = of_int (c_RateLimit r)"
  "r_PktLenMin (node_rule r) = of_int (c_PktLenMin r)" "r_PktLenMax (node_rule r) = of_int (c_PktLenMax r)"
  "r_TcpFlags (node_rule r) = c_TcpFlags r" "r_MatchAnomaly (node_rule r) = of_int (c_MatchAnomaly r)"
  "r_ID (node_rule r) = c_ID r"
  by (simp_all add: node_rule_def node_protocol_def)

lemma valid_ports:
  assumes "valid_rule r"
  shows "(of_int (c_SrcPort r) :: u16) = 0 \<longleftrightarrow> c_SrcPort r = 0" "(of_int (c_DstPort r) :: u16) = 0 \<longleftrightarrow> c_DstPort r = 0"
  using assms small_u16(1) unfolding valid_rule_def rule_fits_def by blast+

lemma node_protocol_cases:
  assumes "valid_rule r"
  shows "parseProtocol (node_protocol r) = 0 \<longleftrightarrow> c_Protocol r = ''all''"
    "parseProtocol (node_protocol r) = ProtoTCP \<longleftrightarrow> c_Protocol r = ''tcp''"
    "validatePortProtocolCompatNode (node_protocol r) (of_int (c_SrcPort r)) (of_int (c_DstPort r)) = None"
proof -
  have p: "c_Protocol r \<in> set validProtocols" "c_Protocol r \<noteq> []"
    "validatePortProtocolCompat (c_Protocol r) (c_SrcPort r) (c_DstPort r) = None"
    using assms by (simp_all add: valid_rule_def protocol_ok_def)
  show "parseProtocol (node_protocol r) = 0 \<longleftrightarrow> c_Protocol r = ''all''"
    "parseProtocol (node_protocol r) = ProtoTCP \<longleftrightarrow> c_Protocol r = ''tcp''"
    using p(1,2) by (auto simp: validProtocols_def node_protocol_def parseProtocol_def parseProtocolStrict_def)
  show "validatePortProtocolCompatNode (node_protocol r) (of_int (c_SrcPort r)) (of_int (c_DstPort r)) = None"
    using p valid_ports [OF assms]
    by (auto simp: validProtocols_def node_protocol_def validatePortProtocolCompatNode_def validatePortProtocolCompat_def
        portlessProtocols_def portlessProtocolsNode_def strings_ToLower_def lower_char_def split: if_splits)
qed

lemma node_flags:
  assumes "valid_rule r"
  obtains m v where "parseTcpFlags (c_TcpFlags r) = Inr (m, v)" "m \<noteq> 0 \<Longrightarrow> parseProtocol (node_protocol r) = ProtoTCP"
proof -
  have "flags_ok (c_Protocol r) (c_TcpFlags r)" using assms by (simp add: valid_rule_def)
  then consider "c_TcpFlags r = []" | m v where "c_Protocol r = ''tcp''" "c_TcpFlags r = tcpFlagsToString m v"
    by (auto simp: flags_ok_def)
  then show ?thesis
  proof cases
    case 1
    then have "parseTcpFlags (c_TcpFlags r) = Inr (0, 0)" by (simp add: parseTcpFlags_def strings_TrimSpace_def)
    with that [of 0 0] show ?thesis by simp
  next
    case (2 m v)
    with that [of m "m AND v"] parseTcpFlags_printed node_protocol_cases(2) [OF assms] show ?thesis by simp
  qed
qed

lemma node_action:
  assumes "valid_rule r"
  shows "sync_action (node_rule r) \<noteq> None"
proof -
  have "rule_fits r" "action_ok (c_Action r) (c_RateLimit r)" using assms by (simp_all add: valid_rule_def)
  moreover have "(of_int n :: u32) \<noteq> 0" if "0 < n" "n \<le> 4294967295" for n
    using small_word(2) [of n, where 'a = 32] that by simp
  ultimately show ?thesis by (auto simp: sync_action_def parseAction_def action_ok_def rule_fits_def)
qed

lemma node_validateRule:
  assumes "valid_rule r" "c_SrcCIDR r = []" "c_DstCIDR r = []"
  shows "validateRule (c_SrcIP r) (c_DstIP r) (node_protocol r) (of_int (c_SrcPort r)) (of_int (c_DstPort r))
    (of_int (c_PktLenMin r)) (of_int (c_PktLenMax r)) = None"
proof -
  have v: "rule_fits r" "lengths_ok r" "c_Protocol r \<noteq> []" using assms(1) by (simp_all add: valid_rule_def protocol_ok_def)
  have l: "c_PktLenMin r \<in> {0..65535}" "c_PktLenMax r \<in> {0..65535}" using v(1) by (simp_all add: rule_fits_def)
  have t: "has_target r \<longleftrightarrow> c_SrcIP r \<noteq> [] \<or> c_DstIP r \<noteq> [] \<or> c_SrcPort r \<noteq> 0 \<or> c_DstPort r \<noteq> 0 \<or>
      (node_protocol r \<noteq> [] \<and> node_protocol r \<noteq> ''all'')"
    using assms(2,3) v(3) by (auto simp: has_target_def node_protocol_def)
  note s = small_u16(2) [OF l] small_u16(2) [OF l(2,1)] small_u16(3) [OF l]
  have "\<not> ((c_PktLenMin r > 0 \<or> c_PktLenMax r > 0) \<and> \<not> has_target r)"
    "\<not> (c_PktLenMin r > 0 \<and> c_PktLenMax r > 0 \<and> c_PktLenMin r > c_PktLenMax r)"
    using v(2) by (auto simp: lengths_ok_def)
  then show ?thesis
    using node_protocol_cases(3) [OF assms(1)]
    unfolding validateRule_def Let_def s valid_ports [OF assms(1)] t by (simp only: if_False)
qed

lemma node_key:
  assumes "valid_rule r" "c_SrcCIDR r = []" "c_DstCIDR r = []"
  obtains key where "ruleToKey (node_rule r) = Inr key" "validateComboType (getComboType key) \<longleftrightarrow> effective_rule r"
proof -
  have c: "canonical_ip (c_SrcIP r)" "canonical_ip (c_DstIP r)" using assms(1) by (simp_all add: valid_rule_def target_ok_def)
  obtain a where a: "ip_field (c_SrcIP r) = Some a" "a = zero_IPAddr \<longleftrightarrow> \<not> address_set (c_SrcIP r)"
    using ip_field_canonical [OF c(1)] by blast
  obtain b where b: "ip_field (c_DstIP r) = Some b" "b = zero_IPAddr \<longleftrightarrow> \<not> address_set (c_DstIP r)"
    using ip_field_canonical [OF c(2)] by blast
  let ?k = "zero_RuleKey\<lparr>rk_SrcIP := a, rk_DstIP := b, rk_SrcPort := htons (of_int (c_SrcPort r)),
    rk_DstPort := htons (of_int (c_DstPort r)), rk_Protocol := parseProtocol (node_protocol r)\<rparr>"
  have k: "ruleToKey (node_rule r) = Inr ?k" by (simp add: ruleToKey_def a(1) b(1))
  have z: "isZeroIP a \<longleftrightarrow> \<not> address_set (c_SrcIP r)" "isZeroIP b \<longleftrightarrow> \<not> address_set (c_DstIP r)"
    using isZero_iff ip_field_length a b unfolding isZeroIP_def by blast+
  have "validateComboType (getComboType ?k) \<longleftrightarrow> effective_rule r"
    unfolding validate_getComboType
    by (auto simp: key_fields_def z valid_ports [OF assms(1)] node_protocol_cases(1) [OF assms(1)] effective_rule_def assms(2,3))
  with that k show ?thesis by blast
qed

text \<open>The rule a node receives from the store passes its checks exactly when it constrains something.\<close>

lemma node_exact_checks:
  assumes "valid_rule r" "c_SrcCIDR r = []" "c_DstCIDR r = []"
  shows "sync_exact_checks (node_rule r) \<noteq> None \<longleftrightarrow> effective_rule r"
proof -
  obtain key where k: "ruleToKey (node_rule r) = Inr key" "validateComboType (getComboType key) \<longleftrightarrow> effective_rule r"
    using node_key [OF assms] by blast
  obtain m v where f: "parseTcpFlags (c_TcpFlags r) = Inr (m, v)" "m \<noteq> 0 \<Longrightarrow> parseProtocol (node_protocol r) = ProtoTCP"
    using node_flags [OF assms(1)] by blast
  have a: "validateNodeAnomalyFields (of_int (c_MatchAnomaly r)) (c_Action r) (c_SrcIP r) (c_DstIP r) (c_SrcCIDR r)
      (c_DstCIDR r) = None"
    by (rule node_anomaly_ok) (use assms(1) in \<open>simp add: valid_rule_def anomaly_ok_def\<close>)
  show ?thesis
    unfolding sync_exact_checks_def node_rule_simps node_validateRule [OF assms] a k(1) f(1) option.case sum.case prod.case
    using k(2) f(2) by auto
qed

lemma normalize_if_canonical: "ctl_network c = Some c \<Longrightarrow> normalize_if c = Inr c"
  using ctl_network_normal [of c] by (auto simp: normalize_if_def normal_cidr_def)

lemma node_cidr_checks:
  assumes "valid_rule r"
  shows "\<exists>m v. sync_cidr_checks (node_rule r) = Some (c_SrcCIDR r, c_DstCIDR r, m, v)"
proof -
  obtain m v where f: "parseTcpFlags (c_TcpFlags r) = Inr (m, v)" "m \<noteq> 0 \<Longrightarrow> parseProtocol (node_protocol r) = ProtoTCP"
    using node_flags [OF assms] by blast
  have a: "validateNodeAnomalyFields (of_int (c_MatchAnomaly r)) (c_Action r) (c_SrcIP r) (c_DstIP r) (c_SrcCIDR r)
      (c_DstCIDR r) = None"
    by (rule node_anomaly_ok) (use assms in \<open>simp add: valid_rule_def anomaly_ok_def\<close>)
  have n: "normalize_if (c_SrcCIDR r) = Inr (c_SrcCIDR r)" "normalize_if (c_DstCIDR r) = Inr (c_DstCIDR r)"
    using assms normalize_if_canonical by (auto simp: valid_rule_def target_ok_def)
  show ?thesis
    unfolding sync_cidr_checks_def node_rule_simps n f(1) a node_protocol_cases(3) [OF assms] option.case sum.case prod.case
    using f(2) by auto
qed

section \<open>One refused rule fails the sync\<close>

lemma sync_rule_refused:
  assumes "sync_exact_checks r = None" "r_SrcCIDR r = []" "r_DstCIDR r = []"
  shows "\<exists>h'. sync_rule K fresh r h b = (h', count_failed b)"
  using assms by (cases "sync_action r") (simp_all add: sync_rule_def sync_exact_def)

lemma sync_rules_refused:
  "r \<in> set rs \<Longrightarrow> sync_exact_checks r = None \<Longrightarrow> r_SrcCIDR r = [] \<Longrightarrow> r_DstCIDR r = [] \<Longrightarrow>
   sync_rules K fresh n rs h b = (h', b') \<Longrightarrow> sb_failed b < sb_failed b'"
proof (induction rs arbitrary: n h b)
  case (Cons q rs)
  obtain h1 b1 where s: "sync_rule K (fresh n) q h b = (h1, b1)" by force
  have d: "sync_rules K fresh (n + 1) rs h1 b1 = (h', b')" using Cons.prems(5) s by simp
  have m: "sb_failed b \<le> sb_failed b1" "sb_failed b1 \<le> sb_failed b'"
    using sync_rule_failed_mono [OF s] sync_rules_failed_mono [OF d] .
  show ?case
  proof (cases "q = r")
    case True
    with sync_rule_refused [OF Cons.prems(2-4), of K "fresh n" h b] s have "b1 = count_failed b" by auto
    with m show ?thesis by (simp add: count_failed_def)
  next
    case False
    with Cons.IH [OF _ Cons.prems(2-4) d] Cons.prems(1) m show ?thesis by simp
  qed
qed simp

lemma DoAtomicSync_refused:
  assumes "r \<in> set rs" "sync_exact_checks r = None" "r_SrcCIDR r = []" "r_DstCIDR r = []"
  shows "\<exists>n. snd (fst (DoAtomicSync K fresh rs h)) = Some (SyncRulesFailed n)"
proof -
  obtain h1 b where s: "sync_rules K fresh 0 rs (clear_shadows K h) empty_build = (h1, b)" by force
  have "0 < sb_failed b" using sync_rules_refused [OF assms s] by (simp add: empty_build_def)
  then show ?thesis by (simp add: DoAtomicSync_def s)
qed

section \<open>Keys of different rules\<close>

text \<open>An address written as a wildcard is stored as it is, but stands for no address on the node.\<close>

definition plain_ip :: "string \<Rightarrow> bool" where
  "plain_ip s \<longleftrightarrow> s \<noteq> ''0.0.0.0'' \<and> s \<noteq> ''::''"

lemma ip_field_inj:
  assumes "canonical_ip s" "canonical_ip t" "plain_ip s" "plain_ip t" "ip_field s = ip_field t"
  shows "s = t"
proof -
  obtain a where a: "ip_field s = Some a" "a = zero_IPAddr \<longleftrightarrow> \<not> address_set s" using ip_field_canonical [OF assms(1)] by blast
  obtain c where c: "ip_field t = Some c" "c = zero_IPAddr \<longleftrightarrow> \<not> address_set t" using ip_field_canonical [OF assms(2)] by blast
  have eq: "address_set s \<longleftrightarrow> address_set t" using a c assms(5) by simp
  show ?thesis
  proof (cases "address_set s")
    case False
    with eq assms(3,4) show ?thesis by (auto simp: address_set_def plain_ip_def)
  next
    case True
    have st: "s \<noteq> []" "t \<noteq> []" using True eq by (simp_all add: address_set_def)
    obtain x where x: "length x = 16" "net_ParseIP s = Some x" "s = ip_String x" using canonical_ip_parse [OF assms(1) st(1)] by blast
    obtain y where y: "length y = 16" "net_ParseIP t = Some y" "t = ip_String y" using canonical_ip_parse [OF assms(2) st(2)] by blast
    have "ip_field s = Some x" "ip_field t = Some y"
      using True eq x(1,2) y(1,2) ipToIPAddr_16 by (simp_all add: ip_field_def address_set_def)
    with assms(5) x(3) y(3) show ?thesis by simp
  qed
qed

lemma htons_inj: "htons a = htons b \<Longrightarrow> a = b"
  by (metis htons_htons)

lemma small_u16_inj:
  assumes "n \<in> {0..65535}" "m \<in> {0..65535}" "(of_int n :: u16) = of_int m"
  shows "n = m"
proof -
  have "uint (of_int n :: u16) = n" "uint (of_int m :: u16) = m"
    using small_word(1) [of n, where 'a = 16] small_word(1) [of m, where 'a = 16] assms(1,2) by simp_all
  then show ?thesis using assms(3) by metis
qed

lemma node_protocol_inj:
  assumes "valid_rule r" "valid_rule q" "parseProtocol (node_protocol r) = parseProtocol (node_protocol q)"
  shows "c_Protocol r = c_Protocol q"
proof -
  have "c_Protocol r \<in> set validProtocols" "c_Protocol r \<noteq> []" "c_Protocol q \<in> set validProtocols" "c_Protocol q \<noteq> []"
    using assms(1,2) by (simp_all add: valid_rule_def protocol_ok_def)
  with assms(3) show ?thesis
    by (auto simp: validProtocols_def node_protocol_def parseProtocol_def parseProtocolStrict_def)
qed

definition plain_rule :: "CRule \<Rightarrow> bool" where
  "plain_rule r \<longleftrightarrow> plain_ip (c_SrcIP r) \<and> plain_ip (c_DstIP r)"

lemma node_key_inj:
  assumes "valid_rule r" "valid_rule q" "plain_rule r" "plain_rule q" "c_SrcCIDR r = []" "c_DstCIDR r = []"
    "c_SrcCIDR q = []" "c_DstCIDR q = []" "ruleToKey (node_rule r) = Inr k" "ruleToKey (node_rule q) = Inr k"
  shows "same_tuple r q"
proof -
  have c: "canonical_ip (c_SrcIP r)" "canonical_ip (c_DstIP r)" "canonical_ip (c_SrcIP q)" "canonical_ip (c_DstIP q)"
    using assms(1,2) by (simp_all add: valid_rule_def target_ok_def)
  have p: "c_SrcPort r \<in> {0..65535}" "c_DstPort r \<in> {0..65535}" "c_SrcPort q \<in> {0..65535}" "c_DstPort q \<in> {0..65535}"
    using assms(1,2) by (simp_all add: valid_rule_def rule_fits_def)
  have r: "ip_field (c_SrcIP r) = Some (rk_SrcIP k)" "ip_field (c_DstIP r) = Some (rk_DstIP k)"
    "htons (of_int (c_SrcPort r)) = rk_SrcPort k" "htons (of_int (c_DstPort r)) = rk_DstPort k"
    "parseProtocol (node_protocol r) = rk_Protocol k"
    using assms(9) by (auto simp: ruleToKey_def split: option.splits)
  have q: "ip_field (c_SrcIP q) = Some (rk_SrcIP k)" "ip_field (c_DstIP q) = Some (rk_DstIP k)"
    "htons (of_int (c_SrcPort q)) = rk_SrcPort k" "htons (of_int (c_DstPort q)) = rk_DstPort k"
    "parseProtocol (node_protocol q) = rk_Protocol k"
    using assms(10) by (auto simp: ruleToKey_def split: option.splits)
  have "c_SrcIP r = c_SrcIP q" "c_DstIP r = c_DstIP q"
    using ip_field_inj [OF c(1,3)] ip_field_inj [OF c(2,4)] assms(3,4) r q by (simp_all add: plain_rule_def)
  moreover have "c_SrcPort r = c_SrcPort q" "c_DstPort r = c_DstPort q"
    using small_u16_inj [OF p(1,3)] small_u16_inj [OF p(2,4)] htons_inj r(3,4) q(3,4) by metis+
  moreover have "c_Protocol r = c_Protocol q" using node_protocol_inj [OF assms(1,2)] r(5) q(5) by simp
  ultimately show ?thesis using assms(5-8) by (simp add: same_tuple_def)
qed

end
