(* ===== verification/CtlDeliver.thy ===== *)
theory CtlDeliver
  imports CtlNode AgentProps
begin

text \<open>
  From the controller's store to the maps of a node: what it takes for a full sync to go through. On a
  reliable kernel, rules of a consistent store that constrain something and write no address as a wildcard
  are all accepted, none in the way of another, so the sync succeeds.
\<close>

section \<open>Identifiers of prefixes\<close>

text \<open>A trie whose puts succeed.\<close>

definition trie_accepts :: "'t TrieWriter \<Rightarrow> bool" where
  "trie_accepts tw \<longleftrightarrow> (\<forall>t k i. fst (trie_Put tw t k i))"

lemma writeTrie_accepts:
  assumes "trie_accepts tw" "normal_cidr c"
  shows "\<exists>t'. writeTrie tw t c i (isIPv6CIDR c) = (None, t')"
proof -
  obtain key where k: "trie_key_of c = Some key" using trie_key_of_Some [OF assms(2)] by blast
  have p: "\<exists>t'. trie_Put tw t x i = (True, t')" for x
    using assms(1) unfolding trie_accepts_def by (metis (full_types) prod.collapse)
  obtain t' where t': "trie_Put tw t key i = (True, t')" using p by blast
  show ?thesis
    using k t' by (auto simp: trie_key_of_def writeTrie_def split: if_splits sum.splits)
qed

lemma Alloc_accepts:
  assumes "trie_accepts tw" "normal_cidr c"
  shows "\<exists>i m'. AllocSrcID tw m c = (Inr i, m') \<and> GetDstID m' = GetDstID m"
    "\<exists>i m'. AllocDstID tw m c = (Inr i, m') \<and> GetSrcID m' = GetSrcID m"
proof -
  obtain cs rs t where g: "getSrcMaps m (isIPv6CIDR c) = (cs, rs, t)" by (rule prod_cases3)
  obtain t' where w: "writeTrie tw t c (nextID m) (isIPv6CIDR c) = (None, t')" using writeTrie_accepts [OF assms] by blast
  show "\<exists>i m'. AllocSrcID tw m c = (Inr i, m') \<and> GetDstID m' = GetDstID m"
    by (cases "map_of cs c")
      (simp_all add: AllocSrcID_def Let_def g w putSrcMaps_def GetDstID_def fun_eq_iff)
  obtain cs rs t where g: "getDstMaps m (isIPv6CIDR c) = (cs, rs, t)" by (rule prod_cases3)
  obtain t' where w: "writeTrie tw t c (nextID m) (isIPv6CIDR c) = (None, t')" using writeTrie_accepts [OF assms] by blast
  show "\<exists>i m'. AllocDstID tw m c = (Inr i, m') \<and> GetSrcID m' = GetSrcID m"
    by (cases "map_of cs c")
      (simp_all add: AllocDstID_def Let_def g w putDstMaps_def GetSrcID_def fun_eq_iff)
qed

text \<open>IDs, once given, stay.\<close>

definition ids_grow :: "'t Manager \<Rightarrow> 't Manager \<Rightarrow> bool" where
  "ids_grow m m' \<longleftrightarrow> (\<forall>c i. (GetSrcID m c = Some i \<longrightarrow> GetSrcID m' c = Some i) \<and> (GetDstID m c = Some i \<longrightarrow> GetDstID m' c = Some i))"

lemma ids_grow_trans: "ids_grow a b \<Longrightarrow> ids_grow b c \<Longrightarrow> ids_grow a c"
  by (simp add: ids_grow_def)

lemma id_of_grow:
  assumes "ids_grow m m'"
  shows "id_of (GetSrcID m) c i \<Longrightarrow> id_of (GetSrcID m') c i" "id_of (GetDstID m) c i \<Longrightarrow> id_of (GetDstID m') c i"
  using assms by (auto simp: id_of_def ids_grow_def split: if_splits)

lemma alloc_src_step:
  assumes T: "trie_accepts tw" and c: "c = [] \<or> normal_cidr c" and v: "mgr_inv m" and rm: "room (Suc n) m"
  shows "\<exists>i m'. (if c \<noteq> [] then AllocSrcID tw m c else (Inr 0, m)) = (Inr i, m') \<and> ids_grow m m' \<and>
    id_of (GetSrcID m') c i \<and> mgr_inv m' \<and> room n m'"
proof (cases "c = []")
  case True
  with v room_mono [OF rm, of n] show ?thesis by (auto simp: ids_grow_def id_of_def)
next
  case False
  with c obtain i m' where a: "AllocSrcID tw m c = (Inr i, m')" "GetDstID m' = GetDstID m" using Alloc_accepts(1) [OF T] by blast
  have g: "GetSrcID m' = (GetSrcID m)(c \<mapsto> i)" "i = (case GetSrcID m c of Some j \<Rightarrow> j | None \<Rightarrow> nextID m)"
    using src_ids.alloc_ok [OF a(1)] by blast+
  have "mgr_inv m'" using src_ids.inv_alloc [OF v room_next [OF rm], of tw c] a(1) by simp
  moreover have "ids_grow m m'" using g a(2) by (auto simp: ids_grow_def split: option.splits)
  moreover have "room n m'" using room_Alloc(1) [OF rm a(1)] .
  ultimately show ?thesis using a(1) g(1) False by (auto simp: id_of_def)
qed

lemma alloc_dst_step:
  assumes T: "trie_accepts tw" and c: "c = [] \<or> normal_cidr c" and v: "mgr_inv m" and rm: "room (Suc n) m"
  shows "\<exists>i m'. (if c \<noteq> [] then AllocDstID tw m c else (Inr 0, m)) = (Inr i, m') \<and> ids_grow m m' \<and>
    id_of (GetDstID m') c i \<and> mgr_inv m' \<and> room n m'"
proof (cases "c = []")
  case True
  with v room_mono [OF rm, of n] show ?thesis by (auto simp: ids_grow_def id_of_def)
next
  case False
  with c obtain i m' where a: "AllocDstID tw m c = (Inr i, m')" "GetSrcID m' = GetSrcID m" using Alloc_accepts(2) [OF T] by blast
  have g: "GetDstID m' = (GetDstID m)(c \<mapsto> i)" "i = (case GetDstID m c of Some j \<Rightarrow> j | None \<Rightarrow> nextID m)"
    using dst_ids.alloc_ok [OF a(1)] by blast+
  have "mgr_inv m'" using dst_ids.inv_alloc [OF v room_next [OF rm], of tw c] a(1) by simp
  moreover have "ids_grow m m'" using g a(2) by (auto simp: ids_grow_def split: option.splits)
  moreover have "room n m'" using room_Alloc(2) [OF rm a(1)] .
  ultimately show ?thesis using a(1) g(1) False by (auto simp: id_of_def)
qed

lemma alloc_ids_step:
  assumes T: "trie_accepts tw" and c: "a = [] \<or> normal_cidr a" "b = [] \<or> normal_cidr b" and v: "mgr_inv m"
    and rm: "room (Suc (Suc n)) m"
  obtains i j m' where "alloc_ids tw a b m = (Inr (i, j), m')" "ids_grow m m'" "id_of (GetSrcID m') a i"
    "id_of (GetDstID m') b j" "mgr_inv m'" "room n m'"
proof -
  obtain i m1 where 1: "(if a \<noteq> [] then AllocSrcID tw m a else (Inr 0, m)) = (Inr i, m1)" "ids_grow m m1"
    "id_of (GetSrcID m1) a i" "mgr_inv m1" "room (Suc n) m1"
    using alloc_src_step [OF T c(1) v rm] by blast
  obtain j m' where 2: "(if b \<noteq> [] then AllocDstID tw m1 b else (Inr 0, m1)) = (Inr j, m')" "ids_grow m1 m'"
    "id_of (GetDstID m') b j" "mgr_inv m'" "room n m'"
    using alloc_dst_step [OF T c(2) 1(4,5)] by blast
  have "alloc_ids tw a b m = (Inr (i, j), m')" unfolding alloc_ids_def 1(1) by (simp add: 2(1))
  with that ids_grow_trans [OF 1(2) 2(2)] id_of_grow(1) [OF 2(2) 1(3)] 2(3-5) show ?thesis by blast
qed

lemma id_of_inj:
  assumes "mgr_inv m"
  shows "id_of (GetSrcID m) c i \<Longrightarrow> id_of (GetSrcID m) d i \<Longrightarrow> c = d"
    "id_of (GetDstID m) c i \<Longrightarrow> id_of (GetDstID m) d i \<Longrightarrow> c = d"
    "id_of (GetSrcID m) c i \<Longrightarrow> c \<noteq> [] \<Longrightarrow> i \<noteq> 0" "id_of (GetDstID m) c i \<Longrightarrow> c \<noteq> [] \<Longrightarrow> i \<noteq> 0"
proof -
  have s: "GetSrcID m c = Some i \<Longrightarrow> i \<noteq> 0" "GetDstID m c = Some i \<Longrightarrow> i \<noteq> 0" for c i
    using src_ids.inv_ids [OF assms, of c i] dst_ids.inv_ids [OF assms, of c i] by auto
  show "id_of (GetSrcID m) c i \<Longrightarrow> id_of (GetSrcID m) d i \<Longrightarrow> c = d"
    using s src_ids.inv_inj [OF assms, of c i d] by (auto simp: id_of_def split: if_splits)
  show "id_of (GetDstID m) c i \<Longrightarrow> id_of (GetDstID m) d i \<Longrightarrow> c = d"
    using s dst_ids.inv_inj [OF assms, of c i d] by (auto simp: id_of_def split: if_splits)
  show "id_of (GetSrcID m) c i \<Longrightarrow> c \<noteq> [] \<Longrightarrow> i \<noteq> 0" "id_of (GetDstID m) c i \<Longrightarrow> c \<noteq> [] \<Longrightarrow> i \<noteq> 0"
    using s by (auto simp: id_of_def)
qed

section \<open>The build loop\<close>

text \<open>The keys of the rules written so far.\<close>

definition exact_key_of :: "CRule \<Rightarrow> bytes \<Rightarrow> bool" where
  "exact_key_of r kb \<longleftrightarrow> c_SrcCIDR r = [] \<and> c_DstCIDR r = [] \<and> (\<exists>k. ruleToKey (node_rule r) = Inr k \<and> kb = ruleKeyToBytes k)"

definition node_cidr_key :: "u32 \<Rightarrow> u32 \<Rightarrow> CRule \<Rightarrow> CIDRRuleKey" where
  "node_cidr_key i j r = build_cidr_key i j (of_int (c_SrcPort r)) (of_int (c_DstPort r)) (node_protocol r)"

definition cidr_key_of :: "'t Manager \<Rightarrow> CRule \<Rightarrow> bytes \<Rightarrow> bool" where
  "cidr_key_of m r kb \<longleftrightarrow> (c_SrcCIDR r \<noteq> [] \<or> c_DstCIDR r \<noteq> []) \<and>
     (\<exists>i j. id_of (GetSrcID m) (c_SrcCIDR r) i \<and> id_of (GetDstID m) (c_DstCIDR r) j \<and>
        kb = cidrRuleKeyToBytes (node_cidr_key i j r))"

definition delivering ::
  "('m \<Rightarrow> bytes \<Rightarrow> bytes option) \<Rightarrow> CRule list \<Rightarrow> ('m, 'c, 't) Handlers \<Rightarrow> shadow_build \<Rightarrow> bool" where
  "delivering get written h b \<longleftrightarrow> sb_failed b = 0 \<and> sb_added b = int (length written) \<and> mgr_inv (cidrMgr h) \<and>
     (\<forall>kb. get (shadowBlacklist h) kb \<noteq> None \<longrightarrow> (\<exists>r \<in> set written. exact_key_of r kb)) \<and>
     (\<forall>kb. get (shadowCidrBlacklist h) kb \<noteq> None \<longrightarrow> (\<exists>r \<in> set written. cidr_key_of (cidrMgr h) r kb))"

text \<open>What a full sync needs of a rule.\<close>

definition deliverable :: "CRule \<Rightarrow> bool" where
  "deliverable r \<longleftrightarrow> valid_rule r \<and> effective_rule r \<and> plain_rule r"

lemma exact_key_inj:
  assumes "deliverable r" "deliverable q" "exact_key_of r kb" "exact_key_of q kb"
  shows "same_tuple r q"
proof -
  obtain k where k: "ruleToKey (node_rule r) = Inr k" "kb = ruleKeyToBytes k" using assms(3) by (auto simp: exact_key_of_def)
  obtain l where l: "ruleToKey (node_rule q) = Inr l" "kb = ruleKeyToBytes l" using assms(4) by (auto simp: exact_key_of_def)
  have "k = l" using rule_key.enc_eq_iff [OF ruleToKey_wf [OF k(1)] ruleToKey_wf [OF l(1)]] k(2) l(2) by simp
  with node_key_inj [of r q k] assms k(1) l(1) show ?thesis by (simp add: deliverable_def exact_key_of_def)
qed

lemma cidr_key_inj:
  assumes v: "deliverable r" "deliverable q" and m: "mgr_inv m" and k: "cidr_key_of m r kb" "cidr_key_of m q kb"
  shows "same_tuple r q"
proof -
  obtain i j where r: "c_SrcCIDR r \<noteq> [] \<or> c_DstCIDR r \<noteq> []" "id_of (GetSrcID m) (c_SrcCIDR r) i"
    "id_of (GetDstID m) (c_DstCIDR r) j" "kb = cidrRuleKeyToBytes (node_cidr_key i j r)"
    using k(1) by (auto simp: cidr_key_of_def)
  obtain x y where q: "c_SrcCIDR q \<noteq> [] \<or> c_DstCIDR q \<noteq> []" "id_of (GetSrcID m) (c_SrcCIDR q) x"
    "id_of (GetDstID m) (c_DstCIDR q) y" "kb = cidrRuleKeyToBytes (node_cidr_key x y q)"
    using k(2) by (auto simp: cidr_key_of_def)
  have w: "wf_CIDRRuleKey (node_cidr_key a b s)" for a b s by (simp add: node_cidr_key_def build_cidr_key_def wf_CIDRRuleKey_def)
  have "node_cidr_key i j r = node_cidr_key x y q" using cidr_key.enc_eq_iff [OF w w] r(4) q(4) by simp
  then have e: "i = x" "j = y" "htons (of_int (c_SrcPort r)) = htons (of_int (c_SrcPort q))"
    "htons (of_int (c_DstPort r)) = htons (of_int (c_DstPort q))" "parseProtocol (node_protocol r) = parseProtocol (node_protocol q)"
    by (simp_all add: node_cidr_key_def build_cidr_key_def)
  have vr: "valid_rule r" "valid_rule q" using v by (simp_all add: deliverable_def)
  have p: "c_SrcPort r \<in> {0..65535}" "c_DstPort r \<in> {0..65535}" "c_SrcPort q \<in> {0..65535}" "c_DstPort q \<in> {0..65535}"
    using vr by (simp_all add: valid_rule_def rule_fits_def)
  have "c_SrcCIDR r = c_SrcCIDR q" "c_DstCIDR r = c_DstCIDR q"
    using id_of_inj(1,2) [OF m] r(2,3) q(2,3) e(1,2) by blast+
  moreover have "c_SrcIP r = []" "c_DstIP r = []" "c_SrcIP q = []" "c_DstIP q = []"
    using vr r(1) q(1) by (simp_all add: valid_rule_def target_ok_def)
  moreover have "c_SrcPort r = c_SrcPort q" "c_DstPort r = c_DstPort q"
    using small_u16_inj [OF p(1,3)] small_u16_inj [OF p(2,4)] htons_inj e(3,4) by metis+
  moreover have "c_Protocol r = c_Protocol q" using node_protocol_inj [OF vr e(5)] .
  ultimately show ?thesis by (simp add: same_tuple_def)
qed

lemma cidr_key_grow: "ids_grow m m' \<Longrightarrow> cidr_key_of m r kb \<Longrightarrow> cidr_key_of m' r kb"
  unfolding cidr_key_of_def using id_of_grow by blast

end
