(* ===== verification/CtlLoop.thy ===== *)
theory CtlLoop
  imports CtlDeliver
begin

text \<open>
  The node's build loop over the rules of a consistent store: every rule is written, so the full sync
  installs all of them.
\<close>

section \<open>One rule\<close>

text \<open>The rules still to come match by none of the tuples written.\<close>

definition none_same :: "CRule \<Rightarrow> CRule list \<Rightarrow> bool" where
  "none_same r written \<longleftrightarrow> (\<forall>q \<in> set written. deliverable q \<and> \<not> same_tuple r q)"

lemma delivering_exact:
  assumes R: "hash_reliable (hash K) get" and i: "delivering get written h b" and v: "deliverable r" "none_same r written"
    and e: "c_SrcCIDR r = []" "c_DstCIDR r = []" and s: "sync_rule K fresh (node_rule r) h b = (h', b')"
  shows "delivering get (written @ [r]) h' b' \<and> cidrMgr h' = cidrMgr h"
proof -
  have vr: "valid_rule r" "effective_rule r" using v(1) by (simp_all add: deliverable_def)
  obtain key m w where c: "sync_exact_checks (node_rule r) = Some (key, m, w)"
    using node_exact_checks [OF vr(1) e] vr(2) by (cases "sync_exact_checks (node_rule r)") auto
  obtain action where a: "sync_action (node_rule r) = Some action" using node_action [OF vr(1)] by blast
  have k: "ruleToKey (node_rule r) = Inr key"
    using c by (auto simp: sync_exact_checks_def split: option.splits sum.splits if_splits)
  have kr: "exact_key_of r (ruleKeyToBytes key)" using k e by (simp add: exact_key_of_def)
  have n: "get (shadowBlacklist h) (ruleKeyToBytes key) = None"
  proof (rule ccontr)
    assume "get (shadowBlacklist h) (ruleKeyToBytes key) \<noteq> None"
    then obtain q where q: "q \<in> set written" "exact_key_of q (ruleKeyToBytes key)" using i by (auto simp: delivering_def)
    then have "deliverable q" "\<not> same_tuple r q" using v(2) by (simp_all add: none_same_def)
    with exact_key_inj [OF v(1) _ kr q(2)] show False by blast
  qed
  let ?v = "ruleValueToBytes (value_of action m w (node_rule r))"
  obtain bl where u: "UpdateNoExist (hash K) (shadowBlacklist h) (ruleKeyToBytes key) ?v = (True, bl)"
    "get bl = (get (shadowBlacklist h))(ruleKeyToBytes key \<mapsto> ?v)"
    using hash_reliableD(2) [OF R n] by blast
  have h': "h' = set_shadowBlacklist bl h" "b' = build_exact (rule_id fresh (r_ID (node_rule r))) (stored_of key (node_rule r)) b"
    using s by (simp_all add: sync_rule_def sync_exact_def e c a u(1))
  have f: "sb_failed b' = sb_failed b" "sb_added b' = sb_added b + 1" by (simp_all add: h'(2) build_exact_def)
  have m: "cidrMgr h' = cidrMgr h" "shadowCidrBlacklist h' = shadowCidrBlacklist h" "shadowBlacklist h' = bl"
    by (simp_all add: h'(1))
  have x: "get bl kb \<noteq> None \<Longrightarrow> kb = ruleKeyToBytes key \<or> get (shadowBlacklist h) kb \<noteq> None" for kb
    using u(2) by (simp split: if_splits)
  show ?thesis
    using i kr x unfolding delivering_def f m by auto
qed

lemma delivering_cidr:
  assumes R: "hash_reliable (hash K) get" and T: "trie_accepts (trie K)" and i: "delivering get written h b"
    and v: "deliverable r" "none_same r written" and e: "c_SrcCIDR r \<noteq> [] \<or> c_DstCIDR r \<noteq> []"
    and rm: "room (Suc (Suc n)) (cidrMgr h)" and s: "sync_rule K fresh (node_rule r) h b = (h', b')"
  shows "delivering get (written @ [r]) h' b' \<and> room n (cidrMgr h')"
proof -
  have vr: "valid_rule r" using v(1) by (simp add: deliverable_def)
  have ips: "c_SrcIP r = []" "c_DstIP r = []" using vr e by (simp_all add: valid_rule_def target_ok_def)
  obtain m w where c: "sync_cidr_checks (node_rule r) = Some (c_SrcCIDR r, c_DstCIDR r, m, w)" using node_cidr_checks [OF vr] by blast
  obtain action where a: "sync_action (node_rule r) = Some action" using node_action [OF vr] by blast
  have nc: "c_SrcCIDR r = [] \<or> normal_cidr (c_SrcCIDR r)" "c_DstCIDR r = [] \<or> normal_cidr (c_DstCIDR r)"
    using vr ctl_network_normal by (auto simp: valid_rule_def target_ok_def)
  have mi: "mgr_inv (cidrMgr h)" using i by (simp add: delivering_def)
  obtain x y mg where al: "alloc_ids (trie K) (c_SrcCIDR r) (c_DstCIDR r) (cidrMgr h) = (Inr (x, y), mg)" "ids_grow (cidrMgr h) mg"
    "id_of (GetSrcID mg) (c_SrcCIDR r) x" "id_of (GetDstID mg) (c_DstCIDR r) y" "mgr_inv mg" "room n mg"
    using alloc_ids_step [OF T nc mi rm] by blast
  let ?ck = "node_cidr_key x y r"
  have kr: "cidr_key_of mg r (cidrRuleKeyToBytes ?ck)" using e al(3,4) by (auto simp: cidr_key_of_def)
  have combo: "validateComboType (getCIDRComboType ?ck)"
    using e id_of_inj(3) [OF al(5,3)] id_of_inj(4) [OF al(5,4)]
    by (auto simp: validate_getCIDRComboType cidr_key_fields_def node_cidr_key_def build_cidr_key_def)
  have old: "\<exists>q \<in> set written. cidr_key_of mg q kb" if "get (shadowCidrBlacklist h) kb \<noteq> None" for kb
    using i that cidr_key_grow [OF al(2)] unfolding delivering_def by blast
  have n: "get (shadowCidrBlacklist h) (cidrRuleKeyToBytes ?ck) = None"
  proof (rule ccontr)
    assume "get (shadowCidrBlacklist h) (cidrRuleKeyToBytes ?ck) \<noteq> None"
    then obtain q where q: "q \<in> set written" "cidr_key_of mg q (cidrRuleKeyToBytes ?ck)" using old by blast
    then have "deliverable q" "\<not> same_tuple r q" using v(2) by (simp_all add: none_same_def)
    with cidr_key_inj [OF v(1) _ al(5) kr q(2)] show False by blast
  qed
  let ?v = "ruleValueToBytes (value_of action m w (node_rule r))"
  obtain cbl where u: "UpdateNoExist (hash K) (shadowCidrBlacklist h) (cidrRuleKeyToBytes ?ck) ?v = (True, cbl)"
    "get cbl = (get (shadowCidrBlacklist h))(cidrRuleKeyToBytes ?ck \<mapsto> ?v)"
    using hash_reliableD(2) [OF R n] by blast
  have ck: "build_cidr_key x y (of_int (c_SrcPort r)) (of_int (c_DstPort r)) (node_protocol r) = ?ck" by (simp add: node_cidr_key_def)
  have sc: "sync_cidr K (rule_id fresh (c_ID r)) (node_rule r) action h b =
      (set_shadowCidrBlacklist cbl (h\<lparr>cidrMgr := mg\<rparr>),
       build_cidr (rule_id fresh (c_ID r)) (stored_cidr_of ?ck (c_SrcCIDR r) (c_DstCIDR r) (node_rule r)) b)"
    using combo u(1) by (simp add: sync_cidr_def c al(1) ck)
  have h': "h' = set_shadowCidrBlacklist cbl (h\<lparr>cidrMgr := mg\<rparr>)"
    "b' = build_cidr (rule_id fresh (c_ID r)) (stored_cidr_of ?ck (c_SrcCIDR r) (c_DstCIDR r) (node_rule r)) b"
    using s e ips sc by (simp_all add: sync_rule_def a)
  have f: "sb_failed b' = sb_failed b" "sb_added b' = sb_added b + 1" by (simp_all add: h'(2) build_cidr_def)
  have mm: "cidrMgr h' = mg" "shadowBlacklist h' = shadowBlacklist h" "shadowCidrBlacklist h' = cbl"
    by (simp_all add: h'(1))
  have z: "get cbl kb \<noteq> None \<Longrightarrow> kb = cidrRuleKeyToBytes ?ck \<or> get (shadowCidrBlacklist h) kb \<noteq> None" for kb
    using u(2) by (simp split: if_splits)
  have cidr: "\<exists>q \<in> set (written @ [r]). cidr_key_of mg q kb" if "get cbl kb \<noteq> None" for kb
    using z [OF that] old kr by auto
  have exact: "\<exists>q \<in> set (written @ [r]). exact_key_of q kb" if "get (shadowBlacklist h) kb \<noteq> None" for kb
    using i that unfolding delivering_def by auto
  show ?thesis
    using i al(5,6) cidr exact unfolding delivering_def f mm by simp
qed

section \<open>All rules\<close>

fun pairwise_apart :: "CRule list \<Rightarrow> bool" where
  "pairwise_apart [] = True"
| "pairwise_apart (r # rs) = (deliverable r \<and> (\<forall>q \<in> set rs. \<not> same_tuple r q) \<and> pairwise_apart rs)"

lemma delivering_all:
  assumes R: "hash_reliable (hash K) get" and T: "trie_accepts (trie K)"
  shows "delivering get written h b \<Longrightarrow> pairwise_apart rs \<Longrightarrow> \<forall>r \<in> set rs. none_same r written \<Longrightarrow>
    room (2 * length rs) (cidrMgr h) \<Longrightarrow> sync_rules K fresh n (map node_rule rs) h b = (h', b') \<Longrightarrow>
    delivering get (written @ rs) h' b'"
proof (induction rs arbitrary: n h b written)
  case (Cons r rs)
  obtain h1 b1 where s: "sync_rule K (fresh n) (node_rule r) h b = (h1, b1)" by force
  have d: "sync_rules K fresh (n + 1) (map node_rule rs) h1 b1 = (h', b')" using Cons.prems(5) s by simp
  have v: "deliverable r" "none_same r written" "pairwise_apart rs" using Cons.prems(2,3) by simp_all
  have rm: "room (Suc (Suc (2 * length rs))) (cidrMgr h)" using Cons.prems(4) by simp
  have st: "delivering get (written @ [r]) h1 b1 \<and> room (2 * length rs) (cidrMgr h1)"
  proof (cases "c_SrcCIDR r = [] \<and> c_DstCIDR r = []")
    case True
    with delivering_exact [OF R Cons.prems(1) v(1,2) _ _ s] room_mono [OF rm] show ?thesis by simp
  next
    case False
    then show ?thesis using delivering_cidr [OF R T Cons.prems(1) v(1,2) _ rm s] by blast
  qed
  have "\<forall>q \<in> set rs. none_same q (written @ [r])"
    using Cons.prems(2,3) same_tuple_sym unfolding none_same_def by auto
  from Cons.IH [OF conjunct1 [OF st] v(3) this conjunct2 [OF st] d] show ?case by simp
qed simp

lemma rows_pairwise:
  assumes "rows_ok rows" "distinct rs" "set rs \<subseteq> set rows" "\<forall>r \<in> set rs. effective_rule r \<and> plain_rule r"
  shows "pairwise_apart rs"
  using assms(2-4)
proof (induction rs)
  case (Cons r rs)
  have r: "r \<in> set rows" using Cons.prems by simp
  have "\<not> same_tuple r q" if q: "q \<in> set rs" for q
  proof
    assume "same_tuple r q"
    have "q \<in> set rows" using Cons.prems q by auto
    then have "c_ID r = c_ID q" using rows_okD(4) [OF assms(1) r] \<open>same_tuple r q\<close> by blast
    then have "r = q" using rows_okD(1) [OF assms(1)] r \<open>q \<in> set rows\<close> by (auto simp: distinct_map inj_on_def)
    with Cons.prems q show False by simp
  qed
  with Cons rows_okD(2) [OF assms(1) r] show ?case by (simp add: deliverable_def)
qed simp

section \<open>The switch\<close>

lemma put_entries_reliable:
  assumes "\<forall>c k v. fst (UpdateExist A c k v)"
  shows "\<exists>c'. put_entries A us c = (None, c')"
proof (induction us arbitrary: c)
  case (Cons u us)
  obtain i v where u: "u = (i, v)" by force
  obtain c1 where "UpdateExist A c (le32 (of_nat i)) (le64 v) = (True, c1)"
    using assms by (metis (full_types) prod.collapse)
  then have "cfg_put A i v c = (None, c1)" by (simp add: cfg_put_def)
  with Cons.IH [of c1] show ?case by (simp add: u)
qed simp

lemma sync_switch_reliable:
  assumes "array_reliable (arr K) geta"
  shows "\<exists>h'. sync_switch K b h = (None, h')"
proof -
  have a: "\<forall>c k v. fst (UpdateExist (arr K) c k v)" using assms by (simp add: array_reliable_def)
  obtain c where c: "put_entries (arr K) (sync_config h b)
            (copy_unchecked (arr K) (activeMap h) [0..<ConfigMapEntries] (shadowMap h)) = (None, c)"
    using put_entries_reliable [OF a] by blast
  have sw: "\<exists>h2. switch_slot K g = (None, h2)" for g
  proof -
    have "fst (UpdateExist (arr K) (activeConfig g) (le32 0) (le64 (of_int (1 - activeSlot g))))" using a by blast
    then show ?thesis by (cases "UpdateExist (arr K) (activeConfig g) (le32 0) (le64 (of_int (1 - activeSlot g)))") (simp add: switch_slot_def)
  qed
  obtain h2 where "switch_slot K (set_shadowMap c h) = (None, h2)" using sw by blast
  with c show ?thesis by (simp add: sync_switch_def)
qed

text \<open>A full sync of a deliverable rule set goes through and adds every rule.\<close>

lemma DoAtomicSync_delivers:
  assumes R: "hash_reliable (hash K) get" and T: "trie_accepts (trie K)" and A: "array_reliable (arr K) geta"
    and m: "mgr_inv (cidrMgr h)" and rm: "room (2 * length rs) (cidrMgr h)" and p: "pairwise_apart rs"
  shows "\<exists>r h'. DoAtomicSync K fresh (map node_rule rs) h = ((r, None), h') \<and> as_Added r = int (length rs) \<and> as_Failed r = 0"
proof -
  obtain h1 b where l: "sync_rules K fresh 0 (map node_rule rs) (clear_shadows K h) empty_build = (h1, b)" by force
  have c: "cidrMgr (clear_shadows K h) = cidrMgr h" by (simp add: clear_shadows_def Let_def)
  have "delivering get [] (clear_shadows K h) empty_build"
    using m clear_shadows_empty [OF R, of h] by (simp add: delivering_def empty_build_def c)
  from delivering_all [OF R T this p _ _ l] have d: "delivering get rs h1 b" using rm by (simp add: none_same_def c)
  obtain h' where s: "sync_switch K b h1 = (None, h')" using sync_switch_reliable [OF A] by blast
  from d s show ?thesis by (simp add: DoAtomicSync_def l delivering_def)
qed

end
