(* ===== verification/CtlEffects.thy ===== *)
theory CtlEffects
  imports CtlBatch
begin

text \<open>
  What each operation of the services changes and which sync calls it makes. The sync calls are read
  as updates of an ideal node, which holds a rule or an entry by its ID; a successful operation and its
  calls change the table and the ideal node alike, so that the ideal node follows the enabled rules of the
  store. The expiry job of \<^verbatim>\<open>controller/internal/scheduler/expire_cleaner.go\<close> is one of the operations;
  \<^verbatim>\<open>RuleService.DeleteExpired\<close>, which has no caller, is not.
\<close>

section \<open>The expiry job\<close>

text \<open>A rule whose deletion fails is skipped; a node hears only of rules it may hold.\<close>

fun cleanup_each :: "CRule list \<Rightarrow> Store \<Rightarrow> sync_action list \<times> Store" where
  "cleanup_each [] st = ([], st)"
| "cleanup_each (r # rs) st =
     (case repo_Delete (c_ID r) st of
        (None, st1) \<Rightarrow> cleanup_each rs st1
      | (Some _, st1) \<Rightarrow>
          (let (acts, st2) = cleanup_each rs st1
           in ((if c_Enabled r then [SyncDeleteRule (c_ID r)] else []) @ acts, st2)))"

definition cleanup :: "int \<Rightarrow> Store \<Rightarrow> sync_action list \<times> Store" where
  "cleanup ts st =
     (case repo_ListExpired ts st of
        (None, st1) \<Rightarrow> ([], st1)
      | (Some expired, st1) \<Rightarrow> cleanup_each expired st1)"

section \<open>The steps of the controller\<close>

text \<open>
  One request to the services, or one run of the expiry job, at any time and with any fresh IDs, with the
  sync calls it makes.
\<close>

inductive ctl_step :: "Store \<Rightarrow> sync_action list \<Rightarrow> Store \<Rightarrow> bool" where
  create: "CreateRule E req st = (r, acts, st') \<Longrightarrow> ctl_step st acts st'"
| update: "UpdateRule E rid req st = (r, acts, st') \<Longrightarrow> ctl_step st acts st'"
| delete: "DeleteRuleByID rid st = (x, acts, st') \<Longrightarrow> ctl_step st acts st'"
| batch_create: "BatchCreateRules E reqs st = (n, err, acts, st') \<Longrightarrow> ctl_step st acts st'"
| batch_delete: "BatchDeleteRules ids st = (n, err, acts, st') \<Longrightarrow> ctl_step st acts st'"
| expire: "cleanup ts st = (acts, st') \<Longrightarrow> ctl_step st acts st'"
| wl_create: "CreateWhitelist E wreq st = (w, acts, st') \<Longrightarrow> ctl_step st acts st'"
| wl_delete: "DeleteWhitelistEntry wid st = (e, acts, st') \<Longrightarrow> ctl_step st acts st'"

inductive ctl_reachable :: "Store \<Rightarrow> bool" where
  start: "ctl_reachable \<lparr>st_rules = [], st_whitelist = [], st_faults = faults\<rparr>"
| step: "ctl_reachable st \<Longrightarrow> ctl_step st acts st' \<Longrightarrow> ctl_reachable st'"

lemma cleanup_each_ok: "store_ok st \<Longrightarrow> cleanup_each rs st = (acts, st') \<Longrightarrow> store_ok st'"
proof (induction rs arbitrary: st acts)
  case (Cons r rs)
  obtain x st1 where d: "repo_Delete (c_ID r) st = (x, st1)" by force
  then obtain acts1 where "cleanup_each rs st1 = (acts1, st')" using Cons.prems(2) by (cases x) (auto split: prod.splits)
  with Cons.IH repo_Delete_ok [OF Cons.prems(1) d] show ?case by blast
qed simp

lemma cleanup_ok:
  assumes "store_ok st" "cleanup ts st = (acts, st')"
  shows "store_ok st'"
proof -
  obtain y st1 where l: "repo_ListExpired ts st = (y, st1)" by force
  have "store_ok st1" using same_tablesD(1) [OF db_query_same [OF l [unfolded repo_ListExpired_def]] assms(1)] .
  with assms(2) l cleanup_each_ok show ?thesis by (auto simp: cleanup_def split: option.splits)
qed

lemma ctl_step_ok: "ctl_step st acts st' \<Longrightarrow> store_ok st \<Longrightarrow> store_ok st'"
proof (induction rule: ctl_step.induct)
  case (batch_create E reqs st n err acts st')
  obtain rs a f where "n = (rs, a, f)" by (cases n)
  with batch_create BatchCreateRules_cases(1) show ?case by blast
qed (auto intro: CreateRule_ok UpdateRule_ok DeleteRuleByID_ok BatchDeleteRules_ok cleanup_ok
      CreateWhitelist_cases(1) DeleteWhitelistEntry_ok)

lemma reachable_store_ok: "ctl_reachable st \<Longrightarrow> store_ok st"
proof (induction rule: ctl_reachable.induct)
  case (start faults)
  show ?case by (simp add: store_ok_def rows_ok_def entries_ok_def)
next
  case (step st acts st')
  with ctl_step_ok show ?case by blast
qed

section \<open>The ideal node\<close>

record ideal_node =
  in_rules :: "string \<rightharpoonup> Rule"
  in_wl :: "string \<rightharpoonup> SyncWhitelistEntry"

definition rule_view :: "CRule list \<Rightarrow> string \<rightharpoonup> Rule" where
  "rule_view rows rid =
     (case find (\<lambda>r. c_ID r = rid) rows of
        Some r \<Rightarrow> if c_Enabled r then Some (node_rule r) else None
      | None \<Rightarrow> None)"

definition entry_view :: "CWhitelist list \<Rightarrow> string \<rightharpoonup> SyncWhitelistEntry" where
  "entry_view es = map_of (map (\<lambda>e. (e_ID e, node_entry e)) es)"

definition store_view :: "Store \<Rightarrow> ideal_node" where
  "store_view st = \<lparr>in_rules = rule_view (st_rules st), in_wl = entry_view (st_whitelist st)\<rparr>"

text \<open>What a sync call does to a node that takes every call; a full sync reads the store.\<close>

fun apply_sync :: "Store \<Rightarrow> sync_action \<Rightarrow> ideal_node \<Rightarrow> ideal_node" where
  "apply_sync st (SyncAddRule r) v = v\<lparr>in_rules := (in_rules v)(c_ID r \<mapsto> node_rule r)\<rparr>"
| "apply_sync st (SyncUpdateRule r) v = v\<lparr>in_rules := (in_rules v)(c_ID r \<mapsto> node_rule r)\<rparr>"
| "apply_sync st (SyncDeleteRule rid) v = v\<lparr>in_rules := (in_rules v)(rid := None)\<rparr>"
| "apply_sync st (SyncAddRulesBatch rs) v = v\<lparr>in_rules := in_rules v ++ map_of (map (\<lambda>r. (c_ID r, node_rule r)) rs)\<rparr>"
| "apply_sync st FullSyncToAllNodes v = store_view st"
| "apply_sync st (SyncAddWhitelist e) v = v\<lparr>in_wl := (in_wl v)(e_ID e \<mapsto> node_entry e)\<rparr>"
| "apply_sync st (SyncDeleteWhitelist wid) v = v\<lparr>in_wl := (in_wl v)(wid := None)\<rparr>"

definition apply_syncs :: "Store \<Rightarrow> sync_action list \<Rightarrow> ideal_node \<Rightarrow> ideal_node" where
  "apply_syncs st acts v = fold (apply_sync st) acts v"

text \<open>An operation and its calls change store and node alike.\<close>

definition tracks :: "Store \<Rightarrow> sync_action list \<Rightarrow> Store \<Rightarrow> bool" where
  "tracks st acts st' \<longleftrightarrow> apply_syncs st' acts (store_view st) = store_view st'"

lemma tracks_same: "same_tables st st' \<Longrightarrow> tracks st [] st'"
  by (simp add: tracks_def apply_syncs_def store_view_def same_tables_def)

lemma tracks_trans_same: "same_tables st st1 \<Longrightarrow> tracks st1 acts st' \<Longrightarrow> tracks st acts st'"
  by (simp add: tracks_def store_view_def same_tables_def)

lemma rule_view_Nil [simp]: "rule_view [] = Map.empty"
  by (simp add: rule_view_def fun_eq_iff)

lemma rule_view_Cons [simp]:
  "rule_view (r # rows) = (rule_view rows)(c_ID r := if c_Enabled r then Some (node_rule r) else None)"
  by (simp add: rule_view_def fun_eq_iff)

lemma rule_view_snoc:
  "\<forall>q \<in> set rows. c_ID q \<noteq> c_ID r \<Longrightarrow>
   rule_view (rows @ [r]) = (rule_view rows)(c_ID r := if c_Enabled r then Some (node_rule r) else None)"
  by (induction rows) (auto simp: fun_upd_twist)

lemma rule_view_filter: "rule_view (filter (\<lambda>r. c_ID r \<noteq> rid) rows) = (rule_view rows)(rid := None)"
  by (induction rows) (auto simp: fun_eq_iff)

lemma rule_view_None: "\<forall>q \<in> set rows. c_ID q \<noteq> rid \<Longrightarrow> rule_view rows rid = None"
  by (induction rows) auto

lemma rule_view_row:
  "distinct (map c_ID rows) \<Longrightarrow> r \<in> set rows \<Longrightarrow> rule_view rows (c_ID r) = (if c_Enabled r then Some (node_rule r) else None)"
proof (induction rows)
  case (Cons a rows)
  show ?case
  proof (cases "r = a")
    case False
    with Cons.prems have "c_ID r \<noteq> c_ID a" by (auto simp: image_iff)
    with False Cons show ?thesis by simp
  qed simp
qed simp

lemma node_rule_timed [simp]: "node_rule (r\<lparr>c_CreatedAt := a, c_UpdatedAt := b\<rparr>) = node_rule r"
  by (simp add: node_rule_def)

lemma rule_view_map:
  fixes new :: CRule
  defines "f \<equiv> \<lambda>ts r. if c_ID r = c_ID new then new\<lparr>c_CreatedAt := c_CreatedAt r, c_UpdatedAt := ts\<rparr> else r"
  assumes "\<exists>r \<in> set rows. c_ID r = c_ID new"
  shows "rule_view (map (f ts) rows) = (rule_view rows)(c_ID new := if c_Enabled new then Some (node_rule new) else None)"
proof -
  have o: "rule_view (map (f ts) rows) rid = rule_view rows rid" if "rid \<noteq> c_ID new" for rid rows
    using that by (induction rows) (auto simp: f_def)
  have "c_ID new \<in> c_ID ` set rows \<Longrightarrow> rule_view (map (f ts) rows) (c_ID new) = (if c_Enabled new then Some (node_rule new) else None)" for rows
    by (induction rows) (auto simp: f_def)
  moreover have "c_ID new \<in> c_ID ` set rows" using assms(2) by (metis image_eqI)
  ultimately have "rule_view (map (f ts) rows) (c_ID new) = (if c_Enabled new then Some (node_rule new) else None)" by blast
  with o show ?thesis by (auto simp: fun_eq_iff)
qed

lemma entry_view_snoc:
  "\<forall>x \<in> set es. e_ID x \<noteq> e_ID e \<Longrightarrow> entry_view (es @ [e\<lparr>e_CreatedAt := ts\<rparr>]) = (entry_view es)(e_ID e \<mapsto> node_entry e)"
  by (induction es) (auto simp: entry_view_def node_entry_def fun_upd_twist)

lemma entry_view_filter: "entry_view (filter (\<lambda>e. e_ID e \<noteq> wid) es) = (entry_view es)(wid := None)"
  by (induction es) (auto simp: entry_view_def fun_eq_iff)

section \<open>The statements\<close>

lemma tracks_rules:
  assumes "st_whitelist st' = st_whitelist st" "\<And>v. in_wl (apply_syncs st' acts v) = in_wl v"
    "in_rules (apply_syncs st' acts (store_view st)) = rule_view (st_rules st')"
  shows "tracks st acts st'"
  using assms by (simp add: tracks_def store_view_def ideal_node.equality)

lemma update_effect:
  assumes "distinct (map c_ID (st_rules st))" "e \<in> set (st_rules st)" "c_ID new = c_ID e" "repo_Update ts new st = (b, st')"
  shows "st_whitelist st' = st_whitelist st" "\<not> b \<Longrightarrow> same_tables st st'"
    "b \<Longrightarrow> st_rules st' = map (\<lambda>r. if c_ID r = c_ID new then new\<lparr>c_CreatedAt := c_CreatedAt r, c_UpdatedAt := ts\<rparr> else r) (st_rules st)"
    "b \<Longrightarrow> rule_view (st_rules st') = (rule_view (st_rules st))(c_ID e := if c_Enabled new then Some (node_rule new) else None)"
proof -
  note w = db_write_cases [OF assms(4) [unfolded repo_Update_def]]
  show "st_whitelist st' = st_whitelist st" "\<not> b \<Longrightarrow> same_tables st st'" using w by (simp_all add: same_tables_def)
  assume b
  then show r: "st_rules st' = map (\<lambda>r. if c_ID r = c_ID new then new\<lparr>c_CreatedAt := c_CreatedAt r, c_UpdatedAt := ts\<rparr> else r) (st_rules st)"
    using w(2) by (auto simp: update_row_def split: if_splits)
  have "\<exists>r \<in> set (st_rules st). c_ID r = c_ID new" using assms(2,3) by auto
  from rule_view_map [OF this, of ts] show "rule_view (st_rules st') = (rule_view (st_rules st))(c_ID e := if c_Enabled new then Some (node_rule new) else None)"
    unfolding r assms(3) .
qed

lemma insert_effect:
  assumes "repo_Create ts r st = (b, st')"
  shows "st_whitelist st' = st_whitelist st" "\<not> b \<Longrightarrow> same_tables st st'"
    "b \<Longrightarrow> st_rules st' = st_rules st @ [r\<lparr>c_CreatedAt := ts, c_UpdatedAt := ts\<rparr>]"
    "b \<Longrightarrow> \<forall>q \<in> set (st_rules st). c_ID q \<noteq> c_ID r"
  using db_write_cases [OF assms [unfolded repo_Create_def]]
  by (auto simp: same_tables_def insert_row_def split: if_splits)

lemma insert_rows_keep: "insert_rows ts rs rows = Some rows' \<Longrightarrow> q \<in> set rows \<Longrightarrow> c_ID q \<notin> c_ID ` set rs"
proof (induction rs arbitrary: rows)
  case (Cons r rs)
  from Cons.prems(1) obtain rows1 where i: "insert_row ts r rows = Some rows1" "insert_rows ts rs rows1 = Some rows'"
    by (auto split: option.splits)
  have "c_ID r \<noteq> c_ID q" "q \<in> set rows1" using i(1) Cons.prems(2) by (auto simp: insert_row_def split: if_splits)
  with Cons.IH [OF i(2)] show ?case by auto
qed simp

lemma insert_rows_view:
  "insert_rows ts rs rows = Some rows' \<Longrightarrow>
   rule_view rows' = rule_view rows ++ map_of (map (\<lambda>r. (c_ID r, node_rule r)) (filter c_Enabled rs))"
proof (induction rs arbitrary: rows)
  case (Cons r rs)
  let ?m = "map_of (map (\<lambda>r. (c_ID r, node_rule r)) (filter c_Enabled rs))"
  from Cons.prems(1) obtain rows1 where i: "insert_row ts r rows = Some rows1" "insert_rows ts rs rows1 = Some rows'"
    by (auto split: option.splits)
  have f: "rows1 = rows @ [r\<lparr>c_CreatedAt := ts, c_UpdatedAt := ts\<rparr>]" "\<forall>q \<in> set rows. c_ID q \<noteq> c_ID r"
    using i(1) by (auto simp: insert_row_def split: if_splits)
  have v: "rule_view rows1 = (rule_view rows)(c_ID r := if c_Enabled r then Some (node_rule r) else None)"
    using rule_view_snoc [of rows "r\<lparr>c_CreatedAt := ts, c_UpdatedAt := ts\<rparr>"] f by simp
  have "c_ID r \<notin> c_ID ` set rs"
    using insert_rows_keep [OF i(2), of "r\<lparr>c_CreatedAt := ts, c_UpdatedAt := ts\<rparr>"] f(1) by simp
  then have n: "c_ID r \<notin> dom ?m" by (auto simp: dom_map_of_conv_image_fst)
  show ?case
  proof (cases "c_Enabled r")
    case True
    then have v': "rule_view rows1 = (rule_view rows)(c_ID r \<mapsto> node_rule r)" using v by simp
    have "rule_view rows' = (rule_view rows)(c_ID r \<mapsto> node_rule r) ++ ?m" using Cons.IH [OF i(2)] unfolding v' .
    also have "\<dots> = (rule_view rows ++ ?m)(c_ID r \<mapsto> node_rule r)" by (rule map_add_upd_left [OF n])
    also have "\<dots> = rule_view rows ++ ?m(c_ID r \<mapsto> node_rule r)" by (rule map_add_upd [symmetric])
    also have "?m(c_ID r \<mapsto> node_rule r) = map_of (map (\<lambda>r. (c_ID r, node_rule r)) (filter c_Enabled (r # rs)))"
      using True by (simp only: filter.simps list.map if_True map_of.simps fst_conv snd_conv)
    finally show ?thesis .
  next
    case False
    have "(rule_view rows)(c_ID r := None) = rule_view rows" using rule_view_None [OF f(2)] by (simp add: fun_upd_idem)
    with False Cons.IH [OF i(2)] v show ?thesis by simp
  qed
qed simp

lemma delete_effect:
  assumes "repo_Delete rid st = (x, st')"
  shows "x = None \<Longrightarrow> same_tables st st'"
    "x = Some found \<Longrightarrow> st_rules st' = filter (\<lambda>r. c_ID r \<noteq> rid) (st_rules st) \<and> st_whitelist st' = st_whitelist st \<and>
       found = list_ex (\<lambda>r. c_ID r = rid) (st_rules st)"
proof -
  obtain y st1 where q: "db_query (\<lambda>st. list_ex (\<lambda>r. c_ID r = rid) (st_rules st)) st = (y, st1)" by force
  note s = db_query_same [OF q]
  show "x = None \<Longrightarrow> same_tables st st'" using assms q s by (auto simp: repo_Delete_def split: option.splits)
  assume "x = Some found"
  then have y: "y = Some found" and st': "st' = st1\<lparr>st_rules := filter (\<lambda>r. c_ID r \<noteq> rid) (st_rules st1)\<rparr>"
    using assms q by (auto simp: repo_Delete_def split: option.splits)
  have "found = list_ex (\<lambda>r. c_ID r = rid) (st_rules st)" using db_query_value [OF q [unfolded y]] .
  with st' s show "st_rules st' = filter (\<lambda>r. c_ID r \<noteq> rid) (st_rules st) \<and> st_whitelist st' = st_whitelist st \<and>
       found = list_ex (\<lambda>r. c_ID r = rid) (st_rules st)" by (simp add: same_tables_def)
qed

section \<open>The operations\<close>

lemma CreateRule_cases:
  assumes "store_ok st" "CreateRule E req0 st = (r, acts, st')"
  obtains (same) "same_tables st st'" "acts = []"
  | (added) rule st1 where "r = Inr rule" "valid_rule rule" "fresh_for rule (st_rules st)" "same_tables st st1"
      "repo_Create (time_now E) rule st1 = (True, st')" "acts = (if c_Enabled rule then [SyncAddRule rule] else [])"
  | (merged) e rule st1 where "r = Inr rule" "e \<in> set (st_rules st)" "c_ID rule = c_ID e" "c_Enabled rule = c_Enabled e"
      "same_tables st st1" "repo_Update (time_now E) rule st1 = (True, st')"
      "acts = (if c_Enabled rule then [SyncUpdateRule rule] else [])"
proof (cases "check_fields req0")
  case (Inl e)
  with assms have "same_tables st st'" "acts = []" by (simp_all add: CreateRule_def)
  with same show thesis .
next
  case (Inr req)
  note ok = check_fields_ok [OF Inr]
  note rows = assms(1) [unfolded store_ok_def, THEN conjunct1]
  obtain e1 st1 where o: "overlap_check req st = (e1, st1)" by force
  have s1: "same_tables st st1" using overlap_check_same [OF o] .
  show thesis
  proof (cases "e1 = None \<and> check_anomaly req = None")
    case False
    then have "st' = st1" "acts = []" using assms(2) Inr o by (auto simp: CreateRule_def split: option.splits)
    with s1 same show thesis by simp
  next
    case True
    then have an: "check_anomaly req = None" and o': "overlap_check req st = (None, st1)" using o by auto
    obtain x st2 where l: "lookup_tuple req st1 = (x, st2)" by force
    have s2: "same_tables st st2" using same_tables_trans [OF s1 lookup_same [OF l]] .
    have r1: "st_rules st1 = st_rules st" and r2: "st_rules st2 = st_rules st" using s1 s2 by (simp_all add: same_tables_def)
    consider "x = None" | e where "x = Some (Some e)" | "x = Some None" by (cases x) auto
    then show thesis
    proof cases
      case 1
      then have "st' = st2" "acts = []" using assms(2) Inr o' an l by (simp_all add: CreateRule_def)
      with s2 same show thesis by simp
    next
      case (2 e)
      have e: "e \<in> set (st_rules st)" using lookup_Some(1) [OF l [unfolded 2] _ ok] rows r1 by simp
      obtain m st3 where m: "tryAnomalyMerge E e req st2 = (m, st3)" by force
      have st': "st' = st3" "acts = (case m of Merged rule acts \<Rightarrow> acts | _ \<Rightarrow> [])"
        "\<And>rule acts. m = Merged rule acts \<Longrightarrow> r = Inr rule"
        using assms(2) Inr o' an l 2 m by (auto simp: CreateRule_def split: merge_result.splits)
      let ?new = "e\<lparr>c_MatchAnomaly := c_MatchAnomaly e OR q_MatchAnomaly req, c_UpdatedAt := time_now E\<rparr>"
      obtain b st4 where u: "repo_Update (time_now E) ?new st2 = (b, st4)" by force
      have "st3 = st2 \<and> acts = [] \<or> st3 = st4 \<and> \<not> b \<and> acts = [] \<or>
          st3 = st4 \<and> b \<and> m = Merged ?new (if c_Enabled ?new then [SyncUpdateRule ?new] else [])"
        using m u st'(2) by (cases b) (auto simp: tryAnomalyMerge_def Let_def split: if_splits prod.splits bool.splits)
      moreover have "\<not> b \<Longrightarrow> same_tables st2 st4"
        using db_write_cases [OF u [unfolded repo_Update_def]] by (simp add: same_tables_def)
      ultimately show thesis
        using same s2 same_tables_trans [OF s2] st' merged [of ?new e st2] e u by auto
    next
      case 3
      show thesis
      proof (cases "expiry E req")
        case (Inl e)
        then have "st' = st2" "acts = []" using assms(2) \<open>check_fields req0 = Inr req\<close> o' an l 3 by (simp_all add: CreateRule_def)
        with s2 same show thesis by simp
      next
        case (Inr t)
        let ?r = "rule_of_request E 0 t req"
        obtain b st3 where c: "repo_Create (time_now E) ?r st2 = (b, st3)" by force
        have e: "st' = st3" "acts = (if b \<and> c_Enabled ?r then [SyncAddRule ?r] else [])" "b \<Longrightarrow> r = Inr ?r"
          using assms(2) \<open>check_fields req0 = Inr req\<close> o' an l 3 Inr c by (auto simp: CreateRule_def Let_def split: bool.splits)
        have f: "fresh_for ?r (st_rules st)"
          using overlap_check_apart [OF rows o' ok] lookup_None_fresh [OF l [unfolded 3]] r1 r2 by (auto simp: fresh_for_def)
        show thesis
        proof (cases b)
          case True
          with added [of ?r st2] e f s2 c request_ok_valid_rule [OF ok an] show thesis by simp
        next
          case False
          then have "same_tables st2 st3" using insert_effect(2) [OF c] by simp
          with same same_tables_trans [OF s2] e False show thesis by simp
        qed
      qed
    qed
  qed
qed

lemma UpdateRule_cases:
  assumes "store_ok st" "UpdateRule E rid req0 st = (r, acts, st')"
  obtains (same) e where "same_tables st st'" "acts = []" "r = Inl e"
  | (updated) old new st1 where "r = Inr new" "old \<in> set (st_rules st)" "c_ID old = rid" "same_key new old" "valid_rule new"
      "same_tables st st1" "repo_Update (time_now E) new st1 = (True, st')" "acts = update_sync old new"
proof -
  obtain x st1 where g: "repo_Get rid st = (x, st1)" by force
  have s1: "same_tables st st1" using g by (auto simp: repo_Get_def dest: db_query_same)
  have rows: "rows_ok (st_rules st)" using assms(1) by (simp add: store_ok_def)
  show thesis
  proof (cases "\<exists>rule new. x = Some (Some rule) \<and> and_check (update_checks req0 rule) (\<lambda>req. merge_fields E req rule) = Inr new")
    case False
    then have "st' = st1 \<and> acts = [] \<and> (\<exists>e. r = Inl e)"
      using assms(2) g by (auto simp: UpdateRule_def split: option.splits sum.splits) metis
    with s1 same show thesis by blast
  next
    case True
    then obtain rule new where n: "x = Some (Some rule)" "and_check (update_checks req0 rule) (\<lambda>req. merge_fields E req rule) = Inr new"
      by blast
    then obtain req where q: "update_checks req0 rule = Inr req" "merge_fields E req rule = Inr new" unfolding and_check_Inr by blast
    obtain b st2 where u: "repo_Update (time_now E) new st1 = (b, st2)" by force
    have e: "st' = st2" "if b then r = Inr new \<and> acts = update_sync rule new else (\<exists>e. r = Inl e) \<and> acts = []"
      using assms(2) g n u by (auto simp: UpdateRule_def split: bool.splits)
    have f: "find (\<lambda>r. c_ID r = rid) (st_rules st) = Some rule" using g n(1) by (auto simp: repo_Get_def dest: db_query_value)
    then have m: "rule \<in> set (st_rules st)" "c_ID rule = rid" using find_SomeD [OF f] by simp_all
    show thesis
    proof (cases b)
      case True
      with updated [OF _ m merge_fields_key [OF q(2)] update_valid [OF rows_okD(2) [OF rows m(1)] q] s1] e u show thesis by simp
    next
      case False
      then have "same_tables st1 st2" using db_write_cases [OF u [unfolded repo_Update_def]] by (simp add: same_tables_def)
      then have t: "same_tables st st'" using same_tables_trans [OF s1] e(1) by simp
      obtain e1 where "r = Inl e1" "acts = []" using e(2) False by auto
      with same t show thesis by blast
    qed
  qed
qed

text \<open>The calls of an operation take the view of its store to the view of the new store.\<close>

lemma CreateRule_tracks:
  assumes "store_ok st" "CreateRule E req0 st = (r, acts, st')"
  shows "tracks st acts st'"
  using assms
proof (cases rule: CreateRule_cases)
  case same
  then show ?thesis using tracks_same by simp
next
  case (added rule st1)
  note f = insert_effect [OF added(5)]
  have n: "\<forall>q \<in> set (st_rules st1). c_ID q \<noteq> c_ID rule" using f(4) by simp
  have v: "rule_view (st_rules st') = (rule_view (st_rules st1))(c_ID rule := if c_Enabled rule then Some (node_rule rule) else None)"
    using f(3) rule_view_snoc [of "st_rules st1" "rule\<lparr>c_CreatedAt := time_now E, c_UpdatedAt := time_now E\<rparr>"] n by simp
  have "tracks st1 acts st'"
    by (rule tracks_rules) (use f(1) added(6) v rule_view_None [OF n] in \<open>auto simp: apply_syncs_def store_view_def fun_upd_idem\<close>)
  with added(4) show ?thesis by (rule tracks_trans_same)
next
  case (merged e rule st1)
  have d: "distinct (map c_ID (st_rules st1))" "e \<in> set (st_rules st1)"
    using assms(1) merged(2,5) rows_okD(1) by (auto simp: same_tables_def store_ok_def)
  note f = update_effect [OF d merged(3,6)]
  have "rule_view (st_rules st1) (c_ID e) = None" if "\<not> c_Enabled rule" using rule_view_row [OF d] that merged(4) by simp
  then have "tracks st1 acts st'"
    by (intro tracks_rules) (use f(1,4) merged(3,7) in \<open>auto simp: apply_syncs_def store_view_def fun_upd_idem\<close>)
  with merged(5) show ?thesis by (rule tracks_trans_same)
qed

lemma UpdateRule_tracks:
  assumes "store_ok st" "UpdateRule E rid req0 st = (r, acts, st')"
  shows "tracks st acts st'"
  using assms
proof (cases rule: UpdateRule_cases)
  case (same e)
  then show ?thesis using tracks_same by simp
next
  case (updated old new st1)
  have d: "distinct (map c_ID (st_rules st1))" "old \<in> set (st_rules st1)" and i: "c_ID new = c_ID old"
    using assms(1) updated(2,4,6) rows_okD(1) by (auto simp: same_tables_def store_ok_def same_key_def)
  note f = update_effect [OF d i updated(7)]
  have "rule_view (st_rules st1) (c_ID old) = None" if "\<not> c_Enabled old" using rule_view_row [OF d] that by simp
  then have "tracks st1 acts st'"
    by (intro tracks_rules) (use f(1,4) i updated(8) in \<open>auto simp: update_sync_def apply_syncs_def store_view_def fun_upd_idem\<close>)
  with updated(6) show ?thesis by (rule tracks_trans_same)
qed

lemma delete_tracks:
  assumes "repo_Delete rid st = (Some found, st')"
  shows "tracks st [SyncDeleteRule rid] st'" "rule_view (st_rules st) rid = None \<Longrightarrow> tracks st [] st'"
  using delete_effect(2) [OF assms refl]
  by (auto simp: tracks_def apply_syncs_def store_view_def rule_view_filter fun_upd_idem)

lemma DeleteRuleByID_tracks:
  assumes "store_ok st" "DeleteRuleByID rid st = (x, acts, st')"
  shows "tracks st acts st'"
proof -
  obtain g st1 where g: "repo_Get rid st = (g, st1)" by force
  note s1 = db_query_same [OF g [unfolded repo_Get_def]]
  obtain y st2 where d: "repo_Delete rid st1 = (y, st2)" by force
  consider "st' = st1" "acts = []" | "y = None" "st' = st2" "acts = []" | "y = Some False" "st' = st2" "acts = []"
    | rule where "y = Some True" "g = Some (Some rule)" "st' = st2" "acts = (if c_Enabled rule then [SyncDeleteRule rid] else [])"
    using assms(2) g d by (auto simp: DeleteRuleByID_def split: option.splits bool.splits)
  then show ?thesis
  proof cases
    case 1
    with tracks_same [OF s1] show ?thesis by simp
  next
    case 2
    with tracks_same [OF same_tables_trans [OF s1 delete_effect(1) [OF d]]] show ?thesis by simp
  next
    case 3
    have "\<not> list_ex (\<lambda>r. c_ID r = rid) (st_rules st1)" using delete_effect(2) [OF d 3(1)] by simp
    then have "rule_view (st_rules st1) rid = None" by (intro rule_view_None) (simp add: list_ex_iff)
    from tracks_trans_same [OF s1 delete_tracks(2) [OF d [unfolded 3(1)] this]] 3 show ?thesis by simp
  next
    case (4 rule)
    have f: "find (\<lambda>r. c_ID r = rid) (st_rules st) = Some rule"
      using g 4(2) by (auto simp: repo_Get_def dest: db_query_value)
    have m: "rule \<in> set (st_rules st1)" "c_ID rule = rid" using find_SomeD [OF f] s1 by (simp_all add: same_tables_def)
    have "distinct (map c_ID (st_rules st1))" using assms(1) s1 rows_okD(1) by (auto simp: same_tables_def store_ok_def)
    then have nv: "\<not> c_Enabled rule \<Longrightarrow> rule_view (st_rules st1) rid = None" using rule_view_row [OF _ m(1)] m(2) by simp
    note t = delete_tracks [OF d [unfolded 4(1)]]
    have "tracks st1 acts st'"
    proof (cases "c_Enabled rule")
      case True
      with t(1) 4 show ?thesis by simp
    next
      case False
      with t(2) nv 4 show ?thesis by simp
    qed
    with s1 show ?thesis by (rule tracks_trans_same)
  qed
qed

lemma BatchDeleteRules_tracks:
  assumes "BatchDeleteRules ids st = (x, e, acts, st')"
  shows "tracks st acts st'"
proof (cases "ids = []")
  case True
  with assms show ?thesis by (simp add: BatchDeleteRules_def tracks_same)
next
  case False
  obtain b st1 where d: "db_write (\<lambda>rows. Some (filter (\<lambda>r. c_ID r \<notin> set ids) rows)) st = (b, st1)" by force
  have "st' = st1 \<and> acts = (if b then [FullSyncToAllNodes] else [])"
    using assms False d by (auto simp: BatchDeleteRules_def repo_BatchDelete_def split: bool.splits)
  moreover have "\<not> b \<Longrightarrow> same_tables st st1" using db_write_cases [OF d] by (simp add: same_tables_def)
  ultimately show ?thesis using tracks_same by (auto simp: tracks_def apply_syncs_def)
qed

lemma BatchCreateRules_tracks:
  assumes "store_ok st" "BatchCreateRules E reqs st = (n, err, acts, st')"
  shows "tracks st acts st'"
proof -
  obtain b st1 where i: "batch_items E 0 reqs empty_batch st = (b, st1)" by force
  have rows: "rows_ok (st_rules st)" using assms(1) by (simp add: store_ok_def)
  have e: "batch_inv (st_rules st) empty_batch" by (simp add: batch_inv_def empty_batch_def)
  have s1: "same_tables st st1" using batch_items_ok [OF rows e i] by blast
  show ?thesis
  proof (cases "bs_rules b = []")
    case True
    with assms(2) i have "st' = st1" "acts = []" by (simp_all add: BatchCreateRules_def)
    with tracks_same [OF s1] show ?thesis by simp
  next
    case False
    obtain ok st2 where c: "repo_BatchCreate (time_now E) (bs_rules b) st1 = (ok, st2)" by force
    note w = db_write_cases [OF c [unfolded repo_BatchCreate_def]]
    let ?en = "filter c_Enabled (bs_rules b)"
    have a: "st' = st2 \<and> acts = (if ok \<and> ?en \<noteq> [] then [SyncAddRulesBatch ?en] else [])"
      using assms(2) i False c by (auto simp: BatchCreateRules_def Let_def split: bool.splits)
    show ?thesis
    proof (cases ok)
      case False
      with w have "same_tables st1 st2" by (simp add: same_tables_def)
      with tracks_same [OF same_tables_trans [OF s1]] a False show ?thesis by simp
    next
      case True
      have v: "rule_view (st_rules st2) = rule_view (st_rules st1) ++ map_of (map (\<lambda>r. (c_ID r, node_rule r)) ?en)"
        by (rule insert_rows_view) (use w(2) True in simp)
      have "tracks st1 acts st'"
        by (rule tracks_rules) (use a w(1) v True in \<open>auto simp: apply_syncs_def store_view_def\<close>)
      with s1 show ?thesis by (rule tracks_trans_same)
    qed
  qed
qed

text \<open>The expired rules are rows of the table, or their rows are gone.\<close>

lemma cleanup_each_tracks:
  "distinct (map c_ID (st_rules st)) \<Longrightarrow> \<forall>r \<in> set rs. \<forall>q \<in> set (st_rules st). c_ID q = c_ID r \<longrightarrow> q = r \<Longrightarrow>
   cleanup_each rs st = (acts, st') \<Longrightarrow> apply_syncs s acts (store_view st) = store_view st'"
proof (induction rs arbitrary: st acts)
  case Nil
  then show ?case by (simp add: apply_syncs_def)
next
  case (Cons r rs)
  obtain x st1 where d: "repo_Delete (c_ID r) st = (x, st1)" by force
  show ?case
  proof (cases x)
    case None
    then have s: "same_tables st st1" using delete_effect(1) [OF d] by simp
    have "cleanup_each rs st1 = (acts, st')" using Cons.prems(3) d None by simp
    from Cons.IH [OF _ _ this] Cons.prems(1,2) s show ?thesis by (simp add: same_tables_def store_view_def)
  next
    case (Some found)
    obtain acts1 where c: "cleanup_each rs st1 = (acts1, st')"
      and a: "acts = (if c_Enabled r then [SyncDeleteRule (c_ID r)] else []) @ acts1"
      using Cons.prems(3) d Some by (auto split: prod.splits)
    note e = delete_effect(2) [OF d Some]
    have IH: "apply_syncs s acts1 (store_view st1) = store_view st'"
      by (rule Cons.IH [OF _ _ c]) (use Cons.prems(1,2) e in \<open>simp_all add: distinct_map_filter\<close>)
    have "\<not> c_Enabled r \<Longrightarrow> rule_view (st_rules st) (c_ID r) = None"
      using Cons.prems(1,2) rule_view_None rule_view_row by (metis list.set_intros(1))
    with delete_tracks [OF d [unfolded Some]] IH a show ?thesis
      by (auto simp: tracks_def apply_syncs_def)
  qed
qed

lemma cleanup_tracks:
  assumes "store_ok st" "cleanup ts st = (acts, st')"
  shows "tracks st acts st'"
proof -
  obtain y st1 where l: "repo_ListExpired ts st = (y, st1)" by force
  have s: "same_tables st st1" using db_query_same [OF l [unfolded repo_ListExpired_def]] .
  have d: "distinct (map c_ID (st_rules st1))" using assms(1) s rows_okD(1) by (auto simp: same_tables_def store_ok_def)
  show ?thesis
  proof (cases y)
    case None
    with assms(2) l tracks_same [OF s] show ?thesis by (simp add: cleanup_def)
  next
    case (Some expired)
    then have "expired = filter (expired_at ts) (st_rules st)" using l by (auto simp: repo_ListExpired_def dest: db_query_value)
    then have m: "\<forall>r \<in> set expired. \<forall>q \<in> set (st_rules st1). c_ID q = c_ID r \<longrightarrow> q = r"
      using d s by (auto simp: same_tables_def distinct_map inj_on_def)
    have "cleanup_each expired st1 = (acts, st')" using assms(2) l Some by (simp add: cleanup_def)
    from cleanup_each_tracks [OF d m this] have "tracks st1 acts st'" by (simp add: tracks_def)
    with s show ?thesis by (rule tracks_trans_same)
  qed
qed

lemma repo_CreateWhitelist_effect:
  assumes "repo_CreateWhitelist ts e st = (r, st')"
  shows "r \<noteq> None \<Longrightarrow> same_tables st st'"
    "r = None \<Longrightarrow> st_rules st' = st_rules st \<and> st_whitelist st' = st_whitelist st @ [e\<lparr>e_CreatedAt := ts\<rparr>] \<and>
       (\<forall>x \<in> set (st_whitelist st). e_ID x \<noteq> e_ID e)"
proof -
  obtain x st1 where q1: "db_query (\<lambda>st. list_ex (same_entry e) (st_whitelist st)) st = (x, st1)" by force
  obtain y st2 where q2: "db_query (\<lambda>st. list_ex (\<lambda>a. e_ID a = e_ID e) (st_whitelist st)) st1 = (y, st2)" by force
  have s1: "same_tables st st1" using db_query_same [OF q1] .
  have s2: "same_tables st st2" using same_tables_trans [OF s1 db_query_same [OF q2]] .
  have c: "r \<noteq> None \<and> (st' = st1 \<or> st' = st2) \<or>
      r = None \<and> y = Some False \<and> st' = st2\<lparr>st_whitelist := st_whitelist st2 @ [e\<lparr>e_CreatedAt := ts\<rparr>]\<rparr>"
    using assms q1 q2 by (auto simp: repo_CreateWhitelist_def split: option.splits bool.splits)
  show "r \<noteq> None \<Longrightarrow> same_tables st st'" using c s1 s2 by blast
  assume "r = None"
  with c have y: "y = Some False" and st': "st' = st2\<lparr>st_whitelist := st_whitelist st2 @ [e\<lparr>e_CreatedAt := ts\<rparr>]\<rparr>" by simp_all
  have "\<not> list_ex (\<lambda>a. e_ID a = e_ID e) (st_whitelist st1)" using db_query_value [OF q2 [unfolded y]] by simp
  then show "st_rules st' = st_rules st \<and> st_whitelist st' = st_whitelist st @ [e\<lparr>e_CreatedAt := ts\<rparr>] \<and>
       (\<forall>x \<in> set (st_whitelist st). e_ID x \<noteq> e_ID e)"
    using s1 s2 st' by (auto simp: list_ex_iff same_tables_def)
qed

lemma CreateWhitelist_tracks:
  assumes "CreateWhitelist E req0 st = (r, acts, st')"
  shows "tracks st acts st'"
proof -
  consider "st' = st" "acts = []" | entry x st1 where "repo_CreateWhitelist (time_now E) entry st = (x, st1)" "st' = st1"
      "acts = (if x = None then [SyncAddWhitelist entry] else [])"
    using assms unfolding CreateWhitelist_def Let_def
    by (auto split: sum.splits option.splits prod.splits)
  then show ?thesis
  proof cases
    case 1
    then show ?thesis by (simp add: tracks_same)
  next
    case (2 entry x st1)
    show ?thesis
    proof (cases x)
      case None
      note e = repo_CreateWhitelist_effect(2) [OF 2(1) None]
      then have "entry_view (st_whitelist st') = (entry_view (st_whitelist st))(e_ID entry \<mapsto> node_entry entry)"
        using entry_view_snoc 2(2) by metis
      with None 2 e show ?thesis by (simp add: tracks_def apply_syncs_def store_view_def)
    next
      case (Some y)
      then show ?thesis using 2 tracks_same repo_CreateWhitelist_effect(1) [OF 2(1)] by simp
    qed
  qed
qed

lemma DeleteWhitelistEntry_tracks:
  assumes "DeleteWhitelistEntry wid st = (x, acts, st')"
  shows "tracks st acts st'"
proof -
  obtain u st1 where q: "db_query (\<lambda>_. ()) st = (u, st1)" by force
  have s: "same_tables st st1" using db_query_same [OF q] .
  have "st' = st1 \<and> acts = [] \<or>
      st' = st1\<lparr>st_whitelist := filter (\<lambda>e. e_ID e \<noteq> wid) (st_whitelist st1)\<rparr> \<and> acts = [SyncDeleteWhitelist wid]"
    using assms q by (auto simp: DeleteWhitelistEntry_def repo_DeleteWhitelist_def split: option.splits)
  then show ?thesis
  proof
    assume "st' = st1 \<and> acts = []"
    with tracks_same [OF s] show ?thesis by simp
  next
    assume a: "st' = st1\<lparr>st_whitelist := filter (\<lambda>e. e_ID e \<noteq> wid) (st_whitelist st1)\<rparr> \<and> acts = [SyncDeleteWhitelist wid]"
    then have "tracks st1 acts st'"
      by (simp add: tracks_def apply_syncs_def store_view_def entry_view_filter)
    with s show ?thesis by (rule tracks_trans_same)
  qed
qed

lemma ctl_step_tracks:
  assumes "ctl_step st acts st'" "store_ok st"
  shows "tracks st acts st'"
  using assms
  by (induction rule: ctl_step.induct)
    (blast intro: CreateRule_tracks UpdateRule_tracks DeleteRuleByID_tracks BatchCreateRules_tracks BatchDeleteRules_tracks
      cleanup_tracks CreateWhitelist_tracks DeleteWhitelistEntry_tracks)+

text \<open>A run of the controller with all its calls in order; a full sync reads the store of its time.\<close>

inductive ctl_run :: "Store \<Rightarrow> ideal_node \<Rightarrow> bool" where
  empty: "ctl_run \<lparr>st_rules = [], st_whitelist = [], st_faults = faults\<rparr> \<lparr>in_rules = Map.empty, in_wl = Map.empty\<rparr>"
| operate: "ctl_run st v \<Longrightarrow> ctl_step st acts st' \<Longrightarrow> ctl_run st' (apply_syncs st' acts v)"

lemma ctl_run_reachable: "ctl_run st v \<Longrightarrow> ctl_reachable st"
  by (induction rule: ctl_run.induct) (auto intro: ctl_reachable.intros)

lemma ctl_run_view: "ctl_run st v \<Longrightarrow> v = store_view st"
proof (induction rule: ctl_run.induct)
  case (empty faults)
  show ?case by (simp add: store_view_def entry_view_def)
next
  case (operate st v acts st')
  with ctl_step_tracks reachable_store_ok ctl_run_reachable show ?case unfolding tracks_def by blast
qed

end
