(* ===== verification/CtlProps.thy ===== *)
theory CtlProps
  imports CtlLoop CtlEffects
begin

text \<open>
  Properties of the controller's rule service and of what a node makes of its rules: what is stored is
  consistent, what is stored is accepted by a node, and where the two programs disagree.
\<close>

section \<open>Sample requests\<close>

definition sample_env :: env where
  "sample_env = \<lparr>time_now = 0, ParseDuration = (\<lambda>_. None), new_id = (\<lambda>_. ''1'')\<rparr>"

definition empty_store :: Store where
  "empty_store = \<lparr>st_rules = [], st_whitelist = [], st_faults = []\<rparr>"

definition dns_request :: RuleRequest where
  "dns_request = empty_request\<lparr>q_Protocol := ''udp'', q_DstPort := 53, q_Action := ''drop''\<rparr>"

definition wildcard_request :: RuleRequest where
  "wildcard_request = empty_request\<lparr>q_Action := ''drop''\<rparr>"

lemmas request_checks = check_fields_def and_check_def stop_if_def normalizeDecoder_def normalizeDecoderInternal_def
  check_action_def validateIPFields_def validateAndNormalizeIPField_def validateRuleScalarBounds_def validateProtocol_def
  validProtocols_def validatePortProtocolCompat_def portlessProtocols_def validatePktLenRule_def derefInt_def derefString_def
  overlap_check_def check_anomaly_def validateAnomalyFields_def validateAnomalyEffective_def lookup_tuple_def expiry_def stored_protocol_def
  empty_request_def

lemmas store_evals = repo_GetByTuple_def repo_Create_def db_query_def db_write_def insert_row_def empty_store_def

lemma create_dns:
  "CreateRule sample_env dns_request empty_store =
     (let r = rule_of_request sample_env 0 None dns_request in (Inr r, [SyncAddRule r], empty_store\<lparr>st_rules := [r]\<rparr>))"
  by (simp add: CreateRule_def request_checks store_evals dns_request_def sample_env_def rule_of_request_def)

lemma create_wildcard:
  "CreateRule sample_env wildcard_request empty_store =
     (let r = rule_of_request sample_env 0 None wildcard_request in (Inr r, [SyncAddRule r], empty_store\<lparr>st_rules := [r]\<rparr>))"
  by (simp add: CreateRule_def request_checks store_evals wildcard_request_def sample_env_def rule_of_request_def)

abbreviation (input) dns_rule where
  "dns_rule \<equiv> rule_of_request sample_env 0 None dns_request"

abbreviation (input) dns_store where
  "dns_store \<equiv> empty_store\<lparr>st_rules := [dns_rule]\<rparr>"

lemma dns_reachable: "ctl_reachable dns_store"
proof -
  have e: "ctl_reachable empty_store" unfolding empty_store_def by (rule ctl_reachable.start)
  have "ctl_step empty_store [SyncAddRule dns_rule] dns_store"
    by (rule ctl_step.create [of sample_env dns_request]) (simp add: create_dns Let_def)
  then show ?thesis by (rule ctl_reachable.step [OF e])
qed

section \<open>The store\<close>



section \<open>A node and the stored rules\<close>

lemma dns_valid: "valid_rule dns_rule"
  using reachable_store_ok [OF dns_reachable] by (simp add: store_ok_def rows_ok_def)

text \<open>C6. A node accepts what the controller stores, but for one case. A stored rule reaches a node as the
  JSON object it decodes to the same fields, in range, with an action the node knows. A rule with a prefix
  always passes the node's checks, its prefixes unchanged. A rule without one passes them exactly when it
  names a source or destination address other than the wildcards 0.0.0.0 and ::, or a port, or a protocol.\<close>

theorem node_accepts_stored:
  assumes "ctl_reachable st" "r \<in> set (st_rules st)"
  shows "decode_rule (ToNodeRule r) = Some (node_rule r) \<and> sync_action (node_rule r) \<noteq> None \<and>
    (if c_SrcCIDR r = [] \<and> c_DstCIDR r = [] then sync_exact_checks (node_rule r) \<noteq> None \<longleftrightarrow> effective_rule r
     else \<exists>m v. sync_cidr_checks (node_rule r) = Some (c_SrcCIDR r, c_DstCIDR r, m, v))"
proof -
  have v: "valid_rule r" using reachable_store_ok [OF assms(1)] rows_okD(2) assms(2) by (auto simp: store_ok_def)
  have "decode_rule (ToNodeRule r) = Some (node_rule r)" by (rule decode_ToNodeRule) (use v in \<open>simp add: valid_rule_def\<close>)
  with node_action [OF v] node_exact_checks [OF v] node_cidr_checks [OF v] show ?thesis by auto
qed

theorem node_accepts_stored_witness:
  "decode_rule (ToNodeRule dns_rule) = Some (node_rule dns_rule) \<and> sync_exact_checks (node_rule dns_rule) \<noteq> None"
proof -
  have r: "c_SrcCIDR dns_rule = []" "c_DstCIDR dns_rule = []" "c_DstPort dns_rule = 53"
    by (simp_all add: rule_of_request_def dns_request_def empty_request_def)
  have "effective_rule dns_rule" unfolding effective_rule_def r(3) by simp
  with node_accepts_stored [OF dns_reachable, of dns_rule] r show ?thesis by simp
qed

text \<open>C7. One rule without any condition blocks every full sync. The controller accepts the request that only
  says drop, and stores a rule for it; as soon as that rule is anywhere in a rule set, the atomic sync of
  the set is refused by every node in every state, whatever the kernel does.\<close>

theorem wildcard_rule_blocks_sync:
  "\<exists>rule. fst (CreateRule sample_env wildcard_request empty_store) = Inr rule \<and>
     (\<forall>K fresh pre post (h :: ('m, 'c, 't) Handlers). \<exists>n.
        snd (fst (DoAtomicSync K fresh (pre @ node_rule rule # post) h)) = Some (SyncRulesFailed n))"
proof -
  let ?r = "rule_of_request sample_env 0 None wildcard_request"
  have f: "c_SrcCIDR ?r = []" "c_DstCIDR ?r = []" "c_SrcIP ?r = []" "c_DstIP ?r = []" "c_SrcPort ?r = 0" "c_DstPort ?r = 0"
    "c_Protocol ?r = ''all''"
    by (simp_all add: rule_of_request_def wildcard_request_def empty_request_def stored_protocol_def)
  have ok: "store_ok empty_store" by (simp add: empty_store_def store_ok_def rows_ok_def entries_ok_def)
  have "store_ok (empty_store\<lparr>st_rules := [?r]\<rparr>)"
    by (rule CreateRule_ok [OF ok create_wildcard [unfolded Let_def]])
  then have v: "valid_rule ?r" by (simp add: store_ok_def rows_ok_def)
  have "\<not> effective_rule ?r" unfolding effective_rule_def address_set_def f by simp
  then have "sync_exact_checks (node_rule ?r) = None" using node_exact_checks [OF v f(1,2)] by blast
  then have "\<exists>n. snd (fst (DoAtomicSync K fresh (pre @ node_rule ?r # post) h)) = Some (SyncRulesFailed n)"
    for K fresh pre post and h :: "('m, 'c, 't) Handlers"
    by (intro DoAtomicSync_refused [of "node_rule ?r"]) (simp_all only: node_rule_simps f, simp)
  then show ?thesis by (intro exI [of _ ?r]) (simp add: create_wildcard Let_def)
qed

lemma rule_view_Some:
  assumes "distinct (map c_ID rows)"
  shows "rule_view rows rid = Some x \<longleftrightarrow> (\<exists>r \<in> set rows. c_ID r = rid \<and> c_Enabled r \<and> x = node_rule r)"
  using assms
proof (induction rows)
  case (Cons r rows)
  then have IH: "rule_view rows rid = Some x \<longleftrightarrow> (\<exists>r \<in> set rows. c_ID r = rid \<and> c_Enabled r \<and> x = node_rule r)" by simp
  show ?case
  proof (cases "c_ID r = rid")
    case True
    then have "\<forall>q \<in> set rows. c_ID q \<noteq> rid" using Cons.prems by (auto simp: image_iff)
    with True show ?thesis by auto
  next
    case False
    then have "rule_view (r # rows) rid = rule_view rows rid" by simp
    with False IH show ?thesis by simp
  qed
qed simp



section \<open>Overlaps\<close>

text \<open>C38. The two overlap checks are the same function. On canonical prefixes, which is all the controller
  stores and sends, the check of the controller before it accepts a rule and the check of a node before it
  takes it in name the same conflicting prefix, or none, although one compares mask lengths first and the
  other looks for containment in either direction.\<close>

theorem overlap_checks_agree:
  assumes "normal_cidr c" "\<forall>e \<in> set es. normal_cidr e"
  shows "CheckOverlap c es = Inr (findCIDROverlap c es)"
proof -
  obtain ip n where p: "net_ParseCIDR c = Some (ip, n)" using assms(1) by (elim normal_cidr_view) blast
  then show ?thesis using findCIDROverlap_loop [OF assms(1) p assms(2)] by (simp add: CheckOverlap_def)
qed

theorem overlap_checks_agree_witness:
  "CheckOverlap ''10.0.0.0/8'' [''10.1.0.0/16''] = Inr (findCIDROverlap ''10.0.0.0/8'' [''10.1.0.0/16''])"
proof -
  obtain ip where p: "net_ParseCIDR ''10.1.0.0/16'' = Some (ip, sample_net16)" using ParseCIDR_sample16(1) by blast
  have "normal_cidr ''10.1.0.0/16''" using p ParseCIDR_sample16(2) by (simp add: normal_cidr_def NormalizeCIDR_def)
  moreover have "normal_cidr ''10.0.0.0/8''" using sample_normal by (simp add: normal_cidr_def)
  ultimately show ?thesis by (intro overlap_checks_agree) simp_all
qed

end
