(* ===== verification/NodeClient.thy ===== *)
theory NodeClient
  imports CtlModel
begin

text \<open>
  The controller's client of the node API (\<^verbatim>\<open>controller/internal/client/node_client.go\<close>). What is at the
  other end, network and node, is a state and a function that answers one request and changes the state.
  The client sees of an answer its status code and the fields of its JSON body.
\<close>

section \<open>Requests and answers\<close>

datatype request =
    GetStats
  | GetRules
  | GetWhitelist
  | PostRule json_object
  | DeleteRuleReq string
  | PostRulesBatch "json_object list"
  | DeleteRulesBatchReq "string list"
  | PostWhitelist json_object
  | DeleteWhitelistReq string
  | PostWhitelistBatch "json_object list"
  | DeleteWhitelistBatchReq "string list"
  | PostSyncWhitelist "json_object list"
  | PostSyncAtomic "json_object list"

record Response =
  rs_Success :: bool
  rs_Message :: string
  rs_Error :: string
  rs_RuleID :: string
  rs_ID :: string
  rs_Added :: int
  rs_Failed :: int
  rs_Deleted :: int

text \<open>The fields of a JSON body; an absent field has its zero value.\<close>

record answer =
  an_response :: Response
  an_rules :: "json_object list"
  an_entries :: "json_object list"
  an_stats :: json_object

definition zero_response :: Response where
  "zero_response = \<lparr>rs_Success = False, rs_Message = [], rs_Error = [], rs_RuleID = [], rs_ID = [], rs_Added = 0,
     rs_Failed = 0, rs_Deleted = 0\<rparr>"

definition zero_answer :: answer where
  "zero_answer = \<lparr>an_response = zero_response, an_rules = [], an_entries = [], an_stats = []\<rparr>"

text \<open>No answer (with the error of the transport), or a status, the text of the body and what it parses to.\<close>

datatype http_reply = NoReply string | Reply int string "answer option"

record 's endpoint =
  http :: "request \<Rightarrow> 's \<Rightarrow> http_reply \<times> 's"

datatype client_error =
    TransportError string
  | HttpStatus int string
  | Undecodable

definition client_error_text :: "client_error \<Rightarrow> string" where
  "client_error_text e =
     (case e of
        TransportError s \<Rightarrow> s
      | HttpStatus n body \<Rightarrow> ''node returned HTTP '' @ itoa (nat n) @ '': '' @ body
      | Undecodable \<Rightarrow> ''failed to decode response'')"

section \<open>One request\<close>

text \<open>\<^verbatim>\<open>post\<close>, \<^verbatim>\<open>delete\<close> and \<^verbatim>\<open>doDelete\<close> read an answer in the same way.\<close>

definition read_reply :: "http_reply \<Rightarrow> client_error + answer" where
  "read_reply rep =
     (case rep of
        NoReply e \<Rightarrow> Inl (TransportError e)
      | Reply status body parsed \<Rightarrow>
          if status < 200 \<or> status \<ge> 300 then Inl (HttpStatus status body)
          else case parsed of None \<Rightarrow> Inl Undecodable | Some a \<Rightarrow> Inr a)"

definition client_post :: "'s endpoint \<Rightarrow> request \<Rightarrow> 's \<Rightarrow> (client_error + Response) \<times> 's" where
  "client_post A req s = (let (rep, s1) = http A req s in (map_sum id an_response (read_reply rep), s1))"

definition client_delete :: "'s endpoint \<Rightarrow> request \<Rightarrow> 's \<Rightarrow> (client_error + Response) \<times> 's" where
  "client_delete A req s = (let (rep, s1) = http A req s in (map_sum id an_response (read_reply rep), s1))"

definition client_doDelete :: "'s endpoint \<Rightarrow> request \<Rightarrow> 's \<Rightarrow> (client_error + Response) \<times> 's" where
  "client_doDelete A req s = (let (rep, s1) = http A req s in (map_sum id an_response (read_reply rep), s1))"

text \<open>The reads take only status 200.\<close>

definition client_get :: "'s endpoint \<Rightarrow> request \<Rightarrow> 's \<Rightarrow> (client_error + answer) \<times> 's" where
  "client_get A req s =
     (case http A req s of
        (NoReply e, s1) \<Rightarrow> (Inl (TransportError e), s1)
      | (Reply status body parsed, s1) \<Rightarrow>
          (if status \<noteq> 200 then Inl (HttpStatus status body)
           else case parsed of None \<Rightarrow> Inl Undecodable | Some a \<Rightarrow> Inr a, s1))"

definition client_Ping :: "'s endpoint \<Rightarrow> 's \<Rightarrow> client_error option \<times> 's" where
  "client_Ping A s =
     (case http A GetStats s of
        (NoReply e, s1) \<Rightarrow> (Some (TransportError e), s1)
      | (Reply status body parsed, s1) \<Rightarrow> (if status \<noteq> 200 then Some (HttpStatus status body) else None, s1))"

definition client_GetStats :: "'s endpoint \<Rightarrow> 's \<Rightarrow> (client_error + json_object) \<times> 's" where
  "client_GetStats A s = (let (r, s1) = client_get A GetStats s in (map_sum id an_stats r, s1))"

definition client_AddRule :: "'s endpoint \<Rightarrow> json_object \<Rightarrow> 's \<Rightarrow> (client_error + Response) \<times> 's" where
  "client_AddRule A rule = client_post A (PostRule rule)"

definition client_DeleteRule :: "'s endpoint \<Rightarrow> string \<Rightarrow> 's \<Rightarrow> (client_error + Response) \<times> 's" where
  "client_DeleteRule A rid = client_delete A (DeleteRuleReq rid)"

definition client_AddRulesBatch :: "'s endpoint \<Rightarrow> json_object list \<Rightarrow> 's \<Rightarrow> (client_error + Response) \<times> 's" where
  "client_AddRulesBatch A rs = client_post A (PostRulesBatch rs)"

definition client_DeleteRulesBatch :: "'s endpoint \<Rightarrow> string list \<Rightarrow> 's \<Rightarrow> (client_error + Response) \<times> 's" where
  "client_DeleteRulesBatch A ids = client_doDelete A (DeleteRulesBatchReq ids)"

definition client_AddWhitelist :: "'s endpoint \<Rightarrow> json_object \<Rightarrow> 's \<Rightarrow> (client_error + Response) \<times> 's" where
  "client_AddWhitelist A e = client_post A (PostWhitelist e)"

definition client_DeleteWhitelist :: "'s endpoint \<Rightarrow> string \<Rightarrow> 's \<Rightarrow> (client_error + Response) \<times> 's" where
  "client_DeleteWhitelist A wid = client_delete A (DeleteWhitelistReq wid)"

definition client_AddWhitelistBatch :: "'s endpoint \<Rightarrow> json_object list \<Rightarrow> 's \<Rightarrow> (client_error + Response) \<times> 's" where
  "client_AddWhitelistBatch A es = client_post A (PostWhitelistBatch es)"

definition client_DeleteWhitelistBatch :: "'s endpoint \<Rightarrow> string list \<Rightarrow> 's \<Rightarrow> (client_error + Response) \<times> 's" where
  "client_DeleteWhitelistBatch A ids = client_doDelete A (DeleteWhitelistBatchReq ids)"

definition client_SyncWhitelist :: "'s endpoint \<Rightarrow> json_object list \<Rightarrow> 's \<Rightarrow> (client_error + Response) \<times> 's" where
  "client_SyncWhitelist A es = client_post A (PostSyncWhitelist es)"

definition client_AtomicSync :: "'s endpoint \<Rightarrow> json_object list \<Rightarrow> 's \<Rightarrow> (client_error + Response) \<times> 's" where
  "client_AtomicSync A rs = client_post A (PostSyncAtomic rs)"

text \<open>A listed item whose ID is no string cannot be decoded into the typed list.\<close>

fun decode_ids :: "json_object list \<Rightarrow> client_error + string list" where
  "decode_ids [] = Inr []"
| "decode_ids (x # xs) =
     (case json_string ''id'' x of
        None \<Rightarrow> Inl Undecodable
      | Some i \<Rightarrow> (case decode_ids xs of Inl e \<Rightarrow> Inl e | Inr is \<Rightarrow> Inr (i # is)))"

definition client_GetRuleIDs :: "'s endpoint \<Rightarrow> 's \<Rightarrow> (client_error + string list) \<times> 's" where
  "client_GetRuleIDs A s =
     (case client_get A GetRules s of
        (Inl e, s1) \<Rightarrow> (Inl e, s1)
      | (Inr a, s1) \<Rightarrow> (decode_ids (an_rules a), s1))"

definition client_GetWhitelistIDs :: "'s endpoint \<Rightarrow> 's \<Rightarrow> (client_error + string list) \<times> 's" where
  "client_GetWhitelistIDs A s =
     (case client_get A GetWhitelist s of
        (Inl e, s1) \<Rightarrow> (Inl e, s1)
      | (Inr a, s1) \<Rightarrow> (decode_ids (an_entries a), s1))"

text \<open>The snapshots for a rollback; statistics are taken out of a rule.\<close>

definition client_GetRulesRaw :: "'s endpoint \<Rightarrow> 's \<Rightarrow> (client_error + json_object list) \<times> 's" where
  "client_GetRulesRaw A s =
     (let (r, s1) = client_get A GetRules s
      in (map_sum id (\<lambda>a. map (filter (\<lambda>(k, v). k \<noteq> ''stats'')) (an_rules a)) r, s1))"

definition client_GetWhitelistRaw :: "'s endpoint \<Rightarrow> 's \<Rightarrow> (client_error + json_object list) \<times> 's" where
  "client_GetWhitelistRaw A s = (let (r, s1) = client_get A GetWhitelist s in (map_sum id an_entries r, s1))"

section \<open>The legacy full sync\<close>

text \<open>
  The two halves of \<^verbatim>\<open>FullSync\<close> and of \<^verbatim>\<open>DiffSync\<close>, for rules and for whitelist entries, are the same code
  over two groups of four calls.
\<close>

record 's item_api =
  it_raw :: "'s \<Rightarrow> (client_error + json_object list) \<times> 's"
  it_ids :: "'s \<Rightarrow> (client_error + string list) \<times> 's"
  it_delete :: "string list \<Rightarrow> 's \<Rightarrow> (client_error + Response) \<times> 's"
  it_add :: "json_object list \<Rightarrow> 's \<Rightarrow> (client_error + Response) \<times> 's"

definition rules_api :: "'s endpoint \<Rightarrow> 's item_api" where
  "rules_api A = \<lparr>it_raw = client_GetRulesRaw A, it_ids = client_GetRuleIDs A, it_delete = client_DeleteRulesBatch A,
     it_add = client_AddRulesBatch A\<rparr>"

definition whitelist_api :: "'s endpoint \<Rightarrow> 's item_api" where
  "whitelist_api A = \<lparr>it_raw = client_GetWhitelistRaw A, it_ids = client_GetWhitelistIDs A,
     it_delete = client_DeleteWhitelistBatch A, it_add = client_AddWhitelistBatch A\<rparr>"

datatype add_failure = AddError client_error | AddPartial int nat

datatype client_sync_error =
    SnapshotFailed client_error
  | DeleteFailed client_error
  | DeletePartial int nat
  | AddFailed add_failure
  | PrecleanFailed add_failure client_error
  | PrecleanPartial add_failure int nat
  | RollbackFailed add_failure client_error
  | RollbackPartial add_failure int nat
  | RolledBack add_failure nat
  | ListFailed client_error

text \<open>The IDs of raw items; an item whose ID is no string is left out.\<close>

definition raw_ids :: "json_object list \<Rightarrow> string list" where
  "raw_ids xs = List.map_filter (\<lambda>x. case map_of x ''id'' of Some (JString i) \<Rightarrow> Some i | _ \<Rightarrow> None) xs"

definition clear_items :: "'s item_api \<Rightarrow> json_object list \<Rightarrow> 's \<Rightarrow> client_sync_error option \<times> 's" where
  "clear_items P snapshot s =
     (if snapshot = [] then (None, s)
      else case it_delete P (raw_ids snapshot) s of
             (Inl e, s1) \<Rightarrow> (Some (DeleteFailed e), s1)
           | (Inr resp, s1) \<Rightarrow>
               (if rs_Failed resp > 0 then Some (DeletePartial (rs_Failed resp) (length (raw_ids snapshot))) else None, s1))"

definition add_verdict :: "client_error + Response \<Rightarrow> nat \<Rightarrow> add_failure option" where
  "add_verdict r n =
     (case r of
        Inl e \<Rightarrow> Some (AddError e)
      | Inr resp \<Rightarrow> if rs_Failed resp > 0 then Some (AddPartial (rs_Failed resp) n) else None)"

text \<open>What is left of a partial addition is removed first; a listing that fails is ignored.\<close>

definition preclean :: "'s item_api \<Rightarrow> add_failure \<Rightarrow> 's \<Rightarrow> client_sync_error option \<times> 's" where
  "preclean P f s =
     (case it_ids P s of
        (Inl _, s1) \<Rightarrow> (None, s1)
      | (Inr currentIDs, s1) \<Rightarrow>
          if currentIDs = [] then (None, s1)
          else case it_delete P currentIDs s1 of
                 (Inl e, s2) \<Rightarrow> (Some (PrecleanFailed f e), s2)
               | (Inr resp, s2) \<Rightarrow>
                   (if rs_Failed resp > 0 then Some (PrecleanPartial f (rs_Deleted resp) (length currentIDs)) else None, s2))"

definition restore_snapshot :: "'s item_api \<Rightarrow> add_failure \<Rightarrow> json_object list \<Rightarrow> 's \<Rightarrow> client_sync_error \<times> 's" where
  "restore_snapshot P f snapshot s =
     (case preclean P f s of
        (Some e, s1) \<Rightarrow> (e, s1)
      | (None, s1) \<Rightarrow>
          (case it_add P snapshot s1 of
             (Inl e, s2) \<Rightarrow> (RollbackFailed f e, s2)
           | (Inr resp, s2) \<Rightarrow>
               (if rs_Failed resp > 0 then RollbackPartial f (rs_Added resp) (length snapshot)
                else RolledBack f (length snapshot), s2)))"

definition replace_items :: "'s item_api \<Rightarrow> json_object list \<Rightarrow> 's \<Rightarrow> client_sync_error option \<times> 's" where
  "replace_items P items s =
     (case it_raw P s of
        (Inl e, s1) \<Rightarrow> (Some (SnapshotFailed e), s1)
      | (Inr snapshot, s1) \<Rightarrow>
     (case clear_items P snapshot s1 of
        (Some e, s2) \<Rightarrow> (Some e, s2)
      | (None, s2) \<Rightarrow>
          if items = [] then (None, s2)
          else case it_add P items s2 of
                 (r, s3) \<Rightarrow>
                   (case add_verdict r (length items) of
                      None \<Rightarrow> (None, s3)
                    | Some f \<Rightarrow>
                        if snapshot = [] then (Some (AddFailed f), s3)
                        else let (e, s4) = restore_snapshot P f snapshot s3 in (Some e, s4))))"

definition client_FullSync :: "'s endpoint \<Rightarrow> json_object list \<Rightarrow> json_object list \<Rightarrow> 's \<Rightarrow> client_sync_error option \<times> 's" where
  "client_FullSync A rules whitelist s =
     (case replace_items (rules_api A) rules s of
        (Some e, s1) \<Rightarrow> (Some e, s1)
      | (None, s1) \<Rightarrow> replace_items (whitelist_api A) whitelist s1)"

section \<open>The differential sync\<close>

text \<open>The target by ID, a Go map: its order stands for the order of iteration.\<close>

definition target_map :: "json_object list \<Rightarrow> (string, json_object) gomap" where
  "target_map xs =
     fold (\<lambda>x m. case map_of x ''id'' of Some (JString i) \<Rightarrow> AList.update i x m | _ \<Rightarrow> m) xs []"

text \<open>Requests of at most 1000 items; the first that fails ends the loop.\<close>

function send_batches :: "('a list \<Rightarrow> 's \<Rightarrow> 'e option \<times> 's) \<Rightarrow> 'a list \<Rightarrow> 's \<Rightarrow> 'e option \<times> 's" where
  "send_batches send xs s =
     (if xs = [] then (None, s)
      else case send (take 1000 xs) s of
             (Some e, s1) \<Rightarrow> (Some e, s1)
           | (None, s1) \<Rightarrow> send_batches send (drop 1000 xs) s1)"
  by pat_completeness auto
termination by (relation "measure (\<lambda>(_, xs, _). length xs)") auto

declare send_batches.simps [simp del]

definition delete_batch :: "'s item_api \<Rightarrow> string list \<Rightarrow> 's \<Rightarrow> client_sync_error option \<times> 's" where
  "delete_batch P ids s =
     (case it_delete P ids s of
        (Inl e, s1) \<Rightarrow> (Some (DeleteFailed e), s1)
      | (Inr resp, s1) \<Rightarrow> (if rs_Failed resp > 0 then Some (DeletePartial (rs_Failed resp) (length ids)) else None, s1))"

definition add_batch :: "'s item_api \<Rightarrow> json_object list \<Rightarrow> 's \<Rightarrow> client_sync_error option \<times> 's" where
  "add_batch P xs s = (let (r, s1) = it_add P xs s in (map_option AddFailed (add_verdict r (length xs)), s1))"

definition diff_items :: "'s item_api \<Rightarrow> json_object list \<Rightarrow> 's \<Rightarrow> client_sync_error option \<times> 's" where
  "diff_items P targets s =
     (let target = target_map targets
      in case it_ids P s of
           (Inl e, s1) \<Rightarrow> (Some (ListFailed e), s1)
         | (Inr ids, s1) \<Rightarrow>
             (let toDelete = filter (\<lambda>i. map_of target i = None) ids;
                  toAdd = map snd (filter (\<lambda>(i, x). i \<notin> set ids) target)
              in case send_batches (delete_batch P) toDelete s1 of
                   (Some e, s2) \<Rightarrow> (Some e, s2)
                 | (None, s2) \<Rightarrow> send_batches (add_batch P) toAdd s2))"

definition client_DiffSync :: "'s endpoint \<Rightarrow> json_object list \<Rightarrow> json_object list \<Rightarrow> 's \<Rightarrow> client_sync_error option \<times> 's" where
  "client_DiffSync A targetRules targetWhitelist s =
     (case diff_items (rules_api A) targetRules s of
        (Some e, s1) \<Rightarrow> (Some e, s1)
      | (None, s1) \<Rightarrow> diff_items (whitelist_api A) targetWhitelist s1)"

end
