(* ===== verification/ItemSync.thy ===== *)
theory ItemSync
  imports NodeClient
begin

text \<open>
  What a full and a differential sync promise of the node, from a contract of its four calls: which IDs it
  holds after a call, as far as the answer tells. The calls may fail at any time, with or without an answer.
\<close>

section \<open>Items with their IDs\<close>

definition named :: "json_object list \<Rightarrow> string list \<Rightarrow> bool" where
  "named xs is \<longleftrightarrow> map (\<lambda>x. map_of x ''id'') xs = map (\<lambda>i. Some (JString i)) is \<and> distinct is \<and> [] \<notin> set is"

lemma named_simps [simp]:
  "named [] is \<longleftrightarrow> is = []"
  "named (x # xs) is \<longleftrightarrow> (\<exists>i js. is = i # js \<and> map_of x ''id'' = Some (JString i) \<and> i \<notin> set js \<and> i \<noteq> [] \<and> named xs js)"
  by (auto simp: named_def Cons_eq_map_conv)

lemma named_length: "named xs is \<Longrightarrow> length is = length xs"
  by (metis named_def length_map)

lemma named_raw_ids: "named xs is \<Longrightarrow> raw_ids xs = is"
  by (induction xs arbitrary: "is") (auto simp: raw_ids_def List.map_filter_simps)

lemma named_take: "named xs is \<Longrightarrow> named (take n xs) (take n is)"
  by (auto simp: named_def take_map [symmetric] dest: in_set_takeD)

lemma named_drop: "named xs is \<Longrightarrow> named (drop n xs) (drop n is)"
  by (auto simp: named_def drop_map [symmetric] dest: in_set_dropD)

lemma named_filter:
  "named xs is \<Longrightarrow> named (map snd (filter (\<lambda>(i, x). Q i) (zip is xs))) (filter Q is)"
  by (induction xs arbitrary: "is") auto

text \<open>The target map of named items has them in their order.\<close>

lemma update_fresh_item: "i \<notin> fst ` set m \<Longrightarrow> AList.update i x m = m @ [(i, x)]"
  by (induction m) auto

lemma target_map_named:
  assumes "named xs is"
  shows "target_map xs = zip is xs"
proof -
  have "fold (\<lambda>x m. case map_of x ''id'' of Some (JString i) \<Rightarrow> AList.update i x m | _ \<Rightarrow> m) xs m = m @ zip is xs"
    if "named xs is" "\<forall>i \<in> set is. i \<notin> fst ` set m" for m
    using that
  proof (induction xs arbitrary: "is" m)
    case (Cons x xs)
    then obtain i js where i: "is = i # js" "map_of x ''id'' = Some (JString i)" "i \<notin> set js" "named xs js" by auto
    have "fold (\<lambda>x m. case map_of x ''id'' of Some (JString i) \<Rightarrow> AList.update i x m | _ \<Rightarrow> m) xs (m @ [(i, x)]) =
        (m @ [(i, x)]) @ zip js xs"
      by (rule Cons.IH [OF i(4)]) (use Cons.prems(2) i in auto)
    moreover have "AList.update i x m = m @ [(i, x)]" using Cons.prems(2) i(1) by (intro update_fresh_item) auto
    ultimately show ?case using i by simp
  qed simp
  from this [of "[]"] assms show ?thesis by (simp add: target_map_def)
qed

section \<open>The contract of a kind of items\<close>

text \<open>
  \<open>held\<close> are the IDs on the node; \<open>ok n\<close> is an invariant of the node that still has room for \<open>n\<close> additions.
\<close>

locale item_store =
  fixes P :: "'s item_api" and held :: "'s \<Rightarrow> string set" and ok :: "nat \<Rightarrow> 's \<Rightarrow> bool"
  assumes ok_mono: "ok n s \<Longrightarrow> m \<le> n \<Longrightarrow> ok m s"
    and raw_law: "ok n s \<Longrightarrow> it_raw P s = (r, s') \<Longrightarrow>
      ok n s' \<and> held s' = held s \<and> (\<forall>xs. r = Inr xs \<longrightarrow> (\<exists>is. named xs is \<and> set is = held s))"
    and ids_law: "ok n s \<Longrightarrow> it_ids P s = (q, s') \<Longrightarrow>
      ok n s' \<and> held s' = held s \<and> (\<forall>is. q = Inr is \<longrightarrow> set is = held s)"
    and delete_law: "ok n s \<Longrightarrow> it_delete P js s = (d, s') \<Longrightarrow>
      ok n s' \<and> held s' \<subseteq> held s \<and> held s - set js \<subseteq> held s' \<and>
      (\<forall>resp. d = Inr resp \<longrightarrow> rs_Failed resp \<le> 0 \<longrightarrow> held s' = held s - set js)"
    and add_law: "ok (n + length xs) s \<Longrightarrow> named xs js \<Longrightarrow> it_add P xs s = (d, s') \<Longrightarrow>
      held s' \<subseteq> held s \<union> set js \<and> (set js \<inter> held s = {} \<longrightarrow> ok n s' \<and> held s \<subseteq> held s') \<and>
      (\<forall>resp. d = Inr resp \<longrightarrow> rs_Failed resp \<le> 0 \<longrightarrow> held s' = held s \<union> set js)"
begin

lemma delete_batches:
  "ok n s \<Longrightarrow> send_batches (delete_batch P) js s = (None, s') \<Longrightarrow> ok n s' \<and> held s' = held s - set js"
proof (induction "delete_batch P" js s rule: send_batches.induct)
  case (1 js s)
  show ?case
  proof (cases "js = []")
    case True
    with 1(2,3) show ?thesis by (simp add: send_batches.simps)
  next
    case False
    obtain e s1 where d: "delete_batch P (take 1000 js) s = (e, s1)" by force
    have e: "e = None" and r: "send_batches (delete_batch P) (drop 1000 js) s1 = (None, s')"
      using 1(3) d False by (auto simp: send_batches.simps [of _ js] split: option.splits)
    obtain x where x: "it_delete P (take 1000 js) s = (x, s1)" "\<exists>resp. x = Inr resp \<and> rs_Failed resp \<le> 0"
      using d e by (auto simp: delete_batch_def split: prod.splits sum.splits if_splits)
    have k: "ok n s1" "held s1 = held s - set (take 1000 js)" using delete_law [OF 1(2) x(1)] x(2) by blast+
    have "set js = set (take 1000 js) \<union> set (drop 1000 js)" by (metis append_take_drop_id set_append)
    with 1(1) [OF False d [unfolded e, symmetric] refl k(1) r] k(2) show ?thesis by auto
  qed
qed

lemma add_batches:
  "ok (n + length xs) s \<Longrightarrow> named xs js \<Longrightarrow> set js \<inter> held s = {} \<Longrightarrow> send_batches (add_batch P) xs s = (None, s') \<Longrightarrow>
   ok n s' \<and> held s' = held s \<union> set js"
proof (induction "add_batch P" xs s arbitrary: js rule: send_batches.induct)
  case (1 xs s)
  show ?case
  proof (cases "xs = []")
    case True
    with 1 show ?thesis by (simp add: send_batches.simps)
  next
    case False
    obtain e s1 where d: "add_batch P (take 1000 xs) s = (e, s1)" by force
    have e: "e = None" and r: "send_batches (add_batch P) (drop 1000 xs) s1 = (None, s')"
      using 1(5) d False by (auto simp: send_batches.simps [of _ xs] split: option.splits)
    obtain x where x: "it_add P (take 1000 xs) s = (x, s1)" "\<exists>resp. x = Inr resp \<and> rs_Failed resp \<le> 0"
      using d e by (auto simp: add_batch_def add_verdict_def split: prod.splits sum.splits if_splits)
    have sp: "set js = set (take 1000 js) \<union> set (drop 1000 js)" "set (take 1000 js) \<inter> set (drop 1000 js) = {}"
      using 1(3) by (metis append_take_drop_id set_append) (use 1(3) in \<open>simp add: named_def set_take_disj_set_drop_if_distinct\<close>)
    have "ok ((n + length (drop 1000 xs)) + length (take 1000 xs)) s" using 1(2) ok_mono by simp
    from add_law [OF this named_take [OF 1(3)] x(1)]
    have k: "ok (n + length (drop 1000 xs)) s1" "held s1 = held s \<union> set (take 1000 js)"
      using x(2) 1(4) sp(1) by blast+
    have "set (drop 1000 js) \<inter> held s1 = {}" using k(2) 1(4) sp by blast
    from 1(1) [OF False d [unfolded e, symmetric] refl k(1) named_drop [OF 1(3)] this r] k(2) sp(1)
    show ?thesis by blast
  qed
qed

text \<open>A differential sync that reports success has made the node hold exactly the IDs of the target.\<close>

lemma diff_items_converges:
  assumes "ok (length targets) s" "named targets js" "diff_items P targets s = (None, s')"
  shows "held s' = set js" "ok 0 s'"
proof -
  obtain q s1 where g: "it_ids P s = (q, s1)" by force
  then obtain cur where q: "q = Inr cur" using assms(3) by (cases q) (auto simp: diff_items_def Let_def)
  have l: "ok (length targets) s1" "held s1 = held s" "set cur = held s" using ids_law [OF assms(1) g] q by blast+
  note t = target_map_named [OF assms(2)]
  have len: "length js = length targets" using named_length [OF assms(2)] .
  have del: "filter (\<lambda>i. map_of (zip js targets) i = None) cur = filter (\<lambda>i. i \<notin> set js) cur"
    using len by (intro filter_cong refl) (metis map_of_zip_is_None)
  let ?add = "map snd (filter (\<lambda>(i, x). i \<notin> set cur) (zip js targets))"
  obtain e s2 where d: "send_batches (delete_batch P) (filter (\<lambda>i. i \<notin> set js) cur) s1 = (e, s2)" by force
  have e: "e = None" and a: "send_batches (add_batch P) ?add s2 = (None, s')"
    using assms(3) g q t d del by (auto simp: diff_items_def Let_def split: option.splits)
  from delete_batches [OF l(1) d [unfolded e]] have k: "ok (length targets) s2" "held s2 = held s \<inter> set js"
    using l(2,3) by auto
  have nm: "named ?add (filter (\<lambda>i. i \<notin> set cur) js)" using named_filter [OF assms(2), of "\<lambda>i. i \<notin> set cur"] .
  have "length ?add \<le> length targets" using named_length [OF nm] len by (metis length_filter_le)
  then have o: "ok (0 + length ?add) s2" using ok_mono [OF k(1)] by simp
  have dj: "set (filter (\<lambda>i. i \<notin> set cur) js) \<inter> held s2 = {}" using k(2) l(3) by auto
  from add_batches [OF o nm dj a] have "ok 0 s'" "held s' = held s2 \<union> {i \<in> set js. i \<notin> set cur}" by auto
  then show "held s' = set js" "ok 0 s'" using k(2) l(3) by auto
qed

text \<open>A full sync: what holds of the node for each outcome.\<close>

lemma clear_items_cases:
  assumes "ok n s" "named snapshot js" "set js = held s" "clear_items P snapshot s = (e, s')"
  shows "ok n s'" "held s' \<subseteq> held s" "e = None \<Longrightarrow> held s' = {}"
proof -
  have "ok n s' \<and> held s' \<subseteq> held s \<and> (e = None \<longrightarrow> held s' = {})"
  proof (cases "snapshot = []")
    case True
    with assms show ?thesis by (auto simp: clear_items_def)
  next
    case False
    obtain d s1 where d: "it_delete P (raw_ids snapshot) s = (d, s1)" by force
    have e: "s' = s1" "e = None \<Longrightarrow> \<exists>resp. d = Inr resp \<and> rs_Failed resp \<le> 0"
      using assms(4) d False by (auto simp: clear_items_def split: sum.splits if_splits)
    from delete_law [OF assms(1) d] e assms(3) named_raw_ids [OF assms(2)] show ?thesis by auto
  qed
  then show "ok n s'" "held s' \<subseteq> held s" "e = None \<Longrightarrow> held s' = {}" by blast+
qed

lemma preclean_cases:
  assumes "ok n s" "preclean P f s = (e, s')"
  shows "ok n s'" "held s' \<subseteq> held s" "e \<noteq> Some (RolledBack g k)"
proof -
  obtain q s1 where g: "it_ids P s = (q, s1)" by force
  note l = ids_law [OF assms(1) g]
  have "ok n s' \<and> held s' \<subseteq> held s \<and> e \<noteq> Some (RolledBack g k)"
  proof (cases "\<exists>cur. q = Inr cur \<and> cur \<noteq> []")
    case False
    then have "s' = s1 \<and> e = None" using assms(2) g by (auto simp: preclean_def split: sum.splits)
    with l show ?thesis by simp
  next
    case True
    then obtain cur where q: "q = Inr cur" "cur \<noteq> []" by blast
    obtain d s2 where d: "it_delete P cur s1 = (d, s2)" by force
    have "s' = s2 \<and> e \<noteq> Some (RolledBack g k)" using assms(2) g q d by (auto simp: preclean_def split: sum.splits if_splits)
    with delete_law [OF _ d] l show ?thesis by blast
  qed
  then show "ok n s'" "held s' \<subseteq> held s" "e \<noteq> Some (RolledBack g k)" by blast+
qed

lemma restore_snapshot_cases:
  assumes "ok (n + length snapshot) s" "named snapshot js" "restore_snapshot P f snapshot s = (e, s')"
  shows "held s' \<subseteq> held s \<union> set js" "e = RolledBack g k \<Longrightarrow> set js \<subseteq> held s' \<and> k = length snapshot"
proof -
  obtain e1 s1 where p: "preclean P f s = (e1, s1)" by force
  note c = preclean_cases [OF assms(1) p]
  have "held s' \<subseteq> held s \<union> set js \<and> (e = RolledBack g k \<longrightarrow> set js \<subseteq> held s' \<and> k = length snapshot)"
  proof (cases e1)
    case (Some e2)
    with assms(3) p have "e = e2 \<and> s' = s1" by (simp add: restore_snapshot_def)
    with c Some show ?thesis by auto
  next
    case None
    obtain d s2 where d: "it_add P snapshot s1 = (d, s2)" by force
    have e: "s' = s2" "e = RolledBack g k \<Longrightarrow> k = length snapshot \<and> (\<exists>resp. d = Inr resp \<and> rs_Failed resp \<le> 0)"
      using assms(3) p None d by (auto simp: restore_snapshot_def split: sum.splits if_splits)
    from add_law [OF c(1) assms(2) d] e c(2) show ?thesis by auto
  qed
  then show "held s' \<subseteq> held s \<union> set js" "e = RolledBack g k \<Longrightarrow> set js \<subseteq> held s' \<and> k = length snapshot" by blast+
qed

lemma replace_items_cases:
  assumes "ok (length items + card (held s)) s" "named items js" "finite (held s)" "replace_items P items s = (e, s')"
  shows "e = None \<Longrightarrow> held s' = set js \<and> ok 0 s'" "held s' \<subseteq> held s \<union> set js"
    "e = Some (SnapshotFailed c) \<Longrightarrow> held s' = held s"
    "e = Some (RolledBack f k) \<Longrightarrow> held s \<subseteq> held s' \<and> k = card (held s)"
proof -
  obtain r s1 where g: "it_raw P s = (r, s1)" by force
  note l = raw_law [OF assms(1) g]
  have "(e = None \<longrightarrow> held s' = set js \<and> ok 0 s') \<and> held s' \<subseteq> held s \<union> set js \<and> (e = Some (SnapshotFailed c) \<longrightarrow> held s' = held s) \<and>
      (e = Some (RolledBack f k) \<longrightarrow> held s \<subseteq> held s' \<and> k = card (held s))"
  proof (cases r)
    case (Inl x)
    with assms(4) g l show ?thesis by (auto simp: replace_items_def)
  next
    case (Inr snapshot)
    with l obtain ks where ks: "named snapshot ks" "set ks = held s" by blast
    have kl: "length snapshot = card (held s)" using ks named_length [OF ks(1)] by (metis distinct_card named_def)
    obtain e2 s2 where cl: "clear_items P snapshot s1 = (e2, s2)" by force
    note c2 = clear_items_cases [OF conjunct1 [OF l] ks(1) _ cl]
    have hs: "held s1 = held s" using l by blast
    show ?thesis
    proof (cases "e2 = None \<and> items \<noteq> []")
      case False
      have "s' = s2 \<and> (e = e2 \<and> e2 \<noteq> None \<or> e = None \<and> e2 = None \<and> items = [])"
        using assms(4) g Inr cl False by (auto simp: replace_items_def split: option.splits)
      moreover have "e2 \<noteq> Some (SnapshotFailed c) \<and> e2 \<noteq> Some (RolledBack f k)"
        using cl by (auto simp: clear_items_def split: if_splits sum.splits prod.splits)
      moreover have "ok 0 s2" using ok_mono [OF c2(1)] ks(2) hs by simp
      ultimately show ?thesis using c2 ks(2) hs assms(2) by auto
    next
      case True
      have h2: "held s2 = {}" using c2 True ks(2) hs by simp
      have o2: "ok (card (held s) + length items) s2" using c2(1) ks(2) hs by (simp add: add.commute)
      obtain x s3 where a: "it_add P items s2 = (x, s3)" by force
      note l3 = add_law [OF o2 assms(2) a]
      show ?thesis
      proof (cases "add_verdict x (length items)")
        case None
        have "e = None \<and> s' = s3" using assms(4) g Inr cl True a None by (auto simp: replace_items_def)
        moreover have "\<exists>resp. x = Inr resp \<and> rs_Failed resp \<le> 0" using None by (auto simp: add_verdict_def split: sum.splits if_splits)
        moreover have "ok 0 s3" using l3 h2 ok_mono [of "card (held s)" s3 0] by simp
        ultimately show ?thesis using l3 h2 by auto
      next
        case (Some fl)
        show ?thesis
        proof (cases "snapshot = []")
          case True
          have "e = Some (AddFailed fl) \<and> s' = s3" using assms(4) g Inr cl \<open>e2 = None \<and> items \<noteq> []\<close> a Some True by (auto simp: replace_items_def)
          with l3 h2 show ?thesis by auto
        next
          case False
          obtain e4 s4 where rs: "restore_snapshot P fl snapshot s3 = (e4, s4)" by force
          have e: "e = Some e4 \<and> s' = s4" using assms(4) g Inr cl True a Some False rs by (auto simp: replace_items_def)
          have o3: "ok (0 + length snapshot) s3" using l3 h2 kl by simp
          note c4 = restore_snapshot_cases [OF o3 ks(1) rs]
          have "e4 \<noteq> SnapshotFailed c"
            using rs by (auto simp: restore_snapshot_def preclean_def split: prod.splits sum.splits if_splits option.splits)
          with e c4 l3 h2 ks(2) kl show ?thesis by auto
        qed
      qed
    qed
  qed
  then show "e = None \<Longrightarrow> held s' = set js \<and> ok 0 s'" "held s' \<subseteq> held s \<union> set js"
    "e = Some (SnapshotFailed c) \<Longrightarrow> held s' = held s"
    "e = Some (RolledBack f k) \<Longrightarrow> held s \<subseteq> held s' \<and> k = card (held s)" by blast+
qed

end

end
