(* ===== verification/AgentApi.thy ===== *)
theory AgentApi
  imports NodeClient WhitelistDeleteBatch WhitelistBatchMirror BatchAdd SyncFacts
begin

text \<open>
  The node as its HTTP API shows it (\<^verbatim>\<open>node/agent/main.go\<close> and the gin handlers of \<^verbatim>\<open>node/agent/api\<close>): which
  handler answers a request, what of its reply gets into the status code and the JSON body, and the list of
  rules of \<^verbatim>\<open>rules_list.go\<close>. Between the controller and the node is a network that may lose a request or an
  answer.
\<close>

section \<open>Lists\<close>

text \<open>The marshalled form of a rule with statistics; zero fields are omitted.\<close>

definition rule_object :: "Rule \<Rightarrow> json_object" where
  "rule_object r =
     [(''id'', JString (r_ID r))] @
     opt_field (r_SrcIP r \<noteq> []) ''src_ip'' (JString (r_SrcIP r)) @
     opt_field (r_DstIP r \<noteq> []) ''dst_ip'' (JString (r_DstIP r)) @
     opt_field (r_SrcCIDR r \<noteq> []) ''src_cidr'' (JString (r_SrcCIDR r)) @
     opt_field (r_DstCIDR r \<noteq> []) ''dst_cidr'' (JString (r_DstCIDR r)) @
     opt_field (r_SrcPort r \<noteq> 0) ''src_port'' (JInt (uint (r_SrcPort r))) @
     opt_field (r_DstPort r \<noteq> 0) ''dst_port'' (JInt (uint (r_DstPort r))) @
     opt_field (r_Protocol r \<noteq> []) ''protocol'' (JString (r_Protocol r)) @
     [(''action'', JString (r_Action r))] @
     opt_field (r_RateLimit r \<noteq> 0) ''rate_limit'' (JInt (uint (r_RateLimit r))) @
     opt_field (r_PktLenMin r \<noteq> 0) ''pkt_len_min'' (JInt (uint (r_PktLenMin r))) @
     opt_field (r_PktLenMax r \<noteq> 0) ''pkt_len_max'' (JInt (uint (r_PktLenMax r))) @
     opt_field (r_TcpFlags r \<noteq> []) ''tcp_flags'' (JString (r_TcpFlags r)) @
     opt_field (r_MatchAnomaly r \<noteq> 0) ''match_anomaly'' (JInt (uint (r_MatchAnomaly r))) @
     opt_field (r_Comment r \<noteq> []) ''comment'' (JString (r_Comment r)) @
     [(''stats'', JNested)]"

definition entry_object :: "WhitelistEntry \<Rightarrow> json_object" where
  "entry_object w =
     [(''id'', JString (w_ID w))] @
     opt_field (w_SrcIP w \<noteq> []) ''src_ip'' (JString (w_SrcIP w)) @
     opt_field (w_DstIP w \<noteq> []) ''dst_ip'' (JString (w_DstIP w)) @
     opt_field (w_SrcPort w \<noteq> 0) ''src_port'' (JInt (uint (w_SrcPort w))) @
     opt_field (w_DstPort w \<noteq> 0) ''dst_port'' (JInt (uint (w_DstPort w))) @
     opt_field (w_Protocol w \<noteq> []) ''protocol'' (JString (w_Protocol w)) @
     opt_field (w_Comment w \<noteq> []) ''comment'' (JString (w_Comment w))"

text \<open>The drop counter in the value of a rule, zero where the map has none.\<close>

definition drop_count :: "('m, 'c, 't) kernel \<Rightarrow> 'm \<Rightarrow> bytes \<Rightarrow> u64" where
  "drop_count K m key = (case Lookup (hash K) m key of None \<Rightarrow> 0 | Some v \<Rightarrow> le_read (slice 16 8 v))"

definition remember_drops :: "int \<Rightarrow> string \<times> u64 \<Rightarrow> ('m, 'c, 't) Handlers \<Rightarrow> ('m, 'c, 't) Handlers" where
  "remember_drops now rd h =
     h\<lparr>lastRuleDropCount := AList.update (fst rd) (snd rd) (lastRuleDropCount h),
       lastRuleStatsTime := AList.update (fst rd) now (lastRuleStatsTime h)\<rparr>"

text \<open>The rates computed from the remembered counters are floating-point numbers and not modelled.\<close>

definition listAllRules :: "('m, 'c, 't) kernel \<Rightarrow> int \<Rightarrow> ('m, 'c, 't) Handlers \<Rightarrow> json_object list \<times> ('m, 'c, 't) Handlers" where
  "listAllRules K now h =
     (let exact = map (\<lambda>(rid, s). (storedRuleToRule rid s, drop_count K (activeBlacklist h) (ruleKeyToBytes (sr_Key s)))) (rules h);
          cidr = map (\<lambda>(rid, s). (storedCIDRRuleToRule rid s,
                   drop_count K (activeCidrBlacklist h) (cidrRuleKeyToBytes (sc_Key s)))) (cidrRules h);
          results = exact @ cidr
      in (map (\<lambda>(r, d). rule_object r) results,
          fold (\<lambda>(r, d). remember_drops now (r_ID r, d)) results h))"

section \<open>Decoding a whitelist entry\<close>

definition decode_entry :: "json_object \<Rightarrow> WhitelistEntry option" where
  "decode_entry obj =
     and_get (decode_whitelist obj) (\<lambda>e. and_get (json_string ''comment'' obj) (\<lambda>co.
       Some \<lparr>w_ID = sw_ID e, w_SrcIP = sw_SrcIP e, w_DstIP = sw_DstIP e, w_SrcPort = sw_SrcPort e,
             w_DstPort = sw_DstPort e, w_Protocol = sw_Protocol e, w_Comment = co\<rparr>))"

text \<open>A list is decoded when every item is.\<close>

definition decode_all :: "('a \<Rightarrow> 'b option) \<Rightarrow> 'a list \<Rightarrow> 'b list option" where
  "decode_all f xs = (if list_ex (\<lambda>x. f x = None) xs then None else Some (map (\<lambda>x. the (f x)) xs))"

section \<open>Handlers\<close>

text \<open>The error texts are left out; only the status tells them apart.\<close>

definition refuse :: "int \<Rightarrow> http_reply" where
  "refuse status = Reply status [] (Some zero_answer)"

definition accept :: "Response \<Rightarrow> http_reply" where
  "accept resp = Reply 200 [] (Some (zero_answer\<lparr>an_response := resp\<rparr>))"

definition add_reply_http :: "add_reply \<Rightarrow> http_reply" where
  "add_reply_http r =
     (case r of
        Rejected (SrcAllocFailed _) \<Rightarrow> refuse 500
      | Rejected (DstAllocFailed _) \<Rightarrow> refuse 500
      | Rejected _ \<Rightarrow> refuse 400
      | Done (Committed rid) \<Rightarrow> accept (zero_response\<lparr>rs_Success := True, rs_RuleID := rid\<rparr>)
      | Done (KeyConflict _) \<Rightarrow> refuse 409
      | Done _ \<Rightarrow> refuse 500)"

definition wl_reply_http :: "wl_reply \<Rightarrow> http_reply" where
  "wl_reply_http r =
     (case r of
        WLRejected _ \<Rightarrow> refuse 400
      | WLDone (WLAdded wid) \<Rightarrow> accept (zero_response\<lparr>rs_Success := True, rs_ID := wid\<rparr>)
      | WLDone (WLUnchanged wid) \<Rightarrow> accept (zero_response\<lparr>rs_Success := True, rs_ID := wid\<rparr>)
      | WLDone (WLConflict _) \<Rightarrow> refuse 409
      | WLDone _ \<Rightarrow> refuse 500)"

definition wl_batch_http :: "wl_batch_reply \<Rightarrow> http_reply" where
  "wl_batch_http r =
     (case r of
        EntryRejected _ _ \<Rightarrow> refuse 400
      | DuplicateInBatch _ _ \<Rightarrow> refuse 409
      | KeyOwned _ \<Rightarrow> refuse 409
      | WLBatchAdded n \<Rightarrow> accept (zero_response\<lparr>rs_Success := True, rs_Added := int n\<rparr>)
      | _ \<Rightarrow> refuse 500)"

definition is_wl_validation :: "wl_sync_error \<Rightarrow> bool" where
  "is_wl_validation e =
     (case e of ShadowClearFailed _ \<Rightarrow> False | ShadowInsertFailed _ \<Rightarrow> False | WLSyncPublishFailed _ \<Rightarrow> False | _ \<Rightarrow> True)"

text \<open>One request at the node: the UUIDs it may use and the time at which it comes.\<close>

definition agent_serve ::
  "('m, 'c, 't) kernel \<Rightarrow> (nat \<Rightarrow> string) \<Rightarrow> int \<Rightarrow> request \<Rightarrow> ('m, 'c, 't) Handlers \<Rightarrow> http_reply \<times> ('m, 'c, 't) Handlers" where
  "agent_serve K fresh now req h =
     (case req of
        GetStats \<Rightarrow>
          (Reply 200 [] (Some (zero_answer\<lparr>an_stats :=
              [(''rules_count'', JInt (int (length (rules h) + length (cidrRules h)))),
               (''whitelist_count'', JInt (int (length (wlEntries h))))]\<rparr>)), h)
      | GetRules \<Rightarrow> (let (os, h1) = listAllRules K now h in (Reply 200 [] (Some (zero_answer\<lparr>an_rules := os\<rparr>)), h1))
      | GetWhitelist \<Rightarrow> (Reply 200 [] (Some (zero_answer\<lparr>an_entries := map entry_object (fst (ListWhitelist h))\<rparr>)), h)
      | PostRule obj \<Rightarrow>
          (case decode_rule obj of
             None \<Rightarrow> (refuse 400, h)
           | Some r \<Rightarrow> (let (rp, h1) = AddRule K (fresh 0) r h in (add_reply_http rp, h1)))
      | DeleteRuleReq rid \<Rightarrow>
          (case DeleteRule K rid h of
             (RuleNotFound, h1) \<Rightarrow> (refuse 404, h1)
           | (RuleDeleted, h1) \<Rightarrow> (accept (zero_response\<lparr>rs_Success := True\<rparr>), h1)
           | (_, h1) \<Rightarrow> (refuse 500, h1))
      | PostRulesBatch os \<Rightarrow>
          (case decode_all decode_rule os of
             None \<Rightarrow> (refuse 400, h)
           | Some rs \<Rightarrow>
               (case AddRulesBatch K fresh rs h of
                  (BatchPublishFailed _, h1) \<Rightarrow> (refuse 500, h1)
                | (BatchDone added failed, h1) \<Rightarrow>
                    (accept (zero_response\<lparr>rs_Success := True, rs_Added := added, rs_Failed := failed\<rparr>), h1)))
      | DeleteRulesBatchReq ids \<Rightarrow>
          (let ((deleted, failed), h1) = DeleteRulesBatch K ids h
           in (accept (zero_response\<lparr>rs_Success := True, rs_Deleted := deleted, rs_Failed := failed\<rparr>), h1))
      | PostWhitelist obj \<Rightarrow>
          (case decode_entry obj of
             None \<Rightarrow> (refuse 400, h)
           | Some e \<Rightarrow> (let (rp, h1) = AddWhitelist K (fresh 0) e h in (wl_reply_http rp, h1)))
      | DeleteWhitelistReq wid \<Rightarrow>
          (case DeleteWhitelist K wid h of
             (WLNotFound, h1) \<Rightarrow> (refuse 404, h1)
           | (WLDeleted, h1) \<Rightarrow> (accept (zero_response\<lparr>rs_Success := True\<rparr>), h1)
           | (_, h1) \<Rightarrow> (refuse 500, h1))
      | PostWhitelistBatch os \<Rightarrow>
          (case decode_all decode_entry os of
             None \<Rightarrow> (refuse 400, h)
           | Some es \<Rightarrow> (let (rp, h1) = AddWhitelistBatch K fresh es h in (wl_batch_http rp, h1)))
      | DeleteWhitelistBatchReq ids \<Rightarrow>
          (case DeleteWhitelistBatch K ids h of
             (WLDeleteBatchPublishFailed _, h1) \<Rightarrow> (refuse 500, h1)
           | (WLBatchDeleted deleted failed, h1) \<Rightarrow>
               (accept (zero_response\<lparr>rs_Success := True, rs_Deleted := deleted, rs_Failed := failed\<rparr>), h1))
      | PostSyncWhitelist os \<Rightarrow>
          (case decode_all decode_whitelist os of
             None \<Rightarrow> (refuse 400, h)
           | Some es \<Rightarrow>
               (case DoWhitelistAtomicSync K es h of
                  (Some e, h1) \<Rightarrow> (refuse (if is_wl_validation e then 400 else 500), h1)
                | (None, h1) \<Rightarrow> (accept zero_response, h1)))
      | PostSyncAtomic os \<Rightarrow>
          (case decode_all decode_rule os of
             None \<Rightarrow> (refuse 400, h)
           | Some rs \<Rightarrow>
               (case DoAtomicSync K fresh rs h of
                  ((_, Some _), h1) \<Rightarrow> (refuse 500, h1)
                | ((res, None), h1) \<Rightarrow>
                    (accept (zero_response\<lparr>rs_Success := True, rs_Added := as_Added res, rs_Failed := as_Failed res\<rparr>), h1))))"

section \<open>The network\<close>

datatype net_fault = Delivered | RequestLost | AnswerLost

record ('m, 'c, 't) remote =
  re_node :: "('m, 'c, 't) Handlers"
  re_served :: nat
  re_faults :: "net_fault list"

text \<open>The UUIDs and the time of the n-th request the node serves.\<close>

record agent_env =
  ae_uuid :: "nat \<Rightarrow> nat \<Rightarrow> string"
  ae_now :: "nat \<Rightarrow> int"

definition serve_next ::
  "('m, 'c, 't) kernel \<Rightarrow> agent_env \<Rightarrow> request \<Rightarrow> ('m, 'c, 't) remote \<Rightarrow> http_reply \<times> ('m, 'c, 't) remote" where
  "serve_next K E req s =
     (let (rep, h) = agent_serve K (ae_uuid E (re_served s)) (ae_now E (re_served s)) req (re_node s)
      in (rep, s\<lparr>re_node := h, re_served := re_served s + 1\<rparr>))"

text \<open>An exhausted script of faults delivers everything.\<close>

definition agent_http ::
  "('m, 'c, 't) kernel \<Rightarrow> agent_env \<Rightarrow> request \<Rightarrow> ('m, 'c, 't) remote \<Rightarrow> http_reply \<times> ('m, 'c, 't) remote" where
  "agent_http K E req s =
     (case re_faults s of
        [] \<Rightarrow> serve_next K E req s
      | f # fs \<Rightarrow>
          (let s1 = s\<lparr>re_faults := fs\<rparr>
           in case f of
                Delivered \<Rightarrow> serve_next K E req s1
              | RequestLost \<Rightarrow> (NoReply ''lost'', s1)
              | AnswerLost \<Rightarrow> (NoReply ''lost'', snd (serve_next K E req s1))))"

definition agent_endpoint :: "('m, 'c, 't) kernel \<Rightarrow> agent_env \<Rightarrow> ('m, 'c, 't) remote endpoint" where
  "agent_endpoint K E = \<lparr>http = agent_http K E\<rparr>"

end
