(* ===== verification/AgentStore.thy ===== *)
theory AgentStore
  imports ItemSync AgentApi
begin

text \<open>
  The node's rules as an item store: the calls of the API keep its invariants, and the answers tell which
  IDs it holds, with kernel calls, requests and answers failing anywhere. The table of exact rules and that
  of CIDR rules share no ID as long as IDs are added only once.
\<close>

section \<open>Rules held\<close>

definition rules_held :: "('m, 'c, 't) Handlers \<Rightarrow> string set" where
  "rules_held h = dom (map_of (rules h)) \<union> dom (map_of (cidrRules h))"

definition ids_disjoint :: "('m, 'c, 't) Handlers \<Rightarrow> bool" where
  "ids_disjoint h \<longleftrightarrow> dom (map_of (rules h)) \<inter> dom (map_of (cidrRules h)) = {} \<and> [] \<notin> rules_held h"

lemma held_views:
  assumes "exact_view h' = exact_view h" "cidr_view h' = cidr_view h"
  shows "rules_held h' = rules_held h" "ids_disjoint h' = ids_disjoint h"
  using view_fields(1) [OF assms(1)] view_fields(2) [OF assms(2)] by (simp_all add: rules_held_def ids_disjoint_def)

subsection \<open>Deletions\<close>

lemma delete_cidr_room: "delete_cidr K rid s h = (b, h') \<Longrightarrow> room n (cidrMgr h') = room n (cidrMgr h)"
  by (erule delete_cidr_cases) (simp_all add: with_mgr_def)

lemma delete_items_held:
  "tables_ok h \<Longrightarrow> ids_disjoint h \<Longrightarrow> delete_items K js h = (es, cs, f, h') \<Longrightarrow>
   ids_disjoint h' \<and> rules_held h' \<subseteq> rules_held h \<and> rules_held h - set js \<subseteq> rules_held h' \<and> 0 \<le> f \<and>
   (f = 0 \<longrightarrow> rules_held h' = rules_held h - set js) \<and> room n (cidrMgr h') = room n (cidrMgr h)"
proof (induction js arbitrary: h es cs f)
  case Nil
  then show ?case by simp
next
  case (Cons rid js)
  note D = tables_okD [OF Cons.prems(1)]
  have nxt: ?case
    if t: "tables_ok h1" and d: "delete_items K js h1 = (es1, cs1, f1, h')" and dj: "ids_disjoint h1"
      and hd: "if b then rules_held h1 = rules_held h - {rid} else rules_held h1 = rules_held h"
      and f: "f = (if b then f1 else f1 + 1)" and rm: "room n (cidrMgr h1) = room n (cidrMgr h)" for h1 es1 cs1 f1 b
    using Cons.IH [OF t dj d] hd f rm by (cases b) auto
  show ?case
  proof (cases "map_of (rules h) rid")
    case (Some s)
    obtain b h1 where de: "delete_exact K rid s h = (b, h1)" by force
    obtain es1 cs1 f1 h2 where d: "delete_items K js h1 = (es1, cs1, f1, h2)" by (cases "delete_items K js h1") auto
    have e: "h2 = h'" "f = (if b then f1 else f1 + 1)" using Cons.prems(3) Some de d by (auto split: if_splits)
    note tb = delete_exact_table [OF D(1) Some de] and fr = delete_exact_frame [OF de]
    have c: "cidrRules h1 = cidrRules h" using view_fields(2) [of h1 h] fr by simp
    have "map_of (cidrRules h) rid = None" using Some Cons.prems(2) by (auto simp: ids_disjoint_def)
    then have "if b then rules_held h1 = rules_held h - {rid} else rules_held h1 = rules_held h" "ids_disjoint h1"
      using tb c Cons.prems(2) by (auto simp: rules_held_def ids_disjoint_def)
    moreover have "tables_ok h1" using delete_exact_step [OF Cons.prems(1) Some de] by blast
    ultimately show ?thesis using nxt [of h1 es1 cs1 f1 b] d e fr by simp
  next
    case None
    note n = None
    show ?thesis
    proof (cases "map_of (cidrRules h) rid")
      case (Some s)
      obtain b h1 where de: "delete_cidr K rid s h = (b, h1)" by force
      obtain es1 cs1 f1 h2 where d: "delete_items K js h1 = (es1, cs1, f1, h2)" by (cases "delete_items K js h1") auto
      have e: "h2 = h'" "f = (if b then f1 else f1 + 1)" using Cons.prems(3) n Some de d by (auto split: if_splits)
      note tb = delete_cidr_table [OF D(2) Some de] and fr = delete_cidr_frame [OF de]
      have c: "rules h1 = rules h" using view_fields(1) [of h1 h] fr by simp
      have "if b then rules_held h1 = rules_held h - {rid} else rules_held h1 = rules_held h" "ids_disjoint h1"
        using tb c Cons.prems(2) n by (auto simp: rules_held_def ids_disjoint_def)
      moreover have "tables_ok h1" using delete_cidr_step [OF Cons.prems(1) Some de] by blast
      ultimately show ?thesis using nxt [of h1 es1 cs1 f1 b] d e delete_cidr_room [OF de] by simp
    next
      case None
      obtain es1 cs1 f1 h2 where d: "delete_items K js h = (es1, cs1, f1, h2)" by (cases "delete_items K js h") auto
      have e: "h2 = h'" "f = f1 + 1" using Cons.prems(3) n None d by auto
      show ?thesis using nxt [OF Cons.prems(1) d [unfolded e(1)] Cons.prems(2), of False] e(2) by simp
    qed
  qed
qed

lemma DeleteRulesBatch_held:
  assumes "agent_ok geta h" "ids_disjoint h" "DeleteRulesBatch K js h = ((d, f), h')"
  shows "ids_disjoint h'" "rules_held h' \<subseteq> rules_held h" "rules_held h - set js \<subseteq> rules_held h'"
    "f \<le> 0 \<Longrightarrow> rules_held h' = rules_held h - set js" "room n (cidrMgr h') = room n (cidrMgr h)"
proof -
  obtain es cs failed h1 where c: "delete_items K js h = (es, cs, failed, h1)" "(d, f) = (int (length es) + int (length cs), failed)"
    "if es \<noteq> [] \<or> cs \<noteq> [] then \<exists>e h2. publishConfigUpdate K (- int (length es)) 0 (- int (length cs)) h1 = (e, h2) \<and>
         h' = fold forget_pps (es @ cs) h2
       else h' = h1"
    by (rule DeleteRulesBatch_cases [OF assms(3)])
  have t: "tables_ok h" using assms(1) by (simp add: agent_ok_def)
  note i = delete_items_held [OF t assms(2) c(1), of n]
  have v: "exact_view h' = exact_view h1" "cidr_view h' = cidr_view h1" "cidrMgr h' = cidrMgr h1"
  proof -
    have "exact_view h' = exact_view h1 \<and> cidr_view h' = cidr_view h1 \<and> cidrMgr h' = cidrMgr h1"
    proof (cases "es \<noteq> [] \<or> cs \<noteq> []")
      case True
      then obtain e h2 where p: "publishConfigUpdate K (- int (length es)) 0 (- int (length cs)) h1 = (e, h2)"
        "h' = fold forget_pps (es @ cs) h2" using c(3) by auto
      have "all_views h' = all_views h2" using p(2) by simp
      from all_viewsD [OF this] publish_views [OF p(1)] show ?thesis by simp
    qed (use c(3) in simp)
    then show "exact_view h' = exact_view h1" "cidr_view h' = cidr_view h1" "cidrMgr h' = cidrMgr h1" by blast+
  qed
  show "ids_disjoint h'" "rules_held h' \<subseteq> rules_held h" "rules_held h - set js \<subseteq> rules_held h'"
    "f \<le> 0 \<Longrightarrow> rules_held h' = rules_held h - set js" "room n (cidrMgr h') = room n (cidrMgr h)"
    using i c(2) held_views [OF v(1,2)] v(3) by auto
qed

subsection \<open>Additions\<close>

lemma cidr_from_sync_held:
  assumes "cidr_inv h" "r_ID r \<noteq> []" "addCIDRRuleFromSync K fresh (ruleToSyncRule r) h = (rp, h')"
  shows "dom (map_of (cidrRules h')) = (if \<exists>x. rp = Done (Committed x) then insert (r_ID r) (dom (map_of (cidrRules h))) else dom (map_of (cidrRules h)))"
  using assms(3)
proof (cases rule: addCIDRRuleFromSync_request)
  case (rejected e)
  then show ?thesis by simp
next
  case (request a b vl)
  have i: "rule_id fresh (sy_ID (ruleToSyncRule r)) = r_ID r" using assms(2) by (simp add: rule_id_def ruleToSyncRule_def)
  show ?thesis
    using request(2)
  proof (cases rule: cidr_alloc_commit_cases)
    case (rejected e m)
    then show ?thesis by simp
  next
    case (commit ck m r1)
    have inv: "cidr_inv (h\<lparr>cidrMgr := m\<rparr>)" using assms(1) by simp
    from cidr_commit_table [OF inv _ _ commit(4)] commit(1-3) i show ?thesis by (auto simp: stored_cidr_of_def)
  qed
qed

lemma batch_cidr_held:
  assumes A: "array_laws (arr K) get"
  shows "agent_ok get h \<Longrightarrow> room (2 * length rs + n) (cidrMgr h) \<Longrightarrow> \<forall>r \<in> set rs. r_ID r \<noteq> [] \<Longrightarrow>
    batch_cidr K fresh k rs ad fa h = (ad', fa', h') \<Longrightarrow>
    dom (map_of (cidrRules h)) \<subseteq> dom (map_of (cidrRules h')) \<and>
    dom (map_of (cidrRules h')) \<subseteq> dom (map_of (cidrRules h)) \<union> r_ID ` set rs \<and> fa \<le> fa' \<and>
    (fa' = fa \<longrightarrow> dom (map_of (cidrRules h')) = dom (map_of (cidrRules h)) \<union> r_ID ` set rs) \<and> room n (cidrMgr h')"
proof (induction rs arbitrary: h k ad fa)
  case (Cons r rs)
  obtain rp h1 where s: "addCIDRRuleFromSync K (fresh k) (ruleToSyncRule r) h = (rp, h1)" by force
  obtain a1 f1 where b: "batch_cidr K fresh (k + 1) rs a1 f1 h1 = (ad', fa', h')"
    "f1 = (if \<exists>x. rp = Done (Committed x) then fa else fa + 1)"
    using Cons.prems(4) s by (auto split: add_reply.splits commit_result.splits)
  have one: "batch_cidr K fresh k [r] ad fa h = (a1', f1', h1)" if "(a1', f1') = (case rp of Done (Committed _) \<Rightarrow> (ad + 1, fa) | _ \<Rightarrow> (ad, fa + 1))" for a1' f1'
    using that s by (auto split: add_reply.splits commit_result.splits)
  obtain a1' f1' where "(case rp of Done (Committed _) \<Rightarrow> (ad + 1, fa) | _ \<Rightarrow> (ad, fa + 1)) = (a1', f1')" by force
  from one [OF this [symmetric]] have o: "batch_cidr K fresh k [r] ad fa h = (a1', f1', h1)" .
  have rm2: "room (2 * length [r]) (cidrMgr h)" using room_mono [OF Cons.prems(2)] by simp
  have ok1: "agent_ok get h1" using batch_cidr_ok [OF A Cons.prems(1) rm2 o] by blast
  have "room (Suc (Suc (2 * length rs + n))) (cidrMgr h)" using room_mono [OF Cons.prems(2)] by simp
  from add_effect_room [OF this addCIDRRuleFromSync_effect [OF s]] have rm1: "room (2 * length rs + n) (cidrMgr h1)" .
  have inv: "cidr_inv h" using Cons.prems(1) tables_okD(2) by (auto simp: agent_ok_def)
  have rid: "r_ID r \<noteq> []" using Cons.prems(3) by simp
  have ids: "\<forall>r \<in> set rs. r_ID r \<noteq> []" using Cons.prems(3) by simp
  from Cons.IH [OF ok1 rm1 ids b(1)] cidr_from_sync_held [OF inv rid s] b(2) show ?case
    by (cases "\<exists>x. rp = Done (Committed x)") auto
qed simp

lemma prepare_batch_held:
  "\<forall>r \<in> set rs. r_ID r \<noteq> [] \<Longrightarrow> prepare_batch fresh k rs prepared fa = (ps, fa') \<Longrightarrow>
   pr_id ` set ps \<subseteq> pr_id ` set prepared \<union> r_ID ` set rs \<and> fa \<le> fa' \<and>
   (fa' = fa \<longrightarrow> pr_id ` set ps = pr_id ` set prepared \<union> r_ID ` set rs)"
proof (induction rs arbitrary: k prepared fa)
  case (Cons r rs)
  show ?case
  proof (cases "batch_checks r")
    case (Inl e)
    with Cons.IH [of k prepared "fa + 1"] Cons.prems show ?thesis by auto
  next
    case (Inr sv)
    obtain s vl where sv: "sv = (s, vl)" by force
    let ?p = "\<lparr>pr_id = rule_id (fresh k) (r_ID r), pr_stored = s, pr_value = vl\<rparr>"
    have "pr_id ` set (place_prepared ?p prepared) = insert (r_ID r) (pr_id ` set prepared)"
      using place_prepared_set(2) [of ?p prepared] Cons.prems(1) by (simp add: rule_id_def)
    moreover obtain k1 where "prepare_batch fresh k1 rs (place_prepared ?p prepared) fa = (ps, fa')"
      using Cons.prems(2) Inr sv by (simp split: if_splits)
    moreover have "\<forall>r \<in> set rs. r_ID r \<noteq> []" using Cons.prems(1) by simp
    ultimately show ?thesis using Cons.IH [of k1 "place_prepared ?p prepared" fa] by auto
  qed
qed simp

lemma staged_items_dom: "dom (staged_items succ R) = dom R \<union> (pr_id \<circ> fst) ` set succ"
proof (induction succ arbitrary: R)
  case (Cons it succ)
  obtain p old where "it = (p, old)" by force
  then show ?case unfolding \<open>it = (p, old)\<close> staged_items_simps Cons.IH by auto
qed simp

lemma stage_items_count:
  "stage_items K ps h = (succ, f, h') \<Longrightarrow> 0 \<le> f \<and> fst ` set succ \<subseteq> set ps \<and> (f = 0 \<longrightarrow> fst ` set succ = set ps)"
proof (induction ps arbitrary: h succ f)
  case (Cons p ps)
  from Cons.prems show ?case
  proof (cases rule: stage_items_cases)
    case (failed e h1 f1)
    with Cons.IH [OF failed(2)] show ?thesis by auto
  next
    case (ok h1 succ1)
    with Cons.IH [OF ok(2)] show ?thesis by auto
  qed
qed simp

lemma rule_rollback_dom:
  "dom (map_of (rules (rule_rollback K rid s old g))) \<subseteq> insert rid (dom (map_of (rules g)))"
  by (auto simp: rule_rollback_def Let_def drop_rule_memory_def restore_rule_memory_def set_activeBlacklist_def
      split: option.splits if_splits)

lemma rollback_items_dom:
  "dom (map_of (rules (rollback_items K its g))) \<subseteq> dom (map_of (rules g)) \<union> (pr_id \<circ> fst) ` set its"
proof (induction its arbitrary: g)
  case (Cons it its)
  obtain p old where it: "it = (p, old)" by force
  show ?case using Cons.IH [of "rule_rollback K (pr_id p) (pr_stored p) old g"] rule_rollback_dom [of K "pr_id p" "pr_stored p" old g]
    unfolding it rollback_items.simps by auto
qed simp

lemma AddRulesBatch_counts:
  assumes "AddRulesBatch K fresh rs h = (r, h')"
  obtains ad fa h1 f1 succ f2 h2 where
    "batch_cidr K fresh 0 (filter is_cidr rs) 0 0 h = (ad, fa, h1)"
    "prepare_batch fresh (length (filter is_cidr rs)) (filter (\<lambda>r. \<not> is_cidr r) rs) [] fa = (batch_prepared fresh rs, f1)"
    "stage_items K (batch_prepared fresh rs) h1 = (succ, f2, h2)"
    "(\<forall>x f. r = BatchDone x f \<longrightarrow> f = f1 + f2 \<and> rules h' = rules h2 \<and> cidrRules h' = cidrRules h2) \<and>
     (\<forall>e. r = BatchPublishFailed e \<longrightarrow> (\<exists>h3. rules h3 = rules h2 \<and> cidrRules h3 = cidrRules h2 \<and> h' = rollback_items K succ h3)) \<and>
     cidrMgr h' = cidrMgr h2"
proof -
  obtain ad fa h1 where b: "batch_cidr K fresh 0 (filter is_cidr rs) 0 0 h = (ad, fa, h1)"
    by (cases "batch_cidr K fresh 0 (filter is_cidr rs) 0 0 h") auto
  obtain ps f1 where p: "prepare_batch fresh (length (filter is_cidr rs)) (filter (\<lambda>r. \<not> is_cidr r) rs) [] fa = (ps, f1)" by force
  have ps: "batch_prepared fresh rs = ps" using p prepare_batch_failed unfolding batch_prepared_def by (metis fst_conv)
  obtain succ f2 h2 where st: "stage_items K ps h1 = (succ, f2, h2)" by (cases "stage_items K ps h1") auto
  obtain e h3 where pb: "publishConfigUpdate K (int (length (filter (\<lambda>(p, old). old = None) succ))) 0 0 h2 = (e, h3)" by force
  note d = assms [unfolded AddRulesBatch_def Let_def is_cidr_def [symmetric] b p st pb prod.case]
  note v = publish_views(5,9,10) [OF pb]
  have "(\<forall>x f. r = BatchDone x f \<longrightarrow> f = f1 + f2 \<and> rules h' = rules h2 \<and> cidrRules h' = cidrRules h2) \<and>
     (\<forall>e. r = BatchPublishFailed e \<longrightarrow> (\<exists>h3. rules h3 = rules h2 \<and> cidrRules h3 = cidrRules h2 \<and> h' = rollback_items K succ h3)) \<and>
     cidrMgr h' = cidrMgr h2"
    using d v rollback_items_frame [of K succ h3] by (cases "succ = []"; cases e) auto
  with b p st ps that show ?thesis by blast
qed

lemma subset_through: "A \<subseteq> B \<union> X \<Longrightarrow> B = D \<union> X \<Longrightarrow> X \<subseteq> Y \<Longrightarrow> A \<subseteq> D \<union> Y"
  by blast

lemma held_apart:
  "R' \<subseteq> R \<union> E \<Longrightarrow> C' \<subseteq> C \<union> D \<Longrightarrow> D \<inter> E = {} \<Longrightarrow> D \<inter> (R \<union> C) = {} \<Longrightarrow> E \<inter> (R \<union> C) = {} \<Longrightarrow>
   R \<inter> C = {} \<Longrightarrow> R' \<inter> C' = {}"
  by blast

lemma AddRulesBatch_held:
  assumes A: "array_laws (arr K) get" and ok: "agent_ok get h" and rm: "room (2 * length rs + n) (cidrMgr h)"
    and ids: "\<forall>r \<in> set rs. r_ID r \<noteq> []" and b: "AddRulesBatch K fresh rs h = (r, h')"
  shows "rules_held h' \<subseteq> rules_held h \<union> r_ID ` set rs"
    "r = BatchDone x f \<Longrightarrow> f \<le> 0 \<Longrightarrow> rules_held h' = rules_held h \<union> r_ID ` set rs"
    "r_ID ` set rs \<inter> rules_held h = {} \<Longrightarrow> distinct (map r_ID rs) \<Longrightarrow> ids_disjoint h \<Longrightarrow>
       agent_ok get h' \<and> ids_disjoint h' \<and> room n (cidrMgr h') \<and> rules_held h \<subseteq> rules_held h'"
proof -
  let ?c = "filter is_cidr rs" and ?e = "filter (\<lambda>r. \<not> is_cidr r) rs" and ?ps = "batch_prepared fresh rs"
  obtain ad fa h1 f1 succ f2 h2 where c: "batch_cidr K fresh 0 ?c 0 0 h = (ad, fa, h1)"
    "prepare_batch fresh (length ?c) ?e [] fa = (?ps, f1)" "stage_items K ?ps h1 = (succ, f2, h2)"
    and raw: "(\<forall>x f. r = BatchDone x f \<longrightarrow> f = f1 + f2 \<and> rules h' = rules h2 \<and> cidrRules h' = cidrRules h2) \<and>
     (\<forall>e. r = BatchPublishFailed e \<longrightarrow> (\<exists>h3. rules h3 = rules h2 \<and> cidrRules h3 = cidrRules h2 \<and> h' = rollback_items K succ h3)) \<and>
     cidrMgr h' = cidrMgr h2"
    by (rule AddRulesBatch_counts [OF b])
  have res: "\<And>x f. r = BatchDone x f \<Longrightarrow> f = f1 + f2 \<and> rules h' = rules h2 \<and> cidrRules h' = cidrRules h2"
    "\<And>e. r = BatchPublishFailed e \<Longrightarrow> \<exists>h3. rules h3 = rules h2 \<and> cidrRules h3 = cidrRules h2 \<and> h' = rollback_items K succ h3"
    "cidrMgr h' = cidrMgr h2"
    using raw by simp_all
  have l: "2 * length ?c + n \<le> 2 * length rs + n" using length_filter_le [of is_cidr rs] by simp
  have cids: "\<forall>r \<in> set ?c. r_ID r \<noteq> []" and eids: "\<forall>r \<in> set ?e. r_ID r \<noteq> []" using ids by simp_all
  note B = batch_cidr_held [OF A ok room_mono [OF rm l] cids c(1)]
  note P = prepare_batch_held [OF eids c(2)]
  note S = stage_items_count [OF c(3)]
  have rm2: "room (2 * length ?c) (cidrMgr h)" using room_mono [OF rm, of "2 * length ?c"] l by simp
  have ok1: "agent_ok get h1" and rs1: "rules h1 = rules h"
    using batch_cidr_ok [OF A ok rm2 c(1)] view_fields(1) [of h1 h] by auto
  have ready: "\<forall>p \<in> set ?ps. committable (pr_stored p) (pr_value p)" "distinct (map pr_id ?ps)"
    using batch_prepared_ready [of fresh rs] by (simp_all add: batch_ready_def)
  have inv1: "exact_inv h1" using ok1 tables_okD(1) by (auto simp: agent_ok_def)
  have T: "map_of (rules h2) = staged_items succ (map_of (rules h))" "cidrRules h2 = cidrRules h1" "cidrMgr h2 = cidrMgr h1"
    using stage_items_table [OF inv1 ready c(3)] rs1 stage_items_frame [OF c(3)] view_fields(2) [of h2 h1] by simp_all
  have sp: "r_ID ` set rs = r_ID ` set ?c \<union> r_ID ` set ?e" by auto
  have sd: "(pr_id \<circ> fst) ` set succ = pr_id ` (fst ` set succ)" by (simp add: image_comp)
  have "fst ` set succ \<subseteq> set ?ps" using S by blast
  then have "pr_id ` (fst ` set succ) \<subseteq> pr_id ` set ?ps" by (rule image_mono)
  moreover have ps: "pr_id ` set ?ps \<subseteq> r_ID ` set ?e" using P [THEN conjunct1] by simp
  ultimately have sub: "(pr_id \<circ> fst) ` set succ \<subseteq> r_ID ` set ?e" unfolding sd by (rule subset_trans)
  have d2: "dom (map_of (rules h2)) = dom (map_of (rules h)) \<union> (pr_id \<circ> fst) ` set succ"
    unfolding T(1) staged_items_dom by simp
  have reply: "\<exists>x f. r = BatchDone x f \<or> (\<exists>e. r = BatchPublishFailed e)" by (cases r) auto
  have cd: "cidrRules h' = cidrRules h1"
  proof (cases r)
    case (BatchDone x f)
    with res(1) T show ?thesis by simp
  next
    case (BatchPublishFailed e)
    then obtain h3 where "cidrRules h3 = cidrRules h2" "h' = rollback_items K succ h3" using res(2) by blast
    moreover have "cidrRules (rollback_items K succ h3) = cidrRules h3"
      using rollback_items_frame [of K succ h3] by (intro view_fields(2)) simp
    ultimately show ?thesis using T by simp
  qed
  have rd: "dom (map_of (rules h')) \<subseteq> dom (map_of (rules h)) \<union> r_ID ` set ?e"
  proof (cases r)
    case (BatchDone x f)
    then have "rules h' = rules h2" using res(1) by blast
    then show ?thesis using d2 Un_mono [OF subset_refl sub] by simp
  next
    case (BatchPublishFailed e)
    then obtain h3 where h3: "rules h3 = rules h2" "h' = rollback_items K succ h3" using res(2) by blast
    have "dom (map_of (rules h')) \<subseteq> dom (map_of (rules h2)) \<union> (pr_id \<circ> fst) ` set succ"
      using rollback_items_dom [of K succ h3] h3 by simp
    then show ?thesis by (rule subset_through [OF _ d2 sub])
  qed
  have cb: "dom (map_of (cidrRules h)) \<subseteq> dom (map_of (cidrRules h'))"
    "dom (map_of (cidrRules h')) \<subseteq> dom (map_of (cidrRules h)) \<union> r_ID ` set ?c"
    "fa = 0 \<Longrightarrow> dom (map_of (cidrRules h')) = dom (map_of (cidrRules h)) \<union> r_ID ` set ?c"
    unfolding cd by (rule B [THEN conjunct1], rule B [THEN conjunct2, THEN conjunct1],
      rule B [THEN conjunct2, THEN conjunct2, THEN conjunct2, THEN conjunct1, rule_format])
  show up: "rules_held h' \<subseteq> rules_held h \<union> r_ID ` set rs"
    using rd cb(2) unfolding rules_held_def sp by blast
  show "rules_held h' = rules_held h \<union> r_ID ` set rs" if a: "r = BatchDone x f" "f \<le> 0"
  proof -
    have "f = f1 + f2" "rules h' = rules h2" using res(1) [OF a(1)] by simp_all
    then have z: "fa = 0" "f1 = fa" "f2 = 0" using a(2) B P S by linarith+
    have "(pr_id \<circ> fst) ` set succ = r_ID ` set ?e" unfolding sd using S P z by simp
    with d2 have "dom (map_of (rules h')) = dom (map_of (rules h)) \<union> r_ID ` set ?e" using \<open>rules h' = rules h2\<close> by simp
    with cb(3) [OF z(1)] show ?thesis unfolding rules_held_def sp by blast
  qed
  show "agent_ok get h' \<and> ids_disjoint h' \<and> room n (cidrMgr h') \<and> rules_held h \<subseteq> rules_held h'"
    if dj: "r_ID ` set rs \<inter> rules_held h = {}" and dist: "distinct (map r_ID rs)" and i: "ids_disjoint h"
  proof -
    have "map_of (rules h) (pr_id p) = None" if "p \<in> set ?ps" for p
    proof -
      have "pr_id p \<in> r_ID ` set ?e" using ps imageI [OF that] by (rule subsetD)
      then have "pr_id p \<notin> rules_held h" using dj sp by blast
      then show ?thesis by (auto simp: rules_held_def)
    qed
    then have nh: "no_handover ?ps (map_of (rules h))" by (simp add: no_handover_def)
    have k: "agent_ok get h' \<and> (\<forall>e. r = BatchPublishFailed e \<longrightarrow> map_of (rules h') = map_of (rules h))"
      by (rule AddRulesBatch_ok [OF A ok rm2 b]) (use nh in blast)
    have "dom (map_of (rules h)) \<subseteq> dom (map_of (rules h'))"
    proof (cases r)
      case (BatchDone x f)
      with res(1) d2 show ?thesis by auto
    next
      case (BatchPublishFailed e)
      with k show ?thesis by simp
    qed
    then have keep: "rules_held h \<subseteq> rules_held h'" using cb(1) unfolding rules_held_def by blast
    have ij: "inj_on r_ID (set rs)" using dist by (simp add: distinct_map)
    have ce: "r_ID ` set ?c \<inter> r_ID ` set ?e = {}"
      by (subst inj_on_image_Int [OF ij, symmetric]) auto
    have dj2: "r_ID ` set ?c \<inter> (dom (map_of (rules h)) \<union> dom (map_of (cidrRules h))) = {}"
      "r_ID ` set ?e \<inter> (dom (map_of (rules h)) \<union> dom (map_of (cidrRules h))) = {}"
      using dj unfolding rules_held_def sp by blast+
    have i0: "dom (map_of (rules h)) \<inter> dom (map_of (cidrRules h)) = {}" "[] \<notin> rules_held h"
      using i by (simp_all add: ids_disjoint_def)
    have "dom (map_of (rules h')) \<inter> dom (map_of (cidrRules h')) = {}"
      by (rule held_apart [OF rd cb(2) ce dj2 i0(1)])
    moreover have "[] \<notin> r_ID ` set rs" using ids by auto
    then have "[] \<notin> rules_held h'" using i0(2) by (meson UnE subsetD up)
    ultimately have "ids_disjoint h'" by (simp add: ids_disjoint_def)
    moreover have "room n (cidrMgr h')"
      using B [THEN conjunct2, THEN conjunct2, THEN conjunct2, THEN conjunct2] res(3) T(3) by simp
    ultimately show ?thesis using conjunct1 [OF k] keep by simp
  qed
qed

end
