(* ===== verification/AgentRemote.thy ===== *)
theory AgentRemote
  imports AgentStore
begin

text \<open>
  The whitelist of the node under the calls of the API: which IDs it holds after a batch of additions or
  deletions, as far as the reply tells.
\<close>

section \<open>Entries held\<close>

definition entries_held :: "('m, 'c, 't) Handlers \<Rightarrow> string set" where
  "entries_held h = dom (map_of (wlEntries h))"

definition entries_ready_for_ids :: "('m, 'c, 't) Handlers \<Rightarrow> bool" where
  "entries_ready_for_ids h \<longleftrightarrow> wl_inv h \<and> [] \<notin> entries_held h"

lemma delete_entries_count:
  "delete_entries K js h = (ds, f, h') \<Longrightarrow> wl_inv h \<Longrightarrow> 0 \<le> f \<and> fst ` set ds \<subseteq> set js \<and> (f = 0 \<longrightarrow> fst ` set ds = set js)"
proof (induction js arbitrary: h ds f h')
  case (Cons wid js)
  show ?case
  proof (cases "map_of (wlEntries h) wid")
    case None
    obtain ds1 f1 h1 where d: "delete_entries K js h = (ds1, f1, h1)" by (cases "delete_entries K js h") auto
    with Cons.IH [OF d Cons.prems(2)] Cons.prems(1) None show ?thesis by auto
  next
    case (Some key)
    obtain b wm where b: "Delete (hash K) (activeWhitelist h) (ruleKeyToBytes key) = (b, wm)" by force
    let ?h = "if b then drop_whitelist wid key (set_activeWhitelist wm h) else set_activeWhitelist wm h"
    obtain ds1 f1 h1 where d: "delete_entries K js ?h = (ds1, f1, h1)" by (cases "delete_entries K js ?h") auto
    have "wl_inv ?h" using drop_whitelist_step [OF Cons.prems(2) Some] wl_inv_view [of "set_activeWhitelist wm h" h] Cons.prems(2) by simp
    note ih = Cons.IH [OF d this]
    show ?thesis
    proof (cases b)
      case True
      then have e: "f = f1" "fst ` set ds = insert wid (fst ` set ds1)" using Cons.prems(1) Some b d by auto
      show ?thesis unfolding e using ih by auto
    next
      case False
      then have e: "f = f1 + 1" "ds = ds1" using Cons.prems(1) Some b d by auto
      show ?thesis unfolding e using ih by auto
    qed
  qed
qed simp

lemma DeleteWhitelistBatch_held:
  assumes inv: "wl_inv h" and d: "DeleteWhitelistBatch K js h = (r, h')"
  shows "entries_held h' \<subseteq> entries_held h" "entries_held h - set js \<subseteq> entries_held h'"
    "r = WLBatchDeleted n f \<Longrightarrow> f \<le> 0 \<Longrightarrow> entries_held h' = entries_held h - set js"
proof -
  have rem: "dom (removed ds R) = dom R - fst ` set ds" for ds and R :: "string \<rightharpoonup> RuleKey"
    by (auto simp: removed_def dom_def)
  have "entries_held h' \<subseteq> entries_held h \<and> entries_held h - set js \<subseteq> entries_held h' \<and>
      (r = WLBatchDeleted n f \<longrightarrow> f \<le> 0 \<longrightarrow> entries_held h' = entries_held h - set js)"
    using d
  proof (cases rule: DeleteWhitelistBatch_cases)
    case (none failed)
    note t = delete_entries_table [OF inv none(1)] and c = delete_entries_count [OF none(1) inv]
    have e: "entries_held h' = entries_held h" using t rem [of "[]"] by (simp add: entries_held_def)
    have "set js = {}" if "failed \<le> 0" using c that by simp
    with e none(2) show ?thesis by auto
  next
    case (publish ds failed h1 e h2)
    have "map_of (wlEntries h') = map_of (wlEntries h)" using DeleteWhitelistBatch_table [OF inv d] publish(3) by blast
    then show ?thesis using publish(3) by (simp add: entries_held_def)
  next
    case (ok ds failed h1)
    note t = delete_entries_table [OF inv ok(1)] and c = delete_entries_count [OF ok(1) inv]
    have "map_of (wlEntries h') = removed ds (map_of (wlEntries h))" using t publish_views(11) [OF ok(2)] by simp
    then have "entries_held h' = entries_held h - fst ` set ds" by (simp add: entries_held_def rem)
    with c ok(3) show ?thesis by auto
  qed
  then show "entries_held h' \<subseteq> entries_held h" "entries_held h - set js \<subseteq> entries_held h'"
    "r = WLBatchDeleted n f \<Longrightarrow> f \<le> 0 \<Longrightarrow> entries_held h' = entries_held h - set js" by blast+
qed

lemma prepare_entries_held:
  "\<forall>e \<in> set es. w_ID e \<noteq> [] \<Longrightarrow> prepare_entries fresh n i es prepared = Inr ps \<Longrightarrow>
   fst ` set ps = fst ` set prepared \<union> w_ID ` set es"
proof (induction es arbitrary: n i prepared)
  case (Cons e es)
  then obtain key n1 where "prepare_entries fresh n1 (i + 1) es (place_entry (rule_id (fresh n) (w_ID e)) key prepared) = Inr ps"
    by (auto split: sum.splits)
  from Cons.IH [OF _ this] Cons.prems(1) place_entry_ids [of "w_ID e" key prepared] show ?case by (simp add: rule_id_def)
qed simp

lemma entries_after_dom: "dom (entries_after ps R) = dom R \<union> we_id ` set ps"
  by (induction ps arbitrary: R) auto

lemma prepare_entries_error: "prepare_entries fresh n i es prepared = Inl e \<Longrightarrow> \<forall>m. e \<noteq> WLBatchAdded m"
  by (induction es arbitrary: n i prepared) (auto split: sum.splits)

lemma check_entries_error: "check_entries h seen es = Inl e \<Longrightarrow> \<forall>m. e \<noteq> WLBatchAdded m"
  by (induction h seen es rule: check_entries.induct) (auto simp: Let_def split: option.splits sum.splits if_splits)

lemma AddWhitelistBatch_held:
  assumes inv: "wl_inv h" and ids: "\<forall>e \<in> set es. w_ID e \<noteq> []" and b: "AddWhitelistBatch K fresh es h = (r, h')"
  shows "wl_inv h' \<and> not_wl_views h' = not_wl_views h"
    "if \<exists>n. r = WLBatchAdded n then entries_held h' = entries_held h \<union> w_ID ` set es else entries_held h' = entries_held h"
proof -
  have "(wl_inv h' \<and> not_wl_views h' = not_wl_views h) \<and>
    (if \<exists>n. r = WLBatchAdded n then entries_held h' = entries_held h \<union> w_ID ` set es else entries_held h' = entries_held h)"
  proof (cases "prepare_entries fresh 0 0 es []")
    case (Inl e)
    then have "h' = h" "r = e" using b by (simp_all add: AddWhitelistBatch_def)
    moreover have "\<forall>n. e \<noteq> WLBatchAdded n"
      using Inl prepare_entries_error by blast
    ultimately show ?thesis using inv by simp
  next
    case (Inr prepared)
    have p: "fst ` set prepared = w_ID ` set es" using prepare_entries_held [OF ids Inr] by simp
    have "checked_entries []" by (simp add: checked_entries_def)
    with prepare_entries_checked [OF Inr] have ch: "checked_entries prepared" by simp
    show ?thesis
    proof (cases "prepared = []")
      case True
      then have "h' = h" "w_ID ` set es = {}" using b Inr p by (simp_all add: AddWhitelistBatch_def)
      then show ?thesis using inv by simp
    next
      case False
      show ?thesis
      proof (cases "check_entries h [] prepared")
        case (Inl e)
        then have "h' = h" "r = e" using b Inr False by (simp_all add: AddWhitelistBatch_def)
        moreover have "\<forall>n. e \<noteq> WLBatchAdded n" using Inl check_entries_error by blast
        ultimately show ?thesis using inv by simp
      next
        case (Inr ps)
        have c: "wl_batch_commit K ps h = (r, h')"
          using b \<open>prepare_entries fresh 0 0 es [] = Inr prepared\<close> False Inr by (simp add: AddWhitelistBatch_def)
        have rd: "entries_ready h ps" "we_id ` set ps = fst ` set prepared" using check_entries_ready [OF Inr ch] by simp_all
        note t = wl_batch_commit_table [OF inv rd(1) c]
        have "entries_held h' = entries_held h" if "wl_view h' = wl_view h"
          using view_fields(3) [OF that] by (simp add: entries_held_def)
        moreover have "entries_held h' = entries_held h \<union> w_ID ` set es" if "map_of (wlEntries h') = entries_after ps (map_of (wlEntries h))"
          unfolding entries_held_def that entries_after_dom rd(2) p ..
        ultimately show ?thesis using t by (simp split: if_splits)
      qed
    qed
  qed
  then show "wl_inv h' \<and> not_wl_views h' = not_wl_views h"
    "if \<exists>n. r = WLBatchAdded n then entries_held h' = entries_held h \<union> w_ID ` set es else entries_held h' = entries_held h"
    by blast+
qed

end
