(* ===== verification/AgentNet.thy ===== *)
theory AgentNet
  imports AgentRemote
begin

text \<open>
  The two instances of the contract of \<^theory_text>\<open>ItemSync\<close>: the rules and the whitelist of an agent whose kernel
  arrays obey their laws and whose other kernel calls may fail, behind a network that loses requests and
  answers.
\<close>

section \<open>What the node decodes\<close>

lemma decode_rule_id: "\<forall>x r i. decode_rule x = Some r \<longrightarrow> map_of x ''id'' = Some (JString i) \<longrightarrow> r_ID r = i"
  by (auto simp: decode_rule_def json_string_def bind_eq_Some_conv)

lemma decode_entry_id: "\<forall>x e i. decode_entry x = Some e \<longrightarrow> map_of x ''id'' = Some (JString i) \<longrightarrow> w_ID e = i"
  by (auto simp: decode_entry_def decode_whitelist_def json_string_def bind_eq_Some_conv)

lemma decode_all_named:
  assumes f: "\<forall>x y i. f x = Some y \<longrightarrow> map_of x ''id'' = Some (JString i) \<longrightarrow> idf y = i"
    and "named xs is" "decode_all f xs = Some ys"
  shows "map idf ys = is" "idf ` set ys = set is" "\<forall>y \<in> set ys. idf y \<noteq> []" "length ys = length xs"
proof -
  have ys: "ys = map (\<lambda>x. the (f x)) xs" "\<forall>x \<in> set xs. f x \<noteq> None"
    using assms(3) by (auto simp: decode_all_def list_ex_iff split: if_splits)
  have "map idf (map (\<lambda>x. the (f x)) xs) = is" if "\<forall>x \<in> set xs. f x \<noteq> None" "named xs is"
    using that by (induction xs arbitrary: "is") (auto simp: f)
  with ys assms(2) show m: "map idf ys = is" by blast
  then show s: "idf ` set ys = set is" by (metis list.set_map)
  show "\<forall>y \<in> set ys. idf y \<noteq> []" using assms(2) unfolding named_def s [symmetric] by (metis imageI)
  show "length ys = length xs" using ys(1) by simp
qed

section \<open>What the node lists\<close>

lemma remember_drops_views [simp]: "all_views (remember_drops now rd h) = all_views h"
  by (simp add: remember_drops_def all_views_def view_defs map_defs)

lemma fold_remember_views [simp]: "all_views (fold (\<lambda>(r, d). remember_drops now (r_ID r, d)) rs h) = all_views h"
  by (induction rs arbitrary: h) auto

lemma listAllRules_views: "listAllRules K now h = (os, h') \<Longrightarrow> all_views h' = all_views h"
  by (auto simp: listAllRules_def Let_def)

lemma rule_object_id [simp]: "map_of (rule_object r) ''id'' = Some (JString (r_ID r))"
  by (simp add: rule_object_def)

lemma entry_object_id [simp]: "map_of (entry_object w) ''id'' = Some (JString (w_ID w))"
  by (simp add: entry_object_def)

lemma stored_ids [simp]: "r_ID (storedRuleToRule rid s) = rid" "r_ID (storedCIDRRuleToRule rid c) = rid"
  by (simp_all add: storedRuleToRule_def storedCIDRRuleToRule_def Let_def)

lemma listed_ids:
  assumes "tables_ok h" "ids_disjoint h" "listAllRules K now h = (os, h')"
  shows "named os (map fst (rules h) @ map fst (cidrRules h))" "set (map fst (rules h) @ map fst (cidrRules h)) = rules_held h"
    "named (map (filter (\<lambda>(k, v). k \<noteq> ''stats'')) os) (map fst (rules h) @ map fst (cidrRules h))"
proof -
  have d: "is_gomap (rules h)" "is_gomap (cidrRules h)"
    using tables_okD(1,2) [OF assms(1)] by (auto simp: exact_inv_def cidr_inv_def tbl_inv_def)
  show s: "set (map fst (rules h) @ map fst (cidrRules h)) = rules_held h"
    by (simp add: rules_held_def dom_map_of_conv_image_fst)
  have dj: "fst ` set (rules h) \<inter> fst ` set (cidrRules h) = {}" "[] \<notin> rules_held h"
    using assms(2) by (simp_all add: ids_disjoint_def dom_map_of_conv_image_fst)
  have m: "map (\<lambda>x. map_of x ''id'') os = map (\<lambda>i. Some (JString i)) (map fst (rules h) @ map fst (cidrRules h))"
    using assms(3) by (auto simp: listAllRules_def Let_def split_beta comp_def)
  then show "named os (map fst (rules h) @ map fst (cidrRules h))"
    using d dj s unfolding named_def by (simp only: m) (simp add: dj s)
  have f: "map_of (filter (\<lambda>(k, v). k \<noteq> ''stats'') x) ''id'' = map_of x ''id''" for x :: json_object
    by (induction x) auto
  show "named (map (filter (\<lambda>(k, v). k \<noteq> ''stats'')) os) (map fst (rules h) @ map fst (cidrRules h))"
    using \<open>named os _\<close> by (simp add: named_def comp_def f)
qed

lemma listed_entries:
  assumes "entries_ready_for_ids h"
  shows "named (map entry_object (fst (ListWhitelist h))) (map fst (wlEntries h))" "set (map fst (wlEntries h)) = entries_held h"
proof -
  have d: "is_gomap (wlEntries h)" using assms by (auto simp: entries_ready_for_ids_def wl_inv_def tbl_inv_def)
  show s: "set (map fst (wlEntries h)) = entries_held h" by (simp add: entries_held_def dom_map_of_conv_image_fst)
  have "map (\<lambda>x. map_of x ''id'') (map entry_object (fst (ListWhitelist h))) = map (\<lambda>i. Some (JString i)) (map fst (wlEntries h))"
    by (auto simp: ListWhitelist_def keyToWhitelist_def Let_def split_beta comp_def)
  then show "named (map entry_object (fst (ListWhitelist h))) (map fst (wlEntries h))"
    using d s assms unfolding named_def entries_ready_for_ids_def by simp
qed

lemma decode_ids_named: "named xs is \<Longrightarrow> decode_ids xs = Inr is"
  by (induction xs arbitrary: "is") (auto simp: json_string_def)

section \<open>The network\<close>

lemma agent_http_cases:
  assumes "http (agent_endpoint K E) req s = (rep, s')"
  obtains (lost) "rep = NoReply ''lost''" "re_node s' = re_node s"
  | (served) fresh now rep1 where "agent_serve K fresh now req (re_node s) = (rep1, re_node s')" "rep = rep1 \<or> rep = NoReply ''lost''"
proof -
  have sv: "\<exists>fresh now. agent_serve K fresh now req (re_node t) = (r, re_node t')" if "serve_next K E req t = (r, t')" for t r t'
  proof -
    obtain r' b where a: "agent_serve K (ae_uuid E (re_served t)) (ae_now E (re_served t)) req (re_node t) = (r', b)" by force
    then have "r' = r" "re_node t' = b" using that by (auto simp: serve_next_def Let_def)
    with a have a: "agent_serve K (ae_uuid E (re_served t)) (ae_now E (re_served t)) req (re_node t) = (r, b)" "re_node t' = b" by simp_all
    show ?thesis unfolding a(2) using a(1) by (intro exI)
  qed
  show ?thesis
  proof (cases "re_faults s")
    case Nil
    then have "serve_next K E req s = (rep, s')" using assms by (simp add: agent_endpoint_def agent_http_def)
    with sv served show ?thesis by blast
  next
    case (Cons f fs)
    let ?s = "s\<lparr>re_faults := fs\<rparr>"
    obtain r t where r: "serve_next K E req ?s = (r, t)" by force
    from sv [OF r] obtain fresh now where a: "agent_serve K fresh now req (re_node s) = (r, re_node t)" by auto
    show ?thesis
    proof (cases f)
      case Delivered
      then have "rep = r" "s' = t" using assms Cons r by (simp_all add: agent_endpoint_def agent_http_def)
      with served [of fresh now r] a show ?thesis by simp
    next
      case RequestLost
      then have "rep = NoReply ''lost''" "s' = ?s" using assms Cons by (simp_all add: agent_endpoint_def agent_http_def)
      with lost show ?thesis by simp
    next
      case AnswerLost
      then have "rep = NoReply ''lost''" "s' = t" using assms Cons r by (simp_all add: agent_endpoint_def agent_http_def)
      with served [of fresh now r] a show ?thesis by simp
    qed
  qed
qed

section \<open>The rules\<close>

text \<open>Room for \<open>n\<close> more rules, and the whitelist as it was.\<close>

definition rules_room where
  "rules_room get W n h \<longleftrightarrow> agent_ok get h \<and> ids_disjoint h \<and> room (2 * n) (cidrMgr h) \<and> wl_view h = W"

lemma rules_room_views:
  assumes "all_views h' = all_views h" "rules_room get W n h"
  shows "rules_room get W n h'" "rules_held h' = rules_held h"
proof -
  note v = all_viewsD [OF assms(1)]
  have "agent_ok get h" using assms(2) by (simp add: rules_room_def)
  then have "agent_ok get h'"
    using agent_ok_frame [OF _ _ v(4) bitmaps_le_views [OF v(1-3)]] tables_ok_views [OF v(1,2,3,6)] by (simp add: agent_ok_def)
  then show "rules_room get W n h'" using assms(2) held_views(2) [OF v(1,2)] v(3,6) by (simp add: rules_room_def)
  show "rules_held h' = rules_held h" by (rule held_views(1) [OF v(1,2)])
qed

lemma batch_cidr_wl: "batch_cidr K fresh k rs ad fa h = (ad', fa', h') \<Longrightarrow> wl_view h' = wl_view h"
proof (induction rs arbitrary: h k ad fa)
  case (Cons r rs)
  from Cons.prems show ?case
  proof (rule batch_cidr_step)
    fix rp h1 n1 a1 f1
    assume s: "addCIDRRuleFromSync K (fresh k) (ruleToSyncRule r) h = (rp, h1)" "batch_cidr K fresh n1 rs a1 f1 h1 = (ad', fa', h')"
    show ?thesis using Cons.IH [OF s(2)] addCIDRRuleFromSync_exact_view [OF s(1)] by simp
  qed
qed simp

lemma AddRulesBatch_wl:
  assumes "AddRulesBatch K fresh rs h = (r, h')"
  shows "wl_view h' = wl_view h"
proof -
  obtain ad fa h1 where b: "batch_cidr K fresh 0 (filter is_cidr rs) 0 0 h = (ad, fa, h1)"
    by (cases "batch_cidr K fresh 0 (filter is_cidr rs) 0 0 h") auto
  obtain ps f1 where p: "prepare_batch fresh (length (filter is_cidr rs)) (filter (\<lambda>r. \<not> is_cidr r) rs) [] fa = (ps, f1)" by force
  obtain succ f2 h2 where st: "stage_items K ps h1 = (succ, f2, h2)" by (cases "stage_items K ps h1") auto
  obtain e h3 where pb: "publishConfigUpdate K (int (length (filter (\<lambda>(p, old). old = None) succ))) 0 0 h2 = (e, h3)" by force
  note d = assms [unfolded AddRulesBatch_def Let_def is_cidr_def [symmetric] b p st pb prod.case]
  have "wl_view h' = wl_view h2"
    using d publish_views(3) [OF pb] rollback_items_frame [of K succ h3] by (cases "succ = []"; cases e) auto
  then show ?thesis using batch_cidr_wl [OF b] stage_items_frame [OF st] by simp
qed

lemma DeleteRulesBatch_wl:
  assumes "DeleteRulesBatch K js h = (r, h')"
  shows "wl_view h' = wl_view h"
proof -
  have di: "delete_items K js h = (es, cs, f, h1) \<Longrightarrow> wl_view h1 = wl_view h" for es cs f h1
  proof (induction js arbitrary: h es cs f)
    case (Cons rid js)
    show ?case
    proof (cases "map_of (rules h) rid")
      case (Some s)
      obtain b h2 where de: "delete_exact K rid s h = (b, h2)" by force
      obtain es1 cs1 f1 h3 where d: "delete_items K js h2 = (es1, cs1, f1, h3)" by (cases "delete_items K js h2") auto
      have "h3 = h1" using Cons.prems Some de d by (auto split: if_splits)
      with Cons.IH [of h2] d delete_exact_frame [OF de] show ?thesis by simp
    next
      case n: None
      show ?thesis
      proof (cases "map_of (cidrRules h) rid")
        case (Some s)
        obtain b h2 where de: "delete_cidr K rid s h = (b, h2)" by force
        obtain es1 cs1 f1 h3 where d: "delete_items K js h2 = (es1, cs1, f1, h3)" by (cases "delete_items K js h2") auto
        have "h3 = h1" using Cons.prems n Some de d by (auto split: if_splits)
        with Cons.IH [of h2] d delete_cidr_frame [OF de] show ?thesis by simp
      next
        case None
        obtain es1 cs1 f1 h3 where d: "delete_items K js h = (es1, cs1, f1, h3)" by (cases "delete_items K js h") auto
        have "h3 = h1" using Cons.prems n None d by auto
        with Cons.IH [of h] d show ?thesis by simp
      qed
    qed
  qed simp
  obtain d f where r: "r = (d, f)" by force
  obtain es cs failed h1 where c: "delete_items K js h = (es, cs, failed, h1)"
    "if es \<noteq> [] \<or> cs \<noteq> [] then \<exists>e h2. publishConfigUpdate K (- int (length es)) 0 (- int (length cs)) h1 = (e, h2) \<and>
         h' = fold forget_pps (es @ cs) h2
       else h' = h1"
    by (rule DeleteRulesBatch_cases [OF assms])
  show ?thesis
  proof (cases "es \<noteq> [] \<or> cs \<noteq> []")
    case True
    then obtain e h2 where p: "publishConfigUpdate K (- int (length es)) 0 (- int (length cs)) h1 = (e, h2)"
      "h' = fold forget_pps (es @ cs) h2" using c(2) by auto
    have "all_views h' = all_views h2" using p(2) by simp
    from all_viewsD(3) [OF this] publish_views(3) [OF p(1)] di [OF c(1)] show ?thesis by simp
  qed (use c di [OF c(1)] in simp)
qed

lemma serve_rule_list:
  assumes "rules_room get W n h" "agent_serve K fresh now GetRules h = (rep, h')"
  shows "rules_room get W n h' \<and> rules_held h' = rules_held h \<and> (\<exists>os js. rep = Reply 200 [] (Some (zero_answer\<lparr>an_rules := os\<rparr>)) \<and>
    named os js \<and> named (map (filter (\<lambda>(k, v). k \<noteq> ''stats'')) os) js \<and> set js = rules_held h)"
proof -
  obtain os h1 where l: "listAllRules K now h = (os, h1)" by force
  then have e: "h' = h1" "rep = Reply 200 [] (Some (zero_answer\<lparr>an_rules := os\<rparr>))" using assms(2) by (simp_all add: agent_serve_def)
  have t: "tables_ok h" "ids_disjoint h" using assms(1) by (simp_all add: rules_room_def agent_ok_def)
  from rules_room_views [OF listAllRules_views [OF l] assms(1)] listed_ids [OF t l] e show ?thesis by blast
qed

lemma serve_rule_deletes:
  assumes A: "array_laws (arr K) get" and "rules_room get W n h" "agent_serve K fresh now (DeleteRulesBatchReq js) h = (rep, h')"
  shows "rules_room get W n h' \<and> rules_held h' \<subseteq> rules_held h \<and> rules_held h - set js \<subseteq> rules_held h' \<and>
    (\<exists>resp. rep = accept resp \<and> (rs_Failed resp \<le> 0 \<longrightarrow> rules_held h' = rules_held h - set js))"
proof -
  obtain d f h1 where b: "DeleteRulesBatch K js h = ((d, f), h1)" by (cases "DeleteRulesBatch K js h") auto
  then have e: "h' = h1" "rep = accept (zero_response\<lparr>rs_Success := True, rs_Deleted := d, rs_Failed := f\<rparr>)"
    using assms(3) by (simp_all add: agent_serve_def)
  have k: "agent_ok get h" "ids_disjoint h" "room (2 * n) (cidrMgr h)" "wl_view h = W" using assms(2) by (simp_all add: rules_room_def)
  note x = DeleteRulesBatch_held [OF k(1,2) b]
  have "rules_room get W n h1"
    using x(1,5) k(3,4) DeleteRulesBatch_ok [OF A k(1) b] DeleteRulesBatch_wl [OF b] by (simp add: rules_room_def)
  with x(2-4) e show ?thesis by (intro conjI exI [of _ "zero_response\<lparr>rs_Success := True, rs_Deleted := d, rs_Failed := f\<rparr>"]) simp_all
qed

lemma serve_rule_adds:
  assumes A: "array_laws (arr K) get" and rr: "rules_room get W (n + length xs) h" and nm: "named xs js"
    and s: "agent_serve K fresh now (PostRulesBatch xs) h = (rep, h')"
  shows "rules_held h' \<subseteq> rules_held h \<union> set js" "set js \<inter> rules_held h = {} \<Longrightarrow> rules_room get W n h' \<and> rules_held h \<subseteq> rules_held h'"
    "(\<exists>c. rep = refuse c \<and> 400 \<le> c) \<or> (\<exists>resp. rep = accept resp \<and> (rs_Failed resp \<le> 0 \<longrightarrow> rules_held h' = rules_held h \<union> set js))"
proof -
  have k: "agent_ok get h" "ids_disjoint h" "room (2 * (n + length xs)) (cidrMgr h)" "wl_view h = W"
    using rr by (simp_all add: rules_room_def)
  have "rules_held h' \<subseteq> rules_held h \<union> set js \<and>
    (set js \<inter> rules_held h = {} \<longrightarrow> rules_room get W n h' \<and> rules_held h \<subseteq> rules_held h') \<and>
    ((\<exists>c. rep = refuse c \<and> 400 \<le> c) \<or> (\<exists>resp. rep = accept resp \<and> (rs_Failed resp \<le> 0 \<longrightarrow> rules_held h' = rules_held h \<union> set js)))"
  proof (cases "decode_all decode_rule xs")
    case None
    then have "h' = h" "rep = refuse 400" using s by (simp_all add: agent_serve_def)
    moreover have "rules_room get W n h" using k room_mono [OF k(3), of "2 * n"] by (simp add: rules_room_def)
    ultimately show ?thesis by auto
  next
    case (Some rs)
    note dn = decode_all_named [OF decode_rule_id nm Some]
    obtain r h1 where b: "AddRulesBatch K fresh rs h = (r, h1)" by force
    have e: "h' = h1" using s Some b by (simp add: agent_serve_def split: batch_reply.splits)
    have rm: "room (2 * length rs + 2 * n) (cidrMgr h)" using k(3) dn(4) by (simp add: algebra_simps)
    note x = AddRulesBatch_held [OF A k(1) rm dn(3) b, unfolded dn(2)]
    have d: "distinct (map r_ID rs)" using dn(1) nm by (simp add: named_def)
    have "rules_room get W n h1 \<and> rules_held h \<subseteq> rules_held h1" if "set js \<inter> rules_held h = {}"
      using x(3) [OF that d k(2)] AddRulesBatch_wl [OF b] k(4) by (simp add: rules_room_def)
    moreover have "(\<exists>c. rep = refuse c \<and> 400 \<le> c) \<or> (\<exists>resp. rep = accept resp \<and> (rs_Failed resp \<le> 0 \<longrightarrow> rules_held h' = rules_held h \<union> set js))"
    proof (cases r)
      case (BatchDone ad f)
      then have "rep = accept (zero_response\<lparr>rs_Success := True, rs_Added := ad, rs_Failed := f\<rparr>)"
        using s Some b by (simp add: agent_serve_def)
      with x(2) [OF BatchDone] e show ?thesis
        by (intro disjI2 exI [of _ "zero_response\<lparr>rs_Success := True, rs_Added := ad, rs_Failed := f\<rparr>"]) simp
    next
      case (BatchPublishFailed q)
      then have "rep = refuse 500" using s Some b by (simp add: agent_serve_def)
      then show ?thesis by auto
    qed
    ultimately show ?thesis using x(1) e by blast
  qed
  then show "rules_held h' \<subseteq> rules_held h \<union> set js" "set js \<inter> rules_held h = {} \<Longrightarrow> rules_room get W n h' \<and> rules_held h \<subseteq> rules_held h'"
    "(\<exists>c. rep = refuse c \<and> 400 \<le> c) \<or> (\<exists>resp. rep = accept resp \<and> (rs_Failed resp \<le> 0 \<longrightarrow> rules_held h' = rules_held h \<union> set js))"
    by blast+
qed

section \<open>The whitelist\<close>

definition entries_room where
  "entries_room V h \<longleftrightarrow> entries_ready_for_ids h \<and> not_wl_views h = V"

lemma serve_entry_list:
  assumes "entries_room V h" "agent_serve K fresh now GetWhitelist h = (rep, h')"
  shows "h' = h \<and> (\<exists>os js. rep = Reply 200 [] (Some (zero_answer\<lparr>an_entries := os\<rparr>)) \<and> named os js \<and> set js = entries_held h)"
  using assms listed_entries [of h]
  by (intro conjI exI [of _ "map entry_object (fst (ListWhitelist h))"] exI [of _ "map fst (wlEntries h)"])
    (auto simp: agent_serve_def entries_room_def)

lemma serve_entry_deletes:
  assumes "entries_room V h" "agent_serve K fresh now (DeleteWhitelistBatchReq js) h = (rep, h')"
  shows "entries_room V h' \<and> entries_held h' \<subseteq> entries_held h \<and> entries_held h - set js \<subseteq> entries_held h' \<and>
    ((\<exists>c. rep = refuse c \<and> 400 \<le> c) \<or>
     (\<exists>resp. rep = accept resp \<and> (rs_Failed resp \<le> 0 \<longrightarrow> entries_held h' = entries_held h - set js)))"
proof -
  obtain r h1 where b: "DeleteWhitelistBatch K js h = (r, h1)" by force
  have e: "h' = h1" using assms(2) b by (simp add: agent_serve_def split: wl_delete_batch_reply.splits)
  have i: "wl_inv h" "[] \<notin> entries_held h" "not_wl_views h = V" using assms(1) by (simp_all add: entries_room_def entries_ready_for_ids_def)
  note x = DeleteWhitelistBatch_held [OF i(1) b] and t = DeleteWhitelistBatch_table [OF i(1) b]
  have "entries_room V h1" using t x(1) i(2,3) by (auto simp: entries_room_def entries_ready_for_ids_def)
  moreover have "(\<exists>c. rep = refuse c \<and> 400 \<le> c) \<or>
     (\<exists>resp. rep = accept resp \<and> (rs_Failed resp \<le> 0 \<longrightarrow> entries_held h' = entries_held h - set js))"
  proof (cases r)
    case (WLBatchDeleted d f)
    then have "rep = accept (zero_response\<lparr>rs_Success := True, rs_Deleted := d, rs_Failed := f\<rparr>)"
      using assms(2) b by (simp add: agent_serve_def)
    with x(3) [OF WLBatchDeleted] e show ?thesis
      by (intro disjI2 exI [of _ "zero_response\<lparr>rs_Success := True, rs_Deleted := d, rs_Failed := f\<rparr>"]) simp
  next
    case (WLDeleteBatchPublishFailed q)
    then have "rep = refuse 500" using assms(2) b by (simp add: agent_serve_def)
    then show ?thesis by auto
  qed
  ultimately show ?thesis using x(1,2) e by simp
qed

lemma serve_entry_adds:
  assumes er: "entries_room V h" and nm: "named xs js" and s: "agent_serve K fresh now (PostWhitelistBatch xs) h = (rep, h')"
  shows "entries_room V h' \<and> entries_held h \<subseteq> entries_held h' \<and> entries_held h' \<subseteq> entries_held h \<union> set js \<and>
    ((\<exists>c. rep = refuse c \<and> 400 \<le> c) \<or> (\<exists>resp. rep = accept resp \<and> entries_held h' = entries_held h \<union> set js))"
proof -
  have i: "wl_inv h" "[] \<notin> entries_held h" "not_wl_views h = V" using er by (simp_all add: entries_room_def entries_ready_for_ids_def)
  show ?thesis
  proof (cases "decode_all decode_entry xs")
    case None
    then have "h' = h" "rep = refuse 400" using s by (simp_all add: agent_serve_def)
    then show ?thesis using er by auto
  next
    case (Some es)
    note dn = decode_all_named [OF decode_entry_id nm Some]
    obtain r h1 where b: "AddWhitelistBatch K fresh es h = (r, h1)" by force
    have e: "h' = h1" "rep = wl_batch_http r" using s Some b by (simp_all add: agent_serve_def)
    note x = AddWhitelistBatch_held [OF i(1) dn(3) b, unfolded dn(2)]
    have "[] \<notin> set js" using nm by (simp add: named_def)
    then have "[] \<notin> entries_held h1" using x(2) i(2) by (auto split: if_splits)
    then have "entries_room V h1" using x(1) i(3) by (simp add: entries_room_def entries_ready_for_ids_def)
    moreover have "(\<exists>c. rep = refuse c \<and> 400 \<le> c) \<or> (\<exists>resp. rep = accept resp \<and> entries_held h' = entries_held h \<union> set js)"
      using x(2) unfolding e by (cases r) (auto simp: wl_batch_http_def)
    ultimately show ?thesis using x(2) e(1) by (auto split: if_splits)
  qed
qed

end
