(* ===== verification/AgentSync.thy ===== *)
theory AgentSync
  imports AgentNet
begin

text \<open>
  The calls of the client on an agent behind a network, as two item stores, and what the full and the
  differential sync of the client then promise of the agent.
\<close>

lemma read_get:
  assumes "client_get (agent_endpoint K E) req s = (r, s')"
  obtains (failed) e where "r = Inl e" "re_node s' = re_node s"
  | (served) fresh now rep where "agent_serve K fresh now req (re_node s) = (rep, re_node s')"
      "\<forall>a. r = Inr a \<longrightarrow> (\<exists>status body. rep = Reply status body (Some a))"
proof -
  obtain rep s1 where h: "http (agent_endpoint K E) req s = (rep, s1)" by force
  have s1: "s1 = s'" using assms h by (auto simp: client_get_def split: http_reply.splits)
  have a: "r = Inr a \<Longrightarrow> \<exists>status body. rep = Reply status body (Some a)" for a
    using assms h by (auto simp: client_get_def split: http_reply.splits if_splits option.splits)
  from h [unfolded s1] show ?thesis
  proof (cases rule: agent_http_cases)
    case lost
    with a have "\<exists>e. r = Inl e" by (cases r) auto
    with lost failed show ?thesis by blast
  next
    case (served fresh now rep1)
    have "\<forall>a. r = Inr a \<longrightarrow> (\<exists>status body. rep1 = Reply status body (Some a))" using a served(2) by auto
    with served(1) that(2) show ?thesis by blast
  qed
qed

lemma read_post:
  assumes "client_post (agent_endpoint K E) req s = (r, s') \<or> client_doDelete (agent_endpoint K E) req s = (r, s')"
  obtains (failed) e where "r = Inl e" "re_node s' = re_node s"
  | (served) fresh now rep where "agent_serve K fresh now req (re_node s) = (rep, re_node s')"
      "\<forall>c. 400 \<le> c \<longrightarrow> rep = refuse c \<longrightarrow> (\<exists>e. r = Inl e)" "\<forall>resp. rep = accept resp \<longrightarrow> r = Inr resp \<or> (\<exists>e. r = Inl e)"
proof -
  obtain rep s1 where h: "http (agent_endpoint K E) req s = (rep, s1)" by force
  have s1: "s1 = s'" and r: "r = map_sum id an_response (read_reply rep)"
    using assms h by (auto simp: client_post_def client_doDelete_def)
  from h [unfolded s1] show ?thesis
  proof (cases rule: agent_http_cases)
    case lost
    with r have "\<exists>e. r = Inl e" by (simp add: read_reply_def)
    with lost failed show ?thesis by blast
  next
    case (served fresh now rep1)
    have "\<forall>c. 400 \<le> c \<longrightarrow> rep1 = refuse c \<longrightarrow> (\<exists>e. r = Inl e)"
      "\<forall>resp. rep1 = accept resp \<longrightarrow> r = Inr resp \<or> (\<exists>e. r = Inl e)"
      using served(2) unfolding r by (auto simp: read_reply_def refuse_def accept_def)
    with served(1) that(2) show ?thesis by blast
  qed
qed

section \<open>The instances\<close>

locale remote_agent =
  fixes K :: "('m, 'c, 't) kernel" and E :: agent_env and get :: "'c \<Rightarrow> bytes \<Rightarrow> bytes"
  assumes arrays: "array_laws (arr K) get"
begin

abbreviation "A \<equiv> agent_endpoint K E"

lemma rules_raw:
  assumes ok: "rules_room get W n (re_node s)" and c: "client_GetRulesRaw A s = (r, s')"
  shows "rules_room get W n (re_node s') \<and> rules_held (re_node s') = rules_held (re_node s) \<and>
    (\<forall>xs. r = Inr xs \<longrightarrow> (\<exists>is. named xs is \<and> set is = rules_held (re_node s)))"
proof -
  obtain q s1 where g: "client_get A GetRules s = (q, s1)" by force
  then have e: "s1 = s'" "r = map_sum id (\<lambda>a. map (filter (\<lambda>(k, v). k \<noteq> ''stats'')) (an_rules a)) q"
    using c by (simp_all add: client_GetRulesRaw_def)
  from g [unfolded e(1)] show ?thesis
  proof (cases rule: read_get)
    case (failed x)
    with ok e(2) show ?thesis by simp
  next
    case (served fresh now rep)
    from serve_rule_list [OF ok served(1)] obtain os js where l: "rep = Reply 200 [] (Some (zero_answer\<lparr>an_rules := os\<rparr>))"
      "named (map (filter (\<lambda>(k, v). k \<noteq> ''stats'')) os) js" "set js = rules_held (re_node s)"
      "rules_room get W n (re_node s')" "rules_held (re_node s') = rules_held (re_node s)" by blast
    have "q = Inr a \<Longrightarrow> an_rules a = os" for a using served(2) l(1) by (auto simp: zero_answer_def)
    then have "r = Inr xs \<Longrightarrow> xs = map (filter (\<lambda>(k, v). k \<noteq> ''stats'')) os" for xs using e(2) by (cases q) auto
    with l(2-5) show ?thesis by blast
  qed
qed

lemma rules_ids:
  assumes ok: "rules_room get W n (re_node s)" and c: "client_GetRuleIDs A s = (r, s')"
  shows "rules_room get W n (re_node s') \<and> rules_held (re_node s') = rules_held (re_node s) \<and>
    (\<forall>is. r = Inr is \<longrightarrow> set is = rules_held (re_node s))"
proof -
  obtain q s1 where g: "client_get A GetRules s = (q, s1)" by force
  have e: "s1 = s'" "r = (case q of Inl e \<Rightarrow> Inl e | Inr a \<Rightarrow> decode_ids (an_rules a))"
    using c g by (auto simp: client_GetRuleIDs_def split: sum.splits)
  from g [unfolded e(1)] show ?thesis
  proof (cases rule: read_get)
    case (failed x)
    with ok e(2) show ?thesis by simp
  next
    case (served fresh now rep)
    from serve_rule_list [OF ok served(1)] obtain os js where l: "rep = Reply 200 [] (Some (zero_answer\<lparr>an_rules := os\<rparr>))"
      "named os js" "set js = rules_held (re_node s)"
      "rules_room get W n (re_node s')" "rules_held (re_node s') = rules_held (re_node s)" by blast
    have "q = Inr a \<Longrightarrow> an_rules a = os" for a using served(2) l(1) by (auto simp: zero_answer_def)
    then have "r = Inr is \<Longrightarrow> is = js" for "is" using e(2) decode_ids_named [OF l(2)] by (cases q) auto
    with l(3-5) show ?thesis by blast
  qed
qed

lemma rules_delete:
  assumes ok: "rules_room get W n (re_node s)" and c: "client_DeleteRulesBatch A js s = (r, s')"
  shows "rules_room get W n (re_node s') \<and> rules_held (re_node s') \<subseteq> rules_held (re_node s) \<and>
    rules_held (re_node s) - set js \<subseteq> rules_held (re_node s') \<and>
    (\<forall>resp. r = Inr resp \<longrightarrow> rs_Failed resp \<le> 0 \<longrightarrow> rules_held (re_node s') = rules_held (re_node s) - set js)"
proof -
  from disjI2 [OF c [unfolded client_DeleteRulesBatch_def]] show ?thesis
  proof (rule read_post)
    fix e assume "r = Inl e" "re_node s' = re_node s"
    then show ?thesis using ok by auto
  next
    fix fresh now rep
    assume s: "agent_serve K fresh now (DeleteRulesBatchReq js) (re_node s) = (rep, re_node s')"
      and a: "\<forall>resp. rep = accept resp \<longrightarrow> r = Inr resp \<or> (\<exists>e. r = Inl e)"
    note x = serve_rule_deletes [OF arrays ok s]
    then obtain resp where resp: "rep = accept resp" "rs_Failed resp \<le> 0 \<longrightarrow> rules_held (re_node s') = rules_held (re_node s) - set js" by blast
    have "r = Inr y \<Longrightarrow> y = resp" for y using a resp(1) by auto
    with x resp(2) show ?thesis by blast
  qed
qed

lemma rules_add:
  assumes ok: "rules_room get W (n + length xs) (re_node s)" and nm: "named xs js" and c: "client_AddRulesBatch A xs s = (r, s')"
  shows "rules_held (re_node s') \<subseteq> rules_held (re_node s) \<union> set js \<and>
    (set js \<inter> rules_held (re_node s) = {} \<longrightarrow> rules_room get W n (re_node s') \<and> rules_held (re_node s) \<subseteq> rules_held (re_node s')) \<and>
    (\<forall>resp. r = Inr resp \<longrightarrow> rs_Failed resp \<le> 0 \<longrightarrow> rules_held (re_node s') = rules_held (re_node s) \<union> set js)"
proof -
  from disjI1 [OF c [unfolded client_AddRulesBatch_def]] show ?thesis
  proof (rule read_post)
    fix e assume e: "r = Inl e" "re_node s' = re_node s"
    have "rules_room get W n (re_node s)"
      using ok room_mono [of "2 * (n + length xs)" _ "2 * n"] by (auto simp: rules_room_def)
    then show ?thesis using e by auto
  next
    fix fresh now rep
    assume s: "agent_serve K fresh now (PostRulesBatch xs) (re_node s) = (rep, re_node s')"
      and f: "\<forall>c. 400 \<le> c \<longrightarrow> rep = refuse c \<longrightarrow> (\<exists>e. r = Inl e)"
      and a: "\<forall>resp. rep = accept resp \<longrightarrow> r = Inr resp \<or> (\<exists>e. r = Inl e)"
    note x = serve_rule_adds [OF arrays ok nm s]
    have "r = Inr y \<Longrightarrow> rs_Failed y \<le> 0 \<Longrightarrow> rules_held (re_node s') = rules_held (re_node s) \<union> set js" for y
      using x(3) f a by auto
    with x(1,2) show ?thesis by blast
  qed
qed

lemma entries_raw:
  assumes ok: "entries_room V (re_node s)" and c: "client_GetWhitelistRaw A s = (r, s')"
  shows "entries_room V (re_node s') \<and> entries_held (re_node s') = entries_held (re_node s) \<and>
    (\<forall>xs. r = Inr xs \<longrightarrow> (\<exists>is. named xs is \<and> set is = entries_held (re_node s)))"
proof -
  obtain q s1 where g: "client_get A GetWhitelist s = (q, s1)" by force
  then have e: "s1 = s'" "r = map_sum id an_entries q" using c by (simp_all add: client_GetWhitelistRaw_def)
  from g [unfolded e(1)] show ?thesis
  proof (cases rule: read_get)
    case (failed x)
    with ok e(2) show ?thesis by simp
  next
    case (served fresh now rep)
    from serve_entry_list [OF ok served(1)] obtain os js where l: "rep = Reply 200 [] (Some (zero_answer\<lparr>an_entries := os\<rparr>))"
      "named os js" "set js = entries_held (re_node s)" "re_node s' = re_node s" by blast
    have "q = Inr a \<Longrightarrow> an_entries a = os" for a using served(2) l(1) by (auto simp: zero_answer_def)
    then have "r = Inr xs \<Longrightarrow> xs = os" for xs using e(2) by (cases q) auto
    with l(2-4) ok show ?thesis by auto
  qed
qed

lemma entries_ids:
  assumes ok: "entries_room V (re_node s)" and c: "client_GetWhitelistIDs A s = (r, s')"
  shows "entries_room V (re_node s') \<and> entries_held (re_node s') = entries_held (re_node s) \<and>
    (\<forall>is. r = Inr is \<longrightarrow> set is = entries_held (re_node s))"
proof -
  obtain q s1 where g: "client_get A GetWhitelist s = (q, s1)" by force
  have e: "s1 = s'" "r = (case q of Inl e \<Rightarrow> Inl e | Inr a \<Rightarrow> decode_ids (an_entries a))"
    using c g by (auto simp: client_GetWhitelistIDs_def split: sum.splits)
  from g [unfolded e(1)] show ?thesis
  proof (cases rule: read_get)
    case (failed x)
    with ok e(2) show ?thesis by simp
  next
    case (served fresh now rep)
    from serve_entry_list [OF ok served(1)] obtain os js where l: "rep = Reply 200 [] (Some (zero_answer\<lparr>an_entries := os\<rparr>))"
      "named os js" "set js = entries_held (re_node s)" "re_node s' = re_node s" by blast
    have "q = Inr a \<Longrightarrow> an_entries a = os" for a using served(2) l(1) by (auto simp: zero_answer_def)
    then have "r = Inr is \<Longrightarrow> is = js" for "is" using e(2) decode_ids_named [OF l(2)] by (cases q) auto
    with l(3,4) ok show ?thesis by auto
  qed
qed

lemma entries_delete:
  assumes ok: "entries_room V (re_node s)" and c: "client_DeleteWhitelistBatch A js s = (r, s')"
  shows "entries_room V (re_node s') \<and> entries_held (re_node s') \<subseteq> entries_held (re_node s) \<and>
    entries_held (re_node s) - set js \<subseteq> entries_held (re_node s') \<and>
    (\<forall>resp. r = Inr resp \<longrightarrow> rs_Failed resp \<le> 0 \<longrightarrow> entries_held (re_node s') = entries_held (re_node s) - set js)"
proof -
  from disjI2 [OF c [unfolded client_DeleteWhitelistBatch_def]] show ?thesis
  proof (rule read_post)
    fix e assume "r = Inl e" "re_node s' = re_node s"
    then show ?thesis using ok by auto
  next
    fix fresh now rep
    assume s: "agent_serve K fresh now (DeleteWhitelistBatchReq js) (re_node s) = (rep, re_node s')"
      and f: "\<forall>c. 400 \<le> c \<longrightarrow> rep = refuse c \<longrightarrow> (\<exists>e. r = Inl e)"
      and a: "\<forall>resp. rep = accept resp \<longrightarrow> r = Inr resp \<or> (\<exists>e. r = Inl e)"
    note x = serve_entry_deletes [OF ok s]
    have "r = Inr y \<Longrightarrow> rs_Failed y \<le> 0 \<Longrightarrow> entries_held (re_node s') = entries_held (re_node s) - set js" for y
      using x f a by auto
    with x show ?thesis by blast
  qed
qed

lemma entries_add:
  assumes ok: "entries_room V (re_node s)" and nm: "named xs js" and c: "client_AddWhitelistBatch A xs s = (r, s')"
  shows "entries_room V (re_node s') \<and> entries_held (re_node s') \<subseteq> entries_held (re_node s) \<union> set js \<and>
    entries_held (re_node s) \<subseteq> entries_held (re_node s') \<and>
    (\<forall>resp. r = Inr resp \<longrightarrow> entries_held (re_node s') = entries_held (re_node s) \<union> set js)"
proof -
  from disjI1 [OF c [unfolded client_AddWhitelistBatch_def]] show ?thesis
  proof (rule read_post)
    fix e assume e: "r = Inl e" "re_node s' = re_node s"
    then show ?thesis using ok by auto
  next
    fix fresh now rep
    assume s: "agent_serve K fresh now (PostWhitelistBatch xs) (re_node s) = (rep, re_node s')"
      and f: "\<forall>c. 400 \<le> c \<longrightarrow> rep = refuse c \<longrightarrow> (\<exists>e. r = Inl e)"
      and a: "\<forall>resp. rep = accept resp \<longrightarrow> r = Inr resp \<or> (\<exists>e. r = Inl e)"
    note x = serve_entry_adds [OF ok nm s]
    have "r = Inr y \<Longrightarrow> entries_held (re_node s') = entries_held (re_node s) \<union> set js" for y using x f a by auto
    with x show ?thesis by blast
  qed
qed

end

lemma api_calls:
  "it_raw (rules_api B) = client_GetRulesRaw B" "it_ids (rules_api B) = client_GetRuleIDs B"
  "it_delete (rules_api B) = client_DeleteRulesBatch B" "it_add (rules_api B) = client_AddRulesBatch B"
  "it_raw (whitelist_api B) = client_GetWhitelistRaw B" "it_ids (whitelist_api B) = client_GetWhitelistIDs B"
  "it_delete (whitelist_api B) = client_DeleteWhitelistBatch B" "it_add (whitelist_api B) = client_AddWhitelistBatch B"
  by (simp_all add: rules_api_def whitelist_api_def)

sublocale remote_agent \<subseteq> rules: item_store "rules_api A" "\<lambda>s. rules_held (re_node s)" "\<lambda>n s. rules_room get W n (re_node s)" for W
proof (unfold_locales, unfold api_calls, goal_cases)
  case (1 n s m)
  then show ?case using room_mono [of "2 * n" _ "2 * m"] by (auto simp: rules_room_def)
next
  case 2
  then show ?case by (rule rules_raw)
next
  case 3
  then show ?case by (rule rules_ids)
next
  case 4
  then show ?case by (rule rules_delete)
next
  case 5
  then show ?case by (rule rules_add)
qed

sublocale remote_agent \<subseteq> entries: item_store "whitelist_api A" "\<lambda>s. entries_held (re_node s)" "\<lambda>n s. entries_room V (re_node s)" for V
proof (unfold_locales, unfold api_calls, goal_cases)
  case 2
  then show ?case by (rule entries_raw)
next
  case 3
  then show ?case by (rule entries_ids)
next
  case 4
  then show ?case by (rule entries_delete)
next
  case 5
  from entries_add [OF this] show ?case by blast
qed

end
