(* ===== verification/SyncService.thy ===== *)
theory SyncService
  imports CtlEffects NodeClient
begin

text \<open>
  The fleet of nodes as the controller sees it: the in-memory node table (\<^verbatim>\<open>service/node_service.go\<close>), the
  calls that carry a change to every node and the full and differential syncs (\<^verbatim>\<open>service/sync_service.go\<close>).
  A node is reached by its endpoint: the state behind the endpoints is a map, a connection with an API key is
  a parameter, one request of it is a step of \<^theory_text>\<open>NodeClient\<close>. The goroutines of one call work on different
  nodes and share only the result, under a mutex; they are taken in the order of the list.
\<close>

section \<open>Nodes\<close>

record Node =
  n_ID :: string
  n_Name :: string
  n_Endpoint :: string
  n_ApiKey :: string
  n_Status :: string
  n_LastSync :: "int option"
  n_LastSeen :: "int option"

definition NodeStatusOnline :: string where "NodeStatusOnline = ''online''"
definition NodeStatusOffline :: string where "NodeStatusOffline = ''offline''"
definition NodeStatusSyncing :: string where "NodeStatusSyncing = ''syncing''"
definition NodeStatusUnknown :: string where "NodeStatusUnknown = ''unknown''"

lemmas node_status = NodeStatusOnline_def NodeStatusOffline_def NodeStatusSyncing_def NodeStatusUnknown_def

text \<open>A row of the sync log: node, action, rule, status, error.\<close>

record LogEntry =
  lg_NodeID :: string
  lg_Action :: string
  lg_RuleID :: string
  lg_Status :: string
  lg_Error :: string

record 's fleet =
  fl_nodes :: "(string, Node) gomap"
  fl_remote :: "string \<Rightarrow> 's"
  fl_log :: "LogEntry list"
  fl_store :: Store

text \<open>The service: how a node answers to an API key, the number of retries, and the time of a call.\<close>

record 's SyncService =
  sv_connect :: "string \<Rightarrow> 's endpoint"
  sv_retryCount :: int
  sv_now :: int

text \<open>One call of the client on a node.\<close>

definition at_node :: "'s SyncService \<Rightarrow> Node \<Rightarrow> ('s endpoint \<Rightarrow> 's \<Rightarrow> 'r \<times> 's) \<Rightarrow> 's fleet \<Rightarrow> 'r \<times> 's fleet" where
  "at_node S n call w =
     (let (r, s1) = call (sv_connect S (n_ApiKey n)) (fl_remote w (n_Endpoint n))
      in (r, w\<lparr>fl_remote := (fl_remote w)(n_Endpoint n := s1)\<rparr>))"

section \<open>The node table\<close>

definition update_node :: "string \<Rightarrow> (Node \<Rightarrow> Node) \<Rightarrow> 's fleet \<Rightarrow> 's fleet" where
  "update_node nid f w =
     (case map_of (fl_nodes w) nid of
        None \<Rightarrow> w
      | Some n \<Rightarrow> w\<lparr>fl_nodes := AList.update nid (f n) (fl_nodes w)\<rparr>)"

definition UpdateStatus :: "string \<Rightarrow> string \<Rightarrow> 's fleet \<Rightarrow> 's fleet" where
  "UpdateStatus nid status = update_node nid (\<lambda>n. n\<lparr>n_Status := status\<rparr>)"

definition UpdateLastSeen :: "'s SyncService \<Rightarrow> string \<Rightarrow> 's fleet \<Rightarrow> 's fleet" where
  "UpdateLastSeen S nid = update_node nid (\<lambda>n. n\<lparr>n_LastSeen := Some (sv_now S)\<rparr>)"

definition UpdateLastSync :: "'s SyncService \<Rightarrow> string \<Rightarrow> 's fleet \<Rightarrow> 's fleet" where
  "UpdateLastSync S nid = update_node nid (\<lambda>n. n\<lparr>n_LastSync := Some (sv_now S)\<rparr>)"

text \<open>Nodes of the configuration without a name or an endpoint are skipped; the fresh IDs are a parameter.\<close>

record NodeConfig =
  cfg_Name :: string
  cfg_Endpoint :: string
  cfg_APIKey :: string

fun InitFromConfig :: "(nat \<Rightarrow> string) \<Rightarrow> nat \<Rightarrow> NodeConfig list \<Rightarrow> (string, Node) gomap \<Rightarrow> (string, Node) gomap" where
  "InitFromConfig fresh k [] nodes = nodes"
| "InitFromConfig fresh k (cfg # cfgs) nodes =
     (if cfg_Name cfg = [] \<or> cfg_Endpoint cfg = [] then InitFromConfig fresh k cfgs nodes
      else InitFromConfig fresh (k + 1) cfgs
        (AList.update (''node_'' @ fresh k)
          \<lparr>n_ID = ''node_'' @ fresh k, n_Name = cfg_Name cfg, n_Endpoint = cfg_Endpoint cfg, n_ApiKey = cfg_APIKey cfg,
            n_Status = NodeStatusUnknown, n_LastSync = None, n_LastSeen = None\<rparr> nodes))"

text \<open>Listing asks every node for its statistics; an answer that fails is ignored.\<close>

definition list_nodes :: "'s SyncService \<Rightarrow> 's fleet \<Rightarrow> Node list \<times> 's fleet" where
  "list_nodes S w =
     (let nodes = map snd (fl_nodes w)
      in (nodes, fold (\<lambda>n w. snd (at_node S n client_GetStats w)) nodes w))"

definition SnapshotNodesForStats :: "'s fleet \<Rightarrow> Node list" where
  "SnapshotNodesForStats w = map (\<lambda>n. n\<lparr>n_LastSync := None, n_LastSeen := None\<rparr>) (map snd (fl_nodes w))"

section \<open>Results\<close>

record SyncResult =
  sr_Total :: int
  sr_Success :: int
  sr_Failures :: int
  sr_Errors :: "(string, string) gomap"

definition newSyncResult :: SyncResult where
  "newSyncResult = \<lparr>sr_Total = 0, sr_Success = 0, sr_Failures = 0, sr_Errors = []\<rparr>"

definition merge_error :: "string \<times> string \<Rightarrow> (string, string) gomap \<Rightarrow> (string, string) gomap" where
  "merge_error kv m =
     (case map_of m (fst kv) of
        Some existing \<Rightarrow> AList.update (fst kv) (existing @ ''; '' @ snd kv) m
      | None \<Rightarrow> AList.update (fst kv) (snd kv) m)"

definition mergeSyncResults :: "SyncResult \<Rightarrow> SyncResult \<Rightarrow> SyncResult" where
  "mergeSyncResults a b =
     \<lparr>sr_Total = sr_Total a + sr_Total b, sr_Success = sr_Success a + sr_Success b,
      sr_Failures = sr_Failures a + sr_Failures b, sr_Errors = fold merge_error (sr_Errors b) (sr_Errors a)\<rparr>"

text \<open>The log is a table of the database: a failing statement loses the row, and nobody is told.\<close>

definition sync_log :: "string \<Rightarrow> string \<Rightarrow> string \<Rightarrow> string \<times> string \<Rightarrow> 's fleet \<Rightarrow> 's fleet" where
  "sync_log nid action rid sm w =
     (case db_query (\<lambda>_. ()) (fl_store w) of
        (None, st) \<Rightarrow> w\<lparr>fl_store := st\<rparr>
      | (Some _, st) \<Rightarrow>
          w\<lparr>fl_store := st, fl_log := fl_log w @ [\<lparr>lg_NodeID = nid, lg_Action = action, lg_RuleID = rid,
              lg_Status = fst sm, lg_Error = snd sm\<rparr>]\<rparr>)"

section \<open>Retries\<close>

text \<open>
  \<^verbatim>\<open>for attempt := 0; attempt <= retryCount; attempt++\<close>: the last answer is kept, \<open>None\<close> if there was no
  attempt at all.
\<close>

function retry_loop :: "int \<Rightarrow> ('r \<Rightarrow> bool) \<Rightarrow> ('w \<Rightarrow> 'r \<times> 'w) \<Rightarrow> int \<Rightarrow> 'r option \<Rightarrow> 'w \<Rightarrow> 'r option \<times> 'w" where
  "retry_loop retryCount good call attempt got w =
     (if attempt \<le> retryCount then
        (let (r, w1) = call w
         in if good r then (Some r, w1) else retry_loop retryCount good call (attempt + 1) (Some r) w1)
      else (got, w))"
  by pat_completeness auto
termination by (relation "measure (\<lambda>(n, _, _, a, _, _). nat (n + 1 - a))") auto

declare retry_loop.simps [simp del]

type_synonym call_result = "client_error + Response"

text \<open>
  When a loop stops, and the status and message it ends with. Without an attempt the answer is a nil
  pointer: the additions dereference it, and the process is gone (\<open>None\<close>); the deletions take it for a
  success.
\<close>

definition add_good :: "call_result \<Rightarrow> bool" where
  "add_good r = (case r of Inl _ \<Rightarrow> False | Inr resp \<Rightarrow> rs_Success resp)"

definition add_status :: "call_result option \<Rightarrow> (string \<times> string) option" where
  "add_status r =
     (case r of
        None \<Rightarrow> None
      | Some (Inl e) \<Rightarrow> Some (''failed'', client_error_text e)
      | Some (Inr resp) \<Rightarrow> Some (if rs_Success resp then (''success'', []) else (''failed'', rs_Error resp)))"

definition itoa_int :: "int \<Rightarrow> string" where
  "itoa_int i = (if i < 0 then ''-'' @ itoa (nat (- i)) else itoa (nat i))"

definition add_batch_good :: "call_result \<Rightarrow> bool" where
  "add_batch_good r = (case r of Inl _ \<Rightarrow> False | Inr resp \<Rightarrow> rs_Success resp \<and> rs_Failed resp = 0)"

definition add_batch_status :: "call_result option \<Rightarrow> (string \<times> string) option" where
  "add_batch_status r =
     (case r of
        None \<Rightarrow> None
      | Some (Inl e) \<Rightarrow> Some (''failed'', client_error_text e)
      | Some (Inr resp) \<Rightarrow>
          Some (if \<not> rs_Success resp then (''failed'', rs_Error resp)
                else if rs_Failed resp > 0 then
                  (''partial'', ''added '' @ itoa_int (rs_Added resp) @ '', failed '' @ itoa_int (rs_Failed resp))
                else (''success'', [])))"

definition delete_batch_good :: "call_result \<Rightarrow> bool" where
  "delete_batch_good r = (case r of Inl _ \<Rightarrow> False | Inr resp \<Rightarrow> rs_Failed resp = 0)"

definition delete_batch_status :: "call_result option \<Rightarrow> (string \<times> string) option" where
  "delete_batch_status r =
     (case r of
        Some (Inl e) \<Rightarrow> Some (''failed'', client_error_text e)
      | Some (Inr resp) \<Rightarrow>
          Some (if rs_Failed resp > 0 then
                  (''partial'', ''deleted '' @ itoa_int (rs_Deleted resp) @ '', failed '' @ itoa_int (rs_Failed resp))
                else (''success'', []))
      | None \<Rightarrow> Some (''success'', []))"

definition delete_good :: "call_result \<Rightarrow> bool" where
  "delete_good r = (case r of Inl _ \<Rightarrow> False | Inr _ \<Rightarrow> True)"

definition delete_status :: "call_result option \<Rightarrow> (string \<times> string) option" where
  "delete_status r =
     (case r of
        Some (Inl e) \<Rightarrow> Some (''failed'', client_error_text e)
      | _ \<Rightarrow> Some (''success'', []))"

section \<open>One change to all nodes\<close>

text \<open>What the loop over the nodes does for one node: its status and message, or a crash.\<close>

type_synonym 's job = "Node \<Rightarrow> 's fleet \<Rightarrow> (string \<times> string) option \<times> 's fleet"

definition count_node :: "Node \<Rightarrow> string \<times> string \<Rightarrow> SyncResult \<Rightarrow> SyncResult" where
  "count_node n sm res =
     (if fst sm = ''success'' then res\<lparr>sr_Success := sr_Success res + 1\<rparr>
      else res\<lparr>sr_Failures := sr_Failures res + 1, sr_Errors := AList.update (n_Name n) (snd sm) (sr_Errors res)\<rparr>)"

fun fan_out :: "'s job \<Rightarrow> Node list \<Rightarrow> SyncResult \<Rightarrow> 's fleet \<Rightarrow> SyncResult option \<times> 's fleet" where
  "fan_out job [] res w = (Some res, w)"
| "fan_out job (n # ns) res w =
     (if n_Status n = NodeStatusOffline then fan_out job ns res w
      else case job n w of
             (None, w1) \<Rightarrow> (None, w1)
           | (Some sm, w1) \<Rightarrow> fan_out job ns (count_node n sm (res\<lparr>sr_Total := sr_Total res + 1\<rparr>)) w1)"

text \<open>Try the call on the node until it is good, then log the outcome.\<close>

definition retry_job ::
  "'s SyncService \<Rightarrow> (call_result \<Rightarrow> bool) \<Rightarrow> (call_result option \<Rightarrow> (string \<times> string) option) \<Rightarrow>
   ('s endpoint \<Rightarrow> 's \<Rightarrow> call_result \<times> 's) \<Rightarrow> string \<Rightarrow> string \<Rightarrow> 's job" where
  "retry_job S good status call action rid n w =
     (case retry_loop (sv_retryCount S) good (at_node S n call) 0 None w of
        (r, w1) \<Rightarrow>
          (case status r of
             None \<Rightarrow> (None, w1)
           | Some sm \<Rightarrow> (Some sm, sync_log (n_ID n) action rid sm w1)))"

definition to_nodes :: "'s SyncService \<Rightarrow> 's job \<Rightarrow> 's fleet \<Rightarrow> SyncResult option \<times> 's fleet" where
  "to_nodes S job w = (let (nodes, w1) = list_nodes S w in fan_out job nodes newSyncResult w1)"

definition sync_AddRule :: "'s SyncService \<Rightarrow> CRule \<Rightarrow> 's fleet \<Rightarrow> SyncResult option \<times> 's fleet" where
  "sync_AddRule S rule =
     to_nodes S (retry_job S add_good add_status (\<lambda>A. client_AddRule A (ToNodeRule rule)) ''add_rule'' (c_ID rule))"

definition sync_AddRulesBatch :: "'s SyncService \<Rightarrow> CRule list \<Rightarrow> 's fleet \<Rightarrow> SyncResult option \<times> 's fleet" where
  "sync_AddRulesBatch S rules w =
     (if rules = [] then (Some newSyncResult, w)
      else to_nodes S (retry_job S add_batch_good add_batch_status
             (\<lambda>A. client_AddRulesBatch A (map ToNodeRule rules)) ''batch_add_rules'' []) w)"

definition sync_DeleteRulesBatch :: "'s SyncService \<Rightarrow> string list \<Rightarrow> 's fleet \<Rightarrow> SyncResult option \<times> 's fleet" where
  "sync_DeleteRulesBatch S ids w =
     (if ids = [] then (Some newSyncResult, w)
      else to_nodes S (retry_job S delete_batch_good delete_batch_status
             (\<lambda>A. client_DeleteRulesBatch A ids) ''batch_delete_rules'' []) w)"

definition sync_DeleteRule :: "'s SyncService \<Rightarrow> string \<Rightarrow> 's fleet \<Rightarrow> SyncResult option \<times> 's fleet" where
  "sync_DeleteRule S rid =
     to_nodes S (retry_job S delete_good delete_status (\<lambda>A. client_DeleteRule A rid) ''delete_rule'' rid)"

definition sync_AddWhitelist :: "'s SyncService \<Rightarrow> CWhitelist \<Rightarrow> 's fleet \<Rightarrow> SyncResult option \<times> 's fleet" where
  "sync_AddWhitelist S entry =
     to_nodes S (retry_job S add_good add_status (\<lambda>A. client_AddWhitelist A (ToNodeWhitelist entry))
       ''add_whitelist'' (e_ID entry))"

definition sync_DeleteWhitelist :: "'s SyncService \<Rightarrow> string \<Rightarrow> 's fleet \<Rightarrow> SyncResult option \<times> 's fleet" where
  "sync_DeleteWhitelist S wid =
     to_nodes S (retry_job S delete_good delete_status (\<lambda>A. client_DeleteWhitelist A wid) ''delete_whitelist'' wid)"

definition sync_UpdateRule :: "'s SyncService \<Rightarrow> CRule \<Rightarrow> 's fleet \<Rightarrow> SyncResult option \<times> 's fleet" where
  "sync_UpdateRule S rule w =
     (case sync_DeleteRule S (c_ID rule) w of
        (None, w1) \<Rightarrow> (None, w1)
      | (Some delResult, w1) \<Rightarrow>
          (case sync_AddRule S rule w1 of
             (None, w2) \<Rightarrow> (None, w2)
           | (Some addResult, w2) \<Rightarrow> (Some (mergeSyncResults delResult addResult), w2)))"

section \<open>Full and differential syncs\<close>

datatype node_sync_error =
    WhitelistPartial int nat
  | WhitelistFailed client_error
  | NodeTooOld string
  | FallbackFailed client_sync_error

definition contains :: "string \<Rightarrow> string \<Rightarrow> bool" where
  "contains s sub = list_ex (\<lambda>k. take (length sub) (drop k s) = sub) [0..<length s + 1]"

definition isNotFoundError :: "client_error \<Rightarrow> bool" where
  "isNotFoundError e = (contains (client_error_text e) ''404'' \<or> contains (client_error_text e) ''not found'')"

definition syncWhitelistToNode ::
  "'s SyncService \<Rightarrow> Node \<Rightarrow> json_object list \<Rightarrow> 's fleet \<Rightarrow> node_sync_error option \<times> 's fleet" where
  "syncWhitelistToNode S n nodeWhitelist w =
     (case at_node S n (\<lambda>A. client_SyncWhitelist A nodeWhitelist) w of
        (Inr resp, w1) \<Rightarrow>
          (if rs_Failed resp > 0 then Some (WhitelistPartial (rs_Failed resp) (length nodeWhitelist)) else None, w1)
      | (Inl e, w1) \<Rightarrow> (Some (if isNotFoundError e then NodeTooOld (n_Name n) else WhitelistFailed e), w1))"

text \<open>The texts of these errors are left out: a message is only reported and logged.\<close>

definition SyncWhitelistFull :: "'s SyncService \<Rightarrow> (node_sync_error \<Rightarrow> string) \<Rightarrow> CWhitelist list \<Rightarrow> 's fleet \<Rightarrow> SyncResult option \<times> 's fleet" where
  "SyncWhitelistFull S text_of entries =
     to_nodes S (\<lambda>n w.
       case retry_loop (sv_retryCount S) (\<lambda>e. e = None) (syncWhitelistToNode S n (map ToNodeWhitelist entries)) 0 None w of
         (r, w1) \<Rightarrow>
           (let sm = (case r of Some (Some e) \<Rightarrow> (''failed'', text_of e) | _ \<Rightarrow> (''success'', []))
            in (Some sm, sync_log (n_ID n) ''full_whitelist_sync'' [] sm w1)))"

definition FullSyncToNode ::
  "'s SyncService \<Rightarrow> (node_sync_error \<Rightarrow> string) \<Rightarrow> Node \<Rightarrow> CRule list \<Rightarrow> CWhitelist list \<Rightarrow> 's fleet \<Rightarrow>
   node_sync_error option \<times> 's fleet" where
  "FullSyncToNode S text_of n rules whitelist w =
     (let nodeRules = map ToNodeRule rules;
          nodeWhitelist = map ToNodeWhitelist whitelist;
          fail = (\<lambda>e w. (Some e, sync_log (n_ID n) ''full_sync'' [] (''failed'', text_of e)
                    (UpdateStatus (n_ID n) NodeStatusOffline w)));
          succeed = (\<lambda>w. (None, sync_log (n_ID n) ''full_sync'' [] (''success'', [])
                    (UpdateLastSync S (n_ID n) (UpdateStatus (n_ID n) NodeStatusOnline w))))
      in case syncWhitelistToNode S n nodeWhitelist (UpdateStatus (n_ID n) NodeStatusSyncing w) of
           (Some e, w1) \<Rightarrow> fail e w1
         | (None, w1) \<Rightarrow>
             (case at_node S n (\<lambda>A. client_AtomicSync A nodeRules) w1 of
                (r, w2) \<Rightarrow>
                  if (case r of Inl _ \<Rightarrow> True | Inr resp \<Rightarrow> rs_Failed resp > 0) then
                    (case at_node S n (\<lambda>A. client_FullSync A nodeRules nodeWhitelist) w2 of
                       (Some e, w3) \<Rightarrow> fail (FallbackFailed e) w3
                     | (None, w3) \<Rightarrow> succeed w3)
                  else succeed w2))"

definition DiffSyncToNode ::
  "'s SyncService \<Rightarrow> (node_sync_error \<Rightarrow> string) \<Rightarrow> Node \<Rightarrow> CRule list \<Rightarrow> CWhitelist list \<Rightarrow> 's fleet \<Rightarrow>
   node_sync_error option \<times> 's fleet" where
  "DiffSyncToNode S text_of n rules whitelist w =
     (let nodeRules = map ToNodeRule rules;
          nodeWhitelist = map ToNodeWhitelist whitelist
      in case syncWhitelistToNode S n nodeWhitelist (UpdateStatus (n_ID n) NodeStatusSyncing w) of
           (Some _, w1) \<Rightarrow> FullSyncToNode S text_of n rules whitelist w1
         | (None, w1) \<Rightarrow>
             (case at_node S n (\<lambda>A. client_DiffSync A nodeRules nodeWhitelist) w1 of
                (Some e, w2) \<Rightarrow>
                  FullSyncToNode S text_of n rules whitelist
                    (sync_log (n_ID n) ''diff_sync'' [] (''failed'', text_of (FallbackFailed e)) w2)
              | (None, w2) \<Rightarrow>
                  (None, UpdateLastSync S (n_ID n) (UpdateStatus (n_ID n) NodeStatusOnline
                     (sync_log (n_ID n) ''diff_sync'' [] (''success'', []) w2)))))"

text \<open>The rules and entries every node gets, read once; an error of the store ends the call.\<close>

definition read_store :: "(Store \<Rightarrow> 'a option \<times> Store) \<Rightarrow> 's fleet \<Rightarrow> 'a option \<times> 's fleet" where
  "read_store q w = (let (r, st) = q (fl_store w) in (r, w\<lparr>fl_store := st\<rparr>))"

definition FullSyncAll :: "'s SyncService \<Rightarrow> (node_sync_error \<Rightarrow> string) \<Rightarrow> 's fleet \<Rightarrow> SyncResult option \<times> 's fleet" where
  "FullSyncAll S text_of w =
     (let (nodes, w1) = list_nodes S w
      in case read_store repo_ListEnabled w1 of
           (None, w2) \<Rightarrow> (Some newSyncResult, w2)
         | (Some rules, w2) \<Rightarrow>
             (case read_store repo_ListWhitelist w2 of
                (None, w3) \<Rightarrow> (Some newSyncResult, w3)
              | (Some whitelist, w3) \<Rightarrow>
                  fan_out (\<lambda>n w. case FullSyncToNode S text_of n rules whitelist w of
                             (None, w') \<Rightarrow> (Some (''success'', []), w')
                           | (Some e, w') \<Rightarrow> (Some (''failed'', text_of e), w')) nodes newSyncResult w3))"

fun diff_each ::
  "'s SyncService \<Rightarrow> (node_sync_error \<Rightarrow> string) \<Rightarrow> CRule list \<Rightarrow> CWhitelist list \<Rightarrow> Node list \<Rightarrow> 's fleet \<Rightarrow> 's fleet" where
  "diff_each S text_of rules whitelist [] w = w"
| "diff_each S text_of rules whitelist (n # ns) w =
     diff_each S text_of rules whitelist ns
       (if n_Status n = NodeStatusOffline then w else snd (DiffSyncToNode S text_of n rules whitelist w))"

definition DiffSyncToAllNodes :: "'s SyncService \<Rightarrow> (node_sync_error \<Rightarrow> string) \<Rightarrow> 's fleet \<Rightarrow> 's fleet" where
  "DiffSyncToAllNodes S text_of w =
     (let (nodes, w1) = list_nodes S w
      in case read_store repo_ListEnabled w1 of
           (None, w2) \<Rightarrow> w2
         | (Some rules, w2) \<Rightarrow>
             (case read_store repo_ListWhitelist w2 of
                (None, w3) \<Rightarrow> w3
              | (Some whitelist, w3) \<Rightarrow> diff_each S text_of rules whitelist nodes w3))"

text \<open>\<^verbatim>\<open>ForceSync\<close> of the node service.\<close>

datatype force_error = ForceNodeNotFound | ForceStoreFailed | ForceSyncFailed node_sync_error

definition ForceSync :: "'s SyncService \<Rightarrow> (node_sync_error \<Rightarrow> string) \<Rightarrow> string \<Rightarrow> 's fleet \<Rightarrow> force_error option \<times> 's fleet" where
  "ForceSync S text_of nid w =
     (case map_of (fl_nodes w) nid of
        None \<Rightarrow> (Some ForceNodeNotFound, w)
      | Some n \<Rightarrow>
          (case read_store repo_ListEnabled w of
             (None, w1) \<Rightarrow> (Some ForceStoreFailed, w1)
           | (Some rules, w1) \<Rightarrow>
               (case read_store repo_ListWhitelist w1 of
                  (None, w2) \<Rightarrow> (Some ForceStoreFailed, w2)
                | (Some whitelist, w2) \<Rightarrow>
                    (case FullSyncToNode S text_of n rules whitelist w2 of (e, w3) \<Rightarrow> (map_option ForceSyncFailed e, w3)))))"

section \<open>The calls of the services\<close>

text \<open>The calls that \<^theory_text>\<open>CtlRules\<close> returns, carried out in their order.\<close>

definition perform_sync ::
  "'s SyncService \<Rightarrow> (node_sync_error \<Rightarrow> string) \<Rightarrow> sync_action \<Rightarrow> 's fleet \<Rightarrow> SyncResult option \<times> 's fleet" where
  "perform_sync S text_of a =
     (case a of
        SyncAddRule r \<Rightarrow> sync_AddRule S r
      | SyncUpdateRule r \<Rightarrow> sync_UpdateRule S r
      | SyncDeleteRule rid \<Rightarrow> sync_DeleteRule S rid
      | SyncAddRulesBatch rs \<Rightarrow> sync_AddRulesBatch S rs
      | FullSyncToAllNodes \<Rightarrow> FullSyncAll S text_of
      | SyncAddWhitelist e \<Rightarrow> sync_AddWhitelist S e
      | SyncDeleteWhitelist wid \<Rightarrow> sync_DeleteWhitelist S wid)"

end
