(* ===== verification/AgentFleet.thy ===== *)
theory AgentFleet
  imports AgentSync Samples SyncService
begin

text \<open>
  A fleet whose nodes are agents: the full and the differential sync of \<^theory_text>\<open>SyncService\<close> over the contracts
  of \<^theory_text>\<open>AgentSync\<close>. The hash maps of a node may fail at any time, the network may lose any request and any
  answer; the configuration arrays are reliable, because the unchecked copy of an atomic sync needs them.
\<close>

section \<open>Atomic syncs of a node\<close>

subsection \<open>The ID space\<close>

lemma sync_rule_room:
  assumes n: "room (Suc (Suc k)) (cidrMgr h)" and s: "sync_rule K fresh r h b = (h', b')"
  shows "room k (cidrMgr h')"
proof -
  have mono: "room k (cidrMgr h)" using room_mono [OF n, of k] by simp
  have c: "room k (cidrMgr h1)" if sc: "sync_cidr K rid r action h b = (h1, b1)" for rid action h1 b1
  proof (cases "sync_cidr_checks r")
    case None
    then show ?thesis using sc mono by (simp add: sync_cidr_def)
  next
    case (Some q)
    obtain sc' dc cfm cfv where q: "q = (sc', dc, cfm, cfv)" by (cases q) auto
    obtain al m where al: "alloc_ids (trie K) sc' dc (cidrMgr h) = (al, m)" by force
    have "room k m" by (rule alloc_ids_room [OF n al])
    then show ?thesis
      using sc Some q al
      by (auto simp: sync_cidr_def Let_def with_mgr_def set_shadowCidrBlacklist_def split: if_splits sum.splits prod.splits)
  qed
  show ?thesis using s mono c
    by (auto simp: sync_rule_def sync_exact_def Let_def set_shadowBlacklist_def split: option.splits if_splits prod.splits)
qed

lemma sync_rules_room:
  "room (2 * length rs + k) (cidrMgr h) \<Longrightarrow> sync_rules K fresh n rs h b = (h', b') \<Longrightarrow> room k (cidrMgr h')"
proof (induction rs arbitrary: n h b)
  case (Cons r rs)
  obtain h1 b1 where s: "sync_rule K (fresh n) r h b = (h1, b1)" by force
  have "room (Suc (Suc (2 * length rs + k))) (cidrMgr h)" using Cons.prems(1) by simp
  from Cons.IH [OF sync_rule_room [OF this s]] Cons.prems(2) s show ?case by simp
qed simp

lemma release_all_room [simp]: "room k (release_all tw rs m) = room k m"
proof (induction rs arbitrary: m)
  case (Cons x rs)
  obtain a s where x: "x = (a, s)" by force
  have "room k (release_all tw (x # rs) m) = room k (release_all tw rs (release_ids tw (sc_SrcCIDR s) (sc_DstCIDR s) m))"
    by (simp only: x fold_simps prod.case comp_def)
  then show ?case unfolding Cons.IH room_Release .
qed simp

lemma set_shadowMap_mgr [simp]: "cidrMgr (set_shadowMap c h) = cidrMgr h"
  by (rule same_but_config_fields(19) [OF same_but_config_shadow])

lemma DoAtomicSync_room:
  assumes n: "room (2 * length rs + k) (cidrMgr h)" and s: "DoAtomicSync K fresh rs h = (r, h')"
  shows "room k (cidrMgr h')"
proof -
  have l: "room k (cidrMgr h1)" if "sync_rules K fresh 0 rs (clear_shadows K h) empty_build = (h1, b)" for h1 b
    by (rule sync_rules_room [OF _ that]) (use n in simp)
  have sl: "cidrMgr g' = cidrMgr g" if "switch_slot K g = (x, g')" for g g' x
    using that by (auto simp: switch_slot_def Let_def split: if_splits prod.splits)
  have sw: "room k (cidrMgr h2)" if q: "sync_switch K b h1 = (e, h2)" "room k (cidrMgr h1)" for b h1 e h2
    using q(1)
  proof (cases rule: sync_switch_cases)
    case (config x c)
    with q(2) show ?thesis by simp
  next
    case (flip x c g)
    with q(2) sl [OF flip(2)] show ?thesis by simp
  next
    case (switched c g)
    with q(2) sl [OF switched(3)] show ?thesis by (simp add: install_build_def)
  qed
  show ?thesis using s
  proof (cases rule: DoAtomicSync_cases)
    case (rules_failed h1 b)
    with l show ?thesis by simp
  next
    case (switched h1 b)
    from sw [OF switched(3) l [OF switched(1)]] show ?thesis .
  qed
qed

subsection \<open>The IDs held\<close>

lemma build_doms [simp]:
  "dom (map_of (sb_rules (build_exact rid s b))) = insert rid (dom (map_of (sb_rules b)))"
  "dom (map_of (sb_cidrRules (build_exact rid s b))) = dom (map_of (sb_cidrRules b))"
  "dom (map_of (sb_cidrRules (build_cidr rid c b))) = insert rid (dom (map_of (sb_cidrRules b)))"
  "dom (map_of (sb_rules (build_cidr rid c b))) = dom (map_of (sb_rules b))"
  "sb_rules (count_failed b) = sb_rules b" "sb_cidrRules (count_failed b) = sb_cidrRules b"
  by (auto simp: build_exact_def build_cidr_def count_failed_def)

lemma sync_rules_apart:
  "sync_rules K fresh n rs h b = (h', b') \<Longrightarrow> distinct (sync_ids fresh n rs) \<Longrightarrow>
   set (sync_ids fresh n rs) \<inter> (dom (map_of (sb_rules b)) \<union> dom (map_of (sb_cidrRules b))) = {} \<Longrightarrow>
   dom (map_of (sb_rules b)) \<inter> dom (map_of (sb_cidrRules b)) = {} \<Longrightarrow>
   dom (map_of (sb_rules b')) \<inter> dom (map_of (sb_cidrRules b')) = {}"
proof (induction rs arbitrary: n h b)
  case (Cons r rs)
  obtain h1 b1 where s: "sync_rule K (fresh n) r h b = (h1, b1)" by force
  have d: "sync_rules K fresh (n + 1) rs h1 b1 = (h', b')" using Cons.prems(1) s by simp
  let ?i = "rule_id (fresh n) (r_ID r)"
  have i: "?i \<notin> set (sync_ids fresh (n + 1) rs)" "distinct (sync_ids fresh (n + 1) rs)"
    "?i \<notin> dom (map_of (sb_rules b))" "?i \<notin> dom (map_of (sb_cidrRules b))"
    "set (sync_ids fresh (n + 1) rs) \<inter> (dom (map_of (sb_rules b)) \<union> dom (map_of (sb_cidrRules b))) = {}"
    using Cons.prems(2,3) by auto
  have "set (sync_ids fresh (n + 1) rs) \<inter> (dom (map_of (sb_rules b1)) \<union> dom (map_of (sb_cidrRules b1))) = {} \<and>
      dom (map_of (sb_rules b1)) \<inter> dom (map_of (sb_cidrRules b1)) = {}"
    by (rule sync_rule_outcome [OF s]) (use i Cons.prems(4) in \<open>auto simp del: sync_ids.simps\<close>)
  with Cons.IH [OF d i(2)] show ?case by blast
qed simp

lemma sync_ids_named: "\<forall>r \<in> set rs. r_ID r \<noteq> [] \<Longrightarrow> sync_ids fresh n rs = map r_ID rs"
  by (induction rs arbitrary: n) (auto simp: rule_id_def)

lemma sync_switch_tables:
  assumes "sync_switch K b h = (None, h')"
  shows "rules h' = sb_rules b" "cidrRules h' = sb_cidrRules b"
proof -
  have e: "rules (release_rules K rs g) = rules g" "cidrRules (release_rules K rs g) = cidrRules g" for rs and g :: "('a, 'b, 'c) Handlers"
    using view_fields(1,2) active_viewsD(1,2) [OF release_rules_frame(1)] by blast+
  have c: "rules (clear_shadows K g) = rules g" "cidrRules (clear_shadows K g) = cidrRules g" for g :: "('a, 'b, 'c) Handlers"
    using view_fields(1,2) active_viewsD(1,2) [OF clear_shadows_frame(1)] by blast+
  show "rules h' = sb_rules b" "cidrRules h' = sb_cidrRules b"
    using assms by (cases rule: sync_switch_cases; simp add: c e install_build_def)+
qed

text \<open>What a node must be for the contracts of the syncs, with room for \<open>n\<close> more rules.\<close>

definition node_ready :: "('c \<Rightarrow> bytes \<Rightarrow> bytes) \<Rightarrow> nat \<Rightarrow> ('m, 'c, 't) Handlers \<Rightarrow> bool" where
  "node_ready get n h \<longleftrightarrow> agent_inv get h \<and> ids_disjoint h \<and> [] \<notin> entries_held h \<and> room (2 * n) (cidrMgr h)"

lemma node_readyD:
  assumes "node_ready get n h"
  shows "agent_inv get h" "agent_ok get h" "tables_ok h" "ids_disjoint h" "[] \<notin> entries_held h" "room (2 * n) (cidrMgr h)"
  using assms agent_invD(1,3) [of get h] by (simp_all add: node_ready_def)

lemma node_ready_mono: "node_ready get n h \<Longrightarrow> m \<le> n \<Longrightarrow> node_ready get m h"
  using room_mono [of "2 * n" _ "2 * m"] by (auto simp: node_ready_def)

lemma same_wl: "wl_view h' = wl_view h \<Longrightarrow> entries_held h' = entries_held h"
  using view_fields(3) [of h' h] by (simp add: entries_held_def)

lemma not_wl_held:
  assumes "not_wl_views h' = not_wl_views h"
  shows "rules_held h' = rules_held h" "ids_disjoint h' = ids_disjoint h" "cidrMgr h' = cidrMgr h"
  using held_views [OF not_wlD(1,2) [OF assms]] not_wlD(4) [OF assms] by simp_all

lemma sync_copied_reliable:
  assumes "array_reliable (arr K) get"
  shows "sync_copied K h"
proof -
  obtain c where "copy_entries (arr K) (activeMap h) [0..<ConfigMapEntries] (shadowMap h) = (None, c)"
    using copy_entries_succeeds [OF assms] by blast
  then show ?thesis by (simp add: sync_copied_def)
qed

lemma DoAtomicSync_node:
  fixes h h' :: "('m, 'c, 't) Handlers"
  assumes H: "hash_laws (hash K) get" and A: "array_reliable (arr K) geta" and nr: "node_ready geta (length rs + k) h"
    and ids: "\<forall>r \<in> set rs. r_ID r \<noteq> []" "distinct (map r_ID rs)" and s: "DoAtomicSync K fresh rs h = ((x, e), h')"
  shows "node_ready geta k h'" "wl_view h' = wl_view h"
    "rules_held h' = (if e = None then r_ID ` set rs else rules_held h)"
proof -
  note N = node_readyD [OF nr] and A' = array_reliableD(1) [OF A]
  have si: "sync_ids fresh 0 rs = map r_ID rs" by (rule sync_ids_named [OF ids(1)])
  have d: "distinct (sync_ids fresh 0 rs)" using ids(2) si by simp
  have rm: "room (2 * length rs) (cidrMgr h)" "room (2 * length rs + 2 * k) (cidrMgr h)"
    using N(6) room_mono [OF N(6), of "2 * length rs"] by (simp_all add: algebra_simps)
  have inv: "agent_inv geta h'"
    using DoAtomicSync_keeps [OF H A' N(1) d rm(1) sync_copied_reliable [OF A] s] by (simp add: keeps_def)
  have r: "room (2 * k) (cidrMgr h')" by (rule DoAtomicSync_room [OF rm(2) s])
  note I = agent_invD [OF N(1)]
  have *: "wl_view h' = wl_view h \<and> rules_held h' = (if e = None then r_ID ` set rs else rules_held h) \<and> ids_disjoint h'"
  proof (cases e)
    case (Some y)
    note f = DoAtomicSync_failed [OF H A' I(4,3) d rm(1) s [unfolded Some]]
    then have u: "unchanged geta h h'" by blast
    note v = unchangedD(3,4,5) [OF u]
    with held_views [OF v(1,2)] N(4) Some show ?thesis by simp
  next
    case None
    note D = DoAtomicSync_done [OF H A' I(4,3) sel_okD(1) [OF I(2)] d rm(1) s [unfolded None]]
    have w: "wl_view h' = wl_view h" "dom (map_of (rules h')) \<union> dom (map_of (cidrRules h')) = set (sync_ids fresh 0 rs)"
      using D(4) unfolding synced_def by blast+
    obtain h1 b where l: "sync_rules K fresh 0 rs (clear_shadows K h) empty_build = (h1, b)" "sync_switch K b h1 = (None, h')"
      using s [unfolded None] by (cases rule: DoAtomicSync_cases) auto
    have t: "rules h' = sb_rules b" "cidrRules h' = sb_cidrRules b" using sync_switch_tables [OF l(2)] by simp_all
    have "dom (map_of (sb_rules b)) \<inter> dom (map_of (sb_cidrRules b)) = {}"
      by (rule sync_rules_apart [OF l(1) d]) (simp_all add: empty_build_def)
    moreover have "[] \<notin> set (sync_ids fresh 0 rs)" using ids(1) unfolding si by auto
    ultimately show ?thesis using w None unfolding ids_disjoint_def rules_held_def t si by simp
  qed
  then show "wl_view h' = wl_view h" "rules_held h' = (if e = None then r_ID ` set rs else rules_held h)" by blast+
  then show "node_ready geta k h'" using * inv r N(5) same_wl [of h' h] by (simp add: node_ready_def)
qed

lemma DoWhitelistAtomicSync_node:
  fixes h h' :: "('m, 'c, 't) Handlers"
  assumes H: "hash_laws (hash K) get" and A: "array_laws (arr K) geta" and nr: "node_ready geta k h"
    and s: "DoWhitelistAtomicSync K es h = (e, h')"
  shows "node_ready geta k h'" "rules_held h' = rules_held h"
    "entries_held h' = (if e = None then sw_ID ` set es else entries_held h)"
proof -
  note N = node_readyD [OF nr]
  note I = agent_invD [OF N(1)]
  have inv: "agent_inv geta h'" using DoWhitelistAtomicSync_keeps [OF H A N(1) s] by (simp add: keeps_def)
  have *: "rules_held h' = rules_held h \<and> entries_held h' = (if e = None then sw_ID ` set es else entries_held h) \<and>
      ids_disjoint h' \<and> cidrMgr h' = cidrMgr h \<and> [] \<notin> entries_held h'"
  proof (cases e)
    case (Some y)
    then have u: "unchanged geta h h' \<and> cidrMgr h' = cidrMgr h" using DoWhitelistAtomicSync_failed [OF A I(4)] s by blast
    note v = unchangedD(3,4,5) [OF conjunct1 [OF u]]
    with held_views [OF v(1,2)] same_wl [OF v(3)] N(4,5) u Some show ?thesis by simp
  next
    case None
    with s have d: "DoWhitelistAtomicSync K es h = (None, h')" by simp
    show ?thesis
    proof (rule DoWhitelistAtomicSync_done [OF H A I(4) sel_okD(2) [OF I(2)] d])
      fix items assume i: "wl_sync_items [] [] es = Inr items" "map_of (wlEntries h') = map_of items"
        and n: "not_wl_views (h'\<lparr>activeWLSlot := activeWLSlot h\<rparr>) = not_wl_views h"
      note io = wl_sync_items_ok [OF i(1)]
      have "entries_held h' = fst ` set items" by (simp add: entries_held_def i(2) dom_map_of_conv_image_fst)
      moreover have "fst ` set items = sw_ID ` set es" using io by (metis list.set_map)
      moreover have "[] \<notin> fst ` set items" using io by (auto simp: list_all_iff)
      moreover have "rules_held (h'\<lparr>activeWLSlot := activeWLSlot h\<rparr>) = rules_held h'"
        "ids_disjoint (h'\<lparr>activeWLSlot := activeWLSlot h\<rparr>) = ids_disjoint h'" by (simp_all add: rules_held_def ids_disjoint_def)
      ultimately show ?thesis using not_wl_held [OF n] N(4) None by simp
    qed
  qed
  then show "rules_held h' = rules_held h" "entries_held h' = (if e = None then sw_ID ` set es else entries_held h)"
    by blast+
  have "[] \<notin> entries_held h'" "ids_disjoint h'" "cidrMgr h' = cidrMgr h" using * by blast+
  then show "node_ready geta k h'" using inv N(6) by (simp add: node_ready_def)
qed

section \<open>The calls of the client\<close>

lemma decode_whitelist_id: "\<forall>x e i. decode_whitelist x = Some e \<longrightarrow> map_of x ''id'' = Some (JString i) \<longrightarrow> sw_ID e = i"
  by (auto simp: decode_whitelist_def json_string_def bind_eq_Some_conv)

lemma rules_held_finite [simp]: "finite (rules_held h)" "finite (entries_held h)"
  by (simp_all add: rules_held_def entries_held_def finite_dom_map_of)

lemma serve_sync_whitelist:
  assumes H: "hash_laws (hash K) get" and A: "array_laws (arr K) geta" and nr: "node_ready geta k h" and nm: "named xs js"
    and s: "agent_serve K fresh now (PostSyncWhitelist xs) h = (rep, h')"
  shows "node_ready geta k h' \<and> rules_held h' = rules_held h \<and> (entries_held h' = entries_held h \<or> entries_held h' = set js) \<and>
    ((\<exists>c. rep = refuse c \<and> 400 \<le> c) \<or> (\<exists>resp. rep = accept resp \<and> entries_held h' = set js))"
proof (cases "decode_all decode_whitelist xs")
  case None
  then have "h' = h" "rep = refuse 400" using s by (simp_all add: agent_serve_def)
  then show ?thesis using nr by auto
next
  case (Some es)
  note dn = decode_all_named [OF decode_whitelist_id nm Some]
  obtain e h1 where w: "DoWhitelistAtomicSync K es h = (e, h1)" by force
  note x = DoWhitelistAtomicSync_node [OF H A nr w, unfolded dn(2)]
  show ?thesis
  proof (cases e)
    case None
    then have "h' = h1" "rep = accept zero_response" using s Some w by (simp_all add: agent_serve_def)
    with x None show ?thesis by auto
  next
    case e: (Some y)
    then have "h' = h1" "\<exists>c. rep = refuse c \<and> 400 \<le> c" using s Some w by (auto simp: agent_serve_def)
    with x e show ?thesis by simp
  qed
qed

lemma serve_sync_atomic:
  assumes H: "hash_laws (hash K) get" and A: "array_reliable (arr K) geta" and nr: "node_ready geta (length xs + k) h" and nm: "named xs js"
    and s: "agent_serve K fresh now (PostSyncAtomic xs) h = (rep, h')"
  shows "node_ready geta k h' \<and> entries_held h' = entries_held h \<and> (rules_held h' = rules_held h \<or> rules_held h' = set js) \<and>
    ((\<exists>c. rep = refuse c \<and> 400 \<le> c) \<or> (\<exists>resp. rep = accept resp \<and> rules_held h' = set js))"
proof (cases "decode_all decode_rule xs")
  case None
  then have "h' = h" "rep = refuse 400" using s by (simp_all add: agent_serve_def)
  then show ?thesis using node_ready_mono [OF nr, of k] by auto
next
  case (Some rs)
  note dn = decode_all_named [OF decode_rule_id nm Some]
  obtain x e h1 where w: "DoAtomicSync K fresh rs h = ((x, e), h1)" by (cases "DoAtomicSync K fresh rs h") auto
  have d: "distinct (map r_ID rs)" using dn(1) nm by (simp add: named_def)
  note z = DoAtomicSync_node [OF H A nr [folded dn(4)] dn(3) d w, unfolded dn(2)]
  show ?thesis
  proof (cases e)
    case None
    then have "h' = h1" "\<exists>resp. rep = accept resp" using s Some w by (auto simp: agent_serve_def)
    with z None same_wl [OF z(2)] show ?thesis by auto
  next
    case e: (Some y)
    then have "h' = h1" "rep = refuse 500" using s Some w by (simp_all add: agent_serve_def)
    then show ?thesis using z e same_wl [OF z(2)] by auto
  qed
qed

locale synced_agent = remote_agent K E get for K :: "('m, 'c, 't) kernel" and E get +
  fixes hget :: "'m \<Rightarrow> bytes \<Rightarrow> bytes option"
  assumes hashes: "hash_laws (hash K) hget" and reliable: "array_reliable (arr K) get"
begin

lemma sync_whitelist:
  assumes nr: "node_ready get k (re_node s)" and nm: "named xs js" and c: "client_SyncWhitelist A xs s = (r, s')"
  shows "node_ready get k (re_node s') \<and> rules_held (re_node s') = rules_held (re_node s) \<and>
    (\<forall>resp. r = Inr resp \<longrightarrow> entries_held (re_node s') = set js)"
proof -
  from disjI1 [OF c [unfolded client_SyncWhitelist_def]] show ?thesis
  proof (rule read_post)
    fix e assume "r = Inl e" "re_node s' = re_node s"
    then show ?thesis using nr by auto
  next
    fix fresh now rep
    assume s: "agent_serve K fresh now (PostSyncWhitelist xs) (re_node s) = (rep, re_node s')"
      and f: "\<forall>c. 400 \<le> c \<longrightarrow> rep = refuse c \<longrightarrow> (\<exists>e. r = Inl e)"
    note x = serve_sync_whitelist [OF hashes arrays nr nm s]
    have "r = Inr y \<Longrightarrow> entries_held (re_node s') = set js" for y using x f by auto
    with x show ?thesis by blast
  qed
qed

lemma atomic_sync:
  assumes nr: "node_ready get (length xs + k) (re_node s)" and nm: "named xs js" and c: "client_AtomicSync A xs s = (r, s')"
  shows "node_ready get k (re_node s') \<and> entries_held (re_node s') = entries_held (re_node s) \<and>
    (rules_held (re_node s') = rules_held (re_node s) \<or> rules_held (re_node s') = set js) \<and>
    (\<forall>resp. r = Inr resp \<longrightarrow> rules_held (re_node s') = set js)"
proof -
  from disjI1 [OF c [unfolded client_AtomicSync_def]] show ?thesis
  proof (rule read_post)
    fix e assume "r = Inl e" "re_node s' = re_node s"
    then show ?thesis using node_ready_mono [OF nr, of k] by auto
  next
    fix fresh now rep
    assume s: "agent_serve K fresh now (PostSyncAtomic xs) (re_node s) = (rep, re_node s')"
      and f: "\<forall>c. 400 \<le> c \<longrightarrow> rep = refuse c \<longrightarrow> (\<exists>e. r = Inl e)"
    note x = serve_sync_atomic [OF hashes reliable nr nm s]
    have "r = Inr y \<Longrightarrow> rules_held (re_node s') = set js" for y using x f by auto
    with x show ?thesis by blast
  qed
qed

lemma ready_rooms:
  assumes "node_ready get n (re_node s)"
  shows "rules_room get (wl_view (re_node s)) n (re_node s)"
  using node_readyD [OF assms] by (simp add: rules_room_def)

lemma room_entries:
  assumes "rules_room get W n h" "W = wl_view h0" "[] \<notin> entries_held h0"
  shows "entries_room (not_wl_views h) h" "entries_held h = entries_held h0"
proof -
  have w: "wl_view h = wl_view h0" "wl_inv h" using assms(1,2) tables_okD(3) by (auto simp: rules_room_def agent_ok_def)
  show e: "entries_held h = entries_held h0" by (rule same_wl [OF w(1)])
  show "entries_room (not_wl_views h) h" using w(2) e assms(3) by (simp add: entries_room_def entries_ready_for_ids_def)
qed

text \<open>A differential sync without an error.\<close>

lemma diff_sync:
  assumes nr: "node_ready get (length rs) (re_node s)" and nm: "named rs js" "named es ks"
    and c: "client_DiffSync A rs es s = (None, s')"
  shows "rules_held (re_node s') = set js \<and> entries_held (re_node s') = set ks"
proof -
  obtain e s1 where d: "diff_items (rules_api A) rs s = (e, s1)" by force
  have e: "e = None" and w: "diff_items (whitelist_api A) es s1 = (None, s')"
    using c d by (auto simp: client_DiffSync_def split: option.splits)
  note r = rules.diff_items_converges [OF ready_rooms [OF nr] nm(1) d [unfolded e]]
  note er = room_entries [OF r(2) refl node_readyD(5) [OF nr]]
  note x = entries.diff_items_converges [OF er(1) nm(2) w]
  have "not_wl_views (re_node s') = not_wl_views (re_node s1)" using x(2) by (simp add: entries_room_def)
  from not_wl_held(1) [OF this] x(1) r(1) show ?thesis by simp
qed

text \<open>A legacy full sync without an error.\<close>

lemma full_sync:
  assumes nr: "node_ready get (length rs + card (rules_held (re_node s))) (re_node s)" and nm: "named rs js" "named es ks"
    and c: "client_FullSync A rs es s = (None, s')"
  shows "rules_held (re_node s') = set js \<and> entries_held (re_node s') = set ks"
proof -
  obtain e s1 where d: "replace_items (rules_api A) rs s = (e, s1)" by force
  have e: "e = None" and w: "replace_items (whitelist_api A) es s1 = (None, s')"
    using c d by (auto simp: client_FullSync_def split: option.splits)
  have r: "rules_held (re_node s1) = set js \<and> rules_room get (wl_view (re_node s)) 0 (re_node s1)"
    by (rule rules.replace_items_cases(1) [OF ready_rooms [OF nr] nm(1) _ d e]) simp
  note er = room_entries [OF conjunct2 [OF r] refl node_readyD(5) [OF nr]]
  have x: "entries_held (re_node s') = set ks \<and> entries_room (not_wl_views (re_node s1)) (re_node s')"
    by (rule entries.replace_items_cases(1) [OF er(1) nm(2) _ w refl]) simp
  have "not_wl_views (re_node s') = not_wl_views (re_node s1)" using x by (simp add: entries_room_def)
  from not_wl_held(1) [OF this] x r show ?thesis by simp
qed

end

end
