(* ===== verification/EntryDeliver.thy ===== *)
theory EntryDeliver
  imports CtlLoop WhitelistSync
begin

text \<open>
  From the controller's whitelist to the map of a node: on a reliable kernel the entries of a consistent
  store that constrain something and write no address as a wildcard all pass the node's checks, and the
  atomic sync of the whitelist goes through.
\<close>

section \<open>Entries at a node\<close>

definition effective_entry :: "CWhitelist \<Rightarrow> bool" where
  "effective_entry e \<longleftrightarrow> address_set (e_SrcIP e) \<or> address_set (e_DstIP e) \<or> e_SrcPort e \<noteq> 0 \<or> e_DstPort e \<noteq> 0 \<or> e_Protocol e \<noteq> []"

definition deliverable_entry :: "CWhitelist \<Rightarrow> bool" where
  "deliverable_entry e \<longleftrightarrow> valid_entry e \<and> effective_entry e \<and> plain_ip (e_SrcIP e) \<and> plain_ip (e_DstIP e)"

lemma entry_protocol:
  assumes "valid_entry e"
  obtains p where "parseProtocolStrict (e_Protocol e) = Inr p" "p = 0 \<longleftrightarrow> e_Protocol e = []"
proof -
  have "e_Protocol e \<in> set validProtocols" "e_Protocol e \<noteq> ''all''" using assms by (simp_all add: valid_entry_def)
  then show ?thesis using that by (auto simp: validProtocols_def parseProtocolStrict_def)
qed

lemma entry_ports:
  assumes "valid_entry e"
  shows "(of_int (e_SrcPort e) :: u16) = 0 \<longleftrightarrow> e_SrcPort e = 0" "(of_int (e_DstPort e) :: u16) = 0 \<longleftrightarrow> e_DstPort e = 0"
    "validatePortProtocolCompatNode (e_Protocol e) (of_int (e_SrcPort e)) (of_int (e_DstPort e)) = None"
proof -
  show z: "(of_int (e_SrcPort e) :: u16) = 0 \<longleftrightarrow> e_SrcPort e = 0" "(of_int (e_DstPort e) :: u16) = 0 \<longleftrightarrow> e_DstPort e = 0"
    using assms small_u16(1) unfolding valid_entry_def by blast+
  have "e_Protocol e \<in> set validProtocols" "e_Protocol e \<noteq> ''all''"
    "validatePortProtocolCompat (e_Protocol e) (e_SrcPort e) (e_DstPort e) = None" using assms by (simp_all add: valid_entry_def)
  with z show "validatePortProtocolCompatNode (e_Protocol e) (of_int (e_SrcPort e)) (of_int (e_DstPort e)) = None"
    by (auto simp: validProtocols_def validatePortProtocolCompatNode_def validatePortProtocolCompat_def
        portlessProtocols_def portlessProtocolsNode_def strings_ToLower_def lower_char_def split: if_splits)
qed

definition entry_key :: "CWhitelist \<Rightarrow> convert_error + RuleKey" where
  "entry_key e = whitelistToKey ((syncWhitelistFields (node_entry e))\<lparr>w_ID := []\<rparr>)"

lemma node_entry_simps [simp]:
  "sw_ID (node_entry e) = e_ID e" "sw_Protocol (node_entry e) = e_Protocol e" "sw_SrcPort (node_entry e) = of_int (e_SrcPort e)"
  "sw_DstPort (node_entry e) = of_int (e_DstPort e)" "sw_SrcIP (node_entry e) = e_SrcIP e" "sw_DstIP (node_entry e) = e_DstIP e"
  by (simp_all add: node_entry_def)

lemma entry_key_fields:
  assumes "entry_key e = Inr k"
  shows "ip_field (e_SrcIP e) = Some (rk_SrcIP k)" "ip_field (e_DstIP e) = Some (rk_DstIP k)"
    "htons (of_int (e_SrcPort e)) = rk_SrcPort k" "htons (of_int (e_DstPort e)) = rk_DstPort k"
    "parseProtocolStrict (e_Protocol e) = Inr (rk_Protocol k)"
  using assms by (auto simp: entry_key_def whitelistToKey_def syncWhitelistFields_def split: option.splits sum.splits)

lemma entry_key_ok:
  assumes "valid_entry e" "effective_entry e"
  obtains k where "entry_key e = Inr k" "validateComboType (getComboType k)"
proof -
  have c: "canonical_ip (e_SrcIP e)" "canonical_ip (e_DstIP e)" using assms(1) by (simp_all add: valid_entry_def)
  obtain a where a: "ip_field (e_SrcIP e) = Some a" "a = zero_IPAddr \<longleftrightarrow> \<not> address_set (e_SrcIP e)"
    using ip_field_canonical [OF c(1)] by blast
  obtain b where b: "ip_field (e_DstIP e) = Some b" "b = zero_IPAddr \<longleftrightarrow> \<not> address_set (e_DstIP e)"
    using ip_field_canonical [OF c(2)] by blast
  obtain p where p: "parseProtocolStrict (e_Protocol e) = Inr p" "p = 0 \<longleftrightarrow> e_Protocol e = []" using entry_protocol [OF assms(1)] .
  let ?k = "zero_RuleKey\<lparr>rk_SrcIP := a, rk_DstIP := b, rk_SrcPort := htons (of_int (e_SrcPort e)),
    rk_DstPort := htons (of_int (e_DstPort e)), rk_Protocol := p\<rparr>"
  have k: "entry_key e = Inr ?k" by (simp add: entry_key_def whitelistToKey_def syncWhitelistFields_def a(1) b(1) p(1))
  have z: "isZeroIP a \<longleftrightarrow> \<not> address_set (e_SrcIP e)" "isZeroIP b \<longleftrightarrow> \<not> address_set (e_DstIP e)"
    using isZero_iff ip_field_length a b unfolding isZeroIP_def by blast+
  have "validateComboType (getComboType ?k)"
    unfolding validate_getComboType using assms(2)
    by (auto simp: key_fields_def z entry_ports(1,2) [OF assms(1)] p(2) effective_entry_def)
  with that k show ?thesis by blast
qed

lemma entry_key_inj:
  assumes "deliverable_entry e" "deliverable_entry f" "entry_key e = Inr k" "entry_key f = Inr k"
  shows "same_entry e f"
proof -
  have v: "valid_entry e" "valid_entry f" "plain_ip (e_SrcIP e)" "plain_ip (e_DstIP e)" "plain_ip (e_SrcIP f)" "plain_ip (e_DstIP f)"
    using assms(1,2) by (simp_all add: deliverable_entry_def)
  have c: "canonical_ip (e_SrcIP e)" "canonical_ip (e_DstIP e)" "canonical_ip (e_SrcIP f)" "canonical_ip (e_DstIP f)"
    "e_SrcPort e \<in> {0..65535}" "e_DstPort e \<in> {0..65535}" "e_SrcPort f \<in> {0..65535}" "e_DstPort f \<in> {0..65535}"
    "e_Protocol e \<in> set validProtocols" "e_Protocol e \<noteq> ''all''" "e_Protocol f \<in> set validProtocols" "e_Protocol f \<noteq> ''all''"
    using v(1,2) by (simp_all add: valid_entry_def)
  note a = entry_key_fields [OF assms(3)] and b = entry_key_fields [OF assms(4)]
  have "e_SrcIP e = e_SrcIP f" "e_DstIP e = e_DstIP f"
    using ip_field_inj [OF c(1,3) v(3,5)] ip_field_inj [OF c(2,4) v(4,6)] a(1,2) b(1,2) by simp_all
  moreover have "e_SrcPort e = e_SrcPort f" "e_DstPort e = e_DstPort f"
    using small_u16_inj [OF c(5,7)] small_u16_inj [OF c(6,8)] htons_inj a(3,4) b(3,4) by metis+
  moreover have "e_Protocol e = e_Protocol f"
  proof -
    have "parseProtocolStrict (e_Protocol e) = parseProtocolStrict (e_Protocol f)" using a(5) b(5) by simp
    then show ?thesis using c(9-12) by (auto simp: validProtocols_def parseProtocolStrict_def)
  qed
  ultimately show ?thesis by (simp add: same_entry_def)
qed

fun entries_apart :: "CWhitelist list \<Rightarrow> bool" where
  "entries_apart [] = True"
| "entries_apart (e # es) = (deliverable_entry e \<and> e_ID e \<noteq> [] \<and> (\<forall>f \<in> set es. \<not> same_entry e f \<and> e_ID e \<noteq> e_ID f) \<and> entries_apart es)"

lemma stored_entries_apart:
  assumes "entries_ok rows" "distinct es" "set es \<subseteq> set rows" "\<forall>e \<in> set es. effective_entry e \<and> plain_ip (e_SrcIP e) \<and> plain_ip (e_DstIP e) \<and> e_ID e \<noteq> []"
  shows "entries_apart es"
  using assms(2-4)
proof (induction es)
  case (Cons e es)
  have e: "e \<in> set rows" "valid_entry e" using Cons.prems assms(1) by (auto simp: entries_ok_def)
  have "\<not> same_entry e f \<and> e_ID e \<noteq> e_ID f" if f: "f \<in> set es" for f
  proof -
    have r: "f \<in> set rows" "e \<noteq> f" using Cons.prems f by auto
    have "e_ID e \<noteq> e_ID f" using assms(1) e(1) r by (auto simp: entries_ok_def distinct_map inj_on_def)
    moreover from this have "\<not> same_entry e f" using assms(1) e(1) r(1) unfolding entries_ok_def by blast
    ultimately show ?thesis by blast
  qed
  moreover have "entries_apart es" using Cons by simp
  ultimately show ?case using Cons.prems e(2) by (simp add: deliverable_entry_def)
qed simp

lemma entries_accepted:
  "entries_apart es \<Longrightarrow> set (map e_ID es) \<inter> set ids = {} \<Longrightarrow> \<forall>e \<in> set es. \<forall>k \<in> set keys. entry_key e \<noteq> Inr k \<Longrightarrow>
   \<exists>items. wl_sync_items ids keys (map node_entry es) = Inr items"
proof (induction es arbitrary: ids keys)
  case (Cons e es)
  have d: "deliverable_entry e" "valid_entry e" "effective_entry e" "e_ID e \<noteq> []" "entries_apart es"
    using Cons.prems(1) by (simp_all add: deliverable_entry_def)
  obtain k where k: "entry_key e = Inr k" "validateComboType (getComboType k)" using entry_key_ok [OF d(2,3)] .
  have "entry_key f \<noteq> Inr k" if "f \<in> set es" for f
  proof
    assume f: "entry_key f = Inr k"
    have df: "deliverable_entry f" using d(5) that by (induction es) auto
    have "\<not> same_entry e f" using Cons.prems(1) that by auto
    with entry_key_inj [OF d(1) df k(1) f] show False by blast
  qed
  then have n: "\<forall>f \<in> set es. \<forall>q \<in> set (k # keys). entry_key f \<noteq> Inr q" using Cons.prems(3) by auto
  have i: "set (map e_ID es) \<inter> set (e_ID e # ids) = {}" using Cons.prems(1,2) by auto
  obtain items where r: "wl_sync_items (e_ID e # ids) (k # keys) (map node_entry es) = Inr items"
    using Cons.IH [OF d(5) i n] by blast
  have "e_ID e \<notin> set ids" "k \<notin> set keys" using Cons.prems(2,3) k(1) by auto
  then show ?case using k d(4) r entry_ports(3) [OF d(2)] by (simp add: Let_def entry_key_def [symmetric])
qed simp

section \<open>The sync goes through\<close>

text \<open>An iteration that nothing disturbs yields every key once.\<close>

definition iterates_once :: "'m hash_ops \<Rightarrow> ('m \<Rightarrow> bytes \<Rightarrow> bytes option) \<Rightarrow> bool" where
  "iterates_once ops get \<longleftrightarrow> (\<forall>m. distinct (Iterate ops m) \<and> set (Iterate ops m) \<subseteq> dom (get m))"

lemma clearMap_succeeds:
  assumes "hash_reliable ops get" "iterates_once ops get"
  obtains m' where "clearMap ops m = (None, m')" "get m' = Map.empty"
proof -
  have "fst (clear_loop ops (Iterate ops m) m 0) = 0"
    using clear_loop_reliable [OF assms(1)] assms(2) by (simp add: iterates_once_def)
  then obtain m' where c: "clearMap ops m = (None, m')" by (cases "clear_loop ops (Iterate ops m) m 0") (simp add: clearMap_def)
  with clearMap_content [OF hash_reliableD(1) [OF assms(1)] c] that show ?thesis by blast
qed

lemma wl_sync_write_succeeds:
  assumes R: "hash_reliable (hash K) get"
  shows "distinct (map (\<lambda>(w, k). ruleKeyToBytes k) items) \<Longrightarrow> \<forall>(w, k) \<in> set items. get sh (ruleKeyToBytes k) = None \<Longrightarrow>
    \<exists>x sh'. wl_sync_write K items sh es ix refs = (Inr x, sh')"
proof (induction items arbitrary: sh es ix refs)
  case (Cons i items)
  obtain w k where i: "i = (w, k)" by force
  obtain sh1 where u: "UpdateNoExist (hash K) sh (ruleKeyToBytes k) wlValue = (True, sh1)" "get sh1 = (get sh)(ruleKeyToBytes k \<mapsto> wlValue)"
    using hash_reliableD(2) [OF R, of sh "ruleKeyToBytes k"] Cons.prems(2) i by auto
  have "\<forall>(w, q) \<in> set items. get sh1 (ruleKeyToBytes q) = None"
    using Cons.prems u(2) by (fastforce simp: i image_iff)
  from Cons.IH [OF _ this] Cons.prems(1) u(1) show ?case by (simp add: i)
qed auto

lemma publish_wl_succeeds:
  assumes R: "array_reliable (arr K) get"
  shows "\<exists>h'. publishConfigUpdateForWLSync K cnt refs h = (None, h')"
proof -
  let ?A = "arr K"
  have "\<exists>c. and_then (copy_entries ?A (activeMap h) [0..<12] (shadowMap h)) (\<lambda>c. and_then (cfg_put ?A 1 cnt c) (\<lambda>c.
    and_then (cfg_put ?A 3 (combo_bitmap refs) c) (\<lambda>c. cfg_put ?A 8 (of_int (activeWLSlot h)) c))) = (None, c)"
    by (intro and_then_succeeds copy_entries_succeeds [OF R] cfg_put_succeeds [OF R])
  then obtain c where c: "and_then (copy_entries ?A (activeMap h) [0..<12] (shadowMap h)) (\<lambda>c. and_then (cfg_put ?A 1 cnt c) (\<lambda>c.
    and_then (cfg_put ?A 3 (combo_bitmap refs) c) (\<lambda>c. cfg_put ?A 8 (of_int (activeWLSlot h)) c))) = (None, c)" by blast
  have "publishConfigUpdateForWLSync K cnt refs h = switch_slot K (set_shadowMap c h)"
    by (simp only: publishConfigUpdateForWLSync_def Let_def c prod.case option.case)
  with switch_slot_succeeds [OF R] show ?thesis by simp
qed

lemma DoWhitelistAtomicSync_delivers:
  assumes R: "hash_reliable (hash K) get" "iterates_once (hash K) get" and A: "array_reliable (arr K) geta" and e: "entries_apart es"
  shows "\<exists>h'. DoWhitelistAtomicSync K (map node_entry es) h = (None, h')"
proof -
  obtain items where i: "wl_sync_items [] [] (map node_entry es) = Inr items" using entries_accepted [OF e, of "[]" "[]"] by auto
  have k: "distinct (map snd items)" "list_all (\<lambda>(w, k). w \<noteq> [] \<and> wf_RuleKey k \<and> validateComboType (getComboType k)) items"
    using wl_sync_items_ok [OF i] by blast+
  have d: "distinct (map (\<lambda>(w, k). ruleKeyToBytes k) items)"
    using k by (induction items) (fastforce simp: rule_key.enc_eq_iff list_all_iff image_iff)+
  obtain sh where c: "clearMap (hash K) (shadowWhitelist h) = (None, sh)" "get sh = Map.empty"
    using clearMap_succeeds [OF R] by blast
  have "\<exists>x sh1. wl_sync_write K items sh [] [] zero64 = (Inr x, sh1)"
    by (rule wl_sync_write_succeeds [OF R(1) d]) (simp add: c(2) split_beta)
  then obtain x sh1 where w: "wl_sync_write K items sh [] [] zero64 = (Inr x, sh1)" by blast
  obtain ws ix refs where x: "x = (ws, ix, refs)" by (cases x)
  obtain h3 where p: "publishConfigUpdateForWLSync K (of_nat (length items)) refs
      ((set_shadowWhitelist sh1 h)\<lparr>activeWLSlot := 1 - activeWLSlot (set_shadowWhitelist sh1 h), wlComboRefCount := refs\<rparr>) = (None, h3)"
    using publish_wl_succeeds [OF A] by blast
  show ?thesis by (simp add: DoWhitelistAtomicSync_def i c(1) w x p Let_def)
qed

end
