(* ===== verification/StartupSync.thy ===== *)
theory StartupSync
  imports AgentApi WhitelistSync SyncService
begin

text \<open>
  The sync of a node with the controller when it starts (\<^verbatim>\<open>node/agent/sync/controller_sync.go\<close>), and the
  listings of the controller's API it reads (\<^verbatim>\<open>api/rules.go\<close>, \<^verbatim>\<open>api/whitelist.go\<close>). The controller and
  the network are a state and a function that answers a request, as in \<^theory_text>\<open>NodeClient\<close>.
\<close>

section \<open>What the controller lists\<close>

text \<open>The marshalled forms; flags, times and statistics are values no node looks into.\<close>

definition rule_json :: "CRule \<Rightarrow> json_object" where
  "rule_json r =
     [(''id'', JString (c_ID r))] @
     opt_field (c_Name r \<noteq> []) ''name'' (JString (c_Name r)) @
     opt_field (c_SrcIP r \<noteq> []) ''src_ip'' (JString (c_SrcIP r)) @
     opt_field (c_DstIP r \<noteq> []) ''dst_ip'' (JString (c_DstIP r)) @
     opt_field (c_SrcCIDR r \<noteq> []) ''src_cidr'' (JString (c_SrcCIDR r)) @
     opt_field (c_DstCIDR r \<noteq> []) ''dst_cidr'' (JString (c_DstCIDR r)) @
     opt_field (c_SrcPort r \<noteq> 0) ''src_port'' (JInt (c_SrcPort r)) @
     opt_field (c_DstPort r \<noteq> 0) ''dst_port'' (JInt (c_DstPort r)) @
     opt_field (c_Protocol r \<noteq> []) ''protocol'' (JString (c_Protocol r)) @
     [(''action'', JString (c_Action r))] @
     opt_field (c_RateLimit r \<noteq> 0) ''rate_limit'' (JInt (c_RateLimit r)) @
     opt_field (c_PktLenMin r \<noteq> 0) ''pkt_len_min'' (JInt (c_PktLenMin r)) @
     opt_field (c_PktLenMax r \<noteq> 0) ''pkt_len_max'' (JInt (c_PktLenMax r)) @
     opt_field (c_TcpFlags r \<noteq> []) ''tcp_flags'' (JString (c_TcpFlags r)) @
     opt_field (c_MatchAnomaly r \<noteq> 0) ''match_anomaly'' (JInt (c_MatchAnomaly r)) @
     opt_field (c_Source r \<noteq> []) ''source'' (JString (c_Source r)) @
     opt_field (c_Comment r \<noteq> []) ''comment'' (JString (c_Comment r)) @
     [(''enabled'', JNested), (''created_at'', JNested)] @
     opt_field (c_ExpiresAt r \<noteq> None) ''expires_at'' JNested @
     [(''updated_at'', JNested)]"

definition whitelist_json :: "CWhitelist \<Rightarrow> json_object" where
  "whitelist_json w =
     [(''id'', JString (e_ID w))] @
     opt_field (e_Name w \<noteq> []) ''name'' (JString (e_Name w)) @
     opt_field (e_SrcIP w \<noteq> []) ''src_ip'' (JString (e_SrcIP w)) @
     opt_field (e_DstIP w \<noteq> []) ''dst_ip'' (JString (e_DstIP w)) @
     opt_field (e_SrcPort w \<noteq> 0) ''src_port'' (JInt (e_SrcPort w)) @
     opt_field (e_DstPort w \<noteq> 0) ''dst_port'' (JInt (e_DstPort w)) @
     opt_field (e_Protocol w \<noteq> []) ''protocol'' (JString (e_Protocol w)) @
     opt_field (e_Comment w \<noteq> []) ''comment'' (JString (e_Comment w)) @
     [(''created_at'', JNested)]"

text \<open>
  \<^verbatim>\<open>GET /api/v1/rules\<close> without parameters lists all rules, the disabled ones too, some of them with
  statistics; \<^verbatim>\<open>GET /api/v1/whitelist\<close> lists all entries.
\<close>

definition api_listAll :: "(string \<Rightarrow> bool) \<Rightarrow> Store \<Rightarrow> http_reply \<times> Store" where
  "api_listAll has_stats st =
     (case repo_List st of
        (None, st1) \<Rightarrow> (Reply 500 [] (Some zero_answer), st1)
      | (Some rows, st1) \<Rightarrow>
          (Reply 200 [] (Some (zero_answer\<lparr>an_rules :=
             map (\<lambda>r. rule_json r @ opt_field (has_stats (c_ID r)) ''stats'' JNested) rows\<rparr>)), st1))"

definition api_ListWhitelist :: "Store \<Rightarrow> http_reply \<times> Store" where
  "api_ListWhitelist st =
     (case repo_ListWhitelist st of
        (None, st1) \<Rightarrow> (Reply 500 [] (Some zero_answer), st1)
      | (Some es, st1) \<Rightarrow> (Reply 200 [] (Some (zero_answer\<lparr>an_entries := map whitelist_json es\<rparr>)), st1))"

definition controller_endpoint :: "(string \<Rightarrow> bool) \<Rightarrow> Store endpoint" where
  "controller_endpoint has_stats =
     \<lparr>http = (\<lambda>req st. case req of
         GetRules \<Rightarrow> api_listAll has_stats st
       | GetWhitelist \<Rightarrow> api_ListWhitelist st
       | _ \<Rightarrow> (Reply 404 [] None, st))\<rparr>"

section \<open>The node\<close>

text \<open>The struct the node decodes a rule into is its own \<^verbatim>\<open>Rule\<close> without the comment.\<close>

definition decode_fetched :: "json_object \<Rightarrow> Rule option" where
  "decode_fetched obj = decode_rule (filter (\<lambda>(k, v). k \<noteq> ''comment'') obj)"

definition FetchRules :: "'s endpoint \<Rightarrow> 's \<Rightarrow> (client_error + Rule list) \<times> 's" where
  "FetchRules A s =
     (case client_get A GetRules s of
        (Inl e, s1) \<Rightarrow> (Inl e, s1)
      | (Inr a, s1) \<Rightarrow> (case decode_all decode_fetched (an_rules a) of None \<Rightarrow> Inl Undecodable | Some rs \<Rightarrow> Inr rs, s1))"

definition FetchWhitelist :: "'s endpoint \<Rightarrow> 's \<Rightarrow> (client_error + SyncWhitelistEntry list) \<times> 's" where
  "FetchWhitelist A s =
     (case client_get A GetWhitelist s of
        (Inl e, s1) \<Rightarrow> (Inl e, s1)
      | (Inr a, s1) \<Rightarrow> (case decode_all decode_whitelist (an_entries a) of None \<Rightarrow> Inl Undecodable | Some es \<Rightarrow> Inr es, s1))"

text \<open>The state of the loop: the controller, the agent, and the number of attempts, which selects the fresh IDs.\<close>

record ('s, 'm, 'c, 't) startup =
  su_ctl :: 's
  su_agent :: "('m, 'c, 't) Handlers"
  su_tries :: nat

datatype startup_error =
    FetchFailed client_error
  | StartupWhitelistFailed wl_sync_error
  | StartupRulesFailed sync_error

definition startup_attempt ::
  "('m, 'c, 't) kernel \<Rightarrow> (nat \<Rightarrow> nat \<Rightarrow> string) \<Rightarrow> 's endpoint \<Rightarrow> ('s, 'm, 'c, 't) startup \<Rightarrow>
   startup_error option \<times> ('s, 'm, 'c, 't) startup" where
  "startup_attempt K fresh A st =
     (let st0 = st\<lparr>su_tries := su_tries st + 1\<rparr>
      in case FetchRules A (su_ctl st) of
           (Inl e, s1) \<Rightarrow> (Some (FetchFailed e), st0\<lparr>su_ctl := s1\<rparr>)
         | (Inr apiRules, s1) \<Rightarrow>
      (case FetchWhitelist A s1 of
           (Inl e, s2) \<Rightarrow> (Some (FetchFailed e), st0\<lparr>su_ctl := s2\<rparr>)
         | (Inr syncEntries, s2) \<Rightarrow>
      (case DoWhitelistAtomicSync K syncEntries (su_agent st) of
           (Some e, h1) \<Rightarrow> (Some (StartupWhitelistFailed e), st0\<lparr>su_ctl := s2, su_agent := h1\<rparr>)
         | (None, h1) \<Rightarrow>
      (case DoAtomicSync K (fresh (su_tries st)) apiRules h1 of
           ((_, Some e), h2) \<Rightarrow> (Some (StartupRulesFailed e), st0\<lparr>su_ctl := s2, su_agent := h2\<rparr>)
         | ((_, None), h2) \<Rightarrow> (None, st0\<lparr>su_ctl := s2, su_agent := h2\<rparr>)))))"

text \<open>A retry count of zero stands for the default.\<close>

definition startup_retries :: "int \<Rightarrow> int" where
  "startup_retries retryCount = (if retryCount = 0 then 3 else retryCount)"

text \<open>
  \<open>None\<close> is success; otherwise the last error, if there was an attempt. Before it gives up, the agent clears
  its whitelist.
\<close>

definition SyncOnStartup ::
  "('m, 'c, 't) kernel \<Rightarrow> (nat \<Rightarrow> nat \<Rightarrow> string) \<Rightarrow> 's endpoint \<Rightarrow> int \<Rightarrow> ('s, 'm, 'c, 't) startup \<Rightarrow>
   startup_error option option \<times> ('s, 'm, 'c, 't) startup" where
  "SyncOnStartup K fresh A retryCount st =
     (case retry_loop (startup_retries retryCount) (\<lambda>e. e = None) (startup_attempt K fresh A) 0 None st of
        (Some None, st1) \<Rightarrow> (None, st1)
      | (lastErr, st1) \<Rightarrow>
          (Some (Option.bind lastErr id), st1\<lparr>su_agent := snd (ClearAllWhitelistFromSync K (su_agent st1))\<rparr>))"

end
