(* ===== verification/FleetSync.thy ===== *)
theory FleetSync
  imports AgentFleet EntryDeliver StartupSync
begin

text \<open>
  The full and the differential sync of one node of the fleet, with the node table, and the sync of a node
  with the controller when it starts, on the contracts of \<^theory_text>\<open>AgentFleet\<close>.
\<close>

section \<open>The node table\<close>

text \<open>A call on a node changes only what is behind its endpoint.\<close>

lemma at_node_is:
  assumes "at_node S n call w = (r, w')"
  obtains s1 where "call (sv_connect S (n_ApiKey n)) (fl_remote w (n_Endpoint n)) = (r, s1)"
    "w' = w\<lparr>fl_remote := (fl_remote w)(n_Endpoint n := s1)\<rparr>"
  using assms by (auto simp: at_node_def Let_def split: prod.splits)

lemma at_node_frame:
  assumes "at_node S n call w = (r, w')"
  shows "fl_nodes w' = fl_nodes w" "fl_log w' = fl_log w" "fl_store w' = fl_store w" "e \<noteq> n_Endpoint n \<Longrightarrow> fl_remote w' e = fl_remote w e"
proof -
  obtain s1 where "w' = w\<lparr>fl_remote := (fl_remote w)(n_Endpoint n := s1)\<rparr>" using at_node_is [OF assms] by blast
  then show "fl_nodes w' = fl_nodes w" "fl_log w' = fl_log w" "fl_store w' = fl_store w" "e \<noteq> n_Endpoint n \<Longrightarrow> fl_remote w' e = fl_remote w e"
    by simp_all
qed

lemma update_node_table:
  "fl_remote (update_node nid f w) = fl_remote w" "fl_log (update_node nid f w) = fl_log w"
  "map_of (fl_nodes (update_node nid f w)) i = (if i = nid then map_option f (map_of (fl_nodes w) i) else map_of (fl_nodes w) i)"
  by (auto simp: update_node_def update_conv' split: option.splits)

lemmas table_updates = UpdateStatus_def UpdateLastSync_def UpdateLastSeen_def update_node_table

lemma sync_log_table [simp]: "fl_remote (sync_log nid a i sm w) = fl_remote w" "fl_nodes (sync_log nid a i sm w) = fl_nodes w"
  by (auto simp: sync_log_def split: prod.splits option.splits)

section \<open>The full sync of a node\<close>

lemma syncWhitelistToNode_ok:
  assumes "syncWhitelistToNode S n es w = (None, w')"
  obtains resp s1 where "client_SyncWhitelist (sv_connect S (n_ApiKey n)) es (fl_remote w (n_Endpoint n)) = (Inr resp, s1)"
    "w' = w\<lparr>fl_remote := (fl_remote w)(n_Endpoint n := s1)\<rparr>"
proof -
  obtain q w1 where a: "at_node S n (\<lambda>A. client_SyncWhitelist A es) w = (q, w1)" by force
  then obtain resp where q: "q = Inr resp" "w' = w1" using assms by (cases q) (auto simp: syncWhitelistToNode_def split: if_splits)
  from at_node_is [OF a] q that show ?thesis by blast
qed

lemma syncWhitelistToNode_frame:
  assumes "syncWhitelistToNode S n es w = (r, w')"
  shows "fl_nodes w' = fl_nodes w" "e \<noteq> n_Endpoint n \<Longrightarrow> fl_remote w' e = fl_remote w e"
proof -
  obtain q w1 where a: "at_node S n (\<lambda>A. client_SyncWhitelist A es) w = (q, w1)" by force
  have "w' = w1" using assms a by (auto simp: syncWhitelistToNode_def split: sum.splits)
  with at_node_frame [OF a] show "fl_nodes w' = fl_nodes w" "e \<noteq> n_Endpoint n \<Longrightarrow> fl_remote w' e = fl_remote w e" by simp_all
qed

text \<open>The calls of a full sync that went through.\<close>

lemma FullSyncToNode_ok:
  fixes w :: "'s fleet"
  defines "A n S \<equiv> sv_connect S (n_ApiKey n)"
  assumes "FullSyncToNode S text_of n rs es w = (None, w')"
  obtains s1 s2 s3 :: 's and resp r where
    "client_SyncWhitelist (A n S) (map ToNodeWhitelist es) (fl_remote w (n_Endpoint n)) = (Inr resp, s1)"
    "client_AtomicSync (A n S) (map ToNodeRule rs) s1 = (r, s2)"
    "(\<exists>x. r = Inr x) \<and> s3 = s2 \<or> client_FullSync (A n S) (map ToNodeRule rs) (map ToNodeWhitelist es) s2 = (None, s3)"
    "fl_remote w' = (fl_remote w)(n_Endpoint n := s3)"
    "map_of (fl_nodes w') (n_ID n) =
       map_option (\<lambda>m. m\<lparr>n_Status := NodeStatusOnline, n_LastSync := Some (sv_now S)\<rparr>) (map_of (fl_nodes w) (n_ID n))"
proof -
  let ?w0 = "UpdateStatus (n_ID n) NodeStatusSyncing w" and ?rs = "map ToNodeRule rs" and ?es = "map ToNodeWhitelist es"
  let ?done = "\<lambda>w. sync_log (n_ID n) ''full_sync'' [] (''success'', []) (UpdateLastSync S (n_ID n) (UpdateStatus (n_ID n) NodeStatusOnline w))"
  have w0: "fl_remote ?w0 = fl_remote w" by (simp add: table_updates)
  obtain e w1 where a: "syncWhitelistToNode S n ?es ?w0 = (e, w1)" by force
  have e: "e = None" using assms(2) a by (cases e) (auto simp: FullSyncToNode_def Let_def)
  obtain resp s1 where c1: "client_SyncWhitelist (A n S) ?es (fl_remote w (n_Endpoint n)) = (Inr resp, s1)"
    and w1: "w1 = ?w0\<lparr>fl_remote := (fl_remote ?w0)(n_Endpoint n := s1)\<rparr>"
    using syncWhitelistToNode_ok [OF a [unfolded e]] by (auto simp: A_def w0)
  obtain r w2 where b: "at_node S n (\<lambda>A. client_AtomicSync A ?rs) w1 = (r, w2)" by force
  obtain s2 where c2: "client_AtomicSync (A n S) ?rs s1 = (r, s2)" and w2: "w2 = w1\<lparr>fl_remote := (fl_remote w1)(n_Endpoint n := s2)\<rparr>"
    using at_node_is [OF b] by (auto simp: A_def w1)
  have "\<exists>s3 w3. w' = ?done w3 \<and> ((\<exists>x. r = Inr x) \<and> s3 = s2 \<or> client_FullSync (A n S) ?rs ?es s2 = (None, s3)) \<and>
      w3 = ?w0\<lparr>fl_remote := (fl_remote w)(n_Endpoint n := s3)\<rparr>"
  proof (cases "case r of Inl _ \<Rightarrow> True | Inr resp \<Rightarrow> rs_Failed resp > 0")
    case False
    then have "w' = ?done w2" "\<exists>x. r = Inr x" using assms(2) a e b by (auto simp: FullSyncToNode_def Let_def split: sum.splits)
    moreover have "w2 = ?w0\<lparr>fl_remote := (fl_remote w)(n_Endpoint n := s2)\<rparr>" by (simp add: w2 w1 w0)
    ultimately show ?thesis by blast
  next
    case True
    obtain f w3 where c: "at_node S n (\<lambda>A. client_FullSync A ?rs ?es) w2 = (f, w3)" by force
    have f: "f = None" "w' = ?done w3" using assms(2) a e b True c by (auto simp: FullSyncToNode_def Let_def split: option.splits)
    obtain s3 where c3: "client_FullSync (A n S) ?rs ?es s2 = (None, s3)" and w3: "w3 = w2\<lparr>fl_remote := (fl_remote w2)(n_Endpoint n := s3)\<rparr>"
      using at_node_is [OF c] f(1) by (auto simp: A_def w2)
    have "w3 = ?w0\<lparr>fl_remote := (fl_remote w)(n_Endpoint n := s3)\<rparr>" by (simp add: w3 w2 w1 w0)
    with f(2) c3 show ?thesis by blast
  qed
  then obtain s3 w3 where z: "w' = ?done w3" "(\<exists>x. r = Inr x) \<and> s3 = s2 \<or> client_FullSync (A n S) ?rs ?es s2 = (None, s3)"
    "w3 = ?w0\<lparr>fl_remote := (fl_remote w)(n_Endpoint n := s3)\<rparr>" by blast
  have "fl_remote w' = (fl_remote w)(n_Endpoint n := s3)" by (simp add: z(1,3) table_updates)
  moreover have "map_of (fl_nodes w') (n_ID n) =
      map_option (\<lambda>m. m\<lparr>n_Status := NodeStatusOnline, n_LastSync := Some (sv_now S)\<rparr>) (map_of (fl_nodes w) (n_ID n))"
    by (simp add: z(1,3) table_updates option.map_comp comp_def)
  ultimately show ?thesis using that c1 c2 z(2) by blast
qed

text \<open>One that failed left the node marked as offline.\<close>

lemma FullSyncToNode_failed:
  assumes "FullSyncToNode S text_of n rs es w = (Some e, w')"
  shows "map_of (fl_nodes w') (n_ID n) = map_option (\<lambda>m. m\<lparr>n_Status := NodeStatusOffline\<rparr>) (map_of (fl_nodes w) (n_ID n))"
proof -
  let ?w0 = "UpdateStatus (n_ID n) NodeStatusSyncing w" and ?rs = "map ToNodeRule rs" and ?es = "map ToNodeWhitelist es"
  obtain x w1 where a: "syncWhitelistToNode S n ?es ?w0 = (x, w1)" by force
  obtain r w2 where b: "at_node S n (\<lambda>A. client_AtomicSync A ?rs) w1 = (r, w2)" by force
  obtain f w3 where c: "at_node S n (\<lambda>A. client_FullSync A ?rs ?es) w2 = (f, w3)" by force
  have t: "fl_nodes w1 = fl_nodes ?w0" "fl_nodes w2 = fl_nodes ?w0" "fl_nodes w3 = fl_nodes ?w0"
    using syncWhitelistToNode_frame [OF a] at_node_frame(1) [OF b] at_node_frame(1) [OF c] by simp_all
  have "\<exists>v. fl_nodes v = fl_nodes ?w0 \<and> w' = sync_log (n_ID n) ''full_sync'' [] (''failed'', text_of e) (UpdateStatus (n_ID n) NodeStatusOffline v)"
    using assms a b c t by (cases x; cases f) (auto simp: FullSyncToNode_def Let_def split: sum.splits if_splits)
  then show ?thesis by (auto simp: table_updates option.map_comp comp_def)
qed

lemma named_rules: "distinct (map c_ID rs) \<Longrightarrow> [] \<notin> c_ID ` set rs \<Longrightarrow> named (map ToNodeRule rs) (map c_ID rs)"
  by (simp add: named_def ToNodeRule_def comp_def)

lemma named_entries: "distinct (map e_ID es) \<Longrightarrow> [] \<notin> e_ID ` set es \<Longrightarrow> named (map ToNodeWhitelist es) (map e_ID es)"
  by (simp add: named_def ToNodeWhitelist_def comp_def)

context remote_agent begin

lemma replaced_rules:
  assumes nr: "node_ready get (length xs + card (rules_held (re_node s))) (re_node s)" and nm: "named xs js"
    and c: "replace_items (rules_api A) xs s = (e, s')"
  shows "rules_held (re_node s') \<subseteq> rules_held (re_node s) \<union> set js" "e = None \<Longrightarrow> rules_held (re_node s') = set js"
    "e = Some (SnapshotFailed x) \<Longrightarrow> rules_held (re_node s') = rules_held (re_node s)"
    "e = Some (RolledBack f k) \<Longrightarrow> rules_held (re_node s) \<subseteq> rules_held (re_node s') \<and> k = card (rules_held (re_node s))"
proof -
  let ?n = "length xs + card (rules_held (re_node s))"
  have r: "rules_room get (wl_view (re_node s)) ?n (re_node s)" using node_readyD [OF nr] by (simp add: rules_room_def)
  note x = rules.replace_items_cases [OF r nm _ c]
  show "rules_held (re_node s') \<subseteq> rules_held (re_node s) \<union> set js" by (rule x(2)) simp
  show "e = None \<Longrightarrow> rules_held (re_node s') = set js" using x(1) by simp
  show "e = Some (SnapshotFailed x) \<Longrightarrow> rules_held (re_node s') = rules_held (re_node s)" using x(3) by simp
  show "e = Some (RolledBack f k) \<Longrightarrow> rules_held (re_node s) \<subseteq> rules_held (re_node s') \<and> k = card (rules_held (re_node s))"
    using x(4) by simp
qed

end

context synced_agent begin

lemma full_sync_node:
  assumes nr: "node_ready get (3 * length rs + card (rules_held (re_node s))) (re_node s)" and nm: "named rs js" "named es ks"
    and c: "client_SyncWhitelist A es s = (Inr resp, s1)" "client_AtomicSync A rs s1 = (r, s2)"
      "(\<exists>x. r = Inr x) \<and> s3 = s2 \<or> client_FullSync A rs es s2 = (None, s3)"
  shows "rules_held (re_node s3) = set js \<and> entries_held (re_node s3) = set ks"
proof -
  let ?c = "card (rules_held (re_node s))"
  note w = sync_whitelist [OF nr nm(2) c(1)]
  have l: "length rs + (length rs + (length rs + ?c)) = 3 * length rs + ?c" by simp
  have "node_ready get (length rs + (length rs + (length rs + ?c))) (re_node s1)"
    unfolding l using w by blast
  note x = atomic_sync [OF this nm(1) c(2)]
  from c(3) show ?thesis
  proof (elim disjE conjE exE)
    fix y assume "r = Inr y" "s3 = s2"
    with w x show ?thesis by auto
  next
    assume f: "client_FullSync A rs es s2 = (None, s3)"
    have "card (set js) \<le> length rs" using named_length [OF nm(1)] card_length [of js] by simp
    then have "card (rules_held (re_node s2)) \<le> length rs + ?c" using w x by auto
    then have "node_ready get (length rs + card (rules_held (re_node s2))) (re_node s2)"
      by (intro node_ready_mono [OF conjunct1 [OF x]]) simp
    from full_sync [OF this nm f] show ?thesis .
  qed
qed

end

lemma lawful_agent: "hash_laws (hash K) get \<Longrightarrow> array_reliable (arr K) geta \<Longrightarrow> synced_agent K geta get"
  using array_reliableD(1) [of "arr K" geta] by unfold_locales simp_all

section \<open>A full sync that goes through\<close>

text \<open>Nothing is lost on the way, and the kernel of the node is reliable.\<close>

lemma decode_all_works:
  assumes "\<forall>x \<in> set xs. f (g x) = Some (k x)"
  shows "decode_all f (map g xs) = Some (map k xs)"
  using assms by (auto simp: decode_all_def list_ex_iff)

lemma post_delivered:
  assumes "re_faults s = []" "agent_serve K (ae_uuid E (re_served s)) (ae_now E (re_served s)) req (re_node s) = (accept resp, h')"
  shows "client_post (agent_endpoint K E) req s = (Inr resp, s\<lparr>re_node := h', re_served := re_served s + 1\<rparr>)"
  using assms by (simp add: client_post_def agent_endpoint_def agent_http_def serve_next_def read_reply_def accept_def)

lemma SyncWhitelist_delivered:
  assumes R: "hash_reliable (hash K) get" "iterates_once (hash K) get" and A: "array_reliable (arr K) geta"
    and e: "entries_apart es" and f: "re_faults s = []"
  obtains s1 where "client_SyncWhitelist (agent_endpoint K E) (map ToNodeWhitelist es) s = (Inr zero_response, s1)" "re_faults s1 = []"
proof -
  have v: "\<forall>e \<in> set es. decode_whitelist (ToNodeWhitelist e) = Some (node_entry e)"
    using e by (induction es) (auto simp: deliverable_entry_def valid_entry_def intro: decode_ToNodeWhitelist)
  obtain h' where h': "DoWhitelistAtomicSync K (map node_entry es) (re_node s) = (None, h')"
    using DoWhitelistAtomicSync_delivers [OF R A e] by blast
  have "agent_serve K (ae_uuid E (re_served s)) (ae_now E (re_served s)) (PostSyncWhitelist (map ToNodeWhitelist es)) (re_node s) =
      (accept zero_response, h')"
    by (simp add: agent_serve_def decode_all_works [where f = decode_whitelist and g = ToNodeWhitelist and k = node_entry, OF v] h')
  from post_delivered [OF f this] that f show ?thesis by (simp add: client_SyncWhitelist_def)
qed

lemma AtomicSync_delivered:
  assumes R: "hash_reliable (hash K) get" "trie_accepts (trie K)" and A: "array_reliable (arr K) geta"
    and n: "node_ready geta (length rs) (re_node s)" and p: "pairwise_apart rs" and f: "re_faults s = []"
  obtains resp s1 where "client_AtomicSync (agent_endpoint K E) (map ToNodeRule rs) s = (Inr resp, s1)" "rs_Failed resp = 0" "re_faults s1 = []"
    "rs_Added resp = int (length rs)"
proof -
  have v: "\<forall>r \<in> set rs. decode_rule (ToNodeRule r) = Some (node_rule r)"
    using p by (induction rs) (auto simp: deliverable_def valid_rule_def intro: decode_ToNodeRule)
  have m: "mgr_inv (cidrMgr (re_node s))"
    using node_readyD(3) [OF n] by (auto simp: tables_ok_def ids_ok_def mgr_holds_def)
  obtain r h' where h': "DoAtomicSync K (ae_uuid E (re_served s)) (map node_rule rs) (re_node s) = ((r, None), h')"
    "as_Added r = int (length rs)" "as_Failed r = 0"
    using DoAtomicSync_delivers [OF R A m node_readyD(6) [OF n] p] by blast
  let ?resp = "zero_response\<lparr>rs_Success := True, rs_Added := as_Added r, rs_Failed := as_Failed r\<rparr>"
  have "agent_serve K (ae_uuid E (re_served s)) (ae_now E (re_served s)) (PostSyncAtomic (map ToNodeRule rs)) (re_node s) = (accept ?resp, h')"
    by (simp add: agent_serve_def decode_all_works [where f = decode_rule and g = ToNodeRule and k = node_rule, OF v] h'(1))
  from post_delivered [OF f this] that [of ?resp] f h' show ?thesis by (simp add: client_AtomicSync_def zero_response_def)
qed

lemma FullSyncToNode_delivered:
  fixes w :: "('m, 'c, 't) remote fleet"
  assumes R: "hash_reliable (hash K) get" "iterates_once (hash K) get" "trie_accepts (trie K)" and A: "array_reliable (arr K) geta"
    and S: "sv_connect S (n_ApiKey n) = agent_endpoint K E" and f: "re_faults (fl_remote w (n_Endpoint n)) = []"
    and nr: "node_ready geta (length rs) (re_node (fl_remote w (n_Endpoint n)))"
    and ok: "pairwise_apart rs" "entries_apart es" "named (map ToNodeWhitelist es) ks"
  shows "\<exists>w'. FullSyncToNode S text_of n rs es w = (None, w')"
proof -
  let ?w0 = "UpdateStatus (n_ID n) NodeStatusSyncing w" and ?e = "n_Endpoint n"
  have w0: "fl_remote ?w0 = fl_remote w" by (simp add: table_updates)
  obtain s1 where c1: "client_SyncWhitelist (agent_endpoint K E) (map ToNodeWhitelist es) (fl_remote w ?e) = (Inr zero_response, s1)" "re_faults s1 = []"
    using SyncWhitelist_delivered [OF R(1,2) A ok(2) f] .
  let ?w1 = "?w0\<lparr>fl_remote := (fl_remote w)(?e := s1)\<rparr>"
  have a: "syncWhitelistToNode S n (map ToNodeWhitelist es) ?w0 = (None, ?w1)"
    by (simp add: syncWhitelistToNode_def at_node_def S w0 c1(1) zero_response_def)
  have "synced_agent K geta get" by (rule lawful_agent [OF hash_reliableD(1) [OF R(1)] A])
  note n = synced_agent.sync_whitelist [OF this nr ok(3) c1(1)]
  then have n1: "node_ready geta (length rs) (re_node s1)" by blast
  obtain resp s2 where c2: "client_AtomicSync (agent_endpoint K E) (map ToNodeRule rs) s1 = (Inr resp, s2)" "rs_Failed resp = 0"
    using AtomicSync_delivered [OF R(1,3) A n1 ok(1) c1(2)] by metis
  have b: "at_node S n (\<lambda>A. client_AtomicSync A (map ToNodeRule rs)) ?w1 = (Inr resp, ?w1\<lparr>fl_remote := (fl_remote w)(?e := s2)\<rparr>)"
    by (simp add: at_node_def S c2(1))
  show ?thesis by (simp add: FullSyncToNode_def Let_def a b c2(2))
qed

end
