(* ===== verification/StartupFacts.thy ===== *)
theory StartupFacts
  imports FleetSync
begin

text \<open>
  The sync of a node when it starts, over the listings of the controller's API: what one attempt and the
  whole loop do to the node, with database statements failing at any point.
\<close>

section \<open>What the node reads\<close>

text \<open>The rule a node gets from a listing: as sent to it, but the protocol \<^verbatim>\<open>all\<close> is spelled out.\<close>

definition fetched_rule :: "CRule \<Rightarrow> Rule" where
  "fetched_rule r = (node_rule r)\<lparr>r_Protocol := c_Protocol r\<rparr>"

definition entry_fits :: "CWhitelist \<Rightarrow> bool" where
  "entry_fits e \<longleftrightarrow> e_SrcPort e \<in> {0..65535} \<and> e_DstPort e \<in> {0..65535}"

lemma map_of_filter_key: "j \<noteq> k \<Longrightarrow> map_of (filter (\<lambda>(i, v). i \<noteq> k) xs) j = map_of xs j"
  by (induction xs) auto

lemma map_of_filter_gone: "map_of (filter (\<lambda>(i, v). i \<noteq> k) xs) k = None"
  by (induction xs) auto

lemma get_opt_field: "map_of (opt_field b k v @ xs) j = (if b \<and> j = k then Some v else map_of xs j)"
  by (simp add: opt_field_def)

lemma get_cons_append: "map_of ([(k, v)] @ xs) j = (if j = k then Some v else map_of xs j)"
  by simp

lemma rule_json_get:
  "map_of (rule_json r) ''id'' = Some (JString (c_ID r))" "map_of (rule_json r) ''action'' = Some (JString (c_Action r))"
  "map_of (rule_json r) ''src_ip'' = (if c_SrcIP r = [] then None else Some (JString (c_SrcIP r)))"
  "map_of (rule_json r) ''dst_ip'' = (if c_DstIP r = [] then None else Some (JString (c_DstIP r)))"
  "map_of (rule_json r) ''src_cidr'' = (if c_SrcCIDR r = [] then None else Some (JString (c_SrcCIDR r)))"
  "map_of (rule_json r) ''dst_cidr'' = (if c_DstCIDR r = [] then None else Some (JString (c_DstCIDR r)))"
  "map_of (rule_json r) ''protocol'' = (if c_Protocol r = [] then None else Some (JString (c_Protocol r)))"
  "map_of (rule_json r) ''tcp_flags'' = (if c_TcpFlags r = [] then None else Some (JString (c_TcpFlags r)))"
  "map_of (rule_json r) ''src_port'' = (if c_SrcPort r \<noteq> 0 then Some (JInt (c_SrcPort r)) else None)"
  "map_of (rule_json r) ''dst_port'' = (if c_DstPort r \<noteq> 0 then Some (JInt (c_DstPort r)) else None)"
  "map_of (rule_json r) ''rate_limit'' = (if c_RateLimit r \<noteq> 0 then Some (JInt (c_RateLimit r)) else None)"
  "map_of (rule_json r) ''pkt_len_min'' = (if c_PktLenMin r \<noteq> 0 then Some (JInt (c_PktLenMin r)) else None)"
  "map_of (rule_json r) ''pkt_len_max'' = (if c_PktLenMax r \<noteq> 0 then Some (JInt (c_PktLenMax r)) else None)"
  "map_of (rule_json r) ''match_anomaly'' = (if c_MatchAnomaly r \<noteq> 0 then Some (JInt (c_MatchAnomaly r)) else None)"
  by (simp_all add: rule_json_def get_opt_field get_cons_append del: map_of_append)

lemma listed_rule_get:
  "k \<noteq> ''comment'' \<Longrightarrow> k \<noteq> ''stats'' \<Longrightarrow> map_of (filter (\<lambda>(k, v). k \<noteq> ''comment'') (rule_json r @ opt_field b ''stats'' JNested)) k = map_of (rule_json r) k"
  by (simp add: map_of_filter_key map_add_def split: option.splits)

lemma decode_fetched_rule:
  assumes "rule_fits r"
  shows "decode_fetched (rule_json r @ opt_field b ''stats'' JNested) = Some (fetched_rule r)"
proof -
  note f = assms [unfolded rule_fits_def]
  let ?o = "filter (\<lambda>(k, v). k \<noteq> ''comment'') (rule_json r @ opt_field b ''stats'' JNested)"
  have s: "json_string ''id'' ?o = Some (c_ID r)" "json_string ''action'' ?o = Some (c_Action r)"
    "json_string ''src_ip'' ?o = Some (c_SrcIP r)" "json_string ''dst_ip'' ?o = Some (c_DstIP r)"
    "json_string ''src_cidr'' ?o = Some (c_SrcCIDR r)" "json_string ''dst_cidr'' ?o = Some (c_DstCIDR r)"
    "json_string ''protocol'' ?o = Some (c_Protocol r)" "json_string ''tcp_flags'' ?o = Some (c_TcpFlags r)"
    by (simp_all only: json_string_def) (simp_all add: listed_rule_get rule_json_get del: filter_append map_of_append)
  have c: "json_string ''comment'' ?o = Some []" by (simp only: json_string_def map_of_filter_gone option.case)
  have n: "json_uint ''src_port'' ?o = Some (of_int (c_SrcPort r) :: u16)" "json_uint ''dst_port'' ?o = Some (of_int (c_DstPort r) :: u16)"
    "json_uint ''rate_limit'' ?o = Some (of_int (c_RateLimit r) :: u32)"
    "json_uint ''pkt_len_min'' ?o = Some (of_int (c_PktLenMin r) :: u16)"
    "json_uint ''pkt_len_max'' ?o = Some (of_int (c_PktLenMax r) :: u16)"
    "json_uint ''match_anomaly'' ?o = Some (of_int (c_MatchAnomaly r) :: u8)"
    using f by (simp_all only: json_uint_def) (auto simp: listed_rule_get rule_json_get simp del: filter_append map_of_append)
  show ?thesis by (simp only: decode_fetched_def decode_rule_def s c n bind.bind_lunit) (simp add: fetched_rule_def node_rule_def)
qed

lemma decode_listed_entry:
  assumes "entry_fits e"
  shows "decode_whitelist (whitelist_json e) = Some (node_entry e)"
proof -
  have g: "map_of (whitelist_json e) ''id'' = Some (JString (e_ID e))"
    "map_of (whitelist_json e) ''src_ip'' = (if e_SrcIP e = [] then None else Some (JString (e_SrcIP e)))"
    "map_of (whitelist_json e) ''dst_ip'' = (if e_DstIP e = [] then None else Some (JString (e_DstIP e)))"
    "map_of (whitelist_json e) ''src_port'' = (if e_SrcPort e \<noteq> 0 then Some (JInt (e_SrcPort e)) else None)"
    "map_of (whitelist_json e) ''dst_port'' = (if e_DstPort e \<noteq> 0 then Some (JInt (e_DstPort e)) else None)"
    "map_of (whitelist_json e) ''protocol'' = (if e_Protocol e = [] then None else Some (JString (e_Protocol e)))"
    by (simp_all add: whitelist_json_def map_add_def)
  have s: "json_string ''id'' (whitelist_json e) = Some (e_ID e)" "json_string ''src_ip'' (whitelist_json e) = Some (e_SrcIP e)"
    "json_string ''dst_ip'' (whitelist_json e) = Some (e_DstIP e)" "json_string ''protocol'' (whitelist_json e) = Some (e_Protocol e)"
    by (simp_all add: json_string_def g)
  have n: "json_uint ''src_port'' (whitelist_json e) = Some (of_int (e_SrcPort e) :: u16)"
    "json_uint ''dst_port'' (whitelist_json e) = Some (of_int (e_DstPort e) :: u16)"
    using assms by (auto simp: json_uint_def g entry_fits_def)
  show ?thesis by (simp add: decode_whitelist_def s n node_entry_def)
qed

section \<open>One attempt\<close>

text \<open>What a statement does to the store when it only reads.\<close>

lemma read_query_cases:
  assumes "db_query q st = (r, st')"
  shows "st_rules st' = st_rules st" "st_whitelist st' = st_whitelist st" "r = None \<or> r = Some (q st)"
  using assms by (auto simp: db_query_def split: list.splits if_splits)

lemma FetchRules_cases:
  assumes "FetchRules (controller_endpoint hs) st = (r, st')" "\<forall>r \<in> set (st_rules st). rule_fits r"
  shows "st_rules st' = st_rules st" "st_whitelist st' = st_whitelist st"
    "(\<exists>e. r = Inl e) \<or> r = Inr (map fetched_rule (newest_first (st_rules st)))"
proof -
  obtain q st1 where l: "repo_List st = (q, st1)" by force
  note d = read_query_cases [OF l [unfolded repo_List_def]]
  let ?os = "map (\<lambda>r. rule_json r @ opt_field (hs (c_ID r)) ''stats'' JNested) (newest_first (st_rules st))"
  have o: "decode_all decode_fetched ?os = Some (map fetched_rule (newest_first (st_rules st)))"
    by (rule decode_all_works) (use assms(2) decode_fetched_rule in \<open>simp add: newest_first_def\<close>)
  have "(st' = st1) \<and> ((\<exists>e. r = Inl e) \<or> r = Inr (map fetched_rule (newest_first (st_rules st))))"
    using d(3)
  proof
    assume "q = None"
    with assms(1) l show ?thesis by (auto simp: FetchRules_def client_get_def controller_endpoint_def api_listAll_def)
  next
    assume "q = Some (newest_first (st_rules st))"
    with assms(1) l o show ?thesis by (auto simp: FetchRules_def client_get_def controller_endpoint_def api_listAll_def simp del: map_map)
  qed
  with d show "st_rules st' = st_rules st" "st_whitelist st' = st_whitelist st"
    "(\<exists>e. r = Inl e) \<or> r = Inr (map fetched_rule (newest_first (st_rules st)))" by simp_all
qed

lemma FetchWhitelist_cases:
  assumes "FetchWhitelist (controller_endpoint hs) st = (r, st')" "\<forall>e \<in> set (st_whitelist st). entry_fits e"
  shows "st_rules st' = st_rules st" "st_whitelist st' = st_whitelist st"
    "(\<exists>e. r = Inl e) \<or> (\<exists>es. set es = set (st_whitelist st) \<and> r = Inr (map node_entry es))"
proof -
  obtain q st1 where l: "repo_ListWhitelist st = (q, st1)" by force
  note d = read_query_cases [OF l [unfolded repo_ListWhitelist_def]]
  let ?es = "sort_key (\<lambda>e. - e_CreatedAt e) (st_whitelist st)"
  have o: "decode_all decode_whitelist (map whitelist_json ?es) = Some (map node_entry ?es)"
    by (rule decode_all_works) (use assms(2) decode_listed_entry in simp)
  have "(st' = st1) \<and> ((\<exists>e. r = Inl e) \<or> (\<exists>es. set es = set (st_whitelist st) \<and> r = Inr (map node_entry es)))"
    using d(3)
  proof
    assume "q = None"
    with assms(1) l show ?thesis by (auto simp: FetchWhitelist_def client_get_def controller_endpoint_def api_ListWhitelist_def)
  next
    assume "q = Some ?es"
    with assms(1) l o have "st' = st1" "r = Inr (map node_entry ?es)"
      by (auto simp: FetchWhitelist_def client_get_def controller_endpoint_def api_ListWhitelist_def)
    then show ?thesis using set_sort by metis
  qed
  with d show "st_rules st' = st_rules st" "st_whitelist st' = st_whitelist st"
    "(\<exists>e. r = Inl e) \<or> (\<exists>es. set es = set (st_whitelist st) \<and> r = Inr (map node_entry es))" by simp_all
qed

lemma fetched_ids: "r_ID (fetched_rule r) = c_ID r"
  by (simp add: fetched_rule_def node_rule_def)

text \<open>What the loop may rely on: the store, and a node with room for \<open>k\<close> more attempts.\<close>

definition startup_inv ::
  "('c \<Rightarrow> bytes \<Rightarrow> bytes) \<Rightarrow> CRule list \<Rightarrow> CWhitelist list \<Rightarrow> nat \<Rightarrow> (Store, 'm, 'c, 't) startup \<Rightarrow> bool" where
  "startup_inv get rows es k st \<longleftrightarrow> st_rules (su_ctl st) = rows \<and> st_whitelist (su_ctl st) = es \<and>
     node_ready get (k * length rows) (su_agent st)"

lemma startup_attempt_outcome:
  fixes st :: "(Store, 'm, 'c, 't) startup"
  assumes H: "hash_laws (hash K) get" and A: "array_reliable (arr K) geta"
    and fits: "\<forall>r \<in> set rows. rule_fits r \<and> c_ID r \<noteq> []" "\<forall>e \<in> set es. entry_fits e" and d: "distinct (map c_ID rows)"
    and i: "startup_inv geta rows es (Suc k) st" and a: "startup_attempt K fresh (controller_endpoint hs) st = (e, st')"
  shows "startup_inv geta rows es k st' \<and>
    (if e = None then rules_held (su_agent st') = c_ID ` set rows \<and> entries_held (su_agent st') = e_ID ` set es
     else rules_held (su_agent st') = rules_held (su_agent st))"
proof -
  have ctl: "st_rules (su_ctl st) = rows" "st_whitelist (su_ctl st) = es" and nr: "node_ready geta (length rows + k * length rows) (su_agent st)"
    using i by (simp_all add: startup_inv_def)
  have nk: "node_ready geta (k * length rows) (su_agent st)" by (rule node_ready_mono [OF nr]) simp
  let ?rs = "map fetched_rule (newest_first rows)"
  obtain r s1 where f: "FetchRules (controller_endpoint hs) (su_ctl st) = (r, s1)" by force
  note fc = FetchRules_cases [OF f, unfolded ctl]
  have r1: "st_rules s1 = rows" "st_whitelist s1 = es" "(\<exists>e. r = Inl e) \<or> r = Inr ?rs" using fc fits(1) by simp_all
  obtain q s2 where g: "FetchWhitelist (controller_endpoint hs) s1 = (q, s2)" by force
  note gc = FetchWhitelist_cases [OF g, unfolded r1(1,2), OF fits(2)]
  show ?thesis
  proof (cases "r = Inr ?rs \<and> (\<exists>ws. set ws = set es \<and> q = Inr (map node_entry ws))")
    case False
    then have "su_agent st' = su_agent st \<and> e \<noteq> None \<and> (su_ctl st' = s1 \<or> su_ctl st' = s2)"
      using a f g r1(3) gc(3) by (auto simp: startup_attempt_def Let_def)
    then show ?thesis using r1 gc(1,2) nk by (auto simp: startup_inv_def)
  next
    case True
    then obtain ws where ws: "set ws = set es" "q = Inr (map node_entry ws)" and r: "r = Inr ?rs" by blast
    obtain x h1 where w: "DoWhitelistAtomicSync K (map node_entry ws) (su_agent st) = (x, h1)" by force
    note wl = DoWhitelistAtomicSync_node [OF H array_reliableD(1) [OF A] nr w]
    have we: "sw_ID ` set (map node_entry ws) = e_ID ` set es" using ws(1) by (simp add: image_image node_entry_def)
    show ?thesis
    proof (cases x)
      case (Some y)
      then have "su_agent st' = h1 \<and> e \<noteq> None \<and> su_ctl st' = s2"
        using a f g r ws(2) w by (auto simp: startup_attempt_def Let_def)
      moreover have "node_ready geta (k * length rows) h1" by (rule node_ready_mono [OF wl(1)]) simp
      ultimately show ?thesis using wl(2) gc(1,2) by (auto simp: startup_inv_def)
    next
      case None
      obtain y z h2 where s: "DoAtomicSync K (fresh (su_tries st)) ?rs h1 = ((y, z), h2)" by (cases "DoAtomicSync K (fresh (su_tries st)) ?rs h1") auto
      have st': "su_agent st' = h2 \<and> (e = None \<longleftrightarrow> z = None) \<and> su_ctl st' = s2"
        using a f g r ws(2) w None s by (cases z) (auto simp: startup_attempt_def Let_def simp del: map_map)
      have n: "node_ready geta (length ?rs + k * length rows) h1" using wl(1) by (simp add: newest_first_def)
      have ids: "\<forall>r \<in> set ?rs. r_ID r \<noteq> []" using fits(1) by (auto simp: fetched_ids newest_first_def)
      have m: "map r_ID ?rs = map c_ID (newest_first rows)" by (simp add: fetched_ids)
      have "mset (map c_ID (newest_first rows)) = mset (map c_ID rows)" by (simp add: newest_first_def)
      then have dd: "distinct (map r_ID ?rs)" unfolding m using d by (metis mset_eq_imp_distinct_iff)
      note ds = DoAtomicSync_node [OF H A n ids dd s]
      have rid: "r_ID ` set ?rs = c_ID ` set rows" by (simp add: image_image fetched_ids newest_first_def)
      have "entries_held h2 = entries_held h1" using same_wl ds(2) .
      then show ?thesis using st' ds(1,3) wl(2,3) gc(1,2) None rid we by (auto simp: startup_inv_def)
    qed
  qed
qed

section \<open>The loop\<close>

lemma startup_loop_outcome:
  fixes st :: "(Store, 'm, 'c, 't) startup"
  assumes H: "hash_laws (hash K) get" and A: "array_reliable (arr K) geta"
    and fits: "\<forall>r \<in> set rows. rule_fits r \<and> c_ID r \<noteq> []" "\<forall>e \<in> set es. entry_fits e" and d: "distinct (map c_ID rows)"
  shows "retry_loop n (\<lambda>e. e = None) (startup_attempt K fresh (controller_endpoint hs)) a got st = (r, st') \<Longrightarrow>
    startup_inv geta rows es (nat (n + 1 - a)) st \<Longrightarrow> got \<noteq> Some None \<Longrightarrow>
    startup_inv geta rows es 0 st' \<and>
    (if r = Some None then rules_held (su_agent st') = c_ID ` set rows \<and> entries_held (su_agent st') = e_ID ` set es
     else rules_held (su_agent st') = rules_held (su_agent st))"
proof (induction n "\<lambda>e :: startup_error option. e = None" "startup_attempt K fresh (controller_endpoint hs)" a got st rule: retry_loop.induct)
  case (1 n a got st)
  have z: "startup_inv geta rows es 0 v" if "startup_inv geta rows es j v" for j and v :: "(Store, 'm, 'c, 't) startup"
    using that node_ready_mono by (auto simp: startup_inv_def)
  show ?case
  proof (cases "a \<le> n")
    case False
    then have "r = got" "st' = st" using 1(2) by (simp_all add: retry_loop.simps [of n])
    then show ?thesis using z 1(3,4) by auto
  next
    case True
    obtain e st1 where c: "startup_attempt K fresh (controller_endpoint hs) st = (e, st1)" by force
    have k: "nat (n + 1 - a) = Suc (nat (n + 1 - (a + 1)))" using True by simp
    note o = startup_attempt_outcome [OF H A fits d 1(3) [unfolded k] c]
    show ?thesis
    proof (cases e)
      case None
      then have "r = Some None" "st' = st1" using 1(2) True c by (simp_all add: retry_loop.simps [of n])
      then show ?thesis using o None z by auto
    next
      case (Some x)
      have l: "retry_loop n (\<lambda>e. e = None) (startup_attempt K fresh (controller_endpoint hs)) (a + 1) (Some e) st1 = (r, st')"
        using 1(2) True c Some by (simp add: retry_loop.simps [of n _ _ a])
      from 1(1) [OF True c [symmetric] refl _ l conjunct1 [OF o]] o Some show ?thesis by auto
    qed
  qed
qed

end
