(* ===== verification/Scheduler.thy ===== *)
theory Scheduler
  imports SyncService
begin

text \<open>
  The two periodic checks of the controller (\<^verbatim>\<open>scheduler/health_checker.go\<close>, \<^verbatim>\<open>scheduler/sync_checker.go\<close>).
  A round is one step; the guard against overlapping rounds has nothing to do here.
\<close>

section \<open>Health\<close>

definition offlineThreshold :: int where
  "offlineThreshold = 3"

text \<open>The failed pings in a row, by node.\<close>

type_synonym fail_counts = "(string, int) gomap"

definition fail_count :: "string \<Rightarrow> fail_counts \<Rightarrow> int" where
  "fail_count nid fc = (case map_of fc nid of None \<Rightarrow> 0 | Some k \<Rightarrow> k)"

definition health_checkNode :: "'s SyncService \<Rightarrow> Node \<Rightarrow> fail_counts \<times> 's fleet \<Rightarrow> fail_counts \<times> 's fleet" where
  "health_checkNode S n st =
     (case st of (fc, w) \<Rightarrow>
     (case at_node S n client_Ping w of
        (Some _, w1) \<Rightarrow>
          (let count = fail_count (n_ID n) fc + 1
           in (AList.update (n_ID n) count fc,
               if count \<ge> offlineThreshold \<and> n_Status n \<noteq> NodeStatusOffline then UpdateStatus (n_ID n) NodeStatusOffline w1
               else w1))
      | (None, w1) \<Rightarrow>
          (AList.delete (n_ID n) fc,
           UpdateLastSeen S (n_ID n)
             (if n_Status n \<noteq> NodeStatusOnline then UpdateStatus (n_ID n) NodeStatusOnline w1 else w1))))"

definition health_check :: "'s SyncService \<Rightarrow> fail_counts \<times> 's fleet \<Rightarrow> fail_counts \<times> 's fleet" where
  "health_check S st =
     (let (nodes, w1) = list_nodes S (snd st) in fold (health_checkNode S) nodes (fst st, w1))"

section \<open>Consistency\<close>

text \<open>A count of the statistics; anything but a number counts as zero.\<close>

definition stats_count :: "string \<Rightarrow> json_object \<Rightarrow> int" where
  "stats_count k stats = (case map_of stats k of Some (JInt i) \<Rightarrow> i | _ \<Rightarrow> 0)"

definition sync_checkNode ::
  "'s SyncService \<Rightarrow> (node_sync_error \<Rightarrow> string) \<Rightarrow> CRule list \<Rightarrow> CWhitelist list \<Rightarrow> Node \<Rightarrow> 's fleet \<Rightarrow> 's fleet" where
  "sync_checkNode S text_of rules whitelist n w =
     (case at_node S n client_GetStats w of
        (Inl _, w1) \<Rightarrow> w1
      | (Inr stats, w1) \<Rightarrow>
          if stats_count ''rules_count'' stats \<noteq> int (length rules) \<or> stats_count ''whitelist_count'' stats \<noteq> int (length whitelist)
          then snd (DiffSyncToNode S text_of n rules whitelist w1)
          else w1)"

definition sync_check :: "'s SyncService \<Rightarrow> (node_sync_error \<Rightarrow> string) \<Rightarrow> 's fleet \<Rightarrow> 's fleet" where
  "sync_check S text_of w =
     (let (nodes, w1) = list_nodes S w
      in case read_store repo_ListEnabled w1 of
           (None, w2) \<Rightarrow> w2
         | (Some rules, w2) \<Rightarrow>
             (case read_store repo_ListWhitelist w2 of
                (None, w3) \<Rightarrow> w3
              | (Some whitelist, w3) \<Rightarrow>
                  fold (\<lambda>n w. if n_Status n = NodeStatusOffline then w else sync_checkNode S text_of rules whitelist n w) nodes w3))"

end
