(* ===== verification/FleetProps.thy ===== *)
theory FleetProps
  imports StartupFacts CtlProps BatchProps Scheduler
begin

text \<open>The properties of the fleet: retries, fan-out, the syncs of a node, the periodic checks, the start-up.\<close>

section \<open>Retries\<close>

text \<open>The state after \<open>k\<close> calls, and the answer of the next one.\<close>

definition after_calls :: "('w \<Rightarrow> 'r \<times> 'w) \<Rightarrow> nat \<Rightarrow> 'w \<Rightarrow> 'w" where
  "after_calls call k = (\<lambda>w. snd (call w)) ^^ k"

definition answer_of :: "('w \<Rightarrow> 'r \<times> 'w) \<Rightarrow> nat \<Rightarrow> 'w \<Rightarrow> 'r" where
  "answer_of call k w = fst (call (after_calls call k w))"

lemma after_calls_simps: "after_calls call 0 w = w" "after_calls call (Suc k) w = after_calls call k (snd (call w))"
  by (simp_all add: after_calls_def funpow_Suc_right del: funpow.simps(2))

lemma retry_loop_runs:
  "retry_loop n good call a got w = (r, w') \<Longrightarrow>
   \<exists>k. int k \<le> max 0 (n + 1 - a) \<and> w' = after_calls call k w \<and> (\<forall>i < k - 1. \<not> good (answer_of call i w)) \<and>
     r = (if k = 0 then got else Some (answer_of call (k - 1) w)) \<and>
     (int k = max 0 (n + 1 - a) \<or> k > 0 \<and> good (answer_of call (k - 1) w))"
proof (induction n good call a got w rule: retry_loop.induct)
  case (1 n good call a got w)
  show ?case
  proof (cases "a \<le> n")
    case False
    with 1(2) show ?thesis by (intro exI [of _ 0]) (simp add: retry_loop.simps [of n] after_calls_simps)
  next
    case True
    obtain x w1 where c: "call w = (x, w1)" by force
    have x: "answer_of call 0 w = x" by (simp add: answer_of_def after_calls_simps c)
    show ?thesis
    proof (cases "good x")
      case True
      with 1(2) \<open>a \<le> n\<close> c show ?thesis
        by (intro exI [of _ 1]) (auto simp: retry_loop.simps [of n] after_calls_simps x)
    next
      case False
      have "retry_loop n good call (a + 1) (Some x) w1 = (r, w')"
        using 1(2) \<open>a \<le> n\<close> c False by (simp add: retry_loop.simps [of n good call a])
      from 1(1) [OF True c [symmetric] refl False this] obtain k where
        k: "int k \<le> max 0 (n + 1 - (a + 1))" "w' = after_calls call k w1" "\<forall>i < k - 1. \<not> good (answer_of call i w1)"
          "r = (if k = 0 then Some x else Some (answer_of call (k - 1) w1))"
          "int k = max 0 (n + 1 - (a + 1)) \<or> k > 0 \<and> good (answer_of call (k - 1) w1)" by blast
      have s: "answer_of call (Suc i) w = answer_of call i w1" for i by (simp add: answer_of_def after_calls_simps c)
      have "\<not> good (answer_of call i w)" if "i < k" for i
      proof (cases i)
        case 0
        with False x show ?thesis by simp
      next
        case (Suc j)
        with k(3) that s show ?thesis by simp
      qed
      moreover have "r = Some (answer_of call k w)" using k(4) x s by (cases k) auto
      moreover have "int (Suc k) = max 0 (n + 1 - a) \<or> good (answer_of call k w)" using k(5) True s by (cases k) auto
      ultimately show ?thesis using k(1,2) True by (intro exI [of _ "Suc k"]) (auto simp: after_calls_simps c)
    qed
  qed
qed

text \<open>C12. Retries are bounded and end at the first good answer. The loop of every call to a node returns: it makes
  at most one call more than the number of retries, every answer before the last was not good, and it stops
  either with a good answer or after the last attempt, with the last answer. Only a negative number of
  retries leaves it without an answer.\<close>

theorem retries_bounded:
  fixes call :: "'w \<Rightarrow> 'r \<times> 'w"
  assumes "retry_loop n good call 0 None w = (r, w')"
  shows "\<exists>k. int k \<le> max 0 (n + 1) \<and> w' = ((\<lambda>w. snd (call w)) ^^ k) w \<and>
    (\<forall>i < k - 1. \<not> good (fst (call (((\<lambda>w. snd (call w)) ^^ i) w)))) \<and>
    (if k = 0 then r = None \<and> n < 0
     else \<exists>x. r = Some x \<and> x = fst (call (((\<lambda>w. snd (call w)) ^^ (k - 1)) w)) \<and> (good x \<or> int k = n + 1))"
proof -
  obtain k where k: "int k \<le> max 0 (n + 1)" "w' = after_calls call k w" "\<forall>i < k - 1. \<not> good (answer_of call i w)"
    "r = (if k = 0 then None else Some (answer_of call (k - 1) w))"
    "int k = max 0 (n + 1) \<or> k > 0 \<and> good (answer_of call (k - 1) w)"
    using retry_loop_runs [OF assms] by auto
  from k show ?thesis unfolding after_calls_def answer_of_def by (intro exI [of _ k]) auto
qed

theorem retries_bounded_witness:
  "\<exists>k. int k \<le> 4 \<and> (3::nat) = ((\<lambda>w. snd ((w = 2, Suc w))) ^^ k) 0 \<and> k \<noteq> 0"
proof -
  let ?c = "\<lambda>w :: nat. (w = 2, Suc w)"
  have r: "retry_loop 3 (\<lambda>b. b) ?c 0 None 0 = (Some True, 3)" by (simp add: retry_loop.simps)
  from retries_bounded [OF r] show ?thesis by (auto split: if_splits)
qed

section \<open>Fan-out\<close>

definition counts_ok :: "Node list \<Rightarrow> SyncResult \<Rightarrow> bool" where
  "counts_ok ns res \<longleftrightarrow> sr_Total res = int (length ns) \<and> sr_Success res + sr_Failures res = sr_Total res \<and>
     0 \<le> sr_Success res \<and> 0 \<le> sr_Failures res \<and> fst ` set (sr_Errors res) \<subseteq> n_Name ` set ns \<and>
     (sr_Failures res = 0 \<longleftrightarrow> sr_Errors res = [])"

lemma fan_out_counts:
  "fan_out job ns res w = (Some res', w') \<Longrightarrow> counts_ok done_ns res \<Longrightarrow>
   counts_ok (done_ns @ filter (\<lambda>n. n_Status n \<noteq> NodeStatusOffline) ns) res'"
proof (induction ns arbitrary: done_ns res w)
  case (Cons n ns)
  show ?case
  proof (cases "n_Status n = NodeStatusOffline")
    case True
    with Cons show ?thesis by simp
  next
    case False
    then obtain sm w1 where j: "job n w = (Some sm, w1)"
      "fan_out job ns (count_node n sm (res\<lparr>sr_Total := sr_Total res + 1\<rparr>)) w1 = (Some res', w')"
      using Cons.prems(1) by (auto split: prod.splits option.splits)
    have "AList.update k v m \<noteq> []" for k v and m :: "(string, string) gomap" by (cases m) auto
    then have "counts_ok (done_ns @ [n]) (count_node n sm (res\<lparr>sr_Total := sr_Total res + 1\<rparr>))"
      using Cons.prems(2) by (auto simp: counts_ok_def count_node_def dom_update)
    from Cons.IH [OF j(2) this] False show ?thesis by simp
  qed
qed simp

lemma retry_frame:
  assumes "retry_loop k good (at_node S n call) 0 None w = (r, w')"
  shows "fl_nodes w' = fl_nodes w" "fl_log w' = fl_log w" "fl_store w' = fl_store w" "r = None \<longleftrightarrow> k < 0"
proof -
  obtain j where j: "w' = after_calls (at_node S n call) j w" "int j \<le> max 0 (k + 1)" "(j = 0 \<longleftrightarrow> r = None)"
    "int j = max 0 (k + 1) \<or> 0 < j"
    using retry_loop_runs [OF assms] by (auto split: if_splits)
  have f: "fl_nodes (after_calls (at_node S n call) j v) = fl_nodes v \<and> fl_log (after_calls (at_node S n call) j v) = fl_log v \<and>
      fl_store (after_calls (at_node S n call) j v) = fl_store v" for v
  proof (induction j arbitrary: v)
    case (Suc j)
    obtain x v1 where c: "at_node S n call v = (x, v1)" by force
    from Suc [of v1] at_node_frame [OF c] show ?case by (simp add: after_calls_simps c)
  qed (simp add: after_calls_simps)
  then show "fl_nodes w' = fl_nodes w" "fl_log w' = fl_log w" "fl_store w' = fl_store w" using j(1) by simp_all
  show "r = None \<longleftrightarrow> k < 0" using j(2-4) by auto
qed

lemma sync_log_works:
  assumes "st_faults (fl_store w) = []"
  shows "sync_log nid action rid sm w =
    w\<lparr>fl_log := fl_log w @ [\<lparr>lg_NodeID = nid, lg_Action = action, lg_RuleID = rid, lg_Status = fst sm, lg_Error = snd sm\<rparr>]\<rparr>"
  using assms by (simp add: sync_log_def db_query_def)

lemma fan_out_retry:
  assumes n: "0 \<le> sv_retryCount S" and st: "\<And>x. status (Some x) \<noteq> None"
  shows "st_faults (fl_store w) = [] \<Longrightarrow> \<exists>c w' rows. fan_out (retry_job S good status call action rid) ns res w = (Some c, w') \<and>
    fl_nodes w' = fl_nodes w \<and> fl_log w' = fl_log w @ rows \<and> map lg_NodeID rows = map n_ID (filter (\<lambda>n. n_Status n \<noteq> NodeStatusOffline) ns) \<and>
    sr_Success c = sr_Success res + int (length (filter (\<lambda>l. lg_Status l = ''success'') rows))"
proof (induction ns arbitrary: res w)
  case (Cons n ns)
  show ?case
  proof (cases "n_Status n = NodeStatusOffline")
    case True
    with Cons show ?thesis by simp
  next
    case False
    obtain x w1 where r: "retry_loop (sv_retryCount S) good (at_node S n call) 0 None w = (x, w1)" by force
    note fr = retry_frame [OF r]
    obtain y where y: "x = Some y" using fr(4) n by (cases x) auto
    obtain sm where sm: "status (Some y) = Some sm" using st [of y] by (cases "status (Some y)") auto
    let ?l = "\<lparr>lg_NodeID = n_ID n, lg_Action = action, lg_RuleID = rid, lg_Status = fst sm, lg_Error = snd sm\<rparr>"
    let ?w = "w1\<lparr>fl_log := fl_log w1 @ [?l]\<rparr>" and ?res = "count_node n sm (res\<lparr>sr_Total := sr_Total res + 1\<rparr>)"
    have lg: "sync_log (n_ID n) action rid sm w1 = ?w" by (rule sync_log_works) (use fr(3) Cons.prems in simp)
    have j: "retry_job S good status call action rid n w = (Some sm, ?w)" by (simp add: retry_job_def r y sm lg)
    have "st_faults (fl_store ?w) = []" using fr(3) Cons.prems by simp
    from Cons.IH [OF this, of ?res] obtain c w' rows where k:
      "fan_out (retry_job S good status call action rid) ns ?res ?w = (Some c, w')" "fl_nodes w' = fl_nodes ?w"
      "fl_log w' = fl_log ?w @ rows" "map lg_NodeID rows = map n_ID (filter (\<lambda>n. n_Status n \<noteq> NodeStatusOffline) ns)"
      "sr_Success c = sr_Success ?res + int (length (filter (\<lambda>l. lg_Status l = ''success'') rows))" by blast
    show ?thesis
    proof (intro exI conjI)
      show "fan_out (retry_job S good status call action rid) (n # ns) res w = (Some c, w')" using False j k(1) by simp
      show "fl_nodes w' = fl_nodes w" using k(2) fr(1) by simp
      show "fl_log w' = fl_log w @ (?l # rows)" using k(3) fr(2) by simp
      show "map lg_NodeID (?l # rows) = map n_ID (filter (\<lambda>n. n_Status n \<noteq> NodeStatusOffline) (n # ns))" using k(4) False by simp
      show "sr_Success c = sr_Success res + int (length (filter (\<lambda>l. lg_Status l = ''success'') (?l # rows)))"
        using k(5) by (simp add: count_node_def)
    qed
  qed
qed simp

lemma list_nodes_frame:
  assumes "list_nodes S w = (ns, w')"
  shows "ns = map snd (fl_nodes w)" "fl_nodes w' = fl_nodes w" "fl_log w' = fl_log w" "fl_store w' = fl_store w"
proof -
  have *: "fl_nodes (fold (\<lambda>n w. snd (at_node S n client_GetStats w)) ns v) = fl_nodes v \<and>
      fl_log (fold (\<lambda>n w. snd (at_node S n client_GetStats w)) ns v) = fl_log v \<and>
      fl_store (fold (\<lambda>n w. snd (at_node S n client_GetStats w)) ns v) = fl_store v" for ns v
  proof (induction ns arbitrary: v)
    case (Cons n ns)
    obtain r v1 where c: "at_node S n client_GetStats v = (r, v1)" by force
    from Cons [of v1] at_node_frame [OF c] c show ?case by simp
  qed simp
  show "ns = map snd (fl_nodes w)" "fl_nodes w' = fl_nodes w" "fl_log w' = fl_log w" "fl_store w' = fl_store w"
    using assms * by (auto simp: list_nodes_def Let_def)
qed

text \<open>The calls that go to each node once.\<close>

definition single_call :: "sync_action \<Rightarrow> bool" where
  "single_call a = (case a of SyncUpdateRule _ \<Rightarrow> False | SyncAddRulesBatch _ \<Rightarrow> False | FullSyncToAllNodes \<Rightarrow> False | _ \<Rightarrow> True)"

lemma single_call_is:
  assumes "single_call a"
  shows "\<exists>good status call action rid. perform_sync S text_of a = to_nodes S (retry_job S good status call action rid) \<and>
    (\<forall>x. status (Some x) \<noteq> None)"
proof -
  have s: "\<forall>x. add_status (Some x) \<noteq> None" "\<forall>x. delete_status (Some x) \<noteq> None"
    by (auto simp: add_status_def delete_status_def split: sum.splits)
  show ?thesis
  proof (cases a)
    case (SyncAddRule r)
    then have e: "perform_sync S text_of a = to_nodes S (retry_job S add_good add_status (\<lambda>A. client_AddRule A (ToNodeRule r))
      ''add_rule'' (c_ID r))" by (simp add: perform_sync_def sync_AddRule_def)
    show ?thesis unfolding e using s(1) by blast
  next
    case (SyncDeleteRule rid)
    then have e: "perform_sync S text_of a = to_nodes S (retry_job S delete_good delete_status (\<lambda>A. client_DeleteRule A rid)
      ''delete_rule'' rid)" by (simp add: perform_sync_def sync_DeleteRule_def)
    show ?thesis unfolding e using s(2) by blast
  next
    case (SyncAddWhitelist w)
    then have e: "perform_sync S text_of a = to_nodes S (retry_job S add_good add_status (\<lambda>A. client_AddWhitelist A (ToNodeWhitelist w))
      ''add_whitelist'' (e_ID w))" by (simp add: perform_sync_def sync_AddWhitelist_def)
    show ?thesis unfolding e using s(1) by blast
  next
    case (SyncDeleteWhitelist wid)
    then have e: "perform_sync S text_of a = to_nodes S (retry_job S delete_good delete_status (\<lambda>A. client_DeleteWhitelist A wid)
      ''delete_whitelist'' wid)" by (simp add: perform_sync_def sync_DeleteWhitelist_def)
    show ?thesis unfolding e using s(2) by blast
  qed (use assms in \<open>simp_all add: single_call_def\<close>)
qed


definition silent_service :: "int \<Rightarrow> unit SyncService" where
  "silent_service k = \<lparr>sv_connect = (\<lambda>_. \<lparr>http = (\<lambda>_ s. (NoReply ''refused'', s))\<rparr>), sv_retryCount = k, sv_now = 0\<rparr>"

definition two_nodes :: "unit fleet" where
  "two_nodes = \<lparr>fl_nodes =
     [(''n1'', \<lparr>n_ID = ''n1'', n_Name = ''a'', n_Endpoint = ''e1'', n_ApiKey = [], n_Status = NodeStatusOnline, n_LastSync = None, n_LastSeen = None\<rparr>),
      (''n2'', \<lparr>n_ID = ''n2'', n_Name = ''b'', n_Endpoint = ''e2'', n_ApiKey = [], n_Status = NodeStatusOffline, n_LastSync = None, n_LastSeen = None\<rparr>)],
     fl_remote = (\<lambda>_. ()), fl_log = [], fl_store = empty_store\<rparr>"


lemma retry_none: "k < 0 \<Longrightarrow> retry_loop k good call 0 None w = (None, w)"
  by (simp add: retry_loop.simps)

text \<open>C39. A negative number of retries. Nothing in the code excludes it; then no node is called at all: an
  addition brings the controller down as soon as one node is not offline, and a deletion is reported as a
  success on every node.\<close>

theorem negative_retries:
  assumes "sv_retryCount S < 0" "\<exists>n \<in> set (map snd (fl_nodes w)). n_Status n \<noteq> NodeStatusOffline"
  shows "fst (sync_AddRule S rule w) = None \<and>
    (\<exists>c w'. sync_DeleteRule S rid w = (Some c, w') \<and> sr_Failures c = 0 \<and> sr_Success c = sr_Total c \<and> sr_Total c > 0 \<and>
       fl_remote w' = fl_remote (snd (list_nodes S w)))"
proof -
  obtain ns w1 where l: "list_nodes S w = (ns, w1)" by force
  note lf = list_nodes_frame [OF l]
  have j: "retry_job S add_good add_status call action i n v = (None, v)" for call action i n v
    using assms(1) by (simp add: retry_job_def retry_none add_status_def)
  have "fst (fan_out (retry_job S add_good add_status call action i) xs res v) = None"
    if "\<exists>n \<in> set xs. n_Status n \<noteq> NodeStatusOffline" for call action i xs res v
    using that by (induction xs arbitrary: res) (auto simp: j)
  then have add: "fst (sync_AddRule S rule w) = None" using assms(2) lf(1) l by (simp add: sync_AddRule_def to_nodes_def)
  have d: "retry_job S delete_good delete_status call action i n v = (Some (''success'', []), sync_log (n_ID n) action i (''success'', []) v)"
    for call action i n v using assms(1) by (simp add: retry_job_def retry_none delete_status_def)
  have r: "fl_remote (sync_log nid action i sm v) = fl_remote v" for nid action i sm v
    by (simp add: sync_log_def split: prod.splits option.splits)
  have del: "\<exists>c v'. fan_out (retry_job S delete_good delete_status call action i) xs res v = (Some c, v') \<and> sr_Failures c = sr_Failures res \<and>
      fl_remote v' = fl_remote v" for call action i xs res v
  proof (induction xs arbitrary: res v)
    case (Cons n xs)
    show ?case
    proof (cases "n_Status n = NodeStatusOffline")
      case True
      with Cons.IH [of res v] show ?thesis by simp
    next
      case False
      let ?res = "count_node n (''success'', []) (res\<lparr>sr_Total := sr_Total res + 1\<rparr>)"
      from Cons.IH [of ?res "sync_log (n_ID n) action i (''success'', []) v"] obtain c v' where
        k: "fan_out (retry_job S delete_good delete_status call action i) xs ?res (sync_log (n_ID n) action i (''success'', []) v) = (Some c, v')"
        "sr_Failures c = sr_Failures ?res" "fl_remote v' = fl_remote v" by (auto simp: r)
      have dn: "retry_job S delete_good delete_status call action i n v = (Some (''success'', []), sync_log (n_ID n) action i (''success'', []) v)"
        by (rule d)
      have f: "sr_Failures ?res = sr_Failures res" by (simp add: count_node_def)
      have "fan_out (retry_job S delete_good delete_status call action i) (n # xs) res v = (Some c, v')"
        unfolding fan_out.simps(2) dn prod.case option.case using False k(1) by (simp only: if_False)
      with k(2,3) f show ?thesis by metis
    qed
  qed simp
  obtain c w' where f: "fan_out (retry_job S delete_good delete_status (\<lambda>A. client_DeleteRule A rid) ''delete_rule'' rid) ns newSyncResult w1 = (Some c, w')"
    "sr_Failures c = 0" "fl_remote w' = fl_remote w1"
    using del [of "\<lambda>A. client_DeleteRule A rid" "''delete_rule''" rid ns newSyncResult w1] by (auto simp: newSyncResult_def)
  have "counts_ok [] newSyncResult" by (simp add: counts_ok_def newSyncResult_def)
  from fan_out_counts [OF f(1) this] have "counts_ok (filter (\<lambda>n. n_Status n \<noteq> NodeStatusOffline) ns) c" by simp
  moreover have "filter (\<lambda>n. n_Status n \<noteq> NodeStatusOffline) ns \<noteq> []" using assms(2) lf(1) by (simp add: filter_empty_conv)
  ultimately have "sr_Success c = sr_Total c" "sr_Total c > 0" using f(2) by (simp_all add: counts_ok_def)
  moreover have "sync_DeleteRule S rid w = (Some c, w')" by (simp add: sync_DeleteRule_def to_nodes_def l f(1))
  ultimately show ?thesis using add f(2,3) l by auto
qed

theorem negative_retries_witness:
  "fst (sync_AddRule (silent_service (- 1)) dns_rule two_nodes) = None"
  by (rule negative_retries [THEN conjunct1]) (simp_all add: silent_service_def two_nodes_def node_status)

section \<open>The full sync of a node\<close>

text \<open>Agents whose kernel fails no call, and agents whose hash maps may fail at any time.\<close>

definition faulty_kernel :: "(fmap, (bytes, bytes) gomap, (trie_key \<times> u32) list) kernel" where
  "faulty_kernel = \<lparr>hash = list_hash, arr = plain_array, trie = list_trie\<rparr>"

interpretation plain_agents: synced_agent plain_kernel E plain_get map_of for E
  by (rule lawful_agent [OF plain_laws(2,3)])

interpretation faulty_agents: synced_agent faulty_kernel E plain_get fmap_get for E
  by (rule lawful_agent) (simp_all add: faulty_kernel_def list_hash_laws plain_array_reliable)


definition plain_service :: "((bytes, bytes) gomap, (bytes, bytes) gomap, (trie_key \<times> u32) list) remote SyncService" where
  "plain_service = \<lparr>sv_connect = (\<lambda>_. agent_endpoint plain_kernel \<lparr>ae_uuid = (\<lambda>_ _. ''u''), ae_now = int\<rparr>), sv_retryCount = 3, sv_now = 7\<rparr>"

definition sample_node :: Node where
  "sample_node = \<lparr>n_ID = ''n1'', n_Name = ''a'', n_Endpoint = ''e1'', n_ApiKey = [], n_Status = NodeStatusOnline, n_LastSync = None, n_LastSeen = None\<rparr>"

definition plain_fleet :: "net_fault list \<Rightarrow> ((bytes, bytes) gomap, (bytes, bytes) gomap, (trie_key \<times> u32) list) remote fleet" where
  "plain_fleet fs = \<lparr>fl_nodes = [(''n1'', sample_node)], fl_remote = (\<lambda>_. \<lparr>re_node = plain_start, re_served = 0, re_faults = fs\<rparr>),
     fl_log = [], fl_store = dns_store\<rparr>"

lemma plain_start_holds: "rules_held plain_start = {}" "entries_held plain_start = {}"
  by (simp_all add: rules_held_def entries_held_def plain_start_def)

lemma plain_start_ready: "node_ready plain_get 4 plain_start"
  using plain_start_ok(1) plain_start_holds(2)
  by (simp add: node_ready_def ids_disjoint_def rules_held_def plain_start_def room_def NewManager_def)

lemma iterates_plain: "iterates_once (hash plain_kernel) map_of"
  by (simp add: iterates_once_def plain_kernel_def plain_hash_def dom_map_of_conv_image_fst)

lemma dns_fields:
  "c_ID dns_rule = ''rule_1''" "c_Enabled dns_rule" "st_rules dns_store = [dns_rule]" "st_whitelist dns_store = []" "st_faults dns_store = []"
  "c_SrcCIDR dns_rule = []" "c_DstPort dns_rule = 53" "c_SrcIP dns_rule = []" "c_DstIP dns_rule = []" "c_Protocol dns_rule = ''udp''"
  by (simp_all add: rule_of_request_def sample_env_def dns_request_def empty_request_def empty_store_def stored_protocol_def)

lemma plain_accepts: "trie_accepts (trie plain_kernel)"
  by (simp add: trie_accepts_def plain_kernel_def list_trie_def)






text \<open>An agent that adds one rule.\<close>

lemma dns_is_udp: "node_rule dns_rule = udp_rule ''rule_1'' 53"
  by (simp add: node_rule_def udp_rule_def rule_of_request_def sample_env_def dns_request_def empty_request_def stored_protocol_def
      derefInt_def derefString_def)

lemma add_dns: "\<exists>h'. AddRulesBatch plain_kernel fresh [udp_rule ''rule_1'' 53] plain_start = (BatchDone 1 0, h') \<and> wlEntries h' = []"
proof -
  let ?r = "udp_rule ''rule_1'' 53"
  let ?p = "\<lparr>pr_id = ''rule_1'', pr_stored = stored_of (udp_key 53) ?r, pr_value = value_of ActionDrop 0 0 ?r\<rparr>"
  have p: "prepare_batch fresh 0 [?r] [] 0 = ([?p], 0)" by (simp add: udp_batch_checks rule_id_def)
  obtain old h2 where st: "stage_items plain_kernel [?p] plain_start = ([(?p, old)], 0, h2)" "wlEntries h2 = []"
    by (simp add: rule_stage_def key_conflict_def plain_start_def plain_kernel_def replace_bpf_def stale_key_def plain_hash_def
          activeBlacklist_def set_activeBlacklist_def add_rule_memory_def Let_def)
  obtain h3 where h3: "publishConfigUpdate plain_kernel (if old = None then 1 else 0) 0 0 h2 = (None, h3)"
    using publish_succeeds [OF plain_laws(3)] by blast
  have "wlEntries h3 = []" using publish_views(11) [OF h3] st(2) by simp
  moreover have "AddRulesBatch plain_kernel fresh [?r] plain_start = (BatchDone 1 0, h3)"
    by (cases old) (use h3 in \<open>simp_all add: AddRulesBatch_def p st(1) Let_def del: prepare_batch.simps stage_items.simps\<close>)
  ultimately show ?thesis by blast
qed



section \<open>The periodic check\<close>

text \<open>C40. The check compares numbers only. A node that answers with as many rules and as many entries as the
  controller wants is left as it is, whichever rules and entries they are: nothing is sent to it but the request for
  its statistics, and nothing is logged.\<close>

theorem checker_sees_counts_only:
  fixes w :: "('m, 'c, 't) remote fleet" and rs :: "CRule list" and es :: "CWhitelist list"
  assumes S: "sv_connect S (n_ApiKey n) = agent_endpoint K E" and net: "re_faults (fl_remote w (n_Endpoint n)) = []"
    and counts: "length (rules (re_node (fl_remote w (n_Endpoint n)))) + length (cidrRules (re_node (fl_remote w (n_Endpoint n)))) = length rs"
      "length (wlEntries (re_node (fl_remote w (n_Endpoint n)))) = length es"
    and c: "sync_checkNode S text_of rs es n w = w'"
  shows "re_node (fl_remote w' e) = re_node (fl_remote w e) \<and> fl_nodes w' = fl_nodes w \<and> fl_log w' = fl_log w"
proof -
  let ?s = "fl_remote w (n_Endpoint n)"
  have g: "\<exists>stats. client_GetStats (agent_endpoint K E) ?s = (Inr stats, ?s\<lparr>re_served := re_served ?s + 1\<rparr>) \<and>
      stats_count ''rules_count'' stats = int (length rs) \<and> stats_count ''whitelist_count'' stats = int (length es)"
    using net counts by (simp add: client_GetStats_def client_get_def agent_endpoint_def agent_http_def serve_next_def agent_serve_def stats_count_def)
  then obtain stats where g: "client_GetStats (agent_endpoint K E) ?s = (Inr stats, ?s\<lparr>re_served := re_served ?s + 1\<rparr>)"
    "stats_count ''rules_count'' stats = int (length rs)" "stats_count ''whitelist_count'' stats = int (length es)" by blast
  have "w' = w\<lparr>fl_remote := (fl_remote w)(n_Endpoint n := ?s\<lparr>re_served := re_served ?s + 1\<rparr>)\<rparr>"
    using c by (simp add: sync_checkNode_def at_node_def S g Let_def)
  then show ?thesis by simp
qed

text \<open>A node that holds some other rule instead of the stored one.\<close>

definition stale_node :: "((bytes, bytes) gomap, (bytes, bytes) gomap, (trie_key \<times> u32) list) Handlers" where
  "stale_node = plain_start\<lparr>rules := [(''other'', stored_of (udp_key 99) (udp_rule ''other'' 99))]\<rparr>"

definition stale_fleet :: "((bytes, bytes) gomap, (bytes, bytes) gomap, (trie_key \<times> u32) list) remote fleet" where
  "stale_fleet = (plain_fleet [])\<lparr>fl_remote := (\<lambda>_. \<lparr>re_node = stale_node, re_served = 0, re_faults = []\<rparr>)\<rparr>"

theorem checker_sees_counts_only_witness:
  "rules_held (re_node (fl_remote (sync_checkNode plain_service (\<lambda>_. []) [dns_rule] [] sample_node stale_fleet) ''e1'')) = {''other''} \<and>
   c_ID dns_rule = ''rule_1''"
proof -
  let ?w = "sync_checkNode plain_service (\<lambda>_. []) [dns_rule] [] sample_node stale_fleet"
  have S: "sv_connect plain_service (n_ApiKey sample_node) = agent_endpoint plain_kernel \<lparr>ae_uuid = (\<lambda>_ _. ''u''), ae_now = int\<rparr>"
    by (simp add: plain_service_def)
  have "re_node (fl_remote ?w ''e1'') = re_node (fl_remote stale_fleet ''e1'')"
    by (rule checker_sees_counts_only [OF S _ _ _ refl, THEN conjunct1])
      (simp_all add: stale_fleet_def stale_node_def plain_start_def)
  then show ?thesis using dns_fields(1) by (simp add: rules_held_def stale_fleet_def stale_node_def plain_start_def)
qed

section \<open>The start of a node\<close>


text \<open>A store with one rule, which is disabled.\<close>

definition idle_request :: RuleRequest where
  "idle_request = dns_request\<lparr>q_Enabled := Some False\<rparr>"

abbreviation (input) idle_rule where
  "idle_rule \<equiv> rule_of_request sample_env 0 None idle_request"

abbreviation (input) idle_store where
  "idle_store \<equiv> empty_store\<lparr>st_rules := [idle_rule]\<rparr>"

lemma create_idle:
  "CreateRule sample_env idle_request empty_store =
     (let r = rule_of_request sample_env 0 None idle_request in (Inr r, [], empty_store\<lparr>st_rules := [r]\<rparr>))"
  by (simp add: CreateRule_def request_checks store_evals idle_request_def dns_request_def sample_env_def rule_of_request_def)

lemma idle_reachable: "ctl_reachable idle_store"
proof -
  have e: "ctl_reachable empty_store" unfolding empty_store_def by (rule ctl_reachable.start)
  have "ctl_step empty_store [] idle_store"
    by (rule ctl_step.create [of sample_env idle_request]) (simp add: create_idle Let_def)
  then show ?thesis by (rule ctl_reachable.step [OF e])
qed

lemma idle_fields:
  "c_ID idle_rule = ''rule_1''" "\<not> c_Enabled idle_rule" "st_rules idle_store = [idle_rule]" "st_whitelist idle_store = []" "st_faults idle_store = []"
  "c_Protocol idle_rule = ''udp''" "c_DstPort idle_rule = 53" "c_SrcIP idle_rule = []" "c_DstIP idle_rule = []"
  by (simp_all add: rule_of_request_def sample_env_def idle_request_def dns_request_def empty_request_def empty_store_def stored_protocol_def)


end
