(* ===== verification/HealthProps.thy ===== *)
theory HealthProps
  imports FleetProps
begin

text \<open>The status of a node over the rounds of the health check.\<close>

text \<open>A node is up or down for a whole round, by its endpoint; a node that is down answers nothing.\<close>

definition up_service :: "int \<Rightarrow> bool SyncService" where
  "up_service now = \<lparr>sv_connect = (\<lambda>_. \<lparr>http = (\<lambda>_ up. (if up then Reply 200 [] (Some zero_answer) else NoReply ''timeout'', up))\<rparr>),
     sv_retryCount = 3, sv_now = now\<rparr>"

definition health_round :: "int \<Rightarrow> (string \<Rightarrow> bool) \<Rightarrow> fail_counts \<times> bool fleet \<Rightarrow> fail_counts \<times> bool fleet" where
  "health_round now up st = health_check (up_service now) (fst st, (snd st)\<lparr>fl_remote := up\<rparr>)"

lemma up_calls:
  "at_node (up_service now) n client_Ping w =
     (if fl_remote w (n_Endpoint n) then None else Some (TransportError ''timeout''), w)"
  "snd (at_node (up_service now) n client_GetStats w) = w"
  by (cases w; simp add: at_node_def client_Ping_def client_GetStats_def client_get_def up_service_def fun_upd_idem)+

text \<open>What a round keeps of one node: its row, its count of failures, and who is up.\<close>

definition node_view :: "string \<Rightarrow> fail_counts \<times> 's fleet \<Rightarrow> Node option \<times> int \<times> (string \<Rightarrow> 's)" where
  "node_view nid st = (map_of (fl_nodes (snd st)) nid, fail_count nid (fst st), fl_remote (snd st))"

lemma fail_count_simps:
  "fail_count i (AList.update j k fc) = (if i = j then k else fail_count i fc)"
  "fail_count i (AList.delete j fc) = (if i = j then 0 else fail_count i fc)"
  by (simp_all add: fail_count_def update_conv' delete_conv')

lemma health_other:
  assumes "n_ID n \<noteq> nid"
  shows "node_view nid (health_checkNode (up_service now) n st) = node_view nid st"
  using assms
  by (cases st) (auto simp: node_view_def health_checkNode_def up_calls table_updates fail_count_simps Let_def)

definition checked :: "int \<Rightarrow> bool \<Rightarrow> int \<Rightarrow> Node \<Rightarrow> Node \<times> int" where
  "checked now up k n =
     (if up then (n\<lparr>n_Status := NodeStatusOnline, n_LastSeen := Some now\<rparr>, 0)
      else (if k + 1 \<ge> offlineThreshold then n\<lparr>n_Status := NodeStatusOffline\<rparr> else n, k + 1))"

lemma health_self:
  assumes "node_view (n_ID n) st = (Some n, k, up)"
  shows "node_view (n_ID n) (health_checkNode (up_service now) n st) =
    (let (m, j) = checked now (up (n_Endpoint n)) k n in (Some m, j, up))"
proof -
  obtain fc w where st: "st = (fc, w)" by force
  have v: "map_of (fl_nodes w) (n_ID n) = Some n" "fail_count (n_ID n) fc = k" "fl_remote w = up"
    using assms by (simp_all add: st node_view_def)
  have now: "sv_now (up_service now) = now" by (simp add: up_service_def)
  show ?thesis
    using v by (cases n) (auto simp: st node_view_def health_checkNode_def up_calls table_updates fail_count_simps checked_def Let_def now)
qed

lemma health_fold_other:
  "nid \<notin> n_ID ` set ns \<Longrightarrow> node_view nid (fold (health_checkNode (up_service now)) ns st) = node_view nid st"
  by (induction ns arbitrary: st) (auto simp: health_other)

lemma health_fold_self:
  "n \<in> set ns \<Longrightarrow> distinct (map n_ID ns) \<Longrightarrow> node_view (n_ID n) st = (Some n, k, up) \<Longrightarrow>
   node_view (n_ID n) (fold (health_checkNode (up_service now)) ns st) =
     (let (m, j) = checked now (up (n_Endpoint n)) k n in (Some m, j, up))"
proof (induction ns arbitrary: st)
  case (Cons a ns)
  show ?case
  proof (cases "a = n")
    case True
    then have "n_ID n \<notin> n_ID ` set ns" using Cons.prems(2) by simp
    then show ?thesis using True health_self [OF Cons.prems(3)] by (simp add: health_fold_other)
  next
    case False
    then have n: "n \<in> set ns" "n_ID a \<noteq> n_ID n" using Cons.prems(1,2) by (auto simp: image_iff)
    then show ?thesis using Cons.IH [OF n(1)] Cons.prems(2,3) health_other [OF n(2)] by simp
  qed
qed simp

text \<open>A table of nodes by their IDs, and that a check keeps it one.\<close>

definition keyed :: "(string, Node) gomap \<Rightarrow> bool" where
  "keyed T \<longleftrightarrow> is_gomap T \<and> (\<forall>i n. map_of T i = Some n \<longrightarrow> n_ID n = i)"

lemma keyed_rows:
  assumes "keyed T" "map_of T i = Some n"
  shows "n_ID n = i" "n \<in> set (map snd T)" "distinct (map n_ID (map snd T))"
proof -
  have g: "is_gomap T" "\<forall>i n. map_of T i = Some n \<longrightarrow> n_ID n = i" using assms(1) by (simp_all add: keyed_def)
  show "n_ID n = i" using g(2) assms(2) by blast
  show "n \<in> set (map snd T)" using map_of_SomeD [OF assms(2)] by force
  have "n_ID (snd p) = fst p" if "p \<in> set T" for p
    using g(2) set_gomap [OF g(1), of "fst p" "snd p"] that by simp
  then have "map n_ID (map snd T) = map fst T" by (simp only: map_map comp_def) (rule map_cong, simp_all)
  then show "distinct (map n_ID (map snd T))" using g(1) by (simp only:)
qed

lemma keyed_update_node:
  assumes "keyed (fl_nodes w)" "\<And>n. n_ID (f n) = n_ID n"
  shows "keyed (fl_nodes (update_node nid f w))"
proof -
  have "is_gomap (fl_nodes (update_node nid f w))"
    using assms(1) by (auto simp: keyed_def update_node_def split: option.splits)
  then show ?thesis using assms by (auto simp: keyed_def update_node_table)
qed

lemma keyed_check:
  assumes "keyed (fl_nodes (snd st))"
  shows "keyed (fl_nodes (snd (health_checkNode (up_service now) n st)))"
  using assms
  by (cases st) (auto simp: health_checkNode_def up_calls Let_def UpdateStatus_def UpdateLastSeen_def intro!: keyed_update_node)

lemma keyed_fold: "keyed (fl_nodes (snd st)) \<Longrightarrow> keyed (fl_nodes (snd (fold (health_checkNode (up_service now)) ns st)))"
  by (induction ns arbitrary: st) (auto simp: keyed_check)

lemma up_list: "list_nodes (up_service now) w = (map snd (fl_nodes w), w)"
proof -
  have "fold (\<lambda>n w. snd (at_node (up_service now) n client_GetStats w)) ns w = w" for ns
    by (induction ns) (simp_all add: up_calls)
  then show ?thesis by (simp add: list_nodes_def)
qed

lemma health_round_view:
  assumes "keyed (fl_nodes (snd st))" "map_of (fl_nodes (snd st)) nid = Some n" "fail_count nid (fst st) = k"
  shows "keyed (fl_nodes (snd (health_round now up st)))"
    "map_of (fl_nodes (snd (health_round now up st))) nid = Some (fst (checked now (up (n_Endpoint n)) k n))"
    "fail_count nid (fst (health_round now up st)) = snd (checked now (up (n_Endpoint n)) k n)"
proof -
  let ?st = "(fst st, (snd st)\<lparr>fl_remote := up\<rparr>)"
  have r: "health_round now up st = fold (health_checkNode (up_service now)) (map snd (fl_nodes (snd st))) ?st"
    by (simp add: health_round_def health_check_def up_list)
  note n = keyed_rows [OF assms(1,2)]
  show "keyed (fl_nodes (snd (health_round now up st)))" unfolding r by (rule keyed_fold) (use assms(1) in simp)
  have "node_view (n_ID n) ?st = (Some n, k, up)" using assms(2,3) n(1) by (simp add: node_view_def)
  from health_fold_self [OF n(2,3) this] have
    v: "node_view nid (health_round now up st) = (let (m, j) = checked now (up (n_Endpoint n)) k n in (Some m, j, up))"
    unfolding r n(1) .
  then show "map_of (fl_nodes (snd (health_round now up st))) nid = Some (fst (checked now (up (n_Endpoint n)) k n))"
    "fail_count nid (fst (health_round now up st)) = snd (checked now (up (n_Endpoint n)) k n)"
    by (simp_all add: node_view_def split_beta Let_def)
qed

text \<open>The rounds in which an endpoint has been down, counted from the last one.\<close>

definition down_for :: "string \<Rightarrow> (string \<Rightarrow> bool) list \<Rightarrow> nat" where
  "down_for e ups = length (takeWhile (\<lambda>up. \<not> up e) (rev ups))"

lemma down_for_simps [simp]: "down_for e [] = 0" "down_for e (ups @ [up]) = (if up e then 0 else Suc (down_for e ups))"
  by (simp_all add: down_for_def)

text \<open>C16. The health check counts what it should. Over any rounds in which the nodes are up or down as they like, a
  node that was not offline is marked offline exactly when it was down in the last three rounds or more, and it
  is online after every round in which it was up; the other nodes do not matter, and its row is never lost.\<close>

theorem health_follows_pings:
  assumes "keyed (fl_nodes w)" "map_of (fl_nodes w) nid = Some n" "n_Status n \<noteq> NodeStatusOffline"
  shows "\<exists>m. map_of (fl_nodes (snd (fold (health_round now) ups ([], w)))) nid = Some m \<and> n_Endpoint m = n_Endpoint n \<and>
    (n_Status m = NodeStatusOffline \<longleftrightarrow> 3 \<le> down_for (n_Endpoint n) ups) \<and>
    (ups \<noteq> [] \<and> down_for (n_Endpoint n) ups = 0 \<longrightarrow> n_Status m = NodeStatusOnline)"
proof -
  have "\<exists>m. map_of (fl_nodes (snd (fold (health_round now) ups ([], w)))) nid = Some m \<and> n_Endpoint m = n_Endpoint n \<and>
      keyed (fl_nodes (snd (fold (health_round now) ups ([], w)))) \<and>
      fail_count nid (fst (fold (health_round now) ups ([], w))) = int (down_for (n_Endpoint n) ups) \<and>
      (n_Status m = NodeStatusOffline \<longleftrightarrow> 3 \<le> down_for (n_Endpoint n) ups) \<and>
      (ups \<noteq> [] \<and> down_for (n_Endpoint n) ups = 0 \<longrightarrow> n_Status m = NodeStatusOnline)"
  proof (induction ups rule: rev_induct)
    case Nil
    with assms show ?case by (simp add: fail_count_def)
  next
    case (snoc up ups)
    let ?st = "fold (health_round now) ups ([], w)"
    obtain m where m: "map_of (fl_nodes (snd ?st)) nid = Some m" "n_Endpoint m = n_Endpoint n" "keyed (fl_nodes (snd ?st))"
      "fail_count nid (fst ?st) = int (down_for (n_Endpoint n) ups)" "n_Status m = NodeStatusOffline \<longleftrightarrow> 3 \<le> down_for (n_Endpoint n) ups"
      using snoc by blast
    note v = health_round_view [OF m(3,1,4), of now up]
    let ?c = "checked now (up (n_Endpoint n)) (int (down_for (n_Endpoint n) ups)) m"
    have c: "n_Endpoint (fst ?c) = n_Endpoint n" "snd ?c = int (down_for (n_Endpoint n) (ups @ [up]))"
      "n_Status (fst ?c) = NodeStatusOffline \<longleftrightarrow> 3 \<le> down_for (n_Endpoint n) (ups @ [up])"
      "up (n_Endpoint n) \<Longrightarrow> n_Status (fst ?c) = NodeStatusOnline"
      using m(2,5) by (auto simp: checked_def node_status offlineThreshold_def)
    show ?case using v c m(2) by (intro exI [of _ "fst ?c"]) (simp add: m(2) split: if_splits)
  qed
  then show ?thesis by blast
qed

definition two_up :: "bool fleet" where
  "two_up = \<lparr>fl_nodes = fl_nodes two_nodes, fl_remote = (\<lambda>_. True), fl_log = [], fl_store = empty_store\<rparr>"

theorem health_follows_pings_witness:
  "\<exists>m. map_of (fl_nodes (snd (fold (health_round 5) [\<lambda>_. True, \<lambda>e. e = ''e2'', \<lambda>_. False, \<lambda>_. False] ([], two_up)))) ''n1'' = Some m \<and>
     n_Status m = NodeStatusOffline"
proof -
  let ?n = "snd (hd (fl_nodes two_nodes))"
  have t: "keyed (fl_nodes two_up)" "map_of (fl_nodes two_up) ''n1'' = Some ?n" "n_Status ?n \<noteq> NodeStatusOffline"
    by (auto simp: keyed_def two_up_def two_nodes_def node_status)
  have "n_Endpoint ?n = ''e1''" by (simp add: two_nodes_def)
  then have "3 \<le> down_for (n_Endpoint ?n) [\<lambda>_. True, \<lambda>e. e = ''e2'', \<lambda>_. False, \<lambda>_. False]" by (simp add: down_for_def)
  with health_follows_pings [OF t] show ?thesis by metis
qed

end
